(* ===== verification/Prelude.thy ===== *)
theory Prelude
  imports Main "HOL-Library.Word"
begin

text \<open>
  What every component shares: the machine types of the C sources, the readings of word operations
  as arithmetic on natural numbers, and the carry and borrow facts of modular arithmetic.

  C's unsigned types are \<open>'a word\<close>; its signed types are the same words read with \<open>sint\<close>.
\<close>

unbundle bit_operations_syntax

section \<open>Machine types\<close>

type_synonym u8 = "8 word"
type_synonym u16 = "16 word"
type_synonym u32 = "32 word"
type_synonym u64 = "64 word"

named_theorems word_nat "readings of word operations as operations on natural numbers"

lemma unat_push_bit_mod [word_nat]:
  "unat (push_bit n (w::'a::len word)) = (unat w * 2 ^ n) mod 2 ^ LENGTH('a)"
  by (simp only: unsigned_push_bit_eq take_bit_eq_mod) (simp add: push_bit_eq_mult)

lemma unat_drop_bit_div [word_nat]:
  "unat (drop_bit n (w::'a::len word)) = unat w div 2 ^ n"
  by (simp only: unat_drop_bit_eq) (simp only: drop_bit_eq_div)

lemma unat_and_mask_mod [word_nat]:
  "unat ((w::'a::len word) AND mask n) = unat w mod 2 ^ n"
  by (metis take_bit_eq_mask take_bit_eq_mod unsigned_take_bit_eq)

lemma unat_ucast_mod [word_nat]:
  "unat (ucast (w::'a::len word) :: 'b::len word) = unat w mod 2 ^ LENGTH('b)"
  by (simp add: unsigned_ucast_eq take_bit_eq_mod)

lemmas word_nat_arith [word_nat] = unat_word_ariths

lemma unat_lt: "unat (w::'a::len word) < 2 ^ LENGTH('a)"
  by (rule unsigned_less)


lemma unat_of_nat_less: "n < 2 ^ LENGTH('a) \<Longrightarrow> unat (of_nat n :: 'a::len word) = n"
  by (simp add: unsigned_of_nat take_bit_nat_eq_self)

lemma of_nat_mod_word [simp]: "(of_nat (n mod 2 ^ LENGTH('a)) :: 'a::len word) = of_nat n"
  by (rule word_unat_eq_iff [THEN iffD2]) (simp add: unsigned_of_nat take_bit_eq_mod)

section \<open>Modular arithmetic on one word\<close>

lemma word_carry:
  "unat ((a::'a::len word) + b) + (if a + b < a then 2 ^ LENGTH('a) else 0) = unat a + unat b"
proof -
  define B :: nat where "B = 2 ^ LENGTH('a)"
  have "unat a < B" "unat b < B"
    by (simp_all add: B_def unat_lt)
  then show ?thesis
    by (auto simp: unat_plus_if' word_less_nat_alt simp flip: B_def)
qed

lemma word_borrow:
  "unat ((a::'a::len word) - b) + unat b = unat a + (if a < a - b then 2 ^ LENGTH('a) else 0)"
proof -
  define B :: nat where "B = 2 ^ LENGTH('a)"
  have "unat a < B" "unat b < B"
    by (simp_all add: B_def unat_lt)
  then show ?thesis
    by (auto simp: unat_sub_if' word_less_nat_alt simp flip: B_def)
qed

lemma word_not_unat: "unat (NOT (w::'a::len word)) = 2 ^ LENGTH('a) - 1 - unat w"
proof -
  have "NOT w = - 1 - w"
    by (simp add: not_eq_complement)
  then have "unat (NOT w) = unat (- 1 - w)"
    by simp
  also have "\<dots> = unat (- 1 :: 'a word) - unat w"
    by (rule unat_sub) simp
  finally show ?thesis
    by (simp only: unsigned_minus_1_eq_mask mask_eq_exp_minus_1)
qed

lemma uint_int_unat: "uint w = int (unat w)"
  by simp

lemma uint_sint_if: "uint (w::'a::len word) = sint w + (if sint w < 0 then 2 ^ LENGTH('a) else 0)"
proof -
  have half: "(2::int) ^ LENGTH('a) = 2 * 2 ^ (LENGTH('a) - 1)"
    by (simp flip: power_Suc)
  have r: "- (2 ^ (LENGTH('a) - 1)) \<le> sint w" "sint w < 2 ^ (LENGTH('a) - 1)"
    using sint_range_size [of w] by (simp_all add: word_size)
  have u: "uint w = sint w mod 2 ^ LENGTH('a)"
    by (simp add: uint_sint take_bit_eq_mod)
  have "(sint w + 2 ^ LENGTH('a)) mod 2 ^ LENGTH('a) = sint w + 2 ^ LENGTH('a)" if "sint w < 0"
    using that r unfolding half by (intro mod_pos_pos_trivial) linarith+
  moreover have "sint w mod 2 ^ LENGTH('a) = sint w" if "\<not> sint w < 0"
    using that r unfolding half by (intro mod_pos_pos_trivial) linarith+
  ultimately show ?thesis
    unfolding u by simp
qed

lemma sint_mod_eq:
  "s \<le> LENGTH('a) \<Longrightarrow> sint (w::'a::len word) mod 2 ^ s = uint w mod 2 ^ s"
  by (simp add: uint_sint take_bit_eq_mod mod_mod_cancel le_imp_power_dvd)

lemma word_succ_wraps: "w + 1 < w \<longleftrightarrow> w + 1 = (0 :: 'a::len word)"
proof -
  have "w = - 1" if "w + 1 = 0"
    using that by (simp add: eq_neg_iff_add_eq_0)
  moreover have "w + 1 = 0" if "w + 1 < w"
  proof -
    have "unat (w + 1) + 2 ^ LENGTH('a) = unat w + 1"
      using word_carry [of w 1] that by simp
    with unat_lt [of w] have "unat (w + 1) = 0"
      by linarith
    then show ?thesis
      by (simp only: unat_eq_0)
  qed
  ultimately show ?thesis
    by (auto simp: word_less_nat_alt unat_eq_0 word_gt_0 simp flip: word_less_nat_alt)
qed

lemma bit_msb_iff:
  assumes "LENGTH('a) = Suc n"
  shows "bit (w::'a::len word) n \<longleftrightarrow> 2 ^ n \<le> unat w"
proof -
  have "unat w div 2 ^ n < 2"
    using unat_lt [of w] by (simp add: assms less_mult_imp_div_less)
  moreover have "bit w n \<longleftrightarrow> odd (unat w div 2 ^ n)"
    unfolding bit_iff_odd [of "unat w", symmetric] by (simp add: bit_unsigned_iff)
  moreover have "2 ^ n \<le> unat w \<longleftrightarrow> 0 < unat w div 2 ^ n"
    by (simp add: div_greater_zero_iff)
  ultimately show ?thesis
    by (auto simp: less_2_cases_iff)
qed

lemma or_eq_0_iff_word: "a OR b = 0 \<longleftrightarrow> a = 0 \<and> b = (0::'a::len word)"
  by (auto simp: bit_eq_iff bit_or_iff)

end
