(* ===== verification/Word_Pairs.thy ===== *)
theory Word_Pairs
  imports Prelude
begin

text \<open>
  Numbers held in two machine words of any length. \<open>pairval h l\<close> is the unsigned value of the
  pair, \<open>pairsval h l\<close> its two's complement value. Each lemma describes one step that the
  wide-integer code performs on the two halves (carry, borrow, the four partial products, shifts
  across the word boundary) and says what it does to the value. The 64-bit type made of 32-bit
  words and the 128-bit type made of 64-bit words both use them.
\<close>

section \<open>Numbers held in two words\<close>

definition pairval :: "'a::len word \<Rightarrow> 'a word \<Rightarrow> nat" where
  "pairval h l = unat h * 2 ^ LENGTH('a) + unat l"

abbreviation pairmod :: "'a::len word itself \<Rightarrow> nat" where
  "pairmod T \<equiv> 2 ^ LENGTH('a) * 2 ^ LENGTH('a)"

lemma pairval_div [simp]: "pairval h l div 2 ^ LENGTH('a) = unat (h::'a::len word)"
  by (simp add: pairval_def)

lemma pairval_mod [simp]: "pairval h l mod 2 ^ LENGTH('a) = unat (l::'a::len word)"
  by (simp add: pairval_def)

lemma pairval_lt: "pairval h (l::'a::len word) < pairmod TYPE('a word)"
proof -
  have "unat h + 1 \<le> 2 ^ LENGTH('a)"
    using unat_lt [of h] by linarith
  then have "(unat h + 1) * 2 ^ LENGTH('a) \<le> pairmod TYPE('a word)"
    by (rule mult_right_mono) simp
  with unat_lt [of l] show ?thesis
    unfolding pairval_def add_mult_distrib by linarith
qed

lemma pairval_inject: "pairval h l = pairval h' (l'::'a::len word) \<longleftrightarrow> h = h' \<and> l = l'"
  by (metis pairval_div pairval_mod word_unat_eq_iff)

lemma pairval_less_iff:
  "pairval h l < pairval h' (l'::'a::len word) \<longleftrightarrow> h < h' \<or> (h = h' \<and> l < l')"
proof -
  have lt: "pairval a b < pairval c d" if "a < c" for a b c d :: "'a word"
  proof -
    have "(unat a + 1) * 2 ^ LENGTH('a) \<le> unat c * 2 ^ LENGTH('a)"
      using that by (intro mult_right_mono) (simp_all add: word_less_nat_alt)
    with unat_lt [of b] show ?thesis
      unfolding pairval_def add_mult_distrib by linarith
  qed
  show ?thesis
    using lt [of h h' l l'] lt [of h' h l' l]
    by (cases h h' rule: linorder_cases) (auto simp: pairval_def word_less_nat_alt)
qed

lemma pairval_eqI:
  assumes "x < pairmod TYPE('a word)" "x div 2 ^ LENGTH('a) = unat h" "x mod 2 ^ LENGTH('a) = unat l"
  shows "pairval h (l::'a::len word) = x"
  using assms by (metis div_mult_mod_eq pairval_def)

lemma pairval_add:
  "pairval (ah + bh + (if al + bl < al then 1 else 0)) (al + bl)
     = (pairval ah al + pairval bh (bl::'a::len word)) mod pairmod TYPE('a word)"
proof -
  let ?B = "2 ^ LENGTH('a)" and ?c = "if al + bl < al then 1 else 0 :: nat"
  let ?s = "unat ah + unat bh + ?c"
  have lo: "unat al + unat bl = unat (al + bl) + ?c * ?B"
    using word_carry [of al bl] by (auto split: if_splits)
  have hi: "unat (ah + bh + (if al + bl < al then 1 else 0)) = ?s mod ?B"
    by (simp add: unat_word_ariths mod_add_left_eq)
  have "pairval ah al + pairval bh bl = ?s * ?B + unat (al + bl)"
    unfolding pairval_def using lo by (simp add: algebra_simps)
  also have "\<dots> mod (?B * ?B) = ?B * (?s mod ?B) + unat (al + bl)"
    by (subst mod_mult2_eq) (simp add: mult.commute)
  finally show ?thesis
    by (simp only: pairval_def hi) (simp add: mult.commute)
qed

lemma pairval_sub:
  "pairval (ah - bh - (if al < al - bl then 1 else 0)) (al - bl)
     = (pairval ah al + (pairmod TYPE('a word) - pairval bh (bl::'a::len word)))
         mod pairmod TYPE('a word)"
proof -
  let ?B = "2 ^ LENGTH('a)" and ?d = "ah - bh - (if al < al - bl then 1 else 0)"
  have "pairval ?d (al - bl) + pairval bh bl
    = (unat ?d + unat bh + (if al < al - bl then 1 else 0)) * ?B + unat al"
    unfolding pairval_def using word_borrow [of al bl] by (auto simp: algebra_simps split: if_splits)
  moreover have "(unat ?d + unat bh + (if al < al - bl then 1 else 0)) mod ?B = unat ah"
  proof -
    have "unat (d + bh + (if c then 1 else 0)) = (unat d + unat bh + (if c then 1 else 0)) mod ?B"
      for c and d :: "'a word"
      by (simp add: unat_word_ariths mod_add_left_eq)
    moreover have "?d + bh + (if al < al - bl then 1 else 0) = ah" by simp
    ultimately show ?thesis by metis
  qed
  ultimately have "(pairval ?d (al - bl) + pairval bh bl) mod (?B * ?B) = pairval ah al"
    by (simp add: mod_mult2_eq pairval_def mult.commute)
  then have "(pairval ah al + (?B * ?B - pairval bh bl)) mod (?B * ?B)
      = (pairval ?d (al - bl) + pairval bh bl + (?B * ?B - pairval bh bl)) mod (?B * ?B)"
    by (metis mod_add_left_eq)
  also have "\<dots> = pairval ?d (al - bl) mod (?B * ?B)"
    using pairval_lt [of bh bl] by simp
  finally show ?thesis
    using pairval_lt [of ?d "al - bl"] by simp
qed

lemma pairval_not:
  "pairval (NOT h) (NOT (l::'a::len word)) = pairmod TYPE('a word) - 1 - pairval h l"
proof -
  define B :: nat where "B = 2 ^ LENGTH('a)"
  have lt: "unat h < B" "unat l < B"
    by (simp_all add: B_def unat_lt)
  obtain c d where cd: "B = unat h + 1 + c" "B = unat l + 1 + d"
    using lt by (metis Suc_eq_plus1 add_Suc less_imp_Suc_add)
  have "pairval (NOT h) (NOT l) = c * B + d"
    unfolding pairval_def word_not_unat B_def [symmetric] using cd by simp
  moreover have "c * B + d + 1 + pairval h l = B * B"
  proof -
    have "c * B + d + 1 + pairval h l = (c + unat h) * B + (unat l + 1 + d)"
      unfolding pairval_def B_def [symmetric] by (simp add: algebra_simps)
    also have "\<dots> = (unat h + 1 + c) * B"
      unfolding cd(2) [symmetric] by (simp add: algebra_simps)
    finally show ?thesis
      unfolding cd(1) [symmetric] .
  qed
  ultimately show ?thesis
    unfolding B_def [symmetric] by linarith
qed

lemma or_eq_add_shift:
  assumes "s \<le> LENGTH('a)"
  shows "push_bit s h OR drop_bit (LENGTH('a) - s) l
    = push_bit s h + drop_bit (LENGTH('a) - s) (l::'a::len word)"
proof -
  have "\<not> bit (push_bit s h) n \<or> \<not> bit (drop_bit (LENGTH('a) - s) l) n" for n
    using assms by (auto simp: bit_push_bit_iff bit_drop_bit_eq dest!: bit_imp_le_length)
  then show ?thesis
    by (simp add: disjunctive_add)
qed

lemma pairval_lsl:
  assumes "s < LENGTH('a)"
  shows "pairval (push_bit s h + drop_bit (LENGTH('a) - s) l) (push_bit s l)
    = (pairval h (l::'a::len word) * 2 ^ s) mod pairmod TYPE('a word)"
proof -
  let ?L = "LENGTH('a)"
  define B :: nat where "B = 2 ^ ?L"
  have B: "B = 2 ^ (?L - s) * 2 ^ s"
    unfolding B_def using assms by (simp flip: power_add)
  have lsplit: "unat l * 2 ^ s = (unat l div 2 ^ (?L - s)) * B + unat l * 2 ^ s mod B"
    unfolding B by (metis div_mult_mod_eq div_mult_mult2 power_not_zero zero_neq_numeral)
  have "pairval h l * 2 ^ s = (unat h * 2 ^ s + unat l div 2 ^ (?L - s)) * B + unat l * 2 ^ s mod B"
    unfolding pairval_def B_def [symmetric] add_mult_distrib by (subst lsplit) (simp only: ac_simps)
  then have "(pairval h l * 2 ^ s) mod (B * B)
      = B * ((unat h * 2 ^ s + unat l div 2 ^ (?L - s)) mod B) + unat l * 2 ^ s mod B"
    by (simp add: mod_mult2_eq B_def)
  then show ?thesis
    unfolding pairval_def B_def [symmetric]
    by (simp add: word_nat mod_add_left_eq flip: B_def)
qed
lemma pairval_rsl_lo:
  fixes h l :: "'a::len word"
  assumes "s < LENGTH('a)"
  shows "unat (drop_bit s l + push_bit (LENGTH('a) - s) h)
    = unat l div 2 ^ s + (unat h mod 2 ^ s) * 2 ^ (LENGTH('a) - s)" (is "_ = ?r")
    and "unat l div 2 ^ s + (unat h mod 2 ^ s) * 2 ^ (LENGTH('a) - s) < 2 ^ LENGTH('a)"
proof -
  let ?L = "LENGTH('a)"
  have B: "2 ^ ?L = 2 ^ s * (2 ^ (?L - s) :: nat)"
    using assms by (simp flip: power_add)
  have "unat l div 2 ^ s < 2 ^ (?L - s)"
    using unat_lt [of l] unfolding B by (simp add: less_mult_imp_div_less mult.commute)
  moreover have "(unat h mod 2 ^ s + 1) * 2 ^ (?L - s) \<le> 2 ^ ?L"
    unfolding B by (intro mult_right_mono) (simp_all add: Suc_leI)
  ultimately show lt: "?r < 2 ^ ?L"
    unfolding add_mult_distrib by linarith
  have "unat (push_bit (?L - s) h) = (unat h mod 2 ^ s) * 2 ^ (?L - s)"
    unfolding unat_push_bit_mod B by (rule mult_mod_left [symmetric])
  then show "unat (drop_bit s l + push_bit (?L - s) h) = ?r"
    using lt by (simp add: unat_word_ariths unat_drop_bit_div)
qed

lemma pairval_rsl:
  assumes "s < LENGTH('a)"
  shows "pairval (drop_bit s h) (drop_bit s l + push_bit (LENGTH('a) - s) h)
    = pairval h (l::'a::len word) div 2 ^ s"
proof -
  let ?L = "LENGTH('a)"
  have B: "2 ^ ?L = 2 ^ (?L - s) * (2 ^ s :: nat)"
    using assms by (simp flip: power_add)
  have h: "unat h = (unat h div 2 ^ s) * 2 ^ s + unat h mod 2 ^ s"
    by (rule div_mult_mod_eq [symmetric])
  have "pairval h l div 2 ^ s = unat h * 2 ^ (?L - s) + unat l div 2 ^ s"
    unfolding pairval_def B by (simp add: mult.assoc [symmetric])
  also have "\<dots> = (unat h div 2 ^ s) * 2 ^ ?L + (unat h mod 2 ^ s) * 2 ^ (?L - s) + unat l div 2 ^ s"
    unfolding B by (subst h) (simp only: algebra_simps)
  finally show ?thesis
    unfolding pairval_def pairval_rsl_lo(1) [OF assms] unat_drop_bit_div by simp
qed

definition pairsval :: "'a::len word \<Rightarrow> 'a word \<Rightarrow> int" where
  "pairsval h l = sint h * 2 ^ LENGTH('a) + uint l"

lemma pairsval_eq:
  "pairsval h (l::'a::len word)
     = (if sint h < 0 then int (pairval h l) - int (pairmod TYPE('a word)) else int (pairval h l))"
  using uint_sint_if [of h]
  by (simp add: pairsval_def pairval_def distrib_right split: if_splits)

lemma pairsval_rsa:
  assumes "s < LENGTH('a)"
  shows "pairsval (signed_drop_bit s h) (drop_bit s l + push_bit (LENGTH('a) - s) h)
    = pairsval h (l::'a::len word) div 2 ^ s"
proof -
  let ?L = "LENGTH('a)"
  have B: "2 ^ ?L = 2 ^ (?L - s) * (2 ^ s :: int)"
    using assms by (simp flip: power_add)
  have m: "sint h mod 2 ^ s = int (unat h mod 2 ^ s)"
    using assms by (simp add: sint_mod_eq zmod_int)
  have h: "sint h * 2 ^ (?L - s) = (sint h div 2 ^ s) * 2 ^ ?L + (sint h mod 2 ^ s) * 2 ^ (?L - s)"
  proof -
    have "sint h * 2 ^ (?L - s) = ((sint h div 2 ^ s) * 2 ^ s + sint h mod 2 ^ s) * 2 ^ (?L - s)"
      by (simp only: div_mult_mod_eq)
    then show ?thesis
      unfolding B by (simp only: distrib_right distrib_left ac_simps)
  qed
  have lo: "uint (drop_bit s l + push_bit (?L - s) h)
      = (sint h mod 2 ^ s) * 2 ^ (?L - s) + uint l div 2 ^ s"
    unfolding m uint_int_unat pairval_rsl_lo(1) [OF assms]
    by (simp only: of_nat_add of_nat_mult of_nat_power of_nat_numeral zdiv_int add.commute)
  have "pairsval h l div 2 ^ s = sint h * 2 ^ (?L - s) + uint l div 2 ^ s"
    unfolding pairsval_def B mult.assoc [symmetric] by (rule div_mult_self3) simp
  also have "\<dots> = (sint h div 2 ^ s) * 2 ^ ?L + ((sint h mod 2 ^ s) * 2 ^ (?L - s) + uint l div 2 ^ s)"
    unfolding h by (rule add.assoc)
  finally show ?thesis
    unfolding pairsval_def sint_signed_drop_bit_eq lo by (simp only: drop_bit_eq_div)
qed

lemma wide_mul_nat:
  fixes al ah bl bh B :: nat
  assumes lt: "al < B" "ah < B" "bl < B" "bh < B"
  defines "r0 \<equiv> al * bl"
  defines "r1 \<equiv> al * bh + r0 div B"
  defines "s \<equiv> (r1 + ah * bl) mod (B * B)"
  defines "r3 \<equiv> ah * bh + (if s < ah * bl then B else 0)"
  shows "r1 < B * B" and "r3 + s div B < B * B"
    and "(s mod B) * B + r0 mod B < B * B"
    and "(r3 + s div B) * (B * B) + ((s mod B) * B + r0 mod B) = (ah * B + al) * (bh * B + bl)"
proof -
  have le: "x * y \<le> (B - 1) * (B - 1)" if "x < B" "y < B" for x y
    using that by (intro mult_mono) auto
  obtain b where B: "B = Suc b"
    using lt by (cases B) auto
  have "r0 div B < B"
    unfolding r0_def using lt by (metis less_mult_imp_div_less mult_strict_mono' zero_le)
  then show r1: "r1 < B * B"
    using le [OF lt(1,4)] unfolding r1_def B by (simp add: algebra_simps)
  have p: "ah * bl < B * B"
    using lt by (simp add: mult_strict_mono)
  have D: "r1 + ah * bl = s + (if s < ah * bl then B * B else 0)"
  proof (cases "r1 + ah * bl < B * B")
    case False
    then have "s = r1 + ah * bl - B * B"
      unfolding s_def using r1 p by (simp add: le_mod_geq)
    with False r1 show ?thesis by auto
  qed (simp add: s_def)
  have "(ah * B + al) * (bh * B + bl) = ah * bh * (B * B) + (al * bh + ah * bl) * B + r0"
    unfolding r0_def by (simp add: algebra_simps)
  also have "\<dots> = ah * bh * (B * B) + (r1 + ah * bl) * B + r0 mod B"
    unfolding r1_def by (subst div_mult_mod_eq [of r0 B, symmetric]) (simp only: algebra_simps)
  also have "\<dots> = r3 * (B * B) + s * B + r0 mod B"
    unfolding D r3_def by (simp add: algebra_simps)
  also have "\<dots> = (r3 + s div B) * (B * B) + ((s mod B) * B + r0 mod B)"
    by (subst div_mult_mod_eq [of s B, symmetric]) (simp only: algebra_simps)
  finally show eq: "(r3 + s div B) * (B * B) + ((s mod B) * B + r0 mod B)
      = (ah * B + al) * (bh * B + bl)" by simp
  have num: "x * B + y < B * B" if "x < B" "y < B" for x y
  proof -
    have "(x + 1) * B \<le> B * B"
      using that by (intro mult_right_mono) auto
    with that show ?thesis unfolding add_mult_distrib by linarith
  qed
  show "(s mod B) * B + r0 mod B < B * B"
    using lt by (intro num) auto
  have "(ah * B + al) * (bh * B + bl) < (B * B) * (B * B)"
    using num lt by (intro mult_strict_mono) auto
  then have "(r3 + s div B) * (B * B) < (B * B) * (B * B)"
    unfolding eq [symmetric] by linarith
  then show "r3 + s div B < B * B"
    by simp
qed

lemma pairval_lsl_word:
  "pairval l 0 = (pairval h (l::'a::len word) * 2 ^ LENGTH('a)) mod pairmod TYPE('a word)"
proof -
  have "pairval h l * 2 ^ LENGTH('a) = unat h * pairmod TYPE('a word) + unat l * 2 ^ LENGTH('a)"
    by (simp add: pairval_def algebra_simps)
  then show ?thesis
    using pairval_lt [of l 0] by (simp add: pairval_def)
qed

lemma pairval_lsl_ge:
  assumes "LENGTH('a) \<le> s" "s < 2 * LENGTH('a)"
  shows "pairval (push_bit (s - LENGTH('a)) l) 0
    = (pairval h (l::'a::len word) * 2 ^ s) mod pairmod TYPE('a word)"
proof -
  let ?L = "LENGTH('a)"
  have "pairval (push_bit (s - ?L) l) 0 = (pairval l 0 * 2 ^ (s - ?L)) mod pairmod TYPE('a word)"
    using pairval_lsl [of "s - ?L" l 0] assms by simp
  also have "\<dots> = (pairval h l * 2 ^ ?L * 2 ^ (s - ?L)) mod pairmod TYPE('a word)"
    unfolding pairval_lsl_word [of l h] by (rule mod_mult_left_eq)
  finally show ?thesis
    using assms by (simp add: mult.assoc flip: power_add)
qed

lemma pairval_rsl_ge:
  assumes "LENGTH('a) \<le> s"
  shows "pairval 0 (drop_bit (s - LENGTH('a)) h) = pairval h (l::'a::len word) div 2 ^ s"
proof -
  have "pairval h l div 2 ^ s = pairval h l div 2 ^ LENGTH('a) div 2 ^ (s - LENGTH('a))"
    by (simp only: div_mult2_eq [symmetric] power_add [symmetric] le_add_diff_inverse [OF assms])
  then show ?thesis
    by (simp add: pairval_def unat_drop_bit_div)
qed

lemma or_eq_add_shift':
  assumes "s \<le> LENGTH('a)"
  shows "drop_bit s l OR push_bit (LENGTH('a) - s) h
    = drop_bit s l + push_bit (LENGTH('a) - s) (h::'a::len word)"
  using or_eq_add_shift [of "LENGTH('a) - s" h l] assms by (simp add: or.commute add.commute)

lemma pairval_wide_mul:
  fixes al ah bl bh :: "'a::len word"
  assumes k: "LENGTH('a) = 2 * k"
    and lt: "unat al < 2 ^ k" "unat ah < 2 ^ k" "unat bl < 2 ^ k" "unat bh < 2 ^ k"
  defines "r0 \<equiv> al * bl"
  defines "r1 \<equiv> al * bh + drop_bit k r0 + ah * bl"
  defines "r3 \<equiv> if r1 < ah * bl then ah * bh + push_bit k 1 else ah * bh"
  shows "pairval (r3 + drop_bit k r1) (push_bit k r1 + (r0 AND mask k))
    = (unat ah * 2 ^ k + unat al) * (unat bh * 2 ^ k + unat bl)"
proof -
  define B :: nat where "B = 2 ^ k"
  have BB: "2 ^ LENGTH('a) = B * B"
    by (simp add: B_def k mult_2 power_add)
  note lt' = lt [folded B_def]
  note m = wide_mul_nat [OF lt']
  have mul: "unat (x * y) = unat x * unat y" if "unat x < B" "unat y < B" for x y :: "'a word"
    using mult_strict_mono' [OF that] by (simp add: unat_word_ariths BB)
  have r0: "unat r0 = unat al * unat bl" and r2: "unat (ah * bl) = unat ah * unat bl"
    and r3: "unat (ah * bh) = unat ah * unat bh"
    unfolding r0_def using lt' by (simp_all add: mul)
  have r1: "unat r1 = (unat al * unat bh + unat al * unat bl div B + unat ah * unat bl) mod (B * B)"
    unfolding r1_def using m(1) lt'
    by (simp add: unat_word_ariths(1) mul r0 BB unat_drop_bit_div flip: B_def)
  have "0 < k"
    using k len_gt_0 [where 'a = 'a] by linarith
  then have "B < B * B"
    unfolding B_def power_add [symmetric] by simp
  then have c: "unat (2 ^ k :: 'a word) = B"
    using unat_push_bit_mod [of k "1 :: 'a word"] by (simp add: BB flip: B_def)
  have hi: "unat (r3 + drop_bit k r1)
      = unat ah * unat bh + (if unat r1 < unat ah * unat bl then B else 0) + unat r1 div B"
    using m(2) unfolding r1 [symmetric] r3_def
    by (simp add: word_less_nat_alt r2 r3 unat_word_ariths(1) unat_drop_bit_div c BB mod_simps
        split: if_splits flip: B_def)
  have lo: "unat (push_bit k r1 + (r0 AND mask k)) = (unat r1 mod B) * B + unat al * unat bl mod B"
    using m(3) unfolding r1 [symmetric]
    by (simp add: unat_word_ariths(1) unat_push_bit_mod unat_and_mask_mod r0 BB mod_simps mult_mod_left
        flip: B_def)
  show ?thesis
    using m(4) unfolding pairval_def r1 [symmetric] hi lo BB B_def [symmetric] .
qed

lemma pairval_mul:
  fixes ah al bh bl sh sl :: "'a::len word"
  assumes s: "pairval sh sl = unat al * unat bl"
  shows "pairval (sh + (al * bh + ah * bl)) sl = (pairval ah al * pairval bh bl) mod pairmod TYPE('a word)"
proof -
  define B :: nat where "B = 2 ^ LENGTH('a)"
  let ?C = "unat al * unat bh + unat ah * unat bl"
  have hi: "unat (sh + (al * bh + ah * bl)) = (unat sh + ?C) mod B"
    by (simp add: unat_word_ariths mod_simps flip: B_def)
  have "pairval ah al * pairval bh bl = unat ah * unat bh * (B * B) + (?C * B + unat al * unat bl)"
    unfolding pairval_def B_def [symmetric] by (simp only: distrib_left distrib_right ac_simps)
  also have "\<dots> mod (B * B) = (?C * B + unat al * unat bl) mod (B * B)"
    by simp
  also have "?C * B + unat al * unat bl = (unat sh + ?C) * B + unat sl"
    unfolding s [symmetric] pairval_def B_def [symmetric] by (simp only: distrib_left distrib_right ac_simps)
  also have "\<dots> mod (B * B) = B * ((unat sh + ?C) mod B) + unat sl"
    by (subst mod_mult2_eq) (simp add: B_def)
  finally show ?thesis
    unfolding pairval_def hi B_def [symmetric] by (simp only: mult.commute)
qed

lemma pairsval_div_word: "pairsval h (l::'a::len word) div 2 ^ LENGTH('a) = sint h"
  unfolding pairsval_def by simp

lemma sint_signed_drop_bit_sign:
  "sint (signed_drop_bit (LENGTH('a) - 1) (w::'a::len word)) = (if sint w < 0 then - 1 else 0)"
proof -
  have r: "- (2 ^ (LENGTH('a) - 1)) \<le> sint w" "sint w < 2 ^ (LENGTH('a) - 1)"
    using sint_range_size [of w] by (simp_all add: word_size)
  have "sint w div 2 ^ (LENGTH('a) - 1) = (if sint w < 0 then - 1 else 0)"
    using r by (auto simp: div_pos_pos_trivial intro!: int_div_pos_eq [of _ _ _ "sint w + 2 ^ (LENGTH('a) - 1)"])
  then show ?thesis
    unfolding sint_signed_drop_bit_eq by (simp only: drop_bit_eq_div)
qed

lemma pairsval_sign_word: "pairsval (signed_drop_bit (LENGTH('a) - 1) h) h = sint (h::'a::len word)"
  using uint_sint_if [of h] unfolding pairsval_def sint_signed_drop_bit_sign by (simp split: if_splits)

lemma pairsval_rsa_ge:
  fixes h l :: "'a::len word"
  assumes "LENGTH('a) \<le> s" "s < 2 * LENGTH('a)"
  defines "t \<equiv> s - LENGTH('a)" and "sg \<equiv> signed_drop_bit (LENGTH('a) - 1) h"
  shows "pairsval (signed_drop_bit t sg) (drop_bit t h + push_bit (LENGTH('a) - t) sg)
    = pairsval h l div 2 ^ s"
proof -
  have "pairsval h l div 2 ^ s = pairsval h l div 2 ^ LENGTH('a) div 2 ^ t"
    unfolding t_def using assms(1)
    by (simp only: zdiv_zmult2_eq [symmetric] power_add [symmetric] le_add_diff_inverse zero_le_power zero_le_numeral)
  also have "\<dots> = pairsval sg h div 2 ^ t"
    unfolding sg_def pairsval_div_word pairsval_sign_word ..
  finally show ?thesis
    using pairsval_rsa [of t sg h] assms by simp
qed

lemma pairsval_range:
  "- (2 ^ LENGTH('a) * 2 ^ LENGTH('a)) \<le> 2 * pairsval h (l::'a::len word)"
  "2 * pairsval h l < 2 ^ LENGTH('a) * 2 ^ LENGTH('a)"
proof -
  define H :: int where "H = 2 ^ (LENGTH('a) - 1)"
  have B: "2 ^ LENGTH('a) = 2 * H"
    unfolding H_def by (simp flip: power_Suc)
  have r: "- H \<le> sint h" "sint h + 1 \<le> H"
    using sint_range_size [of h] by (simp_all add: word_size H_def)
  have l: "0 \<le> uint l" "uint l < 2 * H"
    using uint_lt2p [of l] by (simp_all add: B)
  have H: "0 < H"
    by (simp add: H_def)
  have "2 * pairsval h l + 2 * H * (2 * H) = 4 * ((sint h + H) * H) + 2 * uint l"
    unfolding pairsval_def B by (simp add: algebra_simps)
  moreover have "0 \<le> (sint h + H) * H"
    using r H by (intro mult_nonneg_nonneg) linarith+
  ultimately show "- (2 ^ LENGTH('a) * 2 ^ LENGTH('a)) \<le> 2 * pairsval h l"
    using l(1) unfolding B by linarith
  define d M where "d = (H - 1 - sint h) * H" and "M = 2 * H * (2 * H)"
  have "2 * pairsval h l - M = 2 * (uint l - 2 * H) - 4 * d"
    unfolding pairsval_def B d_def M_def by (simp add: algebra_simps)
  moreover have "0 \<le> d"
    unfolding d_def using r H by (intro mult_nonneg_nonneg) linarith+
  ultimately have "2 * pairsval h l < M"
    using l(2) by presburger
  then show "2 * pairsval h l < 2 ^ LENGTH('a) * 2 ^ LENGTH('a)"
    unfolding B M_def .
qed

lemma sint_mult_range:
  fixes a b :: "'a::len word"
  shows "- (2 ^ LENGTH('a) * 2 ^ LENGTH('a)) \<le> 2 * (sint a * sint b)"
    "2 * (sint a * sint b) < 2 ^ LENGTH('a) * 2 ^ LENGTH('a)"
proof -
  define H :: int where "H = 2 ^ (LENGTH('a) - 1)"
  have B: "2 ^ LENGTH('a) = 2 * H"
    unfolding H_def by (simp flip: power_Suc)
  have "\<bar>sint w\<bar> \<le> H" for w :: "'a word"
    using sint_range_size [of w] by (auto simp: word_size H_def)
  then have "\<bar>sint a\<bar> * \<bar>sint b\<bar> \<le> H * H"
    by (intro mult_mono) (auto simp: H_def)
  then have ab: "\<bar>sint a * sint b\<bar> \<le> H * H"
    by (simp only: abs_mult)
  have H: "0 < H * H" and BB: "2 * H * (2 * H) = 4 * (H * H)"
    by (simp_all add: H_def)
  show "- (2 ^ LENGTH('a) * 2 ^ LENGTH('a)) \<le> 2 * (sint a * sint b)"
    using ab H unfolding B BB by linarith
  show "2 * (sint a * sint b) < 2 ^ LENGTH('a) * 2 ^ LENGTH('a)"
    using ab H unfolding B BB by linarith
qed

lemma pairsval_cong:
  "2 ^ LENGTH('a) * 2 ^ LENGTH('a) dvd pairsval h l - (uint h * 2 ^ LENGTH('a) + uint (l::'a::len word))"
  using uint_sint_if [of h] by (simp add: pairsval_def algebra_simps split: if_splits)

lemma eq_if_cong_range:
  fixes x y M :: int
  assumes "M dvd x - y" "- M \<le> 2 * x" "2 * x < M" "- M \<le> 2 * y" "2 * y < M"
  shows "x = y"
proof (rule ccontr)
  assume "x \<noteq> y"
  then have "\<bar>M\<bar> \<le> \<bar>x - y\<bar>"
    using dvd_imp_le_int [OF _ assms(1)] by simp
  with assms(2-5) show False by linarith
qed

lemma pairsval_smul:
  fixes a b sh sl :: "'a::len word"
  assumes s: "pairval sh sl = unat a * unat b"
  shows "pairsval (sh - (if sint a < 0 then b else 0) - (if sint b < 0 then a else 0)) sl = sint a * sint b"
    (is "pairsval ?h sl = _")
proof (rule eq_if_cong_range)
  define B :: int where "B = 2 ^ LENGTH('a)"
  let ?x = "if sint a < 0 then b else 0" and ?y = "if sint b < 0 then a else 0"
  obtain k where k: "uint ?h = uint sh - uint ?x - uint ?y + B * k"
  proof -
    have "uint ?h = (uint sh - uint ?x - uint ?y) mod B"
      by (simp only: uint_word_ariths B_def mod_simps)
    then show ?thesis
      using that [of "- ((uint sh - uint ?x - uint ?y) div B)"] by (simp add: minus_mult_div_eq_mod [symmetric])
  qed
  have s': "uint sh * B + uint sl = uint a * uint b"
    using arg_cong [OF s, of int] by (simp add: pairval_def B_def)
  have ab: "uint a = sint a + (if sint a < 0 then B else 0)" "uint b = sint b + (if sint b < 0 then B else 0)"
    unfolding B_def by (rule uint_sint_if)+
  have "(uint ?h * B + uint sl) - sint a * sint b
      = uint a * uint b - uint ?x * B - uint ?y * B + B * B * k - sint a * sint b"
    unfolding k s' [symmetric] by (simp only: algebra_simps)
  also have "B * B dvd \<dots>"
    unfolding ab by (simp add: algebra_simps ab)
  finally have "B * B dvd (pairsval ?h sl - (uint ?h * B + uint sl)) + ((uint ?h * B + uint sl) - sint a * sint b)"
    using pairsval_cong [of ?h sl, folded B_def] by (simp only: dvd_add)
  then show "2 ^ LENGTH('a) * 2 ^ LENGTH('a) dvd pairsval ?h sl - sint a * sint b"
    unfolding B_def by simp
qed (rule pairsval_range sint_mult_range)+

end
