(* ===== verification/Bit_Divide.thy ===== *)
theory Bit_Divide
  imports Prelude "HOL-Library.Signed_Division"
begin

text \<open>
  The bit-at-a-time division of \<^verbatim>\<open>cairo-wideint.c\<close>, once for every width. The file has the
  same two loops in \<^verbatim>\<open>_cairo_uint64_divrem\<close> (on two 32-bit words) and in
  \<^verbatim>\<open>_cairo_uint128_divrem\<close> (on two 64-bit words): the first shifts the divisor up until it
  reaches the dividend, the second shifts it down again and collects the quotient. The locale
  \<open>bit_divide\<close> fixes the arithmetic the loops call and the loops themselves; its assumptions are
  the value of each operation and the one-step unfolding of each loop. Its lemmas show that for a
  non-zero divisor both loops return, with the quotient and the remainder.

  The locale \<open>twos_complement\<close> is the contract of a two's complement reading of such a type, and
  shows that the sign handling around an unsigned division gives the division of C, which truncates
  towards zero (\<open>sdiv\<close> and \<open>smod\<close> of the library).
\<close>

section \<open>The two loops\<close>

locale bit_divide =
  fixes nv :: "'w \<Rightarrow> nat" and W :: nat
    and add sub :: "'w \<Rightarrow> 'w \<Rightarrow> 'w" and lsl1 rsl1 :: "'w \<Rightarrow> 'w"
    and lt :: "'w \<Rightarrow> 'w \<Rightarrow> bool" and msb nonzero :: "'w \<Rightarrow> bool"
    and norm_loop :: "'w \<Rightarrow> 'w \<Rightarrow> 'w \<Rightarrow> ('w \<times> 'w) option"
    and gen_loop :: "'w \<Rightarrow> 'w \<Rightarrow> 'w \<Rightarrow> 'w \<Rightarrow> ('w \<times> 'w) option"
  assumes nv_lt: "nv a < 2 ^ W"
    and nv_add: "nv (add a b) = (nv a + nv b) mod 2 ^ W"
    and nv_sub: "nv b \<le> nv a \<Longrightarrow> nv (sub a b) = nv a - nv b"
    and nv_lsl1: "nv (lsl1 a) = (2 * nv a) mod 2 ^ W"
    and nv_rsl1: "nv (rsl1 a) = nv a div 2"
    and lt_iff: "lt a b \<longleftrightarrow> nv a < nv b"
    and msb_iff: "msb a \<longleftrightarrow> 2 ^ W \<le> 2 * nv a"
    and nonzero_iff: "nonzero a \<longleftrightarrow> nv a \<noteq> 0"
    and norm_unfold: "norm_loop num den bt =
      (if lt den num \<and> \<not> msb den then norm_loop num (lsl1 den) (lsl1 bt) else Some (den, bt))"
    and gen_unfold: "gen_loop num den bt quo =
      (if nonzero bt
       then if \<not> lt num den
            then gen_loop (sub num den) (rsl1 den) (rsl1 bt) (add quo bt)
            else gen_loop num (rsl1 den) (rsl1 bt) quo
       else Some (quo, num))"
begin

lemma norm_returns:
  assumes "0 < d" "nv den = d * 2 ^ k" "nv bt = 2 ^ k"
  shows "\<exists>den' bt' k'. norm_loop num den bt = Some (den', bt')
    \<and> nv den' = d * 2 ^ k' \<and> nv bt' = 2 ^ k' \<and> nv num < 2 * nv den'"
  using assms(2,3)
proof (induction "nv num - nv den" arbitrary: den bt k rule: less_induct)
  case less
  show ?case
  proof (cases "lt den num \<and> \<not> msb den")
    case True
    then have small: "2 * nv den < 2 ^ W" and below: "nv den < nv num"
      by (auto simp: lt_iff msb_iff)
    have "1 * 2 ^ k \<le> d * 2 ^ k"
      using assms(1) by (intro mult_right_mono) auto
    then have "nv bt \<le> nv den" "0 < nv den"
      using less.prems assms(1) by simp_all
    then have "2 * nv bt < 2 ^ W"
      using small by linarith
    with small have up: "nv (lsl1 den) = d * 2 ^ Suc k" "nv (lsl1 bt) = 2 ^ Suc k"
      using less.prems by (simp_all add: nv_lsl1)
    moreover have "nv (lsl1 den) = 2 * nv den"
      using less.prems(1) up(1) by simp
    then have "nv num - nv (lsl1 den) < nv num - nv den"
      using below \<open>0 < nv den\<close> by linarith
    ultimately show ?thesis
      using less.hyps [of "lsl1 den" "Suc k" "lsl1 bt"] norm_unfold [of num den bt] True by metis
  next
    case False
    moreover have "0 < nv den"
      using less.prems(1) assms(1) by simp
    ultimately have "nv num < 2 * nv den"
      using nv_lt [of num] by (auto simp: lt_iff msb_iff not_less)
    with False less.prems show ?thesis
      using norm_unfold [of num den bt] by auto
  qed
qed

lemma gen_done: "nv bt = 0 \<Longrightarrow> gen_loop num den bt quo = Some (quo, num)"
  using gen_unfold [of num den bt quo] by (simp add: nonzero_iff)

lemma gen_returns:
  assumes "0 < d" "nv den = d * 2 ^ k" "nv bt = 2 ^ k" "nv num < 2 * nv den"
    "nv quo + nv num div d < 2 ^ W"
  shows "\<exists>q r. gen_loop num den bt quo = Some (q, r)
    \<and> nv q = nv quo + nv num div d \<and> nv r = nv num mod d"
  using assms(2-)
proof (induction k arbitrary: num den bt quo)
  case 0
  have last: "gen_loop n (rsl1 den) (rsl1 bt) q = Some (q, n)" for n q
    using 0 by (intro gen_done) (simp add: nv_rsl1)
  show ?case
  proof (cases "nv den \<le> nv num")
    case True
    then have "nv num div d = 1" "nv num mod d = nv num - d"
      using 0 assms(1) by (simp_all add: le_div_geq le_mod_geq)
    with 0 True show ?thesis
      using gen_unfold [of num den bt quo] last
      by (simp add: nonzero_iff lt_iff nv_sub nv_add)
  next
    case False
    with 0 show ?thesis
      using gen_unfold [of num den bt quo] last by (simp add: nonzero_iff lt_iff)
  qed
next
  case (Suc k)
  have half: "nv (rsl1 den) = d * 2 ^ k" "nv (rsl1 bt) = 2 ^ k" "nv den = 2 * nv (rsl1 den)"
    using Suc.prems by (simp_all add: nv_rsl1)
  show ?case
  proof (cases "nv den \<le> nv num")
    case True
    then have sub: "nv (sub num den) = nv num - nv den"
      by (rule nv_sub)
    have num: "nv num = nv (sub num den) + 2 ^ Suc k * d"
      using True sub Suc.prems(1) by (simp add: mult.commute)
    have q: "nv num div d = nv (sub num den) div d + 2 ^ Suc k"
      unfolding num using assms(1) by simp
    have r: "nv num mod d = nv (sub num den) mod d"
      unfolding num by simp
    have a: "nv (add quo bt) = nv quo + 2 ^ Suc k"
      using Suc.prems(2,4) q by (simp add: nv_add)
    have "nv (sub num den) < 2 * nv (rsl1 den)"
      using Suc.prems(3) half(3) sub by linarith
    moreover have "gen_loop num den bt quo
        = gen_loop (sub num den) (rsl1 den) (rsl1 bt) (add quo bt)"
      using gen_unfold [of num den bt quo] True Suc.prems(2) by (simp add: nonzero_iff lt_iff)
    ultimately show ?thesis
      using Suc.IH [OF half(1,2), of "sub num den" "add quo bt"] Suc.prems(4) q r a
      by (simp add: add_ac)
  next
    case False
    then show ?thesis
      using Suc.IH [OF half(1,2), of num quo] Suc.prems half(3)
      using gen_unfold [of num den bt quo] by (simp add: nonzero_iff lt_iff)
  qed
qed

theorem loops_divide:
  assumes "nv den \<noteq> 0" "nv one = 1" "nv zero = 0"
  obtains den' bt q r where "norm_loop num den one = Some (den', bt)"
    "gen_loop num den' bt zero = Some (q, r)"
    "nv q = nv num div nv den" "nv r = nv num mod nv den"
proof -
  obtain den' bt k where n: "norm_loop num den one = Some (den', bt)"
    "nv den' = nv den * 2 ^ k" "nv bt = 2 ^ k" "nv num < 2 * nv den'"
    using norm_returns [of "nv den" den 0 one num] assms by auto
  have "nv num div nv den < 2 ^ W"
    using div_le_dividend nv_lt by (rule le_less_trans)
  then show ?thesis
    using gen_returns [OF _ n(2-4), of zero] n(1) assms that by auto
qed

lemma loops_zero_by_zero:
  assumes "nv num = 0" "nv den = 0" "nv one = 1" "nv zero = 0"
  obtains q r where "norm_loop num den one = Some (den, one)"
    "gen_loop num den one zero = Some (q, r)" "nv q = 1 mod 2 ^ W" "nv r = 0"
proof -
  have "norm_loop num den one = Some (den, one)"
    using norm_unfold [of num den one] assms by (simp add: lt_iff)
  moreover have "gen_loop num den one zero = Some (add zero one, sub num den)"
    using gen_unfold [of num den one zero] gen_done [of "rsl1 one"] assms
    by (simp add: lt_iff nonzero_iff nv_rsl1)
  ultimately show ?thesis
    using that assms by (simp add: nv_add nv_sub)
qed

end

section \<open>Signs\<close>

locale twos_complement =
  fixes nv :: "'w \<Rightarrow> nat" and sv :: "'w \<Rightarrow> int" and W :: nat
    and negate :: "'w \<Rightarrow> 'w" and negative :: "'w \<Rightarrow> bool"
  assumes nv_lt: "nv a < 2 ^ W"
    and sv_eq: "sv a = (if negative a then int (nv a) - 2 ^ W else int (nv a))"
    and negative_iff: "negative a \<longleftrightarrow> 2 ^ W \<le> 2 * nv a"
    and nv_negate: "nv (negate a) = (2 ^ W - nv a) mod 2 ^ W"
begin

lemma negative_sv: "negative a \<longleftrightarrow> sv a < 0"
proof -
  have "int (nv a) < 2 ^ W"
    using nv_lt [of a] by (metis of_nat_less_iff of_nat_numeral of_nat_power)
  then show ?thesis
    by (simp add: sv_eq)
qed

lemma nv_magnitude: "nv (if negative a then negate a else a) = nat \<bar>sv a\<bar>"
proof (cases "negative a")
  case True
  then have "0 < nv a"
    by (cases "nv a = 0") (simp_all add: negative_iff)
  then have "int (nv (negate a)) = 2 ^ W - int (nv a)"
    using nv_lt [of a] by (simp add: nv_negate of_nat_diff less_imp_le)
  then have "int (nv (negate a)) = - sv a"
    using True by (simp add: sv_eq)
  then have "nv (negate a) = nat \<bar>sv a\<bar>"
    by linarith
  with True show ?thesis
    by simp
next
  case False
  then show ?thesis
    by (simp add: sv_eq)
qed

lemma magnitude_le: "2 * nv (if negative a then negate a else a) \<le> 2 ^ W"
  using nv_lt [of a] by (auto simp: negative_iff nv_negate mod_if)

lemma sv_small: "2 * nv a < 2 ^ W \<Longrightarrow> sv a = int (nv a)"
  by (simp add: sv_eq negative_iff)

lemma sv_negate_small:
  assumes "2 * nv a \<le> 2 ^ W"
  shows "sv (negate a) = - int (nv a)"
proof (cases "nv a = 0")
  case True
  then show ?thesis
    by (simp add: sv_eq negative_iff nv_negate)
next
  case False
  then have "nv (negate a) = 2 ^ W - nv a"
    by (simp add: nv_negate)
  with assms show ?thesis
    using nv_lt [of a] by (auto simp: sv_eq negative_iff of_nat_diff)
qed

lemma signed_remainder:
  assumes "sv den \<noteq> 0"
    and r: "nv r = nv (if negative num then negate num else num)
      mod nv (if negative den then negate den else den)"
  shows "sv (if negative num then negate r else r) = sv num smod sv den"
proof -
  have "nv r < nv (if negative den then negate den else den)"
    unfolding r using assms(1) by (intro mod_less_divisor) (simp only: nv_magnitude; simp)
  then have small: "2 * nv r < 2 ^ W"
    using magnitude_le [of den] by linarith
  have "int (nv r) = \<bar>sv num\<bar> mod \<bar>sv den\<bar>"
    unfolding r nv_magnitude by (simp add: zmod_int)
  then show ?thesis
    using small sv_small [of r] sv_negate_small [of r] negative_sv [of num]
    by (auto simp: signed_modulo_int_def sgn_if)
qed

lemma signed_quotient:
  assumes "sv den \<noteq> 0" "\<not> (2 * sv num = - (2 ^ W) \<and> sv den = - 1)"
    and q: "nv q = nv (if negative num then negate num else num)
      div nv (if negative den then negate den else den)"
  shows "sv (if negative num \<noteq> negative den then negate q else q) = sv num sdiv sv den"
proof -
  let ?n = "nv (if negative num then negate num else num)"
  let ?d = "nv (if negative den then negate den else den)"
  have iq: "int (nv q) = \<bar>sv num\<bar> div \<bar>sv den\<bar>"
    unfolding q nv_magnitude by (simp add: zdiv_int)
  have le: "2 * nv q \<le> 2 ^ W"
    using magnitude_le [of num] div_le_dividend [of ?n ?d] unfolding q by linarith
  have "2 * nv q < 2 ^ W" if same: "negative num = negative den"
  proof (rule ccontr)
    assume "\<not> 2 * nv q < 2 ^ W"
    with le have max: "2 * nv q = 2 ^ W" by simp
    then have n: "?n = nv q" "2 * ?n = 2 ^ W"
      using magnitude_le [of num] div_le_dividend [of ?n ?d] unfolding q by linarith+
    have "?d = 1"
      using n max unfolding q by (metis div_less_dividend less_irrefl nat_neq_iff
        less_one div_by_0 mult_0_right power_not_zero zero_neq_numeral gr0I)
    moreover have "negative num"
      using n by (auto simp: negative_iff split: if_splits)
    moreover have "\<bar>sv num\<bar> * 2 = 2 ^ W"
      using arg_cong [OF n(2), of int] unfolding nv_magnitude by simp
    ultimately have "sv den = - 1" "2 * sv num = - (2 ^ W)"
      using same negative_sv [of num] negative_sv [of den] unfolding nv_magnitude by auto
    with assms(2) show False by simp
  qed
  then show ?thesis
    using le sv_small [of q] sv_negate_small [of q] negative_sv [of num] negative_sv [of den] iq assms(1)
    by (auto simp: signed_divide_int_def sgn_if)
qed

end

end
