(* ===== verification/Wide64.thy ===== *)
theory Wide64
  imports Word_Pairs Bit_Divide
begin

text \<open>
  The 64-bit integers of \<^verbatim>\<open>ns-3.15/src/core/model/cairo-wideint.c\<close> in the configuration
  without a native 64-bit type (\<^verbatim>\<open>!HAVE_UINT64_T\<close>): a struct of two 32-bit words
  and the routines on it, each translated statement by statement. \<open>cairo_int64_t\<close> is the same
  struct, read as two's complement.

  \<open>val64\<close> is the number a struct stands for and \<open>w64\<close> the native 64-bit word of that number.
  The lemmas show that every routine computes on \<open>w64\<close> what the native operator does, so the two
  configurations of the file agree. The two loops of the bit-at-a-time division may run forever
  (they do when the divisor is zero), so they are partial functions into \<open>option\<close>; the locale
  \<open>bit_divide\<close> states what the loops need of the arithmetic and proves once that they return the
  quotient and the remainder, for this type and for the 128-bit one.
\<close>

unbundle bit_operations_syntax

section \<open>The struct and its routines\<close>

record cairo_uint64 =
  lo32 :: u32
  hi32 :: u32

type_synonym cairo_int64 = cairo_uint64

record 'w cairo_uquorem64 =
  quo64 :: 'w
  rem64 :: 'w

definition cairo_uint32_to_uint64 :: "u32 \<Rightarrow> cairo_uint64" where
  "cairo_uint32_to_uint64 i = \<lparr>lo32 = i, hi32 = 0\<rparr>"

definition cairo_int32_to_int64 :: "u32 \<Rightarrow> cairo_int64" where
  "cairo_int32_to_int64 i = \<lparr>lo32 = i, hi32 = (if sint i < 0 then - 1 else 0)\<rparr>"

definition cairo_uint32s_to_uint64 :: "u32 \<Rightarrow> u32 \<Rightarrow> cairo_uint64" where
  "cairo_uint32s_to_uint64 h l = \<lparr>lo32 = l, hi32 = h\<rparr>"

definition cairo_uint64_add :: "cairo_uint64 \<Rightarrow> cairo_uint64 \<Rightarrow> cairo_uint64" where
  "cairo_uint64_add a b =
     (let s = \<lparr>lo32 = lo32 a + lo32 b, hi32 = hi32 a + hi32 b\<rparr>
      in if lo32 s < lo32 a then s\<lparr>hi32 := hi32 s + 1\<rparr> else s)"

definition cairo_uint64_sub :: "cairo_uint64 \<Rightarrow> cairo_uint64 \<Rightarrow> cairo_uint64" where
  "cairo_uint64_sub a b =
     (let s = \<lparr>lo32 = lo32 a - lo32 b, hi32 = hi32 a - hi32 b\<rparr>
      in if lo32 a < lo32 s then s\<lparr>hi32 := hi32 s - 1\<rparr> else s)"

definition uint32_lo :: "u32 \<Rightarrow> u32" where
  "uint32_lo i = i AND 0xffff"

definition uint32_hi :: "u32 \<Rightarrow> u32" where
  "uint32_hi i = drop_bit 16 i"

definition uint32_carry16 :: u32 where
  "uint32_carry16 = push_bit 16 1"

definition cairo_uint32x32_64_mul :: "u32 \<Rightarrow> u32 \<Rightarrow> cairo_uint64" where
  "cairo_uint32x32_64_mul a b =
     (let al = ucast (uint32_lo a) :: u16;
          ah = ucast (uint32_hi a) :: u16;
          bl = ucast (uint32_lo b) :: u16;
          bh = ucast (uint32_hi b) :: u16;
          r0 = ucast al * ucast bl :: u32;
          r1 = ucast al * ucast bh :: u32;
          r2 = ucast ah * ucast bl :: u32;
          r3 = ucast ah * ucast bh :: u32;
          r1 = r1 + uint32_hi r0;
          r1 = r1 + r2;
          r3 = (if r1 < r2 then r3 + uint32_carry16 else r3)
      in \<lparr>lo32 = push_bit 16 (uint32_lo r1) + uint32_lo r0, hi32 = r3 + uint32_hi r1\<rparr>)"

definition cairo_int32x32_64_mul :: "u32 \<Rightarrow> u32 \<Rightarrow> cairo_int64" where
  "cairo_int32x32_64_mul a b =
     (let s = cairo_uint32x32_64_mul a b;
          s = (if sint a < 0 then s\<lparr>hi32 := hi32 s - b\<rparr> else s)
      in if sint b < 0 then s\<lparr>hi32 := hi32 s - a\<rparr> else s)"

definition cairo_uint64_mul :: "cairo_uint64 \<Rightarrow> cairo_uint64 \<Rightarrow> cairo_uint64" where
  "cairo_uint64_mul a b =
     (let s = cairo_uint32x32_64_mul (lo32 a) (lo32 b)
      in s\<lparr>hi32 := hi32 s + (lo32 a * hi32 b + hi32 a * lo32 b)\<rparr>)"

definition cairo_uint64_lsl :: "cairo_uint64 \<Rightarrow> nat \<Rightarrow> cairo_uint64" where
  "cairo_uint64_lsl a shift =
     (let (a, shift) =
            (if shift \<ge> 32 then (a\<lparr>hi32 := lo32 a, lo32 := 0\<rparr>, shift - 32) else (a, shift))
      in if shift \<noteq> 0
         then \<lparr>lo32 = push_bit shift (lo32 a),
               hi32 = push_bit shift (hi32 a) OR drop_bit (32 - shift) (lo32 a)\<rparr>
         else a)"

definition cairo_uint64_rsl :: "cairo_uint64 \<Rightarrow> nat \<Rightarrow> cairo_uint64" where
  "cairo_uint64_rsl a shift =
     (let (a, shift) =
            (if shift \<ge> 32 then (a\<lparr>lo32 := hi32 a, hi32 := 0\<rparr>, shift - 32) else (a, shift))
      in if shift \<noteq> 0
         then \<lparr>lo32 = drop_bit shift (lo32 a) OR push_bit (32 - shift) (hi32 a),
               hi32 = drop_bit shift (hi32 a)\<rparr>
         else a)"

definition cairo_uint32_rsa :: "u32 \<Rightarrow> nat \<Rightarrow> u32" where
  "cairo_uint32_rsa a n = signed_drop_bit n a"

definition cairo_uint64_rsa :: "cairo_int64 \<Rightarrow> nat \<Rightarrow> cairo_int64" where
  "cairo_uint64_rsa a shift =
     (let (a, shift) =
            (if shift \<ge> 32
             then (a\<lparr>lo32 := hi32 a, hi32 := cairo_uint32_rsa (hi32 a) 31\<rparr>, shift - 32)
             else (a, shift))
      in if shift \<noteq> 0
         then \<lparr>lo32 = drop_bit shift (lo32 a) OR push_bit (32 - shift) (hi32 a),
               hi32 = cairo_uint32_rsa (hi32 a) shift\<rparr>
         else a)"

definition cairo_uint64_lt :: "cairo_uint64 \<Rightarrow> cairo_uint64 \<Rightarrow> bool" where
  "cairo_uint64_lt a b \<longleftrightarrow> hi32 a < hi32 b \<or> (hi32 a = hi32 b \<and> lo32 a < lo32 b)"

definition cairo_uint64_eq :: "cairo_uint64 \<Rightarrow> cairo_uint64 \<Rightarrow> bool" where
  "cairo_uint64_eq a b \<longleftrightarrow> hi32 a = hi32 b \<and> lo32 a = lo32 b"

definition cairo_int64_negative :: "cairo_int64 \<Rightarrow> bool" where
  "cairo_int64_negative a \<longleftrightarrow> sint (hi32 a) < 0"

definition cairo_int64_lt :: "cairo_int64 \<Rightarrow> cairo_int64 \<Rightarrow> bool" where
  "cairo_int64_lt a b =
     (if cairo_int64_negative a \<and> \<not> cairo_int64_negative b then True
      else if \<not> cairo_int64_negative a \<and> cairo_int64_negative b then False
      else cairo_uint64_lt a b)"

definition cairo_uint64_not :: "cairo_uint64 \<Rightarrow> cairo_uint64" where
  "cairo_uint64_not a = \<lparr>lo32 = NOT (lo32 a), hi32 = NOT (hi32 a)\<rparr>"

definition cairo_uint64_negate :: "cairo_uint64 \<Rightarrow> cairo_uint64" where
  "cairo_uint64_negate a =
     (let a = \<lparr>lo32 = NOT (lo32 a) + 1, hi32 = NOT (hi32 a)\<rparr>
      in if lo32 a = 0 then a\<lparr>hi32 := hi32 a + 1\<rparr> else a)"

text \<open>The two loops of \<^verbatim>\<open>_cairo_uint64_divrem\<close>: \<open>None\<close> is a loop that never ends.\<close>

partial_function (option) cairo_uint64_divrem_norm ::
    "cairo_uint64 \<Rightarrow> cairo_uint64 \<Rightarrow> cairo_uint64 \<Rightarrow> (cairo_uint64 \<times> cairo_uint64) option" where
  "cairo_uint64_divrem_norm num den bt =
     (if cairo_uint64_lt den num \<and> hi32 den AND 0x80000000 = 0
      then cairo_uint64_divrem_norm num (cairo_uint64_lsl den 1) (cairo_uint64_lsl bt 1)
      else Some (den, bt))"

declare cairo_uint64_divrem_norm.simps [code]

partial_function (option) cairo_uint64_divrem_gen ::
    "cairo_uint64 \<Rightarrow> cairo_uint64 \<Rightarrow> cairo_uint64 \<Rightarrow> cairo_uint64
       \<Rightarrow> (cairo_uint64 \<times> cairo_uint64) option" where
  "cairo_uint64_divrem_gen num den bt quo =
     (if hi32 bt OR lo32 bt \<noteq> 0
      then if \<not> cairo_uint64_lt num den
           then cairo_uint64_divrem_gen (cairo_uint64_sub num den) (cairo_uint64_rsl den 1)
                  (cairo_uint64_rsl bt 1) (cairo_uint64_add quo bt)
           else cairo_uint64_divrem_gen num (cairo_uint64_rsl den 1) (cairo_uint64_rsl bt 1) quo
      else Some (quo, num))"

declare cairo_uint64_divrem_gen.simps [code]

definition cairo_uint64_divrem ::
    "cairo_uint64 \<Rightarrow> cairo_uint64 \<Rightarrow> cairo_uint64 cairo_uquorem64 option" where
  "cairo_uint64_divrem num den =
     (case cairo_uint64_divrem_norm num den (cairo_uint32_to_uint64 1) of
        None \<Rightarrow> None
      | Some (den, bt) \<Rightarrow>
          (case cairo_uint64_divrem_gen num den bt (cairo_uint32_to_uint64 0) of
             None \<Rightarrow> None
           | Some (quo, num) \<Rightarrow> Some \<lparr>quo64 = quo, rem64 = num\<rparr>))"

section \<open>The number a struct stands for\<close>

definition val64 :: "cairo_uint64 \<Rightarrow> nat" where
  "val64 a = pairval (hi32 a) (lo32 a)"

definition w64 :: "cairo_uint64 \<Rightarrow> u64" where
  "w64 a = of_nat (val64 a)"

lemma val64_lt: "val64 a < 2 ^ 64"
  using pairval_lt [of "hi32 a" "lo32 a"] by (simp add: val64_def)

lemma unat_w64 [simp]: "unat (w64 a) = val64 a"
  using val64_lt [of a] by (simp add: w64_def unat_of_nat_less)

lemma val64_inject: "val64 a = val64 b \<longleftrightarrow> a = b"
  by (auto simp: val64_def pairval_inject)

lemmas struct64_defs =
  cairo_uint32_to_uint64_def cairo_int32_to_int64_def cairo_uint32s_to_uint64_def
  cairo_uint64_add_def cairo_uint64_sub_def cairo_uint64_not_def cairo_uint64_negate_def

lemma pairmod32 [simp]: "pairmod TYPE(u32) = 2 ^ 64"
  by simp

lemma val64_of_uint32 [simp]: "val64 (cairo_uint32_to_uint64 i) = unat i"
  by (simp add: val64_def pairval_def cairo_uint32_to_uint64_def)

lemma val64_of_uint32s [simp]: "val64 (cairo_uint32s_to_uint64 h l) = unat h * 2 ^ 32 + unat l"
  by (simp add: val64_def pairval_def cairo_uint32s_to_uint64_def)

lemma val64_add: "val64 (cairo_uint64_add a b) = (val64 a + val64 b) mod 2 ^ 64"
  using pairval_add [of "hi32 a" "hi32 b" "lo32 a" "lo32 b"]
  by (simp add: val64_def cairo_uint64_add_def Let_def split: if_splits)

lemma val64_sub: "val64 (cairo_uint64_sub a b) = (val64 a + (2 ^ 64 - val64 b)) mod 2 ^ 64"
  using pairval_sub [of "hi32 a" "hi32 b" "lo32 a" "lo32 b"]
  by (simp add: val64_def cairo_uint64_sub_def Let_def split: if_splits)

lemma val64_lt_iff: "cairo_uint64_lt a b \<longleftrightarrow> val64 a < val64 b"
  by (simp add: cairo_uint64_lt_def val64_def pairval_less_iff)

lemma val64_eq_iff: "cairo_uint64_eq a b \<longleftrightarrow> val64 a = val64 b"
  by (auto simp: cairo_uint64_eq_def val64_def pairval_inject)

lemma val64_not: "val64 (cairo_uint64_not a) = 2 ^ 64 - 1 - val64 a"
  using pairval_not [of "hi32 a" "lo32 a"]
  by (simp add: val64_def cairo_uint64_not_def)

lemma cairo_uint64_negate_eq:
  "cairo_uint64_negate a = cairo_uint64_add (cairo_uint64_not a) (cairo_uint32_to_uint64 1)"
proof -
  have "x + 1 < x \<longleftrightarrow> x + 1 = 0" for x :: u32
    by (rule word_succ_wraps)
  then show ?thesis
    by (simp add: struct64_defs Let_def)
qed

lemma val64_lsl:
  assumes "s < 64"
  shows "val64 (cairo_uint64_lsl a s) = (val64 a * 2 ^ s) mod 2 ^ 64"
proof (cases "s < 32")
  case True
  with pairval_lsl [of s "hi32 a" "lo32 a"] show ?thesis
    by (cases "s = 0") (simp_all add: cairo_uint64_lsl_def val64_def or_eq_add_shift [where 'a = 32, simplified])
next
  case False
  with pairval_lsl_ge [of s "lo32 a" "hi32 a"] assms show ?thesis
    by (cases "s = 32") (simp_all add: cairo_uint64_lsl_def val64_def)
qed

lemma val64_rsl:
  assumes "s < 64"
  shows "val64 (cairo_uint64_rsl a s) = val64 a div 2 ^ s"
proof (cases "s < 32")
  case True
  with pairval_rsl [of s "hi32 a" "lo32 a"] show ?thesis
    by (cases "s = 0") (simp_all add: cairo_uint64_rsl_def val64_def or_eq_add_shift' [where 'a = 32, simplified])
next
  case False
  with pairval_rsl_ge [of s "hi32 a" "lo32 a"] assms show ?thesis
    by (cases "s = 32") (simp_all add: cairo_uint64_rsl_def val64_def)
qed

lemma uint32_lo_mask: "uint32_lo i = i AND mask 16"
  by (simp add: uint32_lo_def mask_eq_exp_minus_1)

lemma val64_mul32: "val64 (cairo_uint32x32_64_mul a b) = unat a * unat b"
proof -
  have cast: "ucast (ucast w :: u16) = w" if "unat w < 2 ^ 16" for w :: u32
    using that by (simp add: word_unat_eq_iff unat_ucast_mod)
  have lo: "unat (uint32_lo w) < 2 ^ 16" and hi: "unat (uint32_hi w) < 2 ^ 16" for w
    using unat_lt [of w]
    by (simp_all add: uint32_lo_mask unat_and_mask_mod uint32_hi_def unat_drop_bit_div
        less_mult_imp_div_less)
  have sh: "push_bit 16 (uint32_lo w) = push_bit 16 w" for w
    unfolding uint32_lo_mask word_unat_eq_iff unat_push_bit_mod unat_and_mask_mod
    by (simp add: mult_mod_left)
  have split: "unat w = unat (uint32_hi w) * 2 ^ 16 + unat (uint32_lo w)" for w
    by (simp add: uint32_lo_mask unat_and_mask_mod uint32_hi_def unat_drop_bit_div)
  show ?thesis
    using pairval_wide_mul [of 16 "uint32_lo a" "uint32_hi a" "uint32_lo b" "uint32_hi b"] lo hi
    unfolding val64_def cairo_uint32x32_64_mul_def Let_def cast [OF lo] cast [OF hi] sh
      uint32_carry16_def split [of a] split [of b]
    by (simp add: uint32_hi_def [of "_ + _"] uint32_hi_def [of "_ * _"] uint32_lo_mask [of "_ * _"])
qed

lemma val64_mul: "val64 (cairo_uint64_mul a b) = (val64 a * val64 b) mod 2 ^ 64"
  using pairval_mul [OF val64_mul32 [of "lo32 a" "lo32 b", unfolded val64_def], of "hi32 b" "hi32 a"]
  by (simp add: val64_def cairo_uint64_mul_def Let_def)

definition sval64 :: "cairo_int64 \<Rightarrow> int" where
  "sval64 a = pairsval (hi32 a) (lo32 a)"

lemma sval64_eq: "sval64 a = (if cairo_int64_negative a then int (val64 a) - 2 ^ 64 else int (val64 a))"
  using pairsval_eq [of "hi32 a" "lo32 a"]
  by (simp add: sval64_def cairo_int64_negative_def val64_def)

lemma sval64_rsa:
  assumes "s < 64"
  shows "sval64 (cairo_uint64_rsa a s) = sval64 a div 2 ^ s"
proof (cases "s < 32")
  case True
  with pairsval_rsa [of s "hi32 a" "lo32 a"] show ?thesis
    by (cases "s = 0") (simp_all add: cairo_uint64_rsa_def sval64_def cairo_uint32_rsa_def
      or_eq_add_shift' [where 'a = 32, simplified])
next
  case False
  with pairsval_rsa_ge [of s "hi32 a" "lo32 a"] or_eq_add_shift' [of "s - 32" "hi32 a"] assms
  show ?thesis
    by (cases "s = 32") (simp_all add: cairo_uint64_rsa_def sval64_def cairo_uint32_rsa_def)
qed

lemma sval64_lt_iff: "cairo_int64_lt a b \<longleftrightarrow> sval64 a < sval64 b"
  using val64_lt [of a] val64_lt [of b]
  by (auto simp: cairo_int64_lt_def sval64_eq val64_lt_iff)

lemma sval64_of_int32: "sval64 (cairo_int32_to_int64 i) = sint i"
  using uint_sint_if [of i]
  by (simp add: sval64_def pairsval_def cairo_int32_to_int64_def split: if_splits)

lemma sval64_mul32: "sval64 (cairo_int32x32_64_mul a b) = sint a * sint b"
  using pairsval_smul [OF val64_mul32 [of a b, unfolded val64_def]]
  by (simp add: sval64_def cairo_int32x32_64_mul_def Let_def split: if_splits)

section \<open>Division\<close>

lemma msbset64_iff: "hi32 a AND 0x80000000 = 0 \<longleftrightarrow> \<not> 2 ^ 64 \<le> 2 * val64 a"
proof -
  have "hi32 a AND 0x80000000 = 0 \<longleftrightarrow> \<not> bit (hi32 a) 31"
    using and_exp_eq_0_iff_not_bit [of "hi32 a" 31] by simp
  also have "\<dots> \<longleftrightarrow> \<not> 2 ^ 31 \<le> unat (hi32 a)"
    by (simp add: bit_msb_iff)
  also have "\<dots> \<longleftrightarrow> \<not> 2 ^ 64 \<le> 2 * val64 a"
    using unat_lt [of "lo32 a"] by (auto simp: val64_def pairval_def)
  finally show ?thesis .
qed

lemma nonzero64_iff: "hi32 b OR lo32 b = 0 \<longleftrightarrow> val64 b = 0"
  by (simp add: or_eq_0_iff_word val64_def pairval_def unat_eq_0)

interpretation divrem64: bit_divide val64 64 cairo_uint64_add cairo_uint64_sub
  "\<lambda>a. cairo_uint64_lsl a 1" "\<lambda>a. cairo_uint64_rsl a 1" cairo_uint64_lt
  "\<lambda>d. hi32 d AND 0x80000000 \<noteq> 0" "\<lambda>b. hi32 b OR lo32 b \<noteq> 0"
  cairo_uint64_divrem_norm cairo_uint64_divrem_gen
proof
  show "val64 (cairo_uint64_sub a b) = val64 a - val64 b" if "val64 b \<le> val64 a" for a b
    using that val64_lt [of a] by (simp add: val64_sub le_mod_geq)
  show "val64 (cairo_uint64_lsl a 1) = 2 * val64 a mod 2 ^ 64" for a
    by (simp add: val64_lsl mult.commute)
  show "val64 (cairo_uint64_rsl a 1) = val64 a div 2" for a
    by (simp add: val64_rsl)
  show "cairo_uint64_divrem_norm num den bt
      = (if cairo_uint64_lt den num \<and> \<not> hi32 den AND 0x80000000 \<noteq> 0
         then cairo_uint64_divrem_norm num (cairo_uint64_lsl den 1) (cairo_uint64_lsl bt 1)
         else Some (den, bt))" for num den bt
    by (subst cairo_uint64_divrem_norm.simps) simp
  show "cairo_uint64_divrem_gen num den bt quo
      = (if hi32 bt OR lo32 bt \<noteq> 0
         then if \<not> cairo_uint64_lt num den
              then cairo_uint64_divrem_gen (cairo_uint64_sub num den) (cairo_uint64_rsl den 1)
                     (cairo_uint64_rsl bt 1) (cairo_uint64_add quo bt)
              else cairo_uint64_divrem_gen num (cairo_uint64_rsl den 1) (cairo_uint64_rsl bt 1) quo
         else Some (quo, num))" for num den bt quo
    by (rule cairo_uint64_divrem_gen.simps)
qed (simp_all only: val64_lt val64_add val64_lt_iff msbset64_iff nonzero64_iff not_not)

theorem val64_divrem:
  assumes "val64 den \<noteq> 0"
  shows "\<exists>qr. cairo_uint64_divrem num den = Some qr
    \<and> val64 (quo64 qr) = val64 num div val64 den \<and> val64 (rem64 qr) = val64 num mod val64 den"
proof -
  obtain den' bt q r where "cairo_uint64_divrem_norm num den (cairo_uint32_to_uint64 1) = Some (den', bt)"
    "cairo_uint64_divrem_gen num den' bt (cairo_uint32_to_uint64 0) = Some (q, r)"
    "val64 q = val64 num div val64 den" "val64 r = val64 num mod val64 den"
    by (rule divrem64.loops_divide [of den "cairo_uint32_to_uint64 1" "cairo_uint32_to_uint64 0" num])
      (simp_all add: assms)
  then show ?thesis
    by (simp add: cairo_uint64_divrem_def)
qed

lemma cairo_uint64_divrem_norm_zero:
  "cairo_uint64_divrem_norm num den bt = Some r \<Longrightarrow> val64 den = 0 \<Longrightarrow> val64 num = 0"
proof (induction rule: cairo_uint64_divrem_norm.raw_induct [rotated, consumes 1, case_names step])
  case (step norm num den bt r)
  show ?case
    using step(2,3) step(1) [of num "cairo_uint64_lsl den 1"]
    by (cases r) (auto simp: val64_lt_iff msbset64_iff val64_lsl split: if_splits)
qed

theorem cairo_uint64_divrem_by_zero:
  assumes "val64 den = 0" "val64 num \<noteq> 0"
  shows "cairo_uint64_divrem num den = None"
  using assms cairo_uint64_divrem_norm_zero [of num den]
  by (cases "cairo_uint64_divrem_norm num den (cairo_uint32_to_uint64 1)")
    (auto simp: cairo_uint64_divrem_def)

end
