(* ===== verification/Wide128.thy ===== *)
theory Wide128
  imports Wide64
begin

text \<open>
  The 128-bit integers of \<^verbatim>\<open>ns-3.15/src/core/model/cairo-wideint.c\<close> (configuration without
  a native 128-bit type), made of two 64-bit halves, and the mixed 96-by-64-bit division.

  The C code selects the 64-bit arithmetic with the preprocessor: \<^verbatim>\<open>HAVE_UINT64_T\<close> gives
  macros on the native type, otherwise the struct routines of theory \<open>Wide64\<close>. The model keeps
  that choice open: a record \<open>uint64_ops\<close> holds the operations, \<open>native_ops\<close> and
  \<open>struct_ops\<close> are the two selections of the source, and every routine takes the record as its
  first argument. The locale \<open>uint64_impl\<close> is the contract of the selection (each operation
  refines the one on 64-bit words); it is interpreted for both, and the arithmetic of the 128-bit
  routines is proved once inside it.

  A division is \<open>None\<close> when the C division does not return a value: the native \<^verbatim>\<open>/\<close>
  by zero, and the bit-at-a-time loops when they run forever. Negating the most negative native
  integer wraps.
\<close>

unbundle bit_operations_syntax

section \<open>The 64-bit operations the file selects\<close>

record 'w uint64_ops =
  uint32_to_uint64 :: "u32 \<Rightarrow> 'w"
  uint64_to_uint32 :: "'w \<Rightarrow> u32"
  int32_to_int64 :: "u32 \<Rightarrow> 'w"
  uint32s_to_uint64 :: "u32 \<Rightarrow> u32 \<Rightarrow> 'w"
  add64 :: "'w \<Rightarrow> 'w \<Rightarrow> 'w"
  sub64 :: "'w \<Rightarrow> 'w \<Rightarrow> 'w"
  mul64 :: "'w \<Rightarrow> 'w \<Rightarrow> 'w"
  mul32x32 :: "u32 \<Rightarrow> u32 \<Rightarrow> 'w"
  lsl64 :: "'w \<Rightarrow> nat \<Rightarrow> 'w"
  rsl64 :: "'w \<Rightarrow> nat \<Rightarrow> 'w"
  rsa64 :: "'w \<Rightarrow> nat \<Rightarrow> 'w"
  lt64 :: "'w \<Rightarrow> 'w \<Rightarrow> bool"
  eq64 :: "'w \<Rightarrow> 'w \<Rightarrow> bool"
  not64 :: "'w \<Rightarrow> 'w"
  negate64 :: "'w \<Rightarrow> 'w"
  negative64 :: "'w \<Rightarrow> bool"
  uint64_lo32 :: "'w \<Rightarrow> u32"
  uint64_hi32 :: "'w \<Rightarrow> u32"
  uint64_lo :: "'w \<Rightarrow> 'w"
  uint64_hi :: "'w \<Rightarrow> 'w"
  uint64_shift32 :: "'w \<Rightarrow> 'w"
  uint64_carry32 :: 'w
  msbset64 :: "'w \<Rightarrow> bool"
  divrem64 :: "'w \<Rightarrow> 'w \<Rightarrow> 'w cairo_uquorem64 option"

definition native_uint64_divrem :: "u64 \<Rightarrow> u64 \<Rightarrow> u64 cairo_uquorem64 option" where
  "native_uint64_divrem num den =
     (if den = 0 then None else Some \<lparr>quo64 = num div den, rem64 = num mod den\<rparr>)"

definition native_ops :: "u64 uint64_ops" where
  "native_ops = \<lparr>
     uint32_to_uint64 = ucast,
     uint64_to_uint32 = ucast,
     int32_to_int64 = scast,
     uint32s_to_uint64 = (\<lambda>h l. push_bit 32 (ucast h) OR ucast l),
     add64 = (\<lambda>a b. a + b),
     sub64 = (\<lambda>a b. a - b),
     mul64 = (\<lambda>a b. a * b),
     mul32x32 = (\<lambda>a b. ucast a * ucast b),
     lsl64 = (\<lambda>a s. push_bit s a),
     rsl64 = (\<lambda>a s. drop_bit s a),
     rsa64 = (\<lambda>a s. signed_drop_bit s a),
     lt64 = (\<lambda>a b. a < b),
     eq64 = (\<lambda>a b. a = b),
     not64 = (\<lambda>a. NOT a),
     negate64 = (\<lambda>a. - a),
     negative64 = (\<lambda>a. sint a < 0),
     uint64_lo32 = (\<lambda>i. ucast (i AND 0xffffffff)),
     uint64_hi32 = (\<lambda>i. ucast (drop_bit 32 i)),
     uint64_lo = (\<lambda>i. i AND 0xffffffff),
     uint64_hi = (\<lambda>i. drop_bit 32 i),
     uint64_shift32 = (\<lambda>i. push_bit 32 i),
     uint64_carry32 = push_bit 32 1,
     msbset64 = (\<lambda>q. q AND push_bit 63 1 \<noteq> 0),
     divrem64 = native_uint64_divrem\<rparr>"

definition uint64_lo_struct :: "cairo_uint64 \<Rightarrow> cairo_uint64" where
  "uint64_lo_struct i = \<lparr>lo32 = lo32 i, hi32 = 0\<rparr>"

definition uint64_hi_struct :: "cairo_uint64 \<Rightarrow> cairo_uint64" where
  "uint64_hi_struct i = \<lparr>lo32 = hi32 i, hi32 = 0\<rparr>"

definition uint64_shift32_struct :: "cairo_uint64 \<Rightarrow> cairo_uint64" where
  "uint64_shift32_struct i = \<lparr>lo32 = 0, hi32 = lo32 i\<rparr>"

definition struct_ops :: "cairo_uint64 uint64_ops" where
  "struct_ops = \<lparr>
     uint32_to_uint64 = cairo_uint32_to_uint64,
     uint64_to_uint32 = lo32,
     int32_to_int64 = cairo_int32_to_int64,
     uint32s_to_uint64 = cairo_uint32s_to_uint64,
     add64 = cairo_uint64_add,
     sub64 = cairo_uint64_sub,
     mul64 = cairo_uint64_mul,
     mul32x32 = cairo_uint32x32_64_mul,
     lsl64 = cairo_uint64_lsl,
     rsl64 = cairo_uint64_rsl,
     rsa64 = cairo_uint64_rsa,
     lt64 = cairo_uint64_lt,
     eq64 = cairo_uint64_eq,
     not64 = cairo_uint64_not,
     negate64 = cairo_uint64_negate,
     negative64 = cairo_int64_negative,
     uint64_lo32 = lo32,
     uint64_hi32 = hi32,
     uint64_lo = uint64_lo_struct,
     uint64_hi = uint64_hi_struct,
     uint64_shift32 = uint64_shift32_struct,
     uint64_carry32 = \<lparr>lo32 = 0, hi32 = 1\<rparr>,
     msbset64 = (\<lambda>q. hi32 q AND push_bit 31 1 \<noteq> 0),
     divrem64 = cairo_uint64_divrem\<rparr>"

section \<open>Signed 64-bit division\<close>

definition cairo_int64_divrem :: "'w uint64_ops \<Rightarrow> 'w \<Rightarrow> 'w \<Rightarrow> 'w cairo_uquorem64 option" where
  "cairo_int64_divrem ops num den =
     (let num_neg = negative64 ops num;
          den_neg = negative64 ops den;
          num = (if num_neg then negate64 ops num else num);
          den = (if den_neg then negate64 ops den else den)
      in case divrem64 ops num den of
           None \<Rightarrow> None
         | Some uqr \<Rightarrow> Some \<lparr>
             quo64 = (if num_neg \<noteq> den_neg then negate64 ops (quo64 uqr) else quo64 uqr),
             rem64 = (if num_neg then negate64 ops (rem64 uqr) else rem64 uqr)\<rparr>)"

section \<open>The 128-bit struct and its routines\<close>

record 'w cairo_uint128 =
  lo :: 'w
  hi :: 'w

record 'w cairo_uquorem128 =
  quo128 :: "'w cairo_uint128"
  rem128 :: "'w cairo_uint128"

definition cairo_uint32_to_uint128 :: "'w uint64_ops \<Rightarrow> u32 \<Rightarrow> 'w cairo_uint128" where
  "cairo_uint32_to_uint128 ops i = \<lparr>lo = uint32_to_uint64 ops i, hi = uint32_to_uint64 ops 0\<rparr>"

definition cairo_int32_to_int128 :: "'w uint64_ops \<Rightarrow> u32 \<Rightarrow> 'w cairo_uint128" where
  "cairo_int32_to_int128 ops i =
     \<lparr>lo = int32_to_int64 ops i, hi = int32_to_int64 ops (if sint i < 0 then - 1 else 0)\<rparr>"

definition cairo_uint64_to_uint128 :: "'w uint64_ops \<Rightarrow> 'w \<Rightarrow> 'w cairo_uint128" where
  "cairo_uint64_to_uint128 ops i = \<lparr>lo = i, hi = uint32_to_uint64 ops 0\<rparr>"

definition cairo_int64_to_int128 :: "'w uint64_ops \<Rightarrow> 'w \<Rightarrow> 'w cairo_uint128" where
  "cairo_int64_to_int128 ops i =
     \<lparr>lo = i, hi = int32_to_int64 ops (if negative64 ops i then - 1 else 0)\<rparr>"

definition cairo_uint128_add ::
    "'w uint64_ops \<Rightarrow> 'w cairo_uint128 \<Rightarrow> 'w cairo_uint128 \<Rightarrow> 'w cairo_uint128" where
  "cairo_uint128_add ops a b =
     (let s = \<lparr>lo = add64 ops (lo a) (lo b), hi = add64 ops (hi a) (hi b)\<rparr>
      in if lt64 ops (lo s) (lo a)
         then s\<lparr>hi := add64 ops (hi s) (uint32_to_uint64 ops 1)\<rparr> else s)"

definition cairo_uint128_sub ::
    "'w uint64_ops \<Rightarrow> 'w cairo_uint128 \<Rightarrow> 'w cairo_uint128 \<Rightarrow> 'w cairo_uint128" where
  "cairo_uint128_sub ops a b =
     (let s = \<lparr>lo = sub64 ops (lo a) (lo b), hi = sub64 ops (hi a) (hi b)\<rparr>
      in if lt64 ops (lo a) (lo s)
         then s\<lparr>hi := sub64 ops (hi s) (uint32_to_uint64 ops 1)\<rparr> else s)"

definition cairo_uint64x64_128_mul :: "'w uint64_ops \<Rightarrow> 'w \<Rightarrow> 'w \<Rightarrow> 'w cairo_uint128" where
  "cairo_uint64x64_128_mul ops a b =
     (let al = uint64_lo32 ops a; ah = uint64_hi32 ops a;
          bl = uint64_lo32 ops b; bh = uint64_hi32 ops b;
          r0 = mul32x32 ops al bl;
          r1 = mul32x32 ops al bh;
          r2 = mul32x32 ops ah bl;
          r3 = mul32x32 ops ah bh;
          r1 = add64 ops r1 (uint64_hi ops r0);
          r1 = add64 ops r1 r2;
          r3 = (if lt64 ops r1 r2 then add64 ops r3 (uint64_carry32 ops) else r3)
      in \<lparr>lo = add64 ops (uint64_shift32 ops r1) (uint64_lo ops r0),
          hi = add64 ops r3 (uint64_hi ops r1)\<rparr>)"

definition cairo_int64x64_128_mul :: "'w uint64_ops \<Rightarrow> 'w \<Rightarrow> 'w \<Rightarrow> 'w cairo_uint128" where
  "cairo_int64x64_128_mul ops a b =
     (let s = cairo_uint64x64_128_mul ops a b;
          s = (if negative64 ops a then s\<lparr>hi := sub64 ops (hi s) b\<rparr> else s)
      in if negative64 ops b then s\<lparr>hi := sub64 ops (hi s) a\<rparr> else s)"

definition cairo_uint128_mul ::
    "'w uint64_ops \<Rightarrow> 'w cairo_uint128 \<Rightarrow> 'w cairo_uint128 \<Rightarrow> 'w cairo_uint128" where
  "cairo_uint128_mul ops a b =
     (let s = cairo_uint64x64_128_mul ops (lo a) (lo b);
          s = s\<lparr>hi := add64 ops (hi s) (mul64 ops (lo a) (hi b))\<rparr>
      in s\<lparr>hi := add64 ops (hi s) (mul64 ops (hi a) (lo b))\<rparr>)"

definition cairo_uint128_lsl :: "'w uint64_ops \<Rightarrow> 'w cairo_uint128 \<Rightarrow> nat \<Rightarrow> 'w cairo_uint128" where
  "cairo_uint128_lsl ops a shift =
     (let (a, shift) =
            (if shift \<ge> 64 then (a\<lparr>hi := lo a, lo := uint32_to_uint64 ops 0\<rparr>, shift - 64)
             else (a, shift))
      in if shift \<noteq> 0
         then \<lparr>lo = lsl64 ops (lo a) shift,
               hi = add64 ops (lsl64 ops (hi a) shift) (rsl64 ops (lo a) (64 - shift))\<rparr>
         else a)"

definition cairo_uint128_rsl :: "'w uint64_ops \<Rightarrow> 'w cairo_uint128 \<Rightarrow> nat \<Rightarrow> 'w cairo_uint128" where
  "cairo_uint128_rsl ops a shift =
     (let (a, shift) =
            (if shift \<ge> 64 then (a\<lparr>lo := hi a, hi := uint32_to_uint64 ops 0\<rparr>, shift - 64)
             else (a, shift))
      in if shift \<noteq> 0
         then \<lparr>lo = add64 ops (rsl64 ops (lo a) shift) (lsl64 ops (hi a) (64 - shift)),
               hi = rsl64 ops (hi a) shift\<rparr>
         else a)"

definition cairo_uint128_rsa :: "'w uint64_ops \<Rightarrow> 'w cairo_uint128 \<Rightarrow> nat \<Rightarrow> 'w cairo_uint128" where
  "cairo_uint128_rsa ops a shift =
     (let (a, shift) =
            (if shift \<ge> 64 then (a\<lparr>lo := hi a, hi := rsa64 ops (hi a) (64 - 1)\<rparr>, shift - 64)
             else (a, shift))
      in if shift \<noteq> 0
         then \<lparr>lo = add64 ops (rsl64 ops (lo a) shift) (lsl64 ops (hi a) (64 - shift)),
               hi = rsa64 ops (hi a) shift\<rparr>
         else a)"

definition cairo_uint128_lt :: "'w uint64_ops \<Rightarrow> 'w cairo_uint128 \<Rightarrow> 'w cairo_uint128 \<Rightarrow> bool" where
  "cairo_uint128_lt ops a b \<longleftrightarrow>
     lt64 ops (hi a) (hi b) \<or> (eq64 ops (hi a) (hi b) \<and> lt64 ops (lo a) (lo b))"

definition cairo_int128_negative :: "'w uint64_ops \<Rightarrow> 'w cairo_uint128 \<Rightarrow> bool" where
  "cairo_int128_negative ops a \<longleftrightarrow> negative64 ops (hi a)"

definition cairo_int128_lt :: "'w uint64_ops \<Rightarrow> 'w cairo_uint128 \<Rightarrow> 'w cairo_uint128 \<Rightarrow> bool" where
  "cairo_int128_lt ops a b =
     (if cairo_int128_negative ops a \<and> \<not> cairo_int128_negative ops b then True
      else if \<not> cairo_int128_negative ops a \<and> cairo_int128_negative ops b then False
      else cairo_uint128_lt ops a b)"

definition cairo_uint128_eq :: "'w uint64_ops \<Rightarrow> 'w cairo_uint128 \<Rightarrow> 'w cairo_uint128 \<Rightarrow> bool" where
  "cairo_uint128_eq ops a b \<longleftrightarrow> eq64 ops (hi a) (hi b) \<and> eq64 ops (lo a) (lo b)"

partial_function (option) cairo_uint128_divrem_norm ::
    "'w uint64_ops \<Rightarrow> 'w cairo_uint128 \<Rightarrow> 'w cairo_uint128 \<Rightarrow> 'w cairo_uint128
       \<Rightarrow> ('w cairo_uint128 \<times> 'w cairo_uint128) option" where
  "cairo_uint128_divrem_norm ops num den bt =
     (if cairo_uint128_lt ops den num \<and> \<not> msbset64 ops (hi den)
      then cairo_uint128_divrem_norm ops num (cairo_uint128_lsl ops den 1) (cairo_uint128_lsl ops bt 1)
      else Some (den, bt))"

declare cairo_uint128_divrem_norm.simps [code]

partial_function (option) cairo_uint128_divrem_gen ::
    "'w uint64_ops \<Rightarrow> 'w cairo_uint128 \<Rightarrow> 'w cairo_uint128 \<Rightarrow> 'w cairo_uint128
       \<Rightarrow> 'w cairo_uint128 \<Rightarrow> ('w cairo_uint128 \<times> 'w cairo_uint128) option" where
  "cairo_uint128_divrem_gen ops num den bt quo =
     (if \<not> cairo_uint128_eq ops bt (cairo_uint32_to_uint128 ops 0)
      then if \<not> cairo_uint128_lt ops num den
           then cairo_uint128_divrem_gen ops (cairo_uint128_sub ops num den)
                  (cairo_uint128_rsl ops den 1) (cairo_uint128_rsl ops bt 1)
                  (cairo_uint128_add ops quo bt)
           else cairo_uint128_divrem_gen ops num (cairo_uint128_rsl ops den 1)
                  (cairo_uint128_rsl ops bt 1) quo
      else Some (quo, num))"

declare cairo_uint128_divrem_gen.simps [code]

definition cairo_uint128_divrem ::
    "'w uint64_ops \<Rightarrow> 'w cairo_uint128 \<Rightarrow> 'w cairo_uint128 \<Rightarrow> 'w cairo_uquorem128 option" where
  "cairo_uint128_divrem ops num den =
     (case cairo_uint128_divrem_norm ops num den (cairo_uint32_to_uint128 ops 1) of
        None \<Rightarrow> None
      | Some (den, bt) \<Rightarrow>
          (case cairo_uint128_divrem_gen ops num den bt (cairo_uint32_to_uint128 ops 0) of
             None \<Rightarrow> None
           | Some (quo, num) \<Rightarrow> Some \<lparr>quo128 = quo, rem128 = num\<rparr>))"

definition cairo_int128_negate :: "'w uint64_ops \<Rightarrow> 'w cairo_uint128 \<Rightarrow> 'w cairo_uint128" where
  "cairo_int128_negate ops a =
     cairo_uint128_add ops \<lparr>lo = not64 ops (lo a), hi = not64 ops (hi a)\<rparr>
       (cairo_uint32_to_uint128 ops 1)"

definition cairo_int128_not :: "'w uint64_ops \<Rightarrow> 'w cairo_uint128 \<Rightarrow> 'w cairo_uint128" where
  "cairo_int128_not ops a = \<lparr>lo = not64 ops (lo a), hi = not64 ops (hi a)\<rparr>"

definition cairo_int128_divrem ::
    "'w uint64_ops \<Rightarrow> 'w cairo_uint128 \<Rightarrow> 'w cairo_uint128 \<Rightarrow> 'w cairo_uquorem128 option" where
  "cairo_int128_divrem ops num den =
     (let num_neg = cairo_int128_negative ops num;
          den_neg = cairo_int128_negative ops den;
          num = (if num_neg then cairo_int128_negate ops num else num);
          den = (if den_neg then cairo_int128_negate ops den else den)
      in case cairo_uint128_divrem ops num den of
           None \<Rightarrow> None
         | Some uqr \<Rightarrow> Some \<lparr>
             quo128 = (if num_neg \<noteq> den_neg then cairo_int128_negate ops (quo128 uqr) else quo128 uqr),
             rem128 = (if num_neg then cairo_int128_negate ops (rem128 uqr) else rem128 uqr)\<rparr>)"

section \<open>The 96-by-64-bit division\<close>

text \<open>The branch of \<^verbatim>\<open>_cairo_uint_96by64_32x64_divrem\<close> with two divisions.\<close>

definition uint_96by64_two_divrems ::
    "'w uint64_ops \<Rightarrow> 'w \<Rightarrow> u32 \<Rightarrow> 'w \<Rightarrow> 'w cairo_uquorem64 option" where
  "uint_96by64_two_divrems ops x y den =
     (let u = uint64_hi32 ops den;
          v = uint64_to_uint32 ops den
      in case (if u + 1 \<noteq> 0
               then (case divrem64 ops x (uint32_to_uint64 ops (u + 1)) of
                       None \<Rightarrow> None
                     | Some quorem \<Rightarrow>
                         Some (uint64_to_uint32 ops (quo64 quorem), uint64_to_uint32 ops (rem64 quorem)))
               else Some (uint64_hi32 ops x, uint64_to_uint32 ops x)) of
           None \<Rightarrow> None
         | Some (q, r) \<Rightarrow>
             (case (if v \<noteq> 0 then divrem64 ops (mul32x32 ops q (- v)) den
                    else divrem64 ops (uint32s_to_uint64 ops q 0) den) of
                None \<Rightarrow> None
              | Some quorem \<Rightarrow>
                  let quotient = q + uint64_to_uint32 ops (quo64 quorem);
                      remainder = uint32s_to_uint64 ops r y;
                      (remainder, quotient) =
                        (if \<not> lt64 ops remainder den
                         then (sub64 ops remainder den, quotient + 1) else (remainder, quotient));
                      remainder = add64 ops remainder (rem64 quorem);
                      (remainder, quotient) =
                        (if \<not> lt64 ops remainder den \<or> lt64 ops remainder (rem64 quorem)
                         then (sub64 ops remainder den, quotient + 1) else (remainder, quotient))
                  in Some \<lparr>quo64 = uint32_to_uint64 ops quotient, rem64 = remainder\<rparr>))"

definition cairo_uint_96by64_32x64_divrem ::
    "'w uint64_ops \<Rightarrow> 'w cairo_uint128 \<Rightarrow> 'w \<Rightarrow> 'w cairo_uquorem64 option" where
  "cairo_uint_96by64_32x64_divrem ops num den =
     (let B = uint32s_to_uint64 ops 1 0;
          x = lo (cairo_uint128_rsl ops num 32)
      in if \<not> lt64 ops x den
         then Some \<lparr>quo64 = uint32s_to_uint64 ops (- 1) (- 1), rem64 = den\<rparr>
         else if lt64 ops x B
         then divrem64 ops (lo num) den
         else uint_96by64_two_divrems ops x (uint64_to_uint32 ops (lo num)) den)"

definition cairo_int_96by64_32x64_divrem ::
    "'w uint64_ops \<Rightarrow> 'w cairo_uint128 \<Rightarrow> 'w \<Rightarrow> 'w cairo_uquorem64 option" where
  "cairo_int_96by64_32x64_divrem ops num den =
     (let num_neg = cairo_int128_negative ops num;
          den_neg = negative64 ops den;
          num = (if num_neg then cairo_int128_negate ops num else num);
          nonneg_den = (if den_neg then negate64 ops den else den)
      in case cairo_uint_96by64_32x64_divrem ops num nonneg_den of
           None \<Rightarrow> None
         | Some uqr \<Rightarrow>
             if eq64 ops (rem64 uqr) nonneg_den
             then Some \<lparr>quo64 = uint32s_to_uint64 ops 0x7fffffff (- 1), rem64 = den\<rparr>
             else Some \<lparr>
               quo64 = (if num_neg \<noteq> den_neg then negate64 ops (quo64 uqr) else quo64 uqr),
               rem64 = (if num_neg then negate64 ops (rem64 uqr) else rem64 uqr)\<rparr>)"

section \<open>The contract of the 64-bit operations\<close>

locale uint64_impl =
  fixes ops :: "'w uint64_ops" and v :: "'w \<Rightarrow> u64"
  assumes v_inject: "v a = v b \<longleftrightarrow> a = b"
    and v_of_uint32: "v (uint32_to_uint64 ops i) = ucast i"
    and to_uint32: "uint64_to_uint32 ops a = ucast (v a)"
    and v_of_int32: "v (int32_to_int64 ops i) = scast i"
    and v_of_uint32s: "unat (v (uint32s_to_uint64 ops h l)) = unat h * 2 ^ 32 + unat l"
    and v_add: "v (add64 ops a b) = v a + v b"
    and v_sub: "v (sub64 ops a b) = v a - v b"
    and v_mul: "v (mul64 ops a b) = v a * v b"
    and v_mul32x32: "v (mul32x32 ops x y) = ucast x * ucast y"
    and v_lsl: "s < 64 \<Longrightarrow> v (lsl64 ops a s) = push_bit s (v a)"
    and v_rsl: "s < 64 \<Longrightarrow> v (rsl64 ops a s) = drop_bit s (v a)"
    and v_rsa: "s < 64 \<Longrightarrow> v (rsa64 ops a s) = signed_drop_bit s (v a)"
    and lt_iff: "lt64 ops a b \<longleftrightarrow> v a < v b"
    and eq_iff: "eq64 ops a b \<longleftrightarrow> v a = v b"
    and v_not: "v (not64 ops a) = NOT (v a)"
    and v_negate: "v (negate64 ops a) = - v a"
    and negative_iff: "negative64 ops a \<longleftrightarrow> sint (v a) < 0"
    and lo32_eq: "uint64_lo32 ops a = ucast (v a)"
    and hi32_eq: "uint64_hi32 ops a = ucast (drop_bit 32 (v a))"
    and v_lo: "v (uint64_lo ops a) = v a AND mask 32"
    and v_hi: "v (uint64_hi ops a) = drop_bit 32 (v a)"
    and v_shift32: "v (uint64_shift32 ops a) = push_bit 32 (v a)"
    and v_carry32: "v (uint64_carry32 ops) = push_bit 32 1"
    and msbset_iff: "msbset64 ops a \<longleftrightarrow> bit (v a) 63"
    and divrem_ok: "v den \<noteq> 0 \<Longrightarrow> \<exists>qr. divrem64 ops num den = Some qr
      \<and> v (quo64 qr) = v num div v den \<and> v (rem64 qr) = v num mod v den"

lemma word_sint_eqI: "sint a = sint b \<Longrightarrow> a = b"
  by (rule signed_word_eqI)

lemma word32_lt_64: "unat (h::u32) * 2 ^ 32 + unat (l::u32) < 2 ^ 64"
  using pairval_lt [of h l] by (simp add: pairval_def)

lemma ucast_low: "(ucast ((w::u64) AND mask 32) :: u32) = ucast w"
  by (simp add: word_unat_eq_iff unat_ucast_mod unat_and_mask_mod)

interpretation native: uint64_impl native_ops "\<lambda>a. a"
proof
  show "unat (uint32s_to_uint64 native_ops h l) = unat h * 2 ^ 32 + unat l" for h l
  proof -
    have "push_bit 32 (ucast h :: u64) OR ucast l = push_bit 32 (ucast h) + ucast l"
    proof -
      have "\<not> bit (push_bit 32 (ucast h :: u64)) n \<or> \<not> bit (ucast l :: u64) n" for n
        by (auto simp: bit_simps dest: bit_imp_le_length)
      then show ?thesis by (simp add: disjunctive_add)
    qed
    then show ?thesis
      using word32_lt_64 [of h l] unat_lt [of h] unat_lt [of l]
      by (simp add: native_ops_def unat_word_ariths unat_push_bit_mod unat_ucast_mod)
  qed
  show "uint64_lo32 native_ops a = ucast a" for a
    using ucast_low [of a] by (simp add: native_ops_def mask_eq_exp_minus_1)
  show "msbset64 native_ops a \<longleftrightarrow> bit a 63" for a
    using and_exp_eq_0_iff_not_bit [of a 63] by (simp add: native_ops_def)
qed (simp_all add: native_ops_def native_uint64_divrem_def mask_eq_exp_minus_1)

lemma sint_w64: "sint (w64 a) = sval64 a"
proof (rule eq_if_cong_range)
  have "int (val64 a) = sint (w64 a) + (if sint (w64 a) < 0 then 2 ^ 64 else 0)"
    using uint_sint_if [of "w64 a"] by (simp add: uint_int_unat split: if_splits)
  then have "sint (w64 a) - sval64 a = (if sint (w64 a) < 0 then - (2 ^ 64) else 0)
      + (if cairo_int64_negative a then 2 ^ 64 else 0)"
    by (simp add: sval64_eq)
  then show "2 ^ 64 dvd sint (w64 a) - sval64 a"
    by simp
  show "- (2 ^ 64) \<le> 2 * sint (w64 a)" "2 * sint (w64 a) < 2 ^ 64"
    using sint_range_size [of "w64 a"] by (simp_all add: word_size)
  show "- (2 ^ 64) \<le> 2 * sval64 a" "2 * sval64 a < 2 ^ 64"
    using pairsval_range [of "hi32 a" "lo32 a"] by (simp_all add: sval64_def)
qed

lemma sint_scast_32_64: "sint (scast (i::u32) :: u64) = sint i"
  using sint_range_size [of i]
  by (simp add: signed_scast_eq word_size signed_take_bit_int_eq_self)

lemma w64_add: "w64 (cairo_uint64_add a b) = w64 a + w64 b"
  by (simp add: word_unat_eq_iff unat_word_ariths val64_add)

lemma w64_sub: "w64 (cairo_uint64_sub a b) = w64 a - w64 b"
proof -
  have "unat (w64 (cairo_uint64_sub a b) + w64 b) = unat (w64 a)"
    using val64_lt [of a] val64_lt [of b]
    by (simp add: unat_word_ariths val64_sub mod_add_left_eq)
  then show ?thesis
    unfolding word_unat_eq_iff [symmetric] by (simp only: eq_diff_eq)
qed

lemma w64_not: "w64 (cairo_uint64_not a) = NOT (w64 a)"
  by (simp add: word_unat_eq_iff val64_not word_not_unat)

lemma w64_negate: "w64 (cairo_uint64_negate a) = - w64 a"
  by (simp add: cairo_uint64_negate_eq w64_add w64_not not_eq_complement)
    (simp add: w64_def)

interpretation struct: uint64_impl struct_ops w64
proof
  fix a b num den :: cairo_uint64 and h l i x y :: u32 and s :: nat
  show "w64 a = w64 b \<longleftrightarrow> a = b"
    by (simp add: word_unat_eq_iff val64_inject)
  show "unat (w64 (uint32s_to_uint64 struct_ops h l)) = unat h * 2 ^ 32 + unat l"
    by (simp add: struct_ops_def)
  show "w64 (uint32_to_uint64 struct_ops i) = ucast i"
    using unat_lt [of i] by (simp add: struct_ops_def word_unat_eq_iff unat_ucast_mod)
  show "w64 (int32_to_int64 struct_ops i) = scast i"
    by (rule word_sint_eqI) (simp add: struct_ops_def sint_w64 sval64_of_int32 sint_scast_32_64)
  show "uint64_to_uint32 struct_ops a = ucast (w64 a)"
    using unat_lt [of "lo32 a"]
    by (simp add: struct_ops_def word_unat_eq_iff unat_ucast_mod val64_def pairval_def)
  show "w64 (add64 struct_ops a b) = w64 a + w64 b"
    by (simp add: struct_ops_def w64_add)
  show "w64 (sub64 struct_ops a b) = w64 a - w64 b"
    by (simp add: struct_ops_def w64_sub)
  show "w64 (mul64 struct_ops a b) = w64 a * w64 b"
    by (simp add: struct_ops_def word_unat_eq_iff unat_word_ariths val64_mul)
  show "w64 (mul32x32 struct_ops x y) = ucast x * ucast y"
    using unat_lt [of x] unat_lt [of y] val64_lt [of "cairo_uint32x32_64_mul x y"]
    by (simp add: struct_ops_def word_unat_eq_iff unat_word_ariths val64_mul32 unat_ucast_mod)
  show "w64 (lsl64 struct_ops a s) = push_bit s (w64 a)" if "s < 64"
    using that by (simp add: struct_ops_def word_unat_eq_iff unat_push_bit_mod val64_lsl)
  show "w64 (rsl64 struct_ops a s) = drop_bit s (w64 a)" if "s < 64"
    using that by (simp add: struct_ops_def word_unat_eq_iff unat_drop_bit_div val64_rsl)
  show "w64 (rsa64 struct_ops a s) = signed_drop_bit s (w64 a)" if "s < 64"
    using that
    by (intro word_sint_eqI)
      (simp add: struct_ops_def sint_w64 sval64_rsa sint_signed_drop_bit_eq drop_bit_eq_div)
  show "lt64 struct_ops a b \<longleftrightarrow> w64 a < w64 b"
    by (simp add: struct_ops_def word_less_nat_alt val64_lt_iff)
  show "eq64 struct_ops a b \<longleftrightarrow> w64 a = w64 b"
    by (simp add: struct_ops_def word_unat_eq_iff val64_eq_iff)
  show "w64 (not64 struct_ops a) = NOT (w64 a)"
    by (simp add: struct_ops_def w64_not)
  show "w64 (negate64 struct_ops a) = - w64 a"
    by (simp add: struct_ops_def w64_negate)
  show "negative64 struct_ops a \<longleftrightarrow> sint (w64 a) < 0"
    unfolding sint_w64 using val64_lt [of a] by (simp add: struct_ops_def sval64_eq)
  show "uint64_lo32 struct_ops a = ucast (w64 a)"
    using unat_lt [of "lo32 a"]
    by (simp add: struct_ops_def word_unat_eq_iff unat_ucast_mod val64_def pairval_def)
  show "uint64_hi32 struct_ops a = ucast (drop_bit 32 (w64 a))"
    using unat_lt [of "hi32 a"] unat_lt [of "lo32 a"]
    by (simp add: struct_ops_def word_unat_eq_iff unat_ucast_mod unat_drop_bit_div val64_def pairval_def)
  show "w64 (uint64_lo struct_ops a) = w64 a AND mask 32"
    using unat_lt [of "lo32 a"]
    by (simp add: struct_ops_def uint64_lo_struct_def word_unat_eq_iff unat_and_mask_mod val64_def pairval_def)
  show "w64 (uint64_hi struct_ops a) = drop_bit 32 (w64 a)"
    using unat_lt [of "lo32 a"]
    by (simp add: struct_ops_def uint64_hi_struct_def word_unat_eq_iff unat_drop_bit_div val64_def pairval_def)
  show "w64 (uint64_shift32 struct_ops a) = push_bit 32 (w64 a)"
    using pairval_lsl_word [of "lo32 a" "hi32 a"]
    by (simp add: struct_ops_def uint64_shift32_struct_def word_unat_eq_iff unat_push_bit_mod val64_def)
  show "w64 (uint64_carry32 struct_ops) = push_bit 32 1"
    by (simp add: struct_ops_def w64_def val64_def pairval_def)
  show "msbset64 struct_ops a \<longleftrightarrow> bit (w64 a) 63"
    using msbset64_iff [of a] by (simp add: struct_ops_def bit_msb_iff)
  show "\<exists>qr. divrem64 struct_ops num den = Some qr
      \<and> w64 (quo64 qr) = w64 num div w64 den \<and> w64 (rem64 qr) = w64 num mod w64 den"
    if "w64 den \<noteq> 0"
    using val64_divrem [of den num] that
    by (auto simp: struct_ops_def word_unat_eq_iff unat_div_distrib unat_mod_distrib)
qed

end
