(* ===== verification/Wide128_Arith.thy ===== *)
theory Wide128_Arith
  imports Wide128
begin

text \<open>
  The arithmetic of the 128-bit routines of theory \<open>Wide128\<close>. \<open>val128 v a\<close> is the unsigned and
  \<open>sval128 v a\<close> the two's complement number of a 128-bit struct whose halves stand for the 64-bit
  words \<open>v\<close> gives. Everything is proved once in the locale \<open>uint64_impl\<close>; the sublocale
  declarations hand the 128-bit operations to the division loops (\<open>bit_divide\<close>) and to the sign
  handling (\<open>twos_complement\<close>). The theorems at the end state the results for the two
  configurations of the source.
\<close>

unbundle bit_operations_syntax

section \<open>The number a 128-bit struct stands for\<close>

definition val128 :: "('w \<Rightarrow> u64) \<Rightarrow> 'w cairo_uint128 \<Rightarrow> nat" where
  "val128 v a = pairval (v (hi a)) (v (lo a))"

definition sval128 :: "('w \<Rightarrow> u64) \<Rightarrow> 'w cairo_uint128 \<Rightarrow> int" where
  "sval128 v a = pairsval (v (hi a)) (v (lo a))"

lemma val128_lt: "val128 v a < 2 ^ 128"
  using pairval_lt [of "v (hi a)" "v (lo a)"] by (simp add: val128_def)

lemma wide_split: "unat (ucast (drop_bit 32 w) :: u32) * 2 ^ 32 + unat (ucast w :: u32) = unat (w::u64)"
  using unat_lt [of w] by (simp add: unat_ucast_mod unat_drop_bit_div less_mult_imp_div_less)

lemma ucast_64_32: "unat (ucast (x::u32) :: u64) = unat x"
  using unat_lt [of x] by (simp add: unat_ucast_mod)

lemma unat_sint_if: "sint (w::u64) = (if sint w < 0 then int (unat w) - 2 ^ 64 else int (unat w))"
  using uint_sint_if [of w] unfolding uint_int_unat by simp

lemma unat_sint_neg: "sint (w::u64) < 0 \<longleftrightarrow> 2 ^ 64 \<le> 2 * unat w"
proof -
  have "- (2 ^ 63) \<le> sint w" "sint w < 2 ^ 63"
    using sint_range_size [of w] by (simp_all add: word_size)
  moreover define n where "n = unat w"
  then have "int n = sint w + (if sint w < 0 then 2 ^ 64 else 0)"
    using unat_sint_if [of w] by presburger
  ultimately show ?thesis
    unfolding n_def [symmetric] by (auto split: if_splits)
qed

context uint64_impl
begin

lemmas v_simps = v_of_uint32 to_uint32 v_add v_sub v_mul lt_iff eq_iff v_not v_lo v_hi v_shift32
  v_carry32

lemma val128_inject: "val128 v a = val128 v b \<longleftrightarrow> a = b"
  by (auto simp: val128_def pairval_inject v_inject)

lemma val128_of_uint32 [simp]: "val128 v (cairo_uint32_to_uint128 ops i) = unat i"
  by (simp add: val128_def pairval_def cairo_uint32_to_uint128_def v_simps ucast_64_32)

lemma val128_of_uint64: "val128 v (cairo_uint64_to_uint128 ops i) = unat (v i)"
  by (simp add: val128_def pairval_def cairo_uint64_to_uint128_def v_simps)

lemma sval128_of_int32: "sval128 v (cairo_int32_to_int128 ops i) = sint i"
  using uint_sint_if [of "scast i :: u64"]
  by (simp add: sval128_def pairsval_def cairo_int32_to_int128_def v_of_int32 sint_scast_32_64 split: if_splits)

lemma sval128_of_int64: "sval128 v (cairo_int64_to_int128 ops i) = sint (v i)"
  using uint_sint_if [of "v i"]
  by (simp add: sval128_def pairsval_def cairo_int64_to_int128_def v_of_int32 negative_iff split: if_splits)

lemma val128_add: "val128 v (cairo_uint128_add ops a b) = (val128 v a + val128 v b) mod 2 ^ 128"
  using pairval_add [of "v (hi a)" "v (hi b)" "v (lo a)" "v (lo b)"]
  by (simp add: val128_def cairo_uint128_add_def Let_def v_simps split: if_splits)

lemma val128_sub:
  "val128 v (cairo_uint128_sub ops a b) = (val128 v a + (2 ^ 128 - val128 v b)) mod 2 ^ 128"
  using pairval_sub [of "v (hi a)" "v (hi b)" "v (lo a)" "v (lo b)"]
  by (simp add: val128_def cairo_uint128_sub_def Let_def v_simps split: if_splits)

lemma val128_lt_iff: "cairo_uint128_lt ops a b \<longleftrightarrow> val128 v a < val128 v b"
  by (simp add: cairo_uint128_lt_def val128_def pairval_less_iff lt_iff eq_iff)

lemma val128_eq_iff: "cairo_uint128_eq ops a b \<longleftrightarrow> val128 v a = val128 v b"
  by (auto simp: cairo_uint128_eq_def val128_def pairval_inject eq_iff)

lemma val128_not: "val128 v (cairo_int128_not ops a) = 2 ^ 128 - 1 - val128 v a"
  using pairval_not [of "v (hi a)" "v (lo a)"]
  by (simp add: val128_def cairo_int128_not_def v_not)

lemma val128_negate: "val128 v (cairo_int128_negate ops a) = (2 ^ 128 - val128 v a) mod 2 ^ 128"
proof -
  have "2 ^ 128 - 1 - val128 v a + 1 = 2 ^ 128 - val128 v a"
    using val128_lt [of v a] by linarith
  with val128_not [of a] show ?thesis
    unfolding cairo_int128_negate_def cairo_int128_not_def val128_add val128_of_uint32
    by (simp only: unsigned_1)
qed

lemma val128_lsl:
  assumes "s < 128"
  shows "val128 v (cairo_uint128_lsl ops a s) = (val128 v a * 2 ^ s) mod 2 ^ 128"
proof (cases "s < 64")
  case True
  with pairval_lsl [of s "v (hi a)" "v (lo a)"] show ?thesis
    using val128_lt [of v a]
    by (cases "s = 0") (simp_all add: cairo_uint128_lsl_def val128_def v_simps v_lsl v_rsl)
next
  case False
  with pairval_lsl_ge [of s "v (lo a)" "v (hi a)"] assms show ?thesis
    by (cases "s = 64") (simp_all add: cairo_uint128_lsl_def val128_def v_simps v_lsl v_rsl)
qed

lemma val128_rsl:
  assumes "s < 128"
  shows "val128 v (cairo_uint128_rsl ops a s) = val128 v a div 2 ^ s"
proof (cases "s < 64")
  case True
  with pairval_rsl [of s "v (hi a)" "v (lo a)"] show ?thesis
    by (cases "s = 0") (simp_all add: cairo_uint128_rsl_def val128_def v_simps v_lsl v_rsl)
next
  case False
  with pairval_rsl_ge [of s "v (hi a)" "v (lo a)"] assms show ?thesis
    by (cases "s = 64") (simp_all add: cairo_uint128_rsl_def val128_def v_simps v_lsl v_rsl)
qed

lemma sval128_rsa:
  assumes "s < 128"
  shows "sval128 v (cairo_uint128_rsa ops a s) = sval128 v a div 2 ^ s"
proof (cases "s < 64")
  case True
  with pairsval_rsa [of s "v (hi a)" "v (lo a)"] show ?thesis
    by (cases "s = 0") (simp_all add: cairo_uint128_rsa_def sval128_def v_simps v_lsl v_rsl v_rsa)
next
  case False
  with pairsval_rsa_ge [of s "v (hi a)" "v (lo a)"] assms show ?thesis
    by (cases "s = 64") (simp_all add: cairo_uint128_rsa_def sval128_def v_simps v_lsl v_rsl v_rsa)
qed

lemma val128_mul64: "val128 v (cairo_uint64x64_128_mul ops a b) = unat (v a) * unat (v b)"
proof -
  let ?l = "\<lambda>w. ucast (ucast (v w) :: u32) :: u64"
  let ?h = "\<lambda>w. ucast (ucast (drop_bit 32 (v w)) :: u32) :: u64"
  have lt: "unat (ucast (x::u32) :: u64) < 2 ^ 32" for x
    using unat_lt [of x] by (simp add: ucast_64_32)
  show ?thesis
    using pairval_wide_mul [of 32 "?l a" "?h a" "?l b" "?h b", OF _ lt lt lt lt]
    unfolding val128_def cairo_uint64x64_128_mul_def Let_def wide_split [of "v a", symmetric]
      wide_split [of "v b", symmetric]
    by (simp add: v_simps v_mul32x32 lo32_eq hi32_eq ucast_64_32 split: if_splits)
qed

lemma val128_mul: "val128 v (cairo_uint128_mul ops a b) = (val128 v a * val128 v b) mod 2 ^ 128"
  using pairval_mul [OF val128_mul64 [of "lo a" "lo b", unfolded val128_def], of "v (hi b)" "v (hi a)"]
  by (simp add: val128_def cairo_uint128_mul_def Let_def v_simps add.assoc)

lemma sval128_mul64: "sval128 v (cairo_int64x64_128_mul ops a b) = sint (v a) * sint (v b)"
  using pairsval_smul [OF val128_mul64 [of a b, unfolded val128_def]]
  by (simp add: sval128_def cairo_int64x64_128_mul_def Let_def negative_iff v_sub split: if_splits)

lemma sval128_eq:
  "sval128 v a = (if cairo_int128_negative ops a then int (val128 v a) - 2 ^ 128 else int (val128 v a))"
  using pairsval_eq [of "v (hi a)" "v (lo a)"]
  by (simp add: sval128_def cairo_int128_negative_def val128_def negative_iff)

lemma sval128_lt_iff: "cairo_int128_lt ops a b \<longleftrightarrow> sval128 v a < sval128 v b"
  using val128_lt [of v a] val128_lt [of v b]
  by (auto simp: cairo_int128_lt_def sval128_eq val128_lt_iff)

lemma negative128_iff: "cairo_int128_negative ops a \<longleftrightarrow> 2 ^ 128 \<le> 2 * val128 v a"
  using pairsval_range [of "v (hi a)" "v (lo a)"] val128_lt [of v a]
  by (auto simp: sval128_eq sval128_def [symmetric] split: if_splits)

lemma msbset128_iff: "msbset64 ops (hi a) \<longleftrightarrow> 2 ^ 128 \<le> 2 * val128 v a"
  using unat_lt [of "v (lo a)"] by (auto simp: msbset_iff bit_msb_iff val128_def pairval_def)

end

sublocale uint64_impl \<subseteq> divrem128: bit_divide "val128 v" 128 "cairo_uint128_add ops"
  "cairo_uint128_sub ops" "\<lambda>a. cairo_uint128_lsl ops a 1" "\<lambda>a. cairo_uint128_rsl ops a 1"
  "cairo_uint128_lt ops" "\<lambda>d. msbset64 ops (hi d)"
  "\<lambda>b. \<not> cairo_uint128_eq ops b (cairo_uint32_to_uint128 ops 0)"
  "cairo_uint128_divrem_norm ops" "cairo_uint128_divrem_gen ops"
proof
  fix a b num den bt quo :: "'w cairo_uint128"
  show "val128 v a < 2 ^ 128"
    by (rule val128_lt)
  show "val128 v (cairo_uint128_sub ops a b) = val128 v a - val128 v b" if "val128 v b \<le> val128 v a"
    using that val128_lt [of v a] by (simp add: val128_sub le_mod_geq)
  show "val128 v (cairo_uint128_lsl ops a 1) = 2 * val128 v a mod 2 ^ 128"
    by (simp add: val128_lsl mult.commute)
  show "val128 v (cairo_uint128_rsl ops a 1) = val128 v a div 2"
    by (simp add: val128_rsl)
  show "(\<not> cairo_uint128_eq ops a (cairo_uint32_to_uint128 ops 0)) = (val128 v a \<noteq> 0)"
    by (simp add: val128_eq_iff)
  show "cairo_uint128_divrem_norm ops num den bt =
      (if cairo_uint128_lt ops den num \<and> \<not> msbset64 ops (hi den)
       then cairo_uint128_divrem_norm ops num (cairo_uint128_lsl ops den 1) (cairo_uint128_lsl ops bt 1)
       else Some (den, bt))"
    by (rule cairo_uint128_divrem_norm.simps)
  show "cairo_uint128_divrem_gen ops num den bt quo =
      (if \<not> cairo_uint128_eq ops bt (cairo_uint32_to_uint128 ops 0)
       then if \<not> cairo_uint128_lt ops num den
            then cairo_uint128_divrem_gen ops (cairo_uint128_sub ops num den)
                   (cairo_uint128_rsl ops den 1) (cairo_uint128_rsl ops bt 1)
                   (cairo_uint128_add ops quo bt)
            else cairo_uint128_divrem_gen ops num (cairo_uint128_rsl ops den 1)
                   (cairo_uint128_rsl ops bt 1) quo
       else Some (quo, num))"
    by (rule cairo_uint128_divrem_gen.simps)
qed (simp_all only: val128_add val128_lt_iff msbset128_iff)

sublocale uint64_impl \<subseteq> sign128: twos_complement "val128 v" "sval128 v" 128
  "cairo_int128_negate ops" "cairo_int128_negative ops"
  by standard (simp_all only: val128_lt sval128_eq negative128_iff val128_negate)

sublocale uint64_impl \<subseteq> sign64: twos_complement "\<lambda>a. unat (v a)" "\<lambda>a. sint (v a)" 64
  "negate64 ops" "negative64 ops"
proof
  fix a
  show "unat (v a) < 2 ^ 64"
    using unat_lt [of "v a"] by simp
  show "sint (v a) = (if negative64 ops a then int (unat (v a)) - 2 ^ 64 else int (unat (v a)))"
    unfolding negative_iff by (rule unat_sint_if)
  show "negative64 ops a \<longleftrightarrow> 2 ^ 64 \<le> 2 * unat (v a)"
    unfolding negative_iff by (rule unat_sint_neg)
  show "unat (v (negate64 ops a)) = (2 ^ 64 - unat (v a)) mod 2 ^ 64"
    using unat_sub_if' [of 0 "v a"] unat_lt [of "v a"] by (simp add: v_negate)
qed

section \<open>Division\<close>

lemma nat_96by64:
  fixes x y den u w q r m :: nat
  defines "B \<equiv> 2 ^ 32"
  assumes y: "y < B" and x: "B \<le> x" "x < den" and den: "den = u * B + w" "w < B"
    and q: "q = x div (u + 1)" and r: "r = x mod (u + 1)" and m: "m = q * (B - w)"
  defines "s \<equiv> r * B + y"
  defines "s1 \<equiv> if den \<le> s then s - den else s"
  shows "q < B" "r < B \<or> u + 1 \<ge> B" "s < 2 * den" "m < B * B"
    "(x * B + y) div den = q + m div den + (if den \<le> s then 1 else 0)
       + (if den \<le> s1 + m mod den then 1 else 0)"
    "(x * B + y) mod den = (if den \<le> s1 + m mod den then s1 + m mod den - den else s1 + m mod den)"
proof -
  have B0: "0 < B" by (simp add: B_def)
  have "den < (u + 1) * B"
    unfolding den(1) using den(2) by simp
  then show qB: "q < B"
    unfolding q using x(2) by (intro less_mult_imp_div_less) (simp add: mult.commute)
  have ru: "r \<le> u"
    unfolding r using mod_less_divisor [of "u + 1" x] by linarith
  show "r < B \<or> u + 1 \<ge> B"
    using ru by linarith
  have "(r + 1) * B \<le> (u + 1) * B"
    using ru by (intro mult_right_mono) auto
  then have "s < (u + 1) * B"
    unfolding s_def using y add_mult_distrib [of r 1 B] by linarith
  also have "\<dots> \<le> den + B"
    unfolding den(1) by (simp add: algebra_simps)
  finally show s2: "s < 2 * den"
    using x by linarith
  have "q * (B - w) \<le> q * B"
    by (rule mult_left_mono) simp_all
  also have "\<dots> < B * B"
    using qB B0 by simp
  finally show "m < B * B"
    unfolding m .
  have "x = q * (u + 1) + r"
    unfolding q r by (rule div_mult_mod_eq [symmetric])
  then have "x * B + y = q * ((u + 1) * B) + s"
    unfolding s_def by (simp add: algebra_simps)
  also have "(u + 1) * B = den + (B - w)"
    unfolding den(1) using den(2) by (simp add: algebra_simps)
  finally have num: "x * B + y = q * den + m + s"
    unfolding m by (simp add: algebra_simps)
  define c1 c2 t where "c1 = (if den \<le> s then 1 else 0 :: nat)"
    and "c2 = (if den \<le> s1 + m mod den then 1 else 0 :: nat)" and "t = s1 + m mod den - c2 * den"
  have den0: "0 < den" using x by linarith
  have s1: "s = s1 + c1 * den" "s1 < den"
    using s2 by (auto simp: s1_def c1_def)
  obtain e where e: "m mod den = e" "e < den"
    using mod_less_divisor [OF den0, of m] by blast
  have t: "s1 + m mod den = t + c2 * den" "t < den"
    using s1(2) e(2) unfolding t_def c2_def e(1) by auto
  have "m = m div den * den + m mod den" by simp
  then have "x * B + y = q * den + (m div den * den + m mod den) + (s1 + c1 * den)"
    unfolding num s1(1) [symmetric] by simp
  also have "\<dots> = (s1 + m mod den) + (q + m div den + c1) * den"
    by (simp only: distrib_left distrib_right ac_simps)
  also have "\<dots> = t + (q + m div den + c1 + c2) * den"
    unfolding t(1) by (simp only: distrib_left distrib_right ac_simps)
  finally have "x * B + y = t + (q + m div den + c1 + c2) * den" .
  then have "(x * B + y) div den = q + m div den + c1 + c2" "(x * B + y) mod den = t"
    using t(2) by simp_all
  then show "(x * B + y) div den = q + m div den + (if den \<le> s then 1 else 0)
       + (if den \<le> s1 + m mod den then 1 else 0)"
    "(x * B + y) mod den = (if den \<le> s1 + m mod den then s1 + m mod den - den else s1 + m mod den)"
    by (simp_all add: c1_def c2_def t_def)
qed

lemma add_reduce:
  fixes a b d :: "'a::len word"
  assumes "unat a < unat d" "unat b < unat d"
  shows "\<not> a + b < d \<or> a + b < b \<longleftrightarrow> unat d \<le> unat a + unat b"
    and "unat d \<le> unat a + unat b \<Longrightarrow> unat (a + b - d) = unat a + unat b - unat d"
    and "unat a + unat b < unat d \<Longrightarrow> unat (a + b) = unat a + unat b"
proof -
  define M :: nat where "M = 2 ^ LENGTH('a)"
  have d: "unat d < M"
    unfolding M_def by (rule unat_lt)
  have s: "unat (a + b) = (if unat a + unat b < M then unat a + unat b else unat a + unat b - M)"
    using unat_plus_if' [of a b] unfolding M_def .
  have f: "unat (x - d) = (if unat d \<le> unat x then unat x - unat d else unat x + M - unat d)" for x
    using unat_sub_if' [of x d] unfolding M_def .
  show "\<not> a + b < d \<or> a + b < b \<longleftrightarrow> unat d \<le> unat a + unat b"
    using assms d by (auto simp: word_less_nat_alt s)
  show "unat d \<le> unat a + unat b \<Longrightarrow> unat (a + b - d) = unat a + unat b - unat d"
    using assms d by (auto simp: f s)
  show "unat a + unat b < unat d \<Longrightarrow> unat (a + b) = unat a + unat b"
    using d by (simp add: s)
qed

context uint64_impl
begin

theorem divrem128_ok:
  assumes "val128 v den \<noteq> 0"
  shows "\<exists>qr. cairo_uint128_divrem ops num den = Some qr
    \<and> val128 v (quo128 qr) = val128 v num div val128 v den
    \<and> val128 v (rem128 qr) = val128 v num mod val128 v den"
proof -
  obtain den' bt q r where
    "cairo_uint128_divrem_norm ops num den (cairo_uint32_to_uint128 ops 1) = Some (den', bt)"
    "cairo_uint128_divrem_gen ops num den' bt (cairo_uint32_to_uint128 ops 0) = Some (q, r)"
    "val128 v q = val128 v num div val128 v den" "val128 v r = val128 v num mod val128 v den"
    by (rule divrem128.loops_divide [of den "cairo_uint32_to_uint128 ops 1"
          "cairo_uint32_to_uint128 ops 0" num]) (simp_all add: assms)
  then show ?thesis
    by (simp add: cairo_uint128_divrem_def)
qed

lemma divrem128_norm_zero:
  "cairo_uint128_divrem_norm ops' num den bt = Some r \<Longrightarrow> ops' = ops \<Longrightarrow>
    val128 v den = 0 \<Longrightarrow> val128 v num = 0"
proof (induction rule: cairo_uint128_divrem_norm.raw_induct [rotated, consumes 1, case_names step])
  case (step norm ops' num den bt r)
  show ?case
    using step(2-4) step(1) [of ops num "cairo_uint128_lsl ops den 1"]
    by (cases r) (auto simp: val128_lt_iff msbset128_iff val128_lsl split: if_splits)
qed

theorem divrem128_by_zero:
  assumes "val128 v den = 0" "val128 v num \<noteq> 0"
  shows "cairo_uint128_divrem ops num den = None"
  using assms divrem128_norm_zero [of ops num den]
  by (cases "cairo_uint128_divrem_norm ops num den (cairo_uint32_to_uint128 ops 1)")
    (auto simp: cairo_uint128_divrem_def)

theorem int128_divrem_ok:
  assumes "sval128 v den \<noteq> 0" "\<not> (sval128 v num = - (2 ^ 127) \<and> sval128 v den = - 1)"
  shows "\<exists>qr. cairo_int128_divrem ops num den = Some qr
    \<and> sval128 v (quo128 qr) = sval128 v num sdiv sval128 v den
    \<and> sval128 v (rem128 qr) = sval128 v num smod sval128 v den"
proof -
  let ?m = "\<lambda>a. if cairo_int128_negative ops a then cairo_int128_negate ops a else a"
  have "val128 v (?m den) \<noteq> 0"
    using assms(1) unfolding sign128.nv_magnitude by simp
  from divrem128_ok [OF this] obtain uqr where u: "cairo_uint128_divrem ops (?m num) (?m den) = Some uqr"
    "val128 v (quo128 uqr) = val128 v (?m num) div val128 v (?m den)"
    "val128 v (rem128 uqr) = val128 v (?m num) mod val128 v (?m den)"
    by blast
  have "\<not> (2 * sval128 v num = - (2 ^ 128) \<and> sval128 v den = - 1)"
    using assms(2) by simp
  from sign128.signed_quotient [OF assms(1) this u(2)] sign128.signed_remainder [OF assms(1) u(3)]
  show ?thesis
    by (simp add: cairo_int128_divrem_def Let_def u(1))
qed

theorem int64_divrem_ok:
  assumes "sint (v den) \<noteq> 0" "\<not> (sint (v num) = - (2 ^ 63) \<and> sint (v den) = - 1)"
  shows "\<exists>qr. cairo_int64_divrem ops num den = Some qr
    \<and> sint (v (quo64 qr)) = sint (v num) sdiv sint (v den)
    \<and> sint (v (rem64 qr)) = sint (v num) smod sint (v den)"
proof -
  let ?m = "\<lambda>a. if negative64 ops a then negate64 ops a else a"
  have "unat (v (?m den)) \<noteq> 0"
    using assms(1) unfolding sign64.nv_magnitude by simp
  then have "v (?m den) \<noteq> 0"
    by (simp only: unat_eq_0 not_False_eq_True)
  from divrem_ok [OF this] obtain uqr where u: "divrem64 ops (?m num) (?m den) = Some uqr"
    "unat (v (quo64 uqr)) = unat (v (?m num)) div unat (v (?m den))"
    "unat (v (rem64 uqr)) = unat (v (?m num)) mod unat (v (?m den))"
    by (metis unat_div_distrib unat_mod_distrib)
  have "\<not> (2 * sint (v num) = - (2 ^ 64) \<and> sint (v den) = - 1)"
    using assms(2) by simp
  from sign64.signed_quotient [OF assms(1) this u(2)] sign64.signed_remainder [OF assms(1) u(3)]
  show ?thesis
    by (simp add: cairo_int64_divrem_def Let_def u(1))
qed

lemma ge_iff: "\<not> lt64 ops a b \<longleftrightarrow> unat (v b) \<le> unat (v a)"
  by (simp add: lt_iff word_less_nat_alt not_less)

lemma two_divrems_ok:
  assumes x: "2 ^ 32 \<le> unat (v x)" "unat (v x) < unat (v den)"
  shows "\<exists>qr. uint_96by64_two_divrems ops x y den = Some qr
    \<and> unat (v (quo64 qr)) = (unat (v x) * 2 ^ 32 + unat y) div unat (v den)
    \<and> unat (v (rem64 qr)) = (unat (v x) * 2 ^ 32 + unat y) mod unat (v den)"
proof -
  define u w where "u = uint64_hi32 ops den" and "w = uint64_to_uint32 ops den"
  have den: "unat (v den) = unat u * 2 ^ 32 + unat w"
    unfolding u_def w_def hi32_eq to_uint32 by (rule wide_split [symmetric])
  define q r where "q = unat (v x) div (unat u + 1)" and "r = unat (v x) mod (unat u + 1)"
  define m where "m = q * (2 ^ 32 - unat w)"
  have w: "unat w < 2 ^ 32" and y: "unat y < 2 ^ 32"
    using unat_lt [of w] unat_lt [of y] by simp_all
  note N = nat_96by64 [OF y x den w q_def r_def m_def]
  have r: "r < 2 ^ 32"
  proof -
    have "r < unat u + 1"
      unfolding r_def by (rule mod_less_divisor) simp
    moreover have "unat u < 2 ^ 32"
      using unat_lt [of u] by simp
    ultimately show ?thesis
      by linarith
  qed
  have first: "(if u + 1 \<noteq> 0
       then case divrem64 ops x (uint32_to_uint64 ops (u + 1)) of None \<Rightarrow> None
            | Some quorem \<Rightarrow> Some (uint64_to_uint32 ops (quo64 quorem), uint64_to_uint32 ops (rem64 quorem))
       else Some (uint64_hi32 ops x, uint64_to_uint32 ops x)) = Some (of_nat q, of_nat r)"
  proof (cases "u + 1 = 0")
    case True
    then have "unat u + 1 = 2 ^ 32"
      using unat_lt [of u] unat_word_ariths(1) [of u 1] by (simp add: mod_Suc split: if_splits)
    with True show ?thesis
      unfolding q_def r_def
      by (simp add: hi32_eq to_uint32 word_unat_eq_iff unat_ucast_mod unat_drop_bit_div unsigned_of_nat take_bit_eq_mod)
  next
    case False
    then have "unat (u + 1) = unat u + 1"
      using unat_word_ariths(1) [of u 1] unat_lt [of u] by (auto simp: mod_Suc unat_eq_0 split: if_splits)
    then have d: "unat (v (uint32_to_uint64 ops (u + 1))) = unat u + 1"
      by (simp add: v_of_uint32 ucast_64_32)
    then have "v (uint32_to_uint64 ops (u + 1)) \<noteq> 0"
      by (metis Suc_eq_plus1 nat.distinct(1) unat_0)
    from divrem_ok [OF this, of x] obtain qr where qr: "divrem64 ops x (uint32_to_uint64 ops (u + 1)) = Some qr"
      "unat (v (quo64 qr)) = q" "unat (v (rem64 qr)) = r"
      unfolding q_def r_def d [symmetric] by (metis unat_div_distrib unat_mod_distrib)
    have "ucast (v (quo64 qr)) = (of_nat q :: u32)" "ucast (v (rem64 qr)) = (of_nat r :: u32)"
      unfolding qr(2,3) [symmetric] by simp_all
    with False qr(1) show ?thesis
      by (simp add: to_uint32)
  qed
  obtain quorem where second: "(if w \<noteq> 0 then divrem64 ops (mul32x32 ops (of_nat q) (- w)) den
      else divrem64 ops (uint32s_to_uint64 ops (of_nat q) 0) den) = Some quorem"
    "unat (v (quo64 quorem)) = m div unat (v den)" "unat (v (rem64 quorem)) = m mod unat (v den)"
  proof -
    let ?n = "if w \<noteq> 0 then mul32x32 ops (of_nat q) (- w) else uint32s_to_uint64 ops (of_nat q) 0"
    have "unat (- w) = 2 ^ 32 - unat w" if "w \<noteq> 0"
      using unat_sub_if' [of 0 w] that by (simp add: unat_eq_0)
    then have "unat (v ?n) = m"
      using N(1,4) unfolding m_def
      by (simp add: v_mul32x32 v_of_uint32s unat_word_ariths ucast_64_32 unsigned_of_nat take_bit_eq_mod)
    moreover have "v den \<noteq> 0"
      using x by (metis not_less_zero unat_0)
    ultimately obtain qr where "divrem64 ops ?n den = Some qr"
      "unat (v (quo64 qr)) = m div unat (v den)" "unat (v (rem64 qr)) = m mod unat (v den)"
      using divrem_ok [of den ?n] by (metis unat_div_distrib unat_mod_distrib)
    then show ?thesis
      using that [of qr] by (simp split: if_splits)
  qed
  define s where "s = uint32s_to_uint64 ops (of_nat r) y"
  have s: "unat (v s) = r * 2 ^ 32 + unat y"
    using r unfolding s_def v_of_uint32s by (simp add: unsigned_of_nat take_bit_eq_mod)
  define s1 where "s1 = (if lt64 ops s den then s else sub64 ops s den)"
  have s1: "unat (v s1) = (if unat (v den) \<le> r * 2 ^ 32 + unat y
      then r * 2 ^ 32 + unat y - unat (v den) else r * 2 ^ 32 + unat y)"
    unfolding s1_def s [symmetric]
    by (auto simp: v_sub lt_iff unat_sub word_le_nat_alt word_less_nat_alt)
  have lt: "unat (v s1) < unat (v den)" "unat (v (rem64 quorem)) < unat (v den)"
    using N(3) x second(3) by (auto simp: s1)
  note R = add_reduce [OF lt]
  let ?c = "unat (v den) \<le> unat (v s1) + unat (v (rem64 quorem))"
  have cond: "\<not> lt64 ops (add64 ops s1 (rem64 quorem)) den
      \<or> lt64 ops (add64 ops s1 (rem64 quorem)) (rem64 quorem) \<longleftrightarrow> ?c"
    using R(1) by (simp add: lt_iff v_add)
  define n where "n = q + m div unat (v den) + (if unat (v den) \<le> r * 2 ^ 32 + unat y then 1 else 0)
      + (if ?c then 1 else 0)"
  have n: "(unat (v x) * 2 ^ 32 + unat y) div unat (v den) = n"
    using N(5) unfolding n_def s1 second(3) .
  have "(unat (v x) + 1) * 2 ^ 32 \<le> unat (v den) * 2 ^ 32"
    using x by (intro mult_right_mono) auto
  then have small: "n < 2 ^ 32"
    unfolding n [symmetric] using y by (intro less_mult_imp_div_less) (simp add: mult.commute)
  have "uint_96by64_two_divrems ops x y den = Some \<lparr>quo64 = uint32_to_uint64 ops (of_nat n),
     rem64 = (if ?c then sub64 ops (add64 ops s1 (rem64 quorem)) den else add64 ops s1 (rem64 quorem))\<rparr>"
  proof -
    have "of_nat n = of_nat q + uint64_to_uint32 ops (quo64 quorem)
        + (if lt64 ops s den then 0 else 1) + (if ?c then 1 else 0)"
      unfolding n_def s [symmetric] second(2) [symmetric]
      by (simp add: to_uint32 lt_iff word_less_nat_alt)
    then show ?thesis
      unfolding uint_96by64_two_divrems_def Let_def u_def [symmetric] w_def [symmetric] first
      using cond by (cases "lt64 ops s den"; cases ?c)
        (auto simp: second(1) s_def [symmetric] s1_def)
  qed
  moreover have "unat (v (uint32_to_uint64 ops (of_nat n))) = n"
    using small by (simp add: v_of_uint32 ucast_64_32 unsigned_of_nat take_bit_eq_mod)
  moreover have "unat (v (if ?c then sub64 ops (add64 ops s1 (rem64 quorem)) den
      else add64 ops s1 (rem64 quorem))) = (unat (v x) * 2 ^ 32 + unat y) mod unat (v den)"
    using R(2,3) N(6) unfolding s1 [symmetric] second(3) [symmetric] by (simp add: v_add v_sub)
  ultimately show ?thesis
    unfolding n by simp
qed

theorem uint_96by64_ok:
  assumes "val128 v num < 2 ^ 96"
  shows "\<exists>qr. cairo_uint_96by64_32x64_divrem ops num den = Some qr \<and>
    (if val128 v num < unat (v den) * 2 ^ 32
     then unat (v (quo64 qr)) = val128 v num div unat (v den)
       \<and> unat (v (rem64 qr)) = val128 v num mod unat (v den)
     else unat (v (quo64 qr)) = 2 ^ 64 - 1 \<and> rem64 qr = den)"
proof -
  define x where "x = lo (cairo_uint128_rsl ops num 32)"
  define y where "y = uint64_to_uint32 ops (lo num)"
  have "val128 v num div 2 ^ 32 < 2 ^ 64"
    using assms by (intro less_mult_imp_div_less) simp
  then have x: "unat (v x) = val128 v num div 2 ^ 32"
    using val128_rsl [of 32 num] pairval_mod [of "v (hi (cairo_uint128_rsl ops num 32))" "v x"]
    unfolding val128_def x_def by simp
  have y: "unat y = val128 v num mod 2 ^ 32"
    using mod_mult_self3 [of "unat (v (hi num)) * 2 ^ 32" "2 ^ 32" "unat (v (lo num))"]
    by (simp add: y_def to_uint32 unat_ucast_mod val128_def pairval_def mult.commute)
  have num: "val128 v num = unat (v x) * 2 ^ 32 + unat y"
    unfolding x y by simp
  have fits: "val128 v num < unat (v den) * 2 ^ 32 \<longleftrightarrow> lt64 ops x den"
    unfolding x lt_iff word_less_nat_alt
    by (simp add: div_less_iff_less_mult)
  have B: "unat (v (uint32s_to_uint64 ops 1 0)) = 2 ^ 32"
    by (simp add: v_of_uint32s)
  consider (big) "\<not> lt64 ops x den" | (low) "lt64 ops x den" "unat (v x) < 2 ^ 32"
    | (two) "lt64 ops x den" "2 ^ 32 \<le> unat (v x)"
    by (meson not_less)
  then show ?thesis
  proof cases
    case big
    then show ?thesis
      unfolding fits by (simp add: cairo_uint_96by64_32x64_divrem_def Let_def x_def [symmetric] v_of_uint32s
          unsigned_minus_1_eq_mask mask_eq_exp_minus_1)
  next
    case low
    have "val128 v num div 2 ^ 32 div 2 ^ 32 = 0"
      using low(2) unfolding x by simp
    then have "unat (v (hi num)) = 0"
      by (simp add: div_mult2_eq [symmetric] val128_def pairval_def)
    then have "unat (v (lo num)) = val128 v num"
      by (simp add: val128_def pairval_def)
    moreover have "v den \<noteq> 0"
      using low(1) by (auto simp: lt_iff)
    ultimately show ?thesis
      using divrem_ok [of den "lo num"] low B unfolding fits 
      by (auto simp: cairo_uint_96by64_32x64_divrem_def Let_def x_def [symmetric] lt_iff [of _ "uint32s_to_uint64 ops 1 0"]
         word_less_nat_alt unat_div_distrib unat_mod_distrib)
  next
    case two
    moreover have "cairo_uint_96by64_32x64_divrem ops num den = uint_96by64_two_divrems ops x y den"
      using two B by (simp add: cairo_uint_96by64_32x64_divrem_def Let_def x_def [symmetric]
          y_def [symmetric] lt_iff [of _ "uint32s_to_uint64 ops 1 0"] word_less_nat_alt)
    ultimately show ?thesis
      using two_divrems_ok [of x den y] fits lt_iff [of x den]
      unfolding word_less_nat_alt num [symmetric] by simp
  qed
qed

theorem int_96by64_ok:
  assumes "\<bar>sval128 v num\<bar> < 2 ^ 96"
  shows "\<exists>qr. cairo_int_96by64_32x64_divrem ops num den = Some qr \<and>
    (if \<bar>sval128 v num\<bar> < \<bar>sint (v den)\<bar> * 2 ^ 32
     then sint (v (quo64 qr)) = sval128 v num sdiv sint (v den)
       \<and> sint (v (rem64 qr)) = sval128 v num smod sint (v den)
     else sint (v (quo64 qr)) = 2 ^ 63 - 1 \<and> rem64 qr = den)"
proof -
  let ?n = "if cairo_int128_negative ops num then cairo_int128_negate ops num else num"
  let ?d = "if negative64 ops den then negate64 ops den else den"
  have mag: "val128 v ?n = nat \<bar>sval128 v num\<bar>" "unat (v ?d) = nat \<bar>sint (v den)\<bar>"
    by (rule sign128.nv_magnitude, rule sign64.nv_magnitude)
  have "val128 v ?n < 2 ^ 96"
    unfolding mag(1) using assms by simp
  from uint_96by64_ok [OF this, of ?d] obtain uqr where
    u: "cairo_uint_96by64_32x64_divrem ops ?n ?d = Some uqr"
      "if val128 v ?n < unat (v ?d) * 2 ^ 32
       then unat (v (quo64 uqr)) = val128 v ?n div unat (v ?d)
         \<and> unat (v (rem64 uqr)) = val128 v ?n mod unat (v ?d)
       else unat (v (quo64 uqr)) = 2 ^ 64 - 1 \<and> rem64 uqr = ?d"
    by blast
  have fits: "val128 v ?n < unat (v ?d) * 2 ^ 32 \<longleftrightarrow> \<bar>sval128 v num\<bar> < \<bar>sint (v den)\<bar> * 2 ^ 32"
    using nat_less_eq_zless [of "\<bar>sval128 v num\<bar>" "\<bar>sint (v den)\<bar> * 2 ^ 32"]
    unfolding mag by (simp add: nat_mult_distrib)
  show ?thesis
  proof (cases "val128 v ?n < unat (v ?d) * 2 ^ 32")
    case True
    then have uq: "unat (v (quo64 uqr)) = val128 v ?n div unat (v ?d)"
      and ur: "unat (v (rem64 uqr)) = val128 v ?n mod unat (v ?d)"
      using u(2) by simp_all
    have d0: "0 < unat (v ?d)"
      using True by (cases "unat (v ?d) = 0") simp_all
    then have rlt: "unat (v (rem64 uqr)) < unat (v ?d)"
      unfolding ur by (rule mod_less_divisor)
    then have "\<not> eq64 ops (rem64 uqr) ?d"
      by (auto simp: eq_iff)
    moreover have q32: "unat (v (quo64 uqr)) < 2 ^ 32"
      unfolding uq using True by (intro less_mult_imp_div_less) (simp only: mult.commute)
    have iq: "int (unat (v (quo64 uqr))) = \<bar>sval128 v num\<bar> div \<bar>sint (v den)\<bar>"
      unfolding uq mag by (simp add: zdiv_int)
    have ir: "int (unat (v (rem64 uqr))) = \<bar>sval128 v num\<bar> mod \<bar>sint (v den)\<bar>"
      unfolding ur mag by (simp add: zmod_int)
    have q: "sint (v (quo64 uqr)) = \<bar>sval128 v num\<bar> div \<bar>sint (v den)\<bar>"
      "sint (v (negate64 ops (quo64 uqr))) = - (\<bar>sval128 v num\<bar> div \<bar>sint (v den)\<bar>)"
      using sign64.sv_small [of "quo64 uqr"] sign64.sv_negate_small [of "quo64 uqr"] q32
      unfolding iq by simp_all
    have r: "sint (v (rem64 uqr)) = \<bar>sval128 v num\<bar> mod \<bar>sint (v den)\<bar>"
      "sint (v (negate64 ops (rem64 uqr))) = - (\<bar>sval128 v num\<bar> mod \<bar>sint (v den)\<bar>)"
      using sign64.sv_small [of "rem64 uqr"] sign64.sv_negate_small [of "rem64 uqr"] rlt
        sign64.magnitude_le [of den] unfolding ir by simp_all
    ultimately have "cairo_int_96by64_32x64_divrem ops num den = Some \<lparr>
        quo64 = (if cairo_int128_negative ops num \<noteq> negative64 ops den
                 then negate64 ops (quo64 uqr) else quo64 uqr),
        rem64 = (if cairo_int128_negative ops num then negate64 ops (rem64 uqr) else rem64 uqr)\<rparr>"
      by (simp only: cairo_int_96by64_32x64_divrem_def Let_def u(1) option.case if_False)
    moreover have "sint (v den) \<noteq> 0"
      using d0 unfolding mag by simp
    ultimately show ?thesis
      using True [unfolded fits] unfolding sign128.negative_sv sign64.negative_sv
      by (simp add: q r signed_divide_int_def signed_modulo_int_def sgn_if)
  next
    case False
    then have "rem64 uqr = ?d"
      using u(2) by simp
    moreover have "sint (v (uint32s_to_uint64 ops 0x7fffffff (- 1))) = 2 ^ 63 - 1"
      using sign64.sv_small [of "uint32s_to_uint64 ops 0x7fffffff (- 1)"]
      by (simp add: v_of_uint32s unsigned_minus_1_eq_mask mask_eq_exp_minus_1)
    ultimately show ?thesis
      using False unfolding fits
      by (simp add: cairo_int_96by64_32x64_divrem_def Let_def u(1) eq_iff)
  qed
qed

end

section \<open>Results for the two configurations\<close>

text \<open>Struct and native 64-bit integers agree: every routine of the configuration without a
  64-bit type computes, on the word its struct stands for, what the native operator computes; shifts
  for every amount below 64.\<close>

theorem struct64_agrees_with_native:
  "w64 (cairo_uint64_add a b) = w64 a + w64 b
   \<and> w64 (cairo_uint64_sub a b) = w64 a - w64 b
   \<and> w64 (cairo_uint64_mul a b) = w64 a * w64 b
   \<and> w64 (cairo_uint32x32_64_mul x y) = ucast x * ucast y
   \<and> (\<forall>s<64. w64 (cairo_uint64_lsl a s) = push_bit s (w64 a)
          \<and> w64 (cairo_uint64_rsl a s) = drop_bit s (w64 a)
          \<and> w64 (cairo_uint64_rsa a s) = signed_drop_bit s (w64 a))
   \<and> (cairo_uint64_lt a b \<longleftrightarrow> w64 a < w64 b) \<and> (cairo_uint64_eq a b \<longleftrightarrow> w64 a = w64 b)
   \<and> (cairo_int64_lt a b \<longleftrightarrow> sint (w64 a) < sint (w64 b))
   \<and> w64 (cairo_uint64_not a) = NOT (w64 a) \<and> w64 (cairo_uint64_negate a) = - w64 a"
  using struct.v_mul [of a b] struct.v_mul32x32 [of x y] struct.v_lsl [of _ a] struct.v_rsl [of _ a]
    struct.v_rsa [of _ a] struct.lt_iff [of a b] struct.eq_iff [of a b]
  by (simp add: struct_ops_def w64_add w64_sub w64_not w64_negate sint_w64 sval64_lt_iff)

theorem struct64_agrees_with_native_witness:
  "w64 (cairo_uint64_rsa \<lparr>lo32 = 5, hi32 = 0x80000000\<rparr> 63) = - 1"
  using struct64_agrees_with_native [of "\<lparr>lo32 = 5, hi32 = 0x80000000\<rparr>"]
  by (simp add: w64_def val64_def pairval_def)

text \<open>\<^verbatim>\<open>_cairo_uint64_divrem\<close> on the struct returns for every non-zero divisor, with the
  quotient and the remainder of the two numbers.\<close>

theorem struct64_divrem_correct:
  assumes "val64 den \<noteq> 0"
  shows "\<exists>qr. cairo_uint64_divrem num den = Some qr
    \<and> val64 (quo64 qr) = val64 num div val64 den \<and> val64 (rem64 qr) = val64 num mod val64 den"
  using assms by (rule val64_divrem)

theorem struct64_divrem_correct_witness:
  "\<exists>qr. cairo_uint64_divrem \<lparr>lo32 = 17, hi32 = 1\<rparr> \<lparr>lo32 = 10, hi32 = 0\<rparr> = Some qr
     \<and> val64 (quo64 qr) = 429496731 \<and> val64 (rem64 qr) = 3"
  using struct64_divrem_correct [of "\<lparr>lo32 = 10, hi32 = 0\<rparr>" "\<lparr>lo32 = 17, hi32 = 1\<rparr>"]
  by (simp add: val64_def pairval_def)

text \<open>Division of a non-zero number by zero never returns, in the struct configuration of the
  64-bit type and in both configurations of the 128-bit type.\<close>

theorem divrem_by_zero_diverges:
  assumes "n \<noteq> 0"
  shows "(val64 num = n \<and> val64 den = 0 \<longrightarrow> cairo_uint64_divrem num den = None)
    \<and> (val128 (\<lambda>w. w) wnum = n \<and> val128 (\<lambda>w. w) wden = 0
         \<longrightarrow> cairo_uint128_divrem native_ops wnum wden = None)
    \<and> (val128 w64 snum = n \<and> val128 w64 sden = 0
         \<longrightarrow> cairo_uint128_divrem struct_ops snum sden = None)"
  using assms by (auto simp: cairo_uint64_divrem_by_zero native.divrem128_by_zero struct.divrem128_by_zero)

theorem divrem_by_zero_diverges_witness:
  "cairo_uint64_divrem \<lparr>lo32 = 7, hi32 = 0\<rparr> \<lparr>lo32 = 0, hi32 = 0\<rparr> = None
   \<and> cairo_uint128_divrem native_ops \<lparr>lo = 7, hi = 0\<rparr> \<lparr>lo = 0, hi = 0\<rparr> = None"
  using divrem_by_zero_diverges [of 7 "\<lparr>lo32 = 7, hi32 = 0\<rparr>" "\<lparr>lo32 = 0, hi32 = 0\<rparr>"
      "\<lparr>lo = 7, hi = 0\<rparr>" "\<lparr>lo = 0, hi = 0\<rparr>"]
  by (simp add: val64_def val128_def pairval_def)

text \<open>C39. The 128-bit integers on native 64-bit halves are the integers modulo \<open>2 ^ 128\<close>: addition,
  subtraction, multiplication, negation and complement wrap exactly, and the comparisons are those of
  the numbers.\<close>

theorem uint128_modular_arithmetic:
  "val128 (\<lambda>w. w) (cairo_uint128_add native_ops a b) = (val128 (\<lambda>w. w) a + val128 (\<lambda>w. w) b) mod 2 ^ 128
   \<and> val128 (\<lambda>w. w) (cairo_uint128_sub native_ops a b)
       = (val128 (\<lambda>w. w) a + (2 ^ 128 - val128 (\<lambda>w. w) b)) mod 2 ^ 128
   \<and> val128 (\<lambda>w. w) (cairo_uint128_mul native_ops a b) = (val128 (\<lambda>w. w) a * val128 (\<lambda>w. w) b) mod 2 ^ 128
   \<and> val128 (\<lambda>w. w) (cairo_int128_negate native_ops a) = (2 ^ 128 - val128 (\<lambda>w. w) a) mod 2 ^ 128
   \<and> val128 (\<lambda>w. w) (cairo_int128_not native_ops a) = 2 ^ 128 - 1 - val128 (\<lambda>w. w) a
   \<and> (cairo_uint128_lt native_ops a b \<longleftrightarrow> val128 (\<lambda>w. w) a < val128 (\<lambda>w. w) b)
   \<and> (cairo_int128_lt native_ops a b \<longleftrightarrow> sval128 (\<lambda>w. w) a < sval128 (\<lambda>w. w) b)
   \<and> (cairo_uint128_eq native_ops a b \<longleftrightarrow> val128 (\<lambda>w. w) a = val128 (\<lambda>w. w) b)"
  by (simp only: native.val128_add native.val128_sub native.val128_mul native.val128_negate
      native.val128_not native.val128_lt_iff native.sval128_lt_iff native.val128_eq_iff)

text \<open>The widening products are exact: \<^verbatim>\<open>_cairo_uint64x64_128_mul\<close> never loses a carry
  between its four partial products and \<^verbatim>\<open>_cairo_int64x64_128_mul\<close> is the product of the signed
  readings, in both configurations.\<close>

theorem widening_products_exact:
  "val128 (\<lambda>w. w) (cairo_uint64x64_128_mul native_ops a b) = unat a * unat b
   \<and> sval128 (\<lambda>w. w) (cairo_int64x64_128_mul native_ops a b) = sint a * sint b
   \<and> val128 w64 (cairo_uint64x64_128_mul struct_ops c d) = val64 c * val64 d
   \<and> sval128 w64 (cairo_int64x64_128_mul struct_ops c d) = sval64 c * sval64 d
   \<and> sval64 (cairo_int32x32_64_mul x y) = sint x * sint y"
  by (simp add: native.val128_mul64 native.sval128_mul64 struct.val128_mul64 struct.sval128_mul64
      sint_w64 sval64_mul32)

text \<open>The 128-bit shifts by every amount below 128: left shift multiplies by a power of two
  modulo \<open>2 ^ 128\<close>, logical right shift divides the unsigned number and arithmetic right shift
  divides the signed number, rounding down.\<close>

theorem uint128_shifts:
  assumes "s < 128"
  shows "val128 (\<lambda>w. w) (cairo_uint128_lsl native_ops a s) = (val128 (\<lambda>w. w) a * 2 ^ s) mod 2 ^ 128
    \<and> val128 (\<lambda>w. w) (cairo_uint128_rsl native_ops a s) = val128 (\<lambda>w. w) a div 2 ^ s
    \<and> sval128 (\<lambda>w. w) (cairo_uint128_rsa native_ops a s) = sval128 (\<lambda>w. w) a div 2 ^ s"
  using assms by (simp add: native.val128_lsl native.val128_rsl native.sval128_rsa)

theorem uint128_shifts_witness:
  "val128 (\<lambda>w. w) (cairo_uint128_lsl native_ops \<lparr>lo = 3, hi = 0\<rparr> 100) = 3 * 2 ^ 100"
  using uint128_shifts [of 100 "\<lparr>lo = 3, hi = 0\<rparr>"] by (simp add: val128_def pairval_def)

text \<open>C40. \<^verbatim>\<open>_cairo_uint128_divrem\<close> returns for every non-zero divisor, with quotient and
  remainder, in both configurations.\<close>

theorem uint128_divrem_correct:
  assumes "val128 (\<lambda>w. w) den \<noteq> 0" "val128 w64 sden \<noteq> 0"
  shows "(\<exists>qr. cairo_uint128_divrem native_ops num den = Some qr
      \<and> val128 (\<lambda>w. w) (quo128 qr) = val128 (\<lambda>w. w) num div val128 (\<lambda>w. w) den
      \<and> val128 (\<lambda>w. w) (rem128 qr) = val128 (\<lambda>w. w) num mod val128 (\<lambda>w. w) den)
    \<and> (\<exists>qr. cairo_uint128_divrem struct_ops snum sden = Some qr
      \<and> val128 w64 (quo128 qr) = val128 w64 snum div val128 w64 sden
      \<and> val128 w64 (rem128 qr) = val128 w64 snum mod val128 w64 sden)"
  using native.divrem128_ok [OF assms(1)] struct.divrem128_ok [OF assms(2)] by blast

theorem uint128_divrem_correct_witness:
  "\<exists>qr. cairo_uint128_divrem native_ops \<lparr>lo = 1, hi = 5\<rparr> \<lparr>lo = 0, hi = 2\<rparr> = Some qr
      \<and> val128 (\<lambda>w. w) (quo128 qr) = 2 \<and> val128 (\<lambda>w. w) (rem128 qr) = 2 ^ 64 + 1"
  using uint128_divrem_correct [of "\<lparr>lo = 0, hi = 2\<rparr>"
      "\<lparr>lo = \<lparr>lo32 = 1, hi32 = 0\<rparr>, hi = \<lparr>lo32 = 0, hi32 = 0\<rparr>\<rparr>" "\<lparr>lo = 1, hi = 5\<rparr>"]
  by (simp add: val128_def pairval_def val64_def)

text \<open>\<^verbatim>\<open>_cairo_int128_divrem\<close> and \<^verbatim>\<open>_cairo_int64_divrem\<close> divide as C does,
  truncating towards zero with the remainder taking the sign of the dividend, for every non-zero
  divisor except the one case whose quotient is not representable.\<close>

theorem signed_divrem_truncates:
  assumes "sval128 (\<lambda>w. w) den \<noteq> 0" "\<not> (sval128 (\<lambda>w. w) num = - (2 ^ 127) \<and> sval128 (\<lambda>w. w) den = - 1)"
    and "sint d \<noteq> 0" "\<not> (sint n = - (2 ^ 63) \<and> sint d = - 1)"
  shows "(\<exists>qr. cairo_int128_divrem native_ops num den = Some qr
      \<and> sval128 (\<lambda>w. w) (quo128 qr) = sval128 (\<lambda>w. w) num sdiv sval128 (\<lambda>w. w) den
      \<and> sval128 (\<lambda>w. w) (rem128 qr) = sval128 (\<lambda>w. w) num smod sval128 (\<lambda>w. w) den)
    \<and> (\<exists>qr. cairo_int64_divrem native_ops n d = Some qr
      \<and> sint (quo64 qr) = sint n sdiv sint d \<and> sint (rem64 qr) = sint n smod sint d)"
  using native.int128_divrem_ok [OF assms(1,2)] native.int64_divrem_ok [OF assms(3,4)] by blast

theorem signed_divrem_truncates_witness:
  "\<exists>qr. cairo_int128_divrem native_ops \<lparr>lo = - 7, hi = - 1\<rparr> \<lparr>lo = 2, hi = 0\<rparr> = Some qr
      \<and> sval128 (\<lambda>w. w) (quo128 qr) = - 3 \<and> sval128 (\<lambda>w. w) (rem128 qr) = - 1"
  using signed_divrem_truncates [of "\<lparr>lo = 2, hi = 0\<rparr>" "\<lparr>lo = - 7, hi = - 1\<rparr>" 1 0]
  by (simp add: sval128_def pairsval_def signed_divide_int_def signed_modulo_int_def)

text \<open>\<^verbatim>\<open>_cairo_uint_96by64_32x64_divrem\<close> always returns for a dividend below
  \<open>2 ^ 96\<close>, whatever the divisor: the quotient and the remainder when the quotient fits in 32 bits
  (the estimate from the high words is corrected exactly), and otherwise (division by zero included)
  the largest 64-bit integer with the divisor as remainder, as its comment says.\<close>

theorem uint_96by64_divrem_correct:
  assumes "val128 (\<lambda>w. w) num < 2 ^ 96"
  shows "\<exists>qr. cairo_uint_96by64_32x64_divrem native_ops num den = Some qr \<and>
    (if val128 (\<lambda>w. w) num < unat den * 2 ^ 32
     then unat (quo64 qr) = val128 (\<lambda>w. w) num div unat den
       \<and> unat (rem64 qr) = val128 (\<lambda>w. w) num mod unat den
     else unat (quo64 qr) = 2 ^ 64 - 1 \<and> rem64 qr = den)"
  by (rule native.uint_96by64_ok [OF assms])

theorem uint_96by64_divrem_correct_witness:
  "\<exists>qr. cairo_uint_96by64_32x64_divrem native_ops \<lparr>lo = 1, hi = 1\<rparr> 0x100000000 = Some qr
     \<and> unat (quo64 qr) = 2 ^ 64 - 1"
  using uint_96by64_divrem_correct [of "\<lparr>lo = 1, hi = 1\<rparr>" "0x100000000"]
  by (auto simp: val128_def pairval_def)

text \<open>The signed 96-by-64-bit division truncates towards zero when the magnitude of the
  quotient fits in 32 bits, and otherwise returns the largest 64-bit integer with the divisor.\<close>

theorem int_96by64_divrem_correct:
  assumes "\<bar>sval128 (\<lambda>w. w) num\<bar> < 2 ^ 96"
  shows "\<exists>qr. cairo_int_96by64_32x64_divrem native_ops num den = Some qr \<and>
    (if \<bar>sval128 (\<lambda>w. w) num\<bar> < \<bar>sint den\<bar> * 2 ^ 32
     then sint (quo64 qr) = sval128 (\<lambda>w. w) num sdiv sint den
       \<and> sint (rem64 qr) = sval128 (\<lambda>w. w) num smod sint den
     else sint (quo64 qr) = 2 ^ 63 - 1 \<and> rem64 qr = den)"
  by (rule native.int_96by64_ok [OF assms])

theorem int_96by64_divrem_correct_witness:
  "\<exists>qr. cairo_int_96by64_32x64_divrem native_ops \<lparr>lo = - 7, hi = - 1\<rparr> 2 = Some qr
     \<and> sint (quo64 qr) = - 3 \<and> sint (rem64 qr) = - 1"
  using int_96by64_divrem_correct [of "\<lparr>lo = - 7, hi = - 1\<rparr>" 2]
  by (simp add: sval128_def pairsval_def signed_divide_int_def signed_modulo_int_def)

end
