(* ===== verification/Inet.thy ===== *)
theory Inet
  imports Prelude
begin

text \<open>
  Byte order and IPv4 addresses of lwIP: \<^verbatim>\<open>core/ipv4/inet.c\<close> and the macros of
  \<^verbatim>\<open>include/ipv4/lwip/ip_addr.h\<close>, for the little-endian target of the build. An address is the
  32-bit word the C code holds, in network byte order. A C string is the list of its characters
  without the terminating zero; reading past the end gives the zero, and reading a character that is
  zero ends the string in the same way.
\<close>

unbundle bit_operations_syntax

section \<open>Byte order\<close>

definition htons :: "u16 \<Rightarrow> u16" where
  "htons n = (push_bit 8 (n AND 0xff)) OR (drop_bit 8 (n AND 0xff00))"

definition ntohs :: "u16 \<Rightarrow> u16" where
  "ntohs n = htons n"

definition htonl :: "u32 \<Rightarrow> u32" where
  "htonl n = push_bit 24 (n AND 0xff) OR push_bit 8 (n AND 0xff00)
     OR drop_bit 8 (n AND 0xff0000) OR drop_bit 24 (n AND 0xff000000)"

definition ntohl :: "u32 \<Rightarrow> u32" where
  "ntohl n = htonl n"

section \<open>Addresses\<close>

type_synonym ip_addr = u32

definition IP4_ADDR :: "u8 \<Rightarrow> u8 \<Rightarrow> u8 \<Rightarrow> u8 \<Rightarrow> ip_addr" where
  "IP4_ADDR a b c d = htonl (push_bit 24 (ucast a) OR push_bit 16 (ucast b)
     OR push_bit 8 (ucast c) OR ucast d)"

definition ip4_addr1 :: "ip_addr \<Rightarrow> u16" where
  "ip4_addr1 a = ucast (drop_bit 24 (ntohl a)) AND 0xff"

definition ip4_addr2 :: "ip_addr \<Rightarrow> u16" where
  "ip4_addr2 a = ucast (drop_bit 16 (ntohl a)) AND 0xff"

definition ip4_addr3 :: "ip_addr \<Rightarrow> u16" where
  "ip4_addr3 a = ucast (drop_bit 8 (ntohl a)) AND 0xff"

definition ip4_addr4 :: "ip_addr \<Rightarrow> u16" where
  "ip4_addr4 a = ucast (ntohl a) AND 0xff"

definition ip_addr_netcmp :: "ip_addr \<Rightarrow> ip_addr \<Rightarrow> ip_addr \<Rightarrow> bool" where
  "ip_addr_netcmp addr1 addr2 m \<longleftrightarrow> addr1 AND m = addr2 AND m"

definition ip_addr_ismulticast :: "ip_addr \<Rightarrow> bool" where
  "ip_addr_ismulticast a \<longleftrightarrow> a AND ntohl 0xf0000000 = ntohl 0xe0000000"

definition ip_addr_islinklocal :: "ip_addr \<Rightarrow> bool" where
  "ip_addr_islinklocal a \<longleftrightarrow> a AND ntohl 0xffff0000 = ntohl 0xa9fe0000"

section \<open>Parsing and printing\<close>

type_synonym cstring = "u8 list"

definition cur :: "cstring \<Rightarrow> u8" where
  "cur cp = (case cp of [] \<Rightarrow> 0 | c # _ \<Rightarrow> c)"

definition in_range :: "u8 \<Rightarrow> u8 \<Rightarrow> u8 \<Rightarrow> bool" where
  "in_range c l u \<longleftrightarrow> l \<le> c \<and> c \<le> u"

definition isprint :: "u8 \<Rightarrow> bool" where
  "isprint c = in_range c 0x20 0x7f"

definition isdigit :: "u8 \<Rightarrow> bool" where
  "isdigit c = in_range c 0x30 0x39"

definition isxdigit :: "u8 \<Rightarrow> bool" where
  "isxdigit c \<longleftrightarrow> isdigit c \<or> in_range c 0x61 0x66 \<or> in_range c 0x41 0x46"

definition islower :: "u8 \<Rightarrow> bool" where
  "islower c = in_range c 0x61 0x7a"

definition isspace :: "u8 \<Rightarrow> bool" where
  "isspace c \<longleftrightarrow> c = 0x20 \<or> c = 0x0c \<or> c = 0x0a \<or> c = 0x0d \<or> c = 0x09 \<or> c = 0x0b"

text \<open>The inner loop of \<^verbatim>\<open>inet_aton\<close>: the digits of one number.\<close>

fun inet_aton_number :: "u32 \<Rightarrow> u32 \<Rightarrow> cstring \<Rightarrow> u32 \<times> cstring" where
  "inet_aton_number base val [] = (val, [])"
| "inet_aton_number base val (c # cp) =
     (if isdigit c then inet_aton_number base (val * base + (ucast c - 0x30)) cp
      else if base = 16 \<and> isxdigit c
      then inet_aton_number base
             (push_bit 4 val OR (ucast c + 10 - (if islower c then 0x61 else 0x41))) cp
      else (val, c # cp))"

text \<open>The prefix that selects the base.\<close>

definition inet_aton_base :: "cstring \<Rightarrow> u32 \<times> cstring" where
  "inet_aton_base cp =
     (if cur cp = 0x30
      then (if cur (tl cp) = 0x78 \<or> cur (tl cp) = 0x58 then (16, tl (tl cp)) else (8, tl cp))
      else (10, cp))"

lemma inet_aton_number_length: "length (snd (inet_aton_number base val cp)) \<le> length cp"
  by (induction base val cp rule: inet_aton_number.induct) (auto simp: le_SucI)

lemma inet_aton_base_length: "length (snd (inet_aton_base cp)) \<le> length cp"
  by (simp add: inet_aton_base_def)

text \<open>The outer loop: the numbers before the last one (the array \<^verbatim>\<open>parts\<close>), the last number
  and what follows it.\<close>

function inet_aton_loop :: "u32 list \<Rightarrow> cstring \<Rightarrow> (u32 list \<times> u32 \<times> cstring) option" where
  "inet_aton_loop parts cp =
     (if \<not> isdigit (cur cp) then None
      else let (base, cp1) = inet_aton_base cp;
               (val, cp2) = inet_aton_number base 0 cp1
           in if cur cp2 = 0x2e
              then if length parts \<ge> 3 then None else inet_aton_loop (parts @ [val]) (tl cp2)
              else Some (parts, val, cp2))"
  by pat_completeness auto

termination
proof (relation "measure (\<lambda>(parts, cp). length cp)")
  fix parts :: "u32 list" and cp base cp1 val cp2 and x y
  assume "\<not> \<not> isdigit (cur cp)" and x: "x = inet_aton_base cp" "(base, cp1) = x"
    and y: "y = inet_aton_number base 0 cp1" "(val, cp2) = y" and dot: "cur cp2 = 0x2e"
  have "length cp2 \<le> length cp1" "length cp1 \<le> length cp"
    using inet_aton_number_length [of base 0 cp1] inet_aton_base_length [of cp] x y
    by (metis snd_conv)+
  moreover have "cp2 \<noteq> []"
    using dot by (auto simp: cur_def)
  ultimately show "((parts @ [val], tl cp2), parts, cp) \<in> measure (\<lambda>(parts, cp). length cp)"
    by (cases cp2) auto
qed simp

text \<open>\<^verbatim>\<open>inet_aton\<close>: \<open>None\<close> is the return value 0, \<open>Some\<close> the value 1 with the address
  stored.\<close>

definition inet_aton :: "cstring \<Rightarrow> u32 option" where
  "inet_aton cp =
     (case inet_aton_loop [] cp of
        None \<Rightarrow> None
      | Some (parts, val, cp') \<Rightarrow>
          if cur cp' \<noteq> 0 \<and> (\<not> isprint (cur cp') \<or> \<not> isspace (cur cp')) then None
          else (case parts of
                  [] \<Rightarrow> Some (htonl val)
                | [p0] \<Rightarrow> if val > 0xffffff then None else Some (htonl (val OR push_bit 24 p0))
                | [p0, p1] \<Rightarrow>
                    if val > 0xffff then None
                    else Some (htonl (val OR (push_bit 24 p0 OR push_bit 16 p1)))
                | [p0, p1, p2] \<Rightarrow>
                    if val > 0xff then None
                    else Some (htonl (val OR (push_bit 24 p0 OR push_bit 16 p1 OR push_bit 8 p2)))
                | _ \<Rightarrow> None))"

definition INADDR_NONE :: u32 where
  "INADDR_NONE = 0xffffffff"

definition inet_addr :: "cstring \<Rightarrow> u32" where
  "inet_addr cp = (case inet_aton cp of Some s_addr \<Rightarrow> s_addr | None \<Rightarrow> INADDR_NONE)"

text \<open>The digits of one byte of the address: the array \<^verbatim>\<open>inv\<close>, least significant first.\<close>

function ntoa_inv :: "u8 \<Rightarrow> u8 list" where
  "ntoa_inv b = (0x30 + b mod 10) # (if b div 10 \<noteq> 0 then ntoa_inv (b div 10) else [])"
  by pat_completeness auto

termination
proof (relation "measure unat")
  fix b :: u8
  assume "b div 10 \<noteq> 0"
  then have "unat b \<noteq> 0"
    by (auto simp: unat_eq_0)
  then show "(b div 10, b) \<in> measure unat"
    by (simp add: unat_div_distrib)
qed simp

text \<open>The bytes of the address in memory, in the order \<^verbatim>\<open>ap\<close> visits them.\<close>

definition mem_bytes32 :: "u32 \<Rightarrow> u8 list" where
  "mem_bytes32 w = [ucast w, ucast (drop_bit 8 w), ucast (drop_bit 16 w), ucast (drop_bit 24 w)]"

definition inet_ntoa :: "u32 \<Rightarrow> cstring" where
  "inet_ntoa s_addr = butlast (concat (map (\<lambda>b. rev (ntoa_inv b) @ [0x2e]) (mem_bytes32 s_addr)))"

section \<open>Byte order is an involution\<close>

lemma byte_masks:
  "(0xff00 :: u16) = push_bit 8 (mask 8)" "(0xff :: u16) = mask 8" "(0xff :: u32) = mask 8"
  "(0xff00 :: u32) = push_bit 8 (mask 8)" "(0xff0000 :: u32) = push_bit 16 (mask 8)"
  "(0xff000000 :: u32) = push_bit 24 (mask 8)"
  by (simp_all add: mask_eq_exp_minus_1)

lemma bit_htons: "bit (htons n) k \<longleftrightarrow> (if k < 8 then bit n (k + 8) else k < 16 \<and> bit n (k - 8))"
  unfolding htons_def byte_masks
  by (auto simp: bit_simps add.commute dest: bit_imp_le_length)

lemma htons_htons: "htons (htons n) = n"
  by (rule bit_word_eqI) (auto simp: bit_htons)

lemma bit_htonl: "bit (htonl n) k \<longleftrightarrow>
    (if k < 8 then bit n (k + 24) else if k < 16 then bit n (k + 8)
     else if k < 24 then bit n (k - 8) else k < 32 \<and> bit n (k - 24))"
  unfolding htonl_def byte_masks
  by (auto simp: bit_simps add.commute dest: bit_imp_le_length)

lemma htonl_htonl: "htonl (htonl n) = n"
  by (rule bit_word_eqI) (auto simp: bit_htonl)

lemma htonl_bytes:
  "htonl (ucast (ucast (drop_bit 24 a) :: u8) OR (push_bit 24 (ucast (ucast a :: u8))
     OR push_bit 16 (ucast (ucast (drop_bit 8 a) :: u8)) OR push_bit 8 (ucast (ucast (drop_bit 16 a) :: u8)))) = a"
  by (rule bit_word_eqI) (auto simp: bit_htonl bit_simps add.commute)

section \<open>Printing an address and reading it back\<close>

declare ntoa_inv.simps [simp del] inet_aton_loop.simps [simp del]

lemma cur_simps [simp]: "cur [] = 0" "cur (c # cp) = c"
  by (simp_all add: cur_def)

definition dec_digits :: "u8 \<Rightarrow> cstring" where
  "dec_digits b = rev (ntoa_inv b)"

lemma dec_digits_simps:
  "dec_digits b = (if b div 10 \<noteq> 0 then dec_digits (b div 10) else []) @ [0x30 + b mod 10]"
  unfolding dec_digits_def by (subst ntoa_inv.simps) simp

lemma unat_digit: "unat (0x30 + b mod 10 :: u8) = 0x30 + unat b mod 10"
proof -
  have "unat b mod 10 < 10" by simp
  then show ?thesis
    by (simp add: unat_word_ariths)
qed

lemma isdigit_iff: "isdigit c \<longleftrightarrow> 0x30 \<le> unat c \<and> unat c \<le> 0x39"
  by (simp add: isdigit_def in_range_def word_le_nat_alt)

lemma isdigit_digit: "isdigit (0x30 + b mod 10)"
proof -
  have "unat b mod 10 < 10" by simp
  then show ?thesis
    unfolding isdigit_iff unat_digit by linarith
qed

lemma dec_digit_value: "ucast (b div 10) * 10 + (ucast (0x30 + b mod 10 :: u8) - 0x30) = (ucast b :: u32)"
proof -
  have "ucast (0x30 + b mod 10 :: u8) = (0x30 + ucast (b mod 10) :: u32)"
    by (rule word_unat_eq_iff [THEN iffD2]) (use unat_digit [of b] in \<open>simp add: unat_ucast_mod unat_word_ariths unat_mod_distrib\<close>)
  moreover have "ucast (b div 10) * 10 + ucast (b mod 10) = (ucast b :: u32)"
    by (rule word_unat_eq_iff [THEN iffD2])
      (use unat_lt [of b] in \<open>simp add: unat_ucast_mod unat_word_ariths unat_mod_distrib unat_div_distrib\<close>)
  ultimately show ?thesis by simp
qed

lemma number_dec_digits:
  "inet_aton_number 10 0 (dec_digits b @ rest) = inet_aton_number 10 (ucast b) rest"
proof (induction b arbitrary: rest rule: ntoa_inv.induct)
  case (1 b)
  show ?case
    using "1.IH" dec_digit_value [of b] by (subst dec_digits_simps) (auto simp: isdigit_digit)
qed

lemma number_stop: "\<not> isdigit (cur rest) \<Longrightarrow> base \<noteq> 16 \<Longrightarrow> inet_aton_number base val rest = (val, rest)"
  by (cases rest) (auto simp: cur_def)

lemma dec_digits_head: "\<exists>d ds. dec_digits b = d # ds \<and> isdigit d \<and> (b \<noteq> 0 \<longrightarrow> d \<noteq> 0x30)"
proof (induction b rule: ntoa_inv.induct)
  case (1 b)
  show ?case
  proof (cases "b div 10 = 0")
    case True
    then have "unat b div 10 = 0"
      by (simp add: word_unat_eq_iff unat_div_distrib)
    then have "b \<noteq> 0 \<longrightarrow> 0x30 + b mod 10 \<noteq> 0x30"
      by (auto simp: word_unat_eq_iff unat_digit)
    with True show ?thesis
      by (subst dec_digits_simps) (simp add: isdigit_digit)
  next
    case False
    with "1.IH" show ?thesis
      by (subst dec_digits_simps) auto
  qed
qed

lemma dec_digits_0: "dec_digits 0 = [0x30]"
  by (subst dec_digits_simps) simp

lemma base_dec_digits:
  assumes "\<not> isdigit (cur rest)" "cur rest \<noteq> 0x78" "cur rest \<noteq> 0x58"
  shows "(case inet_aton_base (dec_digits b @ rest) of (base, cp) \<Rightarrow> inet_aton_number base 0 cp)
    = (ucast b, rest)"
proof (cases "b = 0")
  case True
  then show ?thesis
    using assms by (simp add: dec_digits_0 inet_aton_base_def number_stop)
next
  case False
  obtain d ds where "dec_digits b = d # ds" "d \<noteq> 0x30"
    using dec_digits_head [of b] False by blast
  then have "inet_aton_base (dec_digits b @ rest) = (10, dec_digits b @ rest)"
    by (simp add: inet_aton_base_def cur_def)
  then show ?thesis
    using assms by (simp add: number_dec_digits number_stop)
qed

lemma loop_dec_digits:
  assumes "\<not> isdigit (cur rest)" "cur rest \<noteq> 0x78" "cur rest \<noteq> 0x58"
  shows "inet_aton_loop parts (dec_digits b @ rest) =
    (if cur rest = 0x2e then if length parts \<ge> 3 then None else inet_aton_loop (parts @ [ucast b]) (tl rest)
     else Some (parts, ucast b, rest))"
proof -
  obtain d ds where "dec_digits b = d # ds" "isdigit d"
    using dec_digits_head [of b] by blast
  then have "isdigit (cur (dec_digits b @ rest))"
    by (simp add: cur_def)
  then show ?thesis
    using base_dec_digits [OF assms, of b] by (subst inet_aton_loop.simps) (auto split: prod.splits)
qed

lemma inet_ntoa_eq:
  "inet_ntoa a = dec_digits (ucast a) @ 0x2e # dec_digits (ucast (drop_bit 8 a)) @ 0x2e #
     dec_digits (ucast (drop_bit 16 a)) @ 0x2e # dec_digits (ucast (drop_bit 24 a))"
  by (simp add: inet_ntoa_def mem_bytes32_def dec_digits_def butlast_append)

lemma inet_aton_ntoa: "inet_aton (inet_ntoa a) = Some a"
proof -
  have dot: "\<not> isdigit 0x2e" and "\<not> isdigit 0"
    by (simp_all add: isdigit_def in_range_def)
  have "inet_aton_loop [] (inet_ntoa a) = Some ([ucast (ucast a :: u8), ucast (ucast (drop_bit 8 a) :: u8),
      ucast (ucast (drop_bit 16 a) :: u8)], ucast (ucast (drop_bit 24 a) :: u8), [])"
    unfolding inet_ntoa_eq
    using loop_dec_digits [of "[]" _ "ucast (drop_bit 24 a)"] \<open>\<not> isdigit 0\<close>
    by (simp add: loop_dec_digits dot)
  moreover have "\<not> (ucast (ucast (drop_bit 24 a) :: u8) :: u32) > 0xff"
    using unat_lt [of "ucast (drop_bit 24 a) :: u8"] by (simp add: word_less_nat_alt unat_ucast_mod)
  ultimately show ?thesis
    using htonl_bytes [of a] by (simp add: inet_aton_def cur_def)
qed

lemma dec_digits_length: "length (dec_digits b) \<le> 3"
proof -
  have "b div 10 div 10 div 10 = 0"
    using unat_lt [of b] by (simp add: word_unat_eq_iff unat_div_distrib)
  then show ?thesis
    using dec_digits_simps [of b] dec_digits_simps [of "b div 10"] dec_digits_simps [of "b div 10 div 10"]
    by (simp split: if_splits)
qed

lemma inet_ntoa_length: "length (inet_ntoa a) \<le> 15"
  using dec_digits_length [of "ucast a"] dec_digits_length [of "ucast (drop_bit 8 a)"]
    dec_digits_length [of "ucast (drop_bit 16 a)"] dec_digits_length [of "ucast (drop_bit 24 a)"]
  by (simp add: inet_ntoa_eq)

section \<open>Results\<close>

text \<open>Printing an address and parsing the text gives the address back, and the text always fits
  the 16-byte static buffer of \<^verbatim>\<open>inet_ntoa\<close>, terminator included.\<close>

theorem inet_ntoa_aton_roundtrip: "inet_aton (inet_ntoa a) = Some a \<and> length (inet_ntoa a) + 1 \<le> 16"
  using inet_ntoa_length [of a] by (simp add: inet_aton_ntoa)

text \<open>\<^verbatim>\<open>htons\<close> and \<^verbatim>\<open>htonl\<close> are their own inverses, and the octets of
  \<^verbatim>\<open>IP4_ADDR\<close> are read back by \<^verbatim>\<open>ip4_addr1\<close> to \<^verbatim>\<open>ip4_addr4\<close>.\<close>

theorem byte_order_roundtrip:
  "ntohs (htons h) = h \<and> ntohl (htonl w) = w
   \<and> ip4_addr1 (IP4_ADDR a b c d) = ucast a \<and> ip4_addr2 (IP4_ADDR a b c d) = ucast b
   \<and> ip4_addr3 (IP4_ADDR a b c d) = ucast c \<and> ip4_addr4 (IP4_ADDR a b c d) = ucast d"
proof -
  have "ip4_addr1 (IP4_ADDR a b c d) = ucast a" "ip4_addr2 (IP4_ADDR a b c d) = ucast b"
    "ip4_addr3 (IP4_ADDR a b c d) = ucast c" "ip4_addr4 (IP4_ADDR a b c d) = ucast d"
    unfolding ip4_addr1_def ip4_addr2_def ip4_addr3_def ip4_addr4_def IP4_ADDR_def ntohl_def htonl_htonl
      byte_masks
    by (rule bit_word_eqI, auto simp: bit_simps dest: bit_imp_le_length)+
  then show ?thesis
    by (simp add: ntohs_def ntohl_def htons_htons htonl_htonl)
qed

end
