(* ===== verification/Checksum.thy ===== *)
theory Checksum
  imports Inet
begin

text \<open>
  The Internet checksum of lwIP, \<^verbatim>\<open>core/ipv4/inet_chksum.c\<close>. A buffer is the list of its
  octets; the two alternative algorithms, which depend on the alignment of the buffer, take its
  address as well. A pbuf chain is the list of its payloads. \<^verbatim>\<open>LWIP_CHKSUM\<close> is the default
  algorithm 1.

  The specification is RFC 1071: the one's complement sum of the 16-bit words of the data, here on
  natural numbers (\<open>le_sum\<close> adds the words as they lie in memory, \<open>ocsum\<close> folds the carries).
  The relation \<open>oceq\<close>, "equal as one's complement sums", is kept by every step of the algorithms
  (adding, folding a carry, swapping the two octets), which is what all proofs below use.
\<close>

unbundle bit_operations_syntax

section \<open>The three algorithms\<close>

fun chksum1_loop :: "u32 \<Rightarrow> u8 list \<Rightarrow> u32" where
  "chksum1_loop acc (a # b # bs) =
     (let src = push_bit 8 (ucast a) :: u16;
          src = src OR ucast b
      in chksum1_loop (acc + ucast src) bs)"
| "chksum1_loop acc [a] = (let src = push_bit 8 (ucast a) :: u16 in acc + ucast src)"
| "chksum1_loop acc [] = acc"

definition lwip_standard_chksum :: "u8 list \<Rightarrow> u16" where
  "lwip_standard_chksum bs =
     (let acc = chksum1_loop 0 bs;
          acc = drop_bit 16 acc + (acc AND 0xffff);
          acc = (if acc AND 0xffff0000 \<noteq> 0 then drop_bit 16 acc + (acc AND 0xffff) else acc)
      in htons (ucast acc))"

lemma unat_fold_step: "unat (((acc :: u32) AND 0xffff) + drop_bit 16 acc) = unat acc mod 65536 + unat acc div 65536"
proof -
  have m: "unat (acc AND 0xffff) = unat acc mod 65536"
    using unat_and_mask_mod [of acc 16] by (simp add: mask_eq_exp_minus_1)
  have d: "unat (drop_bit 16 acc) = unat acc div 65536"
    using unat_drop_bit_div [of 16 acc] by simp
  have "unat acc div 65536 < 65536"
    using unat_lt [of acc] by (simp add: less_mult_imp_div_less)
  moreover have "unat acc mod 65536 < 65536" by simp
  ultimately have "unat acc mod 65536 + unat acc div 65536 < 2 ^ 32" by simp
  then show ?thesis
    by (simp add: unat_word_ariths m d)
qed

text \<open>The loop \<^verbatim>\<open>while ((acc >> 16) != 0)\<close> that folds the carries.\<close>

function fold32 :: "u32 \<Rightarrow> u32" where
  "fold32 acc = (if drop_bit 16 acc \<noteq> 0 then fold32 ((acc AND 0xffff) + drop_bit 16 acc) else acc)"
  by pat_completeness auto

termination
proof (relation "measure unat")
  fix acc :: u32
  assume "drop_bit 16 acc \<noteq> 0"
  then have "unat acc div 65536 \<noteq> 0"
    using unat_drop_bit_div [of 16 acc] by (simp flip: unat_eq_0)
  then have "unat acc mod 65536 + unat acc div 65536 < unat acc"
    using div_mult_mod_eq [of "unat acc" 65536] by linarith
  then show "((acc AND 0xffff) + drop_bit 16 acc, acc) \<in> measure unat"
    by (simp only: in_measure unat_fold_step)
qed simp

text \<open>The swap of the two octets of a 16-bit accumulator.\<close>

definition swap32 :: "u32 \<Rightarrow> u32" where
  "swap32 acc = push_bit 8 (acc AND 0xff) OR drop_bit 8 (acc AND 0xff00)"

text \<open>Loads of the little-endian target.\<close>

definition load16 :: "u8 \<Rightarrow> u8 \<Rightarrow> u32" where
  "load16 a b = ucast a + push_bit 8 (ucast b)"

definition load32 :: "u8 \<Rightarrow> u8 \<Rightarrow> u8 \<Rightarrow> u8 \<Rightarrow> u32" where
  "load32 a b c d = ucast a + push_bit 8 (ucast b) + push_bit 16 (ucast c) + push_bit 24 (ucast d)"

text \<open>The 16-bit loop of algorithms 2 and 3: the sum and the octets left over.\<close>

fun chksum_words :: "u32 \<Rightarrow> u8 list \<Rightarrow> u32 \<times> u8 list" where
  "chksum_words s (a # b # bs) = chksum_words (s + load16 a b) bs"
| "chksum_words s bs = (s, bs)"

text \<open>The octets at the two ends: the first one of a buffer at an odd address becomes the high octet
  of \<^verbatim>\<open>t\<close>, a last odd one its low octet.\<close>

definition chksum_head :: "nat \<Rightarrow> u8 list \<Rightarrow> u8 \<times> nat \<times> u8 list" where
  "chksum_head addr bs = (if odd addr \<and> bs \<noteq> [] then (hd bs, addr + 1, tl bs) else (0, addr, bs))"

definition chksum_tail :: "u8 list \<Rightarrow> u8" where
  "chksum_tail bs = (case bs of [] \<Rightarrow> 0 | b # _ \<Rightarrow> b)"

definition lwip_standard_chksum2 :: "nat \<Rightarrow> u8 list \<Rightarrow> u16" where
  "lwip_standard_chksum2 addr bs =
     (let (t1, pb, bs) = chksum_head addr bs;
          (s, bs) = chksum_words 0 bs;
          s = fold32 (s + load16 (chksum_tail bs) t1)
      in ucast (if odd addr then swap32 s else s))"

text \<open>The 32-bit loop of algorithm 3, eight octets at a time with end-around carry.\<close>

definition carry_add32 :: "u32 \<Rightarrow> u32 \<Rightarrow> u32" where
  "carry_add32 s w = (let tmp = s + w in if tmp < s then tmp + 1 else tmp)"

fun chksum3_loop :: "u32 \<Rightarrow> u8 list \<Rightarrow> u32 \<times> u8 list" where
  "chksum3_loop s (a # b # c # d # e # f # g # h # bs) =
     chksum3_loop (carry_add32 (carry_add32 s (load32 a b c d)) (load32 e f g h)) bs"
| "chksum3_loop s bs = (s, bs)"

definition lwip_standard_chksum3 :: "nat \<Rightarrow> u8 list \<Rightarrow> u16" where
  "lwip_standard_chksum3 addr bs =
     (let (t1, ps, bs) = chksum_head addr bs;
          (s, bs) = (case bs of
                       a # b # bs' \<Rightarrow> if ps mod 4 \<noteq> 0 then (load16 a b, bs') else (0, bs)
                     | _ \<Rightarrow> (0, bs));
          (s, bs) = chksum3_loop s bs;
          s = drop_bit 16 s + (s AND 0xffff);
          (s, bs) = chksum_words s bs;
          s = fold32 (s + load16 (chksum_tail bs) t1)
      in ucast (if odd addr then swap32 s else s))"

section \<open>Checksums of buffers and of pbuf chains\<close>

definition inet_chksum :: "u8 list \<Rightarrow> u16" where
  "inet_chksum bs =
     (let acc = ucast (lwip_standard_chksum bs);
          acc = fold32 acc
      in ucast (NOT (acc AND 0xffff)))"

text \<open>The loop over the chain of \<^verbatim>\<open>inet_chksum_pseudo\<close>: the accumulator and the flag
  \<^verbatim>\<open>swapped\<close>.\<close>

fun chksum_pseudo_loop :: "u32 \<Rightarrow> bool \<Rightarrow> u8 list list \<Rightarrow> u32 \<times> bool" where
  "chksum_pseudo_loop acc swapped [] = (acc, swapped)"
| "chksum_pseudo_loop acc swapped (q # qs) =
     (let acc = fold32 (acc + ucast (lwip_standard_chksum q))
      in if length q mod 2 \<noteq> 0 then chksum_pseudo_loop (swap32 acc) (\<not> swapped) qs
         else chksum_pseudo_loop acc swapped qs)"

text \<open>What the two pseudo-header checksums do after their loops.\<close>

definition chksum_pseudo_finish :: "u32 \<times> bool \<Rightarrow> ip_addr \<Rightarrow> ip_addr \<Rightarrow> u8 \<Rightarrow> u16 \<Rightarrow> u16" where
  "chksum_pseudo_finish r src dest proto proto_len =
     (let (acc, swapped) = r;
          acc = (if swapped then swap32 acc else acc);
          acc = acc + (src AND 0xffff);
          acc = acc + (drop_bit 16 src AND 0xffff);
          acc = acc + (dest AND 0xffff);
          acc = acc + (drop_bit 16 dest AND 0xffff);
          acc = acc + ucast (htons (ucast proto));
          acc = acc + ucast (htons proto_len);
          acc = fold32 acc
      in ucast (NOT (acc AND 0xffff)))"

definition inet_chksum_pseudo :: "u8 list list \<Rightarrow> ip_addr \<Rightarrow> ip_addr \<Rightarrow> u8 \<Rightarrow> u16 \<Rightarrow> u16" where
  "inet_chksum_pseudo p src dest proto proto_len =
     chksum_pseudo_finish (chksum_pseudo_loop 0 False p) src dest proto proto_len"

fun chksum_partial_loop :: "u32 \<Rightarrow> bool \<Rightarrow> nat \<Rightarrow> u8 list list \<Rightarrow> u32 \<times> bool" where
  "chksum_partial_loop acc swapped chksum_len [] = (acc, swapped)"
| "chksum_partial_loop acc swapped chksum_len (q # qs) =
     (if chksum_len > 0
      then let chklen = (if length q > chksum_len then chksum_len else length q);
               acc = acc + ucast (lwip_standard_chksum (take chklen q));
               acc = fold32 acc
           in if length q mod 2 \<noteq> 0
              then chksum_partial_loop (swap32 acc) (\<not> swapped) (chksum_len - chklen) qs
              else chksum_partial_loop acc swapped (chksum_len - chklen) qs
      else (acc, swapped))"

definition inet_chksum_pseudo_partial ::
    "u8 list list \<Rightarrow> ip_addr \<Rightarrow> ip_addr \<Rightarrow> u8 \<Rightarrow> u16 \<Rightarrow> u16 \<Rightarrow> u16" where
  "inet_chksum_pseudo_partial p src dest proto proto_len chksum_len =
     chksum_pseudo_finish (chksum_partial_loop 0 False (unat chksum_len) p) src dest proto proto_len"

text \<open>The loop of \<^verbatim>\<open>inet_chksum_pbuf\<close>. Its swap is written
  \<^verbatim>\<open>(acc & 0x00ffUL << 8) | (acc & 0xff00UL >> 8)\<close>, and the shifts bind tighter than
  \<^verbatim>\<open>&\<close>.\<close>

fun chksum_pbuf_loop :: "u32 \<Rightarrow> bool \<Rightarrow> u8 list list \<Rightarrow> u32 \<times> bool" where
  "chksum_pbuf_loop acc swapped [] = (acc, swapped)"
| "chksum_pbuf_loop acc swapped (q # qs) =
     (let acc = fold32 (acc + ucast (lwip_standard_chksum q))
      in if length q mod 2 \<noteq> 0
         then chksum_pbuf_loop ((acc AND push_bit 8 0x00ff) OR (acc AND drop_bit 8 0xff00)) (\<not> swapped) qs
         else chksum_pbuf_loop acc swapped qs)"

definition inet_chksum_pbuf :: "u8 list list \<Rightarrow> u16" where
  "inet_chksum_pbuf p =
     (let (acc, swapped) = chksum_pbuf_loop 0 False p;
          acc = (if swapped then swap32 acc else acc)
      in ucast (NOT (acc AND 0xffff)))"

section \<open>One's complement sums\<close>

definition ocsum :: "nat \<Rightarrow> nat" where
  "ocsum n = (if n = 0 then 0 else (n - 1) mod 65535 + 1)"

fun le_sum :: "u8 list \<Rightarrow> nat" where
  "le_sum (a # b # bs) = unat a + 256 * unat b + le_sum bs"
| "le_sum [a] = unat a"
| "le_sum [] = 0"

definition rfc1071 :: "u8 list \<Rightarrow> u16" where
  "rfc1071 bs = of_nat (65535 - ocsum (le_sum bs))"

definition oceq :: "nat \<Rightarrow> nat \<Rightarrow> bool" where
  "oceq r n \<longleftrightarrow> r mod 65535 = n mod 65535 \<and> (r = 0 \<longleftrightarrow> n = 0)"

lemma oceq_refl [simp]: "oceq n n"
  by (simp add: oceq_def)

lemma oceq_sym: "oceq m n \<Longrightarrow> oceq n m"
  by (simp add: oceq_def)

lemma oceq_trans [trans]: "oceq l m \<Longrightarrow> oceq m n \<Longrightarrow> oceq l n"
  by (simp add: oceq_def)

lemma oceq_add: "oceq a b \<Longrightarrow> oceq c d \<Longrightarrow> oceq (a + c) (b + d)"
  by (auto simp: oceq_def intro: mod_add_cong)

lemma oceq_mult: "oceq a b \<Longrightarrow> oceq (256 * a) (256 * b)"
  by (auto simp: oceq_def intro: mod_mult_cong)

lemma oceq_carry: "oceq (65536 * a + b) (a + b)"
proof -
  have "(65536 * a + b) mod 65535 = (65535 * a + (a + b)) mod 65535" by simp
  also have "\<dots> = (a + b) mod 65535" by (rule mod_mult_self3 [of a, unfolded mult.commute [of a]])
  finally show ?thesis
    by (simp add: oceq_def)
qed

lemma oceq_65536: "oceq (256 * (256 * a)) a"
  using oceq_carry [of a 0] by simp

lemma oceq_fold: "oceq (n mod 65536 + n div 65536) n"
  using oceq_carry [of "n div 65536" "n mod 65536"] oceq_sym by (simp add: add.commute)

lemma ocsum_eqI:
  assumes "r < 65536" "oceq r n"
  shows "r = ocsum n"
proof (cases n)
  case (Suc k)
  then obtain j where j: "r = Suc j"
    using assms(2) by (cases r) (auto simp: oceq_def)
  then have "j mod 65535 = k mod 65535"
    using assms(2) Suc by (simp add: oceq_def mod_Suc split: if_splits)
  then show ?thesis
    using assms(1) j Suc by (simp add: ocsum_def)
qed (use assms in \<open>simp add: oceq_def ocsum_def\<close>)

lemma ocsum_lt: "ocsum n < 65536"
proof -
  have "(n - 1) mod 65535 < 65535" by simp
  then have "(n - 1) mod 65535 + 1 < 65536" by linarith
  then show ?thesis
    by (simp add: ocsum_def)
qed

lemma oceq_ocsum: "oceq (ocsum n) n"
  by (cases n) (simp_all add: ocsum_def oceq_def mod_Suc)

lemma oceq_swap: "n < 65536 \<Longrightarrow> oceq ((n mod 256) * 256 + n div 256) (256 * n)"
proof -
  assume "n < 65536"
  have "256 * n = 65536 * (n div 256) + n mod 256 * 256"
    using div_mult_mod_eq [of n 256] by linarith
  then show ?thesis
    using oceq_carry [of "n div 256" "n mod 256 * 256"] oceq_sym by (simp add: add.commute)
qed

declare fold32.simps [simp del]

lemma fold32_oceq: "unat (fold32 acc) < 65536 \<and> oceq (unat (fold32 acc)) (unat acc)"
proof (induction acc rule: fold32.induct)
  case (1 acc)
  show ?case
  proof (cases "drop_bit 16 acc = 0")
    case True
    then have "unat acc div 65536 = 0"
      using unat_drop_bit_div [of 16 acc] by simp
    moreover have "fold32 acc = acc"
      by (subst fold32.simps) (simp add: True)
    ultimately show ?thesis by simp
  next
    case False
    then have eq: "fold32 acc = fold32 ((acc AND 0xffff) + drop_bit 16 acc)"
      by (subst fold32.simps) (rule if_P)
    from "1.IH" [OF False] show ?thesis
      unfolding eq [symmetric] unat_fold_step by (blast intro: oceq_trans oceq_fold)
  qed
qed

lemma unat_swap32: "unat acc < 65536 \<Longrightarrow> unat (swap32 acc) = (unat acc mod 256) * 256 + unat acc div 256"
proof -
  assume a: "unat acc < 65536"
  have hi: "acc AND 0xff00 = push_bit 8 (drop_bit 8 acc AND mask 8)"
    unfolding byte_masks by (rule bit_word_eqI) (auto simp: bit_simps)
  have disj: "swap32 acc = push_bit 8 (acc AND mask 8) + (drop_bit 8 acc AND mask 8)"
  proof -
    have "drop_bit 8 (acc AND 0xff00) = drop_bit 8 acc AND mask 8"
      unfolding hi by (rule bit_word_eqI) (auto simp: bit_simps)
    moreover have "\<not> bit (push_bit 8 (acc AND mask 8)) n \<or> \<not> bit (drop_bit 8 acc AND mask 8) n" for n
      by (auto simp: bit_simps)
    ultimately show ?thesis
      unfolding swap32_def byte_masks by (simp add: disjunctive_add)
  qed
  have "unat acc mod 256 < 256" "unat acc div 256 < 256"
    using a by (simp_all add: less_mult_imp_div_less)
  then show ?thesis
    unfolding disj unat_word_ariths(1) unat_push_bit_mod unat_and_mask_mod unat_drop_bit_div by simp
qed

lemma swap_lt: "n < 65536 \<Longrightarrow> (n mod 256) * 256 + n div 256 < (65536::nat)"
proof -
  assume "n < 65536"
  then have "n div 256 < 256"
    by (simp add: less_mult_imp_div_less)
  moreover have "n mod 256 < 256" by simp
  ultimately show ?thesis by linarith
qed

lemma swap32_oceq:
  assumes "unat acc < 65536"
  shows "unat (swap32 acc) < 65536" "oceq (unat (swap32 acc)) (256 * unat acc)"
  unfolding unat_swap32 [OF assms] using assms by (auto intro: swap_lt oceq_swap)

lemma unat_htons: "unat (htons n) = (unat n mod 256) * 256 + unat n div 256"
proof -
  have n: "unat n < 65536"
    using unat_lt [of n] by simp
  have "ucast (htons n) = swap32 (ucast n)"
    unfolding htons_def swap32_def byte_masks
    by (rule bit_word_eqI) (auto simp: bit_simps dest: bit_imp_le_length)
  then have "unat (ucast (htons n) :: u32) = (unat n mod 256) * 256 + unat n div 256"
    using unat_swap32 [of "ucast n"] n by (simp add: unat_ucast_mod)
  then show ?thesis
    using unat_lt [of "htons n"] by (simp add: unat_ucast_mod)
qed

section \<open>The three algorithms compute the one's complement sum\<close>

fun be_sum :: "u8 list \<Rightarrow> nat" where
  "be_sum (a # b # bs) = 256 * unat a + unat b + be_sum bs"
| "be_sum [a] = 256 * unat a"
| "be_sum [] = 0"

lemma be_sum_oceq: "oceq (be_sum bs) (256 * le_sum bs)"
proof (induction bs rule: be_sum.induct)
  case (1 a b bs)
  have "256 * le_sum (a # b # bs) = 65536 * unat b + (256 * unat a + 256 * le_sum bs)"
    by simp
  also have "oceq \<dots> (unat b + (256 * unat a + 256 * le_sum bs))"
    by (rule oceq_carry)
  also have "oceq \<dots> (unat b + (256 * unat a + be_sum bs))"
    using 1 by (intro oceq_add oceq_refl) (rule oceq_sym)
  finally show ?case
    by (simp add: oceq_sym add_ac)
qed simp_all

lemma unat_u8_le: "unat (b::u8) \<le> 255"
  using unat_lt [of b] by simp

lemma be_sum_le: "2 * be_sum bs \<le> 65535 * (length bs + 1)"
proof (induction bs rule: be_sum.induct)
  case (1 a b bs)
  then show ?case
    using unat_u8_le [of a] unat_u8_le [of b] by simp
next
  case (2 a)
  then show ?case
    using unat_u8_le [of a] by simp
qed simp

lemma le_sum_le: "2 * le_sum bs \<le> 65535 * (length bs + 1)"
proof (induction bs rule: le_sum.induct)
  case (1 a b bs)
  then show ?case
    using unat_u8_le [of a] unat_u8_le [of b] by simp
next
  case (2 a)
  then show ?case
    using unat_u8_le [of a] by simp
qed simp

lemma unat_be16: "unat (ucast (push_bit 8 (ucast (a::u8)) OR (ucast b :: u16)) :: u32) = 256 * unat a + unat (b::u8)"
proof -
  have "\<not> bit (push_bit 8 (ucast (a::u8)) :: u16) n \<or> \<not> bit (ucast b :: u16) n" for n
    by (auto simp: bit_simps dest: bit_imp_le_length)
  then have "push_bit 8 (ucast a) OR (ucast b :: u16) = push_bit 8 (ucast a) + ucast b"
    by (simp add: disjunctive_add)
  then show ?thesis
    using unat_u8_le [of a] unat_u8_le [of b]
    by (simp add: unat_ucast_mod unat_word_ariths unat_push_bit_mod)
qed

lemma unat_chksum1_loop:
  "unat acc + be_sum bs < 2 ^ 32 \<Longrightarrow> unat (chksum1_loop acc bs) = unat acc + be_sum bs"
proof (induction acc bs rule: chksum1_loop.induct)
  case (1 acc a b bs)
  then have "unat (acc + ucast (push_bit 8 (ucast a) OR (ucast b :: u16)))
      = unat acc + (256 * unat a + unat b)"
    by (simp add: unat_word_ariths unat_be16)
  with 1 show ?case
    by (simp add: Let_def)
next
  case (2 acc a)
  then show ?case
    using unat_be16 [of a 0] by (simp add: Let_def unat_word_ariths)
qed simp

lemma high_half_zero: "acc AND 0xffff0000 = 0 \<longleftrightarrow> unat (acc::u32) < 65536"
proof -
  have m: "(0xffff0000 :: u32) = push_bit 16 (mask 16)"
    by (simp add: mask_eq_exp_minus_1)
  have "acc AND 0xffff0000 = push_bit 16 (drop_bit 16 acc)"
    unfolding m by (rule bit_word_eqI) (auto simp: bit_simps)
  then have "unat (acc AND 0xffff0000) = unat acc div 65536 * 65536"
    using div_le_dividend [of "unat acc" 65536] div_times_less_eq_dividend [of "unat acc" 65536]
      unat_lt [of acc]
    by (simp add: unat_push_bit_mod unat_drop_bit_div)
  then show ?thesis
    by (simp add: unat_eq_0 [symmetric] div_eq_0_iff)
qed

lemma unat_lwip_standard_chksum:
  assumes "length bs < 65536"
  shows "unat (lwip_standard_chksum bs) = ocsum (le_sum bs)"
proof -
  define acc where "acc = chksum1_loop 0 bs"
  have b: "be_sum bs < 2 ^ 31"
    using be_sum_le [of bs] assms by simp
  then have acc: "unat acc = be_sum bs"
    unfolding acc_def by (subst unat_chksum1_loop) simp_all
  define acc1 where "acc1 = drop_bit 16 acc + (acc AND 0xffff)"
  have acc1: "unat acc1 = unat acc mod 65536 + unat acc div 65536"
    unfolding acc1_def using unat_fold_step [of acc] by (simp add: add.commute)
  define acc2 where "acc2 = (if acc1 AND 0xffff0000 \<noteq> 0 then drop_bit 16 acc1 + (acc1 AND 0xffff) else acc1)"
  have "unat acc div 65536 < 32768" "unat acc mod 65536 < 65536"
    using b unfolding acc by (simp_all add: less_mult_imp_div_less)
  then have l1: "unat acc1 < 98304"
    unfolding acc1 by linarith
  have step: "unat (drop_bit 16 acc1 + (acc1 AND 0xffff)) = unat acc1 mod 65536 + unat acc1 div 65536"
    using unat_fold_step [of acc1] by (simp add: add.commute)
  have l2: "unat acc2 < 65536"
    using l1 unfolding acc2_def by (auto simp: high_half_zero step le_mod_geq le_div_geq)
  have "oceq (unat acc2) (unat acc1)"
    unfolding acc2_def by (simp add: step oceq_fold)
  also have "oceq (unat acc1) (unat acc)"
    unfolding acc1 by (rule oceq_fold)
  also have "oceq (unat acc) (256 * le_sum bs)"
    unfolding acc by (rule be_sum_oceq)
  finally have "oceq (256 * unat acc2) (256 * (256 * le_sum bs))"
    by (rule oceq_mult)
  then have "oceq (256 * unat acc2) (le_sum bs)"
    using oceq_65536 oceq_trans by blast
  moreover have "unat (htons (ucast acc2)) = (unat acc2 mod 256) * 256 + unat acc2 div 256"
    using l2 by (simp add: unat_htons unat_ucast_mod)
  ultimately show ?thesis
    unfolding lwip_standard_chksum_def Let_def acc_def [symmetric] acc1_def [symmetric] acc2_def [symmetric]
    using l2 by (intro ocsum_eqI) (auto intro: swap_lt oceq_trans oceq_swap)
qed

lemma le_sum_Cons: "oceq (le_sum (b # bs)) (unat b + 256 * le_sum bs)"
proof (induction bs arbitrary: b rule: le_sum.induct)
  case (1 c d bs)
  have "oceq (le_sum (b # c # d # bs)) ((unat b + 256 * unat c) + (unat d + 256 * le_sum bs))"
    using 1 [of d] by (simp only: le_sum.simps) (rule oceq_add [OF oceq_refl])
  also have "oceq \<dots> (65536 * unat d + (unat b + 256 * unat c + 256 * le_sum bs))"
    using oceq_sym [OF oceq_carry [of "unat d" "unat b + 256 * unat c + 256 * le_sum bs"]]
    by (simp add: add_ac)
  finally show ?case
    by (simp add: add_ac)
qed simp_all

lemma unat_load16: "unat (load16 a b) = unat a + 256 * unat b"
  using unat_u8_le [of a] unat_u8_le [of b]
  by (simp add: load16_def unat_word_ariths unat_push_bit_mod unat_ucast_mod)

lemma unat_load32: "unat (load32 a b c d) = unat a + 256 * unat b + 65536 * unat c + 16777216 * unat d"
  using unat_u8_le [of a] unat_u8_le [of b] unat_u8_le [of c] unat_u8_le [of d]
  by (simp add: load32_def unat_word_ariths unat_push_bit_mod unat_ucast_mod)

lemma chksum_words_sum:
  assumes "unat s + le_sum bs < 2 ^ 32" "chksum_words s bs = (s', bs')"
  shows "unat s' + le_sum bs' = unat s + le_sum bs \<and> length bs' \<le> 1"
  using assms
proof (induction s bs rule: chksum_words.induct)
  case (1 s a b bs)
  then have "unat (s + load16 a b) = unat s + (unat a + 256 * unat b)"
    by (simp add: unat_word_ariths unat_load16)
  with 1 show ?case by simp
qed auto

lemma le_sum_tail: "length bs \<le> 1 \<Longrightarrow> le_sum bs = unat (chksum_tail bs)"
  by (cases bs) (auto simp: chksum_tail_def)

text \<open>The common end of algorithms 2 and 3, for a sum of the words between the two end octets.\<close>

lemma chksum_end:
  assumes head: "chksum_head addr bs = (t1, ps, bs1)"
    and s: "oceq (unat s + le_sum bs') (le_sum bs1)" "unat s + le_sum bs' < 2 ^ 31" "length bs' \<le> 1"
  defines "f \<equiv> fold32 (s + load16 (chksum_tail bs') t1)"
  shows "unat (ucast (if odd addr then swap32 f else f) :: u16) = ocsum (le_sum bs)"
proof -
  have "unat (s + load16 (chksum_tail bs') t1) = unat s + (unat (chksum_tail bs') + 256 * unat t1)"
    using s(2,3) unat_u8_le [of t1] by (simp add: unat_word_ariths unat_load16 le_sum_tail)
  then have "oceq (unat f) (unat s + le_sum bs' + 256 * unat t1)" and f: "unat f < 65536"
    unfolding f_def using fold32_oceq [of "s + load16 (chksum_tail bs') t1"] s(3)
    by (simp_all add: le_sum_tail add_ac)
  then have "oceq (unat f) (le_sum bs1 + 256 * unat t1)"
    using oceq_trans oceq_add [OF s(1) oceq_refl] by blast
  note f2 = this
  have "oceq (unat (if odd addr then swap32 f else f)) (le_sum bs)"
  proof (cases "odd addr")
    case False
    then have "t1 = 0" "bs1 = bs"
      using head by (auto simp: chksum_head_def split: if_splits)
    with f2 False show ?thesis by simp
  next
    case odd: True
    have "oceq (unat (swap32 f)) (256 * unat f)"
      using f by (rule swap32_oceq)
    also have "oceq \<dots> (256 * (le_sum bs1 + 256 * unat t1))"
      using f2 by (rule oceq_mult)
    also have "oceq \<dots> (le_sum bs)"
    proof (cases bs)
      case Nil
      then show ?thesis
        using head by (simp add: chksum_head_def)
    next
      case (Cons b cs)
      then have h: "t1 = b" "bs1 = cs"
        using head odd by (auto simp: chksum_head_def)
      have "256 * (le_sum bs1 + 256 * unat t1) = 65536 * unat b + 256 * le_sum cs"
        by (simp add: h)
      also have "oceq \<dots> (unat b + 256 * le_sum cs)"
        by (rule oceq_carry)
      also have "oceq \<dots> (le_sum bs)"
        unfolding Cons by (rule oceq_sym [OF le_sum_Cons])
      finally show ?thesis .
    qed
    finally show ?thesis
      using odd by simp
  qed
  moreover have "unat (if odd addr then swap32 f else f) < 65536"
    using f swap32_oceq(1) by simp
  ultimately show ?thesis
    by (intro ocsum_eqI) (simp_all add: unat_ucast_mod)
qed

lemma chksum_head_length: "chksum_head addr bs = (t1, ps, bs1) \<Longrightarrow> length bs1 \<le> length bs"
  by (auto simp: chksum_head_def split: if_splits)

lemma unat_lwip_standard_chksum2:
  assumes "length bs < 65536"
  shows "unat (lwip_standard_chksum2 addr bs) = ocsum (le_sum bs)"
proof -
  obtain t1 ps bs1 where h: "chksum_head addr bs = (t1, ps, bs1)"
    by (cases "chksum_head addr bs") auto
  obtain s bs' where w: "chksum_words 0 bs1 = (s, bs')"
    by (cases "chksum_words 0 bs1")
  have "le_sum bs1 < 2 ^ 31"
    using le_sum_le [of bs1] chksum_head_length [OF h] assms by simp
  then have s: "unat s + le_sum bs' = le_sum bs1" "length bs' \<le> 1" "le_sum bs1 < 2 ^ 31"
    using chksum_words_sum [of 0 bs1, OF _ w] by simp_all
  show ?thesis
    using chksum_end [OF h, of s bs'] s unfolding lwip_standard_chksum2_def Let_def h prod.case w by simp
qed

lemma carry_add32_oceq: "oceq (unat (carry_add32 s w)) (unat s + unat w)"
proof (cases "s + w < s")
  case True
  then have c: "unat s + unat w = unat (s + w) + 2 ^ 32"
    using word_carry [of s w] by simp
  have "unat (s + w) + 1 \<le> unat s"
    using True by (simp add: word_less_nat_alt)
  then have "unat (s + w + 1) = unat (s + w) + 1"
    using unat_lt [of s] unat_word_ariths(1) [of "s + w" 1] by simp
  then have "unat (carry_add32 s w) = unat (s + w) + 1"
    using True by (simp add: carry_add32_def Let_def)
  moreover have "oceq (65536 * 65536 + unat (s + w)) (1 + unat (s + w))"
    using oceq_trans [OF oceq_carry [of 65536 "unat (s + w)"] oceq_carry [of 1 "unat (s + w)", simplified]] by simp
  ultimately show ?thesis
    unfolding c by (simp add: oceq_sym add.commute)
next
  case False
  then show ?thesis
    using word_carry [of s w] by (simp add: carry_add32_def Let_def)
qed

lemma load32_oceq: "oceq (unat (load32 a b c d)) (unat a + 256 * unat b + (unat c + 256 * unat d))"
  using oceq_carry [of "unat c + 256 * unat d" "unat a + 256 * unat b"]
  by (simp add: unat_load32 add_ac)

lemma chksum3_loop_oceq:
  assumes "chksum3_loop s bs = (s', bs')"
  shows "oceq (unat s' + le_sum bs') (unat s + le_sum bs) \<and> length bs' < 8"
  using assms
proof (induction s bs rule: chksum3_loop.induct)
  case (1 s a b c d e f g h bs)
  let ?t = "carry_add32 s (load32 a b c d)" and ?u = "load32 e f g h"
  have "oceq (unat (carry_add32 ?t ?u)) (unat ?t + unat ?u)"
    by (rule carry_add32_oceq)
  also have "oceq \<dots> ((unat s + unat (load32 a b c d)) + unat ?u)"
    by (intro oceq_add carry_add32_oceq oceq_refl)
  also have "oceq \<dots> ((unat s + (unat a + 256 * unat b + (unat c + 256 * unat d)))
      + (unat e + 256 * unat f + (unat g + 256 * unat h)))"
    by (intro oceq_add load32_oceq oceq_refl)
  finally have "oceq (unat (carry_add32 ?t ?u) + le_sum bs) (unat s + (unat a + 256 * unat b
      + (unat c + 256 * unat d)) + (unat e + 256 * unat f + (unat g + 256 * unat h)) + le_sum bs)"
    by (rule oceq_add [OF _ oceq_refl])
  then have "oceq (unat (carry_add32 ?t ?u) + le_sum bs) (unat s + le_sum (a # b # c # d # e # f # g # h # bs))"
    by (simp add: add_ac)
  then show ?case
    using 1 oceq_trans by auto
qed auto

lemma unat_lwip_standard_chksum3:
  "unat (lwip_standard_chksum3 addr bs) = ocsum (le_sum bs)"
proof -
  obtain t1 ps bs1 where h: "chksum_head addr bs = (t1, ps, bs1)"
    by (cases "chksum_head addr bs") auto
  obtain s0 bs2 where z: "(case bs1 of a # b # bs' \<Rightarrow> if ps mod 4 \<noteq> 0 then (load16 a b, bs') else (0, bs1)
      | _ \<Rightarrow> (0, bs1)) = (s0, bs2)"
    by fastforce
  have sum0: "unat s0 + le_sum bs2 = le_sum bs1"
    using z by (auto simp: unat_load16 split: list.splits if_splits)
  obtain s1 bs3 where l: "chksum3_loop s0 bs2 = (s1, bs3)"
    by (cases "chksum3_loop s0 bs2")
  define s2 where "s2 = drop_bit 16 s1 + (s1 AND 0xffff)"
  have s2: "unat s2 = unat s1 mod 65536 + unat s1 div 65536"
    unfolding s2_def using unat_fold_step [of s1] by (simp add: add.commute)
  have "unat s1 div 65536 < 65536" "unat s1 mod 65536 < 65536"
    using unat_lt [of s1] by (simp_all add: less_mult_imp_div_less)
  then have s2_lt: "unat s2 < 131072"
    unfolding s2 by linarith
  obtain s3 bs' where w: "chksum_words s2 bs3 = (s3, bs')"
    by (cases "chksum_words s2 bs3")
  have len: "length bs3 < 8" and o1: "oceq (unat s1 + le_sum bs3) (le_sum bs1)"
    using chksum3_loop_oceq [OF l] sum0 by simp_all
  have small: "unat s2 + le_sum bs3 < 2 ^ 31"
    using le_sum_le [of bs3] len s2_lt by simp
  then have s3: "unat s3 + le_sum bs' = unat s2 + le_sum bs3" "length bs' \<le> 1"
    using chksum_words_sum [OF _ w] by simp_all
  have "oceq (unat s2 + le_sum bs3) (unat s1 + le_sum bs3)"
    unfolding s2 by (intro oceq_add oceq_fold oceq_refl)
  then have "oceq (unat s3 + le_sum bs') (le_sum bs1)"
    unfolding s3 using o1 by (rule oceq_trans)
  then show ?thesis
    using chksum_end [OF h, of s3 bs'] s3 small
    unfolding lwip_standard_chksum3_def Let_def h z l prod.case s2_def [symmetric] w by simp
qed

section \<open>Chains\<close>

lemma le_sum_append_even: "even (length cs) \<Longrightarrow> le_sum (cs @ bs) = le_sum cs + le_sum bs"
  by (induction cs rule: le_sum.induct) simp_all

lemma le_sum_append_odd: "odd (length cs) \<Longrightarrow> oceq (le_sum (cs @ bs)) (le_sum cs + 256 * le_sum bs)"
proof (induction cs rule: le_sum.induct)
  case (1 a b cs)
  then have "oceq (le_sum (cs @ bs)) (le_sum cs + 256 * le_sum bs)"
    by simp
  from oceq_add [OF oceq_refl [of "unat a + 256 * unat b"] this] show ?case
    by (simp add: add_ac)
qed (simp_all add: le_sum_Cons)

text \<open>The accumulator holds the sum of the octets seen so far, with its two octets swapped when the
  flag says so.\<close>

definition acc_holds :: "u32 \<Rightarrow> bool \<Rightarrow> u8 list \<Rightarrow> bool" where
  "acc_holds acc swapped cs \<longleftrightarrow>
     unat acc < 65536 \<and> oceq (unat acc) (if swapped then 256 * le_sum cs else le_sum cs)"

lemma acc_holds_0: "acc_holds 0 False []"
  by (simp add: acc_holds_def)

lemma acc_holds_step:
  assumes "acc_holds acc swapped cs" "swapped \<longleftrightarrow> odd (length cs)" "length q < 65536"
  shows "acc_holds (fold32 (acc + ucast (lwip_standard_chksum q))) swapped (cs @ q)"
proof -
  have "unat (acc + ucast (lwip_standard_chksum q)) = unat acc + ocsum (le_sum q)"
    using assms(1,3) ocsum_lt [of "le_sum q"]
    by (simp add: acc_holds_def unat_word_ariths unat_ucast_mod unat_lwip_standard_chksum)
  then have f: "unat (fold32 (acc + ucast (lwip_standard_chksum q))) < 65536"
    "oceq (unat (fold32 (acc + ucast (lwip_standard_chksum q)))) (unat acc + ocsum (le_sum q))"
    using fold32_oceq [of "acc + ucast (lwip_standard_chksum q)"] by simp_all
  have "oceq (unat acc + ocsum (le_sum q)) ((if swapped then 256 * le_sum cs else le_sum cs) + le_sum q)"
    using assms(1) unfolding acc_holds_def by (intro oceq_add oceq_ocsum) simp
  also have "oceq \<dots> (if swapped then 256 * le_sum (cs @ q) else le_sum (cs @ q))"
  proof (cases swapped)
    case True
    have "oceq (256 * le_sum cs + le_sum q) (256 * le_sum cs + 256 * (256 * le_sum q))"
      by (intro oceq_add oceq_refl oceq_sym [OF oceq_65536])
    also have "oceq \<dots> (256 * le_sum (cs @ q))"
      using oceq_mult [OF oceq_sym [OF le_sum_append_odd [of cs q]]] True assms(2)
      by (simp add: distrib_left)
    finally show ?thesis
      using True by simp
  qed (use assms(2) in \<open>simp add: le_sum_append_even\<close>)
  finally show ?thesis
    unfolding acc_holds_def using f oceq_trans by blast
qed

lemma acc_holds_swap: "acc_holds acc swapped cs \<Longrightarrow> acc_holds (swap32 acc) (\<not> swapped) cs"
proof -
  assume h: "acc_holds acc swapped cs"
  then have "unat (swap32 acc) < 65536" "oceq (unat (swap32 acc)) (256 * unat acc)"
    by (simp_all add: acc_holds_def swap32_oceq)
  moreover have "oceq (256 * unat acc) (256 * (if swapped then 256 * le_sum cs else le_sum cs))"
    using h unfolding acc_holds_def by (blast intro: oceq_mult)
  moreover have "oceq (256 * (if swapped then 256 * le_sum cs else le_sum cs))
      (if \<not> swapped then 256 * le_sum cs else le_sum cs)"
    using oceq_65536 [of "le_sum cs"] by simp
  ultimately show ?thesis
    unfolding acc_holds_def by (blast intro: oceq_trans)
qed

lemma length_mod_2: "length q mod 2 \<noteq> 0 \<longleftrightarrow> odd (length q)"
  by presburger

lemma chksum_pseudo_loop_holds:
  assumes "acc_holds acc swapped cs" "swapped \<longleftrightarrow> odd (length cs)" "\<forall>q\<in>set qs. length q < 65536"
  shows "case chksum_pseudo_loop acc swapped qs of (acc', swapped') \<Rightarrow> acc_holds acc' swapped' (cs @ concat qs)"
  using assms
proof (induction acc swapped qs arbitrary: cs rule: chksum_pseudo_loop.induct)
  case (2 acc swapped q qs)
  let ?f = "fold32 (acc + ucast (lwip_standard_chksum q))"
  have "acc_holds ?f swapped (cs @ q)"
    using 2 by (intro acc_holds_step) simp_all
  then show ?case
    using "2.IH" [OF refl, of "cs @ q"] "2.prems" acc_holds_swap [of ?f swapped "cs @ q"]
    unfolding chksum_pseudo_loop.simps Let_def length_mod_2 by (cases "odd (length q)") simp_all
qed simp

lemma chksum_partial_loop_holds:
  assumes "acc_holds acc swapped cs" "swapped \<longleftrightarrow> odd (length cs)" "\<forall>q\<in>set qs. length q < 65536"
  shows "case chksum_partial_loop acc swapped n qs of (acc', swapped') \<Rightarrow>
    acc_holds acc' swapped' (cs @ take n (concat qs))"
  using assms
proof (induction acc swapped n qs arbitrary: cs rule: chksum_partial_loop.induct)
  case (2 acc swapped n q qs)
  show ?case
  proof (cases "n > 0")
    case True
    let ?k = "if length q > n then n else length q"
    let ?f = "fold32 (acc + ucast (lwip_standard_chksum (take ?k q)))"
    have h: "acc_holds ?f swapped (cs @ take ?k q)"
      using 2 by (intro acc_holds_step) simp_all
    then have hs: "acc_holds (swap32 ?f) (\<not> swapped) (cs @ take ?k q)"
      by (rule acc_holds_swap)
    show ?thesis
    proof (cases "length q > n")
      case big: True
      have stop: "chksum_partial_loop a sw 0 qs = (a, sw)" for a sw
        by (cases qs) simp_all
      show ?thesis
        using True big h hs by (simp add: Let_def stop)
    next
      case False
      then show ?thesis
        using True "2.IH" [OF _ refl refl refl, of "cs @ q"] "2.prems" h hs
        unfolding chksum_partial_loop.simps Let_def length_mod_2 by (cases "odd (length q)") simp_all
    qed
  qed (use 2 in simp)
qed simp

lemma unat_finish: "unat acc < 65536 \<Longrightarrow> unat (ucast (NOT (acc AND 0xffff)) :: u16) = 65535 - unat acc"
  for acc :: u32
proof -
  assume a: "unat acc < 65536"
  then have "acc AND 0xffff = acc"
    using unat_and_mask_mod [of acc 16] by (simp add: word_unat_eq_iff mask_eq_exp_minus_1)
  moreover have "(ucast (NOT acc) :: u16) = NOT (ucast acc)"
    by (rule bit_word_eqI) (auto simp: bit_simps)
  ultimately show ?thesis
    using a by (simp add: word_not_unat unat_ucast_mod)
qed

lemma unat_rfc1071: "unat (rfc1071 bs) = 65535 - ocsum (le_sum bs)"
  unfolding rfc1071_def by (rule unat_of_nat_less) simp

lemma rfc1071_finish:
  assumes "unat (acc::u32) < 65536" "oceq (unat acc) (le_sum bs)"
  shows "ucast (NOT (acc AND 0xffff)) = rfc1071 bs"
  unfolding word_unat_eq_iff unat_rfc1071 unat_finish [OF assms(1)] ocsum_eqI [OF assms] ..

definition pseudo_header :: "ip_addr \<Rightarrow> ip_addr \<Rightarrow> u8 \<Rightarrow> u16 \<Rightarrow> u8 list" where
  "pseudo_header src dest proto proto_len =
     mem_bytes32 src @ mem_bytes32 dest @ [0, proto, ucast (drop_bit 8 proto_len), ucast proto_len]"

lemma le_sum_mem_bytes32:
  "le_sum (mem_bytes32 w @ bs) = unat (w AND 0xffff) + unat (drop_bit 16 w AND 0xffff) + le_sum bs"
proof -
  have half: "unat (x AND 0xffff) = unat x mod 256 + 256 * (unat x div 256 mod 256)" for x :: u32
    using unat_and_mask_mod [of x 16] mod_mult2_eq [of "unat x" 256 256]
    by (simp add: mask_eq_exp_minus_1)
  show ?thesis
    unfolding half mem_bytes32_def
    by (simp add: unat_ucast_mod unat_drop_bit_div div_mult2_eq [symmetric])
qed

lemma le_sum_pseudo_header:
  "le_sum (pseudo_header src dest proto proto_len @ cs) =
     unat (src AND 0xffff) + unat (drop_bit 16 src AND 0xffff) + unat (dest AND 0xffff)
     + unat (drop_bit 16 dest AND 0xffff) + unat (htons (ucast proto)) + unat (htons proto_len) + le_sum cs"
proof -
  have "unat proto_len div 256 < 256"
    using unat_lt [of proto_len] by (simp add: less_mult_imp_div_less)
  then show ?thesis
    using unat_u8_le [of proto]
    by (simp add: pseudo_header_def le_sum_mem_bytes32 unat_htons unat_ucast_mod unat_drop_bit_div)
qed

lemma unat_and_ffff: "unat (x AND 0xffff) < 65536" for x :: u32
  using unat_and_mask_mod [of x 16] by (simp add: mask_eq_exp_minus_1)

lemma chksum_pseudo_finish_eq:
  assumes "acc_holds acc swapped cs"
  shows "chksum_pseudo_finish (acc, swapped) src dest proto proto_len
    = rfc1071 (pseudo_header src dest proto proto_len @ cs)"
proof -
  define a where "a = (if swapped then swap32 acc else acc)"
  have a: "unat a < 65536" "oceq (unat a) (le_sum cs)"
    using assms acc_holds_swap [OF assms] unfolding a_def acc_holds_def by (auto split: if_splits)
  define s where "s = a + (src AND 0xffff) + (drop_bit 16 src AND 0xffff) + (dest AND 0xffff)
    + (drop_bit 16 dest AND 0xffff) + ucast (htons (ucast proto)) + ucast (htons proto_len)"
  have lt: "unat (htons x) < 65536" for x
    using unat_lt [of "htons x"] by simp
  have s: "unat s = unat a + unat (src AND 0xffff) + unat (drop_bit 16 src AND 0xffff) + unat (dest AND 0xffff)
    + unat (drop_bit 16 dest AND 0xffff) + unat (htons (ucast proto)) + unat (htons proto_len)"
    unfolding s_def
    using a(1) unat_and_ffff [of src] unat_and_ffff [of "drop_bit 16 src"] unat_and_ffff [of dest]
      unat_and_ffff [of "drop_bit 16 dest"] lt [of "ucast proto"] lt [of proto_len]
    by (simp add: unat_word_ariths unat_ucast_mod)
  have "oceq (unat s) (le_sum (pseudo_header src dest proto proto_len @ cs))"
    using oceq_add [OF a(2) oceq_refl [of "unat (src AND 0xffff) + unat (drop_bit 16 src AND 0xffff)
      + unat (dest AND 0xffff) + unat (drop_bit 16 dest AND 0xffff) + unat (htons (ucast proto))
      + unat (htons proto_len)"]]
    unfolding s le_sum_pseudo_header by (simp add: add_ac)
  then have "oceq (unat (fold32 s)) (le_sum (pseudo_header src dest proto proto_len @ cs))"
    using fold32_oceq [of s] oceq_trans by blast
  then show ?thesis
    using rfc1071_finish [OF conjunct1 [OF fold32_oceq [of s]]]
    unfolding chksum_pseudo_finish_def Let_def prod.case a_def [symmetric] s_def by simp
qed

lemma inet_chksum_eq: "length bs < 65536 \<Longrightarrow> inet_chksum bs = rfc1071 bs"
proof -
  assume "length bs < 65536"
  then have "oceq (unat (ucast (lwip_standard_chksum bs) :: u32)) (le_sum bs)"
    using ocsum_lt [of "le_sum bs"] oceq_ocsum [of "le_sum bs"]
    by (simp add: unat_ucast_mod unat_lwip_standard_chksum)
  then have "oceq (unat (fold32 (ucast (lwip_standard_chksum bs)))) (le_sum bs)"
    using fold32_oceq [of "ucast (lwip_standard_chksum bs)"] oceq_trans by blast
  with fold32_oceq show ?thesis
    unfolding inet_chksum_def Let_def by (intro rfc1071_finish) blast+
qed

lemma chksum_pbuf_loop_even:
  "\<forall>q\<in>set qs. even (length q) \<Longrightarrow> chksum_pbuf_loop acc swapped qs = chksum_pseudo_loop acc swapped qs"
  by (induction acc swapped qs rule: chksum_pseudo_loop.induct) (auto simp: Let_def)

lemma acc_holds_finish:
  assumes "acc_holds acc swapped cs"
  shows "ucast (NOT ((if swapped then swap32 acc else acc) AND 0xffff)) = rfc1071 cs"
  using rfc1071_finish [of acc cs] rfc1071_finish [of "swap32 acc" cs] assms acc_holds_swap [OF assms]
  by (simp add: acc_holds_def split: if_splits)

lemma fold32_small: "drop_bit 16 acc = 0 \<Longrightarrow> fold32 acc = acc"
  by (simp add: fold32.simps)

section \<open>Results\<close>

text \<open>Filling in the checksum, at an even offset, makes the whole verify; so does 0xffff for a checksum of 0.\<close>

lemma rfc1071_fill:
  assumes "even (length pre)" "c = rfc1071 (pre @ [0, 0] @ post)" "c' = c \<or> c = 0 \<and> c' = 0xffff"
  shows "rfc1071 (pre @ [ucast c', ucast (drop_bit 8 c')] @ post) = 0"
proof -
  let ?n = "le_sum pre + le_sum post"
  have c: "unat c = 65535 - ocsum ?n"
    unfolding assms(2) using assms(1) by (simp add: unat_rfc1071 le_sum_append_even)
  have "unat c' div 256 < 256"
    using unat_lt [of c'] by (simp add: less_mult_imp_div_less)
  then have "unat (ucast c' :: u8) + 256 * unat (ucast (drop_bit 8 c') :: u8) = unat c'"
    by (simp add: unat_ucast_mod unat_drop_bit_div)
  then have "le_sum (pre @ [ucast c', ucast (drop_bit 8 c')] @ post) = ?n + unat c'"
    using assms(1) by (simp add: le_sum_append_even)
  moreover have "oceq 65535 (?n + unat c')"
  proof -
    have sum: "oceq (ocsum ?n + unat c') (?n + unat c')"
      by (intro oceq_add oceq_ocsum oceq_refl)
    have "oceq 65535 (ocsum ?n + unat c')"
      using assms(3)
    proof
      assume "c' = c"
      then show ?thesis
        using ocsum_lt [of ?n] c by simp
    next
      assume 0: "c = 0 \<and> c' = 0xffff"
      then have "ocsum ?n = 65535"
        using ocsum_lt [of ?n] c by simp
      with 0 show ?thesis
        by (simp add: oceq_def)
    qed
    with sum show ?thesis
      using oceq_trans by blast
  qed
  ultimately have "ocsum (le_sum (pre @ [ucast c', ucast (drop_bit 8 c')] @ post)) = 65535"
    using ocsum_eqI [of 65535] by simp
  then show ?thesis
    by (simp add: word_unat_eq_iff unat_rfc1071)
qed

lemma inet_chksum_fill:
  assumes "even (length pre)" "length (pre @ [0, 0] @ post) < 65536"
    and "c = inet_chksum (pre @ [0, 0] @ post)"
  shows "inet_chksum (pre @ [ucast c, ucast (drop_bit 8 c)] @ post) = 0"
  using assms rfc1071_fill [of pre c post c] by (simp add: inet_chksum_eq)

lemma inet_chksum_pseudo_eq:
  assumes "\<forall>q\<in>set p. length q < 65536"
  shows "inet_chksum_pseudo p src dest proto proto_len = rfc1071 (pseudo_header src dest proto proto_len @ concat p)"
  using chksum_pseudo_loop_holds [OF acc_holds_0 _ assms] chksum_pseudo_finish_eq
  by (auto simp: inet_chksum_pseudo_def split: prod.splits)

text \<open>C38. The three checksum algorithms of the file agree on every buffer of up to 65535 octets, at
  every alignment, and compute the one's complement sum of its 16-bit words.\<close>

theorem chksum_algorithms_agree:
  assumes "length bs < 65536"
  shows "lwip_standard_chksum2 addr bs = lwip_standard_chksum bs
    \<and> lwip_standard_chksum3 addr bs = lwip_standard_chksum bs
    \<and> unat (lwip_standard_chksum bs) = ocsum (le_sum bs)"
  using assms unat_lwip_standard_chksum2 [of bs addr] unat_lwip_standard_chksum3 [of addr bs]
  by (simp add: word_unat_eq_iff unat_lwip_standard_chksum)

theorem chksum_algorithms_agree_witness:
  "lwip_standard_chksum3 7 [0x45, 0, 0, 0x1c, 0xab] = lwip_standard_chksum [0x45, 0, 0, 0x1c, 0xab]"
  using chksum_algorithms_agree [of "[0x45, 0, 0, 0x1c, 0xab]" 7] by simp

text \<open>C19. The checksum of a TCP or UDP packet held in a pbuf chain is the RFC 1071 checksum of the
  pseudo header followed by all octets of the chain, however the packet is split into pbufs, odd
  lengths included.\<close>

theorem inet_chksum_pseudo_correct:
  assumes "\<forall>q\<in>set p. length q < 65536"
  shows "inet_chksum_pseudo p src dest proto proto_len
    = rfc1071 (pseudo_header src dest proto proto_len @ concat p)"
  using assms by (rule inet_chksum_pseudo_eq)

theorem inet_chksum_pseudo_correct_witness:
  "inet_chksum_pseudo [[1, 2, 3], [4]] 5 6 17 4 = rfc1071 (pseudo_header 5 6 17 4 @ [1, 2, 3, 4])"
  using inet_chksum_pseudo_correct [of "[[1, 2, 3], [4]]"] by simp

text \<open>The partial checksum (UDP-Lite) covers the pseudo header and exactly the first
  \<^verbatim>\<open>chksum_len\<close> octets of the chain.\<close>

theorem inet_chksum_pseudo_partial_correct:
  assumes "\<forall>q\<in>set p. length q < 65536"
  shows "inet_chksum_pseudo_partial p src dest proto proto_len chksum_len
    = rfc1071 (pseudo_header src dest proto proto_len @ take (unat chksum_len) (concat p))"
  using chksum_partial_loop_holds [OF acc_holds_0 _ assms, of "unat chksum_len"] chksum_pseudo_finish_eq
  by (auto simp: inet_chksum_pseudo_partial_def split: prod.splits)

theorem inet_chksum_pseudo_partial_correct_witness:
  "inet_chksum_pseudo_partial [[1, 2, 3], [4, 5]] 5 6 136 5 4
     = rfc1071 (pseudo_header 5 6 136 5 @ [1, 2, 3, 4])"
  using inet_chksum_pseudo_partial_correct [of "[[1, 2, 3], [4, 5]]" 5 6 136 5 4] by simp

text \<open>A header with its checksum filled in verifies: when the two octets of the checksum field,
  at an even offset, are zero while the sum is computed and then receive the result in memory order,
  the checksum over the whole buffer is zero.\<close>

theorem inet_chksum_verifies:
  assumes "even (length pre)" "length (pre @ [0, 0] @ post) < 65536"
    and "c = inet_chksum (pre @ [0, 0] @ post)"
  shows "inet_chksum (pre @ [ucast c, ucast (drop_bit 8 c)] @ post) = 0"
  using assms by (rule inet_chksum_fill)

theorem inet_chksum_verifies_witness:
  "inet_chksum ([1, 2] @ [ucast (inet_chksum [1, 2, 0, 0, 9]), ucast (drop_bit 8 (inet_chksum [1, 2, 0, 0, 9]))] @ [9]) = 0"
  using inet_chksum_verifies [of "[1, 2]" "[9]", OF _ _ refl] by simp

text \<open>\<^verbatim>\<open>inet_chksum_pbuf\<close> is right for chains whose pbufs all have even length, but its
  octet swap is a no-op (the shift binds tighter than the mask): for a chain with an odd pbuf it does
  not return the checksum of the octets.\<close>

theorem inet_chksum_pbuf_odd_lengths:
  "((\<forall>q\<in>set p. even (length q) \<and> length q < 65536) \<longrightarrow> inet_chksum_pbuf p = rfc1071 (concat p))
   \<and> inet_chksum_pbuf [[1], [2]] \<noteq> rfc1071 (concat [[1], [2]])"
proof
  show "(\<forall>q\<in>set p. even (length q) \<and> length q < 65536) \<longrightarrow> inet_chksum_pbuf p = rfc1071 (concat p)"
  proof
    assume p: "\<forall>q\<in>set p. even (length q) \<and> length q < 65536"
    obtain acc swapped where l: "chksum_pseudo_loop 0 False p = (acc, swapped)"
      by (cases "chksum_pseudo_loop 0 False p")
    then have "acc_holds acc swapped (concat p)"
      using chksum_pseudo_loop_holds [OF acc_holds_0, of p] p by simp
    moreover have "chksum_pbuf_loop 0 False p = (acc, swapped)"
      using chksum_pbuf_loop_even [of p] p l by simp
    ultimately show "inet_chksum_pbuf p = rfc1071 (concat p)"
      unfolding inet_chksum_pbuf_def Let_def by (simp only: prod.case acc_holds_finish)
  qed
  have "lwip_standard_chksum [1] = 1" "lwip_standard_chksum [2] = 2"
    by (simp_all add: word_unat_eq_iff unat_lwip_standard_chksum ocsum_def)
  then have "inet_chksum_pbuf [[1], [2]] = 65532"
    by (simp add: inet_chksum_pbuf_def fold32_small)
  moreover have "rfc1071 (concat [[1], [2]]) = 65022"
    by (simp add: rfc1071_def ocsum_def)
  ultimately show "inet_chksum_pbuf [[1], [2]] \<noteq> rfc1071 (concat [[1], [2]])"
    by simp
qed

theorem inet_chksum_pbuf_odd_lengths_witness:
  "inet_chksum_pbuf [[1, 2], [3, 4]] = rfc1071 [1, 2, 3, 4]"
  using inet_chksum_pbuf_odd_lengths [of "[[1, 2], [3, 4]]"] by simp

end
