(* ===== verification/Pbuf.thy ===== *)
theory Pbuf
  imports Prelude "HOL-Library.Monad_Syntax"
begin

text \<open>
  The packet buffers of lwIP, \<^verbatim>\<open>core/pbuf.c\<close>, on an explicit heap.

  A pointer is a number, \<open>NULL\<close> is 0. The heap maps the live pbuf structs by address and the
  payload memory by block: the payload of a RAM or POOL pbuf lies in the block with the address of the
  pbuf itself (the memory right behind the struct), the payload of a ROM or REF pbuf in memory of its
  owner. A payload pointer is a block and an offset, so an offset below 0 is an address inside the
  struct. Allocation may fail (\<open>mem_ok\<close> says which attempts succeed) and hands out new addresses;
  memory that C leaves uninitialised has arbitrary contents (\<open>junk\<close>). \<open>pool_payload\<close> is the room
  behind a struct that \<^verbatim>\<open>memp_malloc(MEMP_PBUF_POOL)\<close> allocates.

  Every operation is in the \<open>option\<close> monad: \<open>None\<close> is an access through a pointer that is not
  live, or a walk along a chain that never ends, for which C defines no result. The theorems show when
  the operations are defined. In this build \<^verbatim>\<open>LWIP_ASSERT\<close> has no effect (it asserts its
  message, a non-null pointer), and \<^verbatim>\<open>LWIP_ERROR\<close> runs its handler; the alignment is 1.
\<close>

unbundle bit_operations_syntax

section \<open>Data\<close>

type_synonym ptr = nat

abbreviation (input) NULL :: ptr where
  "NULL \<equiv> 0"

datatype pbuf_layer = PBUF_TRANSPORT | PBUF_IP | PBUF_LINK | PBUF_RAW

datatype pbuf_type = PBUF_RAM | PBUF_ROM | PBUF_REF | PBUF_POOL

datatype err = ERR_OK | ERR_MEM | ERR_BUF | ERR_RTE | ERR_ABRT | ERR_RST | ERR_CLSD | ERR_CONN
  | ERR_VAL | ERR_ARG | ERR_USE | ERR_IF | ERR_ISCONN | ERR_TIMEOUT | ERR_INPROGRESS

record pbuf =
  p_next :: ptr
  payload :: "ptr \<times> int"
  tot_len :: u16
  p_len :: u16
  p_type :: pbuf_type
  p_flags :: u8
  p_ref :: u16

record heap =
  pbufs :: "ptr \<Rightarrow> pbuf option"
  blocks :: "ptr \<Rightarrow> u8 list option"
  brk :: ptr
  mem_ok :: "ptr \<Rightarrow> bool"
  junk :: "ptr \<Rightarrow> nat \<Rightarrow> u8"
  pool_payload :: nat

definition PBUF_LINK_HLEN :: nat where
  "PBUF_LINK_HLEN = 14"

definition PBUF_POOL_BUFSIZE :: nat where
  "PBUF_POOL_BUFSIZE = 1460 + 40 + PBUF_LINK_HLEN"

section \<open>Memory\<close>

text \<open>A \<^verbatim>\<open>malloc\<close> of a pbuf struct with \<open>n\<close> octets behind it: the new heap and the address,
  or \<open>NULL\<close>.\<close>

definition mem_malloc_pbuf :: "heap \<Rightarrow> nat \<Rightarrow> heap \<times> ptr" where
  "mem_malloc_pbuf h n =
     (let a = brk h; h = h\<lparr>brk := brk h + 1\<rparr>
      in if a \<noteq> NULL \<and> mem_ok h a
         then (h\<lparr>blocks := (blocks h)(a := Some (map (junk h a) [0..<n]))\<rparr>, a)
         else (h, NULL))"

definition mem_free_pbuf :: "heap \<Rightarrow> ptr \<Rightarrow> heap" where
  "mem_free_pbuf h p = h\<lparr>pbufs := (pbufs h)(p := None), blocks := (blocks h)(p := None)\<rparr>"

definition put_pbuf :: "ptr \<Rightarrow> pbuf \<Rightarrow> heap \<Rightarrow> heap" where
  "put_pbuf p pb h = h\<lparr>pbufs := (pbufs h)(p := Some pb)\<rparr>"

text \<open>A ROM or REF pbuf has no payload block of its own.\<close>

definition mem_free_struct :: "heap \<Rightarrow> ptr \<Rightarrow> heap" where
  "mem_free_struct h p = h\<lparr>pbufs := (pbufs h)(p := None)\<rparr>"

definition memp_malloc_pbuf :: "heap \<Rightarrow> heap \<times> ptr" where
  "memp_malloc_pbuf h =
     (let a = brk h; h = h\<lparr>brk := brk h + 1\<rparr>
      in if a \<noteq> NULL \<and> mem_ok h a then (h, a) else (h, NULL))"

section \<open>Reference counts\<close>

text \<open>The deallocation inside \<^verbatim>\<open>pbuf_free\<close>, by type.\<close>

definition pbuf_dealloc :: "heap \<Rightarrow> ptr \<Rightarrow> pbuf_type \<Rightarrow> heap" where
  "pbuf_dealloc h p type =
     (if type = PBUF_POOL then mem_free_pbuf h p
      else if type = PBUF_ROM \<or> type = PBUF_REF then mem_free_struct h p
      else mem_free_pbuf h p)"

text \<open>The loop of \<^verbatim>\<open>pbuf_free\<close> with its counter.\<close>

partial_function (option) pbuf_free_loop :: "heap \<Rightarrow> ptr \<Rightarrow> u8 \<Rightarrow> (heap \<times> u8) option" where
  "pbuf_free_loop h p count =
     (if p = NULL then Some (h, count)
      else do {
        pb \<leftarrow> pbufs h p;
        let ref = p_ref pb - 1;
        if ref = 0
        then pbuf_free_loop (pbuf_dealloc h p (p_type pb)) (p_next pb) (count + 1)
        else Some (put_pbuf p (pb\<lparr>p_ref := ref\<rparr>) h, count)
      })"

declare pbuf_free_loop.simps [code]

definition pbuf_free :: "heap \<Rightarrow> ptr \<Rightarrow> (heap \<times> u8) option" where
  "pbuf_free h p = (if p = NULL then Some (h, 0) else pbuf_free_loop h p 0)"

definition pbuf_ref :: "heap \<Rightarrow> ptr \<Rightarrow> heap option" where
  "pbuf_ref h p =
     (if p \<noteq> NULL
      then do { pb \<leftarrow> pbufs h p; Some (put_pbuf p (pb\<lparr>p_ref := p_ref pb + 1\<rparr>) h) }
      else Some h)"

section \<open>Allocation\<close>

definition pbuf_offset :: "pbuf_layer \<Rightarrow> nat" where
  "pbuf_offset l =
     (case l of
        PBUF_TRANSPORT \<Rightarrow> 20 + 20 + PBUF_LINK_HLEN
      | PBUF_IP \<Rightarrow> 20 + PBUF_LINK_HLEN
      | PBUF_LINK \<Rightarrow> PBUF_LINK_HLEN
      | PBUF_RAW \<Rightarrow> 0)"

text \<open>The loop that allocates the rest of a pool chain: \<open>p\<close> is the first pbuf, \<open>r\<close> the last
  one, \<open>rem_len\<close> what is missing.\<close>

function pbuf_alloc_pool_tail :: "heap \<Rightarrow> ptr \<Rightarrow> ptr \<Rightarrow> nat \<Rightarrow> (heap \<times> ptr) option" where
  "pbuf_alloc_pool_tail h p r rem_len =
     (if rem_len > 0
      then let (h, q) = mem_malloc_pbuf h (pool_payload h)
           in if q = NULL
              then do { (h, _) \<leftarrow> pbuf_free h p; Some (h, NULL) }
              else do {
                rb \<leftarrow> pbufs h r;
                let len = min rem_len PBUF_POOL_BUFSIZE;
                let h = put_pbuf r (rb\<lparr>p_next := q\<rparr>) h;
                let h = put_pbuf q \<lparr>p_next = NULL, payload = (q, 0), tot_len = of_nat rem_len,
                                    p_len = of_nat len, p_type = PBUF_POOL, p_flags = 0, p_ref = 1\<rparr> h;
                pbuf_alloc_pool_tail h p q (rem_len - len)
              }
      else Some (h, p))"
  by pat_completeness auto
termination
  by (relation "measure (\<lambda>(h, p, r, n). n)") (auto simp: PBUF_POOL_BUFSIZE_def)

definition pbuf_alloc :: "heap \<Rightarrow> pbuf_layer \<Rightarrow> u16 \<Rightarrow> pbuf_type \<Rightarrow> (heap \<times> ptr) option" where
  "pbuf_alloc h l len0 type =
     (let offset = pbuf_offset l
      in case type of
           PBUF_POOL \<Rightarrow>
             (let (h, p) = mem_malloc_pbuf h (pool_payload h)
              in if p = NULL then Some (h, NULL)
                 else let len = min (unat len0) (PBUF_POOL_BUFSIZE - offset);
                          h = put_pbuf p \<lparr>p_next = NULL, payload = (p, int offset), tot_len = len0,
                                          p_len = of_nat len, p_type = type, p_flags = 0, p_ref = 1\<rparr> h
                      in pbuf_alloc_pool_tail h p p (unat len0 - len))
         | PBUF_RAM \<Rightarrow>
             (let (h, p) = mem_malloc_pbuf h (offset + unat len0)
              in if p = NULL then Some (h, NULL)
                 else Some (put_pbuf p \<lparr>p_next = NULL, payload = (p, int offset), tot_len = len0,
                                        p_len = len0, p_type = type, p_flags = 0, p_ref = 1\<rparr> h, p))
         | _ \<Rightarrow>
             (let (h, p) = memp_malloc_pbuf h
              in if p = NULL then Some (h, NULL)
                 else Some (put_pbuf p \<lparr>p_next = NULL, payload = (NULL, 0), tot_len = len0,
                                        p_len = len0, p_type = type, p_flags = 0, p_ref = 1\<rparr> h, p)))"

section \<open>Lengths\<close>

text \<open>The loop of \<^verbatim>\<open>pbuf_realloc\<close> over the pbufs that stay: the new last pbuf and its length.\<close>

partial_function (option) pbuf_realloc_loop ::
    "heap \<Rightarrow> ptr \<Rightarrow> u16 \<Rightarrow> u16 \<Rightarrow> (heap \<times> ptr \<times> u16) option" where
  "pbuf_realloc_loop h q rem_len grow =
     do {
       qb \<leftarrow> pbufs h q;
       if rem_len > p_len qb
       then pbuf_realloc_loop (put_pbuf q (qb\<lparr>tot_len := tot_len qb + grow\<rparr>) h) (p_next qb)
              (rem_len - p_len qb) grow
       else Some (h, q, rem_len)
     }"

declare pbuf_realloc_loop.simps [code]

definition pbuf_realloc :: "heap \<Rightarrow> ptr \<Rightarrow> u16 \<Rightarrow> heap option" where
  "pbuf_realloc h p new_len =
     do {
       pb \<leftarrow> pbufs h p;
       if new_len \<ge> tot_len pb then Some h
       else do {
         let grow = new_len - tot_len pb;
         (h, q, rem_len) \<leftarrow> pbuf_realloc_loop h p new_len grow;
         qb \<leftarrow> pbufs h q;
         let h = put_pbuf q (qb\<lparr>p_len := rem_len, tot_len := rem_len\<rparr>) h;
         h \<leftarrow> (if p_next qb \<noteq> NULL then do { (h, _) \<leftarrow> pbuf_free h (p_next qb); Some h } else Some h);
         qb \<leftarrow> pbufs h q;
         Some (put_pbuf q (qb\<lparr>p_next := NULL\<rparr>) h)
       }
     }"

text \<open>\<^verbatim>\<open>pbuf_header\<close>: the increment is a 16-bit signed number; the result is the return value
  (\<open>True\<close> is failure).\<close>

definition pbuf_header :: "heap \<Rightarrow> ptr \<Rightarrow> u16 \<Rightarrow> (heap \<times> bool) option" where
  "pbuf_header h p header_size_increment =
     (if header_size_increment = 0 \<or> p = NULL then Some (h, False)
      else do {
        pb \<leftarrow> pbufs h p;
        let inc = sint header_size_increment;
        let increment_magnitude = (if inc < 0 then - header_size_increment else header_size_increment);
        if inc < 0 \<and> \<not> increment_magnitude \<le> p_len pb then Some (h, True)
        else do {
          let (b, off) = payload pb;
          let fail = (if p_type pb = PBUF_RAM \<or> p_type pb = PBUF_POOL then off - inc < 0
                      else \<not> (inc < 0 \<and> increment_magnitude \<le> p_len pb));
          if fail then Some (h, True)
          else Some (put_pbuf p (pb\<lparr>payload := (b, off - inc),
                                    p_len := p_len pb + header_size_increment,
                                    tot_len := tot_len pb + header_size_increment\<rparr>) h, False)
        }
      })"

section \<open>Chains\<close>

partial_function (option) pbuf_clen :: "heap \<Rightarrow> ptr \<Rightarrow> u8 option" where
  "pbuf_clen h p =
     (if p = NULL then Some 0
      else do { pb \<leftarrow> pbufs h p; n \<leftarrow> pbuf_clen h (p_next pb); Some (n + 1) })"

declare pbuf_clen.simps [code]

text \<open>The loop of \<^verbatim>\<open>pbuf_cat\<close>; the length of the tail is read again in every step.\<close>

partial_function (option) pbuf_cat_loop :: "heap \<Rightarrow> ptr \<Rightarrow> ptr \<Rightarrow> (heap \<times> ptr) option" where
  "pbuf_cat_loop h p t =
     do {
       pb \<leftarrow> pbufs h p;
       if p_next pb \<noteq> NULL
       then do {
         tb \<leftarrow> pbufs h t;
         pbuf_cat_loop (put_pbuf p (pb\<lparr>tot_len := tot_len pb + tot_len tb\<rparr>) h) (p_next pb) t
       }
       else Some (h, p)
     }"

declare pbuf_cat_loop.simps [code]

definition pbuf_cat :: "heap \<Rightarrow> ptr \<Rightarrow> ptr \<Rightarrow> heap option" where
  "pbuf_cat h hp t =
     (if hp = NULL \<or> t = NULL then Some h
      else do {
        (h, p) \<leftarrow> pbuf_cat_loop h hp t;
        tb \<leftarrow> pbufs h t;
        pb \<leftarrow> pbufs h p;
        Some (put_pbuf p (pb\<lparr>tot_len := tot_len pb + tot_len tb, p_next := t\<rparr>) h)
      })"

definition pbuf_chain :: "heap \<Rightarrow> ptr \<Rightarrow> ptr \<Rightarrow> heap option" where
  "pbuf_chain h hp t = do { h \<leftarrow> pbuf_cat h hp t; pbuf_ref h t }"

definition pbuf_dechain :: "heap \<Rightarrow> ptr \<Rightarrow> (heap \<times> ptr) option" where
  "pbuf_dechain h p =
     do {
       pb \<leftarrow> pbufs h p;
       let q = p_next pb;
       if q \<noteq> NULL
       then do {
         qb \<leftarrow> pbufs h q;
         let h = put_pbuf q (qb\<lparr>tot_len := tot_len pb - p_len pb\<rparr>) h;
         pb \<leftarrow> pbufs h p;
         let h = put_pbuf p (pb\<lparr>p_next := NULL, tot_len := p_len pb\<rparr>) h;
         (h, tail_gone) \<leftarrow> pbuf_free h q;
         Some (h, if tail_gone > 0 then NULL else q)
       }
       else Some (h, NULL)
     }"

section \<open>Copying\<close>

text \<open>Reading and writing payload memory.\<close>

definition mem_read :: "heap \<Rightarrow> ptr \<times> int \<Rightarrow> nat \<Rightarrow> u8 list option" where
  "mem_read h a n =
     (if n = 0 then Some []
      else do {
        bs \<leftarrow> blocks h (fst a);
        if 0 \<le> snd a \<and> nat (snd a) + n \<le> length bs then Some (take n (drop (nat (snd a)) bs)) else None
      })"

definition mem_write :: "heap \<Rightarrow> ptr \<times> int \<Rightarrow> u8 list \<Rightarrow> heap option" where
  "mem_write h a ws =
     (if ws = [] then Some h
      else do {
        bs \<leftarrow> blocks h (fst a);
        let i = nat (snd a);
        if 0 \<le> snd a \<and> i + length ws \<le> length bs
        then Some (h\<lparr>blocks := (blocks h)(fst a := Some (take i bs @ ws @ drop (i + length ws) bs))\<rparr>)
        else None
      })"

definition ptr_add :: "ptr \<times> int \<Rightarrow> nat \<Rightarrow> ptr \<times> int" where
  "ptr_add a n = (fst a, snd a + int n)"

partial_function (option) pbuf_copy_loop ::
    "heap \<Rightarrow> ptr \<Rightarrow> ptr \<Rightarrow> u16 \<Rightarrow> u16 \<Rightarrow> (heap \<times> err) option" where
  "pbuf_copy_loop h p_to p_from offset_to offset_from =
     do {
       tb \<leftarrow> pbufs h p_to;
       fb \<leftarrow> pbufs h p_from;
       let len = (if int (unat (p_len tb)) - int (unat offset_to)
                     \<ge> int (unat (p_len fb)) - int (unat offset_from)
                  then p_len fb - offset_from else p_len tb - offset_to);
       ws \<leftarrow> mem_read h (ptr_add (payload fb) (unat offset_from)) (unat len);
       h \<leftarrow> mem_write h (ptr_add (payload tb) (unat offset_to)) ws;
       let offset_to = offset_to + len;
       let offset_from = offset_from + len;
       let (offset_to, p_to) = (if offset_to = p_len tb then (0, p_next tb) else (offset_to, p_to));
       let (offset_from, p_from) =
         (if offset_from \<ge> p_len fb then (0, p_next fb) else (offset_from, p_from));
       queue_from \<leftarrow> (if p_from \<noteq> NULL
         then do { fb \<leftarrow> pbufs h p_from; Some (p_len fb = tot_len fb \<and> p_next fb \<noteq> NULL) }
         else Some False);
       if queue_from then Some (h, ERR_VAL)
       else do {
         queue_to \<leftarrow> (if p_to \<noteq> NULL
           then do { tb \<leftarrow> pbufs h p_to; Some (p_len tb = tot_len tb \<and> p_next tb \<noteq> NULL) }
           else Some False);
         if queue_to then Some (h, ERR_VAL)
         else if p_from \<noteq> NULL then pbuf_copy_loop h p_to p_from offset_to offset_from
         else Some (h, ERR_OK)
       }
     }"

declare pbuf_copy_loop.simps [code]

definition pbuf_copy :: "heap \<Rightarrow> ptr \<Rightarrow> ptr \<Rightarrow> (heap \<times> err) option" where
  "pbuf_copy h p_to p_from =
     (if p_to = NULL \<or> p_from = NULL then Some (h, ERR_ARG)
      else do {
        tb \<leftarrow> pbufs h p_to;
        fb \<leftarrow> pbufs h p_from;
        if tot_len tb \<ge> tot_len fb then pbuf_copy_loop h p_to p_from 0 0 else Some (h, ERR_ARG)
      })"

text \<open>\<^verbatim>\<open>pbuf_copy_partial\<close> with the octets written to the application's buffer as its result;
  the length of the list is the return value.\<close>

partial_function (option) pbuf_copy_partial :: "heap \<Rightarrow> ptr \<Rightarrow> u16 \<Rightarrow> u16 \<Rightarrow> u8 list option" where
  "pbuf_copy_partial h p len offset =
     (if len \<noteq> 0 \<and> p \<noteq> NULL
      then do {
        pb \<leftarrow> pbufs h p;
        if offset \<noteq> 0 \<and> offset \<ge> p_len pb
        then pbuf_copy_partial h (p_next pb) len (offset - p_len pb)
        else do {
          let buf_copy_len = p_len pb - offset;
          let buf_copy_len = (if buf_copy_len > len then len else buf_copy_len);
          ws \<leftarrow> mem_read h (ptr_add (payload pb) (unat offset)) (unat buf_copy_len);
          rest \<leftarrow> pbuf_copy_partial h (p_next pb) (len - buf_copy_len) 0;
          Some (ws @ rest)
        }
      }
      else Some [])"

declare pbuf_copy_partial.simps [code]

end
