(* ===== verification/Pbuf_Chains.thy ===== *)
theory Pbuf_Chains
  imports Pbuf
begin

text \<open>
  What the pbuf operations of theory \<open>Pbuf\<close> do to chains. \<open>chain h p qs\<close> says that the pbufs
  linked from \<open>p\<close> are live and are \<open>qs\<close>; \<open>packet\<close> adds the invariant that
  \<^verbatim>\<open>pbuf.h\<close> documents for \<^verbatim>\<open>tot_len\<close>; \<open>chain_data\<close> is the contents. Each operation is
  shown to be defined on chains, to keep the invariant and to have the documented effect on the
  contents and the reference counts.
\<close>

unbundle bit_operations_syntax

section \<open>Chains of live pbufs\<close>

fun chain :: "heap \<Rightarrow> ptr \<Rightarrow> ptr list \<Rightarrow> bool" where
  "chain h p [] \<longleftrightarrow> p = NULL"
| "chain h p (q # qs) \<longleftrightarrow>
     p = q \<and> q \<noteq> NULL \<and> (case pbufs h q of None \<Rightarrow> False | Some pb \<Rightarrow> chain h (p_next pb) qs)"

text \<open>The pbuf at a live address.\<close>

abbreviation pb :: "heap \<Rightarrow> ptr \<Rightarrow> pbuf" where
  "pb h p \<equiv> the (pbufs h p)"

definition lens :: "heap \<Rightarrow> ptr list \<Rightarrow> nat" where
  "lens h qs = sum_list (map (\<lambda>q. unat (p_len (pb h q))) qs)"

text \<open>The documented invariant of \<^verbatim>\<open>tot_len\<close>: the length of this pbuf and all that follow.\<close>

fun tot_lens_ok :: "heap \<Rightarrow> ptr list \<Rightarrow> bool" where
  "tot_lens_ok h [] = True"
| "tot_lens_ok h (q # qs) \<longleftrightarrow> unat (tot_len (pb h q)) = lens h (q # qs) \<and> tot_lens_ok h qs"

definition packet :: "heap \<Rightarrow> ptr \<Rightarrow> ptr list \<Rightarrow> bool" where
  "packet h p qs \<longleftrightarrow> chain h p qs \<and> tot_lens_ok h qs"

lemma lens_Cons [simp]: "lens h (q # qs) = unat (p_len (pb h q)) + lens h qs" "lens h [] = 0"
  by (simp_all add: lens_def)

lemma chain_Cons: "chain h p (q # qs) \<longleftrightarrow>
    p = q \<and> q \<noteq> NULL \<and> (\<exists>b. pbufs h q = Some b \<and> chain h (p_next b) qs)"
  by (simp split: option.splits)

declare chain.simps(2) [simp del] and chain_Cons [simp]

lemma chain_Null [simp]: "chain h NULL qs \<longleftrightarrow> qs = []"
  by (cases qs) auto

lemma chain_live: "chain h p qs \<Longrightarrow> q \<in> set qs \<Longrightarrow> q \<noteq> NULL \<and> (\<exists>b. pbufs h q = Some b)"
  by (induction qs arbitrary: p) auto

lemma chain_unique: "chain h p qs \<Longrightarrow> chain h p rs \<Longrightarrow> qs = rs"
proof (induction qs arbitrary: p rs)
  case (Cons q qs)
  then show ?case by (cases rs) auto
qed auto

lemma chain_suffix: "chain h p (xs @ q # qs) \<Longrightarrow> chain h q (q # qs)"
  by (induction xs arbitrary: p) auto

lemma chain_distinct: "chain h p qs \<Longrightarrow> distinct qs"
proof (induction qs arbitrary: p)
  case (Cons q qs)
  then obtain b where b: "pbufs h q = Some b" "chain h (p_next b) qs"
    by auto
  have "q \<notin> set qs"
  proof
    assume "q \<in> set qs"
    then obtain xs ys where "qs = xs @ q # ys"
      by (meson split_list)
    then have "chain h q (q # ys)" "chain h q (q # qs)"
      using Cons.prems b chain_suffix [of h "p_next b" xs q ys] by auto
    then have "q # ys = q # qs"
      by (rule chain_unique)
    with \<open>qs = xs @ q # ys\<close> show False by simp
  qed
  with Cons b show ?case by auto
qed simp

lemma pbufs_put [simp]: "pbufs (put_pbuf p b h) = (pbufs h)(p := Some b)"
  by (simp add: put_pbuf_def)

lemma heap_put [simp]: "blocks (put_pbuf p b h) = blocks h" "brk (put_pbuf p b h) = brk h"
  "mem_ok (put_pbuf p b h) = mem_ok h" "junk (put_pbuf p b h) = junk h"
  "pool_payload (put_pbuf p b h) = pool_payload h"
  by (simp_all add: put_pbuf_def)

lemma chain_cong: "(\<And>q. q \<in> set qs \<Longrightarrow> pbufs h' q = pbufs h q) \<Longrightarrow> chain h' p qs = chain h p qs"
  by (induction qs arbitrary: p) auto

lemma lens_cong: "(\<And>q. q \<in> set qs \<Longrightarrow> pbufs h' q = pbufs h q) \<Longrightarrow> lens h' qs = lens h qs"
  by (induction qs) auto

lemma tot_lens_ok_cong: "(\<And>q. q \<in> set qs \<Longrightarrow> pbufs h' q = pbufs h q) \<Longrightarrow> tot_lens_ok h' qs = tot_lens_ok h qs"
proof (induction qs)
  case (Cons q qs)
  have "lens h' (q # qs) = lens h (q # qs)"
    using Cons.prems by (rule lens_cong)
  moreover have "tot_lens_ok h' qs = tot_lens_ok h qs" "pbufs h' q = pbufs h q"
    using Cons by simp_all
  ultimately show ?case
    by (simp only: tot_lens_ok.simps)
qed simp

lemma packet_cong: "(\<And>q. q \<in> set qs \<Longrightarrow> pbufs h' q = pbufs h q) \<Longrightarrow> packet h' p qs = packet h p qs"
  unfolding packet_def using chain_cong [of qs h' h p] tot_lens_ok_cong [of qs h' h] by simp

lemma packet_Cons:
  "packet h p (q # qs) \<longleftrightarrow> p = q \<and> q \<noteq> NULL \<and>
     (\<exists>b. pbufs h q = Some b \<and> packet h (p_next b) qs \<and> unat (tot_len b) = unat (p_len b) + lens h qs)"
  by (auto simp: packet_def)

lemma packet_Nil [simp]: "packet h p [] \<longleftrightarrow> p = NULL"
  by (simp add: packet_def)

lemma packet_lens: "packet h p (q # qs) \<Longrightarrow> lens h (q # qs) < 65536"
  using unat_lt [of "tot_len (pb h q)"] by (auto simp: packet_Cons)

section \<open>Freeing\<close>

definition unref_prefix :: "heap \<Rightarrow> ptr list \<Rightarrow> ptr list" where
  "unref_prefix h qs = takeWhile (\<lambda>q. p_ref (pb h q) = 1) qs"

text \<open>The heap after the first pbufs of a chain are gone and the next one lost a reference.\<close>

definition release :: "heap \<Rightarrow> ptr list \<Rightarrow> heap \<Rightarrow> bool" where
  "release h qs h' \<longleftrightarrow>
     (let gone = unref_prefix h qs; rest = drop (length gone) qs in
        pbufs h' = (\<lambda>q. if q \<in> set gone then None
                     else if rest \<noteq> [] \<and> q = hd rest
                     then map_option (\<lambda>b. b\<lparr>p_ref := p_ref b - 1\<rparr>) (pbufs h q)
                     else pbufs h q)
        \<and> blocks h' = (\<lambda>a. if a \<in> set gone \<and> p_type (pb h a) \<in> {PBUF_RAM, PBUF_POOL} then None else blocks h a)
        \<and> brk h' = brk h \<and> mem_ok h' = mem_ok h \<and> junk h' = junk h \<and> pool_payload h' = pool_payload h)"

lemma dealloc_heap:
  "pbufs (pbuf_dealloc h q t) = (pbufs h)(q := None)"
  "blocks (pbuf_dealloc h q t) = (if t \<in> {PBUF_RAM, PBUF_POOL} then (blocks h)(q := None) else blocks h)"
  "brk (pbuf_dealloc h q t) = brk h" "mem_ok (pbuf_dealloc h q t) = mem_ok h"
  "junk (pbuf_dealloc h q t) = junk h" "pool_payload (pbuf_dealloc h q t) = pool_payload h"
  by (cases t; simp add: pbuf_dealloc_def mem_free_struct_def mem_free_pbuf_def)+

lemma pbuf_free_loop_chain:
  assumes "chain h p qs"
  shows "\<exists>h'. pbuf_free_loop h p c = Some (h', c + of_nat (length (unref_prefix h qs))) \<and> release h qs h'"
  using assms
proof (induction qs arbitrary: h p c)
  case Nil
  then show ?case
    by (subst pbuf_free_loop.simps) (simp add: release_def unref_prefix_def)
next
  case (Cons q qs)
  then obtain b where b: "p = q" "q \<noteq> NULL" "pbufs h q = Some b" "chain h (p_next b) qs"
    by auto
  have dist: "q \<notin> set qs"
    using chain_distinct [OF Cons.prems] by simp
  show ?case
  proof (cases "p_ref b = 1")
    case False
    then have "pbuf_free_loop h p c = Some (put_pbuf q (b\<lparr>p_ref := p_ref b - 1\<rparr>) h, c)"
      using b by (subst pbuf_free_loop.simps) simp
    then show ?thesis
      using b False by (simp add: release_def unref_prefix_def put_pbuf_def fun_eq_iff)
  next
    case True
    let ?h = "pbuf_dealloc h q (p_type b)"
    have same: "pbufs ?h x = pbufs h x" if "x \<noteq> q" for x
      using that by (simp add: dealloc_heap)
    have "chain ?h (p_next b) qs"
      using b(4) dist same chain_cong [of qs ?h h "p_next b"] by metis
    from Cons.IH [OF this, of "c + 1"] obtain h' where
      h': "pbuf_free_loop ?h (p_next b) (c + 1) = Some (h', c + 1 + of_nat (length (unref_prefix ?h qs)))"
        "release ?h qs h'" by blast
    have u: "unref_prefix ?h qs = unref_prefix h qs"
      unfolding unref_prefix_def using same dist by (intro takeWhile_cong) (metis)+
    have p: "unref_prefix h (q # qs) = q # unref_prefix h qs"
      using True b by (simp add: unref_prefix_def)
    have "pbuf_free_loop h p c = Some (h', c + of_nat (length (unref_prefix h (q # qs))))"
      using b True h'(1) by (subst pbuf_free_loop.simps) (simp add: u p)
    moreover have "release h (q # qs) h'"
    proof -
      have "set (unref_prefix h qs) \<subseteq> set qs"
        unfolding unref_prefix_def by (meson set_takeWhileD subsetI)
      then have "x \<noteq> q" if "x \<in> set (unref_prefix h qs)" for x
        using that dist by auto
      then show ?thesis
        using h'(2) dist b \<open>set (unref_prefix h qs) \<subseteq> set qs\<close>
        by (auto simp: release_def u p Let_def dealloc_heap fun_eq_iff dest: in_set_dropD hd_in_set
            split: if_splits)
    qed
    ultimately show ?thesis by blast
  qed
qed

section \<open>Contents\<close>

definition pbuf_data :: "heap \<Rightarrow> ptr \<Rightarrow> u8 list option" where
  "pbuf_data h q = mem_read h (payload (pb h q)) (unat (p_len (pb h q)))"

fun chain_data :: "heap \<Rightarrow> ptr list \<Rightarrow> u8 list option" where
  "chain_data h [] = Some []"
| "chain_data h (q # qs) = do { a \<leftarrow> pbuf_data h q; b \<leftarrow> chain_data h qs; Some (a @ b) }"

lemma mem_read_length: "mem_read h a n = Some bs \<Longrightarrow> length bs = n"
  by (auto simp: mem_read_def split: if_splits bind_splits)

lemma mem_read_sub:
  assumes "mem_read h a n = Some bs" "i + k \<le> n"
  shows "mem_read h (ptr_add a i) k = Some (take k (drop i bs))"
proof (cases "n = 0")
  case True
  then show ?thesis
    using assms by (simp add: mem_read_def)
next
  case False
  then obtain m where m: "blocks h (fst a) = Some m" "0 \<le> snd a" "nat (snd a) + n \<le> length m"
    "bs = take n (drop (nat (snd a)) m)"
    using assms(1) by (auto simp: mem_read_def split: if_splits bind_splits)
  have "nat (snd a + int i) = i + nat (snd a)"
    using m(2) by simp
  then show ?thesis
    using m assms(2) by (auto simp: mem_read_def ptr_add_def take_drop min_def add_ac)
qed

lemma mem_read_put [simp]: "mem_read (put_pbuf p b h) a n = mem_read h a n"
  by (simp add: mem_read_def)

lemma chain_data_Cons:
  "chain_data h (q # qs) = Some bs \<longleftrightarrow> (\<exists>a b. pbuf_data h q = Some a \<and> chain_data h qs = Some b \<and> bs = a @ b)"
  by (auto split: bind_splits)

declare chain_data.simps(2) [simp del] and chain_data_Cons [simp]

lemma chain_data_length: "chain_data h qs = Some bs \<Longrightarrow> length bs = lens h qs"
  by (induction qs arbitrary: bs) (auto simp: pbuf_data_def dest: mem_read_length)

lemma chain_data_append:
  "chain_data h (qs @ rs) = Some bs \<longleftrightarrow> (\<exists>a b. chain_data h qs = Some a \<and> chain_data h rs = Some b \<and> bs = a @ b)"
  by (induction qs arbitrary: bs) auto

lemma copy_partial_chain:
  assumes "chain h p qs" "chain_data h qs = Some bs"
  shows "pbuf_copy_partial h p len offset = Some (take (unat len) (drop (unat offset) bs))"
  using assms
proof (induction qs arbitrary: p len offset bs)
  case Nil
  then show ?case
    by (subst pbuf_copy_partial.simps) simp
next
  case (Cons q qs)
  obtain b where b: "p = q" "q \<noteq> NULL" "pbufs h q = Some b" "chain h (p_next b) qs"
    using Cons.prems(1) by auto
  obtain d r where d: "pbuf_data h q = Some d" "chain_data h qs = Some r" "bs = d @ r"
    using Cons.prems(2) by auto
  have len_d: "length d = unat (p_len b)" and read: "mem_read h (payload b) (unat (p_len b)) = Some d"
    using d(1) b(3) mem_read_length by (auto simp: pbuf_data_def)
  note IH = Cons.IH [OF b(4) d(2)]
  consider (zero) "len = 0" | (skip) "len \<noteq> 0" "offset \<noteq> 0" "p_len b \<le> offset"
    | (copy) "len \<noteq> 0" "offset = 0 \<or> offset < p_len b"
    by fastforce
  then show ?case
  proof cases
    case zero
    then show ?thesis
      by (subst pbuf_copy_partial.simps) simp
  next
    case skip
    then have "unat (offset - p_len b) = unat offset - length d"
      by (simp add: len_d unat_sub)
    then show ?thesis
      using b skip IH [of len "offset - p_len b"] d(3) len_d
      by (subst pbuf_copy_partial.simps) (simp add: word_le_nat_alt)
  next
    case copy
    have off: "unat offset \<le> length d"
      using copy(2) by (auto simp: len_d word_less_nat_alt)
    then have sub: "unat (p_len b - offset) = length d - unat offset"
      by (simp add: len_d unat_sub word_le_nat_alt)
    define k where "k = (if p_len b - offset > len then len else p_len b - offset)"
    have k: "unat k = min (unat len) (length d - unat offset)"
      unfolding k_def by (auto simp: sub word_less_nat_alt)
    have rd: "mem_read h (ptr_add (payload b) (unat offset)) (unat k) = Some (take (unat k) (drop (unat offset) d))"
      by (rule mem_read_sub [OF read]) (use k off len_d in linarith)
    have lk: "unat (len - k) = unat len - unat k"
      using k by (simp add: unat_sub word_le_nat_alt)
    have "pbuf_copy_partial h p len offset = Some (take (unat k) (drop (unat offset) d) @ take (unat (len - k)) r)"
      using b copy IH [of "len - k" 0] rd
      by (subst pbuf_copy_partial.simps) (auto simp: k_def [symmetric] not_le Let_def)
    also have "take (unat k) (drop (unat offset) d) @ take (unat (len - k)) r = take (unat len) (drop (unat offset) bs)"
      unfolding d(3) lk k using off by (simp add: min_def)
    finally show ?thesis .
  qed
qed

section \<open>Concatenation\<close>

text \<open>Adding to the total lengths of some pbufs.\<close>

definition bump :: "u16 \<Rightarrow> ptr list \<Rightarrow> heap \<Rightarrow> heap" where
  "bump n qs h = h\<lparr>pbufs := (\<lambda>q. if q \<in> set qs then map_option (\<lambda>b. b\<lparr>tot_len := tot_len b + n\<rparr>) (pbufs h q)
                              else pbufs h q)\<rparr>"

lemma bump_heap [simp]: "blocks (bump n qs h) = blocks h" "brk (bump n qs h) = brk h"
  "mem_ok (bump n qs h) = mem_ok h" "junk (bump n qs h) = junk h" "pool_payload (bump n qs h) = pool_payload h"
  by (simp_all add: bump_def)

lemma bump_Nil [simp]: "bump n [] h = h"
  by (simp add: bump_def)

lemma bump_Cons: "pbufs h q = Some b \<Longrightarrow> q \<notin> set qs \<Longrightarrow>
    bump n qs (put_pbuf q (b\<lparr>tot_len := tot_len b + n\<rparr>) h) = bump n (q # qs) h"
  by (auto simp: bump_def put_pbuf_def fun_eq_iff)

lemma cat_loop_chain:
  assumes "chain h p (qs @ [l])" "t \<notin> set (qs @ [l])" "pbufs h t = Some tb"
  shows "pbuf_cat_loop h p t = Some (bump (tot_len tb) qs h, l)"
  using assms
proof (induction qs arbitrary: h p)
  case Nil
  then show ?case
    by (subst pbuf_cat_loop.simps) auto
next
  case (Cons q qs)
  obtain b where b: "p = q" "q \<noteq> NULL" "pbufs h q = Some b" "chain h (p_next b) (qs @ [l])"
    using Cons.prems(1) by auto
  have dist: "q \<notin> set (qs @ [l])"
    using chain_distinct [OF Cons.prems(1)] by simp
  let ?h = "put_pbuf q (b\<lparr>tot_len := tot_len b + tot_len tb\<rparr>) h"
  have "chain ?h (p_next b) (qs @ [l])"
    using b(4) dist by (subst chain_cong [of _ _ h]) auto
  then have "pbuf_cat_loop ?h (p_next b) t = Some (bump (tot_len tb) qs ?h, l)"
    using Cons.prems by (intro Cons.IH) auto
  moreover have "p_next b \<noteq> NULL"
    using b(4) by (cases qs) auto
  ultimately show ?case
    using b Cons.prems dist by (subst pbuf_cat_loop.simps) (simp add: bump_Cons)
qed

text \<open>The heap that \<^verbatim>\<open>pbuf_cat\<close> leaves.\<close>

definition linked :: "heap \<Rightarrow> ptr list \<Rightarrow> ptr \<Rightarrow> heap" where
  "linked h qs t = h\<lparr>pbufs := (\<lambda>q. if q \<in> set qs
     then map_option (\<lambda>b. b\<lparr>tot_len := tot_len b + tot_len (pb h t),
                            p_next := if q = last qs then t else p_next b\<rparr>) (pbufs h q)
     else pbufs h q)\<rparr>"

lemma pbuf_cat_chain:
  assumes "chain h p qs" "qs \<noteq> []" "t \<notin> set qs" "pbufs h t = Some tb" "t \<noteq> NULL"
  shows "pbuf_cat h p t = Some (linked h qs t)"
proof -
  obtain rs l where qs: "qs = rs @ [l]"
    using assms(2) by (metis rev_exhaust)
  have d: "distinct (rs @ [l])"
    using chain_distinct assms(1) qs by blast
  obtain lb where "pbufs h l = Some lb"
    using chain_live [OF assms(1), of l] qs by auto
  moreover have "p \<noteq> NULL"
    using assms(1,2) by (cases qs) auto
  ultimately show ?thesis
    using assms cat_loop_chain [of h p rs l t tb] d
    by (auto simp: pbuf_cat_def qs bump_def linked_def put_pbuf_def fun_eq_iff)
qed

lemma chain_linked:
  assumes "chain h p qs" "qs \<noteq> []" "chain h t ts" "ts \<noteq> []" "set qs \<inter> set ts = {}"
    and "\<And>x. x \<in> set ts \<Longrightarrow> pbufs h' x = pbufs h x"
    and "\<And>x. x \<in> set qs \<Longrightarrow> pbufs h' x = map_option (\<lambda>b. b\<lparr>tot_len := tot_len b + n,
           p_next := if x = last qs then t else p_next b\<rparr>) (pbufs h x)"
  shows "chain h' p (qs @ ts)"
  using assms(1,2,5-)
proof (induction qs arbitrary: p)
  case (Cons q qs)
  obtain b where b: "p = q" "q \<noteq> NULL" "pbufs h q = Some b" "chain h (p_next b) qs"
    using Cons.prems(1) by auto
  have dist: "q \<notin> set qs"
    using chain_distinct [OF Cons.prems(1)] by simp
  have ts: "chain h' t ts"
    using assms(3) Cons.prems(4) by (subst chain_cong [of ts h' h]) auto
  show ?case
  proof (cases "qs = []")
    case True
    then show ?thesis
      using b ts Cons.prems(5) [of q] by simp
  next
    case False
    then have "chain h' (p_next b) (qs @ ts)"
      using Cons.prems dist b(4) by (intro Cons.IH) (auto simp: Cons.prems(5))
    moreover have "q \<noteq> last qs"
      using dist False by auto
    ultimately show ?thesis
      using b Cons.prems(5) [of q] False by simp
  qed
qed simp

lemma lens_append [simp]: "lens h (qs @ rs) = lens h qs + lens h rs"
  by (simp add: lens_def)

lemma lens_same: "(\<And>q. q \<in> set qs \<Longrightarrow> p_len (pb h' q) = p_len (pb h q)) \<Longrightarrow> lens h' qs = lens h qs"
  by (induction qs) auto

lemma tot_lens_ok_append:
  "tot_lens_ok h (qs @ ts) \<longleftrightarrow> tot_lens_ok h ts
     \<and> (\<forall>i<length qs. unat (tot_len (pb h (qs ! i))) = lens h (drop i qs) + lens h ts)"
proof (induction qs)
  case (Cons q qs)
  then show ?case
    by (auto simp: less_Suc_eq_0_disj)
qed simp

lemma tot_lens_ok_nth:
  "tot_lens_ok h qs \<longleftrightarrow> (\<forall>i<length qs. unat (tot_len (pb h (qs ! i))) = lens h (drop i qs))"
  using tot_lens_ok_append [of h qs "[]"] by simp

lemma lens_drop_le: "lens h (drop i qs) \<le> lens h qs"
  by (metis append_take_drop_id le_add2 lens_append)

lemma pbuf_data_same:
  "blocks h' = blocks h \<Longrightarrow> payload (pb h' q) = payload (pb h q) \<Longrightarrow> p_len (pb h' q) = p_len (pb h q)
    \<Longrightarrow> pbuf_data h' q = pbuf_data h q"
  by (simp add: pbuf_data_def mem_read_def)

lemma chain_data_same:
  assumes "blocks h' = blocks h"
    and "\<And>q. q \<in> set qs \<Longrightarrow> payload (pb h' q) = payload (pb h q) \<and> p_len (pb h' q) = p_len (pb h q)"
  shows "chain_data h' qs = chain_data h qs"
  using assms(2)
  by (induction qs) (auto simp: chain_data.simps pbuf_data_same [OF assms(1)])

lemma pbuf_cat_packet:
  assumes q: "packet h p qs" "qs \<noteq> []" and t: "packet h t ts" "ts \<noteq> []" and d: "set qs \<inter> set ts = {}"
    and small: "lens h qs + lens h ts < 65536"
  shows "pbuf_cat h p t = Some (linked h qs t) \<and> packet (linked h qs t) p (qs @ ts)
    \<and> chain_data (linked h qs t) (qs @ ts) = chain_data h (qs @ ts)"
proof -
  obtain tb where tb: "t \<in> set ts" "t \<noteq> NULL" "pbufs h t = Some tb" "unat (tot_len tb) = lens h ts"
    using t by (cases ts) (auto simp: packet_def)
  have run: "pbuf_cat h p t = Some (linked h qs t)"
    using q t tb d by (intro pbuf_cat_chain) (auto simp: packet_def)
  let ?h = "linked h qs t"
  have ts: "pbufs ?h x = pbufs h x" if "x \<in> set ts" for x
    using that d by (auto simp: linked_def)
  have qs: "pbufs ?h x = map_option (\<lambda>b. b\<lparr>tot_len := tot_len b + tot_len tb,
      p_next := if x = last qs then t else p_next b\<rparr>) (pbufs h x)" if "x \<in> set qs" for x
    using that tb by (simp add: linked_def)
  have live: "\<exists>b. pbufs h x = Some b" if "x \<in> set qs" for x
    using chain_live that q(1) unfolding packet_def by blast
  have len: "p_len (pb ?h x) = p_len (pb h x) \<and> payload (pb ?h x) = payload (pb h x)" if "x \<in> set (qs @ ts)" for x
    using that ts qs live by fastforce
  have lens: "lens ?h rs = lens h rs" if "set rs \<subseteq> set (qs @ ts)" for rs
    using that len by (intro lens_same) blast
  have "chain ?h p (qs @ ts)"
    using q t d ts qs by (intro chain_linked) (auto simp: packet_def)
  moreover have "tot_lens_ok ?h ts"
    using t(1) ts tot_lens_ok_cong [of ts ?h h] by (simp add: packet_def)
  moreover have "unat (tot_len (pb ?h (qs ! i))) = lens ?h (drop i qs) + lens ?h ts" if i: "i < length qs" for i
  proof -
    have "unat (tot_len (pb h (qs ! i))) = lens h (drop i qs)"
      using q(1) i unfolding packet_def tot_lens_ok_nth by blast
    moreover have "lens h (drop i qs) + lens h ts < 65536"
      using lens_drop_le [of h i qs] small by linarith
    moreover have "lens ?h (drop i qs) = lens h (drop i qs)" "lens ?h ts = lens h ts"
      by (rule lens, use set_drop_subset in fastforce)+
    moreover obtain b where "pbufs h (qs ! i) = Some b"
      using live i by fastforce
    ultimately show ?thesis
      using qs [of "qs ! i"] i tb(4) by (simp add: unat_word_ariths)
  qed
  ultimately have "packet ?h p (qs @ ts)"
    by (simp add: packet_def tot_lens_ok_append)
  moreover have "chain_data ?h (qs @ ts) = chain_data h (qs @ ts)"
    using len by (intro chain_data_same) (auto simp: linked_def)
  ultimately show ?thesis
    using run by blast
qed

section \<open>Headers\<close>

lemma sint_of_small: "n < 32768 \<Longrightarrow> sint (of_nat n :: u16) = int n"
  by (simp add: signed_of_nat signed_take_bit_int_eq_self)

lemma sint_neg_small: "n \<le> 32768 \<Longrightarrow> sint (- of_nat n :: u16) = - int n"
proof -
  assume "n \<le> 32768"
  then have "sint (of_int (- int n) :: u16) = - int n"
    by (simp only: signed_of_int) (simp add: signed_take_bit_int_eq_self)
  then show ?thesis by simp
qed

lemma neg_of_nat_0: "n \<le> 32768 \<Longrightarrow> (- of_nat n :: u16) = 0 \<longleftrightarrow> n = 0"
  using sint_neg_small [of n] by auto

lemma le_of_nat: "n < 65536 \<Longrightarrow> (of_nat n :: u16) \<le> w \<longleftrightarrow> n \<le> unat w"
  by (simp add: word_le_nat_alt unsigned_of_nat take_bit_eq_mod)

text \<open>Hiding \<open>n\<close> octets at the front of the payload.\<close>

lemma header_hide:
  assumes "pbufs h p = Some b" "p \<noteq> NULL" "n \<le> unat (p_len b)" "n \<le> 32768" "0 \<le> snd (payload b)"
  shows "pbuf_header h p (- of_nat n) = Some (put_pbuf p (b\<lparr>payload := ptr_add (payload b) n,
    p_len := p_len b - of_nat n, tot_len := tot_len b - of_nat n\<rparr>) h, False)"
proof (cases "n = 0")
  case True
  then show ?thesis
    using assms(1,2) by (simp add: pbuf_header_def ptr_add_def put_pbuf_def fun_upd_idem)
next
  case False
  then show ?thesis
    using assms neg_of_nat_0 [of n] sint_neg_small [of n] le_of_nat [of n "p_len b"]
    by (auto simp: pbuf_header_def ptr_add_def Let_def split: prod.splits)
qed

text \<open>Revealing \<open>n\<close> octets in front of the payload of a RAM or POOL pbuf: possible exactly when the
  block has them.\<close>

lemma header_reveal:
  assumes "pbufs h p = Some b" "p \<noteq> NULL" "0 < n" "n < 32768" "p_type b \<in> {PBUF_RAM, PBUF_POOL}"
  shows "pbuf_header h p (of_nat n) = Some (if int n \<le> snd (payload b)
    then (put_pbuf p (b\<lparr>payload := (fst (payload b), snd (payload b) - int n),
           p_len := p_len b + of_nat n, tot_len := tot_len b + of_nat n\<rparr>) h, False)
    else (h, True))"
proof -
  have "(of_nat n :: u16) \<noteq> 0"
    using assms(3,4) sint_of_small [of n] by auto
  then show ?thesis
    using assms sint_of_small [of n]
    by (auto simp: pbuf_header_def Let_def split: prod.splits)
qed

text \<open>The payload of a ROM or REF pbuf cannot grow.\<close>

lemma header_reveal_external:
  assumes "pbufs h p = Some b" "p \<noteq> NULL" "0 < n" "n < 32768" "p_type b \<in> {PBUF_ROM, PBUF_REF}"
  shows "pbuf_header h p (of_nat n) = Some (h, True)"
proof -
  have "(of_nat n :: u16) \<noteq> 0"
    using assms(3,4) sint_of_small [of n] by auto
  then show ?thesis
    using assms sint_of_small [of n]
    by (auto simp: pbuf_header_def Let_def split: prod.splits)
qed

lemma header_hide_packet:
  assumes p: "packet h p (p # qs)" and n: "n \<le> unat (p_len (pb h p))" "n \<le> 32768"
    and off: "0 \<le> snd (payload (pb h p))" and d: "chain_data h (p # qs) = Some bs"
  shows "\<exists>h'. pbuf_header h p (- of_nat n) = Some (h', False) \<and> packet h' p (p # qs)
    \<and> chain_data h' (p # qs) = Some (drop n bs)"
proof -
  obtain b where b: "pbufs h p = Some b" "p \<noteq> NULL" "packet h (p_next b) qs"
    "unat (tot_len b) = unat (p_len b) + lens h qs"
    using p by (auto simp: packet_Cons)
  let ?b = "b\<lparr>payload := ptr_add (payload b) n, p_len := p_len b - of_nat n, tot_len := tot_len b - of_nat n\<rparr>"
  let ?h = "put_pbuf p ?b h"
  have dist: "p \<notin> set qs"
    using chain_distinct p unfolding packet_def by fastforce
  have n': "n \<le> unat (p_len b)"
    using n b by simp
  have sub: "unat (w - of_nat n) = unat w - n" if "n \<le> unat w" for w :: u16
    using that le_of_nat [of n w] n(2) by (simp add: unat_sub unsigned_of_nat take_bit_eq_mod)
  have same: "pbufs ?h x = pbufs h x" if "x \<in> set qs" for x
    using that dist by auto
  have "packet ?h (p_next b) qs"
    using b(3) packet_cong [of qs ?h h] same by blast
  moreover have "lens ?h qs = lens h qs"
    using same by (rule lens_cong)
  ultimately have "packet ?h p (p # qs)"
    using b n' sub [of "p_len b"] sub [of "tot_len b"] by (simp add: packet_Cons)
  moreover have "chain_data ?h (p # qs) = Some (drop n bs)"
  proof -
    obtain a r where ar: "mem_read h (payload b) (unat (p_len b)) = Some a" "chain_data h qs = Some r" "bs = a @ r"
      using d b by (auto simp: pbuf_data_def)
    have "mem_read h (ptr_add (payload b) n) (unat (p_len b) - n) = Some (take (unat (p_len b) - n) (drop n a))"
      using n' by (intro mem_read_sub [OF ar(1)]) simp
    then have "pbuf_data ?h p = Some (drop n a)"
      using mem_read_length [OF ar(1)] sub [OF n'] by (simp add: pbuf_data_def)
    moreover have "chain_data ?h qs = Some r"
      using ar(2) same chain_data_same [of ?h h qs] by simp
    ultimately show ?thesis
      using ar(3) mem_read_length [OF ar(1)] n' by simp
  qed
  ultimately show ?thesis
    using header_hide [OF b(1,2) n' n(2)] off b(1) by auto
qed

lemma header_roundtrip:
  assumes "pbufs h p = Some b" "p \<noteq> NULL" "0 < n" "n < 32768" "n \<le> unat (p_len b)"
    "p_type b \<in> {PBUF_RAM, PBUF_POOL}" "0 \<le> snd (payload b)"
  shows "do { (h', _) \<leftarrow> pbuf_header h p (- of_nat n); pbuf_header h' p (of_nat n) } = Some (h, False)"
proof -
  let ?h = "put_pbuf p (b\<lparr>payload := ptr_add (payload b) n, p_len := p_len b - of_nat n,
    tot_len := tot_len b - of_nat n\<rparr>) h"
  have "pbuf_header h p (- of_nat n) = Some (?h, False)"
    using assms by (intro header_hide) auto
  moreover have "pbuf_header ?h p (of_nat n) = Some (h, False)"
    using assms header_reveal [of ?h p _ n] by (simp add: ptr_add_def put_pbuf_def fun_upd_idem)
  ultimately show ?thesis
    by simp
qed

end
