(* ===== verification/Pbuf_Alloc.thy ===== *)
theory Pbuf_Alloc
  imports Pbuf_Chains
begin

text \<open>
  Shrinking, allocating, counting and splitting pbuf chains, and the properties of the pbuf module.
  \<open>heap_ok\<close> is the invariant of the allocator: nothing is live at an address that it has not handed
  out yet. \<open>allocated\<close> is the contract of \<^verbatim>\<open>pbuf_alloc\<close>.
\<close>

unbundle bit_operations_syntax

section \<open>Shrinking\<close>

lemma realloc_loop_chain:
  assumes "chain h q qs" "qs \<noteq> []" "unat rem \<le> lens h qs"
  shows "\<exists>keep x rest r. qs = keep @ x # rest \<and> pbuf_realloc_loop h q rem grow = Some (bump grow keep h, x, r)
    \<and> unat r \<le> unat (p_len (pb h x)) \<and> unat rem = lens h keep + unat r"
  using assms
proof (induction qs arbitrary: h q rem)
  case (Cons y qs)
  obtain b where b: "q = y" "y \<noteq> NULL" "pbufs h y = Some b" "chain h (p_next b) qs"
    using Cons.prems(1) by auto
  have dist: "y \<notin> set qs"
    using chain_distinct [OF Cons.prems(1)] by simp
  show ?case
  proof (cases "rem > p_len b")
    case False
    then have "pbuf_realloc_loop h q rem grow = Some (bump grow [] h, y, rem)"
      using b by (subst pbuf_realloc_loop.simps) simp
    then show ?thesis
      using False b(3) by (intro exI [of _ "[]"]) (auto simp: word_less_nat_alt)
  next
    case True
    let ?h = "put_pbuf y (b\<lparr>tot_len := tot_len b + grow\<rparr>) h"
    have same: "pbufs ?h x = pbufs h x" if "x \<in> set qs" for x
      using that dist by auto
    have r: "unat (rem - p_len b) = unat rem - unat (p_len b)"
      using True by (simp add: unat_sub word_less_nat_alt word_le_nat_alt)
    have l: "lens ?h qs = lens h qs"
      using same by (rule lens_cong)
    have "qs \<noteq> []"
      using True Cons.prems(3) b(3) by (auto simp: word_less_nat_alt)
    moreover have "chain ?h (p_next b) qs"
      using b(4) same chain_cong [of qs ?h h] by blast
    moreover have "unat (rem - p_len b) \<le> lens ?h qs"
      using Cons.prems(3) b(3) unfolding l r by simp
    ultimately obtain keep x rest r where IH: "qs = keep @ x # rest"
      "pbuf_realloc_loop ?h (p_next b) (rem - p_len b) grow = Some (bump grow keep ?h, x, r)"
      "unat r \<le> unat (p_len (pb ?h x))" "unat (rem - p_len b) = lens ?h keep + unat r"
      using Cons.IH by blast
    have k: "lens ?h keep = lens h keep" "pb ?h x = pb h x"
      using same IH(1) by (auto intro: lens_cong)
    have "pbuf_realloc_loop h q rem grow = Some (bump grow (y # keep) h, x, r)"
      using b True IH(1,2) dist by (subst pbuf_realloc_loop.simps) (simp add: bump_Cons)
    moreover have "unat rem = lens h (y # keep) + unat r"
      using IH(4) k r True b(3) by (simp add: word_less_nat_alt)
    ultimately show ?thesis
      using IH(1,3) k by (intro exI [of _ "y # keep"]) auto
  qed
qed simp

lemma chain_cut:
  assumes "chain h p (keep @ x # rest)" "pbufs h' x = Some xb" "p_next xb = NULL"
    and "\<And>y. y \<in> set keep \<Longrightarrow> map_option p_next (pbufs h' y) = map_option p_next (pbufs h y)"
  shows "chain h' p (keep @ [x])"
  using assms(1,4)
proof (induction keep arbitrary: p)
  case Nil
  then show ?case
    using assms(2,3) by auto
next
  case (Cons y keep)
  obtain b where b: "p = y" "y \<noteq> NULL" "pbufs h y = Some b" "chain h (p_next b) (keep @ x # rest)"
    using Cons.prems(1) by auto
  then have "chain h' (p_next b) (keep @ [x])"
    using Cons.IH Cons.prems(2) by simp
  then show ?case
    using b Cons.prems(2) [of y] by (auto simp: map_option_case split: option.splits)
qed

lemma unat_add_sub:
  fixes a b c :: "'a::len word"
  assumes "unat b \<le> unat c" "unat c - unat b \<le> unat a"
  shows "unat (a + (b - c)) = unat a - (unat c - unat b)"
proof -
  have "unat (c - b) = unat c - unat b"
    using assms(1) by (simp add: unat_sub word_le_nat_alt)
  then have "unat (a - (c - b)) = unat a - (unat c - unat b)"
    using assms(2) by (simp add: unat_sub word_le_nat_alt)
  then show ?thesis
    by (simp add: algebra_simps)
qed

text \<open>No pbuf of a chain keeps its payload in the block of another one.\<close>

definition own_payload :: "heap \<Rightarrow> ptr list \<Rightarrow> bool" where
  "own_payload h qs \<longleftrightarrow> (\<forall>q\<in>set qs. \<forall>r\<in>set qs. fst (payload (pb h q)) = r \<longrightarrow> q = r)"

lemma release_other:
  assumes "release h qs h'" "x \<notin> set qs"
  shows "pbufs h' x = pbufs h x" "blocks h' x = blocks h x"
proof -
  have "set (unref_prefix h qs) \<subseteq> set qs"
    unfolding unref_prefix_def by (meson set_takeWhileD subsetI)
  then have "x \<notin> set (unref_prefix h qs)"
    using assms(2) by blast
  moreover have "rs \<noteq> [] \<Longrightarrow> x = hd rs \<Longrightarrow> rs = drop n qs \<Longrightarrow> False" for rs n
    using assms(2) by (metis hd_in_set in_set_dropD)
  ultimately show "pbufs h' x = pbufs h x" "blocks h' x = blocks h x"
    using assms(1) by (auto simp: release_def Let_def)
qed

lemma release_gone:
  assumes "release h qs h'" "\<forall>q\<in>set qs. p_ref (pb h q) = 1" "x \<in> set qs"
  shows "pbufs h' x = None"
proof -
  have "unref_prefix h qs = qs"
    unfolding unref_prefix_def using assms(2) by (simp add: takeWhile_eq_all_conv)
  then show ?thesis
    using assms(1,3) by (simp add: release_def Let_def)
qed

lemma mem_read_cong: "blocks h' (fst a) = blocks h (fst a) \<Longrightarrow> mem_read h' a n = mem_read h a n"
  by (simp add: mem_read_def)

lemma free_rest:
  assumes "chain h p rest"
  shows "\<exists>h'. (if p \<noteq> NULL then do { (h, _) \<leftarrow> pbuf_free h p; Some h } else Some h) = Some h' \<and> release h rest h'"
proof (cases "p = NULL")
  case True
  then show ?thesis
    using assms by (simp add: release_def unref_prefix_def)
next
  case False
  then show ?thesis
    using pbuf_free_loop_chain [OF assms, of 0] by (auto simp: pbuf_free_def)
qed

text \<open>The heap a shrunk chain is left in: the pbufs \<open>keep\<close> are counted down, \<open>x\<close> is the new last
  one with \<open>r\<close> octets.\<close>

definition shrunk :: "heap \<Rightarrow> u16 \<Rightarrow> ptr list \<Rightarrow> ptr \<Rightarrow> u16 \<Rightarrow> ptr list \<Rightarrow> heap \<Rightarrow> bool" where
  "shrunk h grow keep x r rest h' \<longleftrightarrow>
     (\<forall>y\<in>set keep. pbufs h' y = map_option (\<lambda>b. b\<lparr>tot_len := tot_len b + grow\<rparr>) (pbufs h y))
     \<and> pbufs h' x = map_option (\<lambda>b. b\<lparr>p_len := r, tot_len := r, p_next := NULL\<rparr>) (pbufs h x)
     \<and> (\<forall>a. a \<notin> set rest \<longrightarrow> blocks h' a = blocks h a)
     \<and> ((\<forall>y\<in>set rest. p_ref (pb h y) = 1) \<longrightarrow> (\<forall>y\<in>set rest. pbufs h' y = None))"

lemma pbuf_realloc_shrunk:
  assumes ch: "chain h p (keep @ x # rest)" and b: "pbufs h p = Some b" "new_len < tot_len b"
    and l: "pbuf_realloc_loop h p new_len (new_len - tot_len b) = Some (bump (new_len - tot_len b) keep h, x, r)"
  shows "\<exists>h'. pbuf_realloc h p new_len = Some h' \<and> shrunk h (new_len - tot_len b) keep x r rest h'"
proof -
  have dist: "distinct (keep @ x # rest)"
    using chain_distinct [OF ch] .
  obtain xb where xb: "pbufs h x = Some xb" "chain h (p_next xb) rest"
    using chain_suffix [OF ch] by auto
  define h1 where "h1 = bump (new_len - tot_len b) keep h"
  define h2 where "h2 = put_pbuf x (xb\<lparr>p_len := r, tot_len := r\<rparr>) h1"
  have h1x: "pbufs h1 x = Some xb"
    using dist xb by (simp add: h1_def bump_def)
  have h2r: "pbufs h2 y = pbufs h y" if "y \<in> set rest" for y
    using that dist by (auto simp: h2_def h1_def bump_def)
  then have "chain h2 (p_next xb) rest"
    using xb(2) chain_cong [of rest h2 h] by blast
  then obtain h3 where h3: "(if p_next xb \<noteq> NULL then do { (h, _) \<leftarrow> pbuf_free h2 (p_next xb); Some h }
      else Some h2) = Some h3" "release h2 rest h3"
    using free_rest by blast
  have h3x: "pbufs h3 x = Some (xb\<lparr>p_len := r, tot_len := r\<rparr>)"
    using release_other(1) [OF h3(2), of x] dist by (simp add: h2_def)
  define h4 where "h4 = put_pbuf x (xb\<lparr>p_len := r, tot_len := r, p_next := NULL\<rparr>) h3"
  have "pbuf_realloc h p new_len = Some h4"
    using b l h1x h3 h3x by (simp add: pbuf_realloc_def h1_def [symmetric] h2_def [symmetric] h4_def)
  moreover have "pbufs h4 y = map_option (\<lambda>c. c\<lparr>tot_len := tot_len c + (new_len - tot_len b)\<rparr>) (pbufs h y)"
    if "y \<in> set keep" for y
  proof -
    have "y \<notin> set rest" "y \<noteq> x"
      using that dist by auto
    then show ?thesis
      using that release_other(1) [OF h3(2), of y] by (simp add: h4_def h2_def h1_def bump_def)
  qed
  moreover have "pbufs h4 x = map_option (\<lambda>b. b\<lparr>p_len := r, tot_len := r, p_next := NULL\<rparr>) (pbufs h x)"
    by (simp add: h4_def xb(1))
  moreover have "blocks h4 a = blocks h a" if "a \<notin> set rest" for a
    using release_other(2) [OF h3(2) that] by (simp add: h4_def h2_def h1_def)
  moreover have "pbufs h4 y = None" if "\<forall>y\<in>set rest. p_ref (pb h y) = 1" "y \<in> set rest" for y
    using that h2r release_gone [OF h3(2)] dist by (auto simp: h4_def)
  ultimately show ?thesis
    unfolding shrunk_def by blast
qed

lemma shrunk_packet:
  assumes s: "shrunk h (new_len - n) keep x r rest h'" and q: "packet h p (keep @ x # rest)"
    and n: "unat n = lens h (keep @ x # rest)"
    and r: "unat r \<le> unat (p_len (pb h x))" "unat new_len = lens h keep + unat r"
  shows "packet h' p (keep @ [x]) \<and> lens h' (keep @ [x]) = unat new_len"
proof -
  have ch: "chain h p (keep @ x # rest)"
    using q by (simp add: packet_def)
  have live: "\<exists>b. pbufs h y = Some b" if "y \<in> set (keep @ [x])" for y
    using chain_live [OF ch, of y] that by auto
  have k: "pbufs h' y = map_option (\<lambda>b. b\<lparr>tot_len := tot_len b + (new_len - n)\<rparr>) (pbufs h y)" if "y \<in> set keep" for y
    using s that by (simp add: shrunk_def)
  obtain xb where x': "pbufs h' x = Some xb" "p_next xb = NULL" "p_len xb = r" "tot_len xb = r"
    using s live [of x] by (auto simp: shrunk_def)
  have lens': "lens h' (drop i keep) = lens h (drop i keep)" for i
    using k live by (intro lens_same) (fastforce dest: in_set_dropD)
  have "chain h' p (keep @ [x])"
    using ch x' k by (intro chain_cut [of h p keep x rest]) (auto simp: option.map_comp comp_def)
  moreover have "unat (tot_len (pb h' (keep ! i))) = lens h' (drop i keep) + lens h' [x]" if i: "i < length keep" for i
  proof -
    have T: "unat (tot_len (pb h (keep ! i))) = lens h (drop i keep) + unat (p_len (pb h x)) + lens h rest"
      using q i unfolding packet_def tot_lens_ok_append by simp
    have "unat (tot_len (pb h (keep ! i)) + (new_len - n)) = lens h (drop i keep) + unat r"
      using T r n lens_drop_le [of h i keep] by (subst unat_add_sub) simp_all
    moreover obtain kb where "pbufs h (keep ! i) = Some kb"
      using live i by fastforce
    ultimately show ?thesis
      using k [of "keep ! i"] i x' lens' by simp
  qed
  ultimately show ?thesis
    using x' r(2) lens' [of 0] by (simp add: packet_def tot_lens_ok_append)
qed

lemma shrunk_data:
  assumes s: "shrunk h grow keep x r rest h'" and ch: "chain h p (keep @ x # rest)"
    and own: "own_payload h (keep @ x # rest)" and bs: "chain_data h (keep @ x # rest) = Some bs"
    and r: "unat r \<le> unat (p_len (pb h x))"
  shows "chain_data h' (keep @ [x]) = Some (take (lens h keep + unat r) bs)"
proof -
  have dist: "distinct (keep @ x # rest)"
    using chain_distinct [OF ch] .
  have live: "\<exists>b. pbufs h y = Some b" if "y \<in> set (keep @ [x])" for y
    using chain_live [OF ch, of y] that by auto
  have blk: "blocks h' (fst (payload (pb h y))) = blocks h (fst (payload (pb h y)))" if "y \<in> set (keep @ [x])" for y
  proof -
    have "y \<notin> set rest" "y \<in> set (keep @ x # rest)"
      using that dist by auto
    then have "fst (payload (pb h y)) \<notin> set rest"
      using own unfolding own_payload_def by (metis Un_iff list.set_intros(2) set_append)
    then show ?thesis
      using s by (simp add: shrunk_def)
  qed
  obtain k d e where bs': "chain_data h keep = Some k" "pbuf_data h x = Some d" "bs = k @ d @ e"
    using bs by (auto simp: chain_data_append)
  have "pbuf_data h' y = pbuf_data h y" if "y \<in> set keep" for y
    using s that blk [of y] live [of y] by (auto simp: pbuf_data_def shrunk_def intro: mem_read_cong)
  then have "chain_data h' keep = Some k"
    using bs'(1) by (induction keep arbitrary: k) auto
  moreover have "pbuf_data h' x = Some (take (unat r) d)"
  proof -
    have "mem_read h (ptr_add (payload (pb h x)) 0) (unat r) = Some (take (unat r) (drop 0 d))"
      using bs'(2) r by (intro mem_read_sub) (auto simp: pbuf_data_def)
    then show ?thesis
      using blk [of x] s live [of x] mem_read_cong [of h' "payload (pb h x)" h]
      by (auto simp: pbuf_data_def shrunk_def ptr_add_def)
  qed
  moreover have "length k = lens h keep" "length d = unat (p_len (pb h x))"
    using chain_data_length [OF bs'(1)] bs'(2) mem_read_length by (auto simp: pbuf_data_def)
  ultimately show ?thesis
    using r bs'(3) by (simp add: chain_data_append)
qed

lemma pbuf_realloc_packet:
  assumes q: "packet h p qs" "qs \<noteq> []" and new: "unat new_len < lens h qs"
  shows "\<exists>h' keep x rest. qs = keep @ x # rest \<and> pbuf_realloc h p new_len = Some h'
    \<and> packet h' p (keep @ [x]) \<and> lens h' (keep @ [x]) = unat new_len
    \<and> (\<forall>bs. own_payload h qs \<longrightarrow> chain_data h qs = Some bs \<longrightarrow> chain_data h' (keep @ [x]) = Some (take (unat new_len) bs))
    \<and> ((\<forall>y\<in>set qs. p_ref (pb h y) = 1) \<longrightarrow> (\<forall>y\<in>set rest. pbufs h' y = None))"
proof -
  obtain b where b: "pbufs h p = Some b" "unat (tot_len b) = lens h qs"
    using q by (cases qs) (auto simp: packet_Cons)
  have ch: "chain h p qs"
    using q(1) by (simp add: packet_def)
  have lt: "new_len < tot_len b"
    using new b(2) by (simp add: word_less_nat_alt)
  obtain keep x rest r where l: "qs = keep @ x # rest"
    "pbuf_realloc_loop h p new_len (new_len - tot_len b) = Some (bump (new_len - tot_len b) keep h, x, r)"
    "unat r \<le> unat (p_len (pb h x))" "unat new_len = lens h keep + unat r"
    using realloc_loop_chain [OF ch q(2), of new_len "new_len - tot_len b"] new by auto
  obtain h' where h': "pbuf_realloc h p new_len = Some h'" "shrunk h (new_len - tot_len b) keep x r rest h'"
    using pbuf_realloc_shrunk [OF _ b(1) lt l(2), of rest] ch l(1) by blast
  moreover have "packet h' p (keep @ [x]) \<and> lens h' (keep @ [x]) = unat new_len"
    using shrunk_packet [OF h'(2)] q(1) b(2) l by simp
  moreover have "chain_data h' (keep @ [x]) = Some (take (unat new_len) bs)"
    if "own_payload h qs" "chain_data h qs = Some bs" for bs
    using shrunk_data [OF h'(2), of p bs] ch that l by simp
  moreover have "\<forall>y\<in>set rest. pbufs h' y = None" if "\<forall>y\<in>set qs. p_ref (pb h y) = 1"
    using h'(2) that l(1) by (auto simp: shrunk_def)
  ultimately show ?thesis
    using l(1) by blast
qed

section \<open>Allocation\<close>

definition heap_ok :: "heap \<Rightarrow> bool" where
  "heap_ok h \<longleftrightarrow> 0 < brk h \<and> pbufs h NULL = None
     \<and> (\<forall>p\<ge>brk h. pbufs h p = None \<and> blocks h p = None)"

definition fits :: "heap \<Rightarrow> ptr \<Rightarrow> bool" where
  "fits h q \<longleftrightarrow> (case blocks h (fst (payload (pb h q))) of None \<Rightarrow> False
     | Some bs \<Rightarrow> 0 \<le> snd (payload (pb h q)) \<and> nat (snd (payload (pb h q))) + unat (p_len (pb h q)) \<le> length bs)"

lemma fits_data: "fits h q \<Longrightarrow> \<exists>d. pbuf_data h q = Some d"
  by (auto simp: fits_def pbuf_data_def mem_read_def split: option.splits)

lemma fits_chain_data: "(\<And>q. q \<in> set qs \<Longrightarrow> fits h q) \<Longrightarrow> \<exists>bs. chain_data h qs = Some bs"
  by (induction qs) (use fits_data in fastforce)+

declare pbuf_alloc_pool_tail.simps [simp del]

lemma malloc_cases:
  obtains (fail) "mem_malloc_pbuf h n = (h\<lparr>brk := brk h + 1\<rparr>, NULL)"
  | (ok) "brk h \<noteq> NULL" "mem_malloc_pbuf h n = (h\<lparr>brk := brk h + 1,
      blocks := (blocks h)(brk h := Some (map (junk h (brk h)) [0..<n]))\<rparr>, brk h)"
  by (cases "brk h \<noteq> NULL \<and> mem_ok h (brk h)") (auto simp: mem_malloc_pbuf_def Let_def)

text \<open>A chain under construction: all links but the last \<open>missing\<close> octets are there.\<close>

definition partial_chain :: "heap \<Rightarrow> ptr \<Rightarrow> ptr list \<Rightarrow> nat \<Rightarrow> bool" where
  "partial_chain h p qs missing \<longleftrightarrow> heap_ok h \<and> chain h p qs \<and> qs \<noteq> []
     \<and> (\<forall>q\<in>set qs. p_ref (pb h q) = 1)
     \<and> (pool_payload h = PBUF_POOL_BUFSIZE \<longrightarrow> (\<forall>q\<in>set qs. fits h q))
     \<and> (\<forall>i<length qs. unat (tot_len (pb h (qs ! i))) = lens h (drop i qs) + missing)"

lemma chain_extend:
  assumes "chain h p (qs @ [r])" "q \<noteq> NULL" "q \<notin> set (qs @ [r])" "pbufs h' q = Some qb" "p_next qb = NULL"
    and "pbufs h' r = map_option (\<lambda>b. b\<lparr>p_next := q\<rparr>) (pbufs h r)" "\<And>x. x \<in> set qs \<Longrightarrow> pbufs h' x = pbufs h x"
  shows "chain h' p (qs @ [r, q])"
  using assms(1,3,7)
proof (induction qs arbitrary: p)
  case Nil
  then show ?case
    using assms(2,4,5,6) by auto
next
  case (Cons y qs)
  then show ?case by auto
qed

lemma partial_chain_step:
  assumes pc: "partial_chain h p (qs @ [r]) rem" and rem: "0 < rem" "rem < 65536"
    and rb: "pbufs h r = Some rb"
  defines "len \<equiv> min rem PBUF_POOL_BUFSIZE" and "q \<equiv> brk h"
  defines "h1 \<equiv> h\<lparr>brk := brk h + 1, blocks := (blocks h)(q := Some (map (junk h q) [0..<pool_payload h]))\<rparr>"
  defines "h2 \<equiv> put_pbuf q \<lparr>p_next = NULL, payload = (q, 0), tot_len = of_nat rem, p_len = of_nat len,
      p_type = PBUF_POOL, p_flags = 0, p_ref = 1\<rparr> (put_pbuf r (rb\<lparr>p_next := q\<rparr>) h1)"
  shows "partial_chain h2 p (qs @ [r, q]) (rem - len)" "pool_payload h2 = pool_payload h"
    "\<And>x. x \<notin> set (qs @ [r, q]) \<Longrightarrow> pbufs h2 x = pbufs h x"
    "lens h2 (qs @ [r, q]) = lens h (qs @ [r]) + len"
proof -
  have ok: "heap_ok h" and ch: "chain h p (qs @ [r])"
    using pc by (simp_all add: partial_chain_def)
  have live: "x < q \<and> x \<noteq> NULL" if "x \<in> set (qs @ [r])" for x
    using chain_live [OF ch that] ok unfolding heap_ok_def q_def by (metis not_less option.distinct(1))
  have q: "q \<noteq> NULL" "q \<notin> set (qs @ [r])"
    using live ok by (auto simp: heap_ok_def q_def)
  have dist: "r \<notin> set qs"
    using chain_distinct [OF ch] by simp
  have p2: "pbufs h2 x = (if x = q then Some \<lparr>p_next = NULL, payload = (q, 0), tot_len = of_nat rem, p_len = of_nat len,
      p_type = PBUF_POOL, p_flags = 0, p_ref = 1\<rparr> else if x = r then Some (rb\<lparr>p_next := q\<rparr>) else pbufs h x)" for x
    by (simp add: h2_def h1_def)
  have b2: "blocks h2 = (blocks h)(q := Some (map (junk h q) [0..<pool_payload h]))"
    by (simp add: h2_def h1_def)
  show "\<And>x. x \<notin> set (qs @ [r, q]) \<Longrightarrow> pbufs h2 x = pbufs h x"
    by (simp add: p2)
  show "pool_payload h2 = pool_payload h"
    by (simp add: h2_def h1_def)
  have same: "p_len (pb h2 x) = p_len (pb h x) \<and> payload (pb h2 x) = payload (pb h x)
      \<and> tot_len (pb h2 x) = tot_len (pb h x) \<and> p_ref (pb h2 x) = p_ref (pb h x)" if "x \<in> set (qs @ [r])" for x
    using live [OF that] by (auto simp: p2 rb)
  have len: "unat (of_nat len :: u16) = len" "unat (of_nat rem :: u16) = rem"
    using rem(2) by (simp_all add: len_def unsigned_of_nat take_bit_eq_mod)
  have lens: "lens h2 ys = lens h ys" if "set ys \<subseteq> set (qs @ [r])" for ys
    using same that by (intro lens_same) blast
  show tot: "lens h2 (qs @ [r, q]) = lens h (qs @ [r]) + len"
    using lens [of "qs @ [r]"] len by (simp add: p2)
  have ok2: "heap_ok h2"
    using ok live [of r] q(1) unfolding heap_ok_def p2 by (auto simp: q_def h2_def h1_def)
  have ch2: "chain h2 p (qs @ [r, q])"
    using q dist live [of r] rb by (intro chain_extend [OF ch]) (auto simp: p2)
  have fits2: "fits h2 x" if "pool_payload h = PBUF_POOL_BUFSIZE" "x \<in> set (qs @ [r, q])" for x
  proof (cases "x = q")
    case True
    then show ?thesis
      using len(1) that(1) by (simp add: fits_def p2 b2 len_def)
  next
    case False
    then have x: "x \<in> set (qs @ [r])" "fits h x"
      using that pc by (auto simp: partial_chain_def)
    then have "fst (payload (pb h x)) \<noteq> q"
      using ok by (auto simp: fits_def heap_ok_def q_def)
    then show ?thesis
      using x(2) same [OF x(1)] by (auto simp: fits_def b2 split: option.splits)
  qed
  have "unat (tot_len (pb h2 ((qs @ [r, q]) ! i))) = lens h2 (drop i (qs @ [r, q])) + (rem - len)"
    if "i < length (qs @ [r, q])" for i
  proof (cases "i < length (qs @ [r])")
    case True
    then have "unat (tot_len (pb h ((qs @ [r]) ! i))) = lens h (drop i (qs @ [r])) + rem"
      using pc by (simp add: partial_chain_def)
    moreover have "(qs @ [r, q]) ! i = (qs @ [r]) ! i" "(qs @ [r]) ! i \<in> set (qs @ [r])"
      using True by (simp_all add: nth_append nth_mem)
    moreover have "lens h2 (drop i (qs @ [r])) = lens h (drop i (qs @ [r]))"
      by (rule lens) (rule set_drop_subset)
    ultimately show ?thesis
      using same [of "(qs @ [r]) ! i"] True len(1) by (simp add: p2 len_def)
  next
    case False
    then have "i = length qs + 1"
      using that by simp
    then show ?thesis
      using len by (simp add: nth_append p2 len_def)
  qed
  then show "partial_chain h2 p (qs @ [r, q]) (rem - len)"
    using ok2 ch2 fits2 same pc unfolding partial_chain_def
    by (auto simp: p2 \<open>pool_payload h2 = pool_payload h\<close>)
qed

lemma release_all:
  assumes "chain h p qs" "\<forall>q\<in>set qs. p_ref (pb h q) = 1" "heap_ok h"
  shows "\<exists>h' n. pbuf_free h p = Some (h', n) \<and> heap_ok h'
    \<and> (\<forall>x. pbufs h' x = (if x \<in> set qs then None else pbufs h x))"
proof -
  obtain h' n where f: "pbuf_free h p = Some (h', n)" "release h qs h'"
  proof (cases "p = NULL")
    case True
    then show ?thesis
      using that assms(1) by (simp add: pbuf_free_def release_def unref_prefix_def)
  next
    case False
    then show ?thesis
      using that pbuf_free_loop_chain [OF assms(1), of 0] by (auto simp: pbuf_free_def)
  qed
  have "pbufs h' x = (if x \<in> set qs then None else pbufs h x)" for x
    using release_other(1) [OF f(2)] release_gone [OF f(2) assms(2)] by auto
  moreover have "heap_ok h'"
    using assms(3) f(2) calculation by (auto simp: heap_ok_def release_def Let_def)
  ultimately show ?thesis
    using f(1) by blast
qed

text \<open>How the allocation of the rest of a chain may end.\<close>

definition tail_done :: "heap \<Rightarrow> ptr \<Rightarrow> ptr list \<Rightarrow> nat \<Rightarrow> heap \<Rightarrow> ptr \<Rightarrow> bool" where
  "tail_done h p qs n h' p' \<longleftrightarrow> heap_ok h' \<and>
     (if p' = NULL then \<forall>x. pbufs h' x = (if x \<in> set qs then None else pbufs h x)
      else p' = p \<and> (\<exists>ts. partial_chain h' p (qs @ ts) 0 \<and> lens h' (qs @ ts) = lens h qs + n
             \<and> (\<forall>x\<in>set ts. pbufs h x = None) \<and> (\<forall>x. x \<notin> set (qs @ ts) \<longrightarrow> pbufs h' x = pbufs h x)))"

lemma tail_done_step:
  assumes t: "tail_done h2 p (qs @ [q]) m h' p'" and fresh: "pbufs h q = None"
    and same: "\<And>x. x \<notin> set (qs @ [q]) \<Longrightarrow> pbufs h2 x = pbufs h x"
    and live: "\<And>x. x \<in> set (qs @ [q]) \<Longrightarrow> pbufs h2 x \<noteq> None"
    and lens: "lens h2 (qs @ [q]) = lens h qs + (n - m)" and m: "m \<le> n"
  shows "tail_done h p qs n h' p'"
proof (cases "p' = NULL")
  case True
  then show ?thesis
    using t fresh same unfolding tail_done_def by auto
next
  case False
  then obtain ts where ts: "p' = p" "partial_chain h' p ((qs @ [q]) @ ts) 0"
    "lens h' ((qs @ [q]) @ ts) = lens h2 (qs @ [q]) + m" "\<forall>x\<in>set ts. pbufs h2 x = None"
    "\<forall>x. x \<notin> set ((qs @ [q]) @ ts) \<longrightarrow> pbufs h' x = pbufs h2 x"
    using t unfolding tail_done_def by auto
  have new: "pbufs h x = None" if "x \<in> set (q # ts)" for x
  proof (cases "x = q")
    case False
    then have "pbufs h2 x = None"
      using that ts(4) by simp
    then have "x \<notin> set (qs @ [q])"
      using live by blast
    then show ?thesis
      using same \<open>pbufs h2 x = None\<close> by simp
  qed (simp add: fresh)
  moreover have "\<forall>x. x \<notin> set (qs @ q # ts) \<longrightarrow> pbufs h' x = pbufs h x"
    using ts(5) same by simp
  moreover have "partial_chain h' p (qs @ q # ts) 0" "lens h' (qs @ q # ts) = lens h qs + n"
    using ts(2,3) lens m by simp_all
  ultimately have "\<exists>ts. partial_chain h' p (qs @ ts) 0 \<and> lens h' (qs @ ts) = lens h qs + n
      \<and> (\<forall>x\<in>set ts. pbufs h x = None) \<and> (\<forall>x. x \<notin> set (qs @ ts) \<longrightarrow> pbufs h' x = pbufs h x)"
    by (intro exI [of _ "q # ts"] conjI ballI)
  moreover have "heap_ok h'"
    using t by (simp add: tail_done_def)
  ultimately show ?thesis
    using False ts(1) by (simp only: tail_done_def if_False)
qed

lemma alloc_pool_tail:
  assumes "partial_chain h p (qs @ [r]) rem" "rem < 65536"
  shows "\<exists>h' p'. pbuf_alloc_pool_tail h p r rem = Some (h', p') \<and> tail_done h p (qs @ [r]) rem h' p'"
  using assms
proof (induction rem arbitrary: h qs r rule: less_induct)
  case (less rem)
  have ok: "heap_ok h" and ch: "chain h p (qs @ [r])" and refs: "\<forall>q\<in>set (qs @ [r]). p_ref (pb h q) = 1"
    using less.prems by (simp_all add: partial_chain_def)
  show ?case
  proof (cases "rem = 0")
    case True
    then show ?thesis
      using less.prems(1) ok ch by (subst pbuf_alloc_pool_tail.simps) (auto simp: tail_done_def intro!: exI [of _ "[]"])
  next
    case False
    show ?thesis
    proof (cases rule: malloc_cases [of h "pool_payload h"])
      case fail
      let ?h = "h\<lparr>brk := brk h + 1\<rparr>"
      have "chain ?h p (qs @ [r])" "heap_ok ?h"
        using ch ok chain_cong [of "qs @ [r]" ?h h] by (auto simp: heap_ok_def)
      then obtain h' n where "pbuf_free ?h p = Some (h', n)" "heap_ok h'"
        "\<forall>x. pbufs h' x = (if x \<in> set (qs @ [r]) then None else pbufs h x)"
        using release_all [of ?h p "qs @ [r]"] refs by auto
      then show ?thesis
        using False fail by (subst pbuf_alloc_pool_tail.simps) (simp add: tail_done_def)
    next
      case q: ok
      obtain rb where rb: "pbufs h r = Some rb"
        using chain_live [OF ch, of r] by auto
      define len where "len = min rem PBUF_POOL_BUFSIZE"
      define h2 where "h2 = put_pbuf (brk h) \<lparr>p_next = NULL, payload = (brk h, 0), tot_len = of_nat rem,
          p_len = of_nat len, p_type = PBUF_POOL, p_flags = 0, p_ref = 1\<rparr> (put_pbuf r (rb\<lparr>p_next := brk h\<rparr>)
          (h\<lparr>brk := brk h + 1, blocks := (blocks h)(brk h := Some (map (junk h (brk h)) [0..<pool_payload h]))\<rparr>))"
      have st: "partial_chain h2 p ((qs @ [r]) @ [brk h]) (rem - len)"
        "\<And>x. x \<notin> set (qs @ [r, brk h]) \<Longrightarrow> pbufs h2 x = pbufs h x"
        "lens h2 (qs @ [r, brk h]) = lens h (qs @ [r]) + len"
        using partial_chain_step [OF less.prems(1) _ less.prems(2) rb] False
        unfolding len_def [symmetric] h2_def [symmetric] by simp_all
      have run: "pbuf_alloc_pool_tail h p r rem = pbuf_alloc_pool_tail h2 p (brk h) (rem - len)"
        using False q rb by (subst pbuf_alloc_pool_tail.simps) (simp add: Let_def len_def h2_def)
      have fresh: "pbufs h (brk h) = None"
        using ok by (simp add: heap_ok_def)
      have lt: "rem - len < rem" and add: "rem - (rem - len) = len"
        using False by (simp_all add: len_def PBUF_POOL_BUFSIZE_def)
      obtain h' p' where IH: "pbuf_alloc_pool_tail h2 p (brk h) (rem - len) = Some (h', p')"
        "tail_done h2 p ((qs @ [r]) @ [brk h]) (rem - len) h' p'"
        using less.IH [OF lt st(1)] less.prems(2) lt by auto
      have "pbufs h2 x \<noteq> None" if "x \<in> set ((qs @ [r]) @ [brk h])" for x
        using st(1) chain_live that unfolding partial_chain_def by blast
      then have "tail_done h p (qs @ [r]) rem h' p'"
        by (intro tail_done_step [OF IH(2) fresh]) (simp_all add: st(2) st(3) [simplified] add)
      then show ?thesis
        using run IH(1) by simp
    qed
  qed
qed

lemma partial_chain_packet: "partial_chain h p qs 0 \<Longrightarrow> packet h p qs"
  by (simp add: partial_chain_def packet_def tot_lens_ok_nth)

text \<open>What an allocation of \<open>n\<close> octets promises.\<close>

definition allocated :: "heap \<Rightarrow> nat \<Rightarrow> heap \<Rightarrow> ptr \<Rightarrow> bool" where
  "allocated h n h' p \<longleftrightarrow> heap_ok h' \<and>
     (if p = NULL then pbufs h' = pbufs h
      else \<exists>qs. packet h' p qs \<and> lens h' qs = n \<and> (\<forall>q\<in>set qs. pbufs h q = None \<and> p_ref (pb h' q) = 1)
           \<and> (\<forall>x. x \<notin> set qs \<longrightarrow> pbufs h' x = pbufs h x))"

lemma tail_done_allocated:
  assumes "tail_done h p' [] n h' p"
  shows "allocated h n h' p \<and> (p \<noteq> NULL \<and> pool_payload h' = PBUF_POOL_BUFSIZE
    \<longrightarrow> (\<exists>qs bs. packet h' p qs \<and> chain_data h' qs = Some bs))"
proof (cases "p = NULL")
  case True
  then show ?thesis
    using assms by (auto simp: tail_done_def allocated_def)
next
  case False
  then obtain ts where ts: "partial_chain h' p ts 0" "lens h' ts = n" "\<forall>x\<in>set ts. pbufs h x = None"
    "\<forall>x. x \<notin> set ts \<longrightarrow> pbufs h' x = pbufs h x" "heap_ok h'"
    using assms by (auto simp: tail_done_def)
  have "packet h' p ts"
    using ts(1) by (rule partial_chain_packet)
  moreover have "\<forall>q\<in>set ts. p_ref (pb h' q) = 1"
    using ts(1) by (simp add: partial_chain_def)
  moreover have "\<exists>bs. chain_data h' ts = Some bs" if "pool_payload h' = PBUF_POOL_BUFSIZE"
    using ts(1) that fits_chain_data [of ts h'] by (simp add: partial_chain_def)
  ultimately show ?thesis
    using False ts(2-5) by (auto simp: allocated_def)
qed

lemma alloc_ram:
  assumes "heap_ok h"
  shows "\<exists>h' p. pbuf_alloc h l n PBUF_RAM = Some (h', p) \<and> allocated h (unat n) h' p
    \<and> (p \<noteq> NULL \<longrightarrow> fits h' p \<and> snd (payload (pb h' p)) = int (pbuf_offset l))"
proof (cases rule: malloc_cases [of h "pbuf_offset l + unat n"])
  case fail
  then show ?thesis
    using assms by (simp add: pbuf_alloc_def allocated_def heap_ok_def Let_def)
next
  case ok
  then show ?thesis
    using assms
    by (auto simp: pbuf_alloc_def allocated_def heap_ok_def Let_def fits_def packet_Cons intro!: exI [of _ "[brk h]"])
qed

lemma alloc_external:
  assumes "heap_ok h" "t \<in> {PBUF_ROM, PBUF_REF}"
  shows "\<exists>h' p. pbuf_alloc h l n t = Some (h', p) \<and> allocated h (unat n) h' p"
proof -
  let ?h = "h\<lparr>brk := brk h + 1\<rparr>"
  let ?b = "\<lparr>p_next = NULL, payload = (NULL, 0), tot_len = n, p_len = n, p_type = t, p_flags = 0, p_ref = 1\<rparr>"
  have a: "pbuf_alloc h l n t = Some (if brk h \<noteq> NULL \<and> mem_ok h (brk h) then (put_pbuf (brk h) ?b ?h, brk h) else (?h, NULL))"
    using assms(2) by (auto simp: pbuf_alloc_def memp_malloc_pbuf_def Let_def)
  have "allocated h (unat n) (put_pbuf (brk h) ?b ?h) (brk h)"
    using assms(1) unfolding allocated_def
    by (auto simp: heap_ok_def packet_Cons intro!: exI [of _ "[brk h]"])
  moreover have "allocated h (unat n) ?h NULL"
    using assms(1) by (simp add: allocated_def heap_ok_def)
  ultimately show ?thesis
    unfolding a by simp
qed

lemma alloc_pool:
  assumes "heap_ok h"
  shows "\<exists>h' p. pbuf_alloc h l n PBUF_POOL = Some (h', p) \<and> allocated h (unat n) h' p
    \<and> (p \<noteq> NULL \<and> pool_payload h' = PBUF_POOL_BUFSIZE
        \<longrightarrow> (\<exists>qs bs. packet h' p qs \<and> chain_data h' qs = Some bs))"
proof (cases rule: malloc_cases [of h "pool_payload h"])
  case fail
  then show ?thesis
    using assms by (simp add: pbuf_alloc_def allocated_def heap_ok_def Let_def)
next
  case ok
  define len where "len = min (unat n) (PBUF_POOL_BUFSIZE - pbuf_offset l)"
  define h1 where "h1 = put_pbuf (brk h) \<lparr>p_next = NULL, payload = (brk h, int (pbuf_offset l)), tot_len = n,
    p_len = of_nat len, p_type = PBUF_POOL, p_flags = 0, p_ref = 1\<rparr> (h\<lparr>brk := brk h + 1,
    blocks := (blocks h)(brk h := Some (map (junk h (brk h)) [0..<pool_payload h]))\<rparr>)"
  have n: "unat n < 65536"
    using unat_lt [of n] by simp
  have o: "pbuf_offset l \<le> PBUF_POOL_BUFSIZE"
    by (cases l) (simp_all add: pbuf_offset_def PBUF_POOL_BUFSIZE_def PBUF_LINK_HLEN_def)
  have len: "unat (of_nat len :: u16) = len" "len + (unat n - len) = unat n"
    using n by (simp_all add: len_def unsigned_of_nat take_bit_eq_mod)
  have fresh: "pbufs h (brk h) = None"
    using assms by (simp add: heap_ok_def)
  have bound: "pbuf_offset l + len \<le> PBUF_POOL_BUFSIZE"
    using o unfolding len_def by linarith
  have pc: "partial_chain h1 (brk h) ([] @ [brk h]) (unat n - len)"
    using assms ok(1) len bound unfolding partial_chain_def h1_def
    by (simp add: heap_ok_def fits_def)
  have run: "pbuf_alloc h l n PBUF_POOL = pbuf_alloc_pool_tail h1 (brk h) (brk h) (unat n - len)"
    using ok by (simp add: pbuf_alloc_def Let_def len_def h1_def)
  obtain h' p where t: "pbuf_alloc_pool_tail h1 (brk h) (brk h) (unat n - len) = Some (h', p)"
    "tail_done h1 (brk h) ([] @ [brk h]) (unat n - len) h' p"
    using alloc_pool_tail [OF pc] less_imp_diff_less [OF n] by blast
  have "tail_done h (brk h) [] (unat n) h' p"
    by (rule tail_done_step [OF t(2) fresh]) (use len in \<open>simp_all add: h1_def\<close>)
  then have a: "allocated h (unat n) h' p" "p \<noteq> NULL \<and> pool_payload h' = PBUF_POOL_BUFSIZE
      \<longrightarrow> (\<exists>qs bs. packet h' p qs \<and> chain_data h' qs = Some bs)"
    using tail_done_allocated [of h "brk h" "unat n" h' p] by simp_all
  show ?thesis
    unfolding run t(1) using a by (intro exI [of _ h'] exI [of _ p] conjI refl)
qed

section \<open>Counting and splitting\<close>

lemma pbuf_clen_chain: "chain h p qs \<Longrightarrow> pbuf_clen h p = Some (of_nat (length qs))"
proof (induction qs arbitrary: p)
  case Nil
  then show ?case
    by (subst pbuf_clen.simps) simp
next
  case (Cons q qs)
  then show ?case
    by (subst pbuf_clen.simps) (auto simp: add.commute)
qed

lemma pbuf_dechain_packet:
  assumes p: "packet h p (p # q # qs)" and few: "length (q # qs) < 256"
  shows "\<exists>h'. pbuf_dechain h p = Some (h', if p_ref (pb h q) = 1 then NULL else q)
    \<and> packet h' p [p] \<and> (if p_ref (pb h q) = 1 then pbufs h' q = None else packet h' q (q # qs))"
proof -
  obtain b c where b: "p \<noteq> NULL" "pbufs h p = Some b" "p_next b = q" "q \<noteq> NULL" "pbufs h q = Some c"
    "packet h (p_next c) qs" "unat (tot_len b) = unat (p_len b) + lens h (q # qs)"
    "unat (tot_len c) = lens h (q # qs)"
    using p by (auto simp: packet_Cons)
  have dist: "distinct (p # q # qs)"
    using chain_distinct p unfolding packet_def by blast
  have "unat (tot_len b - p_len b) = unat (tot_len c)"
    using b(7,8) by (simp add: unat_sub word_le_nat_alt)
  then have "tot_len b - p_len b = tot_len c"
    by (simp only: word_unat_eq_iff)
  then have c: "c\<lparr>tot_len := tot_len b - p_len b\<rparr> = c"
    by simp
  define h1 where "h1 = put_pbuf p (b\<lparr>p_next := NULL, tot_len := p_len b\<rparr>) (put_pbuf q c h)"
  have h1: "pbufs h1 x = (if x = p then Some (b\<lparr>p_next := NULL, tot_len := p_len b\<rparr>) else pbufs h x)" for x
    using b(5) by (simp add: h1_def)
  have tail: "packet h1 q (q # qs)"
  proof (subst packet_cong [of "q # qs" h1 h q])
    show "pbufs h1 x = pbufs h x" if "x \<in> set (q # qs)" for x
      using that dist by (auto simp: h1)
  qed (use p b in \<open>auto simp: packet_Cons\<close>)
  obtain h' where h': "pbuf_free h1 q = Some (h', of_nat (length (unref_prefix h1 (q # qs))))" "release h1 (q # qs) h'"
    using pbuf_free_loop_chain [of h1 q "q # qs" 0] tail b(4) by (auto simp: pbuf_free_def packet_def)
  have hp: "pbufs h' p = Some (b\<lparr>p_next := NULL, tot_len := p_len b\<rparr>)"
    using release_other(1) [OF h'(2), of p] dist by (auto simp: h1)
  have l: "length (unref_prefix h1 (q # qs)) < 256"
    using few length_takeWhile_le [of "\<lambda>q. p_ref (pb h1 q) = 1" "q # qs"] unfolding unref_prefix_def by linarith
  have gone: "(of_nat (length (unref_prefix h1 (q # qs))) :: u8) > 0 \<longleftrightarrow> p_ref (pb h q) = 1"
    using l dist b(5) by (auto simp: word_less_nat_alt unsigned_of_nat take_bit_eq_mod unref_prefix_def h1)
  have run: "pbuf_dechain h p = Some (h', if p_ref (pb h q) = 1 then NULL else q)"
    using b c h'(1) gone dist by (auto simp: pbuf_dechain_def h1_def Let_def)
  have q: "if p_ref (pb h q) = 1 then pbufs h' q = None else packet h' q (q # qs)"
  proof (cases "p_ref c = 1")
    case True
    then show ?thesis
      using h'(2) b(5) dist by (simp add: release_def unref_prefix_def Let_def h1)
  next
    case False
    then have "pbufs h' = (pbufs h1)(q := Some (c\<lparr>p_ref := p_ref c - 1\<rparr>))"
      using h'(2) b(5) dist by (auto simp: release_def unref_prefix_def Let_def h1 fun_eq_iff)
    moreover have "packet h' (p_next c) qs = packet h (p_next c) qs" "lens h' qs = lens h qs"
      using dist calculation by (intro packet_cong lens_cong; auto simp: h1)+
    ultimately show ?thesis
      using False b by (simp add: packet_Cons)
  qed
  have "packet h' p [p]"
    using hp b(1) by (simp add: packet_Cons)
  then show ?thesis
    using run q by blast
qed

section \<open>Properties\<close>

text \<open>A heap with a chain of two RAM pbufs of 3 and 2 octets at the addresses 1 and 2 and a third pbuf
  of one octet, on which the properties are applied.\<close>

definition three_pbufs :: heap where
  "three_pbufs = \<lparr>
     pbufs = [1 \<mapsto> \<lparr>p_next = 2, payload = (1, 4), tot_len = 5, p_len = 3, p_type = PBUF_RAM, p_flags = 0, p_ref = 1\<rparr>,
              2 \<mapsto> \<lparr>p_next = 0, payload = (2, 0), tot_len = 2, p_len = 2, p_type = PBUF_RAM, p_flags = 0, p_ref = 1\<rparr>,
              3 \<mapsto> \<lparr>p_next = 0, payload = (3, 0), tot_len = 1, p_len = 1, p_type = PBUF_RAM, p_flags = 0, p_ref = 2\<rparr>],
     blocks = [1 \<mapsto> [0, 0, 0, 0, 10, 11, 12], 2 \<mapsto> [13, 14], 3 \<mapsto> [15]],
     brk = 4, mem_ok = (\<lambda>p. True), junk = (\<lambda>p i. 0), pool_payload = PBUF_POOL_BUFSIZE\<rparr>"

lemma three_pbufs_packets [simp]:
  "packet three_pbufs (Suc 0) [Suc 0, 2]" "packet three_pbufs 3 [3]" "own_payload three_pbufs [Suc 0, 2]"
  "chain_data three_pbufs [Suc 0, 2] = Some [10, 11, 12, 13, 14]" "heap_ok three_pbufs"
  by (simp_all add: packet_Cons three_pbufs_def own_payload_def pbuf_data_def mem_read_def heap_ok_def)

text \<open>C20. Allocation is always defined: it either returns NULL and leaves the live pbufs as they were,
  also when it fails in the middle of a pool chain, or returns a packet of new pbufs with reference count 1
  whose lengths add up to the requested length, and touches no other pbuf. A RAM pbuf has its room for
  the headers of the layer in front of the payload.\<close>

theorem pbuf_alloc_allocates:
  assumes "heap_ok h"
  shows "\<exists>h' p. pbuf_alloc h l n t = Some (h', p) \<and> allocated h (unat n) h' p
    \<and> (t = PBUF_RAM \<and> p \<noteq> NULL \<longrightarrow> fits h' p \<and> snd (payload (pb h' p)) = int (pbuf_offset l))"
  using alloc_ram [OF assms, of l n] alloc_pool [OF assms, of l n] alloc_external [OF assms, of t l n]
  by (cases t) fastforce+

theorem pbuf_alloc_allocates_witness:
  "\<exists>h' p. pbuf_alloc three_pbufs PBUF_RAW 4000 PBUF_POOL = Some (h', p) \<and> allocated three_pbufs 4000 h' p"
  using pbuf_alloc_allocates [of three_pbufs PBUF_RAW 4000 PBUF_POOL] by fastforce

text \<open>C21. Freeing a chain returns, and releases exactly the longest run of pbufs at its front that nobody
  else refers to; the first pbuf with another reference only loses one, and everything behind it stays.\<close>

theorem pbuf_free_releases:
  assumes "chain h p qs"
  shows "\<exists>h'. pbuf_free h p = Some (h', of_nat (length (unref_prefix h qs))) \<and> release h qs h'"
  using pbuf_free_loop_chain [OF assms, of 0] assms
  by (cases "p = NULL") (auto simp: pbuf_free_def release_def unref_prefix_def)

theorem pbuf_free_releases_witness:
  "\<exists>h'. pbuf_free three_pbufs 1 = Some (h', 2) \<and> release three_pbufs [1, 2] h'"
proof -
  have "chain three_pbufs 1 [1, 2]" "length (unref_prefix three_pbufs [1, 2]) = 2"
    by (simp_all add: three_pbufs_def unref_prefix_def)
  then show ?thesis
    using pbuf_free_releases [of three_pbufs 1 "[1, 2]"] by simp
qed

text \<open>Shrinking a packet to fewer octets returns, keeps the length invariant, leaves exactly the first
  octets of the contents, and frees the pbufs behind the new end when nobody else holds them.\<close>

theorem pbuf_realloc_shrinks:
  assumes "packet h p qs" "qs \<noteq> []" "unat new_len < lens h qs"
  shows "\<exists>h' keep x rest. qs = keep @ x # rest \<and> pbuf_realloc h p new_len = Some h'
    \<and> packet h' p (keep @ [x]) \<and> lens h' (keep @ [x]) = unat new_len
    \<and> (\<forall>bs. own_payload h qs \<longrightarrow> chain_data h qs = Some bs \<longrightarrow> chain_data h' (keep @ [x]) = Some (take (unat new_len) bs))
    \<and> ((\<forall>y\<in>set qs. p_ref (pb h y) = 1) \<longrightarrow> (\<forall>y\<in>set rest. pbufs h' y = None))"
  using assms by (rule pbuf_realloc_packet)

theorem pbuf_realloc_shrinks_witness:
  "\<exists>h' keep x. pbuf_realloc three_pbufs 1 2 = Some h' \<and> packet h' 1 (keep @ [x])
     \<and> chain_data h' (keep @ [x]) = Some [10, 11]"
proof -
  have l: "unat (2::u16) < lens three_pbufs [1, 2]"
    by (simp add: three_pbufs_def)
  have p: "packet three_pbufs 1 [1, 2]" "own_payload three_pbufs [1, 2]"
    "chain_data three_pbufs [1, 2] = Some [10, 11, 12, 13, 14]"
    by simp_all
  have "take (unat (2::u16)) [10, 11, 12, 13, 14] = [10, 11::u8]"
    by simp
  then show ?thesis
    using pbuf_realloc_shrinks [OF p(1) _ l] p(2,3) by (metis list.distinct(1))
qed

text \<open>Hiding a header that lies in the first pbuf drops its octets from the contents and keeps the
  packet well formed; revealing the same number of octets restores the heap. In front of a RAM pbuf exactly
  the octets that its block has can be revealed, and a payload outside lwIP's memory never grows.\<close>

theorem pbuf_header_moves_payload:
  assumes "packet h p (p # qs)" "n \<le> unat (p_len (pb h p))" "0 < n" "n < 32768"
    and "0 \<le> snd (payload (pb h p))" "chain_data h (p # qs) = Some bs"
  shows "(\<exists>h'. pbuf_header h p (- of_nat n) = Some (h', False) \<and> packet h' p (p # qs)
      \<and> chain_data h' (p # qs) = Some (drop n bs)
      \<and> (p_type (pb h p) \<in> {PBUF_RAM, PBUF_POOL} \<longrightarrow> pbuf_header h' p (of_nat n) = Some (h, False)))
    \<and> (\<exists>h'. pbuf_header h p (of_nat n) = Some (h', p_type (pb h p) \<in> {PBUF_ROM, PBUF_REF} \<or> int n > snd (payload (pb h p))))"
proof -
  obtain b where b: "pbufs h p = Some b" "p \<noteq> NULL"
    using assms(1) by (auto simp: packet_Cons)
  obtain h' where h': "pbuf_header h p (- of_nat n) = Some (h', False)" "packet h' p (p # qs)"
    "chain_data h' (p # qs) = Some (drop n bs)"
    using header_hide_packet [OF assms(1,2) _ assms(5,6)] assms(4) by auto
  moreover have "pbuf_header h' p (of_nat n) = Some (h, False)" if "p_type (pb h p) \<in> {PBUF_RAM, PBUF_POOL}"
    using header_roundtrip [of h p b n] assms(2-5) b h'(1) that by simp
  moreover have "\<exists>h'. pbuf_header h p (of_nat n)
      = Some (h', p_type (pb h p) \<in> {PBUF_ROM, PBUF_REF} \<or> int n > snd (payload (pb h p)))"
    using header_reveal [OF b assms(3,4)] header_reveal_external [OF b assms(3,4)] b
    by (cases "p_type b") auto
  ultimately show ?thesis
    by blast
qed

theorem pbuf_header_moves_payload_witness:
  "\<exists>h'. pbuf_header three_pbufs 1 (- of_nat 2) = Some (h', False) \<and> chain_data h' [1, 2] = Some [12, 13, 14]
     \<and> pbuf_header h' 1 (of_nat 2) = Some (three_pbufs, False)"
proof -
  have "p_len (pb three_pbufs 1) = 3" "payload (pb three_pbufs 1) = (1, 4)" "p_type (pb three_pbufs 1) = PBUF_RAM"
    by (simp_all add: three_pbufs_def)
  then show ?thesis
    using pbuf_header_moves_payload [of three_pbufs 1 "[2]" 2 "[10, 11, 12, 13, 14]"] by fastforce
qed

text \<open>Concatenating two packets with no pbuf in common, whose lengths fit in 16 bits, gives one packet:
  every total length is right again and the contents are those of the first followed by those of the second.\<close>

theorem pbuf_cat_concatenates:
  assumes "packet h p qs" "qs \<noteq> []" "packet h t ts" "ts \<noteq> []" "set qs \<inter> set ts = {}"
    and "lens h qs + lens h ts < 65536" "chain_data h qs = Some a" "chain_data h ts = Some b"
  shows "\<exists>h'. pbuf_cat h p t = Some h' \<and> packet h' p (qs @ ts) \<and> chain_data h' (qs @ ts) = Some (a @ b)
    \<and> (\<forall>x. x \<notin> set qs \<longrightarrow> pbufs h' x = pbufs h x)"
proof -
  have "chain_data h (qs @ ts) = Some (a @ b)"
    using assms(7,8) by (auto simp: chain_data_append)
  then show ?thesis
    using pbuf_cat_packet [OF assms(1-6)] by (auto simp: linked_def)
qed

theorem pbuf_cat_concatenates_witness:
  "\<exists>h'. pbuf_cat three_pbufs 1 3 = Some h' \<and> packet h' 1 [1, 2, 3] \<and> chain_data h' [1, 2, 3] = Some [10, 11, 12, 13, 14, 15]"
proof -
  have "chain_data three_pbufs [3] = Some [15]" "lens three_pbufs [Suc 0, 2] = 5" "lens three_pbufs [3] = 1"
    by (simp_all add: three_pbufs_def pbuf_data_def mem_read_def)
  then show ?thesis
    using pbuf_cat_concatenates [of three_pbufs 1 "[1, 2]" 3 "[3]" "[10, 11, 12, 13, 14]" "[15]"] by fastforce
qed

text \<open>Copying out of a packet from any offset delivers the octets of the contents from there, at most
  as many as asked for, across any number of pbufs.\<close>

theorem pbuf_copy_partial_reads:
  assumes "chain h p qs" "chain_data h qs = Some bs"
  shows "pbuf_copy_partial h p len offset = Some (take (unat len) (drop (unat offset) bs))"
  using assms by (rule copy_partial_chain)

theorem pbuf_copy_partial_reads_witness: "pbuf_copy_partial three_pbufs 1 3 1 = Some [11, 12, 13]"
proof -
  have "chain three_pbufs 1 [1, 2]"
    by (simp add: three_pbufs_def)
  then show ?thesis
    using pbuf_copy_partial_reads [of three_pbufs 1 "[1, 2]" "[10, 11, 12, 13, 14]" 3 1] by simp
qed

text \<open>Dechaining splits a packet of up to 256 pbufs: the first pbuf becomes a packet of its own; the
  rest is a packet again and returned, or NULL is returned when the reference of the first pbuf was the last one.\<close>

theorem pbuf_dechain_splits:
  assumes "packet h p (p # q # qs)" "length (q # qs) < 256"
  shows "\<exists>h'. pbuf_dechain h p = Some (h', if p_ref (pb h q) = 1 then NULL else q)
    \<and> packet h' p [p] \<and> (if p_ref (pb h q) = 1 then pbufs h' q = None else packet h' q (q # qs))"
  using assms by (rule pbuf_dechain_packet)

theorem pbuf_dechain_splits_witness:
  "\<exists>h'. pbuf_dechain three_pbufs 1 = Some (h', NULL) \<and> packet h' 1 [1] \<and> pbufs h' 2 = None"
proof -
  have "p_ref (pb three_pbufs 2) = 1"
    by (simp add: three_pbufs_def)
  then show ?thesis
    using pbuf_dechain_splits [of three_pbufs 1 2 "[]"] by simp
qed

end
