(* ===== verification/Stack.thy ===== *)
theory Stack
  imports Checksum Pbuf_Alloc
begin

text \<open>
  The data of the lwIP stack above the pbufs: interfaces (\<^verbatim>\<open>netif.h\<close>), IP and TCP headers
  (\<^verbatim>\<open>ip.h\<close>, \<^verbatim>\<open>tcp.h\<close>), segments, protocol control blocks, and the one record
  \<open>stack\<close> that holds the global and static variables of \<^verbatim>\<open>tcp.c\<close>, \<^verbatim>\<open>ip.c\<close> and
  \<^verbatim>\<open>netif.c\<close>.

  A header struct lies in the payload memory of a pbuf that only its segment uses, and is kept as a
  record of the segment: the fields have the byte order of the C struct, and the octets of a header
  replace the front of the payload for a checksum (\<open>overlay\<close>) and when a packet leaves the stack. The intrusive lists of
  segments and control blocks are lists. Every call out of the stack, a packet given to the driver of
  an interface or an entry of its multicast filter, is recorded in \<open>link\<close>; what the driver returns is given by
  \<open>drv_err\<close>. Memory that C leaves uninitialised has the contents \<open>tcp_junk\<close> and \<open>junk_byte\<close>.
\<close>

unbundle bit_operations_syntax

type_synonym s16 = "16 word"
type_synonym fptr = nat

section \<open>Interfaces\<close>

record netif =
  nf_ip_addr :: ip_addr
  nf_netmask :: ip_addr
  nf_gw :: ip_addr
  nf_mtu :: u16
  nf_flags :: u8
  nf_name :: "u8 \<times> u8"
  nf_num :: u8
  nf_igmp_mac_filter :: fptr

definition NETIF_FLAG_UP :: u8 where "NETIF_FLAG_UP = 0x01"
definition NETIF_FLAG_BROADCAST :: u8 where "NETIF_FLAG_BROADCAST = 0x02"
definition NETIF_FLAG_IGMP :: u8 where "NETIF_FLAG_IGMP = 0x40"

definition netif_is_up :: "netif \<Rightarrow> bool" where
  "netif_is_up nf \<longleftrightarrow> nf_flags nf AND NETIF_FLAG_UP \<noteq> 0"

section \<open>IP headers\<close>

record ip_hdr =
  v_hl_tos :: u16
  ih_len :: u16
  ih_id :: u16
  ih_offset :: u16
  ttl_proto :: u16
  ih_chksum :: u16
  ih_src :: ip_addr
  ih_dest :: ip_addr

definition IPH_V :: "ip_hdr \<Rightarrow> u16" where "IPH_V h = drop_bit 12 (ntohs (v_hl_tos h))"
definition IPH_HL :: "ip_hdr \<Rightarrow> u16" where "IPH_HL h = drop_bit 8 (ntohs (v_hl_tos h)) AND 0x0f"
definition IPH_TTL :: "ip_hdr \<Rightarrow> u16" where "IPH_TTL h = drop_bit 8 (ntohs (ttl_proto h))"
definition IPH_PROTO :: "ip_hdr \<Rightarrow> u16" where "IPH_PROTO h = ntohs (ttl_proto h) AND 0xff"

definition IPH_VHLTOS_SET :: "u16 \<Rightarrow> u16 \<Rightarrow> u8 \<Rightarrow> ip_hdr \<Rightarrow> ip_hdr" where
  "IPH_VHLTOS_SET v hl tos h = h\<lparr>v_hl_tos := htons (push_bit 12 v OR push_bit 8 hl OR ucast tos)\<rparr>"

definition IPH_TTL_SET :: "u8 \<Rightarrow> ip_hdr \<Rightarrow> ip_hdr" where
  "IPH_TTL_SET ttl h = h\<lparr>ttl_proto := htons (IPH_PROTO h OR push_bit 8 (ucast ttl))\<rparr>"

definition IPH_PROTO_SET :: "u8 \<Rightarrow> ip_hdr \<Rightarrow> ip_hdr" where
  "IPH_PROTO_SET proto h = h\<lparr>ttl_proto := htons (ucast proto OR push_bit 8 (IPH_TTL h))\<rparr>"

text \<open>The octets of a 16-bit field of a packed struct on the little-endian target.\<close>

definition mem_bytes16 :: "u16 \<Rightarrow> u8 list" where
  "mem_bytes16 w = [ucast w, ucast (drop_bit 8 w)]"

definition ip_hdr_octets :: "ip_hdr \<Rightarrow> u8 list" where
  "ip_hdr_octets h = mem_bytes16 (v_hl_tos h) @ mem_bytes16 (ih_len h) @ mem_bytes16 (ih_id h)
     @ mem_bytes16 (ih_offset h) @ mem_bytes16 (ttl_proto h) @ mem_bytes16 (ih_chksum h)
     @ mem_bytes32 (ih_src h) @ mem_bytes32 (ih_dest h)"

section \<open>TCP headers and segments\<close>

record tcp_hdr =
  h_src :: u16
  h_dest :: u16
  h_seqno :: u32
  h_ackno :: u32
  hdrlen_rsvd_flags :: u16
  h_wnd :: u16
  h_chksum :: u16
  h_urgp :: u16

definition tcp_hdr_octets :: "tcp_hdr \<Rightarrow> u8 list" where
  "tcp_hdr_octets h = mem_bytes16 (h_src h) @ mem_bytes16 (h_dest h) @ mem_bytes32 (h_seqno h)
     @ mem_bytes32 (h_ackno h) @ mem_bytes16 (hdrlen_rsvd_flags h) @ mem_bytes16 (h_wnd h)
     @ mem_bytes16 (h_chksum h) @ mem_bytes16 (h_urgp h)"

definition TCP_FIN :: u8 where "TCP_FIN = 0x01"
definition TCP_SYN :: u8 where "TCP_SYN = 0x02"
definition TCP_RST :: u8 where "TCP_RST = 0x04"
definition TCP_PSH :: u8 where "TCP_PSH = 0x08"
definition TCP_ACK :: u8 where "TCP_ACK = 0x10"
definition TCP_FLAGS :: u16 where "TCP_FLAGS = 0x3f"

definition has :: "u8 \<Rightarrow> u8 \<Rightarrow> bool" where
  "has f m \<longleftrightarrow> f AND m \<noteq> 0"

definition TCPH_HDRLEN :: "tcp_hdr \<Rightarrow> u16" where
  "TCPH_HDRLEN h = drop_bit 12 (ntohs (hdrlen_rsvd_flags h))"

definition TCPH_FLAGS :: "tcp_hdr \<Rightarrow> u16" where
  "TCPH_FLAGS h = ntohs (hdrlen_rsvd_flags h) AND TCP_FLAGS"

definition TCPH_HDRLEN_SET :: "u16 \<Rightarrow> tcp_hdr \<Rightarrow> tcp_hdr" where
  "TCPH_HDRLEN_SET len h = h\<lparr>hdrlen_rsvd_flags := htons (push_bit 12 len OR TCPH_FLAGS h)\<rparr>"

definition TCPH_FLAGS_SET :: "u8 \<Rightarrow> tcp_hdr \<Rightarrow> tcp_hdr" where
  "TCPH_FLAGS_SET f h = h\<lparr>hdrlen_rsvd_flags := htons ((ntohs (hdrlen_rsvd_flags h) AND NOT TCP_FLAGS) OR ucast f)\<rparr>"

definition TCPH_SET_FLAG :: "u8 \<Rightarrow> tcp_hdr \<Rightarrow> tcp_hdr" where
  "TCPH_SET_FLAG f h = h\<lparr>hdrlen_rsvd_flags := htons (ntohs (hdrlen_rsvd_flags h) OR ucast f)\<rparr>"

text \<open>The flags of a header as the 8-bit value the code tests.\<close>

definition hdr_flags :: "tcp_hdr \<Rightarrow> u8" where
  "hdr_flags h = ucast (TCPH_FLAGS h)"

record tcp_seg =
  s_p :: ptr
  s_dataptr :: "ptr \<times> int"
  s_len :: u16
  s_tcphdr :: "ptr \<times> int"
  s_hdr :: tcp_hdr

definition TCP_TCPLEN :: "tcp_seg \<Rightarrow> nat" where
  "TCP_TCPLEN seg = unat (s_len seg)
     + (if has (hdr_flags (s_hdr seg)) TCP_FIN \<or> has (hdr_flags (s_hdr seg)) TCP_SYN then 1 else 0)"

section \<open>Sequence numbers\<close>

definition TCP_SEQ_LT :: "u32 \<Rightarrow> u32 \<Rightarrow> bool" where
  "TCP_SEQ_LT a b \<longleftrightarrow> sint (a - b) < 0"

definition TCP_SEQ_LEQ :: "u32 \<Rightarrow> u32 \<Rightarrow> bool" where
  "TCP_SEQ_LEQ a b \<longleftrightarrow> sint (a - b) \<le> 0"

definition TCP_SEQ_GT :: "u32 \<Rightarrow> u32 \<Rightarrow> bool" where
  "TCP_SEQ_GT a b \<longleftrightarrow> sint (a - b) > 0"

definition TCP_SEQ_GEQ :: "u32 \<Rightarrow> u32 \<Rightarrow> bool" where
  "TCP_SEQ_GEQ a b \<longleftrightarrow> sint (a - b) \<ge> 0"

definition TCP_SEQ_BETWEEN :: "u32 \<Rightarrow> u32 \<Rightarrow> u32 \<Rightarrow> bool" where
  "TCP_SEQ_BETWEEN a b c \<longleftrightarrow> TCP_SEQ_GEQ a b \<and> TCP_SEQ_LEQ a c"

section \<open>Control blocks\<close>

datatype tcp_state = CLOSED | LISTEN | SYN_SENT | SYN_RCVD | ESTABLISHED | FIN_WAIT_1 | FIN_WAIT_2
  | CLOSE_WAIT | CLOSING | LAST_ACK | TIME_WAIT

definition TF_ACK_DELAY :: u8 where "TF_ACK_DELAY = 0x01"
definition TF_ACK_NOW :: u8 where "TF_ACK_NOW = 0x02"
definition TF_INFR :: u8 where "TF_INFR = 0x04"
definition TF_RESET :: u8 where "TF_RESET = 0x08"
definition TF_CLOSED :: u8 where "TF_CLOSED = 0x10"
definition TF_GOT_FIN :: u8 where "TF_GOT_FIN = 0x20"
definition TF_FIN :: u8 where "TF_FIN = 0x20"
definition TF_NODELAY :: u8 where "TF_NODELAY = 0x40"
definition TF_NAGLEMEMERR :: u8 where "TF_NAGLEMEMERR = 0x80"

definition SOF_ACCEPTCONN :: u16 where "SOF_ACCEPTCONN = 0x0002"
definition SOF_KEEPALIVE :: u16 where "SOF_KEEPALIVE = 0x0008"

record tcp_pcb =
  local_ip :: ip_addr
  remote_ip :: ip_addr
  so_options :: u16
  tos :: u8
  ttl :: u8
  pcb_state :: tcp_state
  prio :: u8
  callback_arg :: nat
  local_port :: u16
  remote_port :: u16
  pcb_flags :: u8
  rcv_nxt :: u32
  rcv_wnd :: u16
  rcv_ann_wnd :: u16
  tmr :: u32
  polltmr :: u8
  pollinterval :: u8
  rtime :: s16
  mss :: u16
  rttest :: u32
  rtseq :: u32
  sa :: s16
  sv :: s16
  rto :: s16
  nrtx :: u8
  lastack :: u32
  dupacks :: u8
  cwnd :: u16
  ssthresh :: u16
  snd_nxt :: u32
  snd_max :: u32
  snd_wnd :: u16
  snd_wl1 :: u32
  snd_wl2 :: u32
  snd_lbb :: u32
  acked :: u16
  snd_buf :: u16
  snd_queuelen :: u16
  unsent :: "tcp_seg list"
  unacked :: "tcp_seg list"
  ooseq :: "tcp_seg list"
  refused_data :: ptr
  cb_sent :: fptr
  cb_recv :: fptr
  cb_connected :: fptr
  cb_accept :: fptr
  cb_poll :: fptr
  cb_errf :: fptr
  keep_idle :: u32
  persist_cnt :: u32
  persist_backoff :: u8
  keep_cnt_sent :: u8

record tcp_pcb_listen =
  l_local_ip :: ip_addr
  l_so_options :: u16
  l_tos :: u8
  l_ttl :: u8
  l_prio :: u8
  l_callback_arg :: nat
  l_local_port :: u16
  l_accept :: fptr

record udp_pcb =
  u_local_ip :: ip_addr
  u_remote_ip :: ip_addr
  u_so_options :: u16
  u_tos :: u8
  u_ttl :: u8
  u_flags :: u8
  u_local_port :: u16
  u_remote_port :: u16
  u_multicast_ip :: ip_addr
  u_recv :: fptr
  u_recv_arg :: nat

record raw_pcb =
  r_local_ip :: ip_addr
  r_remote_ip :: ip_addr
  r_so_options :: u16
  r_tos :: u8
  r_ttl :: u8
  r_protocol :: u8
  r_recv :: fptr
  r_recv_arg :: nat

section \<open>Reassembly and multicast groups\<close>

text \<open>A fragment in a reassembly queue: its pbuf and the range of the datagram it holds. The source keeps the
  range in the memory of the IP header of the fragment.\<close>

record ip_reass_helper =
  fr_p :: ptr
  fr_start :: u16
  fr_end :: u16

record ip_reassdata =
  rd_next :: ptr
  rd_p :: "ip_reass_helper list"
  rd_iphdr :: ip_hdr
  rd_datagram_len :: u16
  rd_flags :: u8
  rd_timer :: u8

datatype igmp_state = IGMP_GROUP_NON_MEMBER | IGMP_GROUP_DELAYING_MEMBER | IGMP_GROUP_IDLE_MEMBER

record igmp_group =
  g_interface :: ptr
  group_address :: ip_addr
  last_reporter_flag :: bool
  group_state :: igmp_state
  g_timer :: u16
  g_use :: u8

section \<open>The stack\<close>

datatype link_event = Output ptr "u8 list" ip_addr | Mac_Filter ptr ip_addr bool

record stack =
  mem :: heap
  netifs :: "ptr \<Rightarrow> netif option"
  netif_list :: "ptr list"
  netif_default :: ptr
  ip_id :: u16
  link :: "link_event list"
  drv_err :: "nat \<Rightarrow> err"
  tcp_ticks :: u32
  tcp_timer :: u8
  tcp_iss :: u32
  tcp_port :: u16
  pcbs :: "ptr \<Rightarrow> tcp_pcb option"
  lpcbs :: "ptr \<Rightarrow> tcp_pcb_listen option"
  tcp_bound_pcbs :: "ptr list"
  tcp_listen_pcbs :: "ptr list"
  tcp_active_pcbs :: "ptr list"
  tcp_tw_pcbs :: "ptr list"
  tcp_input_pcb :: ptr
  tcp_junk :: tcp_hdr
  junk_byte :: u8
  frag_buf :: ptr
  reass :: "ptr \<Rightarrow> ip_reassdata option"
  reassdatagrams :: ptr
  ip_reass_pbufcount :: u16
  upcbs :: "ptr \<Rightarrow> udp_pcb option"
  udp_pcbs :: "ptr list"
  rpcbs :: "ptr \<Rightarrow> raw_pcb option"
  raw_pcbs :: "ptr list"
  groups :: "ptr \<Rightarrow> igmp_group option"
  igmp_group_list :: "ptr list"
  allsystems :: ip_addr
  allrouters :: ip_addr
  igmp_ip_id :: u16
  netifnum :: u8

definition TCP_MSS :: u16 where "TCP_MSS = 1460"
definition TCP_WND :: u16 where "TCP_WND = 63 * 1024"
definition TCP_SND_BUF :: u16 where "TCP_SND_BUF = 63 * 1024"
definition TCP_SND_QUEUELEN :: u16 where "TCP_SND_QUEUELEN = 4 * (63 * 1024 div 1460)"
definition TCP_SNDQUEUELEN_OVERFLOW :: u16 where "TCP_SNDQUEUELEN_OVERFLOW = 0xffff - 3"
definition TCP_HLEN :: u16 where "TCP_HLEN = 20"
definition IP_HLEN :: u16 where "IP_HLEN = 20"
definition IP_PROTO_TCP :: u8 where "IP_PROTO_TCP = 6"
definition TCP_TTL :: u8 where "TCP_TTL = 255"

text \<open>The octets of the pbufs of a chain, one list per pbuf.\<close>

partial_function (option) pbuf_octets :: "heap \<Rightarrow> ptr \<Rightarrow> u8 list list option" where
  "pbuf_octets h p =
     (if p = NULL then Some []
      else do {
        pb \<leftarrow> pbufs h p;
        x \<leftarrow> mem_read h (payload pb) (unat (p_len pb));
        xs \<leftarrow> pbuf_octets h (p_next pb);
        Some (x # xs)
      })"

declare pbuf_octets.simps [code]

text \<open>The chain with the octets of a header at the front of its first pbuf.\<close>

fun overlay :: "u8 list \<Rightarrow> u8 list list \<Rightarrow> u8 list list" where
  "overlay hdr [] = []"
| "overlay hdr (x # xs) = (hdr @ drop (length hdr) x) # xs"

text \<open>\<^verbatim>\<open>memp_malloc\<close> of a struct: its address or \<open>NULL\<close>.\<close>

definition memp_malloc :: "stack \<Rightarrow> stack \<times> ptr" where
  "memp_malloc s = (let (h, a) = memp_malloc_pbuf (mem s) in (s\<lparr>mem := h\<rparr>, a))"

definition pbuf_free_s :: "stack \<Rightarrow> ptr \<Rightarrow> (stack \<times> u8) option" where
  "pbuf_free_s s p = do { (h, n) \<leftarrow> pbuf_free (mem s) p; Some (s\<lparr>mem := h\<rparr>, n) }"

definition pbuf_alloc_s :: "stack \<Rightarrow> pbuf_layer \<Rightarrow> u16 \<Rightarrow> pbuf_type \<Rightarrow> (stack \<times> ptr) option" where
  "pbuf_alloc_s s l n t = do { (h, p) \<leftarrow> pbuf_alloc (mem s) l n t; Some (s\<lparr>mem := h\<rparr>, p) }"

definition pbuf_header_s :: "stack \<Rightarrow> ptr \<Rightarrow> u16 \<Rightarrow> (stack \<times> bool) option" where
  "pbuf_header_s s p n = do { (h, f) \<leftarrow> pbuf_header (mem s) p n; Some (s\<lparr>mem := h\<rparr>, f) }"

text \<open>The headers in memory.\<close>

definition load16w :: "u8 list \<Rightarrow> nat \<Rightarrow> u16" where
  "load16w bs i = ucast (load16 (bs ! i) (bs ! (i + 1)))"

definition load32w :: "u8 list \<Rightarrow> nat \<Rightarrow> u32" where
  "load32w bs i = load32 (bs ! i) (bs ! (i + 1)) (bs ! (i + 2)) (bs ! (i + 3))"

definition ip_hdr_of :: "u8 list \<Rightarrow> ip_hdr" where
  "ip_hdr_of bs = \<lparr>v_hl_tos = load16w bs 0, ih_len = load16w bs 2, ih_id = load16w bs 4, ih_offset = load16w bs 6,
     ttl_proto = load16w bs 8, ih_chksum = load16w bs 10, ih_src = load32w bs 12, ih_dest = load32w bs 16\<rparr>"

definition read_ip_hdr :: "heap \<Rightarrow> ptr \<times> int \<Rightarrow> ip_hdr option" where
  "read_ip_hdr h a = do { bs \<leftarrow> mem_read h a 20; Some (ip_hdr_of bs) }"

end
