(* ===== verification/Ip_Frag.thy ===== *)
theory Ip_Frag
  imports Stack
begin

text \<open>
  Fragmentation of IP datagrams, \<^verbatim>\<open>ip_frag\<close> of \<^verbatim>\<open>core/ipv4/ip_frag.c\<close>, in the
  configuration of the build (\<^verbatim>\<open>IP_FRAG_USES_STATIC_BUF\<close>): every fragment is put together in
  one static buffer of \<^verbatim>\<open>IP_FRAG_MAX_MTU\<close> octets, the block \<open>frag_buf\<close> of the memory.
\<close>

unbundle bit_operations_syntax

definition IP_MF :: u16 where "IP_MF = 0x2000"
definition IP_OFFMASK :: u16 where "IP_OFFMASK = 0x1fff"

text \<open>\<^verbatim>\<open>netif->output\<close>: the driver gets the packet \<open>p\<close> as it is in memory.\<close>

definition netif_output :: "stack \<Rightarrow> ptr \<Rightarrow> ptr \<Rightarrow> ip_addr \<Rightarrow> (stack \<times> err) option" where
  "netif_output s nif p dest =
     do {
       xs \<leftarrow> pbuf_octets (mem s) p;
       Some (s\<lparr>link := link s @ [Output nif (concat xs) dest]\<rparr>, drv_err s (length (link s)))
     }"

text \<open>The header of a fragment, from the contents \<open>h\<close> of the buffer.\<close>

definition ip_frag_hdr :: "ip_hdr \<Rightarrow> u16 \<Rightarrow> u16 \<Rightarrow> ip_hdr" where
  "ip_frag_hdr h tmp cop =
     (let h = h\<lparr>ih_offset := htons tmp\<rparr>;
          h = h\<lparr>ih_len := htons (cop + IP_HLEN)\<rparr>;
          h = h\<lparr>ih_chksum := 0\<rparr>
      in h\<lparr>ih_chksum := inet_chksum (ip_hdr_octets h)\<rparr>)"

text \<open>\<^verbatim>\<open>(mtu - IP_HLEN) / 8\<close> in \<^verbatim>\<open>int\<close>, which C truncates towards zero.\<close>

definition ip_frag_nfb :: "u16 \<Rightarrow> u16" where
  "ip_frag_nfb mtu = (let d = int (unat mtu) - int (unat IP_HLEN)
     in of_int (if 0 \<le> d then d div 8 else - ((- d) div 8)))"

text \<open>The end of the body of the loop: a new pbuf for the link header goes in front of the fragment, and both go to the
  driver. The result says whether the pbuf could be allocated.\<close>

definition ip_frag_send :: "stack \<Rightarrow> ptr \<Rightarrow> ip_addr \<Rightarrow> ptr \<Rightarrow> (stack \<times> bool) option" where
  "ip_frag_send s nif dest rambuf =
     do {
       (s, header) \<leftarrow> pbuf_alloc_s s PBUF_LINK 0 PBUF_RAM;
       if header \<noteq> NULL
       then do {
         h \<leftarrow> pbuf_chain (mem s) header rambuf;
         (s, _) \<leftarrow> netif_output (s\<lparr>mem := h\<rparr>) nif header dest;
         (s, _) \<leftarrow> pbuf_free_s s header;
         Some (s, True)
       }
       else do { (s, _) \<leftarrow> pbuf_free_s s rambuf; Some (s, False) }
     }"

text \<open>The body of the loop: put one fragment together and send it.\<close>

definition ip_frag_one ::
    "stack \<Rightarrow> ptr \<Rightarrow> ptr \<Rightarrow> ip_addr \<Rightarrow> ptr \<Rightarrow> bool \<Rightarrow> u16 \<Rightarrow> u16 \<Rightarrow> u16 \<Rightarrow> u16 \<Rightarrow> (stack \<times> u16 \<times> bool) option" where
  "ip_frag_one s p nif dest rambuf last_frag left tmp cop poff =
     do {
       ws \<leftarrow> pbuf_copy_partial (mem s) p cop poff;
       h \<leftarrow> mem_write (mem s) (frag_buf s, int (unat IP_HLEN)) ws;
       let poff = poff + of_nat (length ws);
       iphdr \<leftarrow> read_ip_hdr h (frag_buf s, 0);
       h \<leftarrow> mem_write h (frag_buf s, 0) (ip_hdr_octets (ip_frag_hdr iphdr tmp cop));
       h \<leftarrow> (if last_frag then pbuf_realloc h rambuf (left + IP_HLEN) else Some h);
       (s, sent) \<leftarrow> ip_frag_send (s\<lparr>mem := h\<rparr>) nif dest rambuf;
       Some (s, poff, sent)
     }"

partial_function (option) ip_frag_loop ::
    "stack \<Rightarrow> ptr \<Rightarrow> ptr \<Rightarrow> ip_addr \<Rightarrow> ptr \<Rightarrow> u16 \<Rightarrow> u16 \<Rightarrow> u16 \<Rightarrow> u16 \<Rightarrow> u16 \<Rightarrow> u16 \<Rightarrow> (stack \<times> err) option" where
  "ip_frag_loop s p nif dest rambuf mtu nfb omf left ofo poff =
     (if left = 0
      then do { (s, _) \<leftarrow> pbuf_free_s s rambuf; Some (s, ERR_OK) }
      else do {
        let last_frag = (int (unat left) \<le> int (unat mtu) - int (unat IP_HLEN));
        let tmp = omf OR (IP_OFFMASK AND ofo);
        let tmp = (if \<not> last_frag then tmp OR IP_MF else tmp);
        let cop = (if last_frag then left else nfb * 8);
        (s, poff, sent) \<leftarrow> ip_frag_one s p nif dest rambuf last_frag left tmp cop poff;
        if sent then ip_frag_loop s p nif dest rambuf mtu nfb omf (left - cop) (ofo + nfb) poff
        else Some (s, ERR_MEM)
      })"

declare ip_frag_loop.simps [code]

definition ip_frag :: "stack \<Rightarrow> ptr \<Rightarrow> ptr \<Rightarrow> ip_addr \<Rightarrow> (stack \<times> err) option" where
  "ip_frag s p nif dest =
     do {
       nf \<leftarrow> netifs s nif;
       let mtu = nf_mtu nf;
       (s, rambuf) \<leftarrow> pbuf_alloc_s s PBUF_LINK 0 PBUF_REF;
       if rambuf = NULL then Some (s, ERR_MEM)
       else do {
         rb \<leftarrow> pbufs (mem s) rambuf;
         let h = put_pbuf rambuf (rb\<lparr>tot_len := mtu, p_len := mtu, payload := (frag_buf s, 0)\<rparr>) (mem s);
         pb \<leftarrow> pbufs h p;
         ws \<leftarrow> mem_read h (payload pb) (unat IP_HLEN);
         h \<leftarrow> mem_write h (frag_buf s, 0) ws;
         iphdr \<leftarrow> read_ip_hdr h (frag_buf s, 0);
         let tmp = ntohs (ih_offset iphdr);
         ip_frag_loop (s\<lparr>mem := h\<rparr>) p nif dest rambuf mtu (ip_frag_nfb mtu) (tmp AND IP_MF)
           (tot_len pb - IP_HLEN) (tmp AND IP_OFFMASK) IP_HLEN
       }
     }"

section \<open>What fragmentation leaves alone\<close>

text \<open>\<open>frame\<close> is the stack without the parts that sending and the pbufs change.\<close>

definition no_heap :: heap where
  "no_heap = \<lparr>pbufs = (\<lambda>p. None), blocks = (\<lambda>p. None), brk = 1, mem_ok = (\<lambda>p. False), junk = (\<lambda>p i. 0), pool_payload = 0\<rparr>"

definition frame :: "stack \<Rightarrow> stack" where
  "frame s = s\<lparr>mem := no_heap, ip_id := 0, link := []\<rparr>"

lemma frame_upd [simp]: "frame (s\<lparr>mem := h\<rparr>) = frame s" "frame (s\<lparr>ip_id := i\<rparr>) = frame s" "frame (s\<lparr>link := l\<rparr>) = frame s"
  by (simp_all add: frame_def)

named_theorems io "functions that keep the frame of the stack"

lemma pbuf_free_s_io [io]: "pbuf_free_s s p = Some (s', n) \<Longrightarrow> frame s' = frame s"
  by (auto simp: pbuf_free_s_def bind_eq_Some_conv)

lemma pbuf_alloc_s_io [io]: "pbuf_alloc_s s l n t = Some (s', p) \<Longrightarrow> frame s' = frame s"
  by (auto simp: pbuf_alloc_s_def bind_eq_Some_conv)

lemma pbuf_header_s_io [io]: "pbuf_header_s s p n = Some (s', f) \<Longrightarrow> frame s' = frame s"
  by (auto simp: pbuf_header_s_def bind_eq_Some_conv)

lemma memp_malloc_io [io]: "memp_malloc s = (s', p) \<Longrightarrow> frame s' = frame s"
  by (auto simp: memp_malloc_def split: prod.splits)

lemma netif_output_io [io]: "netif_output s nif p dest = Some (s', e) \<Longrightarrow> frame s' = frame s"
  by (auto simp: netif_output_def bind_eq_Some_conv)

lemma ip_frag_send_io [io]: "ip_frag_send s nif dest r = Some (s', b) \<Longrightarrow> frame s' = frame s"
  by (auto simp: ip_frag_send_def bind_eq_Some_conv split: if_splits dest!: io)

lemma ip_frag_one_io [io]:
  "ip_frag_one s p nif dest rambuf l left tmp cop poff = Some (s', poff', b) \<Longrightarrow> frame s' = frame s"
  by (auto simp: ip_frag_one_def bind_eq_Some_conv Let_def split: if_splits dest!: io)

lemma ip_frag_loop_io:
  "ip_frag_loop s p nif dest rambuf mtu nfb omf left ofo poff = Some r \<Longrightarrow> frame (fst r) = frame s"
proof (induction rule: ip_frag_loop.raw_induct [rotated, consumes 1, case_names step])
  case (step loop s p nif dest rambuf mtu nfb omf left ofo poff r)
  then show ?case
    by (auto simp: Let_def split: if_split_asm Option.bind_split_asm dest!: io step.IH)
qed

lemma ip_frag_io [io]: "ip_frag s p nif dest = Some (s', e) \<Longrightarrow> frame s' = frame s"
  by (auto simp: ip_frag_def bind_eq_Some_conv Let_def split: if_splits dest!: io ip_frag_loop_io)

end
