(* ===== verification/Ip.thy ===== *)
theory Ip
  imports Ip_Frag
begin

text \<open>
  Addresses, routing and output of IP: \<^verbatim>\<open>core/ipv4/ip_addr.c\<close> and the sending half of
  \<^verbatim>\<open>core/ipv4/ip.c\<close>. The argument \<open>over\<close> of the output functions holds the octets of the
  header that the upper layer keeps in a record; they are written to the payload memory before the packet
  goes to the driver or is fragmented.
\<close>

unbundle bit_operations_syntax

definition ip_addr_isany :: "ip_addr \<Rightarrow> bool" where
  "ip_addr_isany a \<longleftrightarrow> a = 0"

definition ip_addr_isbroadcast :: "ip_addr \<Rightarrow> netif \<Rightarrow> bool" where
  "ip_addr_isbroadcast addr2test nf \<longleftrightarrow>
     (if NOT addr2test = 0 \<or> addr2test = 0 then True
      else if nf_flags nf AND NETIF_FLAG_BROADCAST = 0 then False
      else if addr2test = nf_ip_addr nf then False
      else ip_addr_netcmp addr2test (nf_ip_addr nf) (nf_netmask nf)
           \<and> addr2test AND NOT (nf_netmask nf) = 0xffffffff AND NOT (nf_netmask nf))"

fun ip_route_list :: "stack \<Rightarrow> ip_addr \<Rightarrow> ptr list \<Rightarrow> ptr option" where
  "ip_route_list s dest [] = Some NULL"
| "ip_route_list s dest (n # ns) =
     do {
       nf \<leftarrow> netifs s n;
       if netif_is_up nf \<and> ip_addr_netcmp dest (nf_ip_addr nf) (nf_netmask nf) then Some n
       else ip_route_list s dest ns
     }"

definition ip_route :: "stack \<Rightarrow> ip_addr \<Rightarrow> ptr option" where
  "ip_route s dest =
     do {
       n \<leftarrow> ip_route_list s dest (netif_list s);
       if n \<noteq> NULL then Some n
       else if netif_default s = NULL then Some NULL
       else do {
         nf \<leftarrow> netifs s (netif_default s);
         if \<not> netif_is_up nf then Some NULL else Some (netif_default s)
       }
     }"

text \<open>The header that \<^verbatim>\<open>ip_output_if\<close> writes, from the contents \<open>h\<close> of the memory.\<close>

definition ip_build_hdr ::
    "ip_hdr \<Rightarrow> ip_addr \<Rightarrow> ip_addr \<Rightarrow> u8 \<Rightarrow> u8 \<Rightarrow> u8 \<Rightarrow> u16 \<Rightarrow> u16 \<Rightarrow> ip_hdr" where
  "ip_build_hdr h src dest ttl' tos' proto n ident =
     (let h = IPH_TTL_SET ttl' h;
          h = IPH_PROTO_SET proto h;
          h = h\<lparr>ih_dest := dest\<rparr>;
          h = IPH_VHLTOS_SET 4 (IP_HLEN div 4) tos' h;
          h = h\<lparr>ih_len := htons n\<rparr>;
          h = h\<lparr>ih_offset := 0\<rparr>;
          h = h\<lparr>ih_id := htons ident\<rparr>;
          h = h\<lparr>ih_src := src\<rparr>;
          h = h\<lparr>ih_chksum := 0\<rparr>
      in h\<lparr>ih_chksum := inet_chksum (ip_hdr_octets h)\<rparr>)"

text \<open>The rest of \<^verbatim>\<open>ip_output_if\<close> once the packet \<open>p\<close> has its header.\<close>

definition ip_transmit :: "stack \<Rightarrow> ptr \<Rightarrow> u8 list \<Rightarrow> ip_addr \<Rightarrow> ptr \<Rightarrow> (stack \<times> err) option" where
  "ip_transmit s p over dest nif =
     do {
       nf \<leftarrow> netifs s nif;
       pb \<leftarrow> pbufs (mem s) p;
       h \<leftarrow> mem_write (mem s) (payload pb) over;
       let s = s\<lparr>mem := h\<rparr>;
       if nf_mtu nf \<noteq> 0 \<and> tot_len pb > nf_mtu nf then ip_frag s p nif dest else netif_output s nif p dest
     }"

text \<open>The destination \<open>None\<close> is \<^verbatim>\<open>IP_HDRINCL\<close>: the packet has its IP header already, and the
  destination is read from it.\<close>

definition ip_output_if ::
    "stack \<Rightarrow> ptr \<Rightarrow> u8 list \<Rightarrow> ip_addr \<Rightarrow> ip_addr option \<Rightarrow> u8 \<Rightarrow> u8 \<Rightarrow> u8 \<Rightarrow> ptr \<Rightarrow> (stack \<times> err) option" where
  "ip_output_if s p over src dest ttl' tos' proto nif =
     (case dest of
        Some d \<Rightarrow> do {
          (s, fail) \<leftarrow> pbuf_header_s s p IP_HLEN;
          if fail then Some (s, ERR_BUF)
          else do {
            pb \<leftarrow> pbufs (mem s) p;
            nf \<leftarrow> netifs s nif;
            let src = (if ip_addr_isany src then nf_ip_addr nf else src);
            iphdr \<leftarrow> read_ip_hdr (mem s) (payload pb);
            let hdr = ip_build_hdr iphdr src d ttl' tos' proto (tot_len pb) (ip_id s);
            let s = s\<lparr>ip_id := ip_id s + 1\<rparr>;
            ip_transmit s p (ip_hdr_octets hdr @ over) d nif
          }
        }
      | None \<Rightarrow> do {
          pb \<leftarrow> pbufs (mem s) p;
          iphdr \<leftarrow> read_ip_hdr (mem s) (payload pb);
          ip_transmit s p [] (ih_dest iphdr) nif
        })"

definition ip_output ::
    "stack \<Rightarrow> ptr \<Rightarrow> u8 list \<Rightarrow> ip_addr \<Rightarrow> ip_addr \<Rightarrow> u8 \<Rightarrow> u8 \<Rightarrow> u8 \<Rightarrow> (stack \<times> err) option" where
  "ip_output s p over src dest ttl' tos' proto =
     do {
       nif \<leftarrow> ip_route s dest;
       if nif = NULL then Some (s, ERR_RTE)
       else ip_output_if s p over src (Some dest) ttl' tos' proto nif
     }"

end
