(* ===== verification/Tcp_Out.thy ===== *)
theory Tcp_Out
  imports Ip
begin

text \<open>
  The sending half of TCP, \<^verbatim>\<open>core/tcp_out.c\<close>, and the segment lists of \<^verbatim>\<open>core/tcp.c\<close>.

  A function of the source that takes a control block and calls no application callback takes the
  block as a record, with its address \<open>a\<close> where the address matters, and returns the changed record.
  \<open>None\<close> is undefined behaviour: an access outside live memory.
\<close>

unbundle bit_operations_syntax

section \<open>Segment lists\<close>

definition tcp_seg_free :: "stack \<Rightarrow> tcp_seg \<Rightarrow> (stack \<times> u8) option" where
  "tcp_seg_free s seg = (if s_p seg \<noteq> NULL then pbuf_free_s s (s_p seg) else Some (s, 0))"

fun tcp_segs_free :: "stack \<Rightarrow> tcp_seg list \<Rightarrow> (stack \<times> u8) option" where
  "tcp_segs_free s [] = Some (s, 0)"
| "tcp_segs_free s (seg # segs) =
     do { (s, n) \<leftarrow> tcp_seg_free s seg; (s, m) \<leftarrow> tcp_segs_free s segs; Some (s, n + m) }"

text \<open>The copy shares the pbuf, which gains a reference; \<open>None\<close> in the result is \<^verbatim>\<open>NULL\<close>.\<close>

definition tcp_seg_copy :: "stack \<Rightarrow> tcp_seg \<Rightarrow> (stack \<times> tcp_seg option) option" where
  "tcp_seg_copy s seg =
     (let (s, cseg) = memp_malloc s
      in if cseg = NULL then Some (s, None)
         else do { h \<leftarrow> pbuf_ref (mem s) (s_p seg); Some (s\<lparr>mem := h\<rparr>, Some seg) })"

section \<open>Sending a segment\<close>

text \<open>The checksum of a segment: the field is cleared, then set to the sum over the pseudo header and
  the pbufs of \<open>p\<close>.\<close>

definition tcp_chksum :: "heap \<Rightarrow> ptr \<Rightarrow> tcp_hdr \<Rightarrow> ip_addr \<Rightarrow> ip_addr \<Rightarrow> tcp_hdr option" where
  "tcp_chksum h p hdr lip rip =
     do {
       pb \<leftarrow> pbufs h p;
       xs \<leftarrow> pbuf_octets h p;
       let hdr = hdr\<lparr>h_chksum := 0\<rparr>;
       Some (hdr\<lparr>h_chksum := inet_chksum_pseudo (overlay (tcp_hdr_octets hdr) xs) lip rip IP_PROTO_TCP (tot_len pb)\<rparr>)
     }"

definition tcp_output_segment :: "stack \<Rightarrow> tcp_seg \<Rightarrow> tcp_pcb \<Rightarrow> (stack \<times> tcp_seg \<times> tcp_pcb) option" where
  "tcp_output_segment s seg pcb =
     do {
       let seg = seg\<lparr>s_hdr := (s_hdr seg)\<lparr>h_ackno := htonl (rcv_nxt pcb), h_wnd := htons (rcv_ann_wnd pcb)\<rparr>\<rparr>;
       lip \<leftarrow> (if ip_addr_isany (local_ip pcb)
         then do {
           n \<leftarrow> ip_route s (remote_ip pcb);
           if n = NULL then Some None else do { nf \<leftarrow> netifs s n; Some (Some (nf_ip_addr nf)) }
         }
         else Some (Some (local_ip pcb)));
       case lip of
         None \<Rightarrow> Some (s, seg, pcb)
       | Some ip \<Rightarrow> do {
           let pcb = pcb\<lparr>local_ip := ip\<rparr>;
           let pcb = (if rtime pcb = -1 then pcb\<lparr>rtime := 0\<rparr> else pcb);
           let pcb = (if rttest pcb = 0
             then pcb\<lparr>rttest := tcp_ticks s, rtseq := ntohl (h_seqno (s_hdr seg))\<rparr> else pcb);
           pb \<leftarrow> pbufs (mem s) (s_p seg);
           let len = (of_int (snd (s_tcphdr seg) - snd (payload pb)) :: u16);
           let pb = pb\<lparr>p_len := p_len pb - len, tot_len := tot_len pb - len, payload := s_tcphdr seg\<rparr>;
           let s = s\<lparr>mem := put_pbuf (s_p seg) pb (mem s)\<rparr>;
           hdr \<leftarrow> tcp_chksum (mem s) (s_p seg) (s_hdr seg) (local_ip pcb) (remote_ip pcb);
           let seg = seg\<lparr>s_hdr := hdr\<rparr>;
           (s, _) \<leftarrow> ip_output s (s_p seg) (tcp_hdr_octets hdr) (local_ip pcb) (remote_ip pcb)
             (ttl pcb) (tos pcb) IP_PROTO_TCP;
           Some (s, seg, pcb)
         }
     }"

text \<open>The header of a segment without data, from the contents \<open>h\<close> of the memory.\<close>

definition tcp_empty_hdr :: "tcp_hdr \<Rightarrow> u16 \<Rightarrow> u16 \<Rightarrow> u32 \<Rightarrow> u32 \<Rightarrow> u8 \<Rightarrow> u16 \<Rightarrow> tcp_hdr" where
  "tcp_empty_hdr h lport rport seqno ackno flags wnd =
     (let h = h\<lparr>h_src := htons lport, h_dest := htons rport, h_seqno := htonl seqno, h_ackno := htonl ackno\<rparr>;
          h = TCPH_FLAGS_SET flags h;
          h = h\<lparr>h_wnd := htons wnd, h_urgp := 0\<rparr>
      in TCPH_HDRLEN_SET 5 h)"

text \<open>Sending the segment in the pbuf \<open>p\<close> and giving the pbuf up.\<close>

definition tcp_send_empty ::
    "stack \<Rightarrow> ptr \<Rightarrow> tcp_hdr \<Rightarrow> ip_addr \<Rightarrow> ip_addr \<Rightarrow> u8 \<Rightarrow> u8 \<Rightarrow> stack option" where
  "tcp_send_empty s p hdr lip rip ttl' tos' =
     do {
       hdr \<leftarrow> tcp_chksum (mem s) p hdr lip rip;
       (s, _) \<leftarrow> ip_output s p (tcp_hdr_octets hdr) lip rip ttl' tos' IP_PROTO_TCP;
       (s, _) \<leftarrow> pbuf_free_s s p;
       Some s
     }"

definition tcp_rst ::
    "stack \<Rightarrow> u32 \<Rightarrow> u32 \<Rightarrow> ip_addr \<Rightarrow> ip_addr \<Rightarrow> u16 \<Rightarrow> u16 \<Rightarrow> stack option" where
  "tcp_rst s seqno ackno lip rip lport rport =
     do {
       (s, p) \<leftarrow> pbuf_alloc_s s PBUF_IP TCP_HLEN PBUF_RAM;
       if p = NULL then Some s
       else tcp_send_empty s p (tcp_empty_hdr (tcp_junk s) lport rport seqno ackno (TCP_RST OR TCP_ACK) TCP_WND)
              lip rip TCP_TTL 0
     }"

definition tcp_keepalive :: "stack \<Rightarrow> tcp_pcb \<Rightarrow> stack option" where
  "tcp_keepalive s pcb =
     do {
       (s, p) \<leftarrow> pbuf_alloc_s s PBUF_IP TCP_HLEN PBUF_RAM;
       if p = NULL then Some s
       else tcp_send_empty s p (tcp_empty_hdr (tcp_junk s) (local_port pcb) (remote_port pcb)
              (snd_nxt pcb - 1) (rcv_nxt pcb) 0 (rcv_ann_wnd pcb)) (local_ip pcb) (remote_ip pcb) (ttl pcb) 0
     }"

text \<open>The probe carries one octet of the first unacknowledged, or else unsent, segment.\<close>

definition tcp_zero_window_probe :: "stack \<Rightarrow> tcp_pcb \<Rightarrow> stack option" where
  "tcp_zero_window_probe s pcb =
     (case unacked pcb @ unsent pcb of
        [] \<Rightarrow> Some s
      | seg # _ \<Rightarrow> do {
          (s, p) \<leftarrow> pbuf_alloc_s s PBUF_IP (TCP_HLEN + 1) PBUF_RAM;
          if p = NULL then Some s
          else do {
            let hdr = (tcp_empty_hdr (tcp_junk s) (local_port pcb) (remote_port pcb)
              0 (rcv_nxt pcb) 0 (rcv_ann_wnd pcb))\<lparr>h_seqno := h_seqno (s_hdr seg)\<rparr>;
            pb \<leftarrow> pbufs (mem s) p;
            b \<leftarrow> mem_read (mem s) (s_dataptr seg) 1;
            h \<leftarrow> mem_write (mem s) (ptr_add (payload pb) (unat TCP_HLEN)) b;
            tcp_send_empty (s\<lparr>mem := h\<rparr>) p hdr (local_ip pcb) (remote_ip pcb) (ttl pcb) 0
          }
        })"

section \<open>The output loop\<close>

definition tcp_do_output_nagle :: "tcp_pcb \<Rightarrow> bool" where
  "tcp_do_output_nagle pcb \<longleftrightarrow> unacked pcb = [] \<or> has (pcb_flags pcb) TF_NODELAY \<or> length (unsent pcb) \<ge> 2"

text \<open>The octets of the window a segment would use up to its end.\<close>

definition seg_window :: "tcp_pcb \<Rightarrow> tcp_seg \<Rightarrow> u32" where
  "seg_window pcb seg = ntohl (h_seqno (s_hdr seg)) - lastack pcb + ucast (s_len seg)"

text \<open>A sent segment goes to the end of the unacknowledged list, or to its front when it is older than
  the last one (fast retransmit); \<^verbatim>\<open>useg\<close> is always the last segment of that list.\<close>

definition tcp_unacked_insert :: "tcp_seg list \<Rightarrow> tcp_seg \<Rightarrow> tcp_seg list" where
  "tcp_unacked_insert us seg =
     (if us = [] then [seg]
      else if TCP_SEQ_LT (ntohl (h_seqno (s_hdr seg))) (ntohl (h_seqno (s_hdr (last us)))) then seg # us
      else us @ [seg])"

text \<open>What the loop does with the first unsent segment \<open>seg\<close>; \<open>rest\<close> is the list behind it.\<close>

definition tcp_output_one :: "stack \<Rightarrow> tcp_pcb \<Rightarrow> tcp_seg \<Rightarrow> tcp_seg list \<Rightarrow> (stack \<times> tcp_pcb) option" where
  "tcp_output_one s pcb seg rest =
     do {
       let pcb = pcb\<lparr>unsent := rest\<rparr>;
       let (seg, pcb) = (if pcb_state pcb \<noteq> SYN_SENT
         then (seg\<lparr>s_hdr := TCPH_SET_FLAG TCP_ACK (s_hdr seg)\<rparr>,
               pcb\<lparr>pcb_flags := pcb_flags pcb AND NOT (TF_ACK_DELAY OR TF_ACK_NOW)\<rparr>)
         else (seg, pcb));
       (s, seg, pcb) \<leftarrow> tcp_output_segment s seg pcb;
       let pcb = pcb\<lparr>snd_nxt := ntohl (h_seqno (s_hdr seg)) + of_nat (TCP_TCPLEN seg)\<rparr>;
       let pcb = (if TCP_SEQ_LT (snd_max pcb) (snd_nxt pcb) then pcb\<lparr>snd_max := snd_nxt pcb\<rparr> else pcb);
       if TCP_TCPLEN seg > 0
       then Some (s, pcb\<lparr>unacked := tcp_unacked_insert (unacked pcb) seg\<rparr>)
       else do { (s, _) \<leftarrow> tcp_seg_free s seg; Some (s, pcb) }
     }"

fun tcp_output_loop :: "stack \<Rightarrow> u32 \<Rightarrow> tcp_pcb \<Rightarrow> tcp_seg list \<Rightarrow> (stack \<times> tcp_pcb) option" where
  "tcp_output_loop s wnd pcb [] = Some (s, pcb)"
| "tcp_output_loop s wnd pcb (seg # rest) =
     (if seg_window pcb seg \<le> wnd
        \<and> (tcp_do_output_nagle pcb \<or> has (pcb_flags pcb) (TF_NAGLEMEMERR OR TF_FIN))
      then do { (s, pcb) \<leftarrow> tcp_output_one s pcb seg rest; tcp_output_loop s wnd pcb rest }
      else Some (s, pcb))"

declare tcp_output_loop.simps(2) [simp del]

text \<open>The acknowledgement without data at the start of \<^verbatim>\<open>tcp_output\<close>.\<close>

definition tcp_output_ack :: "stack \<Rightarrow> tcp_pcb \<Rightarrow> (stack \<times> tcp_pcb \<times> err) option" where
  "tcp_output_ack s pcb =
     do {
       (s, p) \<leftarrow> pbuf_alloc_s s PBUF_IP TCP_HLEN PBUF_RAM;
       if p = NULL then Some (s, pcb, ERR_BUF)
       else do {
         let pcb = pcb\<lparr>pcb_flags := pcb_flags pcb AND NOT (TF_ACK_DELAY OR TF_ACK_NOW)\<rparr>;
         s \<leftarrow> tcp_send_empty s p (tcp_empty_hdr (tcp_junk s) (local_port pcb) (remote_port pcb)
           (snd_nxt pcb) (rcv_nxt pcb) TCP_ACK (rcv_ann_wnd pcb)) (local_ip pcb) (remote_ip pcb) (ttl pcb) (tos pcb);
         Some (s, pcb, ERR_OK)
       }
     }"

definition tcp_output :: "stack \<Rightarrow> ptr \<Rightarrow> tcp_pcb \<Rightarrow> (stack \<times> tcp_pcb \<times> err) option" where
  "tcp_output s a pcb =
     (if tcp_input_pcb s = a then Some (s, pcb, ERR_OK)
      else let wnd = ucast (min (snd_wnd pcb) (cwnd pcb))
      in if has (pcb_flags pcb) TF_ACK_NOW
            \<and> (case unsent pcb of [] \<Rightarrow> True | seg # _ \<Rightarrow> seg_window pcb seg > wnd)
         then tcp_output_ack s pcb
         else do {
           (s, pcb) \<leftarrow> tcp_output_loop s wnd pcb (unsent pcb);
           let pcb = (case unsent pcb of
               [] \<Rightarrow> pcb
             | seg # _ \<Rightarrow> if persist_backoff pcb = 0 \<and> seg_window pcb seg > ucast (snd_wnd pcb)
                          then pcb\<lparr>persist_cnt := 0, persist_backoff := 1\<rparr> else pcb);
           Some (s, pcb\<lparr>pcb_flags := pcb_flags pcb AND NOT TF_NAGLEMEMERR\<rparr>, ERR_OK)
         })"

definition tcp_ack_now :: "stack \<Rightarrow> ptr \<Rightarrow> tcp_pcb \<Rightarrow> (stack \<times> tcp_pcb) option" where
  "tcp_ack_now s a pcb =
     do { (s, pcb, _) \<leftarrow> tcp_output s a (pcb\<lparr>pcb_flags := pcb_flags pcb OR TF_ACK_NOW\<rparr>); Some (s, pcb) }"

definition tcp_ack :: "stack \<Rightarrow> ptr \<Rightarrow> tcp_pcb \<Rightarrow> (stack \<times> tcp_pcb) option" where
  "tcp_ack s a pcb =
     (if has (pcb_flags pcb) TF_ACK_DELAY
      then do {
        (s, pcb, _) \<leftarrow> tcp_output s a (pcb\<lparr>pcb_flags := (pcb_flags pcb AND NOT TF_ACK_DELAY) OR TF_ACK_NOW\<rparr>);
        Some (s, pcb)
      }
      else Some (s, pcb\<lparr>pcb_flags := pcb_flags pcb OR TF_ACK_DELAY\<rparr>))"

section \<open>Retransmission\<close>

definition tcp_rexmit_rto :: "stack \<Rightarrow> ptr \<Rightarrow> tcp_pcb \<Rightarrow> (stack \<times> tcp_pcb) option" where
  "tcp_rexmit_rto s a pcb =
     (case unacked pcb of
        [] \<Rightarrow> Some (s, pcb)
      | seg # segs \<Rightarrow> do {
          let pcb = pcb\<lparr>unsent := unacked pcb @ unsent pcb, unacked := []\<rparr>;
          let pcb = pcb\<lparr>snd_nxt := ntohl (h_seqno (s_hdr seg)), nrtx := nrtx pcb + 1, rttest := 0\<rparr>;
          (s, pcb, _) \<leftarrow> tcp_output s a pcb;
          Some (s, pcb)
        })"

definition tcp_rexmit :: "stack \<Rightarrow> ptr \<Rightarrow> tcp_pcb \<Rightarrow> (stack \<times> tcp_pcb) option" where
  "tcp_rexmit s a pcb =
     (case unacked pcb of
        [] \<Rightarrow> Some (s, pcb)
      | seg # segs \<Rightarrow> do {
          let pcb = pcb\<lparr>unsent := seg # unsent pcb, unacked := segs\<rparr>;
          let pcb = pcb\<lparr>snd_nxt := ntohl (h_seqno (s_hdr seg)), nrtx := nrtx pcb + 1, rttest := 0\<rparr>;
          (s, pcb, _) \<leftarrow> tcp_output s a pcb;
          Some (s, pcb)
        })"

section \<open>Queueing\<close>

definition TCP_WRITE_FLAG_COPY :: u8 where "TCP_WRITE_FLAG_COPY = 0x01"
definition TCP_WRITE_FLAG_MORE :: u8 where "TCP_WRITE_FLAG_MORE = 0x02"

type_synonym data_arg = "(ptr \<times> int) option"
type_synonym opt_arg = "u8 list option"

text \<open>The pbufs of one segment: options, a copy of the data, or a header pbuf in front of a pbuf that
  refers to the data. The result is the pbuf, \<open>NULL\<close> for \<^verbatim>\<open>goto memerr\<close>, with the data
  pointer of the segment and the new queue length.\<close>

definition tcp_enqueue_pbuf ::
    "stack \<Rightarrow> data_arg \<Rightarrow> ptr \<times> int \<Rightarrow> u8 \<Rightarrow> opt_arg \<Rightarrow> u16 \<Rightarrow> u16
     \<Rightarrow> (stack \<times> ptr \<times> (ptr \<times> int) \<times> u16) option" where
  "tcp_enqueue_pbuf s arg dp apiflags optdata seglen queuelen =
     (case optdata of
        Some opt \<Rightarrow> do {
          (s, p) \<leftarrow> pbuf_alloc_s s PBUF_TRANSPORT (of_nat (length opt)) PBUF_RAM;
          if p = NULL then Some (s, NULL, dp, queuelen)
          else do {
            n \<leftarrow> pbuf_clen (mem s) p;
            pb \<leftarrow> pbufs (mem s) p;
            Some (s, p, payload pb, queuelen + ucast n)
          }
        }
      | None \<Rightarrow>
          if has apiflags TCP_WRITE_FLAG_COPY
          then do {
            (s, p) \<leftarrow> pbuf_alloc_s s PBUF_TRANSPORT seglen PBUF_RAM;
            if p = NULL then Some (s, NULL, dp, queuelen)
            else do {
              n \<leftarrow> pbuf_clen (mem s) p;
              pb \<leftarrow> pbufs (mem s) p;
              h \<leftarrow> (case arg of
                  None \<Rightarrow> Some (mem s)
                | Some _ \<Rightarrow> do { ws \<leftarrow> mem_read (mem s) dp (unat seglen); mem_write (mem s) (payload pb) ws });
              Some (s\<lparr>mem := h\<rparr>, p, payload pb, queuelen + ucast n)
            }
          }
          else do {
            (s, p) \<leftarrow> pbuf_alloc_s s PBUF_TRANSPORT seglen PBUF_ROM;
            if p = NULL then Some (s, NULL, dp, queuelen)
            else do {
              let queuelen = queuelen + 1;
              pb \<leftarrow> pbufs (mem s) p;
              let s = s\<lparr>mem := put_pbuf p (pb\<lparr>payload := dp\<rparr>) (mem s)\<rparr>;
              (s, hp) \<leftarrow> pbuf_alloc_s s PBUF_TRANSPORT 0 PBUF_RAM;
              if hp = NULL then do { (s, _) \<leftarrow> pbuf_free_s s p; Some (s, NULL, dp, queuelen) }
              else do {
                n \<leftarrow> pbuf_clen (mem s) hp;
                h \<leftarrow> pbuf_cat (mem s) hp p;
                Some (s\<lparr>mem := h\<rparr>, hp, dp, queuelen + ucast n)
              }
            }
          })"

text \<open>The header of a queued segment.\<close>

definition tcp_enqueue_hdr :: "tcp_hdr \<Rightarrow> tcp_pcb \<Rightarrow> u32 \<Rightarrow> u8 \<Rightarrow> opt_arg \<Rightarrow> tcp_hdr" where
  "tcp_enqueue_hdr h pcb seqno flags optdata =
     (let h = h\<lparr>h_src := htons (local_port pcb), h_dest := htons (remote_port pcb),
               h_seqno := htonl seqno, h_urgp := 0\<rparr>;
          h = TCPH_FLAGS_SET flags h
      in case optdata of
           None \<Rightarrow> TCPH_HDRLEN_SET 5 h
         | Some opt \<Rightarrow> TCPH_HDRLEN_SET (5 + of_nat (length opt div 4)) h)"

text \<open>One round of the loop of \<^verbatim>\<open>tcp_enqueue\<close>: the segment to append to the local queue (none
  when its struct could not be allocated), whether the round succeeded, and the new queue length.\<close>

definition tcp_enqueue_seg ::
    "stack \<Rightarrow> tcp_pcb \<Rightarrow> data_arg \<Rightarrow> ptr \<times> int \<Rightarrow> u8 \<Rightarrow> u8 \<Rightarrow> opt_arg \<Rightarrow> u16 \<Rightarrow> u32 \<Rightarrow> u16
     \<Rightarrow> (stack \<times> tcp_seg list \<times> bool \<times> u16) option" where
  "tcp_enqueue_seg s pcb arg dp flags apiflags optdata seglen seqno queuelen =
     (let (s, sg) = memp_malloc s
      in if sg = NULL then Some (s, [], False, queuelen)
         else do {
           (s, p, dataptr, queuelen) \<leftarrow> tcp_enqueue_pbuf s arg dp apiflags optdata seglen queuelen;
           let seg = \<lparr>s_p = p, s_dataptr = dataptr, s_len = seglen, s_tcphdr = (NULL, 0), s_hdr = tcp_junk s\<rparr>;
           if p = NULL then Some (s, [seg], False, queuelen)
           else if queuelen > TCP_SND_QUEUELEN \<or> queuelen > TCP_SNDQUEUELEN_OVERFLOW
           then Some (s, [seg], False, queuelen)
           else do {
             (s, fail) \<leftarrow> pbuf_header_s s p TCP_HLEN;
             if fail then Some (s, [seg], False, queuelen)
             else do {
               pb \<leftarrow> pbufs (mem s) p;
               let hdr = tcp_enqueue_hdr (tcp_junk s) pcb seqno flags optdata;
               h \<leftarrow> (case optdata of None \<Rightarrow> Some (mem s) | Some opt \<Rightarrow> mem_write (mem s) dataptr opt);
               Some (s\<lparr>mem := h\<rparr>, [seg\<lparr>s_tcphdr := payload pb, s_hdr := hdr\<rparr>], True, queuelen)
             }
           }
         })"

text \<open>The loop that breaks the data up: the queue, whether it is complete, the queue length and the
  length of the last segment.\<close>

partial_function (option) tcp_enqueue_loop ::
    "stack \<Rightarrow> tcp_pcb \<Rightarrow> data_arg \<Rightarrow> ptr \<times> int \<Rightarrow> u8 \<Rightarrow> u8 \<Rightarrow> opt_arg \<Rightarrow> u16 \<Rightarrow> u32 \<Rightarrow> u16 \<Rightarrow> u16
     \<Rightarrow> tcp_seg list \<Rightarrow> (stack \<times> tcp_seg list \<times> bool \<times> u16 \<times> u16) option" where
  "tcp_enqueue_loop s pcb arg dp flags apiflags optdata left seqno queuelen seglen queue =
     (if queue = [] \<or> left > 0
      then do {
        let seglen = (if left > mss pcb then mss pcb else left);
        (s, segs, ok, queuelen) \<leftarrow> tcp_enqueue_seg s pcb arg dp flags apiflags optdata seglen seqno queuelen;
        if \<not> ok then Some (s, queue @ segs, False, queuelen, seglen)
        else tcp_enqueue_loop s pcb arg (ptr_add dp (unat seglen)) flags apiflags optdata (left - seglen)
               (seqno + ucast seglen) queuelen seglen (queue @ segs)
      }
      else Some (s, queue, True, queuelen, seglen))"

declare tcp_enqueue_loop.simps [code]

definition tcp_enqueue_memerr :: "stack \<Rightarrow> tcp_pcb \<Rightarrow> tcp_seg list \<Rightarrow> (stack \<times> tcp_pcb \<times> err) option" where
  "tcp_enqueue_memerr s pcb queue =
     do {
       (s, _) \<leftarrow> tcp_segs_free s queue;
       Some (s, pcb\<lparr>pcb_flags := pcb_flags pcb OR TF_NAGLEMEMERR\<rparr>, ERR_MEM)
     }"

text \<open>Whether the first queued segment is chained to the last unsent one.\<close>

definition tcp_enqueue_fits :: "tcp_pcb \<Rightarrow> tcp_seg \<Rightarrow> tcp_seg \<Rightarrow> u8 \<Rightarrow> bool" where
  "tcp_enqueue_fits pcb useg queue flags \<longleftrightarrow>
     TCP_TCPLEN useg \<noteq> 0 \<and> \<not> has (hdr_flags (s_hdr useg)) (TCP_SYN OR TCP_FIN)
     \<and> \<not> has flags (TCP_SYN OR TCP_FIN)
     \<and> unat (s_len useg) + unat (s_len queue) \<le> unat (mss pcb)"

text \<open>The last segment of a list gets the PSH flag.\<close>

definition set_last_psh :: "tcp_seg list \<Rightarrow> tcp_seg list" where
  "set_last_psh segs = (if segs = [] then [] else
     butlast segs @ [(last segs)\<lparr>s_hdr := TCPH_SET_FLAG TCP_PSH (s_hdr (last segs))\<rparr>])"

text \<open>The unsent list with the queue appended; \<open>merge\<close> says whether the first queued segment goes into the
  last unsent one, \<open>psh\<close> whether the last queued segment gets the PSH flag.\<close>

definition tcp_enqueue_unsent :: "tcp_seg list \<Rightarrow> tcp_seg list \<Rightarrow> bool \<Rightarrow> bool \<Rightarrow> tcp_seg list" where
  "tcp_enqueue_unsent us queue merge psh =
     (if merge
      then butlast us @ [(last us)\<lparr>s_len := s_len (last us) + s_len (hd queue)\<rparr>]
             @ (if psh then set_last_psh (tl queue) else tl queue)
      else us @ (if psh then set_last_psh queue else queue))"

text \<open>The control block with the new list.\<close>

definition tcp_enqueue_done :: "tcp_pcb \<Rightarrow> tcp_seg list \<Rightarrow> u16 \<Rightarrow> u8 \<Rightarrow> u16 \<Rightarrow> tcp_pcb" where
  "tcp_enqueue_done pcb us len flags queuelen =
     (let len = (if has flags TCP_SYN \<or> has flags TCP_FIN then len + 1 else len)
      in pcb\<lparr>unsent := us, pcb_flags := (if has flags TCP_FIN then pcb_flags pcb OR TF_FIN else pcb_flags pcb),
             snd_lbb := snd_lbb pcb + ucast len, snd_buf := snd_buf pcb - len, snd_queuelen := queuelen\<rparr>)"

text \<open>Appending the queue to the unsent list and updating the control block.\<close>

definition tcp_enqueue_append ::
    "stack \<Rightarrow> tcp_pcb \<Rightarrow> u16 \<Rightarrow> u8 \<Rightarrow> u8 \<Rightarrow> u16 \<Rightarrow> u16 \<Rightarrow> tcp_seg list \<Rightarrow> (stack \<times> tcp_pcb \<times> err) option" where
  "tcp_enqueue_append s pcb len flags apiflags queuelen seglen queue =
     do {
       let psh = (seglen > 0 \<and> \<not> has apiflags TCP_WRITE_FLAG_MORE);
       let merge = (unsent pcb \<noteq> [] \<and> tcp_enqueue_fits pcb (last (unsent pcb)) (hd queue) flags);
       (s, fail) \<leftarrow> (if merge then pbuf_header_s s (s_p (hd queue)) (- TCP_HLEN) else Some (s, False));
       if fail then tcp_enqueue_memerr s pcb queue
       else do {
         h \<leftarrow> (if merge then pbuf_cat (mem s) (s_p (last (unsent pcb))) (s_p (hd queue)) else Some (mem s));
         let us = tcp_enqueue_unsent (unsent pcb) queue merge psh;
         Some (s\<lparr>mem := h\<rparr>, tcp_enqueue_done pcb us len flags queuelen, ERR_OK)
       }
     }"

definition tcp_enqueue ::
    "stack \<Rightarrow> tcp_pcb \<Rightarrow> data_arg \<Rightarrow> u16 \<Rightarrow> u8 \<Rightarrow> u8 \<Rightarrow> opt_arg \<Rightarrow> (stack \<times> tcp_pcb \<times> err) option" where
  "tcp_enqueue s pcb arg len flags apiflags optdata =
     (let optlen = (case optdata of None \<Rightarrow> 0 | Some opt \<Rightarrow> length opt);
          dp = (case arg of None \<Rightarrow> (NULL, 0) | Some a \<Rightarrow> a)
      in if \<not> (len = 0 \<or> optlen = 0) then Some (s, pcb, ERR_ARG)
         else if \<not> (arg = None \<or> optdata = None) then Some (s, pcb, ERR_ARG)
         else if len > snd_buf pcb \<or> snd_queuelen pcb \<ge> TCP_SND_QUEUELEN
                 \<or> snd_queuelen pcb > TCP_SNDQUEUELEN_OVERFLOW
         then Some (s, pcb\<lparr>pcb_flags := pcb_flags pcb OR TF_NAGLEMEMERR\<rparr>, ERR_MEM)
         else do {
           (s, queue, ok, queuelen, seglen) \<leftarrow>
             tcp_enqueue_loop s pcb arg dp flags apiflags optdata len (snd_lbb pcb) (snd_queuelen pcb) 0 [];
           if ok then tcp_enqueue_append s pcb len flags apiflags queuelen seglen queue
           else tcp_enqueue_memerr s pcb queue
         })"

definition tcp_send_ctrl :: "stack \<Rightarrow> tcp_pcb \<Rightarrow> u8 \<Rightarrow> (stack \<times> tcp_pcb \<times> err) option" where
  "tcp_send_ctrl s pcb flags = tcp_enqueue s pcb None 0 flags TCP_WRITE_FLAG_COPY None"

definition tcp_write :: "stack \<Rightarrow> tcp_pcb \<Rightarrow> data_arg \<Rightarrow> u16 \<Rightarrow> u8 \<Rightarrow> (stack \<times> tcp_pcb \<times> err) option" where
  "tcp_write s pcb data len apiflags =
     (if pcb_state pcb = ESTABLISHED \<or> pcb_state pcb = CLOSE_WAIT \<or> pcb_state pcb = SYN_SENT
         \<or> pcb_state pcb = SYN_RCVD
      then if len > 0 then tcp_enqueue s pcb data len 0 apiflags None else Some (s, pcb, ERR_OK)
      else Some (s, pcb, ERR_CONN))"

end
