(* ===== verification/Tcp.thy ===== *)
theory Tcp
  imports Tcp_Out
begin

text \<open>
  The control blocks of TCP, \<^verbatim>\<open>core/tcp.c\<close>: creation, binding, listening, connecting,
  closing, the two timers and the release of blocks.

  The functions that an application calls, or that call the application back, work on the addresses of
  control blocks in the stack. The callbacks are an argument: a function pointer is a number, \<open>0\<close> is
  \<^verbatim>\<open>NULL\<close>, and the record \<open>callbacks\<close> says what the functions of the application do to the
  stack. A block is in at most one of the four lists (\<^verbatim>\<open>tcp.h\<close> states this as an axiom of the
  lists), so \<^verbatim>\<open>TCP_RMV\<close> removes it from one list and touches no other.
\<close>

unbundle bit_operations_syntax

section \<open>Callbacks\<close>

record callbacks =
  on_sent :: "fptr \<Rightarrow> stack \<Rightarrow> nat \<Rightarrow> ptr \<Rightarrow> u16 \<Rightarrow> (stack \<times> err) option"
  on_recv :: "fptr \<Rightarrow> stack \<Rightarrow> nat \<Rightarrow> ptr \<Rightarrow> ptr \<Rightarrow> err \<Rightarrow> (stack \<times> err) option"
  on_connected :: "fptr \<Rightarrow> stack \<Rightarrow> nat \<Rightarrow> ptr \<Rightarrow> err \<Rightarrow> (stack \<times> err) option"
  on_accept :: "fptr \<Rightarrow> stack \<Rightarrow> nat \<Rightarrow> ptr \<Rightarrow> err \<Rightarrow> (stack \<times> err) option"
  on_poll :: "fptr \<Rightarrow> stack \<Rightarrow> nat \<Rightarrow> ptr \<Rightarrow> (stack \<times> err) option"
  on_err :: "fptr \<Rightarrow> stack \<Rightarrow> nat \<Rightarrow> err \<Rightarrow> stack option"

text \<open>The addresses of the two callbacks that the source defines itself.\<close>

definition TCP_RECV_NULL :: fptr where "TCP_RECV_NULL = 1"
definition TCP_ACCEPT_NULL :: fptr where "TCP_ACCEPT_NULL = 2"

definition TCP_EVENT_ERR :: "callbacks \<Rightarrow> stack \<Rightarrow> fptr \<Rightarrow> nat \<Rightarrow> err \<Rightarrow> stack option" where
  "TCP_EVENT_ERR cb s errf arg e = (if errf \<noteq> 0 then on_err cb errf s arg e else Some s)"

section \<open>Lists of control blocks\<close>

definition put_pcb :: "ptr \<Rightarrow> tcp_pcb \<Rightarrow> stack \<Rightarrow> stack" where
  "put_pcb a pcb s = s\<lparr>pcbs := (pcbs s)(a := Some pcb)\<rparr>"

definition memp_free_pcb :: "ptr \<Rightarrow> stack \<Rightarrow> stack" where
  "memp_free_pcb a s = s\<lparr>pcbs := (pcbs s)(a := None)\<rparr>"

definition TCP_REG :: "ptr \<Rightarrow> ptr list \<Rightarrow> ptr list" where
  "TCP_REG a as = a # as"

definition TCP_RMV :: "ptr \<Rightarrow> ptr list \<Rightarrow> ptr list" where
  "TCP_RMV a as = remove1 a as"

text \<open>The loops that look for a control block in a list.\<close>

fun any_pcb :: "(tcp_pcb \<Rightarrow> bool) \<Rightarrow> stack \<Rightarrow> ptr list \<Rightarrow> bool option" where
  "any_pcb P s [] = Some False"
| "any_pcb P s (a # as) = do { pcb \<leftarrow> pcbs s a; if P pcb then Some True else any_pcb P s as }"

fun any_lpcb :: "(tcp_pcb_listen \<Rightarrow> bool) \<Rightarrow> stack \<Rightarrow> ptr list \<Rightarrow> bool option" where
  "any_lpcb P s [] = Some False"
| "any_lpcb P s (a # as) = do { l \<leftarrow> lpcbs s a; if P l then Some True else any_lpcb P s as }"

text \<open>\<^verbatim>\<open>pcb->next\<close>: the block behind \<open>a\<close> in a list.\<close>

fun next_pcb :: "ptr \<Rightarrow> ptr list \<Rightarrow> ptr" where
  "next_pcb a [] = NULL"
| "next_pcb a (x # xs) = (if x = a then (case xs of [] \<Rightarrow> NULL | y # _ \<Rightarrow> y) else next_pcb a xs)"

section \<open>Sequence numbers, ports and segment size\<close>

definition tcp_next_iss :: "stack \<Rightarrow> stack \<times> u32" where
  "tcp_next_iss s = (let iss = tcp_iss s + tcp_ticks s in (s\<lparr>tcp_iss := iss\<rparr>, iss))"

definition tcp_port_in_use :: "stack \<Rightarrow> u16 \<Rightarrow> bool option" where
  "tcp_port_in_use s port =
     do {
       b \<leftarrow> any_pcb (\<lambda>pcb. local_port pcb = port) s (tcp_active_pcbs s);
       if b then Some True
       else do {
         b \<leftarrow> any_pcb (\<lambda>pcb. local_port pcb = port) s (tcp_tw_pcbs s);
         if b then Some True
         else any_lpcb (\<lambda>l. l_local_port l = port) s (tcp_listen_pcbs s)
       }
     }"

definition TCP_LOCAL_PORT_RANGE_START :: u16 where "TCP_LOCAL_PORT_RANGE_START = 4096"
definition TCP_LOCAL_PORT_RANGE_END :: u16 where "TCP_LOCAL_PORT_RANGE_END = 0x7fff"

definition next_port :: "u16 \<Rightarrow> u16" where
  "next_port port = (let port = port + 1
     in if port > TCP_LOCAL_PORT_RANGE_END then TCP_LOCAL_PORT_RANGE_START else port)"

partial_function (option) tcp_new_port_from :: "stack \<Rightarrow> u16 \<Rightarrow> u16 option" where
  "tcp_new_port_from s port =
     do {
       let port = next_port port;
       b \<leftarrow> tcp_port_in_use s port;
       if b then tcp_new_port_from s port else Some port
     }"

declare tcp_new_port_from.simps [code]

definition tcp_new_port :: "stack \<Rightarrow> (stack \<times> u16) option" where
  "tcp_new_port s = do { port \<leftarrow> tcp_new_port_from s (tcp_port s); Some (s\<lparr>tcp_port := port\<rparr>, port) }"

definition tcp_eff_send_mss :: "stack \<Rightarrow> u16 \<Rightarrow> ip_addr \<Rightarrow> u16 option" where
  "tcp_eff_send_mss s sendmss addr =
     do {
       n \<leftarrow> ip_route s addr;
       if n = NULL then Some sendmss
       else do {
         nf \<leftarrow> netifs s n;
         Some (if nf_mtu nf \<noteq> 0 then min sendmss (nf_mtu nf - IP_HLEN - TCP_HLEN) else sendmss)
       }
     }"

text \<open>The MSS option of a SYN, as the four octets in memory.\<close>

definition TCP_BUILD_MSS_OPTION :: "u8 list" where
  "TCP_BUILD_MSS_OPTION = mem_bytes32 (htonl (push_bit 24 2 OR push_bit 16 4
     OR push_bit 8 (ucast TCP_MSS div 256) OR (ucast TCP_MSS AND 255)))"

section \<open>Releasing a control block\<close>

definition tcp_pcb_purge :: "stack \<Rightarrow> tcp_pcb \<Rightarrow> (stack \<times> tcp_pcb) option" where
  "tcp_pcb_purge s pcb =
     (if pcb_state pcb \<noteq> CLOSED \<and> pcb_state pcb \<noteq> TIME_WAIT \<and> pcb_state pcb \<noteq> LISTEN
      then do {
        s \<leftarrow> (if refused_data pcb \<noteq> NULL
              then do { (s, _) \<leftarrow> pbuf_free_s s (refused_data pcb); Some s } else Some s);
        (s, _) \<leftarrow> tcp_segs_free s (ooseq pcb);
        (s, _) \<leftarrow> tcp_segs_free s (unsent pcb);
        (s, _) \<leftarrow> tcp_segs_free s (unacked pcb);
        Some (s, pcb\<lparr>refused_data := NULL, rtime := -1, ooseq := [], unsent := [], unacked := []\<rparr>)
      }
      else Some (s, pcb))"

text \<open>\<^verbatim>\<open>tcp_pcb_remove\<close> after \<^verbatim>\<open>TCP_RMV\<close> took the block \<open>a\<close> off its list.\<close>

definition tcp_pcb_remove :: "stack \<Rightarrow> ptr \<Rightarrow> stack option" where
  "tcp_pcb_remove s a =
     do {
       pcb \<leftarrow> pcbs s a;
       (s, pcb) \<leftarrow> tcp_pcb_purge s pcb;
       (s, pcb) \<leftarrow> (if pcb_state pcb \<noteq> TIME_WAIT \<and> pcb_state pcb \<noteq> LISTEN \<and> has (pcb_flags pcb) TF_ACK_DELAY
         then tcp_ack_now s a pcb
         else Some (s, pcb));
       Some (put_pcb a (pcb\<lparr>pcb_state := CLOSED\<rparr>) s)
     }"

definition tcp_abort :: "callbacks \<Rightarrow> stack \<Rightarrow> ptr \<Rightarrow> stack option" where
  "tcp_abort cb s a =
     do {
       pcb \<leftarrow> pcbs s a;
       if pcb_state pcb = TIME_WAIT
       then do {
         s \<leftarrow> tcp_pcb_remove (s\<lparr>tcp_tw_pcbs := TCP_RMV a (tcp_tw_pcbs s)\<rparr>) a;
         Some (memp_free_pcb a s)
       }
       else do {
         s \<leftarrow> tcp_pcb_remove (s\<lparr>tcp_active_pcbs := TCP_RMV a (tcp_active_pcbs s)\<rparr>) a;
         pcb' \<leftarrow> pcbs s a;
         (s, _) \<leftarrow> tcp_segs_free s (unacked pcb');
         (s, _) \<leftarrow> tcp_segs_free s (unsent pcb');
         (s, _) \<leftarrow> tcp_segs_free s (ooseq pcb');
         s \<leftarrow> TCP_EVENT_ERR cb (memp_free_pcb a s) (cb_errf pcb) (callback_arg pcb) ERR_ABRT;
         tcp_rst s (snd_nxt pcb) (rcv_nxt pcb) (local_ip pcb) (remote_ip pcb) (local_port pcb) (remote_port pcb)
       }
     }"

text \<open>What \<^verbatim>\<open>tcp_close\<close> does for a connection: queue a FIN and change the state.\<close>

definition tcp_close_fin :: "stack \<Rightarrow> ptr \<Rightarrow> tcp_pcb \<Rightarrow> tcp_state \<Rightarrow> (stack \<times> err) option" where
  "tcp_close_fin s a pcb st =
     do {
       (s, pcb, e) \<leftarrow> tcp_send_ctrl s pcb TCP_FIN;
       if e = ERR_OK
       then do {
         (s, pcb, _) \<leftarrow> tcp_output s a (pcb\<lparr>pcb_state := st\<rparr>);
         Some (put_pcb a pcb s, ERR_OK)
       }
       else Some (put_pcb a pcb s, e)
     }"

definition tcp_close :: "stack \<Rightarrow> ptr \<Rightarrow> (stack \<times> err) option" where
  "tcp_close s a =
     (case pcbs s a of
        None \<Rightarrow> (case lpcbs s a of
            None \<Rightarrow> None
          | Some _ \<Rightarrow> Some (s\<lparr>tcp_listen_pcbs := TCP_RMV a (tcp_listen_pcbs s), lpcbs := (lpcbs s)(a := None)\<rparr>, ERR_OK))
      | Some pcb \<Rightarrow> (case pcb_state pcb of
            CLOSED \<Rightarrow> Some (memp_free_pcb a (s\<lparr>tcp_bound_pcbs := TCP_RMV a (tcp_bound_pcbs s)\<rparr>), ERR_OK)
          | SYN_SENT \<Rightarrow> do {
              s \<leftarrow> tcp_pcb_remove (s\<lparr>tcp_active_pcbs := TCP_RMV a (tcp_active_pcbs s)\<rparr>) a;
              Some (memp_free_pcb a s, ERR_OK)
            }
          | SYN_RCVD \<Rightarrow> tcp_close_fin s a pcb FIN_WAIT_1
          | ESTABLISHED \<Rightarrow> tcp_close_fin s a pcb FIN_WAIT_1
          | CLOSE_WAIT \<Rightarrow> tcp_close_fin s a pcb LAST_ACK
          | _ \<Rightarrow> Some (s, ERR_OK)))"

section \<open>Received data\<close>

definition tcp_recv_null :: "stack \<Rightarrow> ptr \<Rightarrow> ptr \<Rightarrow> err \<Rightarrow> (stack \<times> err) option" where
  "tcp_recv_null s a p e =
     (if p \<noteq> NULL then do { (s, _) \<leftarrow> pbuf_free_s s p; Some (s, ERR_OK) }
      else if e = ERR_OK then tcp_close s a else Some (s, ERR_OK))"

definition TCP_EVENT_RECV :: "callbacks \<Rightarrow> stack \<Rightarrow> ptr \<Rightarrow> ptr \<Rightarrow> err \<Rightarrow> (stack \<times> err) option" where
  "TCP_EVENT_RECV cb s a p e =
     do {
       pcb \<leftarrow> pcbs s a;
       if cb_recv pcb = 0
       then do { s \<leftarrow> (if p \<noteq> NULL then do { (s, _) \<leftarrow> pbuf_free_s s p; Some s } else Some s); Some (s, ERR_OK) }
       else if cb_recv pcb = TCP_RECV_NULL then tcp_recv_null s a p e
       else on_recv cb (cb_recv pcb) s (callback_arg pcb) a p e
     }"

definition tcp_recved :: "stack \<Rightarrow> ptr \<Rightarrow> tcp_pcb \<Rightarrow> u16 \<Rightarrow> (stack \<times> tcp_pcb) option" where
  "tcp_recved s a pcb len =
     (let pcb = (if unat (rcv_wnd pcb) + unat len > unat TCP_WND
                 then pcb\<lparr>rcv_wnd := TCP_WND, rcv_ann_wnd := TCP_WND\<rparr>
                 else let pcb = pcb\<lparr>rcv_wnd := rcv_wnd pcb + len\<rparr>
                      in if rcv_wnd pcb \<ge> mss pcb then pcb\<lparr>rcv_ann_wnd := rcv_wnd pcb\<rparr> else pcb)
      in if \<not> has (pcb_flags pcb) TF_ACK_DELAY \<and> \<not> has (pcb_flags pcb) TF_ACK_NOW then tcp_ack s a pcb
         else if has (pcb_flags pcb) TF_ACK_DELAY \<and> rcv_wnd pcb \<ge> TCP_WND div 2 then tcp_ack_now s a pcb
         else Some (s, pcb))"

section \<open>Creating control blocks\<close>

text \<open>The loops over a list for the block to give up: the first with the longest inactivity, of at most
  the given priority in the case of active blocks.\<close>

fun tcp_kill_prio_find :: "stack \<Rightarrow> u8 \<Rightarrow> ptr list \<Rightarrow> u8 \<Rightarrow> u32 \<Rightarrow> ptr \<Rightarrow> ptr option" where
  "tcp_kill_prio_find s pr [] mprio inactivity inactive = Some inactive"
| "tcp_kill_prio_find s pr (a # as) mprio inactivity inactive =
     do {
       pcb \<leftarrow> pcbs s a;
       if prio pcb \<le> pr \<and> prio pcb \<le> mprio \<and> tcp_ticks s - tmr pcb \<ge> inactivity
       then tcp_kill_prio_find s pr as (prio pcb) (tcp_ticks s - tmr pcb) a
       else tcp_kill_prio_find s pr as mprio inactivity inactive
     }"

definition tcp_kill_prio :: "callbacks \<Rightarrow> stack \<Rightarrow> u8 \<Rightarrow> stack option" where
  "tcp_kill_prio cb s pr =
     do {
       a \<leftarrow> tcp_kill_prio_find s pr (tcp_active_pcbs s) 127 0 NULL;
       if a \<noteq> NULL then tcp_abort cb s a else Some s
     }"

fun tcp_kill_timewait_find :: "stack \<Rightarrow> ptr list \<Rightarrow> u32 \<Rightarrow> ptr \<Rightarrow> ptr option" where
  "tcp_kill_timewait_find s [] inactivity inactive = Some inactive"
| "tcp_kill_timewait_find s (a # as) inactivity inactive =
     do {
       pcb \<leftarrow> pcbs s a;
       if tcp_ticks s - tmr pcb \<ge> inactivity
       then tcp_kill_timewait_find s as (tcp_ticks s - tmr pcb) a
       else tcp_kill_timewait_find s as inactivity inactive
     }"

definition tcp_kill_timewait :: "callbacks \<Rightarrow> stack \<Rightarrow> stack option" where
  "tcp_kill_timewait cb s =
     do {
       a \<leftarrow> tcp_kill_timewait_find s (tcp_tw_pcbs s) 0 NULL;
       if a \<noteq> NULL then tcp_abort cb s a else Some s
     }"

definition tcp_fresh_pcb :: "u32 \<Rightarrow> u32 \<Rightarrow> tcp_pcb" where
  "tcp_fresh_pcb iss ticks = \<lparr>
     local_ip = 0, remote_ip = 0, so_options = 0, tos = 0, ttl = TCP_TTL, pcb_state = CLOSED, prio = 64,
     callback_arg = 0, local_port = 0, remote_port = 0, pcb_flags = 0, rcv_nxt = 0, rcv_wnd = TCP_WND,
     rcv_ann_wnd = TCP_WND, tmr = ticks, polltmr = 0, pollinterval = 0, rtime = -1,
     mss = (if TCP_MSS > 536 then 536 else TCP_MSS), rttest = 0, rtseq = 0, sa = 0, sv = 3000 div 500,
     rto = 3000 div 500, nrtx = 0, lastack = iss, dupacks = 0, cwnd = 1, ssthresh = 0, snd_nxt = iss,
     snd_max = iss, snd_wnd = 0, snd_wl1 = 0, snd_wl2 = iss, snd_lbb = iss, acked = 0, snd_buf = TCP_SND_BUF,
     snd_queuelen = 0, unsent = [], unacked = [], ooseq = [], refused_data = NULL, cb_sent = 0,
     cb_recv = TCP_RECV_NULL, cb_connected = 0, cb_accept = 0, cb_poll = 0, cb_errf = 0,
     keep_idle = 7200000, persist_cnt = 0, persist_backoff = 0, keep_cnt_sent = 0\<rparr>"

definition tcp_alloc :: "callbacks \<Rightarrow> stack \<Rightarrow> u8 \<Rightarrow> (stack \<times> ptr) option" where
  "tcp_alloc cb s pr =
     do {
       let (s, a) = memp_malloc s;
       (s, a) \<leftarrow> (if a \<noteq> NULL then Some (s, a)
         else do {
           s \<leftarrow> tcp_kill_timewait cb s;
           let (s, a) = memp_malloc s;
           if a \<noteq> NULL then Some (s, a)
           else do { s \<leftarrow> tcp_kill_prio cb s pr; Some (memp_malloc s) }
         });
       if a = NULL then Some (s, NULL)
       else let (s, iss) = tcp_next_iss s in Some (put_pcb a (tcp_fresh_pcb iss (tcp_ticks s)) s, a)
     }"

definition tcp_new :: "callbacks \<Rightarrow> stack \<Rightarrow> (stack \<times> ptr) option" where
  "tcp_new cb s = tcp_alloc cb s 64"

section \<open>Binding, listening and connecting\<close>

text \<open>The local address of an existing block conflicts with the one to bind; \<open>None\<close> is a null pointer,
  which stands for any address.\<close>

definition ip_conflict :: "ip_addr \<Rightarrow> ip_addr option \<Rightarrow> bool" where
  "ip_conflict lip ipaddr \<longleftrightarrow>
     ip_addr_isany lip \<or> (case ipaddr of None \<Rightarrow> True | Some ip \<Rightarrow> ip_addr_isany ip \<or> lip = ip)"

text \<open>The loop over the blocks in TIME-WAIT compares with the address itself.\<close>

fun tcp_bind_tw :: "stack \<Rightarrow> ip_addr option \<Rightarrow> u16 \<Rightarrow> ptr list \<Rightarrow> bool option" where
  "tcp_bind_tw s ipaddr port [] = Some False"
| "tcp_bind_tw s ipaddr port (a # as) =
     do {
       pcb \<leftarrow> pcbs s a;
       hit \<leftarrow> (if local_port pcb = port then do { ip \<leftarrow> ipaddr; Some (local_ip pcb = ip) } else Some False);
       if hit then Some True else tcp_bind_tw s ipaddr port as
     }"

definition tcp_bind_in_use :: "stack \<Rightarrow> ip_addr option \<Rightarrow> u16 \<Rightarrow> bool option" where
  "tcp_bind_in_use s ipaddr port =
     do {
       b \<leftarrow> any_lpcb (\<lambda>l. l_local_port l = port \<and> ip_conflict (l_local_ip l) ipaddr) s (tcp_listen_pcbs s);
       if b then Some True
       else do {
         b \<leftarrow> any_pcb (\<lambda>p. local_port p = port \<and> ip_conflict (local_ip p) ipaddr) s (tcp_active_pcbs s);
         if b then Some True
         else do {
           b \<leftarrow> any_pcb (\<lambda>p. local_port p = port \<and> ip_conflict (local_ip p) ipaddr) s (tcp_bound_pcbs s);
           if b then Some True
           else tcp_bind_tw s ipaddr port (tcp_tw_pcbs s)
         }
       }
     }"

definition tcp_bind :: "stack \<Rightarrow> ptr \<Rightarrow> ip_addr option \<Rightarrow> u16 \<Rightarrow> (stack \<times> err) option" where
  "tcp_bind s a ipaddr port =
     do {
       pcb \<leftarrow> pcbs s a;
       if pcb_state pcb \<noteq> CLOSED then Some (s, ERR_ISCONN)
       else do {
         (s, port) \<leftarrow> (if port = 0 then tcp_new_port s else Some (s, port));
         used \<leftarrow> tcp_bind_in_use s ipaddr port;
         if used then Some (s, ERR_USE)
         else do {
           let pcb = (case ipaddr of
               None \<Rightarrow> pcb
             | Some ip \<Rightarrow> if ip_addr_isany ip then pcb else pcb\<lparr>local_ip := ip\<rparr>);
           let s = put_pcb a (pcb\<lparr>local_port := port\<rparr>) s;
           Some (s\<lparr>tcp_bound_pcbs := TCP_REG a (tcp_bound_pcbs s)\<rparr>, ERR_OK)
         }
       }
     }"

text \<open>The result is the address of the listening block, or \<open>NULL\<close>. The priority of the new block is
  not set.\<close>

definition tcp_listen_with_backlog :: "stack \<Rightarrow> ptr \<Rightarrow> (stack \<times> ptr) option" where
  "tcp_listen_with_backlog s a =
     do {
       pcb \<leftarrow> pcbs s a;
       if pcb_state pcb \<noteq> CLOSED then Some (s, NULL)
       else let (s, l) = memp_malloc s
         in if l = NULL then Some (s, NULL)
            else let lpcb = \<lparr>l_local_ip = local_ip pcb, l_so_options = so_options pcb OR SOF_ACCEPTCONN,
                       l_tos = tos pcb, l_ttl = ttl pcb, l_prio = junk_byte s, l_callback_arg = callback_arg pcb,
                       l_local_port = local_port pcb, l_accept = TCP_ACCEPT_NULL\<rparr>;
                     s = s\<lparr>tcp_bound_pcbs := TCP_RMV a (tcp_bound_pcbs s)\<rparr>;
                     s = memp_free_pcb a s
                 in Some (s\<lparr>lpcbs := (lpcbs s)(l := Some lpcb), tcp_listen_pcbs := TCP_REG l (tcp_listen_pcbs s)\<rparr>, l)
     }"

definition tcp_connect :: "stack \<Rightarrow> ptr \<Rightarrow> ip_addr option \<Rightarrow> u16 \<Rightarrow> fptr \<Rightarrow> (stack \<times> err) option" where
  "tcp_connect s a ipaddr port connected =
     do {
       pcb \<leftarrow> pcbs s a;
       if pcb_state pcb \<noteq> CLOSED then Some (s, ERR_ISCONN)
       else case ipaddr of
         None \<Rightarrow> Some (s, ERR_VAL)
       | Some ip \<Rightarrow> do {
           let pcb = pcb\<lparr>remote_ip := ip, remote_port := port\<rparr>;
           (s, pcb) \<leftarrow> (if local_port pcb = 0
             then do { (s, lport) \<leftarrow> tcp_new_port s; Some (s, pcb\<lparr>local_port := lport\<rparr>) } else Some (s, pcb));
           let (s, iss) = tcp_next_iss s;
           let pcb = pcb\<lparr>rcv_nxt := 0, snd_nxt := iss, lastack := iss - 1, snd_lbb := iss - 1, rcv_wnd := TCP_WND,
             rcv_ann_wnd := TCP_WND, snd_wnd := TCP_WND\<rparr>;
           mss' \<leftarrow> tcp_eff_send_mss s (if TCP_MSS > 536 then 536 else TCP_MSS) ip;
           let pcb = pcb\<lparr>mss := mss', cwnd := 1, ssthresh := mss' * 10, pcb_state := SYN_SENT,
             cb_connected := connected\<rparr>;
           let s = s\<lparr>tcp_bound_pcbs := TCP_RMV a (tcp_bound_pcbs s)\<rparr>;
           let s = s\<lparr>tcp_active_pcbs := TCP_REG a (tcp_active_pcbs s)\<rparr>;
           (s, pcb, e) \<leftarrow> tcp_enqueue s pcb None 0 TCP_SYN 0 (Some TCP_BUILD_MSS_OPTION);
           if e = ERR_OK
           then do { (s, pcb, _) \<leftarrow> tcp_output s a pcb; Some (put_pcb a pcb s, ERR_OK) }
           else Some (put_pcb a pcb s, e)
         }
     }"

section \<open>The slow timer\<close>

definition tcp_backoff :: "nat list" where
  "tcp_backoff = [1, 2, 3, 4, 5, 6, 7, 7, 7, 7, 7, 7, 7]"

definition tcp_persist_backoff :: "u32 list" where
  "tcp_persist_backoff = [3, 6, 12, 24, 48, 96, 120]"

text \<open>Reading a table of the source: there is no entry outside it.\<close>

definition table :: "'a list \<Rightarrow> nat \<Rightarrow> 'a option" where
  "table xs i = (if i < length xs then Some (xs ! i) else None)"

definition TCP_MAXRTX :: u8 where "TCP_MAXRTX = 12"
definition TCP_SYNMAXRTX :: u8 where "TCP_SYNMAXRTX = 6"

text \<open>The reaction to an expired retransmission timer, before \<^verbatim>\<open>tcp_rexmit_rto\<close>.\<close>

definition tcp_rto_backoff :: "tcp_pcb \<Rightarrow> tcp_pcb option" where
  "tcp_rto_backoff pcb =
     do {
       pcb \<leftarrow> (if pcb_state pcb \<noteq> SYN_SENT
         then do {
           b \<leftarrow> table tcp_backoff (unat (nrtx pcb));
           Some (pcb\<lparr>rto := of_int ((sint (sa pcb) div 8 + sint (sv pcb)) * 2 ^ b)\<rparr>)
         }
         else Some pcb);
       let eff_wnd = min (cwnd pcb) (snd_wnd pcb);
       let pcb = pcb\<lparr>rtime := 0, ssthresh := drop_bit 1 eff_wnd\<rparr>;
       let pcb = (if ssthresh pcb < mss pcb then pcb\<lparr>ssthresh := mss pcb * 2\<rparr> else pcb);
       Some (pcb\<lparr>cwnd := mss pcb\<rparr>)
     }"

definition tcp_slowtmr_persist :: "stack \<Rightarrow> tcp_pcb \<Rightarrow> (stack \<times> tcp_pcb) option" where
  "tcp_slowtmr_persist s pcb =
     do {
       let pcb = pcb\<lparr>persist_cnt := persist_cnt pcb + 1\<rparr>;
       lim \<leftarrow> table tcp_persist_backoff (unat (persist_backoff pcb) - 1);
       if persist_cnt pcb \<ge> lim
       then do {
         let pcb = pcb\<lparr>persist_cnt := 0\<rparr>;
         let pcb = (if persist_backoff pcb < 7 then pcb\<lparr>persist_backoff := persist_backoff pcb + 1\<rparr> else pcb);
         s \<leftarrow> tcp_zero_window_probe s pcb;
         Some (s, pcb)
       }
       else Some (s, pcb)
     }"

definition tcp_slowtmr_rexmit :: "stack \<Rightarrow> ptr \<Rightarrow> tcp_pcb \<Rightarrow> (stack \<times> tcp_pcb) option" where
  "tcp_slowtmr_rexmit s a pcb =
     do {
       let pcb = (if 0 \<le> sint (rtime pcb) then pcb\<lparr>rtime := rtime pcb + 1\<rparr> else pcb);
       if unacked pcb \<noteq> [] \<and> sint (rtime pcb) \<ge> sint (rto pcb)
       then do { pcb \<leftarrow> tcp_rto_backoff pcb; tcp_rexmit_rto s a pcb }
       else Some (s, pcb)
     }"

text \<open>The retransmission part of the timer for one block: the block, and whether to remove it.\<close>

definition tcp_slowtmr_rtx :: "stack \<Rightarrow> ptr \<Rightarrow> tcp_pcb \<Rightarrow> (stack \<times> tcp_pcb \<times> bool) option" where
  "tcp_slowtmr_rtx s a pcb =
     (if pcb_state pcb = SYN_SENT \<and> nrtx pcb = TCP_SYNMAXRTX then Some (s, pcb, True)
      else if nrtx pcb = TCP_MAXRTX then Some (s, pcb, True)
      else do {
        (s, pcb) \<leftarrow> (if persist_backoff pcb > 0 then tcp_slowtmr_persist s pcb else tcp_slowtmr_rexmit s a pcb);
        Some (s, pcb, False)
      })"

text \<open>The keep-alive part, on the address of the block, because \<^verbatim>\<open>tcp_abort\<close> frees the block.
  The limits are sums of \<^verbatim>\<open>unsigned long\<close> that do not overflow.\<close>

definition tcp_slowtmr_keepalive :: "callbacks \<Rightarrow> stack \<Rightarrow> ptr \<Rightarrow> stack option" where
  "tcp_slowtmr_keepalive cb s a =
     do {
       pcb \<leftarrow> pcbs s a;
       let idle = unat (tcp_ticks s - tmr pcb);
       if so_options pcb AND SOF_KEEPALIVE \<noteq> 0 \<and> (pcb_state pcb = ESTABLISHED \<or> pcb_state pcb = CLOSE_WAIT)
       then if idle > (unat (keep_idle pcb) + 9 * 75000) div 500 then tcp_abort cb s a
            else if idle > (unat (keep_idle pcb) + unat (keep_cnt_sent pcb) * 75000) div 500
            then do {
              s \<leftarrow> tcp_keepalive s pcb;
              Some (put_pcb a (pcb\<lparr>keep_cnt_sent := keep_cnt_sent pcb + 1\<rparr>) s)
            }
            else Some s
       else Some s
     }"

text \<open>The states whose timers have run out.\<close>

definition tcp_slowtmr_expired :: "u32 \<Rightarrow> tcp_pcb \<Rightarrow> bool" where
  "tcp_slowtmr_expired ticks pcb \<longleftrightarrow>
     (pcb_state pcb = FIN_WAIT_2 \<and> ticks - tmr pcb > 20000 div 500)
     \<or> (pcb_state pcb = SYN_RCVD \<and> ticks - tmr pcb > 20000 div 500)
     \<or> (pcb_state pcb = LAST_ACK \<and> ticks - tmr pcb > 2 * 60000 div 500)"

text \<open>The list without the block \<open>a\<close>. The loop keeps the block \<open>prev\<close> it looked at before, or NULL at the first one; then the list
  becomes what follows \<open>a\<close>, so blocks that a callback put in front of it are lost. A callback may also have taken \<open>prev\<close> off the
  list or freed it: the write to its next pointer is then not modelled, and there is no result.\<close>

definition tcp_slowtmr_unlink :: "stack \<Rightarrow> ptr \<Rightarrow> ptr \<Rightarrow> ptr list option" where
  "tcp_slowtmr_unlink s prev a =
     (if prev = NULL then Some (drop 1 (dropWhile (\<lambda>x. x \<noteq> a) (tcp_active_pcbs s)))
      else do {
        _ \<leftarrow> pcbs s prev;
        if next_pcb prev (tcp_active_pcbs s) = a then Some (remove1 a (tcp_active_pcbs s)) else None
      })"

text \<open>Removing a block or polling its application; the results are the error variable of the function
  and the block behind this one.\<close>

definition tcp_slowtmr_drop :: "callbacks \<Rightarrow> stack \<Rightarrow> ptr \<Rightarrow> ptr \<Rightarrow> (stack \<times> ptr) option" where
  "tcp_slowtmr_drop cb s prev a =
     do {
       pcb \<leftarrow> pcbs s a;
       (s, pcb) \<leftarrow> tcp_pcb_purge s pcb;
       let nxt = next_pcb a (tcp_active_pcbs s);
       as \<leftarrow> tcp_slowtmr_unlink s prev a;
       let s = put_pcb a pcb (s\<lparr>tcp_active_pcbs := as\<rparr>);
       s \<leftarrow> TCP_EVENT_ERR cb s (cb_errf pcb) (callback_arg pcb) ERR_ABRT;
       _ \<leftarrow> pcbs s a;
       Some (memp_free_pcb a s, nxt)
     }"

definition tcp_slowtmr_poll :: "callbacks \<Rightarrow> stack \<Rightarrow> ptr \<Rightarrow> err \<Rightarrow> (stack \<times> err \<times> ptr) option" where
  "tcp_slowtmr_poll cb s a e =
     do {
       pcb \<leftarrow> pcbs s a;
       let pcb = pcb\<lparr>polltmr := polltmr pcb + 1\<rparr>;
       (s, e) \<leftarrow> (if polltmr pcb \<ge> pollinterval pcb
         then do {
           let pcb = pcb\<lparr>polltmr := 0\<rparr>;
           let s = put_pcb a pcb s;
           (s, e) \<leftarrow> (if cb_poll pcb \<noteq> 0 then on_poll cb (cb_poll pcb) s (callback_arg pcb) a else Some (s, e));
           if e = ERR_OK
           then do { pcb \<leftarrow> pcbs s a; (s, pcb, _) \<leftarrow> tcp_output s a pcb; Some (put_pcb a pcb s, e) }
           else Some (s, e)
         }
         else Some (put_pcb a pcb s, e));
       _ \<leftarrow> pcbs s a;
       Some (s, e, next_pcb a (tcp_active_pcbs s))
     }"

text \<open>One round of the loop: the new state, the error variable and the new \<^verbatim>\<open>prev\<close> and \<^verbatim>\<open>pcb\<close>.\<close>

definition tcp_slowtmr_pcb :: "callbacks \<Rightarrow> stack \<Rightarrow> ptr \<Rightarrow> ptr \<Rightarrow> err \<Rightarrow> (stack \<times> err \<times> ptr \<times> ptr) option" where
  "tcp_slowtmr_pcb cb s prev a e =
     do {
       pcb \<leftarrow> pcbs s a;
       (s, pcb, remove) \<leftarrow> tcp_slowtmr_rtx s a pcb;
       s \<leftarrow> tcp_slowtmr_keepalive cb (put_pcb a pcb s) a;
       pcb \<leftarrow> pcbs s a;
       (s, pcb) \<leftarrow> (if ooseq pcb \<noteq> [] \<and> tcp_ticks s - tmr pcb \<ge> scast (rto pcb) * 6
         then do { (s, _) \<leftarrow> tcp_segs_free s (ooseq pcb); Some (s, pcb\<lparr>ooseq := []\<rparr>) }
         else Some (s, pcb));
       let s = put_pcb a pcb s;
       if remove \<or> tcp_slowtmr_expired (tcp_ticks s) pcb
       then do { (s, nxt) \<leftarrow> tcp_slowtmr_drop cb s prev a; Some (s, e, prev, nxt) }
       else do { (s, e, nxt) \<leftarrow> tcp_slowtmr_poll cb s a e; Some (s, e, a, nxt) }
     }"

partial_function (option) tcp_slowtmr_active :: "callbacks \<Rightarrow> stack \<Rightarrow> ptr \<Rightarrow> ptr \<Rightarrow> err \<Rightarrow> stack option" where
  "tcp_slowtmr_active cb s prev a e =
     (if a = NULL then Some s
      else do { (s, e, prev, nxt) \<leftarrow> tcp_slowtmr_pcb cb s prev a e; tcp_slowtmr_active cb s prev nxt e })"

declare tcp_slowtmr_active.simps [code]

text \<open>The loop over the blocks in TIME-WAIT; it calls nobody, so the list is walked as it is.\<close>

fun tcp_slowtmr_tw :: "stack \<Rightarrow> ptr list \<Rightarrow> stack option" where
  "tcp_slowtmr_tw s [] = Some s"
| "tcp_slowtmr_tw s (a # as) =
     do {
       pcb \<leftarrow> pcbs s a;
       s \<leftarrow> (if tcp_ticks s - tmr pcb > 2 * 60000 div 500
         then do {
           (s, pcb) \<leftarrow> tcp_pcb_purge s pcb;
           Some (memp_free_pcb a (s\<lparr>tcp_tw_pcbs := remove1 a (tcp_tw_pcbs s)\<rparr>))
         }
         else Some s);
       tcp_slowtmr_tw s as
     }"

definition tcp_slowtmr :: "callbacks \<Rightarrow> stack \<Rightarrow> stack option" where
  "tcp_slowtmr cb s =
     do {
       let s = s\<lparr>tcp_ticks := tcp_ticks s + 1\<rparr>;
       s \<leftarrow> tcp_slowtmr_active cb s NULL (case tcp_active_pcbs s of [] \<Rightarrow> NULL | a # _ \<Rightarrow> a) ERR_OK;
       tcp_slowtmr_tw s (tcp_tw_pcbs s)
     }"

section \<open>The fast timer\<close>

definition tcp_fasttmr_pcb :: "callbacks \<Rightarrow> stack \<Rightarrow> ptr \<Rightarrow> (stack \<times> ptr) option" where
  "tcp_fasttmr_pcb cb s a =
     do {
       pcb \<leftarrow> pcbs s a;
       s \<leftarrow> (if refused_data pcb \<noteq> NULL
         then do {
           (s, e) \<leftarrow> TCP_EVENT_RECV cb s a (refused_data pcb) ERR_OK;
           if e = ERR_OK then do { pcb \<leftarrow> pcbs s a; Some (put_pcb a (pcb\<lparr>refused_data := NULL\<rparr>) s) } else Some s
         }
         else Some s);
       pcb \<leftarrow> pcbs s a;
       s \<leftarrow> (if has (pcb_flags pcb) TF_ACK_DELAY
         then do {
           (s, pcb) \<leftarrow> tcp_ack_now s a pcb;
           Some (put_pcb a (pcb\<lparr>pcb_flags := pcb_flags pcb AND NOT (TF_ACK_DELAY OR TF_ACK_NOW)\<rparr>) s)
         }
         else Some s);
       Some (s, next_pcb a (tcp_active_pcbs s))
     }"

partial_function (option) tcp_fasttmr_from :: "callbacks \<Rightarrow> stack \<Rightarrow> ptr \<Rightarrow> stack option" where
  "tcp_fasttmr_from cb s a =
     (if a = NULL then Some s
      else do { (s, nxt) \<leftarrow> tcp_fasttmr_pcb cb s a; tcp_fasttmr_from cb s nxt })"

declare tcp_fasttmr_from.simps [code]

definition tcp_fasttmr :: "callbacks \<Rightarrow> stack \<Rightarrow> stack option" where
  "tcp_fasttmr cb s = tcp_fasttmr_from cb s (case tcp_active_pcbs s of [] \<Rightarrow> NULL | a # _ \<Rightarrow> a)"

definition tcp_tmr :: "callbacks \<Rightarrow> stack \<Rightarrow> stack option" where
  "tcp_tmr cb s =
     do {
       s \<leftarrow> tcp_fasttmr cb s;
       let s = s\<lparr>tcp_timer := tcp_timer s + 1\<rparr>;
       if tcp_timer s AND 1 \<noteq> 0 then tcp_slowtmr cb s else Some s
     }"

section \<open>Setters\<close>

definition tcp_setprio :: "tcp_pcb \<Rightarrow> u8 \<Rightarrow> tcp_pcb" where "tcp_setprio pcb pr = pcb\<lparr>prio := pr\<rparr>"
definition tcp_arg :: "tcp_pcb \<Rightarrow> nat \<Rightarrow> tcp_pcb" where "tcp_arg pcb arg = pcb\<lparr>callback_arg := arg\<rparr>"
definition tcp_recv :: "tcp_pcb \<Rightarrow> fptr \<Rightarrow> tcp_pcb" where "tcp_recv pcb f = pcb\<lparr>cb_recv := f\<rparr>"
definition tcp_sent :: "tcp_pcb \<Rightarrow> fptr \<Rightarrow> tcp_pcb" where "tcp_sent pcb f = pcb\<lparr>cb_sent := f\<rparr>"
definition tcp_err :: "tcp_pcb \<Rightarrow> fptr \<Rightarrow> tcp_pcb" where "tcp_err pcb f = pcb\<lparr>cb_errf := f\<rparr>"

text \<open>The priority and the argument are at the same place in a listening block.\<close>

definition tcp_setprio_listen :: "tcp_pcb_listen \<Rightarrow> u8 \<Rightarrow> tcp_pcb_listen" where "tcp_setprio_listen l pr = l\<lparr>l_prio := pr\<rparr>"
definition tcp_arg_listen :: "tcp_pcb_listen \<Rightarrow> nat \<Rightarrow> tcp_pcb_listen" where "tcp_arg_listen l arg = l\<lparr>l_callback_arg := arg\<rparr>"

definition tcp_accept :: "tcp_pcb_listen \<Rightarrow> fptr \<Rightarrow> tcp_pcb_listen" where
  "tcp_accept l f = l\<lparr>l_accept := f\<rparr>"

definition tcp_poll :: "tcp_pcb \<Rightarrow> fptr \<Rightarrow> u8 \<Rightarrow> tcp_pcb" where
  "tcp_poll pcb f interval = pcb\<lparr>cb_poll := f, pollinterval := interval\<rparr>"

end
