(* ===== verification/Tcp_In.thy ===== *)
theory Tcp_In
  imports Tcp
begin

text \<open>
  The receiving half of TCP, \<^verbatim>\<open>core/tcp_in.c\<close>. The file-level variables that
  \<^verbatim>\<open>tcp_input\<close> sets for the functions below it are the record \<open>input_vars\<close>; the header
  \<^verbatim>\<open>tcphdr\<close> and \<^verbatim>\<open>inseg.tcphdr\<close> are the same struct, with its fields in host byte
  order. \<open>opts\<close> is the memory behind the header.
\<close>

unbundle bit_operations_syntax

record input_vars =
  inseg :: tcp_seg
  opts :: "u8 list"
  iph_src :: ip_addr
  iph_dest :: ip_addr
  in_seqno :: u32
  in_ackno :: u32
  in_flags :: u8
  tcplen :: u16
  recv_flags :: u8
  recv_data :: ptr

abbreviation tcphdr :: "input_vars \<Rightarrow> tcp_hdr" where
  "tcphdr v \<equiv> s_hdr (inseg v)"

section \<open>Options\<close>

partial_function (option) tcp_parseopt_loop :: "u8 list \<Rightarrow> nat \<Rightarrow> tcp_pcb \<Rightarrow> u8 \<Rightarrow> tcp_pcb option" where
  "tcp_parseopt_loop os limit pcb c =
     (if unat c < limit
      then do {
        opt \<leftarrow> table os (unat c);
        if opt = 0x00 then Some pcb
        else if opt = 0x01 then tcp_parseopt_loop os limit pcb (c + 1)
        else do {
          len \<leftarrow> table os (unat c + 1);
          if opt = 0x02 \<and> len = 0x04
          then do {
            hi \<leftarrow> table os (unat c + 2);
            lo \<leftarrow> table os (unat c + 3);
            let m = push_bit 8 (ucast hi) OR ucast lo;
            Some (pcb\<lparr>mss := if m > TCP_MSS then TCP_MSS else m\<rparr>)
          }
          else if len = 0 then Some pcb
          else tcp_parseopt_loop os limit pcb (c + len)
        }
      }
      else Some pcb)"

declare tcp_parseopt_loop.simps [code]

definition tcp_parseopt :: "input_vars \<Rightarrow> tcp_pcb \<Rightarrow> tcp_pcb option" where
  "tcp_parseopt v pcb =
     (if TCPH_HDRLEN (tcphdr v) > 5
      then tcp_parseopt_loop (opts v) ((unat (TCPH_HDRLEN (tcphdr v)) - 5) * 4) pcb 0
      else Some pcb)"

section \<open>Acknowledgements\<close>

text \<open>The window update.\<close>

definition tcp_receive_wnd :: "input_vars \<Rightarrow> tcp_pcb \<Rightarrow> tcp_pcb" where
  "tcp_receive_wnd v pcb =
     (if TCP_SEQ_LT (snd_wl1 pcb) (in_seqno v)
         \<or> (snd_wl1 pcb = in_seqno v \<and> TCP_SEQ_LT (snd_wl2 pcb) (in_ackno v))
         \<or> (snd_wl2 pcb = in_ackno v \<and> h_wnd (tcphdr v) > snd_wnd pcb)
      then let pcb = pcb\<lparr>snd_wnd := h_wnd (tcphdr v), snd_wl1 := in_seqno v, snd_wl2 := in_ackno v\<rparr>
           in if snd_wnd pcb > 0 \<and> persist_backoff pcb > 0 then pcb\<lparr>persist_backoff := 0\<rparr> else pcb
      else pcb)"

text \<open>A duplicate acknowledgement: fast retransmit and fast recovery.\<close>

definition tcp_receive_fastrexmit :: "tcp_pcb \<Rightarrow> tcp_pcb" where
  "tcp_receive_fastrexmit pcb =
     (let pcb = pcb\<lparr>ssthresh := (if cwnd pcb > snd_wnd pcb then snd_wnd pcb div 2 else cwnd pcb div 2)\<rparr>;
          pcb = (if unat (ssthresh pcb) < 2 * unat (mss pcb) then pcb\<lparr>ssthresh := 2 * mss pcb\<rparr> else pcb)
      in pcb\<lparr>cwnd := ssthresh pcb + 3 * mss pcb, pcb_flags := pcb_flags pcb OR TF_INFR\<rparr>)"

definition tcp_receive_dupack :: "stack \<Rightarrow> ptr \<Rightarrow> tcp_pcb \<Rightarrow> u32 \<Rightarrow> (stack \<times> tcp_pcb) option" where
  "tcp_receive_dupack s a pcb right_wnd_edge =
     (let pcb = pcb\<lparr>acked := 0\<rparr>
      in if snd_wl1 pcb + ucast (snd_wnd pcb) = right_wnd_edge
         then let pcb = pcb\<lparr>dupacks := dupacks pcb + 1\<rparr>
              in if dupacks pcb \<ge> 3 \<and> unacked pcb \<noteq> []
                 then if \<not> has (pcb_flags pcb) TF_INFR
                      then do { (s, pcb) \<leftarrow> tcp_rexmit s a pcb; Some (s, tcp_receive_fastrexmit pcb) }
                      else Some (s, if cwnd pcb + mss pcb > cwnd pcb then pcb\<lparr>cwnd := cwnd pcb + mss pcb\<rparr> else pcb)
                 else Some (s, pcb)
         else Some (s, pcb))"

text \<open>Growth of the congestion window. The division fails on a window of zero.\<close>

definition state_number :: "tcp_state \<Rightarrow> nat" where
  "state_number st = (case st of CLOSED \<Rightarrow> 0 | LISTEN \<Rightarrow> 1 | SYN_SENT \<Rightarrow> 2 | SYN_RCVD \<Rightarrow> 3 | ESTABLISHED \<Rightarrow> 4
     | FIN_WAIT_1 \<Rightarrow> 5 | FIN_WAIT_2 \<Rightarrow> 6 | CLOSE_WAIT \<Rightarrow> 7 | CLOSING \<Rightarrow> 8 | LAST_ACK \<Rightarrow> 9 | TIME_WAIT \<Rightarrow> 10)"

definition tcp_receive_cwnd :: "tcp_pcb \<Rightarrow> tcp_pcb option" where
  "tcp_receive_cwnd pcb =
     (if state_number (pcb_state pcb) \<ge> state_number ESTABLISHED
      then if cwnd pcb < ssthresh pcb
           then Some (if cwnd pcb + mss pcb > cwnd pcb then pcb\<lparr>cwnd := cwnd pcb + mss pcb\<rparr> else pcb)
           else if cwnd pcb = 0 then None
           else let new_cwnd = of_nat (unat (cwnd pcb) + unat (mss pcb) * unat (mss pcb) div unat (cwnd pcb))
                in Some (if new_cwnd > cwnd pcb then pcb\<lparr>cwnd := new_cwnd\<rparr> else pcb)
      else Some pcb)"

text \<open>The loop that frees the acknowledged segments: what is left of the list and of the queue length.\<close>

fun tcp_free_acked :: "stack \<Rightarrow> (tcp_seg \<Rightarrow> bool) \<Rightarrow> tcp_seg list \<Rightarrow> u16 \<Rightarrow> (stack \<times> tcp_seg list \<times> u16) option" where
  "tcp_free_acked s done_ok [] queuelen = Some (s, [], queuelen)"
| "tcp_free_acked s done_ok (seg # segs) queuelen =
     (if done_ok seg
      then do {
        n \<leftarrow> pbuf_clen (mem s) (s_p seg);
        (s, _) \<leftarrow> tcp_seg_free s seg;
        tcp_free_acked s done_ok segs (queuelen - ucast n)
      }
      else Some (s, seg # segs, queuelen))"

definition seg_end :: "tcp_seg \<Rightarrow> u32" where
  "seg_end seg = ntohl (h_seqno (s_hdr seg)) + of_nat (TCP_TCPLEN seg)"

definition sar :: "nat \<Rightarrow> s16 \<Rightarrow> s16" where
  "sar n w = of_int (sint w div 2 ^ n)"

text \<open>An acknowledgement of new data.\<close>

definition tcp_receive_newack :: "stack \<Rightarrow> input_vars \<Rightarrow> tcp_pcb \<Rightarrow> (stack \<times> tcp_pcb) option" where
  "tcp_receive_newack s v pcb =
     do {
       let pcb = (if has (pcb_flags pcb) TF_INFR
         then pcb\<lparr>pcb_flags := pcb_flags pcb AND NOT TF_INFR, cwnd := ssthresh pcb\<rparr> else pcb);
       let pcb = pcb\<lparr>nrtx := 0, rto := sar 3 (sa pcb) + sv pcb, acked := ucast (in_ackno v - lastack pcb)\<rparr>;
       let pcb = pcb\<lparr>snd_buf := snd_buf pcb + acked pcb, dupacks := 0, lastack := in_ackno v\<rparr>;
       pcb \<leftarrow> tcp_receive_cwnd pcb;
       (s, us, n) \<leftarrow> tcp_free_acked s (\<lambda>seg. TCP_SEQ_LEQ (seg_end seg) (in_ackno v)) (unacked pcb) (snd_queuelen pcb);
       let pcb = pcb\<lparr>unacked := us, snd_queuelen := n\<rparr>;
       Some (s, pcb\<lparr>rtime := (if unacked pcb = [] then -1 else 0), polltmr := 0\<rparr>)
     }"

text \<open>The unsent segments that were sent before and are acknowledged now. Every round that leaves a
  segment sets the next sequence number to send to that of the segment.\<close>

fun tcp_free_unsent :: "stack \<Rightarrow> (tcp_seg \<Rightarrow> bool) \<Rightarrow> tcp_seg list \<Rightarrow> u16 \<Rightarrow> u32 \<Rightarrow> (stack \<times> tcp_seg list \<times> u16 \<times> u32) option" where
  "tcp_free_unsent s done_ok [] queuelen nxt = Some (s, [], queuelen, nxt)"
| "tcp_free_unsent s done_ok (seg # segs) queuelen nxt =
     (if done_ok seg
      then do {
        n \<leftarrow> pbuf_clen (mem s) (s_p seg);
        (s, _) \<leftarrow> tcp_seg_free s seg;
        let nxt = (case segs of [] \<Rightarrow> nxt | seg' # _ \<Rightarrow> htonl (h_seqno (s_hdr seg')));
        tcp_free_unsent s done_ok segs (queuelen - ucast n) nxt
      }
      else Some (s, seg # segs, queuelen, nxt))"

definition tcp_receive_unsent :: "stack \<Rightarrow> input_vars \<Rightarrow> tcp_pcb \<Rightarrow> (stack \<times> tcp_pcb) option" where
  "tcp_receive_unsent s v pcb =
     do {
       (s, us, n, nxt) \<leftarrow> tcp_free_unsent s (\<lambda>seg. TCP_SEQ_BETWEEN (in_ackno v) (seg_end seg) (snd_max pcb))
         (unsent pcb) (snd_queuelen pcb) (snd_nxt pcb);
       Some (s, pcb\<lparr>unsent := us, snd_queuelen := n, snd_nxt := nxt\<rparr>)
     }"

text \<open>The round-trip time estimation; the assignments to 16-bit variables wrap.\<close>

definition tcp_receive_rtt :: "u32 \<Rightarrow> input_vars \<Rightarrow> tcp_pcb \<Rightarrow> tcp_pcb" where
  "tcp_receive_rtt ticks v pcb =
     (if rttest pcb \<noteq> 0 \<and> TCP_SEQ_LT (rtseq pcb) (in_ackno v)
      then let m = (ucast (ticks - rttest pcb) :: s16);
               m = m - sar 3 (sa pcb);
               pcb = pcb\<lparr>sa := sa pcb + m\<rparr>;
               m = (if sint m < 0 then - m else m);
               m = m - sar 2 (sv pcb);
               pcb = pcb\<lparr>sv := sv pcb + m\<rparr>
           in pcb\<lparr>rto := sar 3 (sa pcb) + sv pcb, rttest := 0\<rparr>
      else pcb)"

definition tcp_receive_ack :: "stack \<Rightarrow> ptr \<Rightarrow> input_vars \<Rightarrow> tcp_pcb \<Rightarrow> (stack \<times> tcp_pcb) option" where
  "tcp_receive_ack s a v pcb =
     do {
       let right_wnd_edge = ucast (snd_wnd pcb) + snd_wl1 pcb;
       let pcb = tcp_receive_wnd v pcb;
       (s, pcb) \<leftarrow> (if lastack pcb = in_ackno v then tcp_receive_dupack s a pcb right_wnd_edge
         else if TCP_SEQ_BETWEEN (in_ackno v) (lastack pcb + 1) (snd_max pcb) then tcp_receive_newack s v pcb
         else Some (s, pcb\<lparr>acked := 0\<rparr>));
       (s, pcb) \<leftarrow> tcp_receive_unsent s v pcb;
       Some (s, tcp_receive_rtt (tcp_ticks s) v pcb)
     }"

section \<open>Data\<close>

text \<open>Trimming the front of the segment: the loop empties the pbufs before the one with the first new
  octet.\<close>

partial_function (option) tcp_trim_loop :: "heap \<Rightarrow> ptr \<Rightarrow> int \<Rightarrow> u16 \<Rightarrow> (heap \<times> ptr \<times> int) option" where
  "tcp_trim_loop h p off new_tot_len =
     do {
       pb \<leftarrow> pbufs h p;
       if int (unat (p_len pb)) < off
       then tcp_trim_loop (put_pbuf p (pb\<lparr>tot_len := new_tot_len, p_len := 0\<rparr>) h) (p_next pb)
              (off - int (unat (p_len pb))) new_tot_len
       else Some (h, p, off)
     }"

declare tcp_trim_loop.simps [code]

definition tcp_receive_trim :: "stack \<Rightarrow> input_vars \<Rightarrow> tcp_pcb \<Rightarrow> (stack \<times> input_vars) option" where
  "tcp_receive_trim s v pcb =
     do {
       let off = sint (rcv_nxt pcb - in_seqno v);
       pb \<leftarrow> pbufs (mem s) (s_p (inseg v));
       (h, p, off) \<leftarrow> tcp_trim_loop (mem s) (s_p (inseg v)) off (of_int (int (unat (tot_len pb)) - off));
       (h, _) \<leftarrow> pbuf_header h p (of_int (- off));
       pb \<leftarrow> pbufs h p;
       let seg = (inseg v)\<lparr>s_dataptr := payload pb, s_len := s_len (inseg v) - ucast (rcv_nxt pcb - in_seqno v),
                           s_hdr := (tcphdr v)\<lparr>h_seqno := rcv_nxt pcb\<rparr>\<rparr>;
       Some (s\<lparr>mem := h\<rparr>, v\<lparr>inseg := seg, in_seqno := rcv_nxt pcb\<rparr>)
     }"

definition wnd_minus :: "u16 \<Rightarrow> nat \<Rightarrow> u16" where
  "wnd_minus w n = (if unat w < n then 0 else w - of_nat n)"

definition tcp_got_fin :: "tcp_hdr \<Rightarrow> input_vars \<Rightarrow> input_vars" where
  "tcp_got_fin hdr v = (if has (hdr_flags hdr) TCP_FIN then v\<lparr>recv_flags := TF_GOT_FIN\<rparr> else v)"

text \<open>The data of an out-of-sequence segment that has become in-sequence goes to the end of the received
  data.\<close>

definition tcp_ooseq_data :: "heap \<Rightarrow> input_vars \<Rightarrow> tcp_seg \<Rightarrow> (heap \<times> input_vars \<times> tcp_seg) option" where
  "tcp_ooseq_data h v cseg =
     do {
       pb \<leftarrow> pbufs h (s_p cseg);
       if tot_len pb > 0
       then if recv_data v \<noteq> NULL
            then do { h \<leftarrow> pbuf_cat h (recv_data v) (s_p cseg); Some (h, v, cseg\<lparr>s_p := NULL\<rparr>) }
            else Some (h, v\<lparr>recv_data := s_p cseg\<rparr>, cseg\<lparr>s_p := NULL\<rparr>)
       else Some (h, v, cseg)
     }"

text \<open>What such a segment changes in the control block.\<close>

definition tcp_ooseq_pcb :: "tcp_pcb \<Rightarrow> tcp_seg \<Rightarrow> tcp_pcb" where
  "tcp_ooseq_pcb pcb cseg =
     (let n = TCP_TCPLEN cseg;
          pcb = pcb\<lparr>rcv_nxt := rcv_nxt pcb + of_nat n, rcv_wnd := wnd_minus (rcv_wnd pcb) n,
                    rcv_ann_wnd := wnd_minus (rcv_ann_wnd pcb) n\<rparr>
      in if has (hdr_flags (s_hdr cseg)) TCP_FIN \<and> pcb_state pcb = ESTABLISHED
         then pcb\<lparr>pcb_state := CLOSE_WAIT\<rparr> else pcb)"

text \<open>The out-of-sequence segments that have become in-sequence.\<close>

fun tcp_ooseq_drain :: "stack \<Rightarrow> input_vars \<Rightarrow> tcp_pcb \<Rightarrow> tcp_seg list \<Rightarrow> (stack \<times> input_vars \<times> tcp_pcb) option" where
  "tcp_ooseq_drain s v pcb [] = Some (s, v, pcb\<lparr>ooseq := []\<rparr>)"
| "tcp_ooseq_drain s v pcb (cseg # rest) =
     (if h_seqno (s_hdr cseg) = rcv_nxt pcb
      then do {
        (h, v, cseg) \<leftarrow> tcp_ooseq_data (mem s) (v\<lparr>in_seqno := h_seqno (s_hdr cseg)\<rparr>) cseg;
        (s, _) \<leftarrow> tcp_seg_free (s\<lparr>mem := h\<rparr>) cseg;
        tcp_ooseq_drain s (tcp_got_fin (s_hdr cseg) v) (tcp_ooseq_pcb pcb cseg) rest
      }
      else Some (s, v, pcb\<lparr>ooseq := cseg # rest\<rparr>))"

declare tcp_ooseq_drain.simps(2) [simp del]

text \<open>The first out-of-sequence segment against the segment that arrived in sequence: its data limits
  the new segment, and one that only repeats a flag is dropped.\<close>

definition tcp_receive_overlap :: "stack \<Rightarrow> input_vars \<Rightarrow> tcp_pcb \<Rightarrow> (stack \<times> input_vars \<times> tcp_pcb) option" where
  "tcp_receive_overlap s v pcb =
     (case ooseq pcb of
        [] \<Rightarrow> Some (s, v, pcb)
      | oseg # os \<Rightarrow>
          if TCP_SEQ_LEQ (h_seqno (s_hdr oseg)) (in_seqno v + ucast (s_len (inseg v)))
          then if s_len oseg > 0
               then do {
                 let seg = (inseg v)\<lparr>s_len := ucast (h_seqno (s_hdr oseg) - in_seqno v)\<rparr>;
                 h \<leftarrow> pbuf_realloc (mem s) (s_p seg) (s_len seg);
                 Some (s\<lparr>mem := h\<rparr>, v\<lparr>inseg := seg\<rparr>, pcb)
               }
               else if hdr_flags (tcphdr v) AND (TCP_FIN OR TCP_SYN) = hdr_flags (s_hdr oseg) AND (TCP_FIN OR TCP_SYN)
               then Some (s, v, pcb\<lparr>ooseq := os\<rparr>)
               else Some (s, v, pcb)
          else Some (s, v, pcb))"

text \<open>What a segment of \<open>n\<close> sequence numbers that arrived in sequence changes in the control block, and
  where its data goes.\<close>

definition tcp_inseq_pcb :: "tcp_pcb \<Rightarrow> u16 \<Rightarrow> tcp_pcb" where
  "tcp_inseq_pcb pcb n =
     (let pcb = (if pcb_state pcb \<noteq> CLOSE_WAIT then pcb\<lparr>rcv_nxt := rcv_nxt pcb + ucast n\<rparr> else pcb)
      in pcb\<lparr>rcv_wnd := wnd_minus (rcv_wnd pcb) (unat n), rcv_ann_wnd := wnd_minus (rcv_ann_wnd pcb) (unat n)\<rparr>)"

definition tcp_inseq_data :: "pbuf \<Rightarrow> input_vars \<Rightarrow> input_vars" where
  "tcp_inseq_data b v =
     (if tot_len b > 0 then v\<lparr>recv_data := s_p (inseg v), inseg := (inseg v)\<lparr>s_p := NULL\<rparr>\<rparr> else v)"

definition tcp_receive_inseq :: "stack \<Rightarrow> ptr \<Rightarrow> input_vars \<Rightarrow> tcp_pcb \<Rightarrow> (stack \<times> input_vars \<times> tcp_pcb) option" where
  "tcp_receive_inseq s a v pcb =
     do {
       (s, v, pcb) \<leftarrow> tcp_receive_overlap s v pcb;
       let v = v\<lparr>tcplen := of_nat (TCP_TCPLEN (inseg v))\<rparr>;
       let pcb = tcp_inseq_pcb pcb (tcplen v);
       pb \<leftarrow> pbufs (mem s) (s_p (inseg v));
       let v = tcp_got_fin (tcphdr v) (tcp_inseq_data pb v);
       (s, v, pcb) \<leftarrow> tcp_ooseq_drain s v pcb (ooseq pcb);
       (s, pcb) \<leftarrow> tcp_ack s a pcb;
       Some (s, v, pcb)
     }"

text \<open>Cutting a segment off where \<open>seqno\<close> begins.\<close>

definition tcp_seg_cut :: "stack \<Rightarrow> tcp_seg \<Rightarrow> u32 \<Rightarrow> u32 \<Rightarrow> (stack \<times> tcp_seg) option" where
  "tcp_seg_cut s seg start stop =
     (if TCP_SEQ_GT (start + ucast (s_len seg)) stop
      then do {
        let seg = seg\<lparr>s_len := ucast (stop - start)\<rparr>;
        h \<leftarrow> pbuf_realloc (mem s) (s_p seg) (s_len seg);
        Some (s\<lparr>mem := h\<rparr>, seg)
      }
      else Some (s, seg))"

text \<open>The walk along the out-of-sequence queue; \<open>bef\<close> are the segments already passed, the last of
  them is \<^verbatim>\<open>prev\<close>. A failed copy in the first case is followed by a null pointer access.\<close>

fun tcp_ooseq_walk :: "stack \<Rightarrow> input_vars \<Rightarrow> tcp_seg list \<Rightarrow> tcp_seg list \<Rightarrow> (stack \<times> input_vars \<times> tcp_seg list) option" where
  "tcp_ooseq_walk s v bef [] = Some (s, v, bef)"
| "tcp_ooseq_walk s v bef (nxt # rest) =
     (let seqno = in_seqno v; nseq = h_seqno (s_hdr nxt)
      in if seqno = nseq
         then if s_len (inseg v) > s_len nxt
              then do {
                (s, c) \<leftarrow> tcp_seg_copy s (inseg v);
                (s, _) \<leftarrow> tcp_seg_free s nxt;
                cseg \<leftarrow> c;
                (s, cseg) \<leftarrow> (case rest of
                    [] \<Rightarrow> Some (s, cseg)
                  | n2 # _ \<Rightarrow> tcp_seg_cut s cseg seqno (h_seqno (s_hdr n2)));
                Some (s, v, bef @ cseg # rest)
              }
              else Some (s, v, bef @ nxt # rest)
         else if bef = [] \<and> TCP_SEQ_LT seqno nseq
         then do {
           (s, seg) \<leftarrow> tcp_seg_cut s (inseg v) seqno nseq;
           (s, c) \<leftarrow> tcp_seg_copy s seg;
           Some (s, v\<lparr>inseg := seg\<rparr>, (case c of None \<Rightarrow> [] | Some cseg \<Rightarrow> [cseg]) @ nxt # rest)
         }
         else if bef \<noteq> [] \<and> TCP_SEQ_BETWEEN seqno (h_seqno (s_hdr (last bef)) + 1) (nseq - 1)
         then do {
           (s, seg) \<leftarrow> tcp_seg_cut s (inseg v) seqno nseq;
           (s, c) \<leftarrow> tcp_seg_copy s seg;
           case c of
             None \<Rightarrow> Some (s, v\<lparr>inseg := seg\<rparr>, bef @ nxt # rest)
           | Some cseg \<Rightarrow> do {
               (s, prev) \<leftarrow> tcp_seg_cut s (last bef) (h_seqno (s_hdr (last bef))) seqno;
               Some (s, v\<lparr>inseg := seg\<rparr>, butlast bef @ prev # cseg # nxt # rest)
             }
         }
         else if rest = [] \<and> TCP_SEQ_GT seqno nseq
         then do {
           (s, c) \<leftarrow> tcp_seg_copy s (inseg v);
           case c of
             None \<Rightarrow> Some (s, v, bef @ [nxt])
           | Some cseg \<Rightarrow> do {
               (s, nxt) \<leftarrow> tcp_seg_cut s nxt nseq seqno;
               Some (s, v, bef @ [nxt, cseg])
             }
         }
         else tcp_ooseq_walk s v (bef @ [nxt]) rest)"

declare tcp_ooseq_walk.simps(2) [simp del]

definition tcp_receive_ooseq :: "stack \<Rightarrow> ptr \<Rightarrow> input_vars \<Rightarrow> tcp_pcb \<Rightarrow> (stack \<times> input_vars \<times> tcp_pcb) option" where
  "tcp_receive_ooseq s a v pcb =
     do {
       (s, pcb) \<leftarrow> tcp_ack_now s a pcb;
       if ooseq pcb = []
       then do {
         (s, c) \<leftarrow> tcp_seg_copy s (inseg v);
         Some (s, v, pcb\<lparr>ooseq := (case c of None \<Rightarrow> [] | Some cseg \<Rightarrow> [cseg])\<rparr>)
       }
       else do {
         (s, v, q) \<leftarrow> tcp_ooseq_walk s v [] (ooseq pcb);
         Some (s, v, pcb\<lparr>ooseq := q\<rparr>)
       }
     }"

text \<open>The second half of \<^verbatim>\<open>tcp_receive\<close>: the data and the flags of the segment. The last
  result is \<^verbatim>\<open>accepted_inseq\<close>.\<close>

definition tcp_receive_data ::
    "stack \<Rightarrow> ptr \<Rightarrow> input_vars \<Rightarrow> tcp_pcb \<Rightarrow> (stack \<times> input_vars \<times> tcp_pcb \<times> bool) option" where
  "tcp_receive_data s a v pcb =
     (if tcplen v > 0
      then do {
        (s, v, pcb) \<leftarrow> (if TCP_SEQ_BETWEEN (rcv_nxt pcb) (in_seqno v + 1) (in_seqno v + ucast (tcplen v) - 1)
          then do { (s, v) \<leftarrow> tcp_receive_trim s v pcb; Some (s, v, pcb) }
          else if TCP_SEQ_LT (in_seqno v) (rcv_nxt pcb)
          then do { (s, pcb) \<leftarrow> tcp_ack_now s a pcb; Some (s, v, pcb) }
          else Some (s, v, pcb));
        if TCP_SEQ_BETWEEN (in_seqno v) (rcv_nxt pcb) (rcv_nxt pcb + ucast (rcv_ann_wnd pcb) - 1)
        then if rcv_nxt pcb = in_seqno v
             then do { (s, v, pcb) \<leftarrow> tcp_receive_inseq s a v pcb; Some (s, v, pcb, True) }
             else do { (s, v, pcb) \<leftarrow> tcp_receive_ooseq s a v pcb; Some (s, v, pcb, False) }
        else do { (s, pcb) \<leftarrow> tcp_ack_now s a pcb; Some (s, v, pcb, False) }
      }
      else if \<not> TCP_SEQ_BETWEEN (in_seqno v) (rcv_nxt pcb) (rcv_nxt pcb + ucast (rcv_wnd pcb) - 1)
      then do { (s, pcb) \<leftarrow> tcp_ack_now s a pcb; Some (s, v, pcb, False) }
      else Some (s, v, pcb, False))"

definition tcp_receive ::
    "stack \<Rightarrow> ptr \<Rightarrow> input_vars \<Rightarrow> tcp_pcb \<Rightarrow> (stack \<times> input_vars \<times> tcp_pcb \<times> bool) option" where
  "tcp_receive s a v pcb =
     do {
       (s, pcb) \<leftarrow> (if has (in_flags v) TCP_ACK then tcp_receive_ack s a v pcb else Some (s, pcb));
       tcp_receive_data s a v pcb
     }"

section \<open>The state machine\<close>

definition tcp_rst_reply :: "stack \<Rightarrow> input_vars \<Rightarrow> u32 \<Rightarrow> stack option" where
  "tcp_rst_reply s v seqno =
     tcp_rst s seqno (in_seqno v + ucast (tcplen v)) (iph_dest v) (iph_src v) (h_dest (tcphdr v)) (h_src (tcphdr v))"

text \<open>A RST segment: the connection is reset when the sequence number is acceptable.\<close>

definition tcp_process_rst :: "input_vars \<Rightarrow> tcp_pcb \<Rightarrow> input_vars \<times> tcp_pcb \<times> err" where
  "tcp_process_rst v pcb =
     (let acceptable = (if pcb_state pcb = SYN_SENT then in_ackno v = snd_nxt pcb
                        else TCP_SEQ_BETWEEN (in_seqno v) (rcv_nxt pcb) (rcv_nxt pcb + ucast (rcv_ann_wnd pcb)))
      in if acceptable
         then (v\<lparr>recv_flags := TF_RESET\<rparr>, pcb\<lparr>pcb_flags := pcb_flags pcb AND NOT TF_ACK_DELAY\<rparr>, ERR_RST)
         else (v, pcb, ERR_OK))"

text \<open>A SYN|ACK that answers our SYN, up to the callback.\<close>

definition tcp_process_synack :: "stack \<Rightarrow> input_vars \<Rightarrow> tcp_pcb \<Rightarrow> tcp_seg \<Rightarrow> tcp_seg list \<Rightarrow> (stack \<times> tcp_pcb) option" where
  "tcp_process_synack s v pcb rseg segs =
     do {
       let pcb = pcb\<lparr>snd_buf := snd_buf pcb + 1, rcv_nxt := in_seqno v + 1, lastack := in_ackno v,
                     snd_wnd := h_wnd (tcphdr v), snd_wl1 := in_seqno v - 1, pcb_state := ESTABLISHED\<rparr>;
       pcb \<leftarrow> tcp_parseopt v pcb;
       m \<leftarrow> tcp_eff_send_mss s (mss pcb) (remote_ip pcb);
       let pcb = pcb\<lparr>mss := m, ssthresh := m * 10\<rparr>;
       let pcb = pcb\<lparr>cwnd := (if cwnd pcb = 1 then m * 2 else m), snd_queuelen := snd_queuelen pcb - 1, unacked := segs\<rparr>;
       let pcb = (if segs = [] then pcb\<lparr>rtime := -1\<rparr> else pcb\<lparr>rtime := 0, nrtx := 0\<rparr>);
       (s, _) \<leftarrow> tcp_seg_free s rseg;
       Some (s, pcb)
     }"

definition tcp_process_syn_sent :: "callbacks \<Rightarrow> stack \<Rightarrow> ptr \<Rightarrow> input_vars \<Rightarrow> tcp_pcb \<Rightarrow> stack option" where
  "tcp_process_syn_sent cb s a v pcb =
     do {
       synack \<leftarrow> (if has (in_flags v) TCP_ACK \<and> has (in_flags v) TCP_SYN
         then (case unacked pcb of [] \<Rightarrow> None | rseg # _ \<Rightarrow> Some (in_ackno v = ntohl (h_seqno (s_hdr rseg)) + 1))
         else Some False);
       if synack
       then do {
         (s, pcb) \<leftarrow> tcp_process_synack s v pcb (hd (unacked pcb)) (tl (unacked pcb));
         let s = put_pcb a pcb s;
         (s, _) \<leftarrow> (if cb_connected pcb \<noteq> 0 then on_connected cb (cb_connected pcb) s (callback_arg pcb) a ERR_OK
                     else Some (s, ERR_OK));
         pcb \<leftarrow> pcbs s a;
         (s, pcb) \<leftarrow> tcp_ack_now s a pcb;
         Some (put_pcb a pcb s)
       }
       else do {
         s \<leftarrow> (if has (in_flags v) TCP_ACK then tcp_rst_reply s v (in_ackno v) else Some s);
         Some (put_pcb a pcb s)
       }
     }"

text \<open>A FIN that was accepted in sequence is acknowledged and closes the other side.\<close>

definition tcp_passive_close :: "stack \<Rightarrow> ptr \<Rightarrow> input_vars \<Rightarrow> tcp_pcb \<Rightarrow> bool \<Rightarrow> (stack \<times> tcp_pcb) option" where
  "tcp_passive_close s a v pcb accepted_inseq =
     (if has (in_flags v) TCP_FIN \<and> accepted_inseq
      then do { (s, pcb) \<leftarrow> tcp_ack_now s a pcb; Some (s, pcb\<lparr>pcb_state := CLOSE_WAIT\<rparr>) }
      else Some (s, pcb))"

text \<open>\<^verbatim>\<open>TCP_EVENT_ACCEPT\<close>: \<^verbatim>\<open>tcp_accept_null\<close> refuses.\<close>

definition TCP_EVENT_ACCEPT :: "callbacks \<Rightarrow> stack \<Rightarrow> ptr \<Rightarrow> tcp_pcb \<Rightarrow> (stack \<times> err) option" where
  "TCP_EVENT_ACCEPT cb s a pcb =
     (if cb_accept pcb = 0 then Some (s, ERR_OK)
      else if cb_accept pcb = TCP_ACCEPT_NULL then Some (s, ERR_ABRT)
      else on_accept cb (cb_accept pcb) s (callback_arg pcb) a ERR_OK)"

definition tcp_process_syn_rcvd ::
    "callbacks \<Rightarrow> stack \<Rightarrow> ptr \<Rightarrow> input_vars \<Rightarrow> tcp_pcb \<Rightarrow> (stack \<times> input_vars \<times> err) option" where
  "tcp_process_syn_rcvd cb s a v pcb =
     (if has (in_flags v) TCP_ACK \<and> \<not> has (in_flags v) TCP_RST
      then if TCP_SEQ_BETWEEN (in_ackno v) (lastack pcb + 1) (snd_nxt pcb)
           then do {
             let pcb = pcb\<lparr>pcb_state := ESTABLISHED\<rparr>;
             (s, e) \<leftarrow> TCP_EVENT_ACCEPT cb (put_pcb a pcb s) a pcb;
             if e \<noteq> ERR_OK then do { s \<leftarrow> tcp_abort cb s a; Some (s, v, ERR_ABRT) }
             else do {
               pcb \<leftarrow> pcbs s a;
               let old_cwnd = cwnd pcb;
               (s, v, pcb, accepted_inseq) \<leftarrow> tcp_receive s a v pcb;
               let pcb = pcb\<lparr>cwnd := (if old_cwnd = 1 then mss pcb * 2 else mss pcb)\<rparr>;
               (s, pcb) \<leftarrow> tcp_passive_close s a v pcb accepted_inseq;
               Some (put_pcb a pcb s, v, ERR_OK)
             }
           }
           else do { s \<leftarrow> tcp_rst_reply s v (in_ackno v); Some (put_pcb a pcb s, v, ERR_OK) }
      else Some (put_pcb a pcb s, v, ERR_OK))"

text \<open>The move to TIME-WAIT.\<close>

definition tcp_enter_timewait :: "stack \<Rightarrow> ptr \<Rightarrow> tcp_pcb \<Rightarrow> stack option" where
  "tcp_enter_timewait s a pcb =
     do {
       (s, pcb) \<leftarrow> tcp_ack_now s a pcb;
       (s, pcb) \<leftarrow> tcp_pcb_purge s pcb;
       let s = s\<lparr>tcp_active_pcbs := TCP_RMV a (tcp_active_pcbs s)\<rparr>;
       let s = put_pcb a (pcb\<lparr>pcb_state := TIME_WAIT\<rparr>) s;
       Some (s\<lparr>tcp_tw_pcbs := TCP_REG a (tcp_tw_pcbs s)\<rparr>)
     }"

definition acks_all :: "input_vars \<Rightarrow> tcp_pcb \<Rightarrow> bool" where
  "acks_all v pcb \<longleftrightarrow> has (in_flags v) TCP_ACK \<and> in_ackno v = snd_nxt pcb"

text \<open>What the closing states do after \<^verbatim>\<open>tcp_receive\<close>.\<close>

definition tcp_process_closing :: "stack \<Rightarrow> ptr \<Rightarrow> input_vars \<Rightarrow> tcp_pcb \<Rightarrow> tcp_state \<Rightarrow> (stack \<times> input_vars) option" where
  "tcp_process_closing s a v pcb st =
     (case st of
        FIN_WAIT_1 \<Rightarrow>
          if has (in_flags v) TCP_FIN
          then if acks_all v pcb then do { s \<leftarrow> tcp_enter_timewait s a pcb; Some (s, v) }
               else do { (s, pcb) \<leftarrow> tcp_ack_now s a pcb; Some (put_pcb a (pcb\<lparr>pcb_state := CLOSING\<rparr>) s, v) }
          else Some (put_pcb a (if acks_all v pcb then pcb\<lparr>pcb_state := FIN_WAIT_2\<rparr> else pcb) s, v)
      | FIN_WAIT_2 \<Rightarrow>
          if has (in_flags v) TCP_FIN then do { s \<leftarrow> tcp_enter_timewait s a pcb; Some (s, v) }
          else Some (put_pcb a pcb s, v)
      | CLOSING \<Rightarrow>
          if acks_all v pcb then do { s \<leftarrow> tcp_enter_timewait s a pcb; Some (s, v) }
          else Some (put_pcb a pcb s, v)
      | LAST_ACK \<Rightarrow> Some (put_pcb a pcb s, if acks_all v pcb then v\<lparr>recv_flags := TF_CLOSED\<rparr> else v)
      | _ \<Rightarrow> Some (put_pcb a pcb s, v))"

definition tcp_process :: "callbacks \<Rightarrow> stack \<Rightarrow> ptr \<Rightarrow> input_vars \<Rightarrow> (stack \<times> input_vars \<times> err) option" where
  "tcp_process cb s a v =
     do {
       pcb \<leftarrow> pcbs s a;
       if has (in_flags v) TCP_RST
       then let (v, pcb, e) = tcp_process_rst v pcb in Some (put_pcb a pcb s, v, e)
       else do {
         let pcb = pcb\<lparr>tmr := tcp_ticks s, keep_cnt_sent := 0\<rparr>;
         case pcb_state pcb of
           SYN_SENT \<Rightarrow> do { s \<leftarrow> tcp_process_syn_sent cb s a v pcb; Some (s, v, ERR_OK) }
         | SYN_RCVD \<Rightarrow> tcp_process_syn_rcvd cb s a v pcb
         | CLOSED \<Rightarrow> Some (put_pcb a pcb s, v, ERR_OK)
         | LISTEN \<Rightarrow> Some (put_pcb a pcb s, v, ERR_OK)
         | TIME_WAIT \<Rightarrow> Some (put_pcb a pcb s, v, ERR_OK)
         | st \<Rightarrow> do {
             (s, v, pcb, accepted_inseq) \<leftarrow> tcp_receive s a v pcb;
             if st = ESTABLISHED \<or> st = CLOSE_WAIT
             then do {
               (s, pcb) \<leftarrow> tcp_passive_close s a v pcb accepted_inseq;
               Some (put_pcb a pcb s, v, ERR_OK)
             }
             else do { (s, v) \<leftarrow> tcp_process_closing s a v pcb st; Some (s, v, ERR_OK) }
           }
       }
     }"

section \<open>Demultiplexing\<close>

definition tcp_timewait_input :: "stack \<Rightarrow> ptr \<Rightarrow> input_vars \<Rightarrow> stack option" where
  "tcp_timewait_input s a v =
     do {
       pcb \<leftarrow> pcbs s a;
       let e = in_seqno v + ucast (tcplen v);
       let pcb = (if TCP_SEQ_GT e (rcv_nxt pcb) then pcb\<lparr>rcv_nxt := e\<rparr> else pcb);
       (s, pcb) \<leftarrow> (if tcplen v > 0 then tcp_ack_now s a pcb else Some (s, pcb));
       (s, pcb, _) \<leftarrow> tcp_output s a pcb;
       Some (put_pcb a pcb s)
     }"

text \<open>Input for the listening block at \<open>b\<close>. Making room for the new block can call the error callback of another one, so the listening
  block is read again afterwards.\<close>

definition tcp_listen_input :: "callbacks \<Rightarrow> stack \<Rightarrow> ptr \<Rightarrow> input_vars \<Rightarrow> (stack \<times> err) option" where
  "tcp_listen_input cb s b v =
     (if has (in_flags v) TCP_ACK
      then do { s \<leftarrow> tcp_rst_reply s v (in_ackno v + 1); Some (s, ERR_OK) }
      else if has (in_flags v) TCP_SYN
      then do {
        l \<leftarrow> lpcbs s b;
        (s, n) \<leftarrow> tcp_alloc cb s (l_prio l);
        if n = NULL then Some (s, ERR_MEM)
        else do {
          npcb \<leftarrow> pcbs s n;
          l \<leftarrow> lpcbs s b;
          let npcb = npcb\<lparr>local_ip := iph_dest v, local_port := l_local_port l, remote_ip := iph_src v,
            remote_port := h_src (tcphdr v), pcb_state := SYN_RCVD, rcv_nxt := in_seqno v + 1,
            snd_wnd := h_wnd (tcphdr v), ssthresh := h_wnd (tcphdr v), snd_wl1 := in_seqno v - 1,
            callback_arg := l_callback_arg l, cb_accept := l_accept l,
            so_options := l_so_options l AND (0x0001 OR 0x0010 OR 0x0008 OR 0x0100 OR 0x0080)\<rparr>;
          let s = s\<lparr>tcp_active_pcbs := TCP_REG n (tcp_active_pcbs s)\<rparr>;
          npcb \<leftarrow> tcp_parseopt v npcb;
          m \<leftarrow> tcp_eff_send_mss s (mss npcb) (remote_ip npcb);
          (s, npcb, _) \<leftarrow> tcp_enqueue s (npcb\<lparr>mss := m\<rparr>) None 0 (TCP_SYN OR TCP_ACK) 0 (Some TCP_BUILD_MSS_OPTION);
          (s, npcb, e) \<leftarrow> tcp_output s n npcb;
          Some (put_pcb n npcb s, e)
        }
      }
      else Some (s, ERR_OK))"

text \<open>The loops over the lists for the block of a segment.\<close>

definition pcb_match :: "input_vars \<Rightarrow> tcp_pcb \<Rightarrow> bool" where
  "pcb_match v pcb \<longleftrightarrow> remote_port pcb = h_src (tcphdr v) \<and> local_port pcb = h_dest (tcphdr v)
     \<and> remote_ip pcb = iph_src v \<and> local_ip pcb = iph_dest v"

fun find_pcb :: "stack \<Rightarrow> input_vars \<Rightarrow> ptr list \<Rightarrow> ptr option" where
  "find_pcb s v [] = Some NULL"
| "find_pcb s v (a # as) = do { pcb \<leftarrow> pcbs s a; if pcb_match v pcb then Some a else find_pcb s v as }"

fun find_lpcb :: "stack \<Rightarrow> input_vars \<Rightarrow> ptr list \<Rightarrow> ptr option" where
  "find_lpcb s v [] = Some NULL"
| "find_lpcb s v (a # as) =
     do {
       l \<leftarrow> lpcbs s a;
       if (ip_addr_isany (l_local_ip l) \<or> l_local_ip l = iph_dest v) \<and> l_local_port l = h_dest (tcphdr v)
       then Some a else find_lpcb s v as
     }"

text \<open>What follows \<^verbatim>\<open>tcp_process\<close> in \<^verbatim>\<open>tcp_input\<close>.\<close>

definition tcp_input_deliver :: "callbacks \<Rightarrow> stack \<Rightarrow> ptr \<Rightarrow> input_vars \<Rightarrow> stack option" where
  "tcp_input_deliver cb s a v =
     do {
       pcb \<leftarrow> pcbs s a;
       (s, e) \<leftarrow> (if acked pcb > 0 \<and> cb_sent pcb \<noteq> 0
         then on_sent cb (cb_sent pcb) s (callback_arg pcb) a (acked pcb) else Some (s, ERR_OK));
       (s, e) \<leftarrow> (if recv_data v \<noteq> NULL
         then do {
           s \<leftarrow> (if has (in_flags v) TCP_PSH
             then do { pb \<leftarrow> pbufs (mem s) (recv_data v);
                       Some (s\<lparr>mem := put_pbuf (recv_data v) (pb\<lparr>p_flags := p_flags pb OR 1\<rparr>) (mem s)\<rparr>) }
             else Some s);
           (s, e) \<leftarrow> TCP_EVENT_RECV cb s a (recv_data v) ERR_OK;
           if e \<noteq> ERR_OK
           then do { pcb \<leftarrow> pcbs s a; Some (put_pcb a (pcb\<lparr>refused_data := recv_data v\<rparr>) s, e) }
           else Some (s, e)
         }
         else Some (s, e));
       (s, e) \<leftarrow> (if has (recv_flags v) TF_GOT_FIN then TCP_EVENT_RECV cb s a NULL ERR_OK else Some (s, e));
       if e = ERR_OK
       then do { pcb \<leftarrow> pcbs s a; (s, pcb, _) \<leftarrow> tcp_output s a pcb; Some (put_pcb a pcb s) }
       else Some s
     }"

definition tcp_input_active :: "callbacks \<Rightarrow> stack \<Rightarrow> ptr \<Rightarrow> input_vars \<Rightarrow> stack option" where
  "tcp_input_active cb s a v =
     do {
       (s, v, e) \<leftarrow> tcp_process cb (s\<lparr>tcp_input_pcb := a\<rparr>) a v;
       let s = s\<lparr>tcp_input_pcb := NULL\<rparr>;
       s \<leftarrow> (if e = ERR_ABRT then Some s
         else if has (recv_flags v) TF_RESET
         then do {
           pcb \<leftarrow> pcbs s a;
           s \<leftarrow> TCP_EVENT_ERR cb s (cb_errf pcb) (callback_arg pcb) ERR_RST;
           s \<leftarrow> tcp_pcb_remove (s\<lparr>tcp_active_pcbs := TCP_RMV a (tcp_active_pcbs s)\<rparr>) a;
           Some (memp_free_pcb a s)
         }
         else if has (recv_flags v) TF_CLOSED
         then do {
           s \<leftarrow> tcp_pcb_remove (s\<lparr>tcp_active_pcbs := TCP_RMV a (tcp_active_pcbs s)\<rparr>) a;
           Some (memp_free_pcb a s)
         }
         else tcp_input_deliver cb s a v);
       if s_p (inseg v) \<noteq> NULL then do { (s, _) \<leftarrow> pbuf_free_s s (s_p (inseg v)); Some s } else Some s
     }"

text \<open>The segment for a control block that still holds data its application refused.\<close>

definition tcp_input_pcb_found :: "callbacks \<Rightarrow> stack \<Rightarrow> ptr \<Rightarrow> input_vars \<Rightarrow> stack option" where
  "tcp_input_pcb_found cb s a v =
     do {
       pcb \<leftarrow> pcbs s a;
       if refused_data pcb \<noteq> NULL
       then do {
         (s, e) \<leftarrow> TCP_EVENT_RECV cb s a (refused_data pcb) ERR_OK;
         if e = ERR_OK
         then do {
           pcb \<leftarrow> pcbs s a;
           tcp_input_active cb (put_pcb a (pcb\<lparr>refused_data := NULL\<rparr>) s) a v
         }
         else do { (s, _) \<leftarrow> pbuf_free_s s (s_p (inseg v)); Some s }
       }
       else tcp_input_active cb s a v
     }"

definition tcp_input_demux :: "callbacks \<Rightarrow> stack \<Rightarrow> ptr \<Rightarrow> input_vars \<Rightarrow> stack option" where
  "tcp_input_demux cb s p v =
     do {
       a \<leftarrow> find_pcb s v (tcp_active_pcbs s);
       if a \<noteq> NULL
       then tcp_input_pcb_found cb (s\<lparr>tcp_active_pcbs := a # remove1 a (tcp_active_pcbs s)\<rparr>) a v
       else do {
         a \<leftarrow> find_pcb s v (tcp_tw_pcbs s);
         if a \<noteq> NULL
         then do { s \<leftarrow> tcp_timewait_input s a v; (s, _) \<leftarrow> pbuf_free_s s p; Some s }
         else do {
           a \<leftarrow> find_lpcb s v (tcp_listen_pcbs s);
           if a \<noteq> NULL
           then do {
             (s, _) \<leftarrow> tcp_listen_input cb (s\<lparr>tcp_listen_pcbs := a # remove1 a (tcp_listen_pcbs s)\<rparr>) a v;
             (s, _) \<leftarrow> pbuf_free_s s p;
             Some s
           }
           else do {
             s \<leftarrow> (if \<not> has (hdr_flags (tcphdr v)) TCP_RST then tcp_rst_reply s v (in_ackno v) else Some s);
             (s, _) \<leftarrow> pbuf_free_s s p;
             Some s
           }
         }
       }
     }"

text \<open>The header in memory.\<close>

definition read_tcp_hdr :: "heap \<Rightarrow> ptr \<times> int \<Rightarrow> tcp_hdr option" where
  "read_tcp_hdr h a =
     do {
       bs \<leftarrow> mem_read h a 20;
       Some \<lparr>h_src = load16w bs 0, h_dest = load16w bs 2, h_seqno = load32w bs 4, h_ackno = load32w bs 8,
             hdrlen_rsvd_flags = load16w bs 12, h_wnd = load16w bs 14, h_chksum = load16w bs 16, h_urgp = load16w bs 18\<rparr>
     }"

text \<open>The octets from an address to the end of its block.\<close>

definition mem_rest :: "heap \<Rightarrow> ptr \<times> int \<Rightarrow> u8 list" where
  "mem_rest h a = (case blocks h (fst a) of None \<Rightarrow> [] | Some bs \<Rightarrow> drop (nat (snd a)) bs)"

text \<open>The header converted to host byte order, and the variables of the input functions.\<close>

definition tcp_hdr_to_host :: "tcp_hdr \<Rightarrow> tcp_hdr" where
  "tcp_hdr_to_host h = h\<lparr>h_src := ntohs (h_src h), h_dest := ntohs (h_dest h), h_seqno := ntohl (h_seqno h),
     h_ackno := ntohl (h_ackno h), h_wnd := ntohs (h_wnd h)\<rparr>"

definition tcp_input_vars :: "heap \<Rightarrow> ptr \<Rightarrow> ip_hdr \<Rightarrow> ptr \<times> int \<Rightarrow> tcp_hdr \<Rightarrow> input_vars option" where
  "tcp_input_vars h p iphdr addr hdr =
     do {
       pb \<leftarrow> pbufs h p;
       let hdr = tcp_hdr_to_host hdr;
       let fl = hdr_flags hdr;
       Some \<lparr>inseg = \<lparr>s_p = p, s_dataptr = payload pb, s_len = tot_len pb, s_tcphdr = addr, s_hdr = hdr\<rparr>,
             opts = mem_rest h (ptr_add addr (unat TCP_HLEN)), iph_src = ih_src iphdr, iph_dest = ih_dest iphdr,
             in_seqno = h_seqno hdr, in_ackno = h_ackno hdr, in_flags = fl,
             tcplen = tot_len pb + (if has fl TCP_FIN \<or> has fl TCP_SYN then 1 else 0),
             recv_flags = 0, recv_data = NULL\<rparr>
     }"

definition tcp_input_drop :: "stack \<Rightarrow> ptr \<Rightarrow> stack option" where
  "tcp_input_drop s p = do { (s, _) \<leftarrow> pbuf_free_s s p; Some s }"

definition tcp_input :: "callbacks \<Rightarrow> stack \<Rightarrow> ptr \<Rightarrow> ptr \<Rightarrow> stack option" where
  "tcp_input cb s p inp =
     do {
       pb \<leftarrow> pbufs (mem s) p;
       iphdr \<leftarrow> read_ip_hdr (mem s) (payload pb);
       (s, fail) \<leftarrow> pbuf_header_s s p (- (IPH_HL iphdr * 4));
       pb \<leftarrow> pbufs (mem s) p;
       if fail \<or> tot_len pb < 20 then tcp_input_drop s p
       else do {
         nf \<leftarrow> netifs s inp;
         xs \<leftarrow> pbuf_octets (mem s) p;
         if ip_addr_isbroadcast (ih_dest iphdr) nf \<or> ip_addr_ismulticast (ih_dest iphdr) then tcp_input_drop s p
         else if inet_chksum_pseudo xs (ih_src iphdr) (ih_dest iphdr) IP_PROTO_TCP (tot_len pb) \<noteq> 0
         then tcp_input_drop s p
         else do {
           hdr \<leftarrow> read_tcp_hdr (mem s) (payload pb);
           (s, fail) \<leftarrow> pbuf_header_s s p (- (TCPH_HDRLEN hdr * 4));
           if fail then tcp_input_drop s p
           else do {
             v \<leftarrow> tcp_input_vars (mem s) p iphdr (payload pb) hdr;
             tcp_input_demux cb s p v
           }
         }
       }
     }"

end
