(* ===== verification/Tcp_Frame.thy ===== *)
theory Tcp_Frame
  imports Tcp_In
begin

text \<open>
  What the operations of TCP leave alone: the \<open>frame\<close> of the stack, and the \<open>core\<close> of a control block,
  which is the block without the fields that sending changes. A function that only sends keeps both.
\<close>

lemma bind2E:
  assumes "Option.bind m (\<lambda>(x, y). f x y) = Some r"
  obtains x y where "m = Some (x, y)" "f x y = Some r"
  using assms by (cases m) auto

lemma bind3E:
  assumes "Option.bind m (\<lambda>(x, y, z). f x y z) = Some r"
  obtains x y z where "m = Some (x, y, z)" "f x y z = Some r"
  using assms by (cases m) auto
section \<open>The stack\<close>

lemma frameD:
  assumes "frame s' = frame s"
  shows "netifs s' = netifs s" "netif_list s' = netif_list s" "netif_default s' = netif_default s"
    "drv_err s' = drv_err s" "tcp_ticks s' = tcp_ticks s" "tcp_timer s' = tcp_timer s" "tcp_iss s' = tcp_iss s"
    "tcp_port s' = tcp_port s" "pcbs s' = pcbs s" "lpcbs s' = lpcbs s" "tcp_bound_pcbs s' = tcp_bound_pcbs s"
    "tcp_listen_pcbs s' = tcp_listen_pcbs s" "tcp_active_pcbs s' = tcp_active_pcbs s" "tcp_tw_pcbs s' = tcp_tw_pcbs s"
    "tcp_input_pcb s' = tcp_input_pcb s" "tcp_junk s' = tcp_junk s"
  using assms unfolding frame_def by (cases s; cases s'; simp)+

lemma ip_transmit_io [io]: "ip_transmit s p over dest nif = Some (s', e) \<Longrightarrow> frame s' = frame s"
  by (auto simp: ip_transmit_def bind_eq_Some_conv Let_def split: if_splits dest!: io)

lemma ip_output_if_io [io]: "ip_output_if s p over src dest t t' proto nif = Some (s', e) \<Longrightarrow> frame s' = frame s"
  by (auto simp: ip_output_if_def bind_eq_Some_conv Let_def split: option.splits if_splits dest!: io)

lemma ip_output_io [io]: "ip_output s p over src dest t t' proto = Some (s', e) \<Longrightarrow> frame s' = frame s"
  by (auto simp: ip_output_def bind_eq_Some_conv split: if_splits dest!: io)

lemma tcp_seg_free_io [io]: "tcp_seg_free s seg = Some (s', n) \<Longrightarrow> frame s' = frame s"
  by (auto simp: tcp_seg_free_def split: if_splits dest!: io)

lemma tcp_segs_free_io [io]: "tcp_segs_free s segs = Some (s', n) \<Longrightarrow> frame s' = frame s"
  by (induction segs arbitrary: s s' n) (auto simp: bind_eq_Some_conv dest!: tcp_seg_free_io)

lemma tcp_seg_copy_io [io]: "tcp_seg_copy s seg = Some (s', c) \<Longrightarrow> frame s' = frame s"
  by (auto simp: tcp_seg_copy_def bind_eq_Some_conv split: prod.splits if_splits dest!: io)

lemma tcp_send_empty_io [io]: "tcp_send_empty s p hdr lip rip t t' = Some s' \<Longrightarrow> frame s' = frame s"
  by (auto simp: tcp_send_empty_def bind_eq_Some_conv dest!: io)

lemma tcp_rst_io [io]: "tcp_rst s seqno ackno lip rip lport rport = Some s' \<Longrightarrow> frame s' = frame s"
  by (auto simp: tcp_rst_def bind_eq_Some_conv split: if_splits dest!: io)

lemma tcp_rst_reply_io [io]: "tcp_rst_reply s v n = Some s' \<Longrightarrow> frame s' = frame s"
  unfolding tcp_rst_reply_def by (rule tcp_rst_io)

lemma tcp_keepalive_io [io]: "tcp_keepalive s pcb = Some s' \<Longrightarrow> frame s' = frame s"
  by (auto simp: tcp_keepalive_def bind_eq_Some_conv split: if_splits dest!: io)

lemma tcp_zero_window_probe_io [io]: "tcp_zero_window_probe s pcb = Some s' \<Longrightarrow> frame s' = frame s"
  by (auto simp: tcp_zero_window_probe_def bind_eq_Some_conv Let_def split: if_splits list.splits dest!: io)

section \<open>Sending\<close>

definition core :: "tcp_pcb \<Rightarrow> tcp_pcb" where
  "core pcb = pcb\<lparr>local_ip := 0, pcb_flags := 0, rtime := 0, rttest := 0, rtseq := 0, nrtx := 0, snd_nxt := 0,
     snd_max := 0, unsent := [], unacked := [], persist_cnt := 0, persist_backoff := 0\<rparr>"

lemma core_upd [simp]:
  "core (pcb\<lparr>local_ip := i\<rparr>) = core pcb" "core (pcb\<lparr>pcb_flags := f\<rparr>) = core pcb" "core (pcb\<lparr>rtime := r\<rparr>) = core pcb"
  "core (pcb\<lparr>rttest := t\<rparr>) = core pcb" "core (pcb\<lparr>rtseq := t\<rparr>) = core pcb" "core (pcb\<lparr>nrtx := k\<rparr>) = core pcb"
  "core (pcb\<lparr>snd_nxt := n\<rparr>) = core pcb" "core (pcb\<lparr>snd_max := n\<rparr>) = core pcb" "core (pcb\<lparr>unsent := u\<rparr>) = core pcb"
  "core (pcb\<lparr>unacked := u\<rparr>) = core pcb" "core (pcb\<lparr>persist_cnt := c\<rparr>) = core pcb"
  "core (pcb\<lparr>persist_backoff := b\<rparr>) = core pcb"
  by (simp_all add: core_def)

lemma coreD:
  assumes "core pcb' = core pcb"
  shows "pcb_state pcb' = pcb_state pcb" "rcv_nxt pcb' = rcv_nxt pcb" "rcv_wnd pcb' = rcv_wnd pcb"
    "rcv_ann_wnd pcb' = rcv_ann_wnd pcb" "lastack pcb' = lastack pcb" "snd_wnd pcb' = snd_wnd pcb" "cwnd pcb' = cwnd pcb"
    "mss pcb' = mss pcb" "snd_lbb pcb' = snd_lbb pcb" "ooseq pcb' = ooseq pcb" "tmr pcb' = tmr pcb"
    "local_port pcb' = local_port pcb" "remote_port pcb' = remote_port pcb" "remote_ip pcb' = remote_ip pcb"
    "cb_errf pcb' = cb_errf pcb" "so_options pcb' = so_options pcb" "keep_idle pcb' = keep_idle pcb"
    "refused_data pcb' = refused_data pcb" "ssthresh pcb' = ssthresh pcb" "snd_buf pcb' = snd_buf pcb"
    "snd_queuelen pcb' = snd_queuelen pcb" "keep_cnt_sent pcb' = keep_cnt_sent pcb"
  using assms unfolding core_def by (cases pcb; cases pcb'; simp)+

named_theorems sends "functions that keep the frame of the stack and the core of the control block"

lemma tcp_output_segment_sends [sends]:
  assumes "tcp_output_segment s seg pcb = Some (s', seg', pcb')"
  shows "frame s' = frame s \<and> core pcb' = core pcb"
proof -
  obtain lip where "(if ip_addr_isany (local_ip pcb)
         then do { n \<leftarrow> ip_route s (remote_ip pcb);
           if n = NULL then Some None else do { nf \<leftarrow> netifs s n; Some (Some (nf_ip_addr nf)) } }
         else Some (Some (local_ip pcb))) = Some lip"
    using assms unfolding tcp_output_segment_def Let_def bind_eq_Some_conv by blast
  then show ?thesis
    using assms unfolding tcp_output_segment_def Let_def
    by (cases lip) (auto simp: bind_eq_Some_conv dest!: ip_output_io)
qed

text \<open>The three parts of \<open>tcp_output_one\<close>: the segment and the control block it starts from, and the
  control block once the segment is sent.\<close>

definition out_seg :: "tcp_pcb \<Rightarrow> tcp_seg \<Rightarrow> tcp_seg" where
  "out_seg pcb seg = (if pcb_state pcb \<noteq> SYN_SENT then seg\<lparr>s_hdr := TCPH_SET_FLAG TCP_ACK (s_hdr seg)\<rparr> else seg)"

definition out_pcb :: "tcp_pcb \<Rightarrow> tcp_seg list \<Rightarrow> tcp_pcb" where
  "out_pcb pcb rest = pcb\<lparr>unsent := rest,
     pcb_flags := (if pcb_state pcb \<noteq> SYN_SENT then pcb_flags pcb AND NOT (TF_ACK_DELAY OR TF_ACK_NOW) else pcb_flags pcb)\<rparr>"

definition sent_pcb :: "tcp_pcb \<Rightarrow> tcp_seg \<Rightarrow> tcp_pcb" where
  "sent_pcb pcb seg = pcb\<lparr>snd_nxt := seg_end seg,
     snd_max := (if TCP_SEQ_LT (snd_max pcb) (seg_end seg) then seg_end seg else snd_max pcb)\<rparr>"

lemma core_parts [simp]: "core (out_pcb pcb rest) = core pcb" "core (sent_pcb pcb seg) = core pcb"
  by (simp_all add: out_pcb_def sent_pcb_def)

lemma unacked_parts [simp]: "unacked (sent_pcb pcb seg) = unacked pcb" "unacked (out_pcb pcb rest) = unacked pcb"
  by (simp_all add: out_pcb_def sent_pcb_def)

lemma tcp_output_one_eq:
  "tcp_output_one s pcb seg rest =
     do {
       (s, seg, pcb) \<leftarrow> tcp_output_segment s (out_seg pcb seg) (out_pcb pcb rest);
       if TCP_TCPLEN seg > 0
       then Some (s, (sent_pcb pcb seg)\<lparr>unacked := tcp_unacked_insert (unacked pcb) seg\<rparr>)
       else do { (s, _) \<leftarrow> tcp_seg_free s seg; Some (s, sent_pcb pcb seg) }
     }"
proof -
  have *: "(let (seg, pcb) = (if c then (x, y) else (seg', pcb')) in F seg pcb) = F (if c then x else seg') (if c then y else pcb')"
    for c x y seg' pcb' and F :: "tcp_seg \<Rightarrow> tcp_pcb \<Rightarrow> 'z"
    by simp
  have snd: "(let pcb1 = pcb\<lparr>snd_nxt := ntohl (h_seqno (s_hdr seg)) + of_nat (TCP_TCPLEN seg)\<rparr>
      in let pcb2 = (if TCP_SEQ_LT (snd_max pcb1) (snd_nxt pcb1) then pcb1\<lparr>snd_max := snd_nxt pcb1\<rparr> else pcb1) in F pcb2)
    = F (sent_pcb pcb seg)" for pcb seg and F :: "tcp_pcb \<Rightarrow> 'z"
    by (simp add: sent_pcb_def seg_end_def)
  show ?thesis
    unfolding tcp_output_one_def Let_def [of "pcb\<lparr>unsent := rest\<rparr>"] * snd
    by (simp add: out_seg_def out_pcb_def cong: if_cong)
qed

lemma tcp_output_one_sends [sends]:
  assumes "tcp_output_one s pcb seg rest = Some (s', pcb')"
  shows "frame s' = frame s \<and> core pcb' = core pcb"
proof -
  obtain s1 seg1 pcb1 where 1: "tcp_output_segment s (out_seg pcb seg) (out_pcb pcb rest) = Some (s1, seg1, pcb1)"
      "(if TCP_TCPLEN seg1 > 0 then Some (s1, (sent_pcb pcb1 seg1)\<lparr>unacked := tcp_unacked_insert (unacked pcb1) seg1\<rparr>)
        else do { (s, _) \<leftarrow> tcp_seg_free s1 seg1; Some (s, sent_pcb pcb1 seg1) }) = Some (s', pcb')"
    using assms
    by (cases "tcp_output_segment s (out_seg pcb seg) (out_pcb pcb rest)") (auto simp: tcp_output_one_eq)
  then have "frame s1 = frame s \<and> core pcb1 = core pcb"
    using tcp_output_segment_sends [OF 1(1)] by simp
  then show ?thesis
    using 1(2) by (auto simp: bind_eq_Some_conv split: if_split_asm dest!: tcp_seg_free_io)
qed

lemma tcp_output_loop_sends [sends]:
  "tcp_output_loop s wnd pcb segs = Some (s', pcb') \<Longrightarrow> frame s' = frame s \<and> core pcb' = core pcb"
  by (induction segs arbitrary: s pcb)
    (fastforce simp: tcp_output_loop.simps(2) bind_eq_Some_conv split: if_splits dest!: tcp_output_one_sends)+

lemma tcp_output_ack_sends [sends]:
  "tcp_output_ack s pcb = Some (s', pcb', e) \<Longrightarrow> frame s' = frame s \<and> core pcb' = core pcb"
  unfolding tcp_output_ack_def Let_def
  by (auto simp: bind_eq_Some_conv split: if_splits dest!: io)

lemma tcp_output_sends [sends]:
  "tcp_output s a pcb = Some (s', pcb', e) \<Longrightarrow> frame s' = frame s \<and> core pcb' = core pcb"
  unfolding tcp_output_def Let_def
  by (auto simp: bind_eq_Some_conv split: if_splits list.splits dest!: tcp_output_ack_sends tcp_output_loop_sends)

lemma tcp_ack_now_sends [sends]:
  "tcp_ack_now s a pcb = Some (s', pcb') \<Longrightarrow> frame s' = frame s \<and> core pcb' = core pcb"
  unfolding tcp_ack_now_def by (auto simp: bind_eq_Some_conv dest!: tcp_output_sends)

lemma tcp_ack_sends [sends]:
  "tcp_ack s a pcb = Some (s', pcb') \<Longrightarrow> frame s' = frame s \<and> core pcb' = core pcb"
  unfolding tcp_ack_def by (auto simp: bind_eq_Some_conv split: if_splits dest!: tcp_output_sends)

lemma tcp_rexmit_rto_sends [sends]:
  "tcp_rexmit_rto s a pcb = Some (s', pcb') \<Longrightarrow> frame s' = frame s \<and> core pcb' = core pcb"
  unfolding tcp_rexmit_rto_def by (auto simp: bind_eq_Some_conv Let_def split: list.splits dest!: tcp_output_sends)

lemma tcp_rexmit_sends [sends]:
  "tcp_rexmit s a pcb = Some (s', pcb') \<Longrightarrow> frame s' = frame s \<and> core pcb' = core pcb"
  unfolding tcp_rexmit_def by (auto simp: bind_eq_Some_conv Let_def split: list.splits dest!: tcp_output_sends)

section \<open>The persist timer\<close>

text \<open>Sending leaves the persist timer alone, except that \<^verbatim>\<open>tcp_output\<close> may start it.\<close>

lemma tcp_output_segment_persist:
  assumes "tcp_output_segment s seg pcb = Some (s', seg', pcb')"
  shows "persist_backoff pcb' = persist_backoff pcb"
proof -
  obtain lip where "(if ip_addr_isany (local_ip pcb)
         then do { n \<leftarrow> ip_route s (remote_ip pcb);
           if n = NULL then Some None else do { nf \<leftarrow> netifs s n; Some (Some (nf_ip_addr nf)) } }
         else Some (Some (local_ip pcb))) = Some lip"
    using assms unfolding tcp_output_segment_def Let_def bind_eq_Some_conv by blast
  then show ?thesis
    using assms unfolding tcp_output_segment_def Let_def
    by (cases lip) (auto simp: bind_eq_Some_conv)
qed

lemma persist_parts [simp]:
  "persist_backoff (sent_pcb pcb seg) = persist_backoff pcb" "persist_backoff (out_pcb pcb rest) = persist_backoff pcb"
  by (simp_all add: sent_pcb_def out_pcb_def)

lemma tcp_output_one_persist:
  "tcp_output_one s pcb seg rest = Some (s', pcb') \<Longrightarrow> persist_backoff pcb' = persist_backoff pcb"
  unfolding tcp_output_one_eq
  by (erule bind3E) (auto split: if_split_asm Option.bind_split_asm dest!: tcp_output_segment_persist)

lemma tcp_output_loop_persist:
  "tcp_output_loop s wnd pcb segs = Some (s', pcb') \<Longrightarrow> persist_backoff pcb' = persist_backoff pcb"
  by (induction segs arbitrary: s pcb)
    (fastforce simp: tcp_output_loop.simps(2) bind_eq_Some_conv split: if_split_asm dest!: tcp_output_one_persist)+

lemma tcp_output_persist:
  assumes "tcp_output s a pcb = Some (s', pcb', e)"
  shows "persist_backoff pcb' \<in> {persist_backoff pcb, 1}"
  using assms unfolding tcp_output_def tcp_output_ack_def Let_def
  by (auto split: if_split_asm list.splits Option.bind_split_asm dest!: tcp_output_loop_persist)

lemma sends_persist:
  "tcp_ack_now s a pcb = Some (s', pcb') \<Longrightarrow> persist_backoff pcb' \<in> {persist_backoff pcb, 1}"
  "tcp_ack s a pcb = Some (s', pcb') \<Longrightarrow> persist_backoff pcb' \<in> {persist_backoff pcb, 1}"
  "tcp_rexmit s a pcb = Some (s', pcb') \<Longrightarrow> persist_backoff pcb' \<in> {persist_backoff pcb, 1}"
  "tcp_rexmit_rto s a pcb = Some (s', pcb') \<Longrightarrow> persist_backoff pcb' \<in> {persist_backoff pcb, 1}"
  unfolding tcp_ack_now_def tcp_ack_def tcp_rexmit_def tcp_rexmit_rto_def Let_def
  by (auto split: if_split_asm list.splits Option.bind_split_asm dest!: tcp_output_persist)

end
