(* ===== verification/Seqno.thy ===== *)
theory Seqno
  imports Stack
begin

text \<open>
  The sequence numbers of TCP. The comparisons of \<^verbatim>\<open>tcp.h\<close> look at the sign of a difference
  modulo \<open>2 ^ 32\<close>. The locale \<open>circular_order\<close> is the contract the rest of TCP relies on: numbers
  that are less than half the circle apart compare like the positions in the stream they stand for.
\<close>

locale circular_order =
  fixes pos :: "int \<Rightarrow> 'a"
    and lt :: "'a \<Rightarrow> 'a \<Rightarrow> bool"
    and leq :: "'a \<Rightarrow> 'a \<Rightarrow> bool"
    and half :: int
  assumes lt_pos: "\<bar>x - y\<bar> < half \<Longrightarrow> lt (pos x) (pos y) \<longleftrightarrow> x < y"
    and leq_pos: "\<bar>x - y\<bar> < half \<Longrightarrow> leq (pos x) (pos y) \<longleftrightarrow> x \<le> y"
begin

text \<open>The stretch of the stream in which comparisons are reliable.\<close>

definition window :: "int \<Rightarrow> int set" where
  "window b = {b..<b + half}"

lemma lt_window: "x \<in> window b \<Longrightarrow> y \<in> window b \<Longrightarrow> lt (pos x) (pos y) \<longleftrightarrow> x < y"
  by (rule lt_pos) (auto simp: window_def)

lemma leq_window: "x \<in> window b \<Longrightarrow> y \<in> window b \<Longrightarrow> leq (pos x) (pos y) \<longleftrightarrow> x \<le> y"
  by (rule leq_pos) (auto simp: window_def)

lemma inj_window: "inj_on pos (window b)"
proof (rule inj_onI)
  fix x y assume "x \<in> window b" "y \<in> window b" "pos x = pos y"
  then show "x = y"
    using leq_window [of x b y] leq_window [of y b x] leq_window [of x b x] by auto
qed

text \<open>A cumulative acknowledgement of an ordered queue removes its front: the elements that end at or
  before the acknowledged position are a prefix.\<close>

lemma acked_prefix:
  assumes "sorted_wrt (\<lambda>x y. e x \<le> e y) xs" "\<And>x. x \<in> set xs \<Longrightarrow> e x \<in> window b" "n \<in> window b"
  shows "dropWhile (\<lambda>x. leq (pos (e x)) (pos n)) xs = filter (\<lambda>x. n < e x) xs"
  using assms
proof (induction xs)
  case (Cons x xs)
  have x: "leq (pos (e x)) (pos n) \<longleftrightarrow> e x \<le> n"
    using Cons.prems by (intro leq_window) auto
  show ?case
  proof (cases "e x \<le> n")
    case True
    with Cons x show ?thesis by simp
  next
    case False
    with Cons.prems have "\<forall>y\<in>set xs. n < e y" by auto
    then have "filter (\<lambda>x. n < e x) xs = xs" by (simp add: filter_id_conv)
    with False x show ?thesis by simp
  qed
qed simp

end

section \<open>The contract holds\<close>

lemma sint_of_int_u32: "- (2 ^ 31) \<le> x \<Longrightarrow> x < 2 ^ 31 \<Longrightarrow> sint (of_int x :: u32) = x"
  by (simp add: signed_of_int signed_take_bit_int_eq_self)

lemma sint_seq_diff:
  "\<bar>x - y\<bar> < 2 ^ 31 \<Longrightarrow> sint (of_int x - of_int y :: u32) = x - y"
  using sint_of_int_u32 [of "x - y"] by (simp add: abs_less_iff)

interpretation seq: circular_order "of_int :: int \<Rightarrow> u32" TCP_SEQ_LT TCP_SEQ_LEQ "2 ^ 31"
  by unfold_locales (auto simp: TCP_SEQ_LT_def TCP_SEQ_LEQ_def sint_seq_diff)

lemma TCP_SEQ_GT_iff_LT: "\<bar>x - y\<bar> < 2 ^ 31 \<Longrightarrow> TCP_SEQ_GT (of_int x) (of_int y) \<longleftrightarrow> TCP_SEQ_LT (of_int y) (of_int x)"
  by (simp add: TCP_SEQ_GT_def seq.lt_pos abs_minus_commute sint_seq_diff)

lemma TCP_SEQ_GEQ_iff_LEQ: "\<bar>x - y\<bar> < 2 ^ 31 \<Longrightarrow> TCP_SEQ_GEQ (of_int x) (of_int y) \<longleftrightarrow> TCP_SEQ_LEQ (of_int y) (of_int x)"
  by (simp add: TCP_SEQ_GEQ_def seq.leq_pos abs_minus_commute sint_seq_diff)

lemma TCP_SEQ_BETWEEN_pos:
  "\<bar>x - y\<bar> < 2 ^ 31 \<Longrightarrow> \<bar>x - z\<bar> < 2 ^ 31 \<Longrightarrow>
   TCP_SEQ_BETWEEN (of_int x) (of_int y) (of_int z) \<longleftrightarrow> y \<le> x \<and> x \<le> z"
  by (simp add: TCP_SEQ_BETWEEN_def TCP_SEQ_GEQ_iff_LEQ seq.leq_pos abs_minus_commute)

text \<open>Numbers half the circle apart are below each other in both directions.\<close>

lemma TCP_SEQ_antipodes: "TCP_SEQ_LT (x + 2 ^ 31) x \<and> TCP_SEQ_LT x (x + 2 ^ 31)"
  by (simp add: TCP_SEQ_LT_def)

text \<open>Every number lies in the window of another: the receive window test of a distance below \<open>2 ^ 31\<close>
  is a test of the unsigned distance.\<close>

lemma sint_nonneg_u32: "sint (w::u32) \<ge> 0 \<longleftrightarrow> uint w < 2 ^ 31"
  using uint_sint_if [of w] sint_range_size [of w] by (auto simp: word_size split: if_splits)

text \<open>C18. The comparisons of sequence numbers are those of positions in the stream, as long as the
  positions are less than \<open>2 ^ 31\<close> apart; exactly \<open>2 ^ 31\<close> apart each is below the other.\<close>

theorem seqno_compare:
  fixes x y z :: int
  assumes "\<bar>x - y\<bar> < 2 ^ 31" "\<bar>x - z\<bar> < 2 ^ 31"
  shows "(TCP_SEQ_LT (of_int x) (of_int y) \<longleftrightarrow> x < y) \<and> (TCP_SEQ_LEQ (of_int x) (of_int y) \<longleftrightarrow> x \<le> y)
    \<and> (TCP_SEQ_GT (of_int x) (of_int y) \<longleftrightarrow> x > y) \<and> (TCP_SEQ_GEQ (of_int x) (of_int y) \<longleftrightarrow> x \<ge> y)
    \<and> (TCP_SEQ_BETWEEN (of_int x) (of_int y) (of_int z) \<longleftrightarrow> y \<le> x \<and> x \<le> z)
    \<and> TCP_SEQ_LT (of_int x + 2 ^ 31) (of_int x) \<and> TCP_SEQ_LT (of_int x) (of_int x + 2 ^ 31)"
  using assms TCP_SEQ_antipodes [of "of_int x"]
  by (simp add: seq.lt_pos seq.leq_pos TCP_SEQ_GT_iff_LT TCP_SEQ_GEQ_iff_LEQ TCP_SEQ_BETWEEN_pos abs_minus_commute)

theorem seqno_compare_witness:
  "(-16 :: u32) = 0xFFFFFFF0 \<and> TCP_SEQ_LT (-16) 16 \<and> TCP_SEQ_BETWEEN 5 (-1) 6 \<and> \<not> TCP_SEQ_BETWEEN 7 (-1) 6"
  using seqno_compare [of "-16" 16 16] seqno_compare [of 5 "-1" 6] seqno_compare [of 7 "-1" 6] by simp

end
