(* ===== verification/Sample.thy ===== *)
theory Sample
  imports Stack
begin

text \<open>
  Concrete stacks for the examples: one interface, 10.0.0.1 with a netmask of 24 bits and an MTU of 1500, and no
  connections.
\<close>

definition sample_netif :: netif where
  "sample_netif = \<lparr>nf_ip_addr = 0x0100000a, nf_netmask = 0x00ffffff, nf_gw = 0, nf_mtu = 1500, nf_flags = 3,
     nf_name = (0, 0), nf_num = 0, nf_igmp_mac_filter = 0\<rparr>"

definition zero_ip_hdr :: ip_hdr where
  "zero_ip_hdr = \<lparr>v_hl_tos = 0, ih_len = 0, ih_id = 0, ih_offset = 0, ttl_proto = 0, ih_chksum = 0, ih_src = 0, ih_dest = 0\<rparr>"

definition zero_tcp_hdr :: tcp_hdr where
  "zero_tcp_hdr = \<lparr>h_src = 0, h_dest = 0, h_seqno = 0, h_ackno = 0, hdrlen_rsvd_flags = 0, h_wnd = 0, h_chksum = 0,
     h_urgp = 0\<rparr>"

definition sample_stack :: "heap \<Rightarrow> stack" where
  "sample_stack h = \<lparr>mem = h, netifs = [1 \<mapsto> sample_netif], netif_list = [1], netif_default = 1, ip_id = 0, link = [],
     drv_err = (\<lambda>i. ERR_OK), tcp_ticks = 0, tcp_timer = 0, tcp_iss = 6510, tcp_port = 4096, pcbs = (\<lambda>a. None),
     lpcbs = (\<lambda>a. None), tcp_bound_pcbs = [], tcp_listen_pcbs = [], tcp_active_pcbs = [], tcp_tw_pcbs = [],
     tcp_input_pcb = NULL, tcp_junk = zero_tcp_hdr, junk_byte = 0,
     frag_buf = 0, reass = (\<lambda>a. None), reassdatagrams = NULL, ip_reass_pbufcount = 0, upcbs = (\<lambda>a. None), udp_pcbs = [],
     rpcbs = (\<lambda>a. None), raw_pcbs = [], groups = (\<lambda>a. None), igmp_group_list = [], allsystems = 0x010000e0,
     allrouters = 0x020000e0, igmp_ip_id = 0, netifnum = 1\<rparr>"

end
