(* ===== verification/Segments.thy ===== *)
theory Segments
  imports Tcp_In Seqno Sample
begin

text \<open>
  The segments a control block owns: every segment of a queue has a chain of pbufs of its own. What the
  loops of \<^verbatim>\<open>tcp.c\<close> and \<^verbatim>\<open>tcp_in.c\<close> that free segments do to the queues and
  to the heap.
\<close>

definition owns :: "heap \<Rightarrow> tcp_seg list \<Rightarrow> ptr list list \<Rightarrow> bool" where
  "owns h segs qss \<longleftrightarrow> list_all2 (\<lambda>seg qs. chain h (s_p seg) qs \<and> qs \<noteq> []) segs qss \<and> distinct (concat qss)"

lemma owns_Nil [simp]: "owns h [] qss \<longleftrightarrow> qss = []"
  by (auto simp: owns_def)

lemma owns_Cons:
  "owns h (seg # segs) qss \<longleftrightarrow> (\<exists>qs rs. qss = qs # rs \<and> chain h (s_p seg) qs \<and> qs \<noteq> []
     \<and> set qs \<inter> set (concat rs) = {} \<and> owns h segs rs)"
  by (auto simp: owns_def list_all2_Cons1 dest: chain_distinct)

lemma owns_cong:
  assumes "owns h segs qss" "\<And>q. q \<in> set (concat qss) \<Longrightarrow> pbufs h' q = pbufs h q"
  shows "owns h' segs qss"
  using assms
proof (induction segs arbitrary: qss)
  case (Cons seg segs)
  then obtain qs rs where q: "qss = qs # rs" "chain h (s_p seg) qs" "qs \<noteq> []"
      "set qs \<inter> set (concat rs) = {}" "owns h segs rs"
    by (auto simp: owns_Cons)
  moreover have "chain h' (s_p seg) qs"
    using q Cons.prems(2) chain_cong [of qs h' h "s_p seg"] by simp
  moreover have "owns h' segs rs"
    using q Cons.prems(2) by (intro Cons.IH) auto
  ultimately show ?case by (simp add: owns_Cons)
qed simp

text \<open>The heap without the pbufs \<open>gone\<close>, everything else as before.\<close>

definition dropped :: "heap \<Rightarrow> ptr set \<Rightarrow> heap \<Rightarrow> bool" where
  "dropped h gone h' \<longleftrightarrow> (\<forall>q. pbufs h' q = (if q \<in> gone then None else pbufs h q))
     \<and> (\<forall>a. a \<notin> gone \<longrightarrow> blocks h' a = blocks h a) \<and> brk h' = brk h"

definition unshared :: "heap \<Rightarrow> ptr list list \<Rightarrow> bool" where
  "unshared h qss \<longleftrightarrow> (\<forall>q\<in>set (concat qss). p_ref (pb h q) = 1)"

lemma dropped_refl [simp]: "dropped h {} h"
  by (simp add: dropped_def)

lemma dropped_trans: "dropped h G h' \<Longrightarrow> dropped h' G' h'' \<Longrightarrow> dropped h (G \<union> G') h''"
  by (auto simp: dropped_def)

lemma release_dropped:
  assumes "release h qs h'" "\<forall>q\<in>set qs. p_ref (pb h q) = 1"
  shows "dropped h (set qs) h'"
  using assms release_other [OF assms(1)] release_gone [OF assms]
  by (auto simp: dropped_def release_def Let_def)

lemma tcp_seg_free_owns:
  assumes "owns (mem s) (seg # segs) (qs # qss)" "unshared (mem s) (qs # qss)"
  shows "\<exists>h' n. tcp_seg_free s seg = Some (s\<lparr>mem := h'\<rparr>, n) \<and> dropped (mem s) (set qs) h'
    \<and> owns h' segs qss \<and> unshared h' qss"
proof -
  have c: "chain (mem s) (s_p seg) qs" "qs \<noteq> []" "set qs \<inter> set (concat qss) = {}" "owns (mem s) segs qss"
    using assms(1) by (auto simp: owns_Cons)
  then have p: "s_p seg \<noteq> NULL" by (cases qs) auto
  obtain h' n where h': "pbuf_free (mem s) (s_p seg) = Some (h', n)" "release (mem s) qs h'"
    using pbuf_free_loop_chain [OF c(1), of 0] p by (auto simp: pbuf_free_def)
  have same: "pbufs h' q = pbufs (mem s) q" if "q \<in> set (concat qss)" for q
    using that c(3) by (intro release_other [OF h'(2)]) auto
  have "owns h' segs qss"
    using c(4) same by (rule owns_cong)
  moreover have "unshared h' qss"
    using assms(2) same by (simp add: unshared_def)
  moreover have "dropped (mem s) (set qs) h'"
    using h'(2) assms(2) by (intro release_dropped) (auto simp: unshared_def)
  ultimately show ?thesis
    using h'(1) p by (auto simp: tcp_seg_free_def pbuf_free_s_def)
qed

text \<open>How many of a list of segments satisfy \<open>P\<close> before the first that does not.\<close>

definition run :: "('a \<Rightarrow> bool) \<Rightarrow> 'a list \<Rightarrow> nat" where
  "run P xs = length (takeWhile P xs)"

lemma run_simps [simp]: "run P [] = 0" "run P (x # xs) = (if P x then Suc (run P xs) else 0)"
  by (simp_all add: run_def)

lemma tcp_free_acked_owns:
  assumes "owns (mem s) segs qss" "unshared (mem s) qss" "\<And>qs. qs \<in> set qss \<Longrightarrow> length qs < 256"
  shows "\<exists>h'. tcp_free_acked s P segs q = Some (s\<lparr>mem := h'\<rparr>, dropWhile P segs,
        q - of_nat (length (concat (take (run P segs) qss))))
    \<and> dropped (mem s) (set (concat (take (run P segs) qss))) h'
    \<and> owns h' (dropWhile P segs) (drop (run P segs) qss) \<and> unshared h' (drop (run P segs) qss)"
  using assms
proof (induction segs arbitrary: s q qss)
  case Nil
  then show ?case by (auto intro: exI [of _ "mem s"])
next
  case (Cons seg segs)
  then obtain qs rs where q: "qss = qs # rs" "chain (mem s) (s_p seg) qs"
    by (auto simp: owns_Cons)
  show ?case
  proof (cases "P seg")
    case False
    with Cons.prems show ?thesis by (auto intro: exI [of _ "mem s"])
  next
    case True
    obtain h' n where h': "tcp_seg_free s seg = Some (s\<lparr>mem := h'\<rparr>, n)" "dropped (mem s) (set qs) h'"
        "owns h' segs rs" "unshared h' rs"
      using tcp_seg_free_owns [of s seg segs qs rs] Cons.prems q by auto
    have n: "(ucast (of_nat (length qs) :: u8) :: u16) = of_nat (length qs)"
      using Cons.prems(3) [of qs] q by (simp add: word_unat_eq_iff unat_ucast_mod unat_of_nat_less)
    obtain h'' where h'': "tcp_free_acked (s\<lparr>mem := h'\<rparr>) P segs (q - of_nat (length qs)) = Some (s\<lparr>mem := h''\<rparr>, dropWhile P segs,
        q - of_nat (length qs) - of_nat (length (concat (take (run P segs) rs))))"
      "dropped h' (set (concat (take (run P segs) rs))) h''"
      "owns h'' (dropWhile P segs) (drop (run P segs) rs)" "unshared h'' (drop (run P segs) rs)"
      using Cons.IH [of "s\<lparr>mem := h'\<rparr>" rs "q - of_nat (length qs)"] h'(3,4) Cons.prems(3) q by auto
    have "tcp_free_acked s P (seg # segs) q = Some (s\<lparr>mem := h''\<rparr>, dropWhile P (seg # segs),
        q - of_nat (length (concat (take (run P (seg # segs)) qss))))"
      using True h'(1) h''(1) pbuf_clen_chain [OF q(2)] n q by (simp add: diff_diff_eq)
    moreover have "dropped (mem s) (set (concat (take (run P (seg # segs)) qss))) h''"
      using dropped_trans [OF h'(2) h''(2)] True q by simp
    ultimately show ?thesis
      using h''(3,4) True q by auto
  qed
qed

lemma tcp_segs_free_owns:
  assumes "owns (mem s) segs qss" "unshared (mem s) qss"
  shows "\<exists>h' n. tcp_segs_free s segs = Some (s\<lparr>mem := h'\<rparr>, n) \<and> dropped (mem s) (set (concat qss)) h'"
  using assms
proof (induction segs arbitrary: s qss)
  case Nil
  then show ?case by (auto intro: exI [of _ "mem s"])
next
  case (Cons seg segs)
  then obtain qs rs where q: "qss = qs # rs" by (auto simp: owns_Cons)
  obtain h' n where h': "tcp_seg_free s seg = Some (s\<lparr>mem := h'\<rparr>, n)" "dropped (mem s) (set qs) h'"
      "owns h' segs rs" "unshared h' rs"
    using tcp_seg_free_owns [of s seg segs qs rs] Cons.prems q by auto
  then show ?case
    using Cons.IH [of "s\<lparr>mem := h'\<rparr>" rs] q by (auto intro: dropped_trans)
qed

section \<open>Examples\<close>

text \<open>A stack with one interface and no control blocks on a given heap, and a segment of \<open>n\<close> octets of
  data, on which the properties are applied.\<close>

definition data_seg :: "ptr \<Rightarrow> u32 \<Rightarrow> u16 \<Rightarrow> tcp_seg" where
  "data_seg p seqno n = \<lparr>s_p = p, s_dataptr = (p, 0), s_len = n, s_tcphdr = (p, 0),
     s_hdr = zero_tcp_hdr\<lparr>h_seqno := htonl seqno\<rparr>\<rparr>"

definition unshare :: "ptr \<Rightarrow> heap \<Rightarrow> heap" where
  "unshare p h = h\<lparr>pbufs := (pbufs h)(p := map_option (\<lambda>b. b\<lparr>p_ref := 1\<rparr>) (pbufs h p))\<rparr>"

lemma data_seg_simps [simp]: "s_p (data_seg p q n) = p" "s_len (data_seg p q n) = n"
  by (simp_all add: data_seg_def)

lemma TCP_TCPLEN_data_seg [simp]: "TCP_TCPLEN (data_seg p q n) = unat n"
  by (simp add: TCP_TCPLEN_def data_seg_def hdr_flags_def TCPH_FLAGS_def zero_tcp_hdr_def has_def ntohs_def htons_def)

lemma seg_end_data_seg [simp]: "seg_end (data_seg p q n) = q + of_nat (unat n)"
  by (simp add: seg_end_def) (simp add: data_seg_def ntohl_def htonl_htonl)

lemma three_pbufs_segs:
  "owns (unshare 3 three_pbufs) [data_seg 1 q n, data_seg 3 r m] [[1, 2], [3]]"
  "unshared (unshare 3 three_pbufs) [[1, 2], [3]]"
  by (simp_all add: owns_Cons three_pbufs_def unshare_def unshared_def)

end
