(* ===== verification/Tcp_Options.thy ===== *)
theory Tcp_Options
  imports Tcp_In
begin

text \<open>
  The parser of TCP options, \<^verbatim>\<open>tcp_parseopt\<close>, against a reference parser on the list of the
  option octets, and the input on which it does not return.
\<close>

unbundle bit_operations_syntax

section \<open>The reference\<close>

text \<open>Options as RFC 793 lays them out: end of list, no-operation, or a kind, a length of at least 2
  that covers both octets, and the data.\<close>

function wf_options :: "u8 list \<Rightarrow> bool" where
  "wf_options [] = True"
| "wf_options (k # os) =
     (if k = 0 then True else if k = 1 then wf_options os
      else case os of [] \<Rightarrow> False
           | len # _ \<Rightarrow> if unat len < 2 \<or> length (k # os) < unat len then False
                          else wf_options (drop (unat len) (k # os)))"
  by pat_completeness auto
termination
  by (relation "measure length") auto

text \<open>The value of the first maximum segment size option.\<close>

function mss_option :: "u8 list \<Rightarrow> u16 option" where
  "mss_option [] = None"
| "mss_option (k # os) =
     (if k = 0 then None else if k = 1 then mss_option os
      else case os of
             [] \<Rightarrow> None
           | len # os' \<Rightarrow>
               if k = 2 \<and> len = 4 then Some (push_bit 8 (ucast (os' ! 0)) OR ucast (os' ! 1))
               else if unat len < 2 then None else mss_option (drop (unat len) (k # os)))"
  by pat_completeness auto
termination
  by (relation "measure length") auto

definition set_mss :: "tcp_pcb \<Rightarrow> u16 option \<Rightarrow> tcp_pcb" where
  "set_mss pcb m = (case m of None \<Rightarrow> pcb | Some n \<Rightarrow> pcb\<lparr>mss := min n TCP_MSS\<rparr>)"

declare wf_options.simps(2) [simp del] mss_option.simps(2) [simp del]

section \<open>The parser on well-formed options\<close>

lemma table_append [simp]: "table (xs @ ys) (length xs + i) = table ys i"
  by (simp add: table_def nth_append)

lemma parseopt_loop_wf:
  assumes "wf_options os" "length pre + length os < 256"
  shows "tcp_parseopt_loop (pre @ os @ rest) (length pre + length os) pcb (of_nat (length pre))
    = Some (set_mss pcb (mss_option os))"
  using assms
proof (induction os arbitrary: pre rule: wf_options.induct)
  case 1
  then show ?case
    by (subst tcp_parseopt_loop.simps) (simp add: unat_of_nat_less set_mss_def)
next
  case (2 k os)
  let ?c = "of_nat (length pre) :: u8"
  have c: "unat ?c = length pre" using "2.prems" by (simp add: unat_of_nat_less)
  note loop = tcp_parseopt_loop.simps [of "pre @ (k # os) @ rest" "length pre + length (k # os)" pcb ?c]
  have tab: "table (pre @ (k # os) @ rest) (length pre) = Some k"
    by (simp add: table_def nth_append)
  consider "k = 0" | "k = 1" | len os' where "k \<noteq> 0" "k \<noteq> 1" "os = len # os'"
    using "2.prems" wf_options.simps(2) [of k os] by (cases os) (auto split: if_splits)
  then show ?case
  proof cases
    case 1
    with loop c tab mss_option.simps(2) [of k os] show ?thesis by (simp add: set_mss_def)
  next
    case 2
    with "2.prems" wf_options.simps(2) [of k os] have "wf_options os" by simp
    with 2 "2.IH"(1) [of "pre @ [k]"] "2.prems" loop c tab mss_option.simps(2) [of k os] show ?thesis
      by (simp add: add.commute)
  next
    case 3
    let ?n = "unat len" and ?rec = "drop (unat len) (k # os)"
    from 3 "2.prems" have n: "2 \<le> ?n" "?n \<le> length (k # os)" "wf_options ?rec"
      using wf_options.simps(2) [of k os] by (simp_all split: if_splits)
    have tabs: "table (pre @ (k # os) @ rest) (length pre + 1) = Some len"
      using 3 by (simp add: table_def nth_append)
    show ?thesis
    proof (cases "k = 2 \<and> len = 4")
      case True
      with n 3 have "2 \<le> length os'" by simp
      then obtain a b os'' where "os' = a # b # os''"
        by (cases os'; cases "tl os'") auto
      with True 3 have os: "k # os = 2 # 4 # a # b # os''" by simp
      show ?thesis
        unfolding os by (subst tcp_parseopt_loop.simps)
          (simp add: c set_mss_def table_def nth_append min_def not_le Let_def mss_option.simps(2))
    next
      case False
      have add: "?c + len = of_nat (length (pre @ take ?n (k # os)))"
        using n by (simp add: min_def)
      have "tcp_parseopt_loop ((pre @ take ?n (k # os)) @ ?rec @ rest) (length (pre @ take ?n (k # os)) + length ?rec) pcb
          (of_nat (length (pre @ take ?n (k # os)))) = Some (set_mss pcb (mss_option ?rec))"
        using "2.prems" n 3 by (intro "2.IH"(2)) auto
      moreover have "length (pre @ take ?n (k # os)) + length ?rec = length pre + length (k # os)"
        using n by (simp add: min_def)
      moreover have "(pre @ take ?n (k # os)) @ ?rec @ rest = pre @ (k # os) @ rest"
        by (metis append.assoc append_take_drop_id)
      ultimately have rec: "tcp_parseopt_loop (pre @ (k # os) @ rest) (length pre + length (k # os)) pcb (?c + len)
          = Some (set_mss pcb (mss_option ?rec))"
        unfolding add by (simp only: )
      have "mss_option (k # os) = mss_option ?rec"
        using False 3 n mss_option.simps(2) [of k os] by auto
      moreover have "tcp_parseopt_loop (pre @ (k # os) @ rest) (length pre + length (k # os)) pcb ?c
          = tcp_parseopt_loop (pre @ (k # os) @ rest) (length pre + length (k # os)) pcb (?c + len)"
        unfolding loop c tab tabs using False 3(1,2) n(1) by (auto simp: tab tabs c simp del: append_Cons append_assoc list.size)
      ultimately show ?thesis
        using rec by simp
    qed
  qed
qed

section \<open>Divergence\<close>

text \<open>No-operations up to an option whose length takes the 8-bit index back to 0.\<close>

lemma parseopt_loop_hangs:
  assumes "tcp_parseopt_loop os limit pcb c = Some r" "unat c \<le> n" "1 \<le> n" "n < 256" "n < limit" "n + 1 < length os"
    "\<forall>i<n. os ! i = 1" "os ! n \<notin> {0, 1, 2}" "os ! (n + 1) = - of_nat n"
  shows False
  using assms
proof (induction rule: tcp_parseopt_loop.raw_induct [rotated, consumes 1, case_names step])
  case (step loop os limit pcb c r)
  show False
  proof (cases "unat c = n")
    case True
    then have c: "c = of_nat n" by auto
    have "- of_nat n \<noteq> (0 :: u8)"
      using step.prems step.hyps unat_of_nat_less [where 'a = 8, of n] by (auto simp: unat_eq_0)
    with True c step.prems step.hyps have "loop os limit pcb 0 = Some r"
      by (auto simp: table_def)
    with step.IH [of os limit pcb 0 r] step.prems step.hyps show False by auto
  next
    case False
    with step.prems step.hyps have lt: "unat c < n" by simp
    then have "unat (c + 1) = unat c + 1"
      using step.prems step.hyps by (simp add: unat_word_ariths)
    moreover from lt step.prems step.hyps have "loop os limit pcb (c + 1) = Some r"
      by (auto simp: table_def)
    ultimately show False
      using step.IH [of os limit pcb "c + 1" r] step.prems step.hyps lt by auto
  qed
qed

section \<open>Properties\<close>

lemma TCPH_HDRLEN_less: "unat (TCPH_HDRLEN h) < 16"
  using unat_lt [of "ntohs (hdrlen_rsvd_flags h)"]
  by (simp add: TCPH_HDRLEN_def unat_drop_bit_div less_mult_imp_div_less)

definition options_of :: "input_vars \<Rightarrow> u8 list" where
  "options_of v = take ((unat (TCPH_HDRLEN (tcphdr v)) - 5) * 4) (opts v)"

text \<open>C28. On well-formed options of any length the header can announce, \<^verbatim>\<open>tcp_parseopt\<close> returns and
  sets the segment size to the value of the first MSS option, limited to \<open>TCP_MSS\<close>; nothing else of the
  control block changes.\<close>

theorem tcp_parseopt_correct:
  assumes "wf_options (options_of v)" "(unat (TCPH_HDRLEN (tcphdr v)) - 5) * 4 \<le> length (opts v)"
  shows "tcp_parseopt v pcb = Some (set_mss pcb (mss_option (options_of v)))"
proof (cases "TCPH_HDRLEN (tcphdr v) > 5")
  case True
  have len: "length (options_of v) = (unat (TCPH_HDRLEN (tcphdr v)) - 5) * 4"
    using assms(2) by (simp add: options_of_def)
  have "options_of v @ drop (length (options_of v)) (opts v) = opts v"
    unfolding len by (simp add: options_of_def)
  moreover have "length (options_of v) < 256"
    using len TCPH_HDRLEN_less [of "tcphdr v"] by simp
  ultimately show ?thesis
    using parseopt_loop_wf [of "options_of v" "[]" "drop (length (options_of v)) (opts v)" pcb] assms(1) True len
    by (simp add: tcp_parseopt_def)
next
  case False
  then have "options_of v = []"
    by (simp add: options_of_def word_less_nat_alt)
  with False show ?thesis
    by (simp add: tcp_parseopt_def set_mss_def)
qed

text \<open>A SYN segment with the given octets behind its header of \<open>5 + n\<close> words.\<close>

definition syn_segment :: "u16 \<Rightarrow> u8 list \<Rightarrow> input_vars" where
  "syn_segment n os =
     \<lparr>inseg = \<lparr>s_p = 1, s_dataptr = (1, 0), s_len = 0, s_tcphdr = (1, 0),
        s_hdr = \<lparr>h_src = 80, h_dest = 4096, h_seqno = 100, h_ackno = 0,
          hdrlen_rsvd_flags = htons (push_bit 12 (5 + n) OR ucast TCP_SYN), h_wnd = 1000, h_chksum = 0, h_urgp = 0\<rparr>\<rparr>,
      opts = os, iph_src = 1, iph_dest = 2, in_seqno = 100, in_ackno = 0, in_flags = TCP_SYN, tcplen = 1,
      recv_flags = 0, recv_data = NULL\<rparr>"

lemma hdrlen_syn_segment [simp]:
  "TCPH_HDRLEN (tcphdr (syn_segment 1 os)) = 6" "TCPH_HDRLEN (tcphdr (syn_segment 2 os)) = 7"
  by (simp_all add: syn_segment_def TCPH_HDRLEN_def htons_def ntohs_def TCP_SYN_def)

lemma opts_syn_segment [simp]: "opts (syn_segment n os) = os"
  by (simp add: syn_segment_def)

theorem tcp_parseopt_correct_witness:
  "tcp_parseopt (syn_segment 2 [1, 7, 3, 9, 2, 4, 0x02, 0x00]) (tcp_fresh_pcb 0 0)
     = Some ((tcp_fresh_pcb 0 0)\<lparr>mss := 512\<rparr>)"
  using tcp_parseopt_correct [of "syn_segment 2 [1, 7, 3, 9, 2, 4, 0x02, 0x00]" "tcp_fresh_pcb 0 0"]
  by (simp add: options_of_def wf_options.simps mss_option.simps set_mss_def TCP_MSS_def)

text \<open>C29. An option whose length octet takes the 8-bit index back to the start makes
  \<^verbatim>\<open>tcp_parseopt\<close> run forever: no-operations followed by an option of an unknown kind at position
  \<open>n\<close> with length \<open>256 - n\<close>.\<close>

theorem tcp_parseopt_hangs:
  assumes "1 \<le> n" "n + 2 \<le> (unat (TCPH_HDRLEN (tcphdr v)) - 5) * 4"
    "opts v = replicate n 1 @ [kind, - of_nat n] @ rest" "kind \<notin> {0, 1, 2}"
  shows "tcp_parseopt v pcb = None"
proof -
  have lt: "unat (TCPH_HDRLEN (tcphdr v)) < 16"
    by (rule TCPH_HDRLEN_less)
  have "tcp_parseopt_loop (opts v) ((unat (TCPH_HDRLEN (tcphdr v)) - 5) * 4) pcb 0 \<noteq> Some r" for r
  proof
    assume "tcp_parseopt_loop (opts v) ((unat (TCPH_HDRLEN (tcphdr v)) - 5) * 4) pcb 0 = Some r"
    then show False
      by (rule parseopt_loop_hangs [where n = n]) (use assms lt in \<open>auto simp: nth_append\<close>)
  qed
  then show ?thesis
    using assms by (auto simp: tcp_parseopt_def word_less_nat_alt)
qed


theorem tcp_parseopt_hangs_witness:
  "tcp_parseopt (syn_segment 2 [1, 1, 1, 1, 99, 252, 0, 0]) (tcp_fresh_pcb 0 0) = None"
  by (rule tcp_parseopt_hangs [where n = "Suc (Suc (Suc (Suc 0)))" and kind = 99 and rest = "[0, 0]"]) simp_all

end
