(* ===== verification/Tcp_Ack.thy ===== *)
theory Tcp_Ack
  imports Segments Tcp_Options
begin

text \<open>
  What \<^verbatim>\<open>tcp_receive\<close> does with an acknowledgement: the growth of the congestion window, the
  round-trip estimation and the release of the acknowledged segments.
\<close>

unbundle bit_operations_syntax

section \<open>The congestion window\<close>

lemma word_add_gt: "(a::u16) + b > a \<longleftrightarrow> unat a + unat b < 65536 \<and> b \<noteq> 0"
proof -
  have "b \<noteq> 0 \<longleftrightarrow> 0 < unat b"
    by (simp add: unat_gt_0)
  then show ?thesis
    using word_carry [of a b] unat_lt [of b] unat_lt [of "a + b"]
    by (auto simp: word_less_nat_alt split: if_splits)
qed

lemma cwnd_slow_start:
  assumes "state_number ESTABLISHED \<le> state_number (pcb_state pcb)" "cwnd pcb < ssthresh pcb"
  shows "tcp_receive_cwnd pcb = Some (pcb\<lparr>cwnd := (if unat (cwnd pcb) + unat (mss pcb) < 65536
    then cwnd pcb + mss pcb else cwnd pcb)\<rparr>)"
  using assms by (auto simp: tcp_receive_cwnd_def word_add_gt)

lemma cwnd_avoidance:
  assumes "state_number ESTABLISHED \<le> state_number (pcb_state pcb)" "ssthresh pcb \<le> cwnd pcb" "cwnd pcb \<noteq> 0"
    "unat (cwnd pcb) + unat (mss pcb) * unat (mss pcb) div unat (cwnd pcb) < 65536"
  shows "\<exists>pcb'. tcp_receive_cwnd pcb = Some pcb' \<and> pcb' = pcb\<lparr>cwnd := cwnd pcb'\<rparr>
    \<and> unat (cwnd pcb') = unat (cwnd pcb) + unat (mss pcb) * unat (mss pcb) div unat (cwnd pcb)"
proof -
  let ?n = "unat (cwnd pcb) + unat (mss pcb) * unat (mss pcb) div unat (cwnd pcb)"
  have n: "unat (of_nat ?n :: u16) = ?n"
    using assms(4) by (intro unat_of_nat_less) simp
  have "cwnd pcb < of_nat ?n \<or> of_nat ?n = cwnd pcb"
    unfolding word_less_nat_alt word_unat_eq_iff n by linarith
  then show ?thesis
    using assms n by (auto simp: tcp_receive_cwnd_def Let_def not_less simp del: of_nat_add)
qed

lemma cwnd_returns: "cwnd pcb \<noteq> 0 \<Longrightarrow> \<exists>w. tcp_receive_cwnd pcb = Some (pcb\<lparr>cwnd := w\<rparr>) \<and> cwnd pcb \<le> w"
  by (auto simp: tcp_receive_cwnd_def Let_def intro: exI [of _ "cwnd pcb"])

text \<open>C17. Growth of the congestion window of a connection with a window above 0: an acknowledgement adds
  one segment size below the slow-start threshold and \<open>mss * mss / cwnd\<close> above it, never shrinks the
  window and never wraps it around; with a window of 0, which a peer that announces a segment size of 0
  brings about, the division has no result.\<close>

theorem congestion_window_growth:
  assumes "state_number ESTABLISHED \<le> state_number (pcb_state pcb)" "cwnd pcb \<noteq> 0"
  shows "(\<exists>w. tcp_receive_cwnd pcb = Some (pcb\<lparr>cwnd := w\<rparr>) \<and> cwnd pcb \<le> w
      \<and> (cwnd pcb < ssthresh pcb \<and> unat (cwnd pcb) + unat (mss pcb) < 65536
           \<longrightarrow> unat w = unat (cwnd pcb) + unat (mss pcb))
      \<and> (ssthresh pcb \<le> cwnd pcb \<and> unat (cwnd pcb) + unat (mss pcb) * unat (mss pcb) div unat (cwnd pcb) < 65536
           \<longrightarrow> unat w = unat (cwnd pcb) + unat (mss pcb) * unat (mss pcb) div unat (cwnd pcb)))
    \<and> tcp_receive_cwnd (pcb\<lparr>cwnd := 0, ssthresh := 0\<rparr>) = None"
proof -
  obtain w where w: "tcp_receive_cwnd pcb = Some (pcb\<lparr>cwnd := w\<rparr>)" "cwnd pcb \<le> w"
    using cwnd_returns [OF assms(2)] by blast
  have "unat w = unat (cwnd pcb) + unat (mss pcb)"
    if "cwnd pcb < ssthresh pcb" "unat (cwnd pcb) + unat (mss pcb) < 65536"
  proof -
    have "w = cwnd (pcb\<lparr>cwnd := w\<rparr>)" by simp
    also have "\<dots> = cwnd pcb + mss pcb"
      using cwnd_slow_start [OF assms(1) that(1)] w(1) that(2) by (simp only: option.inject) simp
    finally show ?thesis
      using that(2) by (simp add: unat_word_ariths)
  qed
  moreover have "unat w = unat (cwnd pcb) + unat (mss pcb) * unat (mss pcb) div unat (cwnd pcb)"
    if "ssthresh pcb \<le> cwnd pcb" "unat (cwnd pcb) + unat (mss pcb) * unat (mss pcb) div unat (cwnd pcb) < 65536"
    using cwnd_avoidance [OF assms(1) that(1) assms(2) that(2)] w(1) by fastforce
  ultimately show ?thesis
    using w assms(1) by (auto simp: tcp_receive_cwnd_def)
qed

theorem congestion_window_growth_witness:
  "(\<exists>w. tcp_receive_cwnd ((tcp_fresh_pcb 0 0)\<lparr>pcb_state := ESTABLISHED, mss := 1460, ssthresh := 5000, cwnd := 4000\<rparr>)
      = Some ((tcp_fresh_pcb 0 0)\<lparr>pcb_state := ESTABLISHED, mss := 1460, ssthresh := 5000, cwnd := w\<rparr>) \<and> unat w = 5460)
   \<and> tcp_receive_cwnd ((tcp_fresh_pcb 0 0)\<lparr>pcb_state := ESTABLISHED, mss := 1460, cwnd := 0, ssthresh := 0\<rparr>) = None"
  using congestion_window_growth [of "(tcp_fresh_pcb 0 0)\<lparr>pcb_state := ESTABLISHED, mss := 1460, ssthresh := 5000, cwnd := 4000\<rparr>"]
  by auto

section \<open>The round-trip estimation\<close>

lemma sint_of_int_s16: "- 32768 \<le> x \<Longrightarrow> x < 32768 \<Longrightarrow> sint (of_int x :: s16) = x"
  by (simp add: signed_of_int signed_take_bit_int_eq_self)

lemma sint_add_s16: "- 32768 \<le> sint a + sint b \<Longrightarrow> sint a + sint b < 32768 \<Longrightarrow> sint ((a::s16) + b) = sint a + sint b"
  using sint_of_int_s16 [of "sint a + sint b"] by simp

lemma sint_diff_s16: "- 32768 \<le> sint a - sint b \<Longrightarrow> sint a - sint b < 32768 \<Longrightarrow> sint ((a::s16) - b) = sint a - sint b"
  using sint_of_int_s16 [of "sint a - sint b"] by simp

lemma sint_neg_s16: "- 32768 < sint a \<Longrightarrow> sint (- (a::s16)) = - sint a"
  using sint_of_int_s16 [of "- sint a"] sint_range_size [of a] by (simp add: word_size)

lemma sint_sar: "sint (sar n w) = sint w div 2 ^ n"
proof -
  have r: "- 32768 \<le> sint w" "sint w < 32768"
    using sint_range_size [of w] by (simp_all add: word_size)
  have "- 32768 \<le> sint w div 2 ^ n \<and> sint w div 2 ^ n < 32768"
  proof (cases "sint w < 0")
    case True
    then have "sint w div 1 \<le> sint w div 2 ^ n" "sint w div 2 ^ n < 0"
      by (intro zdiv_mono2_neg div_neg_pos_less0; simp)+
    with r show ?thesis by simp
  next
    case False
    then have "sint w div 2 ^ n \<le> sint w div 1" "0 \<le> sint w div 2 ^ n"
      by (intro zdiv_mono2 div_int_pos_iff [THEN iffD2]; simp)+
    with r show ?thesis by simp
  qed
  then show ?thesis
    unfolding sar_def by (intro sint_of_int_s16) auto
qed

lemma sint_ucast_small: "unat (w::u32) < 32768 \<Longrightarrow> sint (ucast w :: s16) = int (unat w)"
proof -
  assume "unat w < 32768"
  moreover have "(ucast w :: s16) = of_int (int (unat w))"
    by simp
  ultimately show ?thesis
    using sint_of_int_s16 [of "int (unat w)"] by (simp only: )
qed

text \<open>The estimator of Jacobson on integers: scaled mean and deviation after a measurement \<open>m\<close>.\<close>

definition jacobson_mean :: "int \<Rightarrow> int \<Rightarrow> int" where
  "jacobson_mean a m = a + (m - a div 8)"

definition jacobson_dev :: "int \<Rightarrow> int \<Rightarrow> int \<Rightarrow> int" where
  "jacobson_dev a v m = v + (\<bar>m - a div 8\<bar> - v div 4)"

lemma jacobson_bounds:
  assumes "0 \<le> a" "a \<le> 8 * B" "0 \<le> v" "v \<le> 4 * B" "0 \<le> m" "m \<le> B"
  shows "0 \<le> jacobson_mean a m \<and> jacobson_mean a m \<le> 8 * B"
    "0 \<le> jacobson_dev a v m \<and> jacobson_dev a v m \<le> 4 * B" "\<bar>m - a div 8\<bar> \<le> B"
proof -
  have q: "8 * (a div 8) \<le> a" "a < 8 * (a div 8) + 8" "4 * (v div 4) \<le> v" "v < 4 * (v div 4) + 4"
    by simp_all
  then have d: "\<bar>m - a div 8\<bar> \<le> B"
    using assms by (simp only: abs_le_iff) linarith
  with q assms show "0 \<le> jacobson_mean a m \<and> jacobson_mean a m \<le> 8 * B"
    unfolding jacobson_mean_def by linarith
  from q assms d show "0 \<le> jacobson_dev a v m \<and> jacobson_dev a v m \<le> 4 * B"
    unfolding jacobson_dev_def by linarith
  show "\<bar>m - a div 8\<bar> \<le> B" by (rule d)
qed

text \<open>C27. The round-trip estimation in 16-bit arithmetic is the one of Jacobson on integers: with a mean of
  at most \<open>8 * B\<close> and a deviation of at most \<open>4 * B\<close> (both scaled, \<open>B\<close> below 4096 ticks), a measurement
  of at most \<open>B\<close> ticks updates both without overflow, keeps the two bounds, and leaves a retransmission
  timeout of mean plus deviation, at most \<open>5 * B\<close>.\<close>

theorem rtt_estimator_correct:
  assumes "rttest pcb \<noteq> 0" "TCP_SEQ_LT (rtseq pcb) (in_ackno v)"
    "0 \<le> sint (sa pcb)" "sint (sa pcb) \<le> 8 * B" "0 \<le> sint (sv pcb)" "sint (sv pcb) \<le> 4 * B"
    "int (unat (ticks - rttest pcb)) = m" "m \<le> B" "B < 4096"
  shows "\<exists>pcb'. tcp_receive_rtt ticks v pcb = pcb'
      \<and> pcb' = pcb\<lparr>sa := sa pcb', sv := sv pcb', rto := rto pcb', rttest := 0\<rparr>
      \<and> sint (sa pcb') = jacobson_mean (sint (sa pcb)) m
      \<and> sint (sv pcb') = jacobson_dev (sint (sa pcb)) (sint (sv pcb)) m
      \<and> sint (rto pcb') = sint (sa pcb') div 8 + sint (sv pcb')
      \<and> 0 \<le> sint (sa pcb') \<and> sint (sa pcb') \<le> 8 * B \<and> 0 \<le> sint (sv pcb') \<and> sint (sv pcb') \<le> 4 * B
      \<and> 0 \<le> sint (rto pcb') \<and> sint (rto pcb') \<le> 5 * B"
proof -
  define a v' where "a = sint (sa pcb)" and "v' = sint (sv pcb)"
  define d :: s16 where "d = ucast (ticks - rttest pcb) - sar 3 (sa pcb)"
  define e :: s16 where "e = (if sint d < 0 then - d else d) - sar 2 (sv pcb)"
  have m0: "0 \<le> m" using assms(7) by linarith
  have b: "0 \<le> jacobson_mean a m" "jacobson_mean a m \<le> 8 * B" "0 \<le> jacobson_dev a v' m"
      "jacobson_dev a v' m \<le> 4 * B" "\<bar>m - a div 8\<bar> \<le> B"
    using jacobson_bounds [of a B v' m] assms m0 by (simp_all add: a_def v'_def)
  have s: "sint (sar 3 (sa pcb)) = a div 8" "sint (sar 2 (sv pcb)) = v' div 4"
    by (simp_all add: sint_sar a_def v'_def)
  have m: "sint (ucast (ticks - rttest pcb) :: s16) = m"
    using assms by (subst sint_ucast_small) linarith+
  have d: "sint d = m - a div 8"
    using sint_diff_s16 [of "ucast (ticks - rttest pcb)" "sar 3 (sa pcb)"] b(5) assms(9)
    unfolding d_def m s by linarith
  have e: "sint e = \<bar>m - a div 8\<bar> - v' div 4"
  proof -
    have abs: "sint (if sint d < 0 then - d else d) = \<bar>m - a div 8\<bar>"
      using b(5) assms(9) d by (auto simp: sint_neg_s16)
    moreover have "0 \<le> v' div 4" "v' div 4 \<le> B"
      using assms(5,6) by (simp_all add: v'_def)
    ultimately show ?thesis
      using sint_diff_s16 [of "if sint d < 0 then - d else d" "sar 2 (sv pcb)"] b(5) assms(9)
      unfolding e_def abs s by linarith
  qed
  have sa': "sint (sa pcb + d) = jacobson_mean a m"
    using sint_add_s16 [of "sa pcb" d] b(1,2) assms(9)
    unfolding d jacobson_mean_def a_def [symmetric] by linarith
  have sv': "sint (sv pcb + e) = jacobson_dev a v' m"
    using sint_add_s16 [of "sv pcb" e] b(3,4) assms(9)
    unfolding e jacobson_dev_def v'_def [symmetric] by linarith
  have rto': "sint (sar 3 (sa pcb + d) + (sv pcb + e)) = jacobson_mean a m div 8 + jacobson_dev a v' m"
  proof -
    have "0 \<le> jacobson_mean a m div 8" "jacobson_mean a m div 8 \<le> B"
      using b(1,2) by simp_all
    then show ?thesis
      using sint_add_s16 [of "sar 3 (sa pcb + d)" "sv pcb + e"] b assms(9)
      by (simp only: sint_sar sa' sv') simp
  qed
  have up: "tcp_receive_rtt ticks v pcb = pcb\<lparr>sa := sa pcb + d, sv := sv pcb + e,
      rto := sar 3 (sa pcb + d) + (sv pcb + e), rttest := 0\<rparr>"
    using assms(1,2) by (simp add: tcp_receive_rtt_def d_def e_def Let_def)
  have "0 \<le> jacobson_mean a m div 8" "jacobson_mean a m div 8 \<le> B"
    using b(1,2) by simp_all
  then show ?thesis
    unfolding up using b sa' sv' rto' by (simp add: a_def [symmetric] v'_def [symmetric])
qed

theorem rtt_estimator_correct_witness:
  "\<exists>pcb'. tcp_receive_rtt 14 ((syn_segment 1 [])\<lparr>in_ackno := 100\<rparr>) ((tcp_fresh_pcb 7 0)\<lparr>rttest := 10\<rparr>) = pcb'
     \<and> sint (sa pcb') = 4 \<and> sint (sv pcb') = 9 \<and> sint (rto pcb') = 9"
  using rtt_estimator_correct [of "(tcp_fresh_pcb 7 0)\<lparr>rttest := 10\<rparr>" "(syn_segment 1 [])\<lparr>in_ackno := 100\<rparr>" 10 14 4]
  by (auto simp: tcp_fresh_pcb_def TCP_SEQ_LT_def jacobson_mean_def jacobson_dev_def)

section \<open>Acknowledged segments\<close>

lemma newack_returns:
  assumes "owns (mem s) (unacked pcb) qss" "unshared (mem s) qss" "\<And>qs. qs \<in> set qss \<Longrightarrow> length qs < 256"
    "cwnd pcb \<noteq> 0" "has (pcb_flags pcb) TF_INFR \<longrightarrow> ssthresh pcb \<noteq> 0"
    "P = (\<lambda>seg. TCP_SEQ_LEQ (seg_end seg) (in_ackno v))"
  shows "\<exists>h' pcb'. tcp_receive_newack s v pcb = Some (s\<lparr>mem := h'\<rparr>, pcb') \<and> unacked pcb' = dropWhile P (unacked pcb)
    \<and> snd_queuelen pcb' = snd_queuelen pcb - of_nat (length (concat (take (run P (unacked pcb)) qss)))
    \<and> lastack pcb' = in_ackno v \<and> snd_buf pcb' = snd_buf pcb + ucast (in_ackno v - lastack pcb)
    \<and> dropped (mem s) (set (concat (take (run P (unacked pcb)) qss))) h'
    \<and> owns h' (unacked pcb') (drop (run P (unacked pcb)) qss)"
proof -
  define pcb1 where "pcb1 = (if has (pcb_flags pcb) TF_INFR
    then pcb\<lparr>pcb_flags := pcb_flags pcb AND NOT TF_INFR, cwnd := ssthresh pcb\<rparr> else pcb)"
  define pcb2 where "pcb2 = pcb1\<lparr>nrtx := 0, rto := sar 3 (sa pcb1) + sv pcb1, acked := ucast (in_ackno v - lastack pcb1),
    snd_buf := snd_buf pcb1 + ucast (in_ackno v - lastack pcb1), dupacks := 0, lastack := in_ackno v\<rparr>"
  have f: "unacked pcb2 = unacked pcb" "snd_queuelen pcb2 = snd_queuelen pcb" "lastack pcb2 = in_ackno v"
      "snd_buf pcb2 = snd_buf pcb + ucast (in_ackno v - lastack pcb)" "cwnd pcb2 \<noteq> 0"
    using assms(4,5) by (auto simp: pcb2_def pcb1_def)
  obtain w where w: "tcp_receive_cwnd pcb2 = Some (pcb2\<lparr>cwnd := w\<rparr>)"
    using cwnd_returns [OF f(5)] by blast
  obtain h' where h': "tcp_free_acked s P (unacked pcb) (snd_queuelen pcb) = Some (s\<lparr>mem := h'\<rparr>, dropWhile P (unacked pcb),
        snd_queuelen pcb - of_nat (length (concat (take (run P (unacked pcb)) qss))))"
    "dropped (mem s) (set (concat (take (run P (unacked pcb)) qss))) h'"
    "owns h' (dropWhile P (unacked pcb)) (drop (run P (unacked pcb)) qss)"
    using tcp_free_acked_owns [OF assms(1-3), of P "snd_queuelen pcb"] by blast
  have "tcp_receive_newack s v pcb = Some (s\<lparr>mem := h'\<rparr>, pcb2\<lparr>cwnd := w, unacked := dropWhile P (unacked pcb),
      snd_queuelen := snd_queuelen pcb - of_nat (length (concat (take (run P (unacked pcb)) qss))),
      rtime := (if dropWhile P (unacked pcb) = [] then -1 else 0), polltmr := 0\<rparr>)"
    using w h'(1) f(1,2) unfolding tcp_receive_newack_def pcb2_def pcb1_def assms(6) by (simp add: Let_def)
  then show ?thesis
    using h'(2,3) f(3,4) by (intro exI conjI) (assumption | simp)+
qed

text \<open>C16. A cumulative acknowledgement: when the unacknowledged queue is ordered by the stream positions \<open>e\<close>
  at which its segments end, and these and the acknowledged position \<open>n\<close> lie within \<open>2 ^ 31\<close> octets,
  \<^verbatim>\<open>tcp_receive\<close> removes exactly the segments that end at or before \<open>n\<close>, frees exactly their
  pbufs, takes their number off the queue length and gives their octets back to the send buffer.\<close>

theorem new_ack_frees_acked:
  assumes "owns (mem s) (unacked pcb) qss" "unshared (mem s) qss" "\<forall>qs\<in>set qss. length qs < 256"
    "cwnd pcb \<noteq> 0" "has (pcb_flags pcb) TF_INFR \<longrightarrow> ssthresh pcb \<noteq> 0"
    "\<forall>seg\<in>set (unacked pcb). seg_end seg = of_int (e seg) \<and> b \<le> e seg \<and> e seg < b + 2 ^ 31"
    "sorted_wrt (\<lambda>x y. e x \<le> e y) (unacked pcb)"
    "in_ackno v = of_int n" "b \<le> n" "n < b + 2 ^ 31" "k = length (filter (\<lambda>seg. e seg \<le> n) (unacked pcb))"
  shows "\<exists>h' pcb'. tcp_receive_newack s v pcb = Some (s\<lparr>mem := h'\<rparr>, pcb')
    \<and> unacked pcb' = filter (\<lambda>seg. n < e seg) (unacked pcb)
    \<and> snd_queuelen pcb' = snd_queuelen pcb - of_nat (length (concat (take k qss)))
    \<and> lastack pcb' = in_ackno v \<and> snd_buf pcb' = snd_buf pcb + ucast (in_ackno v - lastack pcb)
    \<and> dropped (mem s) (set (concat (take k qss))) h' \<and> owns h' (unacked pcb') (drop k qss)"
proof -
  define P where "P = (\<lambda>seg. TCP_SEQ_LEQ (seg_end seg) (in_ackno v))"
  define xs where "xs = unacked pcb"
  have w: "e seg \<in> seq.window b" if "seg \<in> set xs" for seg
    using that assms(6) unfolding xs_def seq.window_def by simp
  have n: "n \<in> seq.window b"
    using assms(9,10) unfolding seq.window_def by simp
  have "dropWhile P xs = dropWhile (\<lambda>x. TCP_SEQ_LEQ (of_int (e x)) (of_int n)) xs"
    using assms(6,8) by (intro dropWhile_cong) (auto simp: P_def xs_def)
  also have "\<dots> = filter (\<lambda>x. n < e x) xs"
    using assms(7) w n by (intro seq.acked_prefix) (simp_all add: xs_def)
  finally have d: "dropWhile P xs = filter (\<lambda>x. n < e x) xs" .
  have "run P xs + length (dropWhile P xs) = length xs"
    unfolding run_def by (metis length_append takeWhile_dropWhile_id)
  moreover have "length (filter (\<lambda>x. e x \<le> n) xs) + length (filter (\<lambda>x. n < e x) xs) = length xs"
    using sum_length_filter_compl [of "\<lambda>x. e x \<le> n" xs] by (simp add: not_le)
  ultimately have "run P xs = k"
    using assms(11) d by (simp add: xs_def)
  then show ?thesis
    using newack_returns [OF assms(1,2) _ assms(4,5) P_def] assms(3) d by (auto simp: xs_def)
qed

theorem new_ack_frees_acked_witness:
  "\<exists>h' pcb'. tcp_receive_newack (sample_stack (unshare 3 three_pbufs)) ((syn_segment 1 [])\<lparr>in_ackno := 4\<rparr>)
       ((tcp_fresh_pcb (-1) 0)\<lparr>unacked := [data_seg 1 (-1) 5, data_seg 3 4 1], snd_queuelen := 3\<rparr>)
     = Some ((sample_stack (unshare 3 three_pbufs))\<lparr>mem := h'\<rparr>, pcb') \<and> unacked pcb' = [data_seg 3 4 1]
     \<and> snd_queuelen pcb' = 1 \<and> pbufs h' 1 = None \<and> pbufs h' 2 = None"
proof -
  let ?pcb = "(tcp_fresh_pcb (-1) 0)\<lparr>unacked := [data_seg 1 (-1) 5, data_seg 3 4 1], snd_queuelen := 3\<rparr>"
  have m: "mem (sample_stack h) = h" for h
    by (simp add: sample_stack_def)
  obtain h' pcb' where "tcp_receive_newack (sample_stack (unshare 3 three_pbufs)) ((syn_segment 1 [])\<lparr>in_ackno := 4\<rparr>) ?pcb
      = Some ((sample_stack (unshare 3 three_pbufs))\<lparr>mem := h'\<rparr>, pcb')"
    "unacked pcb' = filter (\<lambda>seg. 4 < (if s_p seg = 1 then 4 else 5 :: int)) (unacked ?pcb)"
    "snd_queuelen pcb' = snd_queuelen ?pcb - of_nat (length (concat (take 1 [[1, 2], [3 :: ptr]])))"
    "dropped (unshare 3 three_pbufs) (set (concat (take 1 [[1, 2], [3 :: ptr]]))) h'"
    using new_ack_frees_acked [of "sample_stack (unshare 3 three_pbufs)" ?pcb "[[1, 2], [3]]"
        "\<lambda>seg. if s_p seg = 1 then 4 else 5" "-1" "(syn_segment 1 [])\<lparr>in_ackno := 4\<rparr>" 4 1]
      three_pbufs_segs by (auto simp: m tcp_fresh_pcb_def TF_INFR_def has_def)
  then show ?thesis
    by (intro exI conjI) (assumption | simp add: dropped_def)+
qed

end
