(* ===== verification/Tcp_Receive.thy ===== *)
theory Tcp_Receive
  imports Tcp_Frame Tcp_Ack
begin

text \<open>
  What receiving a segment leaves alone: the frame of the stack and, except for a FIN, the state of the
  control block; and the invariant of a control block that it keeps.
\<close>

unbundle bit_operations_syntax

section \<open>The invariant of a control block\<close>

text \<open>The announced window is at most the receive window, which is at most its initial value; the segment
  size is at most the configured one; the persist timer indexes its table.\<close>

definition blk_ok :: "tcp_pcb \<Rightarrow> bool" where
  "blk_ok pcb \<longleftrightarrow> rcv_ann_wnd pcb \<le> rcv_wnd pcb \<and> rcv_wnd pcb \<le> TCP_WND \<and> mss pcb \<le> TCP_MSS \<and> persist_backoff pcb \<le> 7"

definition kept :: "tcp_pcb \<Rightarrow> tcp_pcb \<Rightarrow> bool" where
  "kept pcb pcb' \<longleftrightarrow> pcb_state pcb' = pcb_state pcb \<and> ooseq pcb' = ooseq pcb \<and> (blk_ok pcb \<longrightarrow> blk_ok pcb')"

lemmas kept_defs = kept_def blk_ok_def

lemma kept_refl [simp]: "kept pcb pcb"
  by (simp add: kept_def)

lemma kept_trans: "kept x y \<Longrightarrow> kept y z \<Longrightarrow> kept x z"
  by (simp add: kept_def)

lemma unat_wnd_minus: "unat (wnd_minus w n) = unat w - n"
proof (cases "unat w < n")
  case False
  then have "n < 2 ^ 16" using unat_lt [of w] by simp
  then have "unat (of_nat n :: u16) = n" by (intro unat_of_nat_less) simp
  with False show ?thesis by (simp add: wnd_minus_def unat_sub_if')
qed (simp add: wnd_minus_def)

text \<open>Taking a segment off both windows keeps the invariant.\<close>

lemma blk_ok_windows:
  "blk_ok pcb \<Longrightarrow> blk_ok (pcb\<lparr>rcv_wnd := wnd_minus (rcv_wnd pcb) n, rcv_ann_wnd := wnd_minus (rcv_ann_wnd pcb) n\<rparr>)"
  by (auto simp: blk_ok_def word_le_nat_alt unat_wnd_minus)

section \<open>Acknowledgements\<close>

named_theorems st "functions that keep the frame of the stack and the state of the control block"

definition same_but_mss :: "tcp_pcb \<Rightarrow> tcp_pcb \<Rightarrow> bool" where
  "same_but_mss pcb pcb' \<longleftrightarrow> pcb'\<lparr>mss := 0\<rparr> = pcb\<lparr>mss := 0\<rparr>"

lemma same_but_mss [simp]: "same_but_mss pcb pcb" "same_but_mss pcb (pcb\<lparr>mss := m\<rparr>)"
  by (simp_all add: same_but_mss_def)

lemma tcp_parseopt_loop_st:
  "tcp_parseopt_loop os limit pcb c = Some pcb' \<Longrightarrow> same_but_mss pcb pcb'"
proof (induction rule: tcp_parseopt_loop.raw_induct [rotated, consumes 1, case_names step])
  case (step loop os limit pcb c pcb')
  from step.hyps show ?case
    by (simp add: Let_def split: if_split_asm Option.bind_split_asm) (blast intro: step.IH same_but_mss)+
qed

lemma tcp_parseopt_loop_mss:
  "tcp_parseopt_loop os limit pcb c = Some pcb' \<Longrightarrow> mss pcb \<le> TCP_MSS \<Longrightarrow> mss pcb' \<le> TCP_MSS"
proof (induction rule: tcp_parseopt_loop.raw_induct [rotated, consumes 1, case_names step])
  case (step loop os limit pcb c pcb')
  from step.hyps step.prems show ?case
    by (auto simp: Let_def split: if_split_asm Option.bind_split_asm dest: step.IH)
qed

lemma tcp_parseopt_st [st]:
  assumes "tcp_parseopt v pcb = Some pcb'"
  shows "kept pcb pcb'"
proof -
  have m: "mss pcb \<le> TCP_MSS \<longrightarrow> mss pcb' \<le> TCP_MSS"
    using assms by (auto simp: tcp_parseopt_def split: if_split_asm dest: tcp_parseopt_loop_mss)
  have "same_but_mss pcb pcb'"
    using assms by (auto simp: tcp_parseopt_def split: if_split_asm dest: tcp_parseopt_loop_st)
  then have "pcb_state pcb' = pcb_state pcb" "ooseq pcb' = ooseq pcb" "rcv_wnd pcb' = rcv_wnd pcb"
      "rcv_ann_wnd pcb' = rcv_ann_wnd pcb" "persist_backoff pcb' = persist_backoff pcb"
    unfolding same_but_mss_def by (cases pcb; cases pcb'; simp)+
  with m show ?thesis
    by (auto simp: kept_defs)
qed

lemma tcp_receive_wnd_st [simp]: "kept pcb (tcp_receive_wnd v pcb)"
  by (auto simp: tcp_receive_wnd_def Let_def kept_defs)

lemma tcp_receive_fastrexmit_st:
  "pcb_state (tcp_receive_fastrexmit pcb) = pcb_state pcb" "ooseq (tcp_receive_fastrexmit pcb) = ooseq pcb"
  "rcv_wnd (tcp_receive_fastrexmit pcb) = rcv_wnd pcb" "rcv_ann_wnd (tcp_receive_fastrexmit pcb) = rcv_ann_wnd pcb"
  "mss (tcp_receive_fastrexmit pcb) = mss pcb" "persist_backoff (tcp_receive_fastrexmit pcb) = persist_backoff pcb"
  by (simp_all add: tcp_receive_fastrexmit_def Let_def)

lemma tcp_receive_rtt_st [simp]: "kept pcb (tcp_receive_rtt t v pcb)"
  by (auto simp: tcp_receive_rtt_def Let_def kept_defs)

lemma sends_st:
  assumes "frame s' = frame s \<and> core pcb' = core pcb" "persist_backoff pcb' \<in> {persist_backoff pcb, 1}"
  shows "frame s' = frame s \<and> kept pcb pcb'"
  using assms coreD(1-10) [of pcb' pcb] by (auto simp: kept_defs)

lemma tcp_output_st [st]: "tcp_output s a pcb = Some (s', pcb', e) \<Longrightarrow> frame s' = frame s \<and> kept pcb pcb'"
  by (rule sends_st, erule tcp_output_sends, erule tcp_output_persist)

lemma tcp_ack_now_st [st]: "tcp_ack_now s a pcb = Some (s', pcb') \<Longrightarrow> frame s' = frame s \<and> kept pcb pcb'"
  by (rule sends_st, erule tcp_ack_now_sends, erule sends_persist(1))

lemma tcp_ack_st [st]: "tcp_ack s a pcb = Some (s', pcb') \<Longrightarrow> frame s' = frame s \<and> kept pcb pcb'"
  by (rule sends_st, erule tcp_ack_sends, erule sends_persist(2))

lemma tcp_rexmit_st [st]: "tcp_rexmit s a pcb = Some (s', pcb') \<Longrightarrow> frame s' = frame s \<and> kept pcb pcb'"
  by (rule sends_st, erule tcp_rexmit_sends, erule sends_persist(3))

lemma tcp_rexmit_rto_st [st]: "tcp_rexmit_rto s a pcb = Some (s', pcb') \<Longrightarrow> frame s' = frame s \<and> kept pcb pcb'"
  by (rule sends_st, erule tcp_rexmit_rto_sends, erule sends_persist(4))

lemma tcp_receive_dupack_st [st]:
  "tcp_receive_dupack s a pcb e = Some (s', pcb') \<Longrightarrow>
   frame s' = frame s \<and> kept pcb pcb'"
  unfolding tcp_receive_dupack_def Let_def
  by (auto simp: kept_defs tcp_receive_fastrexmit_st split: if_split_asm Option.bind_split_asm dest!: tcp_rexmit_st)

lemma tcp_receive_cwnd_st [st]:
  "tcp_receive_cwnd pcb = Some pcb' \<Longrightarrow> kept pcb pcb'"
  unfolding tcp_receive_cwnd_def Let_def by (auto simp: kept_defs split: if_split_asm)

lemma tcp_free_acked_io [io]:
  "tcp_free_acked s P segs q = Some (s', us, n) \<Longrightarrow> frame s' = frame s"
  by (induction segs arbitrary: s q) (fastforce simp: bind_eq_Some_conv split: if_split_asm dest!: tcp_seg_free_io)+

lemma tcp_free_unsent_io [io]:
  "tcp_free_unsent s P segs q n = Some (s', us, q', n') \<Longrightarrow> frame s' = frame s"
  by (induction segs arbitrary: s q n) (fastforce simp: bind_eq_Some_conv Let_def split: if_split_asm dest!: tcp_seg_free_io)+


lemma tcp_receive_newack_st [st]:
  "tcp_receive_newack s v pcb = Some (s', pcb') \<Longrightarrow>
   frame s' = frame s \<and> kept pcb pcb'"
  unfolding tcp_receive_newack_def Let_def
  by (auto simp: kept_defs split: if_split_asm Option.bind_split_asm prod.splits dest!: tcp_receive_cwnd_st tcp_free_acked_io)

lemma tcp_receive_unsent_st [st]:
  "tcp_receive_unsent s v pcb = Some (s', pcb') \<Longrightarrow>
   frame s' = frame s \<and> kept pcb pcb'"
  unfolding tcp_receive_unsent_def
  by (auto simp: kept_defs split: Option.bind_split_asm prod.splits dest!: tcp_free_unsent_io)

lemma tcp_receive_ack_st [st]:
  assumes "tcp_receive_ack s a v pcb = Some (s', pcb')"
  shows "frame s' = frame s \<and> kept pcb pcb'"
proof -
  let ?pcb = "tcp_receive_wnd v pcb"
  obtain s1 pcb1 s2 pcb2 where
    1: "(if lastack ?pcb = in_ackno v then tcp_receive_dupack s a ?pcb (ucast (snd_wnd pcb) + snd_wl1 pcb)
         else if TCP_SEQ_BETWEEN (in_ackno v) (lastack ?pcb + 1) (snd_max ?pcb) then tcp_receive_newack s v ?pcb
         else Some (s, ?pcb\<lparr>acked := 0\<rparr>)) = Some (s1, pcb1)"
    and 2: "tcp_receive_unsent s1 v pcb1 = Some (s2, pcb2)" "s' = s2" "pcb' = tcp_receive_rtt (tcp_ticks s2) v pcb2"
    using assms unfolding tcp_receive_ack_def Let_def by (auto split: Option.bind_split_asm)
  have "frame s1 = frame s \<and> kept ?pcb pcb1"
    using 1 by (auto simp: kept_defs split: if_split_asm dest!: tcp_receive_dupack_st tcp_receive_newack_st)
  then show ?thesis
    using tcp_receive_unsent_st [OF 2(1)] 2(2,3) tcp_receive_rtt_st tcp_receive_wnd_st kept_trans by metis
qed

section \<open>A FIN in sequence\<close>

definition has_fin :: "tcp_seg \<Rightarrow> bool" where
  "has_fin seg \<longleftrightarrow> has (hdr_flags (s_hdr seg)) TCP_FIN"

text \<open>The state after data was received: it changes only when a FIN of the out-of-sequence queue has
  become in-sequence.\<close>

definition data_state :: "tcp_seg list \<Rightarrow> tcp_pcb \<Rightarrow> tcp_pcb \<Rightarrow> bool" where
  "data_state segs pcb pcb' \<longleftrightarrow> (pcb_state pcb' = pcb_state pcb
     \<or> pcb_state pcb = ESTABLISHED \<and> pcb_state pcb' = CLOSE_WAIT \<and> (\<exists>seg\<in>set segs. has_fin seg))
     \<and> (blk_ok pcb \<longrightarrow> blk_ok pcb')"

lemma data_state_kept:
  "kept pcb pcb' \<Longrightarrow> data_state segs pcb pcb'"
  "kept x y \<Longrightarrow> data_state segs y z \<Longrightarrow> data_state segs x z"
  "data_state segs x y \<Longrightarrow> kept y z \<Longrightarrow> data_state segs x z"
  by (auto simp: data_state_def kept_def)

lemma data_state_mono: "data_state segs x y \<Longrightarrow> set segs \<subseteq> set segs' \<Longrightarrow> data_state segs' x y"
  by (auto simp: data_state_def)

lemma tcp_ooseq_data_st:
  "tcp_ooseq_data h v seg = Some (h', v', seg') \<Longrightarrow> in_flags v' = in_flags v \<and> s_hdr seg' = s_hdr seg"
  unfolding tcp_ooseq_data_def by (auto split: if_split_asm Option.bind_split_asm)

lemma tcp_ooseq_pcb_st: "data_state [seg] pcb (tcp_ooseq_pcb pcb seg)"
  using blk_ok_windows [of pcb "TCP_TCPLEN seg"]
  by (auto simp: tcp_ooseq_pcb_def has_fin_def Let_def data_state_def blk_ok_def)

lemma data_state_step: "data_state [seg] x y \<Longrightarrow> data_state segs y z \<Longrightarrow> data_state (seg # segs) x z"
  by (auto simp: data_state_def)

lemma tcp_got_fin_st [simp]: "in_flags (tcp_got_fin hdr v) = in_flags v"
  by (simp add: tcp_got_fin_def)

lemma ooseq_inseq [simp]: "ooseq (tcp_inseq_pcb pcb n) = ooseq pcb"
  by (simp add: tcp_inseq_pcb_def Let_def)

lemma tcp_inseq_st [simp]: "kept pcb (tcp_inseq_pcb pcb n)" "in_flags (tcp_inseq_data b v) = in_flags v"
  using blk_ok_windows [of pcb "unat n"]
  by (auto simp: tcp_inseq_pcb_def tcp_inseq_data_def Let_def kept_defs)

lemma tcp_ooseq_drain_st:
  "tcp_ooseq_drain s v pcb segs = Some (s', v', pcb') \<Longrightarrow>
   frame s' = frame s \<and> in_flags v' = in_flags v
   \<and> data_state segs pcb pcb'"
proof (induction segs arbitrary: s v pcb)
  case (Cons seg segs)
  show ?case
  proof (cases "h_seqno (s_hdr seg) = rcv_nxt pcb")
    case False
    with Cons.prems show ?thesis by (auto simp: tcp_ooseq_drain.simps(2) data_state_def blk_ok_def)
  next
    case True
    obtain h v1 seg1 s2 n2 where 1: "tcp_ooseq_data (mem s) (v\<lparr>in_seqno := h_seqno (s_hdr seg)\<rparr>) seg = Some (h, v1, seg1)"
        "tcp_seg_free (s\<lparr>mem := h\<rparr>) seg1 = Some (s2, n2)"
        "tcp_ooseq_drain s2 (tcp_got_fin (s_hdr seg1) v1) (tcp_ooseq_pcb pcb seg1) segs = Some (s', v', pcb')"
      using Cons.prems True by (auto simp: tcp_ooseq_drain.simps(2) split: Option.bind_split_asm)
    have "frame s2 = frame s" "in_flags v1 = in_flags v" "data_state [seg] pcb (tcp_ooseq_pcb pcb seg1)"
      using tcp_seg_free_io [OF 1(2)] tcp_ooseq_data_st [OF 1(1)] tcp_ooseq_pcb_st [of seg1 pcb]
      by (simp_all add: data_state_def has_fin_def)
    then show ?thesis
      using Cons.IH [OF 1(3)] by (auto intro: data_state_step)
  qed
qed (auto simp: data_state_def blk_ok_def)

lemma tcp_receive_overlap_st:
  assumes "tcp_receive_overlap s v pcb = Some (s', v', pcb')"
  shows "frame s' = frame s \<and> in_flags v' = in_flags v \<and> data_state [] pcb pcb' \<and> set (ooseq pcb') \<subseteq> set (ooseq pcb)"
  using assms unfolding tcp_receive_overlap_def Let_def
  by (auto simp: data_state_def blk_ok_def split: list.splits if_split_asm Option.bind_split_asm)

lemma tcp_receive_inseqE:
  assumes "tcp_receive_inseq s a v pcb = Some (s', v', pcb')"
  obtains s1 v1 pcb1 b s3 pcb3 where "tcp_receive_overlap s v pcb = Some (s1, v1, pcb1)"
    "pbufs (mem s1) (s_p (inseg v1)) = Some b"
    "tcp_ooseq_drain s1 (tcp_got_fin (tcphdr v1) (tcp_inseq_data b (v1\<lparr>tcplen := of_nat (TCP_TCPLEN (inseg v1))\<rparr>)))
       (tcp_inseq_pcb pcb1 (of_nat (TCP_TCPLEN (inseg v1)))) (ooseq pcb1) = Some (s3, v', pcb3)"
    "tcp_ack s3 a pcb3 = Some (s', pcb')"
  using assms unfolding tcp_receive_inseq_def Let_def by (auto split: Option.bind_split_asm)

lemma tcp_receive_inseq_st:
  assumes "tcp_receive_inseq s a v pcb = Some (s', v', pcb')"
  shows "frame s' = frame s \<and> in_flags v' = in_flags v \<and> data_state (ooseq pcb) pcb pcb'"
  using assms
proof (cases rule: tcp_receive_inseqE)
  case (1 s1 v1 pcb1 b s3 pcb3)
  show ?thesis
    using tcp_receive_overlap_st [OF 1(1)] tcp_ooseq_drain_st [OF 1(3)] tcp_ack_st [OF 1(4)]
      tcp_inseq_st(1) [of pcb1 "of_nat (TCP_TCPLEN (inseg v1))"]
    unfolding data_state_def kept_def by auto
qed

lemma tcp_seg_cut_io [io]: "tcp_seg_cut s seg a b = Some (s', seg') \<Longrightarrow> frame s' = frame s"
  unfolding tcp_seg_cut_def Let_def by (auto split: if_split_asm Option.bind_split_asm)

lemma tcp_ooseq_walk_st:
  "tcp_ooseq_walk s v bef segs = Some (s', v', q) \<Longrightarrow> frame s' = frame s \<and> in_flags v' = in_flags v"
proof (induction segs arbitrary: s v bef)
  case (Cons nxt rest)
  from Cons.prems Cons.IH show ?case
    by (simp add: tcp_ooseq_walk.simps(2) Let_def split: if_split_asm)
      (auto split: Option.bind_split_asm list.splits option.splits dest!: tcp_seg_cut_io tcp_seg_copy_io tcp_seg_free_io)
qed simp

lemma tcp_receive_ooseq_st:
  assumes "tcp_receive_ooseq s a v pcb = Some (s', v', pcb')"
  shows "frame s' = frame s \<and> in_flags v' = in_flags v \<and> data_state segs pcb pcb'"
  using assms unfolding tcp_receive_ooseq_def
  by (auto simp: data_state_def kept_defs split: if_split_asm Option.bind_split_asm dest!: tcp_ack_now_st tcp_seg_copy_io tcp_ooseq_walk_st)

lemma tcp_receive_trim_st:
  assumes "tcp_receive_trim s v pcb = Some (s', v')"
  shows "frame s' = frame s \<and> in_flags v' = in_flags v"
  using assms unfolding tcp_receive_trim_def Let_def by (auto split: Option.bind_split_asm)

lemma tcp_receive_data_st:
  assumes "tcp_receive_data s a v pcb = Some (s', v', pcb', acc)"
  shows "frame s' = frame s \<and> in_flags v' = in_flags v \<and> data_state (ooseq pcb) pcb pcb'"
proof (cases "tcplen v > 0")
  case False
  then show ?thesis
    using assms unfolding tcp_receive_data_def
    by (auto split: if_split_asm Option.bind_split_asm dest!: tcp_ack_now_st intro: data_state_kept(1))
next
  case True
  obtain s1 v1 pcb1 where
    1: "(if TCP_SEQ_BETWEEN (rcv_nxt pcb) (in_seqno v + 1) (in_seqno v + ucast (tcplen v) - 1)
          then do { (s, v) \<leftarrow> tcp_receive_trim s v pcb; Some (s, v, pcb) }
          else if TCP_SEQ_LT (in_seqno v) (rcv_nxt pcb)
          then do { (s, pcb) \<leftarrow> tcp_ack_now s a pcb; Some (s, v, pcb) }
          else Some (s, v, pcb)) = Some (s1, v1, pcb1)"
    and 2: "(if TCP_SEQ_BETWEEN (in_seqno v1) (rcv_nxt pcb1) (rcv_nxt pcb1 + ucast (rcv_ann_wnd pcb1) - 1)
        then if rcv_nxt pcb1 = in_seqno v1
             then do { (s, v, pcb) \<leftarrow> tcp_receive_inseq s1 a v1 pcb1; Some (s, v, pcb, True) }
             else do { (s, v, pcb) \<leftarrow> tcp_receive_ooseq s1 a v1 pcb1; Some (s, v, pcb, False) }
        else do { (s, pcb) \<leftarrow> tcp_ack_now s1 a pcb1; Some (s, v1, pcb, False) }) = Some (s', v', pcb', acc)"
    using assms unfolding tcp_receive_data_def if_P [OF True] by (rule bind3E)
  have 3: "frame s1 = frame s" "in_flags v1 = in_flags v" "kept pcb pcb1"
    using 1 by (auto split: if_split_asm Option.bind_split_asm dest!: tcp_receive_trim_st tcp_ack_now_st)
  have "frame s' = frame s1 \<and> in_flags v' = in_flags v1 \<and> data_state (ooseq pcb1) pcb1 pcb'"
    using 2 by (auto split: if_split_asm Option.bind_split_asm dest!: tcp_receive_inseq_st tcp_receive_ooseq_st tcp_ack_now_st
        intro: data_state_kept(1))
  then show ?thesis
    using 3 data_state_kept(2) [OF 3(3)] by (auto simp: kept_def)
qed

lemma tcp_receive_st:
  assumes "tcp_receive s a v pcb = Some (s', v', pcb', acc)"
  shows "frame s' = frame s \<and> in_flags v' = in_flags v \<and> data_state (ooseq pcb) pcb pcb'"
proof -
  obtain s1 pcb1 where 1: "(if has (in_flags v) TCP_ACK then tcp_receive_ack s a v pcb else Some (s, pcb)) = Some (s1, pcb1)"
      "tcp_receive_data s1 a v pcb1 = Some (s', v', pcb', acc)"
    using assms unfolding tcp_receive_def by (rule bind2E)
  have 2: "frame s1 = frame s" "kept pcb pcb1"
    using 1(1) by (auto split: if_split_asm dest!: tcp_receive_ack_st)
  then show ?thesis
    using tcp_receive_data_st [OF 1(2)] data_state_kept(2) [OF 2(2)] by (auto simp: kept_def)
qed

end
