(* ===== verification/Tcp_State.thy ===== *)
theory Tcp_State
  imports Tcp_Receive
begin

text \<open>
  The state machine of TCP. \<open>tcp_run\<close> is the diagram of RFC 793 for a connection, with the events that
  take it from state to state; the input function and the calls of the application follow it.
\<close>

unbundle bit_operations_syntax

section \<open>The diagram\<close>

datatype tcp_event = Connect | Close | Rcv_Syn_Ack | Rcv_Ack | Rcv_Fin

inductive tcp_step :: "tcp_state \<Rightarrow> tcp_event \<Rightarrow> tcp_state \<Rightarrow> bool" where
  "tcp_step CLOSED Connect SYN_SENT"
| "tcp_step SYN_SENT Rcv_Syn_Ack ESTABLISHED"
| "tcp_step SYN_RCVD Rcv_Ack ESTABLISHED"
| "tcp_step SYN_RCVD Close FIN_WAIT_1"
| "tcp_step ESTABLISHED Close FIN_WAIT_1"
| "tcp_step ESTABLISHED Rcv_Fin CLOSE_WAIT"
| "tcp_step CLOSE_WAIT Close LAST_ACK"
| "tcp_step FIN_WAIT_1 Rcv_Ack FIN_WAIT_2"
| "tcp_step FIN_WAIT_1 Rcv_Fin CLOSING"
| "tcp_step FIN_WAIT_2 Rcv_Fin TIME_WAIT"
| "tcp_step CLOSING Rcv_Ack TIME_WAIT"

inductive tcp_run :: "tcp_state \<Rightarrow> tcp_event list \<Rightarrow> tcp_state \<Rightarrow> bool" where
  run_Nil: "tcp_run st [] st"
| run_Cons: "tcp_step st e st' \<Longrightarrow> tcp_run st' es st'' \<Longrightarrow> tcp_run st (e # es) st''"

inductive_cases tcp_runE [elim!]: "tcp_run st [] st'" "tcp_run st (e # es) st'"
inductive_simps tcp_step_simps: "tcp_step CLOSED e st" "tcp_step LISTEN e st" "tcp_step SYN_SENT e st"
  "tcp_step SYN_RCVD e st" "tcp_step ESTABLISHED e st" "tcp_step FIN_WAIT_1 e st" "tcp_step FIN_WAIT_2 e st"
  "tcp_step CLOSE_WAIT e st" "tcp_step CLOSING e st" "tcp_step LAST_ACK e st" "tcp_step TIME_WAIT e st"

lemma run_one [intro]: "tcp_step st e st' \<Longrightarrow> tcp_run st [e] st'"
  by (auto intro: tcp_run.intros)

lemma run_append: "tcp_run st es st' \<Longrightarrow> tcp_run st' fs st'' \<Longrightarrow> tcp_run st (es @ fs) st''"
  by (induction rule: tcp_run.induct) (auto intro: tcp_run.intros)

text \<open>A connection that was opened by this side reaches TIME-WAIT only when both sides have closed it.\<close>

lemma run_both_closed:
  assumes "tcp_run st es st'" "st' = TIME_WAIT" "st \<in> {CLOSED, SYN_SENT, SYN_RCVD, ESTABLISHED}"
  shows "Close \<in> set es \<and> Rcv_Fin \<in> set es"
proof -
  have "(st \<in> {FIN_WAIT_1, FIN_WAIT_2} \<longrightarrow> Rcv_Fin \<in> set es) \<and> (st \<in> {CLOSE_WAIT, LAST_ACK} \<longrightarrow> False)
     \<and> (st \<in> {CLOSED, SYN_SENT, SYN_RCVD, ESTABLISHED} \<longrightarrow> Close \<in> set es \<and> Rcv_Fin \<in> set es)"
    using assms(1,2)
    by (induction rule: tcp_run.induct) (auto elim!: tcp_step.cases)
  then show ?thesis using assms(3) by blast
qed

section \<open>The input function follows the diagram\<close>

text \<open>The events a segment can stand for: its flags, and a FIN that is waiting in the out-of-sequence
  queue.\<close>

definition carried :: "input_vars \<Rightarrow> tcp_pcb \<Rightarrow> tcp_event set" where
  "carried v pcb = (if has (in_flags v) TCP_ACK \<and> has (in_flags v) TCP_SYN then {Rcv_Syn_Ack} else {})
     \<union> (if has (in_flags v) TCP_ACK then {Rcv_Ack} else {})
     \<union> (if has (in_flags v) TCP_FIN \<or> (\<exists>seg\<in>set (ooseq pcb). has_fin seg) then {Rcv_Fin} else {})"

definition follows :: "input_vars \<Rightarrow> tcp_pcb \<Rightarrow> tcp_state \<Rightarrow> tcp_state \<Rightarrow> bool" where
  "follows v pcb st st' \<longleftrightarrow> (\<exists>es. tcp_run st es st' \<and> set es \<subseteq> carried v pcb)"

lemma follows_refl [simp]: "follows v pcb st st"
  unfolding follows_def using run_Nil [of st] by (intro exI [of _ "[]"]) simp

lemma follows_step: "tcp_step st e st' \<Longrightarrow> e \<in> carried v pcb \<Longrightarrow> follows v pcb st st'"
  unfolding follows_def by (intro exI [of _ "[e]"]) auto

lemma follows_trans: "follows v pcb st st' \<Longrightarrow> follows v pcb st' st'' \<Longrightarrow> follows v pcb st st''"
  unfolding follows_def by (metis run_append set_append Un_least)

text \<open>What the callbacks of a new connection may do to its block: close it, and change what is not its state nor its queue of
  out-of-sequence segments, like the callbacks, the argument and the data to send.\<close>

definition app_change :: "tcp_pcb \<Rightarrow> tcp_pcb \<Rightarrow> bool" where
  "app_change pcb pcb' \<longleftrightarrow> (\<exists>n. tcp_run (pcb_state pcb) (replicate n Close) (pcb_state pcb')) \<and> ooseq pcb' = ooseq pcb"

definition closes_only :: "callbacks \<Rightarrow> bool" where
  "closes_only cb \<longleftrightarrow> (\<forall>f s arg a e s' r pcb pcb'. pcbs s a = Some pcb \<longrightarrow> pcbs s' a = Some pcb' \<longrightarrow>
     on_connected cb f s arg a e = Some (s', r) \<or> on_accept cb f s arg a e = Some (s', r) \<longrightarrow> app_change pcb pcb')"

text \<open>The application closes the connection that it is asked to accept.\<close>

definition accept_closes :: "callbacks \<Rightarrow> ptr \<Rightarrow> bool" where
  "accept_closes cb a \<longleftrightarrow> (\<exists>f s arg s' pcb. on_accept cb f s arg a ERR_OK = Some (s', ERR_OK) \<and> pcbs s' a = Some pcb \<and> pcb_state pcb = FIN_WAIT_1)"

text \<open>An error callback that does not bring a block back that was freed.\<close>

definition leaves_freed :: "callbacks \<Rightarrow> bool" where
  "leaves_freed cb \<longleftrightarrow> (\<forall>f s arg e s' a. on_err cb f s arg e = Some s' \<longrightarrow> pcbs s a = None \<longrightarrow> pcbs s' a = None)"

lemma run_closes_established: "tcp_run ESTABLISHED (replicate n Close) st \<Longrightarrow> st = ESTABLISHED \<or> st = FIN_WAIT_1"
proof (cases n)
  case (Suc m)
  moreover assume "tcp_run ESTABLISHED (replicate n Close) st"
  ultimately have "tcp_run FIN_WAIT_1 (replicate m Close) st"
    by (auto simp: tcp_step_simps)
  then show ?thesis
    by (cases m) (auto simp: tcp_step_simps)
qed auto

lemma app_change_same: "pcb_state pcb' = pcb_state pcb \<Longrightarrow> ooseq pcb' = ooseq pcb \<Longrightarrow> app_change pcb pcb'"
  unfolding app_change_def using run_Nil [of "pcb_state pcb"] by (intro conjI exI [of _ 0]) simp_all

lemma app_change_refl [simp]: "app_change pcb pcb"
  by (rule app_change_same) simp_all

lemma tcp_passive_close_st:
  "tcp_passive_close s a v pcb acc = Some (s', pcb') \<Longrightarrow>
   frame s' = frame s \<and> (pcb_state pcb' = pcb_state pcb \<or> pcb_state pcb' = CLOSE_WAIT \<and> has (in_flags v) TCP_FIN)"
  unfolding tcp_passive_close_def by (auto split: if_split_asm Option.bind_split_asm dest!: tcp_ack_now_st)

lemma receive_close_follows:
  assumes "tcp_receive s a v pcb = Some (s1, v1, pcb1, acc)" "tcp_passive_close s1 a v1 pcb2 acc = Some (s2, pcb3)"
    "pcb_state pcb2 = pcb_state pcb1" "pcb_state pcb = ESTABLISHED \<or> pcb_state pcb = CLOSE_WAIT"
  shows "follows v pcb (pcb_state pcb) (pcb_state pcb3)"
proof -
  have fin: "follows v pcb ESTABLISHED CLOSE_WAIT" if "Rcv_Fin \<in> carried v pcb"
    using that by (intro follows_step) (auto intro: tcp_step.intros)
  have "pcb_state pcb3 = pcb_state pcb \<or> pcb_state pcb3 = CLOSE_WAIT \<and> Rcv_Fin \<in> carried v pcb"
    using tcp_receive_st [OF assms(1)] tcp_passive_close_st [OF assms(2)] assms(3)
    by (auto simp: data_state_def carried_def)
  then show ?thesis
    using assms(4) fin by auto
qed

lemma tcp_pcb_purge_st:
  "tcp_pcb_purge s pcb = Some (s', pcb') \<Longrightarrow> frame s' = frame s \<and> pcb_state pcb' = pcb_state pcb"
  unfolding tcp_pcb_purge_def
  by (auto split: if_split_asm Option.bind_split_asm dest!: pbuf_free_s_io tcp_segs_free_io)

lemma tcp_enter_timewait_st:
  assumes "tcp_enter_timewait s a pcb = Some s'"
  shows "\<exists>pcb'. pcbs s' a = Some pcb' \<and> pcb_state pcb' = TIME_WAIT"
  using assms unfolding tcp_enter_timewait_def Let_def
  by (auto simp: put_pcb_def split: Option.bind_split_asm)

lemma TCP_EVENT_ERR_freed:
  "leaves_freed cb \<Longrightarrow> TCP_EVENT_ERR cb s f arg e = Some s' \<Longrightarrow> pcbs s a = None \<Longrightarrow> pcbs s' a = None"
  by (auto simp: TCP_EVENT_ERR_def leaves_freed_def split: if_split_asm)

lemma tcp_abort_frees:
  assumes "leaves_freed cb" "tcp_abort cb s a = Some s'"
  shows "pcbs s' a = None"
proof -
  obtain pcb where pcb: "pcbs s a = Some pcb"
    using assms(2) by (auto simp: tcp_abort_def split: Option.bind_split_asm)
  show ?thesis
  proof (cases "pcb_state pcb = TIME_WAIT")
    case True
    with assms(2) pcb show ?thesis
      by (auto simp: tcp_abort_def memp_free_pcb_def split: Option.bind_split_asm)
  next
    case False
    with assms(2) pcb obtain s1 s2 s3 where 1: "TCP_EVENT_ERR cb (memp_free_pcb a s1) (cb_errf pcb) (callback_arg pcb) ERR_ABRT = Some s2"
        "tcp_rst s2 (snd_nxt pcb) (rcv_nxt pcb) (local_ip pcb) (remote_ip pcb) (local_port pcb) (remote_port pcb) = Some s'"
      by (auto simp: tcp_abort_def split: Option.bind_split_asm)
    show ?thesis
      using TCP_EVENT_ERR_freed [OF assms(1) 1(1), of a] frameD(9) [OF tcp_rst_io [OF 1(2)]] by (simp add: memp_free_pcb_def)
  qed
qed

lemma put_pcb_same [simp]: "pcbs (put_pcb a pcb s) a = Some pcb"
  by (simp add: put_pcb_def)

lemma closes_onlyD:
  assumes "closes_only cb" "pcbs s a = Some pcb" "pcbs s' a = Some pcb'"
  shows "on_connected cb f s arg a e = Some (s', r) \<Longrightarrow> app_change pcb pcb'" "on_accept cb f s arg a e = Some (s', r) \<Longrightarrow> app_change pcb pcb'"
  using assms unfolding closes_only_def by blast+

definition process_ok :: "input_vars \<Rightarrow> tcp_pcb \<Rightarrow> ptr \<Rightarrow> stack \<Rightarrow> bool" where
  "process_ok v pcb a s' \<longleftrightarrow> (\<exists>pcb'. pcbs s' a = Some pcb' \<and> follows v pcb (pcb_state pcb) (pcb_state pcb'))"

text \<open>The same with what the application does in between.\<close>

definition process_app :: "input_vars \<Rightarrow> tcp_pcb \<Rightarrow> ptr \<Rightarrow> stack \<Rightarrow> bool" where
  "process_app v pcb a s' \<longleftrightarrow> (\<exists>pcb' es. pcbs s' a = Some pcb' \<and> tcp_run (pcb_state pcb) es (pcb_state pcb')
     \<and> set es \<subseteq> insert Close (carried v pcb))"

lemma process_app_ok: "process_ok v pcb a s' \<Longrightarrow> process_app v pcb a s'"
  by (auto simp: process_ok_def process_app_def follows_def)

lemma tcp_process_synack_st:
  "tcp_process_synack s v pcb rseg segs = Some (s', pcb') \<Longrightarrow> pcb_state pcb' = ESTABLISHED"
  unfolding tcp_process_synack_def Let_def
  by (auto simp: kept_def split: Option.bind_split_asm if_split_asm dest!: tcp_parseopt_st)

lemma syn_sent_follows:
  assumes "closes_only cb" "pcb_state pcb = SYN_SENT" "tcp_process_syn_sent cb s a v pcb = Some s'"
  shows "process_app v pcb a s'"
proof -
  obtain synack where 1: "(if has (in_flags v) TCP_ACK \<and> has (in_flags v) TCP_SYN
         then (case unacked pcb of [] \<Rightarrow> None | rseg # _ \<Rightarrow> Some (in_ackno v = ntohl (h_seqno (s_hdr rseg)) + 1))
         else Some False) = Some synack"
    using assms(3) unfolding tcp_process_syn_sent_def bind_eq_Some_conv by blast
  show ?thesis
  proof (cases synack)
    case True
    with 1 have fl: "has (in_flags v) TCP_ACK \<and> has (in_flags v) TCP_SYN"
      by (auto split: if_split_asm)
    obtain s1 pcb1 s2 r pcb2 s3 pcb3 where 2: "tcp_process_synack s v pcb (hd (unacked pcb)) (tl (unacked pcb)) = Some (s1, pcb1)"
        "(if cb_connected pcb1 \<noteq> 0 then on_connected cb (cb_connected pcb1) (put_pcb a pcb1 s1) (callback_arg pcb1) a ERR_OK
           else Some (put_pcb a pcb1 s1, ERR_OK)) = Some (s2, r)"
        "pcbs s2 a = Some pcb2" "tcp_ack_now s2 a pcb2 = Some (s3, pcb3)" "s' = put_pcb a pcb3 s3"
      using assms(3) 1 True unfolding tcp_process_syn_sent_def Let_def
      by (auto split: Option.bind_split_asm)
    have "app_change pcb1 pcb2"
      using 2(2,3) closes_onlyD(1) [OF assms(1) put_pcb_same 2(3)] by (auto split: if_split_asm)
    then obtain n where "tcp_run ESTABLISHED (replicate n Close) (pcb_state pcb3)"
      using tcp_process_synack_st [OF 2(1)] tcp_ack_now_st [OF 2(4)] by (auto simp: app_change_def kept_def)
    then have "tcp_run SYN_SENT (Rcv_Syn_Ack # replicate n Close) (pcb_state pcb3)"
      by (auto intro: tcp_run.intros tcp_step.intros)
    then show ?thesis
      using 2(5) assms(2) fl unfolding process_app_def
      by (intro exI [of _ pcb3] exI [of _ "Rcv_Syn_Ack # replicate n Close"]) (auto simp: carried_def)
  next
    case False
    then have "pcbs s' a = Some pcb"
      using assms(3) 1 unfolding tcp_process_syn_sent_def by (auto split: Option.bind_split_asm)
    then show ?thesis by (intro process_app_ok) (simp add: process_ok_def)
  qed
qed

text \<open>A FIN in the segment that completes the handshake overrides a close in the accept callback.\<close>

definition fin_overrides :: "callbacks \<Rightarrow> input_vars \<Rightarrow> ptr \<Rightarrow> stack \<Rightarrow> bool" where
  "fin_overrides cb v a s' \<longleftrightarrow> accept_closes cb a \<and> has (in_flags v) TCP_FIN \<and> (\<exists>pcb'. pcbs s' a = Some pcb' \<and> pcb_state pcb' = CLOSE_WAIT)"

lemma accepted_follows:
  assumes "tcp_receive s a v pcb = Some (s1, v1, pcb1, acc)" "tcp_passive_close s1 a v1 pcb2 acc = Some (s2, pcb3)"
    "pcb_state pcb2 = pcb_state pcb1" "tcp_run ESTABLISHED (replicate n Close) (pcb_state pcb)"
  shows "(\<exists>es. tcp_run ESTABLISHED es (pcb_state pcb3) \<and> set es \<subseteq> insert Close (carried v pcb))
    \<or> pcb_state pcb = FIN_WAIT_1 \<and> has (in_flags v) TCP_FIN \<and> pcb_state pcb3 = CLOSE_WAIT"
proof (cases "pcb_state pcb = ESTABLISHED")
  case True
  then obtain es where "tcp_run ESTABLISHED es (pcb_state pcb3)" "set es \<subseteq> carried v pcb"
    using receive_close_follows [OF assms(1-3)] by (auto simp: follows_def)
  then show ?thesis by blast
next
  case False
  then have fw: "pcb_state pcb = FIN_WAIT_1"
    using run_closes_established [OF assms(4)] by simp
  have "pcb_state pcb3 = FIN_WAIT_1 \<or> pcb_state pcb3 = CLOSE_WAIT \<and> has (in_flags v) TCP_FIN"
    using tcp_receive_st [OF assms(1)] tcp_passive_close_st [OF assms(2)] assms(3) fw by (auto simp: data_state_def)
  moreover have "tcp_run ESTABLISHED [Close] FIN_WAIT_1"
    by (auto intro: tcp_step.intros)
  ultimately show ?thesis
    using fw by (metis insertI1 list.set(1) list.simps(15) subset_insertI2 empty_subsetI insert_subset)
qed

lemma syn_rcvd_follows:
  assumes "closes_only cb" "pcb_state pcb = SYN_RCVD" "tcp_process_syn_rcvd cb s a v pcb = Some (s', v', e)"
  shows "if e = ERR_ABRT then leaves_freed cb \<longrightarrow> pcbs s' a = None else process_app v pcb a s' \<or> fin_overrides cb v a s'"
proof (cases "has (in_flags v) TCP_ACK \<and> \<not> has (in_flags v) TCP_RST \<and> TCP_SEQ_BETWEEN (in_ackno v) (lastack pcb + 1) (snd_nxt pcb)")
  case False
  then have "pcbs s' a = Some pcb" "e = ERR_OK"
    using assms(3) unfolding tcp_process_syn_rcvd_def by (auto split: Option.bind_split_asm if_split_asm)
  then show ?thesis by (simp add: process_app_ok process_ok_def)
next
  case True
  define pcb0 where "pcb0 = pcb\<lparr>pcb_state := ESTABLISHED\<rparr>"
  obtain s1 r where 1: "TCP_EVENT_ACCEPT cb (put_pcb a pcb0 s) a pcb0 = Some (s1, r)"
    and 2: "(if r \<noteq> ERR_OK then do { s \<leftarrow> tcp_abort cb s1 a; Some (s, v, ERR_ABRT) }
             else do {
               pcb \<leftarrow> pcbs s1 a;
               let old_cwnd = cwnd pcb;
               (s, v, pcb, accepted_inseq) \<leftarrow> tcp_receive s1 a v pcb;
               let pcb = pcb\<lparr>cwnd := (if old_cwnd = 1 then mss pcb * 2 else mss pcb)\<rparr>;
               (s, pcb) \<leftarrow> tcp_passive_close s a v pcb accepted_inseq;
               Some (put_pcb a pcb s, v, ERR_OK)
             }) = Some (s', v', e)"
    using assms(3) True unfolding tcp_process_syn_rcvd_def Let_def [of pcb0, symmetric] pcb0_def
    by (simp only: simp_thms if_True Let_def [of "pcb\<lparr>pcb_state := ESTABLISHED\<rparr>"]) (erule bind2E)
  show ?thesis
  proof (cases "r = ERR_OK")
    case False
    with 2 show ?thesis
      using tcp_abort_frees by (auto split: Option.bind_split_asm)
  next
    case ok: True
    with 2 obtain pcb1 s2 v2 pcb2 acc s3 pcb3 where 3: "pcbs s1 a = Some pcb1" "tcp_receive s1 a v pcb1 = Some (s2, v2, pcb2, acc)"
        "tcp_passive_close s2 a v2 (pcb2\<lparr>cwnd := (if cwnd pcb1 = 1 then mss pcb2 * 2 else mss pcb2)\<rparr>) acc = Some (s3, pcb3)"
        "s' = put_pcb a pcb3 s3" "e = ERR_OK"
      by (auto simp: Let_def split: Option.bind_split_asm)
    have ch: "app_change pcb0 pcb1"
      using 1 3(1) closes_onlyD(2) [OF assms(1) put_pcb_same 3(1)] by (auto simp: TCP_EVENT_ACCEPT_def split: if_split_asm)
    then obtain n where n: "tcp_run ESTABLISHED (replicate n Close) (pcb_state pcb1)" "carried v pcb1 = carried v pcb"
      by (auto simp: app_change_def pcb0_def carried_def)
    have cl: "accept_closes cb a" if "pcb_state pcb1 = FIN_WAIT_1"
    proof -
      have "\<exists>f s arg. on_accept cb f s arg a ERR_OK = Some (s1, ERR_OK)"
        using 1 3(1) ok that by (auto simp: TCP_EVENT_ACCEPT_def pcb0_def split: if_split_asm)
      then show ?thesis
        using 3(1) that unfolding accept_closes_def by blast
    qed
    have "tcp_run SYN_RCVD (Rcv_Ack # es) st" "Rcv_Ack \<in> carried v pcb" if "tcp_run ESTABLISHED es st" for es st
      using that True by (auto intro: tcp_run.intros tcp_step.intros simp: carried_def)
    then have "process_app v pcb a s'" if "tcp_run ESTABLISHED es (pcb_state pcb3)" "set es \<subseteq> insert Close (carried v pcb)" for es
      using that 3(4) assms(2) unfolding process_app_def by (intro exI [of _ pcb3] exI [of _ "Rcv_Ack # es"]) auto
    then show ?thesis
      using accepted_follows [OF 3(2,3) _ n(1)] cl 3(4,5) n(2) by (auto simp: fin_overrides_def)
  qed
qed

lemma follows_ack:
  "has (in_flags v) TCP_ACK \<Longrightarrow> follows v pcb FIN_WAIT_1 FIN_WAIT_2" "has (in_flags v) TCP_ACK \<Longrightarrow> follows v pcb CLOSING TIME_WAIT"
  by (auto simp: carried_def intro: follows_step [OF tcp_step.intros(8)] follows_step [OF tcp_step.intros(11)])

lemma follows_fin:
  "has (in_flags v) TCP_FIN \<Longrightarrow> follows v pcb FIN_WAIT_1 CLOSING" "has (in_flags v) TCP_FIN \<Longrightarrow> follows v pcb FIN_WAIT_2 TIME_WAIT"
  by (auto simp: carried_def intro: follows_step [OF tcp_step.intros(9)] follows_step [OF tcp_step.intros(10)])

lemmas follows_closing = follows_ack follows_fin follows_trans [OF follows_ack(1) follows_fin(2)]

lemma closing_follows:
  assumes "tcp_process_closing s a v pcb1 st = Some (s', v')" "pcb_state pcb1 = st"
    "st \<in> {FIN_WAIT_1, FIN_WAIT_2, CLOSING, LAST_ACK}" "pcb_state pcb = st"
  shows "process_ok v pcb a s'"
  using assms unfolding tcp_process_closing_def process_ok_def
  by (auto simp: acks_all_def follows_closing kept_def split: if_split_asm Option.bind_split_asm
      dest!: tcp_enter_timewait_st tcp_ack_now_st)

lemma tcp_process_rst_st:
  "tcp_process_rst v pcb = (v', pcb', e) \<Longrightarrow> pcb_state pcb' = pcb_state pcb"
  by (auto simp: tcp_process_rst_def Let_def split: if_split_asm)

text \<open>The branches of \<^verbatim>\<open>tcp_process\<close>.\<close>

definition heard :: "stack \<Rightarrow> tcp_pcb \<Rightarrow> tcp_pcb" where
  "heard s pcb = pcb\<lparr>tmr := tcp_ticks s, keep_cnt_sent := 0\<rparr>"

lemma tcp_process_cases:
  assumes "tcp_process cb s a v = Some (s', v', e)" "pcbs s a = Some pcb"
  obtains (rst) pcb' where "has (in_flags v) TCP_RST" "tcp_process_rst v pcb = (v', pcb', e)" "s' = put_pcb a pcb' s"
  | (syn_sent) "\<not> has (in_flags v) TCP_RST" "pcb_state pcb = SYN_SENT"
      "tcp_process_syn_sent cb s a v (heard s pcb) = Some s'" "v' = v" "e = ERR_OK"
  | (syn_rcvd) "\<not> has (in_flags v) TCP_RST" "pcb_state pcb = SYN_RCVD"
      "tcp_process_syn_rcvd cb s a v (heard s pcb) = Some (s', v', e)"
  | (idle) "\<not> has (in_flags v) TCP_RST" "pcb_state pcb \<in> {CLOSED, LISTEN, TIME_WAIT}"
      "s' = put_pcb a (heard s pcb) s" "v' = v" "e = ERR_OK"
  | (data) s1 pcb1 acc s2 pcb2 where "\<not> has (in_flags v) TCP_RST" "pcb_state pcb \<in> {ESTABLISHED, CLOSE_WAIT}"
      "tcp_receive s a v (heard s pcb) = Some (s1, v', pcb1, acc)"
      "tcp_passive_close s1 a v' pcb1 acc = Some (s2, pcb2)" "s' = put_pcb a pcb2 s2" "e = ERR_OK"
  | (closing) s1 v1 pcb1 acc where "\<not> has (in_flags v) TCP_RST"
      "pcb_state pcb \<in> {FIN_WAIT_1, FIN_WAIT_2, CLOSING, LAST_ACK}"
      "tcp_receive s a v (heard s pcb) = Some (s1, v1, pcb1, acc)"
      "tcp_process_closing s1 a v1 pcb1 (pcb_state pcb) = Some (s', v')" "e = ERR_OK"
proof (cases "has (in_flags v) TCP_RST")
  case True
  with assms show ?thesis
    by (auto simp: tcp_process_def split: prod.splits intro: rst)
next
  case False
  then have p: "(case pcb_state pcb of
         SYN_SENT \<Rightarrow> do { s \<leftarrow> tcp_process_syn_sent cb s a v (heard s pcb); Some (s, v, ERR_OK) }
       | SYN_RCVD \<Rightarrow> tcp_process_syn_rcvd cb s a v (heard s pcb)
       | CLOSED \<Rightarrow> Some (put_pcb a (heard s pcb) s, v, ERR_OK)
       | LISTEN \<Rightarrow> Some (put_pcb a (heard s pcb) s, v, ERR_OK)
       | TIME_WAIT \<Rightarrow> Some (put_pcb a (heard s pcb) s, v, ERR_OK)
       | st \<Rightarrow> do {
           (s, v, pcb, accepted_inseq) \<leftarrow> tcp_receive s a v (heard s pcb);
           if st = ESTABLISHED \<or> st = CLOSE_WAIT
           then do {
             (s, pcb) \<leftarrow> tcp_passive_close s a v pcb accepted_inseq;
             Some (put_pcb a pcb s, v, ERR_OK)
           }
           else do { (s, v) \<leftarrow> tcp_process_closing s a v pcb st; Some (s, v, ERR_OK) }
         }) = Some (s', v', e)"
    using assms unfolding tcp_process_def heard_def by (simp add: Let_def)
  show ?thesis
    using p by (cases "pcb_state pcb")
      (auto split: Option.bind_split_asm intro: syn_sent [OF False] syn_rcvd [OF False] idle [OF False] data [OF False] closing [OF False])
qed

lemma heard_simps [simp]:
  "pcb_state (heard s pcb) = pcb_state pcb" "carried v (heard s pcb) = carried v pcb"
  "process_ok v (heard s pcb) = process_ok v pcb" "process_app v (heard s pcb) = process_app v pcb"
  by (simp_all add: heard_def carried_def process_ok_def process_app_def follows_def fun_eq_iff)

text \<open>C2. The input function follows the state diagram of RFC 793: whatever segment arrives for a control
  block, the state it leaves the block in is reached by transitions of the diagram whose events the segment
  carries (its flags, or a FIN waiting in the out-of-sequence queue), and, while a connection is being established,
  closes by the callback of the application. \<^verbatim>\<open>ERR_ABRT\<close> is returned only when the application refuses a connection in
  SYN-RECEIVED, and the block is gone then (if the error callback does not make a new one at its address). There is one exception:
  when the accept callback closes the connection and the segment carries a FIN, the block goes from FIN-WAIT-1 to CLOSE-WAIT.
  The callbacks that run when a connection is established may change it as the functions of the raw API do that set its callbacks,
  argument and priority, send, take data and close it (\<open>app_calls_close\<close> in \<open>Tcp_Life\<close>): to its state they do nothing but close
  it.\<close>

theorem tcp_process_follows_diagram:
  assumes "closes_only cb" "pcbs s a = Some pcb" "tcp_process cb s a v = Some (s', v', e)"
  shows "if e = ERR_ABRT then pcb_state pcb = SYN_RCVD \<and> (leaves_freed cb \<longrightarrow> pcbs s' a = None)
    else \<exists>pcb'. pcbs s' a = Some pcb'
      \<and> ((\<exists>es. tcp_run (pcb_state pcb) es (pcb_state pcb')
            \<and> set es \<subseteq> carried v pcb \<union> (if pcb_state pcb \<in> {SYN_SENT, SYN_RCVD} then {Close} else {}))
         \<or> pcb_state pcb = SYN_RCVD \<and> accept_closes cb a \<and> has (in_flags v) TCP_FIN \<and> pcb_state pcb' = CLOSE_WAIT)"
proof -
  have plain: "?thesis" if ok: "process_ok v pcb a s'" "e \<noteq> ERR_ABRT"
  proof -
    obtain pcb' es where "pcbs s' a = Some pcb'" "tcp_run (pcb_state pcb) es (pcb_state pcb')" "set es \<subseteq> carried v pcb"
      using ok(1) unfolding process_ok_def follows_def by blast
    then show ?thesis
      using ok(2) by (metis sup.coboundedI1)
  qed
  show ?thesis
    using assms(3,2)
  proof (cases rule: tcp_process_cases)
    case (rst pcb')
    then show ?thesis
      using tcp_process_rst_st [OF rst(2)] by (intro plain) (auto simp: process_ok_def tcp_process_rst_def Let_def split: if_split_asm)
  next
    case syn_sent
    then have "process_app v pcb a s'"
      using syn_sent_follows [OF assms(1) _ syn_sent(3)] by simp
    then show ?thesis
      using syn_sent by (auto simp: process_app_def)
  next
    case syn_rcvd
    then show ?thesis
      using syn_rcvd_follows [OF assms(1) _ syn_rcvd(3)] by (auto simp: process_app_def fin_overrides_def split: if_splits)
  next
    case idle
    then show ?thesis
      by (intro plain) (simp_all add: process_ok_def)
  next
    case (data s1 pcb1 acc s2 pcb2)
    then show ?thesis
      using receive_close_follows [OF data(3,4)] by (intro plain) (auto simp: process_ok_def follows_def)
  next
    case (closing s1 v1 pcb1 acc)
    then have "pcb_state pcb1 = pcb_state pcb" "in_flags v1 = in_flags v"
      using tcp_receive_st [OF closing(3)] by (auto simp: data_state_def)
    then show ?thesis
      using closing_follows [OF closing(4), of pcb] closing(2,5) by (intro plain) (simp_all add: process_ok_def follows_def carried_def)
  qed
qed

text \<open>Callbacks that do nothing, and the acknowledgement of a SYN.\<close>

definition idle_callbacks :: callbacks where
  "idle_callbacks = \<lparr>on_sent = (\<lambda>f s arg a n. Some (s, ERR_OK)), on_recv = (\<lambda>f s arg a p e. Some (s, ERR_OK)),
     on_connected = (\<lambda>f s arg a e. Some (s, ERR_OK)), on_accept = (\<lambda>f s arg a e. Some (s, ERR_OK)),
     on_poll = (\<lambda>f s arg a. Some (s, ERR_OK)), on_err = (\<lambda>f s arg e. Some s)\<rparr>"

definition ack_segment :: input_vars where
  "ack_segment = (syn_segment 1 [])\<lparr>in_ackno := 51, in_flags := TCP_ACK, tcplen := 0\<rparr>"

text \<open>An application that sets its receive function for every connection it is given, as \<^verbatim>\<open>sim_support.cpp\<close> does, and a connection
  that waits to be accepted.\<close>

definition nsc_callbacks :: callbacks where
  "nsc_callbacks = idle_callbacks\<lparr>on_accept := (\<lambda>f s arg a e. do { pcb \<leftarrow> pcbs s a; Some (put_pcb a (tcp_recv pcb 9) s, ERR_OK) })\<rparr>"

definition accept_pcb :: tcp_pcb where
  "accept_pcb = (tcp_fresh_pcb 50 0)\<lparr>pcb_state := SYN_RCVD, rcv_nxt := 100, lastack := 50, snd_nxt := 51, snd_max := 51, mss := 1000, cwnd := 1000,
     cb_accept := 5\<rparr>"

lemma nsc_closes_only: "closes_only nsc_callbacks"
proof -
  have "app_change pcb (tcp_recv pcb f)" for pcb f
    by (rule app_change_same) (simp_all add: tcp_recv_def)
  then show ?thesis
    by (auto simp: closes_only_def nsc_callbacks_def idle_callbacks_def put_pcb_def split: Option.bind_split_asm)
qed

theorem tcp_process_follows_diagram_witness:
  "\<exists>s' v' pcb'. tcp_process nsc_callbacks ((sample_stack no_heap)\<lparr>pcbs := [7 \<mapsto> accept_pcb]\<rparr>) 7 ack_segment = Some (s', v', ERR_OK)
     \<and> pcbs s' 7 = Some pcb' \<and> pcb_state pcb' = ESTABLISHED \<and> cb_recv pcb' = 9
     \<and> (\<exists>es. tcp_run SYN_RCVD es ESTABLISHED \<and> set es \<subseteq> carried ack_segment accept_pcb \<union> {Close})"
proof -
  let ?s = "(sample_stack no_heap)\<lparr>pcbs := [7 \<mapsto> accept_pcb]\<rparr>"
  note defs = accept_pcb_def ack_segment_def syn_segment_def tcp_fresh_pcb_def has_def TCP_ACK_def TCP_RST_def TCP_ACCEPT_NULL_def
    TF_INFR_def TCP_WND_def TCP_FIN_def Let_def TCP_SEQ_LT_def TCP_SEQ_BETWEEN_def TCP_SEQ_GEQ_def TCP_SEQ_LEQ_def
  obtain s' v' pcb' where p: "tcp_process nsc_callbacks ?s 7 ack_segment = Some (s', v', ERR_OK)"
      "pcbs s' 7 = Some pcb'" "pcb_state pcb' = ESTABLISHED" "cb_recv pcb' = 9"
    by (simp add: defs tcp_process_def tcp_process_syn_rcvd_def TCP_EVENT_ACCEPT_def nsc_callbacks_def tcp_recv_def tcp_receive_def
      tcp_receive_ack_def tcp_receive_wnd_def tcp_receive_newack_def tcp_receive_cwnd_def state_number_def tcp_receive_unsent_def
      tcp_receive_rtt_def tcp_receive_data_def tcp_passive_close_def)
  have "pcb_state accept_pcb = SYN_RCVD"
    by (simp add: accept_pcb_def)
  then show ?thesis
    using tcp_process_follows_diagram [OF nsc_closes_only _ p(1), of accept_pcb] p by auto
qed

end
