(* ===== verification/Tcp_Life.thy ===== *)
theory Tcp_Life
  imports Tcp_State
begin

text \<open>
  The life of a control block: every operation on one keeps the invariant of the windows, the segment
  size and the persist timer, so the timer never reads outside its table.
\<close>

section \<open>Queueing\<close>

lemma tcp_enqueue_pbuf_io [io]:
  "tcp_enqueue_pbuf s arg dp fl opt n q = Some (s', p, d, q') \<Longrightarrow> frame s' = frame s"
  unfolding tcp_enqueue_pbuf_def Let_def
  by (auto split: option.splits if_split_asm Option.bind_split_asm dest!: pbuf_alloc_s_io pbuf_free_s_io)

lemma tcp_enqueue_seg_io [io]:
  "tcp_enqueue_seg s pcb arg dp fl afl opt n q ql = Some (s', segs, ok, ql') \<Longrightarrow> frame s' = frame s"
  unfolding tcp_enqueue_seg_def Let_def
  by (auto split: prod.splits option.splits if_split_asm Option.bind_split_asm
      dest!: memp_malloc_io tcp_enqueue_pbuf_io pbuf_header_s_io)

lemma tcp_enqueue_loop_io:
  "tcp_enqueue_loop s pcb arg dp fl afl opt left q ql n queue = Some r \<Longrightarrow> frame (fst r) = frame s"
proof (induction rule: tcp_enqueue_loop.raw_induct [rotated, consumes 1, case_names step])
  case (step loop s pcb arg dp fl afl opt left q ql n queue r)
  show ?case
  proof (cases "queue = [] \<or> left > 0")
    case False
    with step.hyps show ?thesis by auto
  next
    case True
    define n' where "n' = (if left > mss pcb then mss pcb else left)"
    obtain s1 segs ok1 ql1 where 1: "tcp_enqueue_seg s pcb arg dp fl afl opt n' q ql = Some (s1, segs, ok1, ql1)"
      using step.hyps True unfolding n'_def by (auto simp: Let_def split: Option.bind_split_asm)
    then have "frame s1 = frame s" by (rule tcp_enqueue_seg_io)
    moreover have "(if \<not> ok1 then Some (s1, queue @ segs, False, ql1, n')
        else loop s1 pcb arg (ptr_add dp (unat n')) fl afl opt (left - n') (q + ucast n') ql1 n' (queue @ segs)) = Some r"
      using step.hyps True 1 unfolding n'_def [symmetric] by (simp add: Let_def)
    ultimately show ?thesis
      by (auto split: if_split_asm dest: step.IH)
  qed
qed

lemma tcp_enqueue_memerr_st:
  "tcp_enqueue_memerr s pcb queue = Some (s', pcb', e) \<Longrightarrow> frame s' = frame s \<and> kept pcb pcb'"
  unfolding tcp_enqueue_memerr_def by (auto simp: kept_defs split: Option.bind_split_asm dest!: tcp_segs_free_io)

lemma tcp_enqueue_done_st [simp]: "kept pcb (tcp_enqueue_done pcb us len fl ql)"
  by (simp add: tcp_enqueue_done_def kept_defs Let_def)

lemma tcp_enqueue_append_st:
  "tcp_enqueue_append s pcb len fl afl ql n queue = Some (s', pcb', e) \<Longrightarrow> frame s' = frame s \<and> kept pcb pcb'"
  unfolding tcp_enqueue_append_def Let_def
  by (auto split: if_split_asm Option.bind_split_asm dest!: pbuf_header_s_io tcp_enqueue_memerr_st)

lemma tcp_enqueue_st [st]:
  assumes "tcp_enqueue s pcb arg len fl afl opt = Some (s', pcb', e)"
  shows "frame s' = frame s \<and> kept pcb pcb'"
  using assms unfolding tcp_enqueue_def Let_def
  by (auto simp: kept_defs split: if_split_asm Option.bind_split_asm
      dest!: tcp_enqueue_loop_io tcp_enqueue_append_st tcp_enqueue_memerr_st)

lemma tcp_write_st [st]:
  "tcp_write s pcb data len fl = Some (s', pcb', e) \<Longrightarrow> frame s' = frame s \<and> kept pcb pcb'"
  unfolding tcp_write_def by (auto split: if_split_asm dest!: tcp_enqueue_st)

lemma tcp_send_ctrl_st [st]:
  "tcp_send_ctrl s pcb fl = Some (s', pcb', e) \<Longrightarrow> frame s' = frame s \<and> kept pcb pcb'"
  unfolding tcp_send_ctrl_def by (rule tcp_enqueue_st)

section \<open>The invariant of the stack\<close>

definition stack_ok :: "stack \<Rightarrow> bool" where
  "stack_ok s \<longleftrightarrow> (\<forall>a pcb. pcbs s a = Some pcb \<longrightarrow> blk_ok pcb)"

text \<open>Callbacks of an application that uses the stack through its functions.\<close>

definition callbacks_ok :: "callbacks \<Rightarrow> bool" where
  "callbacks_ok cb \<longleftrightarrow>
     (\<forall>f s arg a n s' r. stack_ok s \<longrightarrow> on_sent cb f s arg a n = Some (s', r) \<longrightarrow> stack_ok s')
     \<and> (\<forall>f s arg a p e s' r. stack_ok s \<longrightarrow> on_recv cb f s arg a p e = Some (s', r) \<longrightarrow> stack_ok s')
     \<and> (\<forall>f s arg a e s' r. stack_ok s \<longrightarrow> on_connected cb f s arg a e = Some (s', r) \<longrightarrow> stack_ok s')
     \<and> (\<forall>f s arg a e s' r. stack_ok s \<longrightarrow> on_accept cb f s arg a e = Some (s', r) \<longrightarrow> stack_ok s')
     \<and> (\<forall>f s arg a s' r. stack_ok s \<longrightarrow> on_poll cb f s arg a = Some (s', r) \<longrightarrow> stack_ok s')
     \<and> (\<forall>f s arg e s'. stack_ok s \<longrightarrow> on_err cb f s arg e = Some s' \<longrightarrow> stack_ok s')"

lemma stack_ok_frame:
  assumes "frame s' = frame s"
  shows "stack_ok s' \<longleftrightarrow> stack_ok s"
  using frameD(9) [OF assms] by (simp add: stack_ok_def)

lemma stack_ok_put [simp]: "stack_ok s \<Longrightarrow> stack_ok (put_pcb a pcb s) \<longleftrightarrow> blk_ok pcb"
  by (auto simp: stack_ok_def put_pcb_def)

lemma stack_ok_free [simp, intro]: "stack_ok s \<Longrightarrow> stack_ok (memp_free_pcb a s)"
  by (simp add: stack_ok_def memp_free_pcb_def)

lemma stack_okD: "pcbs s a = Some pcb \<Longrightarrow> stack_ok s \<Longrightarrow> blk_ok pcb"
  by (simp add: stack_ok_def)

lemma stack_ok_upd [simp]:
  "stack_ok (s\<lparr>tcp_bound_pcbs := l\<rparr>) = stack_ok s" "stack_ok (s\<lparr>tcp_listen_pcbs := l\<rparr>) = stack_ok s"
  "stack_ok (s\<lparr>tcp_active_pcbs := l\<rparr>) = stack_ok s" "stack_ok (s\<lparr>tcp_tw_pcbs := l\<rparr>) = stack_ok s"
  "stack_ok (s\<lparr>lpcbs := m\<rparr>) = stack_ok s" "stack_ok (s\<lparr>tcp_port := n\<rparr>) = stack_ok s"
  "stack_ok (s\<lparr>tcp_iss := i\<rparr>) = stack_ok s" "stack_ok (s\<lparr>tcp_ticks := i\<rparr>) = stack_ok s"
  "stack_ok (s\<lparr>tcp_timer := t\<rparr>) = stack_ok s" "stack_ok (s\<lparr>tcp_input_pcb := a\<rparr>) = stack_ok s"
  "stack_ok (s\<lparr>mem := h\<rparr>) = stack_ok s"
  by (simp_all add: stack_ok_def)

lemma blk_ok_fresh [simp]: "blk_ok (tcp_fresh_pcb iss ticks)"
  by (simp add: blk_ok_def tcp_fresh_pcb_def TCP_WND_def TCP_MSS_def)

lemma blk_ok_upd [simp]:
  "blk_ok (pcb\<lparr>local_ip := x0\<rparr>) = blk_ok pcb"
  "blk_ok (pcb\<lparr>remote_ip := x1\<rparr>) = blk_ok pcb"
  "blk_ok (pcb\<lparr>pcb_state := x2\<rparr>) = blk_ok pcb"
  "blk_ok (pcb\<lparr>local_port := x3\<rparr>) = blk_ok pcb"
  "blk_ok (pcb\<lparr>remote_port := x4\<rparr>) = blk_ok pcb"
  "blk_ok (pcb\<lparr>pcb_flags := x5\<rparr>) = blk_ok pcb"
  "blk_ok (pcb\<lparr>rcv_nxt := x6\<rparr>) = blk_ok pcb"
  "blk_ok (pcb\<lparr>tmr := x7\<rparr>) = blk_ok pcb"
  "blk_ok (pcb\<lparr>polltmr := x8\<rparr>) = blk_ok pcb"
  "blk_ok (pcb\<lparr>rtime := x9\<rparr>) = blk_ok pcb"
  "blk_ok (pcb\<lparr>rttest := x10\<rparr>) = blk_ok pcb"
  "blk_ok (pcb\<lparr>rto := x11\<rparr>) = blk_ok pcb"
  "blk_ok (pcb\<lparr>nrtx := x12\<rparr>) = blk_ok pcb"
  "blk_ok (pcb\<lparr>lastack := x13\<rparr>) = blk_ok pcb"
  "blk_ok (pcb\<lparr>cwnd := x14\<rparr>) = blk_ok pcb"
  "blk_ok (pcb\<lparr>ssthresh := x15\<rparr>) = blk_ok pcb"
  "blk_ok (pcb\<lparr>snd_nxt := x16\<rparr>) = blk_ok pcb"
  "blk_ok (pcb\<lparr>snd_wnd := x17\<rparr>) = blk_ok pcb"
  "blk_ok (pcb\<lparr>snd_wl1 := x18\<rparr>) = blk_ok pcb"
  "blk_ok (pcb\<lparr>snd_lbb := x19\<rparr>) = blk_ok pcb"
  "blk_ok (pcb\<lparr>snd_buf := x20\<rparr>) = blk_ok pcb"
  "blk_ok (pcb\<lparr>snd_queuelen := x21\<rparr>) = blk_ok pcb"
  "blk_ok (pcb\<lparr>unsent := x22\<rparr>) = blk_ok pcb"
  "blk_ok (pcb\<lparr>unacked := x23\<rparr>) = blk_ok pcb"
  "blk_ok (pcb\<lparr>ooseq := x24\<rparr>) = blk_ok pcb"
  "blk_ok (pcb\<lparr>refused_data := x25\<rparr>) = blk_ok pcb"
  "blk_ok (pcb\<lparr>cb_connected := x26\<rparr>) = blk_ok pcb"
  "blk_ok (pcb\<lparr>cb_accept := x27\<rparr>) = blk_ok pcb"
  "blk_ok (pcb\<lparr>callback_arg := x28\<rparr>) = blk_ok pcb"
  "blk_ok (pcb\<lparr>so_options := x29\<rparr>) = blk_ok pcb"
  "blk_ok (pcb\<lparr>persist_cnt := x30\<rparr>) = blk_ok pcb"
  "blk_ok (pcb\<lparr>keep_cnt_sent := x31\<rparr>) = blk_ok pcb"
  "blk_ok (tcp_setprio pcb x32) = blk_ok pcb" "blk_ok (tcp_arg pcb x33) = blk_ok pcb" "blk_ok (tcp_recv pcb x34) = blk_ok pcb"
  "blk_ok (tcp_sent pcb x35) = blk_ok pcb" "blk_ok (tcp_err pcb x36) = blk_ok pcb" "blk_ok (tcp_poll pcb x37 x38) = blk_ok pcb"
  by (simp_all add: blk_ok_def tcp_setprio_def tcp_arg_def tcp_recv_def tcp_sent_def tcp_err_def tcp_poll_def)

lemma stack_ok_refused: "pcbs s a = Some pcb \<Longrightarrow> stack_ok s \<Longrightarrow> stack_ok (put_pcb a (pcb\<lparr>refused_data := d\<rparr>) s)"
  using stack_okD by fastforce

lemma blk_ok_kept: "kept pcb pcb' \<Longrightarrow> blk_ok pcb \<Longrightarrow> blk_ok pcb'"
  by (simp add: kept_def)

text \<open>Functions that send keep the stack and the block in order.\<close>

definition sends_ok :: "stack \<Rightarrow> tcp_pcb \<Rightarrow> stack \<Rightarrow> tcp_pcb \<Rightarrow> bool" where
  "sends_ok s pcb s' pcb' \<longleftrightarrow> (stack_ok s \<longrightarrow> stack_ok s') \<and> (blk_ok pcb \<longrightarrow> blk_ok pcb')"

lemma sends_okI: "frame s' = frame s \<and> kept pcb pcb' \<Longrightarrow> sends_ok s pcb s' pcb'"
  using stack_ok_frame [of s' s] blk_ok_kept [of pcb pcb'] by (auto simp: sends_ok_def)

lemma stack_ok_sent: "pcbs s a = Some pcb \<Longrightarrow> sends_ok s pcb s' pcb' \<Longrightarrow> stack_ok s \<Longrightarrow> stack_ok (put_pcb a pcb' s')"
  by (simp add: sends_ok_def stack_okD)

named_theorems ok "functions that keep the invariant of the stack"

lemma tcp_output_ok [ok]: "tcp_output s a pcb = Some (s', pcb', e) \<Longrightarrow> sends_ok s pcb s' pcb'"
  by (rule sends_okI) (rule tcp_output_st)

lemma tcp_ack_now_ok [ok]: "tcp_ack_now s a pcb = Some (s', pcb') \<Longrightarrow> sends_ok s pcb s' pcb'"
  by (rule sends_okI) (rule tcp_ack_now_st)

lemma tcp_ack_ok [ok]: "tcp_ack s a pcb = Some (s', pcb') \<Longrightarrow> sends_ok s pcb s' pcb'"
  by (rule sends_okI) (rule tcp_ack_st)

lemma tcp_rexmit_rto_ok [ok]: "tcp_rexmit_rto s a pcb = Some (s', pcb') \<Longrightarrow> sends_ok s pcb s' pcb'"
  by (rule sends_okI) (rule tcp_rexmit_rto_st)

lemma tcp_enqueue_ok [ok]: "tcp_enqueue s pcb arg len fl afl opt = Some (s', pcb', e) \<Longrightarrow> sends_ok s pcb s' pcb'"
  by (rule sends_okI) (rule tcp_enqueue_st)

lemma tcp_send_ctrl_ok [ok]: "tcp_send_ctrl s pcb fl = Some (s', pcb', e) \<Longrightarrow> sends_ok s pcb s' pcb'"
  by (rule sends_okI) (rule tcp_send_ctrl_st)

lemma tcp_write_ok [ok]: "tcp_write s pcb data len fl = Some (s', pcb', e) \<Longrightarrow> sends_ok s pcb s' pcb'"
  by (rule sends_okI) (rule tcp_write_st)

lemma tcp_pcb_purge_blk: "tcp_pcb_purge s pcb = Some (s', pcb') \<Longrightarrow> blk_ok pcb' = blk_ok pcb"
  unfolding tcp_pcb_purge_def by (auto split: if_split_asm Option.bind_split_asm)

lemma tcp_pcb_purge_ok [ok]: "tcp_pcb_purge s pcb = Some (s', pcb') \<Longrightarrow> sends_ok s pcb s' pcb'"
  using tcp_pcb_purge_st [of s pcb s' pcb'] stack_ok_frame [of s' s] tcp_pcb_purge_blk [of s pcb s' pcb']
  by (simp add: sends_ok_def)

lemmas io_ok = pbuf_free_s_io [THEN stack_ok_frame] tcp_segs_free_io [THEN stack_ok_frame] tcp_rst_io [THEN stack_ok_frame]
  tcp_rst_reply_io [THEN stack_ok_frame] tcp_keepalive_io [THEN stack_ok_frame] tcp_zero_window_probe_io [THEN stack_ok_frame]
  memp_malloc_io [THEN stack_ok_frame] pbuf_header_s_io [THEN stack_ok_frame]

section \<open>The functions of \<^verbatim>\<open>tcp.c\<close>\<close>

lemma tcp_pcb_remove_ok [ok]: "tcp_pcb_remove s a = Some s' \<Longrightarrow> stack_ok s \<Longrightarrow> stack_ok s'"
  unfolding tcp_pcb_remove_def
  by (auto split: if_split_asm Option.bind_split_asm simp: sends_ok_def
      dest!: tcp_pcb_purge_ok tcp_ack_now_ok dest: stack_okD)

lemmas callbacks_okD = callbacks_ok_def [THEN iffD1, THEN conjunct1, rule_format]
  callbacks_ok_def [THEN iffD1, THEN conjunct2, THEN conjunct1, rule_format]
  callbacks_ok_def [THEN iffD1, THEN conjunct2, THEN conjunct2, THEN conjunct1, rule_format]
  callbacks_ok_def [THEN iffD1, THEN conjunct2, THEN conjunct2, THEN conjunct2, THEN conjunct1, rule_format]
  callbacks_ok_def [THEN iffD1, THEN conjunct2, THEN conjunct2, THEN conjunct2, THEN conjunct2, THEN conjunct1, rule_format]
  callbacks_ok_def [THEN iffD1, THEN conjunct2, THEN conjunct2, THEN conjunct2, THEN conjunct2, THEN conjunct2, rule_format]

lemma TCP_EVENT_ERR_ok: "TCP_EVENT_ERR cb s f arg e = Some s' \<Longrightarrow> callbacks_ok cb \<Longrightarrow> stack_ok s \<Longrightarrow> stack_ok s'"
  unfolding TCP_EVENT_ERR_def by (auto split: if_split_asm dest: callbacks_okD)

lemma tcp_abort_ok: "tcp_abort cb s a = Some s' \<Longrightarrow> callbacks_ok cb \<Longrightarrow> stack_ok s \<Longrightarrow> stack_ok s'"
  unfolding tcp_abort_def
  by (auto split: if_split_asm Option.bind_split_asm dest!: tcp_pcb_remove_ok io_ok TCP_EVENT_ERR_ok)

lemma tcp_kill_ok:
  "tcp_kill_prio cb s pr = Some s' \<Longrightarrow> callbacks_ok cb \<Longrightarrow> stack_ok s \<Longrightarrow> stack_ok s'"
  "tcp_kill_timewait cb s = Some s' \<Longrightarrow> callbacks_ok cb \<Longrightarrow> stack_ok s \<Longrightarrow> stack_ok s'"
  unfolding tcp_kill_prio_def tcp_kill_timewait_def
  by (auto split: if_split_asm Option.bind_split_asm dest!: tcp_abort_ok)

lemma tcp_alloc_ok: "tcp_alloc cb s pr = Some (s', a) \<Longrightarrow> callbacks_ok cb \<Longrightarrow> stack_ok s \<Longrightarrow> stack_ok s'"
  unfolding tcp_alloc_def tcp_next_iss_def Let_def
  by (auto split: if_split_asm Option.bind_split_asm prod.splits dest!: tcp_kill_ok io_ok)

lemma tcp_close_fin_ok: "tcp_close_fin s a pcb st = Some (s', e) \<Longrightarrow> stack_ok s \<Longrightarrow> blk_ok pcb \<Longrightarrow> stack_ok s'"
  unfolding tcp_close_fin_def
  by (auto simp: sends_ok_def split: if_split_asm Option.bind_split_asm dest!: tcp_send_ctrl_ok tcp_output_ok)

lemma tcp_close_ok: "tcp_close s a = Some (s', e) \<Longrightarrow> stack_ok s \<Longrightarrow> stack_ok s'"
  unfolding tcp_close_def
  by (auto split: option.splits tcp_state.splits Option.bind_split_asm dest!: tcp_pcb_remove_ok tcp_close_fin_ok dest: stack_okD)

lemma TCP_EVENT_RECV_ok:
  "TCP_EVENT_RECV cb s a p e = Some (s', r) \<Longrightarrow> callbacks_ok cb \<Longrightarrow> stack_ok s \<Longrightarrow> stack_ok s'"
  unfolding TCP_EVENT_RECV_def tcp_recv_null_def
  by (auto split: if_split_asm Option.bind_split_asm dest!: io_ok tcp_close_ok dest: callbacks_okD)

lemma recved_window:
  assumes "blk_ok pcb"
  shows "blk_ok (if unat (rcv_wnd pcb) + unat len > unat TCP_WND
                 then pcb\<lparr>rcv_wnd := TCP_WND, rcv_ann_wnd := TCP_WND\<rparr>
                 else let pcb = pcb\<lparr>rcv_wnd := rcv_wnd pcb + len\<rparr>
                      in if rcv_wnd pcb \<ge> mss pcb then pcb\<lparr>rcv_ann_wnd := rcv_wnd pcb\<rparr> else pcb)"
proof (cases "unat (rcv_wnd pcb) + unat len > unat TCP_WND")
  case False
  then have "unat (rcv_wnd pcb + len) = unat (rcv_wnd pcb) + unat len"
    by (simp add: unat_word_ariths TCP_WND_def)
  with False assms show ?thesis
    by (auto simp: blk_ok_def Let_def word_le_nat_alt)
qed (use assms in \<open>simp add: blk_ok_def\<close>)

lemma tcp_recved_ok: "tcp_recved s a pcb n = Some (s', pcb') \<Longrightarrow> sends_ok s pcb s' pcb'"
  unfolding tcp_recved_def Let_def [of "if unat (rcv_wnd pcb) + unat n > unat TCP_WND then _ else _"]
  using recved_window [of pcb n] unfolding sends_ok_def
  by (auto simp: sends_ok_def split: if_split_asm dest!: tcp_ack_ok tcp_ack_now_ok)

lemma tcp_new_port_ok: "tcp_new_port s = Some (s', p) \<Longrightarrow> stack_ok s' = stack_ok s"
  unfolding tcp_new_port_def by (auto split: Option.bind_split_asm)

lemma tcp_bind_ok: "tcp_bind s a ip port = Some (s', e) \<Longrightarrow> stack_ok s \<Longrightarrow> stack_ok s'"
  unfolding tcp_bind_def Let_def
  by (auto split: if_split_asm Option.bind_split_asm option.splits dest!: tcp_new_port_ok) (blast dest: stack_okD)+

lemma tcp_listen_ok: "tcp_listen_with_backlog s a = Some (s', l) \<Longrightarrow> stack_ok s \<Longrightarrow> stack_ok s'"
  unfolding tcp_listen_with_backlog_def Let_def
  by (auto split: if_split_asm Option.bind_split_asm prod.splits dest!: io_ok)

lemma tcp_eff_send_mss_le: "tcp_eff_send_mss s m ip = Some m' \<Longrightarrow> m' \<le> m"
  unfolding tcp_eff_send_mss_def by (auto split: if_split_asm Option.bind_split_asm)

lemma TCP_MSS_536: "(if TCP_MSS > 536 then 536 else TCP_MSS) \<le> TCP_MSS"
  by (simp add: TCP_MSS_def)

lemma tcp_connect_ok:
  assumes "tcp_connect s a ip port f = Some (s', e)" "stack_ok s"
  shows "stack_ok s'"
proof (cases ip)
  case None
  then show ?thesis
    using assms by (auto simp: tcp_connect_def split: if_split_asm Option.bind_split_asm)
next
  case (Some ip')
  obtain pcb where pcb: "pcbs s a = Some pcb"
    using assms(1) by (auto simp: tcp_connect_def split: Option.bind_split_asm)
  show ?thesis
  proof (cases "pcb_state pcb = CLOSED")
    case False
    with pcb show ?thesis
      using assms by (auto simp: tcp_connect_def)
  next
    case True
    define pcb0 where "pcb0 = pcb\<lparr>remote_ip := ip', remote_port := port\<rparr>"
    obtain s1 pcb1 where 1: "(if local_port pcb0 = 0
        then do { (s, lport) \<leftarrow> tcp_new_port s; Some (s, pcb0\<lparr>local_port := lport\<rparr>) } else Some (s, pcb0)) = Some (s1, pcb1)"
      using assms(1) pcb True Some unfolding pcb0_def tcp_connect_def Let_def by (auto split: Option.bind_split_asm)
    define s2 iss where "s2 = s1\<lparr>tcp_iss := tcp_iss s1 + tcp_ticks s1\<rparr>" and "iss = tcp_iss s1 + tcp_ticks s1"
    obtain m where m: "tcp_eff_send_mss s2 (if TCP_MSS > 536 then 536 else TCP_MSS) ip' = Some m"
      using assms(1) pcb True Some 1 unfolding pcb0_def tcp_connect_def s2_def Let_def tcp_next_iss_def
      by (auto split: Option.bind_split_asm)
    define pcb3 where "pcb3 = pcb1\<lparr>rcv_nxt := 0, snd_nxt := iss, lastack := iss - 1, snd_lbb := iss - 1, rcv_wnd := TCP_WND,
       rcv_ann_wnd := TCP_WND, snd_wnd := TCP_WND, mss := m, cwnd := 1, ssthresh := m * 10, pcb_state := SYN_SENT, cb_connected := f\<rparr>"
    define s3 where "s3 = s2\<lparr>tcp_bound_pcbs := TCP_RMV a (tcp_bound_pcbs s2), tcp_active_pcbs := TCP_REG a (tcp_active_pcbs s2)\<rparr>"
    have rest: "do { (s, pcb, e) \<leftarrow> tcp_enqueue s3 pcb3 None 0 TCP_SYN 0 (Some TCP_BUILD_MSS_OPTION);
           if e = ERR_OK
           then do { (s, pcb, _) \<leftarrow> tcp_output s a pcb; Some (put_pcb a pcb s, ERR_OK) }
           else Some (put_pcb a pcb s, e) } = Some (s', e)"
      using assms(1) pcb True Some 1 m
      unfolding pcb0_def tcp_connect_def s3_def pcb3_def s2_def iss_def Let_def tcp_next_iss_def by simp
    have "stack_ok s1 \<and> blk_ok pcb1"
      using 1 assms(2) stack_okD [OF pcb assms(2)] unfolding pcb0_def
      by (auto split: if_split_asm Option.bind_split_asm dest!: tcp_new_port_ok)
    moreover have "blk_ok pcb3"
      using calculation order_trans [OF tcp_eff_send_mss_le [OF m] TCP_MSS_536] by (simp add: blk_ok_def pcb3_def)
    ultimately show ?thesis
      using rest by (auto simp: s3_def s2_def sends_ok_def split: if_split_asm Option.bind_split_asm dest!: tcp_enqueue_ok tcp_output_ok)
  qed
qed

section \<open>The timers\<close>

lemma blk_ok_rto_backoff: "tcp_rto_backoff pcb = Some pcb' \<Longrightarrow> blk_ok pcb' = blk_ok pcb"
  unfolding tcp_rto_backoff_def Let_def
  by (auto split: if_split_asm Option.bind_split_asm)

lemma tcp_slowtmr_persist_ok: "tcp_slowtmr_persist s pcb = Some (s', pcb') \<Longrightarrow> sends_ok s pcb s' pcb'"
proof -
  have up: "blk_ok pcb \<Longrightarrow> persist_backoff pcb < 7 \<Longrightarrow> blk_ok (pcb\<lparr>persist_backoff := persist_backoff pcb + 1\<rparr>)" for pcb
    by (auto simp: blk_ok_def inc_le)
  assume "tcp_slowtmr_persist s pcb = Some (s', pcb')"
  then show ?thesis
    using up [of "pcb\<lparr>persist_cnt := 0\<rparr>"]
    unfolding tcp_slowtmr_persist_def Let_def sends_ok_def
    by (auto split: if_split_asm Option.bind_split_asm dest!: io_ok)
qed

lemma tcp_slowtmr_rexmit_ok: "tcp_slowtmr_rexmit s a pcb = Some (s', pcb') \<Longrightarrow> sends_ok s pcb s' pcb'"
  unfolding tcp_slowtmr_rexmit_def Let_def sends_ok_def
  by (auto simp: sends_ok_def split: if_split_asm Option.bind_split_asm dest!: blk_ok_rto_backoff tcp_rexmit_rto_ok)

lemma tcp_slowtmr_rtx_ok: "tcp_slowtmr_rtx s a pcb = Some (s', pcb', r) \<Longrightarrow> sends_ok s pcb s' pcb'"
  unfolding tcp_slowtmr_rtx_def
  by (auto split: if_split_asm Option.bind_split_asm dest!: tcp_slowtmr_persist_ok tcp_slowtmr_rexmit_ok simp: sends_ok_def)

lemma tcp_slowtmr_keepalive_ok:
  "tcp_slowtmr_keepalive cb s a = Some s' \<Longrightarrow> callbacks_ok cb \<Longrightarrow> stack_ok s \<Longrightarrow> stack_ok s'"
  unfolding tcp_slowtmr_keepalive_def Let_def
  by (auto split: if_split_asm Option.bind_split_asm dest!: tcp_abort_ok io_ok dest: stack_okD)

lemma tcp_slowtmr_drop_ok:
  "tcp_slowtmr_drop cb s prev a = Some (s', n) \<Longrightarrow> callbacks_ok cb \<Longrightarrow> stack_ok s \<Longrightarrow> stack_ok s'"
  unfolding tcp_slowtmr_drop_def Let_def
  by (auto simp: sends_ok_def split: Option.bind_split_asm dest!: tcp_pcb_purge_ok TCP_EVENT_ERR_ok dest: stack_okD)

lemma tcp_slowtmr_poll_ok:
  assumes "tcp_slowtmr_poll cb s a e = Some (s', e', n)" "callbacks_ok cb" "stack_ok s"
  shows "stack_ok s'"
proof -
  obtain pcb where pcb: "pcbs s a = Some pcb"
    using assms(1) unfolding tcp_slowtmr_poll_def by (auto split: Option.bind_split_asm)
  have blk: "blk_ok (pcb\<lparr>polltmr := x\<rparr>)" for x
    using stack_okD [OF pcb assms(3)] by simp
  have put: "stack_ok (put_pcb a (pcb\<lparr>polltmr := 0\<rparr>) s)"
    using blk assms(3) by simp
  define poll where "poll = (if cb_poll pcb \<noteq> 0
    then on_poll cb (cb_poll pcb) (put_pcb a (pcb\<lparr>polltmr := 0\<rparr>) s) (callback_arg pcb) a
    else Some (put_pcb a (pcb\<lparr>polltmr := 0\<rparr>) s, e))"
  have poll: "stack_ok s1" if "poll = Some (s1, e1)" for s1 e1
    using that put callbacks_okD(5) [OF assms(2) put] unfolding poll_def by (auto split: if_split_asm)
  have out: "stack_ok (put_pcb a pcb2 s2)"
    if "poll = Some (s1, e1)" "pcbs s1 a = Some pcb1" "tcp_output s1 a pcb1 = Some (s2, pcb2, r)" for s1 e1 pcb1 s2 pcb2 r
    using tcp_output_ok [OF that(3)] poll [OF that(1)] stack_okD [OF that(2) poll [OF that(1)]] by (simp add: sends_ok_def)
  have "tcp_slowtmr_poll cb s a e = do {
       (s, e) \<leftarrow> (if polltmr pcb + 1 \<ge> pollinterval pcb
         then do {
           (s, e) \<leftarrow> poll;
           if e = ERR_OK
           then do { pcb \<leftarrow> pcbs s a; (s, pcb, _) \<leftarrow> tcp_output s a pcb; Some (put_pcb a pcb s, e) }
           else Some (s, e)
         }
         else Some (put_pcb a (pcb\<lparr>polltmr := polltmr pcb + 1\<rparr>) s, e));
       _ \<leftarrow> pcbs s a;
       Some (s, e, next_pcb a (tcp_active_pcbs s))
     }"
    unfolding tcp_slowtmr_poll_def poll_def using pcb by (simp add: Let_def)
  then show ?thesis
    using assms(1,3) blk by (auto split: Option.bind_split_asm if_split_asm intro: poll out)
qed

lemma tcp_slowtmr_pcb_ok:
  assumes "tcp_slowtmr_pcb cb s prev a e = Some (s', e', n)" "callbacks_ok cb" "stack_ok s"
  shows "stack_ok s'"
proof -
  obtain pcb s1 pcb1 r s2 pcb2 where 1: "pcbs s a = Some pcb" "tcp_slowtmr_rtx s a pcb = Some (s1, pcb1, r)"
      "tcp_slowtmr_keepalive cb (put_pcb a pcb1 s1) a = Some s2" "pcbs s2 a = Some pcb2"
    using assms(1) unfolding tcp_slowtmr_pcb_def by (auto split: Option.bind_split_asm)
  obtain s3 pcb3 where 2: "(if ooseq pcb2 \<noteq> [] \<and> tcp_ticks s2 - tmr pcb2 \<ge> scast (rto pcb2) * 6
         then do { (s, _) \<leftarrow> tcp_segs_free s2 (ooseq pcb2); Some (s, pcb2\<lparr>ooseq := []\<rparr>) }
         else Some (s2, pcb2)) = Some (s3, pcb3)"
      "(if r \<or> tcp_slowtmr_expired (tcp_ticks (put_pcb a pcb3 s3)) pcb3
       then do { (s, nxt) \<leftarrow> tcp_slowtmr_drop cb (put_pcb a pcb3 s3) prev a; Some (s, e, prev, nxt) }
       else do { (s, e, nxt) \<leftarrow> tcp_slowtmr_poll cb (put_pcb a pcb3 s3) a e; Some (s, e, a, nxt) }) = Some (s', e', n)"
    using assms(1) 1 unfolding tcp_slowtmr_pcb_def Let_def by simp (erule bind2E)
  have "stack_ok (put_pcb a pcb1 s1)"
    using tcp_slowtmr_rtx_ok [OF 1(2)] assms(3) stack_okD [OF 1(1) assms(3)] by (simp add: sends_ok_def)
  then have s2: "stack_ok s2"
    by (rule tcp_slowtmr_keepalive_ok [OF 1(3) assms(2)])
  have "stack_ok s3 \<and> blk_ok pcb3"
    using 2(1) s2 stack_okD [OF 1(4) s2] by (auto split: if_split_asm Option.bind_split_asm dest!: io_ok)
  then show ?thesis
    using 2(2) assms(2) by (auto split: if_split_asm Option.bind_split_asm dest!: tcp_slowtmr_drop_ok tcp_slowtmr_poll_ok)
qed

lemma tcp_slowtmr_active_ok:
  "tcp_slowtmr_active cb s prev a e = Some s' \<Longrightarrow> callbacks_ok cb \<Longrightarrow> stack_ok s \<Longrightarrow> stack_ok s'"
proof (induction rule: tcp_slowtmr_active.raw_induct [rotated, consumes 1, case_names step])
  case (step loop cb s prev a e s')
  then show ?case
    by (auto split: if_split_asm Option.bind_split_asm dest!: tcp_slowtmr_pcb_ok)
qed

lemma tcp_slowtmr_tw_ok: "tcp_slowtmr_tw s as = Some s' \<Longrightarrow> stack_ok s \<Longrightarrow> stack_ok s'"
  by (induction as arbitrary: s)
    (fastforce simp: sends_ok_def split: if_split_asm Option.bind_split_asm dest!: tcp_pcb_purge_ok)+

lemma tcp_fasttmr_pcb_ok:
  assumes "tcp_fasttmr_pcb cb s a = Some (s', n)" "callbacks_ok cb" "stack_ok s"
  shows "stack_ok s'"
proof -
  obtain pcb where pcb: "pcbs s a = Some pcb"
    using assms(1) unfolding tcp_fasttmr_pcb_def by (auto split: Option.bind_split_asm)
  obtain s1 pcb1 where 1: "(if refused_data pcb \<noteq> NULL
         then do {
           (s, e) \<leftarrow> TCP_EVENT_RECV cb s a (refused_data pcb) ERR_OK;
           if e = ERR_OK then do { pcb \<leftarrow> pcbs s a; Some (put_pcb a (pcb\<lparr>refused_data := NULL\<rparr>) s) } else Some s
         }
         else Some s) = Some s1" "pcbs s1 a = Some pcb1"
    using assms(1) pcb unfolding tcp_fasttmr_pcb_def by (auto split: Option.bind_split_asm)
  have s1: "stack_ok s1"
  proof (cases "refused_data pcb = NULL")
    case False
    then obtain s2 e where 2: "TCP_EVENT_RECV cb s a (refused_data pcb) ERR_OK = Some (s2, e)"
        "(if e = ERR_OK then do { pcb \<leftarrow> pcbs s2 a; Some (put_pcb a (pcb\<lparr>refused_data := NULL\<rparr>) s2) } else Some s2) = Some s1"
      using 1(1) by (auto split: Option.bind_split_asm)
    have "stack_ok s2"
      using TCP_EVENT_RECV_ok [OF 2(1) assms(2,3)] .
    then show ?thesis
      using 2(2) by (auto split: if_split_asm Option.bind_split_asm dest: stack_okD)
  qed (use 1 assms(3) in simp)
  have "stack_ok (put_pcb a (pcb2\<lparr>pcb_flags := f\<rparr>) s2)" if "tcp_ack_now s1 a pcb1 = Some (s2, pcb2)" for s2 pcb2 f
    using tcp_ack_now_ok [OF that] s1 stack_okD [OF 1(2) s1] by (simp add: sends_ok_def)
  then show ?thesis
    using assms(1) pcb 1 s1 unfolding tcp_fasttmr_pcb_def by (auto split: if_split_asm Option.bind_split_asm)
qed

lemma tcp_fasttmr_from_ok:
  "tcp_fasttmr_from cb s a = Some s' \<Longrightarrow> callbacks_ok cb \<Longrightarrow> stack_ok s \<Longrightarrow> stack_ok s'"
proof (induction rule: tcp_fasttmr_from.raw_induct [rotated, consumes 1, case_names step])
  case (step loop cb s a s')
  then show ?case
    by (auto split: if_split_asm Option.bind_split_asm dest!: tcp_fasttmr_pcb_ok)
qed

lemma tcp_tmr_ok: "tcp_tmr cb s = Some s' \<Longrightarrow> callbacks_ok cb \<Longrightarrow> stack_ok s \<Longrightarrow> stack_ok s'"
  unfolding tcp_tmr_def tcp_fasttmr_def tcp_slowtmr_def Let_def
  by (auto split: if_split_asm Option.bind_split_asm dest!: tcp_fasttmr_from_ok tcp_slowtmr_active_ok tcp_slowtmr_tw_ok)

section \<open>The functions of \<^verbatim>\<open>tcp_in.c\<close>\<close>

lemma tcp_receive_ok: "tcp_receive s a v pcb = Some (s', v', pcb', acc) \<Longrightarrow> sends_ok s pcb s' pcb'"
  using tcp_receive_st [of s a v pcb s' v' pcb' acc] stack_ok_frame [of s' s] by (simp add: sends_ok_def data_state_def)

lemma tcp_passive_close_ok: "tcp_passive_close s a v pcb acc = Some (s', pcb') \<Longrightarrow> sends_ok s pcb s' pcb'"
  unfolding tcp_passive_close_def
  by (auto simp: sends_ok_def split: if_split_asm Option.bind_split_asm dest!: tcp_ack_now_ok)

lemma tcp_process_rst_ok: "tcp_process_rst v pcb = (v', pcb', e) \<Longrightarrow> blk_ok pcb' = blk_ok pcb"
  by (auto simp: tcp_process_rst_def Let_def split: if_split_asm)

lemma tcp_enter_timewait_ok: "tcp_enter_timewait s a pcb = Some s' \<Longrightarrow> stack_ok s \<Longrightarrow> blk_ok pcb \<Longrightarrow> stack_ok s'"
  unfolding tcp_enter_timewait_def Let_def
  by (auto simp: sends_ok_def split: Option.bind_split_asm dest!: tcp_ack_now_ok tcp_pcb_purge_ok)

lemma tcp_process_closing_ok:
  "tcp_process_closing s a v pcb st = Some (s', v') \<Longrightarrow> stack_ok s \<Longrightarrow> blk_ok pcb \<Longrightarrow> stack_ok s'"
  unfolding tcp_process_closing_def
  by (auto simp: sends_ok_def split: tcp_state.splits if_split_asm Option.bind_split_asm
      dest!: tcp_enter_timewait_ok tcp_ack_now_ok)

lemma tcp_process_synack_ok:
  assumes "tcp_process_synack s v pcb rseg segs = Some (s', pcb')"
  shows "sends_ok s pcb s' pcb'"
proof -
  define pcb0 where "pcb0 = pcb\<lparr>snd_buf := snd_buf pcb + 1, rcv_nxt := in_seqno v + 1, lastack := in_ackno v,
     snd_wnd := h_wnd (tcphdr v), snd_wl1 := in_seqno v - 1, pcb_state := ESTABLISHED\<rparr>"
  obtain pcb1 m where 1: "tcp_parseopt v pcb0 = Some pcb1" "tcp_eff_send_mss s (mss pcb1) (remote_ip pcb1) = Some m"
    using assms unfolding tcp_process_synack_def pcb0_def Let_def by (auto split: Option.bind_split_asm)
  have "blk_ok pcb \<longrightarrow> blk_ok pcb1"
    using tcp_parseopt_st [OF 1(1)] by (simp add: kept_def pcb0_def)
  moreover have "blk_ok pcb1 \<longrightarrow> blk_ok (pcb1\<lparr>mss := m\<rparr>)"
    using tcp_eff_send_mss_le [OF 1(2)] by (auto simp: blk_ok_def)
  ultimately show ?thesis
    using assms 1 unfolding tcp_process_synack_def pcb0_def Let_def sends_ok_def
    by (auto split: Option.bind_split_asm if_split_asm dest!: tcp_seg_free_io stack_ok_frame)
qed

lemma tcp_process_syn_sent_ok:
  assumes "tcp_process_syn_sent cb s a v pcb = Some s'" "callbacks_ok cb" "stack_ok s" "blk_ok pcb"
  shows "stack_ok s'"
proof -
  obtain synack where 1: "(if has (in_flags v) TCP_ACK \<and> has (in_flags v) TCP_SYN
         then (case unacked pcb of [] \<Rightarrow> None | rseg # _ \<Rightarrow> Some (in_ackno v = ntohl (h_seqno (s_hdr rseg)) + 1))
         else Some False) = Some synack"
    using assms(1) unfolding tcp_process_syn_sent_def bind_eq_Some_conv by blast
  show ?thesis
  proof (cases synack)
    case True
    obtain s1 pcb1 s2 r pcb2 s3 pcb3 where 2: "tcp_process_synack s v pcb (hd (unacked pcb)) (tl (unacked pcb)) = Some (s1, pcb1)"
        "(if cb_connected pcb1 \<noteq> 0 then on_connected cb (cb_connected pcb1) (put_pcb a pcb1 s1) (callback_arg pcb1) a ERR_OK
           else Some (put_pcb a pcb1 s1, ERR_OK)) = Some (s2, r)"
        "pcbs s2 a = Some pcb2" "tcp_ack_now s2 a pcb2 = Some (s3, pcb3)" "s' = put_pcb a pcb3 s3"
      using assms(1) 1 True unfolding tcp_process_syn_sent_def Let_def by (auto split: Option.bind_split_asm)
    have "stack_ok (put_pcb a pcb1 s1)"
      using tcp_process_synack_ok [OF 2(1)] assms(3,4) by (simp add: sends_ok_def)
    then have s2: "stack_ok s2"
      using 2(2) callbacks_okD(3) [OF assms(2)] by (auto split: if_split_asm)
    then show ?thesis
      using tcp_ack_now_ok [OF 2(4)] 2(5) stack_okD [OF 2(3) s2] by (simp add: sends_ok_def)
  next
    case False
    then show ?thesis
      using assms 1 unfolding tcp_process_syn_sent_def by (auto split: Option.bind_split_asm if_split_asm dest!: io_ok)
  qed
qed

lemma tcp_process_syn_rcvd_ok:
  assumes "tcp_process_syn_rcvd cb s a v pcb = Some (s', v', e)" "callbacks_ok cb" "stack_ok s" "blk_ok pcb"
  shows "stack_ok s'"
proof (cases "has (in_flags v) TCP_ACK \<and> \<not> has (in_flags v) TCP_RST \<and> TCP_SEQ_BETWEEN (in_ackno v) (lastack pcb + 1) (snd_nxt pcb)")
  case False
  then show ?thesis
    using assms unfolding tcp_process_syn_rcvd_def by (auto split: Option.bind_split_asm if_split_asm dest!: io_ok)
next
  case True
  define pcb0 where "pcb0 = pcb\<lparr>pcb_state := ESTABLISHED\<rparr>"
  obtain s1 r where 1: "TCP_EVENT_ACCEPT cb (put_pcb a pcb0 s) a pcb0 = Some (s1, r)"
    and 2: "(if r \<noteq> ERR_OK then do { s \<leftarrow> tcp_abort cb s1 a; Some (s, v, ERR_ABRT) }
             else do {
               pcb \<leftarrow> pcbs s1 a;
               let old_cwnd = cwnd pcb;
               (s, v, pcb, accepted_inseq) \<leftarrow> tcp_receive s1 a v pcb;
               let pcb = pcb\<lparr>cwnd := (if old_cwnd = 1 then mss pcb * 2 else mss pcb)\<rparr>;
               (s, pcb) \<leftarrow> tcp_passive_close s a v pcb accepted_inseq;
               Some (put_pcb a pcb s, v, ERR_OK)
             }) = Some (s', v', e)"
    using assms(1) True unfolding tcp_process_syn_rcvd_def Let_def [of pcb0, symmetric] pcb0_def
    by (simp only: simp_thms if_True Let_def [of "pcb\<lparr>pcb_state := ESTABLISHED\<rparr>"]) (erule bind2E)
  have put: "stack_ok (put_pcb a pcb0 s)"
    using assms(3,4) by (simp add: pcb0_def)
  then have s1: "stack_ok s1"
    using 1 callbacks_okD(4) [OF assms(2) put] by (auto simp: TCP_EVENT_ACCEPT_def split: if_split_asm)
  show ?thesis
  proof (cases "r = ERR_OK")
    case False
    with 2 s1 show ?thesis
      using tcp_abort_ok [OF _ assms(2)] by (auto split: Option.bind_split_asm)
  next
    case ok: True
    obtain pcb1 s2 v2 pcb2 acc s3 pcb3 where 3: "pcbs s1 a = Some pcb1" "tcp_receive s1 a v pcb1 = Some (s2, v2, pcb2, acc)"
        "tcp_passive_close s2 a v2 (pcb2\<lparr>cwnd := (if cwnd pcb1 = 1 then mss pcb2 * 2 else mss pcb2)\<rparr>) acc = Some (s3, pcb3)"
        "s' = put_pcb a pcb3 s3"
      using 2 ok by (auto simp: Let_def split: Option.bind_split_asm)
    show ?thesis
      using tcp_receive_ok [OF 3(2)] tcp_passive_close_ok [OF 3(3)] 3(4) s1 stack_okD [OF 3(1) s1]
      by (simp add: sends_ok_def)
  qed
qed

lemma tcp_process_ok:
  assumes "tcp_process cb s a v = Some (s', v', e)" "callbacks_ok cb" "stack_ok s"
  shows "stack_ok s'"
proof -
  obtain pcb where pcb: "pcbs s a = Some pcb"
    using assms(1) unfolding tcp_process_def by (auto split: Option.bind_split_asm)
  have blk: "blk_ok pcb" "blk_ok (heard s pcb)"
    using stack_okD [OF pcb assms(3)] by (simp_all add: heard_def)
  show ?thesis
    using assms(1) pcb
  proof (cases rule: tcp_process_cases)
    case (rst pcb')
    then show ?thesis
      using tcp_process_rst_ok [OF rst(2)] assms(3) blk by simp
  next
    case syn_sent
    then show ?thesis
      using tcp_process_syn_sent_ok [OF _ assms(2,3) blk(2)] by blast
  next
    case syn_rcvd
    then show ?thesis
      using tcp_process_syn_rcvd_ok [OF _ assms(2,3) blk(2)] by blast
  next
    case idle
    then show ?thesis
      using assms(3) blk by simp
  next
    case (data s1 pcb1 acc s2 pcb2)
    then show ?thesis
      using tcp_receive_ok [OF data(3)] tcp_passive_close_ok [OF data(4)] assms(3) blk by (simp add: sends_ok_def)
  next
    case (closing s1 v1 pcb1 acc)
    then show ?thesis
      using tcp_receive_ok [OF closing(3)] tcp_process_closing_ok [OF closing(4)] assms(3) blk by (simp add: sends_ok_def)
  qed
qed

section \<open>Input\<close>

lemma tcp_timewait_input_ok:
  assumes "tcp_timewait_input s a v = Some s'" "stack_ok s"
  shows "stack_ok s'"
proof -
  obtain pcb where pcb: "pcbs s a = Some pcb"
    using assms(1) unfolding tcp_timewait_input_def by (auto split: Option.bind_split_asm)
  show ?thesis
    using assms pcb stack_okD [OF pcb assms(2)] unfolding tcp_timewait_input_def Let_def
    by (auto simp: sends_ok_def split: if_split_asm Option.bind_split_asm dest!: tcp_ack_now_ok tcp_output_ok)
qed

lemma tcp_listen_input_ok:
  assumes "tcp_listen_input cb s b v = Some (s', e)" "callbacks_ok cb" "stack_ok s"
  shows "stack_ok s'"
proof (cases "has (in_flags v) TCP_ACK \<or> \<not> has (in_flags v) TCP_SYN")
  case True
  with assms show ?thesis
    unfolding tcp_listen_input_def by (auto split: if_split_asm Option.bind_split_asm dest!: io_ok)
next
  case False
  then obtain l0 s1 n where l0: "lpcbs s b = Some l0" and 1: "tcp_alloc cb s (l_prio l0) = Some (s1, n)"
    using assms(1) unfolding tcp_listen_input_def by (auto split: Option.bind_split_asm)
  have s1: "stack_ok s1"
    using tcp_alloc_ok [OF 1 assms(2,3)] .
  show ?thesis
  proof (cases "n = NULL")
    case True
    with False l0 1 assms(1) s1 show ?thesis unfolding tcp_listen_input_def by simp
  next
    case n: False
    with False l0 1 assms(1) obtain npcb0 l where 2: "pcbs s1 n = Some npcb0" "lpcbs s1 b = Some l"
      unfolding tcp_listen_input_def by (auto split: Option.bind_split_asm)
    define npcb where "npcb = npcb0\<lparr>local_ip := iph_dest v, local_port := l_local_port l, remote_ip := iph_src v,
            remote_port := h_src (tcphdr v), pcb_state := SYN_RCVD, rcv_nxt := in_seqno v + 1,
            snd_wnd := h_wnd (tcphdr v), ssthresh := h_wnd (tcphdr v), snd_wl1 := in_seqno v - 1,
            callback_arg := l_callback_arg l, cb_accept := l_accept l,
            so_options := l_so_options l AND (0x0001 OR 0x0010 OR 0x0008 OR 0x0100 OR 0x0080)\<rparr>"
    define s2 where "s2 = s1\<lparr>tcp_active_pcbs := TCP_REG n (tcp_active_pcbs s1)\<rparr>"
    have "do { npcb \<leftarrow> tcp_parseopt v npcb;
          m \<leftarrow> tcp_eff_send_mss s2 (mss npcb) (remote_ip npcb);
          (s, npcb, _) \<leftarrow> tcp_enqueue s2 (npcb\<lparr>mss := m\<rparr>) None 0 (TCP_SYN OR TCP_ACK) 0 (Some TCP_BUILD_MSS_OPTION);
          (s, npcb, e) \<leftarrow> tcp_output s n npcb;
          Some (put_pcb n npcb s, e) } = Some (s', e)"
      using False l0 1 n 2 assms(1) unfolding tcp_listen_input_def npcb_def s2_def by (simp add: Let_def)
    then obtain npcb1 m s3 npcb2 r s4 npcb3 where 3: "tcp_parseopt v npcb = Some npcb1"
        "tcp_eff_send_mss s2 (mss npcb1) (remote_ip npcb1) = Some m"
        "tcp_enqueue s2 (npcb1\<lparr>mss := m\<rparr>) None 0 (TCP_SYN OR TCP_ACK) 0 (Some TCP_BUILD_MSS_OPTION) = Some (s3, npcb2, r)"
        "tcp_output s3 n npcb2 = Some (s4, npcb3, e)" "s' = put_pcb n npcb3 s4"
      by (auto split: Option.bind_split_asm)
    have "blk_ok npcb1"
      using tcp_parseopt_st [OF 3(1)] stack_okD [OF 2(1) s1] by (simp add: kept_def npcb_def)
    then have "blk_ok (npcb1\<lparr>mss := m\<rparr>)"
      using tcp_eff_send_mss_le [OF 3(2)] by (auto simp: blk_ok_def)
    then show ?thesis
      using tcp_enqueue_ok [OF 3(3)] tcp_output_ok [OF 3(4)] 3(5) s1 by (simp add: sends_ok_def s2_def)
  qed
qed

lemma tcp_input_deliver_ok:
  assumes "tcp_input_deliver cb s a v = Some s'" "callbacks_ok cb" "stack_ok s"
  shows "stack_ok s'"
proof -
  obtain pcb s1 e1 where pcb: "pcbs s a = Some pcb"
    and 1: "(if acked pcb > 0 \<and> cb_sent pcb \<noteq> 0
         then on_sent cb (cb_sent pcb) s (callback_arg pcb) a (acked pcb) else Some (s, ERR_OK)) = Some (s1, e1)"
    using assms(1) unfolding tcp_input_deliver_def by (auto split: Option.bind_split_asm)
  have s1: "stack_ok s1"
    using 1 callbacks_okD(1) [OF assms(2,3)] assms(3) by (auto split: if_split_asm)
  obtain s2 e2 s3 e3 where 2: "(if recv_data v \<noteq> NULL
         then do {
           s \<leftarrow> (if has (in_flags v) TCP_PSH
             then do { pb \<leftarrow> pbufs (mem s1) (recv_data v);
                       Some (s1\<lparr>mem := put_pbuf (recv_data v) (pb\<lparr>p_flags := p_flags pb OR 1\<rparr>) (mem s1)\<rparr>) }
             else Some s1);
           (s, e) \<leftarrow> TCP_EVENT_RECV cb s a (recv_data v) ERR_OK;
           if e \<noteq> ERR_OK
           then do { pcb \<leftarrow> pcbs s a; Some (put_pcb a (pcb\<lparr>refused_data := recv_data v\<rparr>) s, e) }
           else Some (s, e)
         }
         else Some (s1, e1)) = Some (s2, e2)"
      "(if has (recv_flags v) TF_GOT_FIN then TCP_EVENT_RECV cb s2 a NULL ERR_OK else Some (s2, e2)) = Some (s3, e3)"
      "(if e3 = ERR_OK
       then do { pcb \<leftarrow> pcbs s3 a; (s, pcb, _) \<leftarrow> tcp_output s3 a pcb; Some (put_pcb a pcb s) }
       else Some s3) = Some s'"
    using assms(1) pcb 1 unfolding tcp_input_deliver_def by simp (elim bind2E)
  have s2: "stack_ok s2"
    using 2(1) s1 by (auto split: if_split_asm Option.bind_split_asm intro: stack_ok_refused
        dest!: TCP_EVENT_RECV_ok [OF _ assms(2)])
  have s3: "stack_ok s3"
    using 2(2) s2 by (auto split: if_split_asm dest!: TCP_EVENT_RECV_ok [OF _ assms(2)])
  have "stack_ok (put_pcb a pcb2 s4)" if "pcbs s3 a = Some pcb1" "tcp_output s3 a pcb1 = Some (s4, pcb2, r)" for pcb1 s4 pcb2 r
    using tcp_output_ok [OF that(2)] s3 stack_okD [OF that(1) s3] by (simp add: sends_ok_def)
  then show ?thesis
    using 2(3) s3 by (auto split: if_split_asm Option.bind_split_asm)
qed

lemma tcp_input_active_ok:
  assumes "tcp_input_active cb s a v = Some s'" "callbacks_ok cb" "stack_ok s"
  shows "stack_ok s'"
  using assms unfolding tcp_input_active_def Let_def
  by (auto split: if_split_asm Option.bind_split_asm
      dest!: tcp_process_ok TCP_EVENT_ERR_ok tcp_pcb_remove_ok tcp_input_deliver_ok io_ok)

lemma tcp_input_pcb_found_ok:
  assumes "tcp_input_pcb_found cb s a v = Some s'" "callbacks_ok cb" "stack_ok s"
  shows "stack_ok s'"
  using assms unfolding tcp_input_pcb_found_def
  by (auto split: if_split_asm Option.bind_split_asm intro: stack_ok_refused
      dest!: TCP_EVENT_RECV_ok tcp_input_active_ok io_ok)

lemma tcp_input_demux_ok:
  assumes "tcp_input_demux cb s p v = Some s'" "callbacks_ok cb" "stack_ok s"
  shows "stack_ok s'"
  using assms unfolding tcp_input_demux_def
  by (auto split: if_split_asm Option.bind_split_asm
      dest!: tcp_input_pcb_found_ok tcp_timewait_input_ok tcp_listen_input_ok io_ok)

lemma tcp_input_ok:
  assumes "tcp_input cb s p inp = Some s'" "callbacks_ok cb" "stack_ok s"
  shows "stack_ok s'"
  using assms unfolding tcp_input_def tcp_input_drop_def
  by (auto split: if_split_asm Option.bind_split_asm dest!: tcp_input_demux_ok io_ok)

section \<open>The states of the stack\<close>

text \<open>What the application sets in a block that it has, and in a listening block.\<close>

inductive tcp_setting :: "tcp_pcb \<Rightarrow> tcp_pcb \<Rightarrow> bool" where
  prio: "tcp_setting pcb (tcp_setprio pcb pr)"
| arg: "tcp_setting pcb (tcp_arg pcb x)"
| recv: "tcp_setting pcb (tcp_recv pcb f)"
| sent: "tcp_setting pcb (tcp_sent pcb f)"
| err: "tcp_setting pcb (tcp_err pcb f)"
| poll: "tcp_setting pcb (tcp_poll pcb f n)"

inductive tcp_listen_setting :: "tcp_pcb_listen \<Rightarrow> tcp_pcb_listen \<Rightarrow> bool" where
  prio: "tcp_listen_setting l (tcp_setprio_listen l pr)"
| arg: "tcp_listen_setting l (tcp_arg_listen l x)"
| accept: "tcp_listen_setting l (tcp_accept l f)"

text \<open>A call of the application on a block that it has.\<close>

inductive app_call :: "stack \<Rightarrow> stack \<Rightarrow> bool" where
  setting: "pcbs s a = Some pcb \<Longrightarrow> tcp_setting pcb pcb' \<Longrightarrow> app_call s (put_pcb a pcb' s)"
| listen_setting: "lpcbs s a = Some l \<Longrightarrow> tcp_listen_setting l l' \<Longrightarrow> app_call s (s\<lparr>lpcbs := (lpcbs s)(a \<mapsto> l')\<rparr>)"
| send: "pcbs s a = Some pcb \<Longrightarrow> tcp_write s pcb data len fl = Some (s', pcb', e) \<Longrightarrow> app_call s (put_pcb a pcb' s')"
| out: "pcbs s a = Some pcb \<Longrightarrow> tcp_output s a pcb = Some (s', pcb', e) \<Longrightarrow> app_call s (put_pcb a pcb' s')"
| recved: "pcbs s a = Some pcb \<Longrightarrow> tcp_recved s a pcb n = Some (s', pcb') \<Longrightarrow> app_call s (put_pcb a pcb' s')"
| close: "tcp_close s a = Some (s', e) \<Longrightarrow> app_call s s'"

text \<open>One call into the stack: from the application, from the timer of the system, or with a packet.\<close>

inductive tcp_call :: "callbacks \<Rightarrow> stack \<Rightarrow> stack \<Rightarrow> bool" for cb where
  app: "app_call s s' \<Longrightarrow> tcp_call cb s s'"
| new: "tcp_new cb s = Some (s', a) \<Longrightarrow> tcp_call cb s s'"
| bind: "tcp_bind s a ip port = Some (s', e) \<Longrightarrow> tcp_call cb s s'"
| listen: "tcp_listen_with_backlog s a = Some (s', l) \<Longrightarrow> tcp_call cb s s'"
| connect: "tcp_connect s a ip port f = Some (s', e) \<Longrightarrow> tcp_call cb s s'"
| abort: "tcp_abort cb s a = Some s' \<Longrightarrow> tcp_call cb s s'"
| timer: "tcp_tmr cb s = Some s' \<Longrightarrow> tcp_call cb s s'"
| packet: "tcp_input cb s p inp = Some s' \<Longrightarrow> tcp_call cb s s'"

lemma app_call_ok: "app_call s s' \<Longrightarrow> stack_ok s \<Longrightarrow> stack_ok s'"
  by (induction rule: app_call.induct)
    (auto intro: stack_ok_sent tcp_write_ok tcp_output_ok tcp_recved_ok dest: tcp_close_ok stack_okD elim!: tcp_setting.cases tcp_listen_setting.cases)

text \<open>To the state of a block these calls do nothing but close it.\<close>

lemma app_change_trans: "app_change x y \<Longrightarrow> app_change y z \<Longrightarrow> app_change x z"
  unfolding app_change_def by (metis replicate_add run_append)

lemma app_change_kept: "kept pcb pcb' \<Longrightarrow> app_change pcb pcb'"
  by (simp add: app_change_same kept_def)

lemma app_change_setting: "tcp_setting pcb pcb' \<Longrightarrow> app_change pcb pcb'"
  by (auto intro!: app_change_same simp: tcp_setprio_def tcp_arg_def tcp_recv_def tcp_sent_def tcp_err_def tcp_poll_def elim!: tcp_setting.cases)

lemma put_pcb_elim:
  assumes "pcbs (put_pcb a pcb' s') b = Some x" "pcbs s' = pcbs s" "pcbs s a = Some pcb" "app_change pcb pcb'"
  shows "\<exists>y. pcbs s b = Some y \<and> app_change y x"
  using assms by (auto simp: put_pcb_def split: if_splits)

lemma tcp_recved_st: "tcp_recved s a pcb n = Some (s', pcb') \<Longrightarrow> frame s' = frame s \<and> pcb_state pcb' = pcb_state pcb \<and> ooseq pcb' = ooseq pcb"
  unfolding tcp_recved_def Let_def by (auto simp: kept_def split: if_split_asm dest!: tcp_ack_st tcp_ack_now_st)

lemma tcp_close_fin_st:
  assumes "tcp_close_fin s a pcb st = Some (s', e)" "tcp_step (pcb_state pcb) Close st" "pcbs s a = Some pcb" "pcbs s' b = Some x"
  shows "\<exists>y. pcbs s b = Some y \<and> app_change y x"
proof -
  obtain s1 pcb1 e1 where 1: "tcp_send_ctrl s pcb TCP_FIN = Some (s1, pcb1, e1)"
      "if e1 = ERR_OK then \<exists>s2 pcb2 e2. tcp_output s1 a (pcb1\<lparr>pcb_state := st\<rparr>) = Some (s2, pcb2, e2) \<and> s' = put_pcb a pcb2 s2
       else s' = put_pcb a pcb1 s1"
    using assms(1) unfolding tcp_close_fin_def by (auto split: Option.bind_split_asm if_split_asm)
  note k = tcp_send_ctrl_st [OF 1(1)]
  show ?thesis
  proof (cases "e1 = ERR_OK")
    case False
    then show ?thesis
      using 1(2) k frameD(9) [of s1 s] assms(3,4) app_change_kept put_pcb_elim by metis
  next
    case True
    then obtain s2 pcb2 e2 where 2: "tcp_output s1 a (pcb1\<lparr>pcb_state := st\<rparr>) = Some (s2, pcb2, e2)" "s' = put_pcb a pcb2 s2"
      using 1(2) by auto
    have "pcb_state pcb2 = st" "ooseq pcb2 = ooseq pcb"
      using tcp_output_st [OF 2(1)] k by (simp_all add: kept_def)
    moreover have "tcp_run (pcb_state pcb) (replicate 1 Close) st"
      using assms(2) by auto
    ultimately have "app_change pcb pcb2"
      unfolding app_change_def by metis
    moreover have "pcbs s2 = pcbs s"
      using tcp_output_st [OF 2(1)] k frameD(9) by metis
    ultimately show ?thesis
      using put_pcb_elim 2(2) assms(3,4) by metis
  qed
qed

lemma tcp_pcb_remove_other: "tcp_pcb_remove s a = Some s' \<Longrightarrow> b \<noteq> a \<Longrightarrow> pcbs s' b = pcbs s b"
  unfolding tcp_pcb_remove_def
  by (auto simp: put_pcb_def split: if_split_asm Option.bind_split_asm dest!: tcp_pcb_purge_st tcp_ack_now_st frameD(9))

lemma tcp_close_st:
  assumes "tcp_close s a = Some (s', e)" "pcbs s' b = Some x"
  shows "\<exists>y. pcbs s b = Some y \<and> app_change y x"
proof (cases "pcbs s a")
  case None
  then show ?thesis
    using assms by (auto simp: tcp_close_def split: option.splits)
next
  case (Some pcb)
  have fin: ?thesis if "tcp_close_fin s a pcb st = Some (s', e)" "tcp_step (pcb_state pcb) Close st" for st
    by (rule tcp_close_fin_st [OF that Some assms(2)])
  show ?thesis
    using assms Some fin
    by (auto simp: tcp_close_def memp_free_pcb_def tcp_step_simps split: tcp_state.splits Option.bind_split_asm if_split_asm
        dest!: tcp_pcb_remove_other [where b = b]) (metis app_change_refl)
qed

lemma app_call_changes:
  assumes "app_call s s'" "pcbs s' b = Some x"
  shows "\<exists>y. pcbs s b = Some y \<and> app_change y x"
  using assms
proof (cases rule: app_call.cases)
  case (setting a pcb pcb')
  then show ?thesis
    using assms(2) put_pcb_elim [of a pcb' s b x s pcb] app_change_setting by blast
next
  case (listen_setting a l l')
  then show ?thesis
    using assms(2) by auto
next
  case (send a pcb data len fl s1 pcb' e)
  then show ?thesis
    using assms(2) put_pcb_elim [of a pcb' s1 b x s pcb] tcp_write_st [OF send(3)] frameD(9) app_change_kept by blast
next
  case (out a pcb s1 pcb' e)
  then show ?thesis
    using assms(2) put_pcb_elim [of a pcb' s1 b x s pcb] tcp_output_st [OF out(3)] frameD(9) app_change_kept by blast
next
  case (recved a pcb n s1 pcb')
  then show ?thesis
    using assms(2) put_pcb_elim [of a pcb' s1 b x s pcb] tcp_recved_st [OF recved(3)] frameD(9) [of s1 s] app_change_same [of pcb' pcb] by blast
next
  case (close a e)
  then show ?thesis
    using tcp_close_st assms(2) by blast
qed

lemma app_calls_change:
  assumes "app_call\<^sup>*\<^sup>* s s'" "pcbs s' b = Some x"
  shows "\<exists>y. pcbs s b = Some y \<and> app_change y x"
  using assms
  by (induction arbitrary: x rule: rtranclp_induct) (fastforce dest: app_call_changes intro: app_change_trans)+

text \<open>Callbacks that only make such calls are as the theorem on the state diagram wants them, and keep the invariant.\<close>

definition raw_api :: "callbacks \<Rightarrow> bool" where
  "raw_api cb \<longleftrightarrow> (\<forall>f s arg a n s' r. on_sent cb f s arg a n = Some (s', r) \<longrightarrow> app_call\<^sup>*\<^sup>* s s')
     \<and> (\<forall>f s arg a p e s' r. on_recv cb f s arg a p e = Some (s', r) \<longrightarrow> app_call\<^sup>*\<^sup>* s s')
     \<and> (\<forall>f s arg a e s' r. on_connected cb f s arg a e = Some (s', r) \<longrightarrow> app_call\<^sup>*\<^sup>* s s')
     \<and> (\<forall>f s arg a e s' r. on_accept cb f s arg a e = Some (s', r) \<longrightarrow> app_call\<^sup>*\<^sup>* s s')
     \<and> (\<forall>f s arg a s' r. on_poll cb f s arg a = Some (s', r) \<longrightarrow> app_call\<^sup>*\<^sup>* s s')
     \<and> (\<forall>f s arg e s'. on_err cb f s arg e = Some s' \<longrightarrow> app_call\<^sup>*\<^sup>* s s')"

lemma app_calls_ok: "app_call\<^sup>*\<^sup>* s s' \<Longrightarrow> stack_ok s \<Longrightarrow> stack_ok s'"
  by (induction rule: rtranclp_induct) (auto intro: app_call_ok)

lemma app_calls_close: "raw_api cb \<Longrightarrow> closes_only cb \<and> leaves_freed cb \<and> callbacks_ok cb"
proof (intro conjI)
  assume api: "raw_api cb"
  show "closes_only cb"
    using api app_calls_change unfolding raw_api_def closes_only_def by (metis option.inject)
  show "leaves_freed cb"
    using api app_calls_change unfolding raw_api_def leaves_freed_def by (metis not_None_eq option.distinct(1))
  show "callbacks_ok cb"
    using api app_calls_ok unfolding raw_api_def callbacks_ok_def by meson
qed

text \<open>The states of a stack that started without control blocks. Between the calls the rest of the program
  works on the pbufs, so the memory may be any.\<close>

inductive tcp_reachable :: "callbacks \<Rightarrow> stack \<Rightarrow> bool" for cb where
  init: "pcbs s = Map.empty \<Longrightarrow> tcp_reachable cb s"
| call: "tcp_reachable cb s \<Longrightarrow> tcp_call cb s s' \<Longrightarrow> tcp_reachable cb s'"
| mem: "tcp_reachable cb s \<Longrightarrow> tcp_reachable cb (s\<lparr>mem := h\<rparr>)"

text \<open>An invariant of the control blocks is kept by every call, given callbacks that respect it.\<close>

locale tcp_invariant =
  fixes inv :: "stack \<Rightarrow> bool" and app :: "callbacks \<Rightarrow> bool"
  assumes none: "pcbs s = Map.empty \<Longrightarrow> inv s"
    and heap: "inv s \<Longrightarrow> inv (s\<lparr>mem := h\<rparr>)"
    and calls: "app cb \<Longrightarrow> inv s \<Longrightarrow> tcp_call cb s s' \<Longrightarrow> inv s'"
begin

lemma reachable_inv: "tcp_reachable cb s \<Longrightarrow> app cb \<Longrightarrow> inv s"
  by (induction rule: tcp_reachable.induct) (auto intro: none heap calls)

end

interpretation windows: tcp_invariant stack_ok callbacks_ok
proof
  fix s :: stack and cb s' h
  show "stack_ok s" if "pcbs s = Map.empty"
    using that by (simp add: stack_ok_def)
  show "stack_ok (s\<lparr>mem := h\<rparr>)" if "stack_ok s"
    using that by simp
  show "stack_ok s'" if "callbacks_ok cb" "stack_ok s" "tcp_call cb s s'"
    using that(3,1,2)
    by (cases rule: tcp_call.cases) (auto simp: tcp_new_def
        dest: app_call_ok tcp_alloc_ok tcp_bind_ok tcp_listen_ok tcp_connect_ok tcp_abort_ok tcp_tmr_ok tcp_input_ok)
qed

text \<open>C3. Whatever sequence of calls of the raw API, timers and packets a stack goes through, every control block keeps its
  windows and its timer in order: the announced window is at most the receive window, which is at most
  \<open>TCP_WND\<close> (so the arithmetic on them does not wrap), the segment size is at most \<open>TCP_MSS\<close>, and the persist
  timer reads its table inside its bounds. The calls are those of \<^verbatim>\<open>tcp.h\<close>: to create, bind, connect, listen, write, output, take
  data, close and abort, and to set the priority, the argument and the callbacks of connections and listening blocks. The
  callbacks of the application may call the stack and change control blocks, as long as they keep this; every sequence of calls does
  that set, write, output, take data on or close existing blocks (\<open>app_calls_close\<close>).\<close>

theorem control_blocks_in_bounds:
  assumes "tcp_reachable cb s" "callbacks_ok cb" "pcbs s a = Some pcb"
  shows "rcv_ann_wnd pcb \<le> rcv_wnd pcb \<and> rcv_wnd pcb \<le> TCP_WND \<and> mss pcb \<le> TCP_MSS
    \<and> (persist_backoff pcb > 0 \<longrightarrow> table tcp_persist_backoff (unat (persist_backoff pcb) - 1) \<noteq> None)"
proof -
  have "blk_ok pcb"
    using windows.reachable_inv [OF assms(1,2)] stack_okD [OF assms(3)] by blast
  then show ?thesis
    by (auto simp: blk_ok_def table_def tcp_persist_backoff_def word_le_nat_alt)
qed

lemma idle_callbacks_ok: "callbacks_ok idle_callbacks"
  by (simp add: callbacks_ok_def idle_callbacks_def)

text \<open>A server is set up: a block is created, gets its argument and its receive function and is bound to port 80, and the listening
  block that replaces it gets its accept function. A second block is created for a client.\<close>

definition server_setup :: "stack option" where
  "server_setup = do {
     (s, a) \<leftarrow> tcp_new nsc_callbacks (sample_stack (no_heap\<lparr>mem_ok := (\<lambda>p. True)\<rparr>));
     pcb \<leftarrow> pcbs s a;
     let s = put_pcb a (tcp_arg pcb 4) s;
     pcb \<leftarrow> pcbs s a;
     let s = put_pcb a (tcp_recv pcb 9) s;
     (s, _) \<leftarrow> tcp_bind s a None 80;
     (s, b) \<leftarrow> tcp_listen_with_backlog s a;
     l \<leftarrow> lpcbs s b;
     let s = s\<lparr>lpcbs := (lpcbs s)(b \<mapsto> tcp_accept l 5)\<rparr>;
     (s, c) \<leftarrow> tcp_new nsc_callbacks s;
     pcb \<leftarrow> pcbs s c;
     Some (put_pcb c (tcp_recv pcb 9) s)
   }"

lemma server_setup_reachable:
  assumes "server_setup = Some s"
  shows "tcp_reachable nsc_callbacks s"
proof -
  let ?s = "sample_stack (no_heap\<lparr>mem_ok := (\<lambda>p. True)\<rparr>)"
  have app: "tcp_reachable nsc_callbacks s'" if "tcp_reachable nsc_callbacks s" "app_call s s'" for s s'
    using that by (blast intro: tcp_reachable.call tcp_call.app)
  have set: "tcp_reachable nsc_callbacks (put_pcb a pcb' s)" if "tcp_reachable nsc_callbacks s" "pcbs s a = Some pcb" "tcp_setting pcb pcb'" for s a pcb pcb'
    using that by (blast intro: app app_call.setting)
  have "tcp_reachable nsc_callbacks ?s"
    by (rule tcp_reachable.init) (auto simp: sample_stack_def)
  moreover obtain s1 a x s2 e2 s3 b l s4 c y where 1: "tcp_new nsc_callbacks ?s = Some (s1, a)" "pcbs s1 a = Some x"
      "tcp_bind (put_pcb a (tcp_recv (tcp_arg x 4) 9) (put_pcb a (tcp_arg x 4) s1)) a None 80 = Some (s2, e2)"
      "tcp_listen_with_backlog s2 a = Some (s3, b)" "lpcbs s3 b = Some l"
      "tcp_new nsc_callbacks (s3\<lparr>lpcbs := (lpcbs s3)(b \<mapsto> tcp_accept l 5)\<rparr>) = Some (s4, c)" "pcbs s4 c = Some y"
      "s = put_pcb c (tcp_recv y 9) s4"
    using assms unfolding server_setup_def Let_def by (auto split: Option.bind_split_asm)
  ultimately have "tcp_reachable nsc_callbacks (put_pcb a (tcp_arg x 4) s1)"
    by (blast intro: set tcp_setting.arg tcp_reachable.call tcp_call.new)
  then have "tcp_reachable nsc_callbacks (put_pcb a (tcp_recv (tcp_arg x 4) 9) (put_pcb a (tcp_arg x 4) s1))"
    by (rule set) (simp, rule tcp_setting.recv)
  then have "tcp_reachable nsc_callbacks s3"
    using 1(3,4) by (blast intro: tcp_reachable.call tcp_call.bind tcp_call.listen)
  then have "tcp_reachable nsc_callbacks (s3\<lparr>lpcbs := (lpcbs s3)(b \<mapsto> tcp_accept l 5)\<rparr>)"
    using 1(5) by (blast intro: app app_call.listen_setting tcp_listen_setting.accept)
  then have "tcp_reachable nsc_callbacks s4"
    using 1(6) by (blast intro: tcp_reachable.call tcp_call.new)
  then show ?thesis
    unfolding 1(8) using 1(7) by (rule set) (rule tcp_setting.recv)
qed

lemma server_setup_runs:
  "\<exists>s pcb l. server_setup = Some s \<and> pcbs s 3 = Some pcb \<and> mss pcb = 536 \<and> lpcbs s 2 = Some l \<and> l_accept l = 5 \<and> l_local_port l = 80 \<and> l_callback_arg l = 4"
proof -
  have "map_option (\<lambda>s. (map_option mss (pcbs s 3), map_option (\<lambda>l. (l_accept l, l_local_port l, l_callback_arg l)) (lpcbs s 2))) server_setup
      = Some (Some 536, Some (5, 80, 4))"
    by code_simp
  then show ?thesis
    by auto
qed

lemma nsc_raw_api: "raw_api nsc_callbacks"
proof -
  have "app_call\<^sup>*\<^sup>* s (put_pcb a (tcp_recv pcb f) s)" if "pcbs s a = Some pcb" for s a pcb f
    using that by (blast intro: app_call.setting tcp_setting.recv)
  then show ?thesis
    by (auto simp: raw_api_def nsc_callbacks_def idle_callbacks_def split: Option.bind_split_asm)
qed

theorem control_blocks_in_bounds_witness:
  "\<exists>s pcb l. server_setup = Some s \<and> pcbs s 3 = Some pcb \<and> mss pcb = 536 \<and> lpcbs s 2 = Some l \<and> l_accept l = 5
     \<and> rcv_ann_wnd pcb \<le> rcv_wnd pcb \<and> rcv_wnd pcb \<le> TCP_WND \<and> mss pcb \<le> TCP_MSS"
proof -
  obtain s pcb l where 1: "server_setup = Some s" "pcbs s 3 = Some pcb" "mss pcb = 536" "lpcbs s 2 = Some l" "l_accept l = 5"
    using server_setup_runs by blast
  then show ?thesis
    using control_blocks_in_bounds [OF server_setup_reachable [OF 1(1)] _ 1(2)] app_calls_close [OF nsc_raw_api] by blast
qed

end
