(* ===== verification/Tcp_Ports.thy ===== *)
theory Tcp_Ports
  imports Tcp_State
begin

text \<open>
  Local ports: \<^verbatim>\<open>tcp_new_port\<close> hands out the next free port of its range, and \<^verbatim>\<open>tcp_bind\<close>
  never gives two sockets the same address.
\<close>

section \<open>Searching the lists\<close>

definition lists_live :: "stack \<Rightarrow> bool" where
  "lists_live s \<longleftrightarrow> (\<forall>a\<in>set (tcp_active_pcbs s) \<union> set (tcp_tw_pcbs s) \<union> set (tcp_bound_pcbs s). pcbs s a \<noteq> None)
     \<and> (\<forall>a\<in>set (tcp_listen_pcbs s). lpcbs s a \<noteq> None)"

lemma any_pcb_eq:
  "\<forall>a\<in>set as. pcbs s a \<noteq> None \<Longrightarrow> any_pcb P s as = Some (\<exists>a\<in>set as. P (the (pcbs s a)))"
  by (induction as) auto

lemma any_lpcb_eq:
  "\<forall>a\<in>set as. lpcbs s a \<noteq> None \<Longrightarrow> any_lpcb P s as = Some (\<exists>a\<in>set as. P (the (lpcbs s a)))"
  by (induction as) auto

lemmas list_searches = any_pcb_eq any_lpcb_eq

section \<open>New ports\<close>

definition port_used :: "stack \<Rightarrow> u16 \<Rightarrow> bool" where
  "port_used s port \<longleftrightarrow>
     (\<exists>a\<in>set (tcp_active_pcbs s) \<union> set (tcp_tw_pcbs s). local_port (the (pcbs s a)) = port)
     \<or> (\<exists>a\<in>set (tcp_listen_pcbs s). l_local_port (the (lpcbs s a)) = port)"

definition in_port_range :: "u16 \<Rightarrow> bool" where
  "in_port_range port \<longleftrightarrow> TCP_LOCAL_PORT_RANGE_START \<le> port \<and> port \<le> TCP_LOCAL_PORT_RANGE_END"

lemma tcp_port_in_use_eq: "lists_live s \<Longrightarrow> tcp_port_in_use s port = Some (port_used s port)"
  by (auto simp: tcp_port_in_use_def lists_live_def port_used_def list_searches)

text \<open>The ports form a cycle.\<close>

lemma in_port_range_iff: "in_port_range port \<longleftrightarrow> 4096 \<le> unat port \<and> unat port \<le> 32767"
  by (simp add: in_port_range_def TCP_LOCAL_PORT_RANGE_START_def TCP_LOCAL_PORT_RANGE_END_def word_le_nat_alt)

lemma next_port_cycle:
  assumes "in_port_range port"
  shows "unat (next_port port) = 4096 + (unat port - 4096 + 1) mod 28672"
proof -
  have "unat (port + 1) = unat port + 1"
    using assms by (simp add: unat_word_ariths in_port_range_iff)
  then show ?thesis
    using assms by (auto simp: next_port_def in_port_range_iff TCP_LOCAL_PORT_RANGE_START_def TCP_LOCAL_PORT_RANGE_END_def
        word_less_nat_alt mod_if)
qed

lemma next_port_range: "in_port_range port \<Longrightarrow> in_port_range (next_port port)"
  using next_port_cycle [of port] unfolding in_port_range_iff [of "next_port port"]
  using mod_less_divisor [of 28672 "unat port - 4096 + 1"] by linarith

lemma port_offset: "in_port_range port \<Longrightarrow> 4096 + (unat port - 4096) mod 28672 = unat port"
  by (subst mod_less) (auto simp: in_port_range_iff)

lemma next_ports_cycle:
  assumes "in_port_range port"
  shows "in_port_range ((next_port ^^ k) port) \<and> unat ((next_port ^^ k) port) = 4096 + (unat port - 4096 + k) mod 28672"
proof (induction k)
  case 0
  then show ?case using assms port_offset [OF assms] by simp
next
  case (Suc k)
  then show ?case
    using next_port_cycle [of "(next_port ^^ k) port"] next_port_range by (simp add: mod_Suc_eq)
qed

lemma next_ports_reach:
  assumes "in_port_range port" "in_port_range p"
  shows "\<exists>k. (next_port ^^ Suc k) port = p"
proof -
  define k where "k = 28671 + unat p - unat port"
  have "unat port - 4096 + Suc k = unat p - 4096 + 28672"
    using assms by (simp add: in_port_range_iff k_def)
  then have "unat ((next_port ^^ Suc k) port) = unat p"
    using next_ports_cycle [OF assms(1), of "Suc k"] port_offset [OF assms(2)] by (simp only: mod_add_self2)
  then show ?thesis by (metis word_unat_eq_iff)
qed

lemma tcp_new_port_from_step:
  assumes "lists_live s"
  shows "tcp_new_port_from s port = (if port_used s (next_port port) then tcp_new_port_from s (next_port port) else Some (next_port port))"
  by (subst tcp_new_port_from.simps) (simp add: tcp_port_in_use_eq assms)

lemma tcp_new_port_from_first:
  assumes "lists_live s" "\<not> port_used s ((next_port ^^ Suc k) port)" "\<forall>i<k. port_used s ((next_port ^^ Suc i) port)"
  shows "tcp_new_port_from s port = Some ((next_port ^^ Suc k) port)"
  using assms
proof (induction k arbitrary: port)
  case 0
  then show ?case by (simp add: tcp_new_port_from_step)
next
  case (Suc k)
  have "\<forall>i<k. port_used s ((next_port ^^ Suc i) (next_port port))"
    using Suc.prems(3) by (metis Suc_less_eq funpow_swap1 funpow.simps(2) comp_apply)
  then show ?case
    using Suc.prems Suc.IH [of "next_port port"] by (subst tcp_new_port_from_step) (auto simp: funpow_swap1)
qed

lemma tcp_new_port_from_free:
  "tcp_new_port_from s port = Some q \<Longrightarrow> lists_live s \<Longrightarrow> in_port_range port \<Longrightarrow> in_port_range q \<and> \<not> port_used s q"
proof (induction rule: tcp_new_port_from.raw_induct [rotated, consumes 1, case_names step])
  case (step loop s port q)
  then show ?case
    by (auto simp: Let_def tcp_port_in_use_eq next_port_range split: if_split_asm)
qed

text \<open>C31. \<^verbatim>\<open>tcp_new_port\<close> hands out the first port after the last one, in the cyclic order of the
  range 4096 to 0x7fff, that no active, TIME-WAIT or listening block uses, and it remembers it; only when the
  whole range is used does it not return (the loop of the source then runs for ever).\<close>

theorem tcp_new_port_first_free:
  assumes "lists_live s" "in_port_range (tcp_port s)"
  shows "case tcp_new_port s of
      None \<Rightarrow> \<forall>p. in_port_range p \<longrightarrow> port_used s p
    | Some (s', port) \<Rightarrow> s' = s\<lparr>tcp_port := port\<rparr> \<and> in_port_range port \<and> \<not> port_used s port
        \<and> (\<exists>k. port = (next_port ^^ Suc k) (tcp_port s) \<and> (\<forall>i<k. port_used s ((next_port ^^ Suc i) (tcp_port s))))"
proof (cases "\<forall>p. in_port_range p \<longrightarrow> port_used s p")
  case True
  then have "tcp_new_port_from s (tcp_port s) = None"
    using tcp_new_port_from_free [OF _ assms] by (cases "tcp_new_port_from s (tcp_port s)") auto
  with True show ?thesis by (simp add: tcp_new_port_def)
next
  case False
  then obtain p where p: "in_port_range p" "\<not> port_used s p" by blast
  then have ex: "\<exists>k. \<not> port_used s ((next_port ^^ Suc k) (tcp_port s))"
    using next_ports_reach [OF assms(2) p(1)] by metis
  define k where "k = (LEAST k. \<not> port_used s ((next_port ^^ Suc k) (tcp_port s)))"
  have k: "\<not> port_used s ((next_port ^^ Suc k) (tcp_port s))" "\<forall>i<k. port_used s ((next_port ^^ Suc i) (tcp_port s))"
    unfolding k_def using LeastI_ex [OF ex] not_less_Least by blast+
  then have "tcp_new_port_from s (tcp_port s) = Some ((next_port ^^ Suc k) (tcp_port s))"
    by (rule tcp_new_port_from_first [OF assms(1)])
  then show ?thesis
    using k next_ports_cycle [OF assms(2), of "Suc k"] by (auto simp: tcp_new_port_def simp del: funpow.simps)
qed

text \<open>Two active connections use the next two ports.\<close>

definition two_ports :: stack where
  "two_ports = (sample_stack no_heap)\<lparr>tcp_active_pcbs := [7, 8],
     pcbs := [7 \<mapsto> (tcp_fresh_pcb 0 0)\<lparr>local_port := 4097\<rparr>, 8 \<mapsto> (tcp_fresh_pcb 0 0)\<lparr>local_port := 4098\<rparr>]\<rparr>"

theorem tcp_new_port_first_free_witness:
  "tcp_new_port two_ports = Some (two_ports\<lparr>tcp_port := 4099\<rparr>, 4099) \<and> in_port_range 4099 \<and> \<not> port_used two_ports 4099
     \<and> (\<exists>k. 4099 = (next_port ^^ Suc k) 4096 \<and> (\<forall>i<k. port_used two_ports ((next_port ^^ Suc i) 4096)))"
proof -
  have live: "lists_live two_ports" "in_port_range (tcp_port two_ports)" "tcp_port two_ports = 4096"
    by (simp_all add: lists_live_def two_ports_def sample_stack_def in_port_range_iff)
  have use: "port_used two_ports p \<longleftrightarrow> p = 4097 \<or> p = 4098" for p
    by (auto simp: port_used_def two_ports_def sample_stack_def)
  have "tcp_new_port two_ports = Some (two_ports\<lparr>tcp_port := 4099\<rparr>, 4099)"
    by (simp add: tcp_new_port_def live(3) tcp_new_port_from_step [OF live(1)] use next_port_def
        TCP_LOCAL_PORT_RANGE_START_def TCP_LOCAL_PORT_RANGE_END_def)
  then show ?thesis
    using tcp_new_port_first_free [OF live(1,2)] live(3) by simp
qed

section \<open>Binding\<close>

text \<open>The sockets that own a local address: the bound and the listening ones.\<close>

definition sockets :: "stack \<Rightarrow> (ip_addr \<times> u16) set" where
  "sockets s = (\<lambda>a. (local_ip (the (pcbs s a)), local_port (the (pcbs s a)))) ` set (tcp_bound_pcbs s)
     \<union> (\<lambda>a. (l_local_ip (the (lpcbs s a)), l_local_port (the (lpcbs s a)))) ` set (tcp_listen_pcbs s)"

definition clash :: "ip_addr \<times> u16 \<Rightarrow> ip_addr \<times> u16 \<Rightarrow> bool" where
  "clash x y \<longleftrightarrow> snd x = snd y \<and> (ip_addr_isany (fst x) \<or> ip_addr_isany (fst y) \<or> fst x = fst y)"

lemma tcp_bind_tw_eq:
  "\<forall>a\<in>set as. pcbs s a \<noteq> None \<Longrightarrow>
   tcp_bind_tw s (Some ip) port as = Some (\<exists>a\<in>set as. local_port (the (pcbs s a)) = port \<and> local_ip (the (pcbs s a)) = ip)"
  by (induction as) auto

text \<open>What keeps an address from being bound.\<close>

definition taken :: "stack \<Rightarrow> ip_addr \<Rightarrow> u16 \<Rightarrow> bool" where
  "taken s ip port \<longleftrightarrow> (\<exists>x\<in>sockets s. clash x (ip, port))
    \<or> (\<exists>a\<in>set (tcp_active_pcbs s). clash (local_ip (the (pcbs s a)), local_port (the (pcbs s a))) (ip, port))
    \<or> (\<exists>a\<in>set (tcp_tw_pcbs s). local_port (the (pcbs s a)) = port \<and> local_ip (the (pcbs s a)) = ip)"

lemma ip_conflict_clash: "lport = port \<and> ip_conflict lip (Some ip) \<longleftrightarrow> clash (lip, lport) (ip, port)"
  by (auto simp: clash_def ip_conflict_def)

lemma sockets_clash:
  "(\<exists>x\<in>sockets s. clash x y) \<longleftrightarrow>
     (\<exists>a\<in>set (tcp_bound_pcbs s). clash (local_ip (the (pcbs s a)), local_port (the (pcbs s a))) y)
     \<or> (\<exists>a\<in>set (tcp_listen_pcbs s). clash (l_local_ip (the (lpcbs s a)), l_local_port (the (lpcbs s a))) y)"
  unfolding sockets_def by blast

lemma tcp_bind_in_use_eq:
  assumes "lists_live s"
  shows "tcp_bind_in_use s (Some ip) port = Some (taken s ip port)"
proof -
  have live: "\<forall>a\<in>set (tcp_active_pcbs s). pcbs s a \<noteq> None" "\<forall>a\<in>set (tcp_tw_pcbs s). pcbs s a \<noteq> None"
    "\<forall>a\<in>set (tcp_bound_pcbs s). pcbs s a \<noteq> None" "\<forall>a\<in>set (tcp_listen_pcbs s). lpcbs s a \<noteq> None"
    using assms unfolding lists_live_def by blast+
  show ?thesis
    unfolding tcp_bind_in_use_def taken_def sockets_clash ip_conflict_clash any_pcb_eq [OF live(1)] any_pcb_eq [OF live(3)]
      any_lpcb_eq [OF live(4)] tcp_bind_tw_eq [OF live(2)]
    by simp
qed

text \<open>C30. \<^verbatim>\<open>tcp_bind\<close> of a new socket (closed, not bound yet) to an address and a port that is not 0
  succeeds exactly when no bound, listening or active block has a clashing address (the same port, and the same address or one of
  them any address) and no TIME-WAIT block has exactly this address and port; an address that clashes with a TIME-WAIT
  block only through the any address is granted. Otherwise it returns \<open>ERR_USE\<close> and changes nothing. After a
  success the bound and listening sockets own the addresses they had and this one, which clashes with none of
  them. (So a port bound to one address can be bound to another one too, where \<^verbatim>\<open>doc/rawapi.txt\<close> says
  that the function returns \<open>ERR_USE\<close> whenever another connection is bound to the same port.)\<close>

theorem tcp_bind_exclusive:
  assumes "lists_live s" "pcbs s a = Some pcb" "pcb_state pcb = CLOSED" "local_ip pcb = 0" "port \<noteq> 0"
    "a \<notin> set (tcp_bound_pcbs s)"
  shows "if taken s ip port then tcp_bind s a (Some ip) port = Some (s, ERR_USE)
    else \<exists>s'. tcp_bind s a (Some ip) port = Some (s', ERR_OK) \<and> sockets s' = insert (ip, port) (sockets s)
      \<and> (\<forall>x\<in>sockets s. \<not> clash x (ip, port)) \<and> tcp_active_pcbs s' = tcp_active_pcbs s \<and> lists_live s'"
proof (cases "taken s ip port")
  case True
  then show ?thesis
    using assms by (simp add: tcp_bind_def tcp_bind_in_use_eq)
next
  case False
  define pcb' where "pcb' = (if ip_addr_isany ip then pcb else pcb\<lparr>local_ip := ip\<rparr>)\<lparr>local_port := port\<rparr>"
  define s1 where "s1 = put_pcb a pcb' s"
  define s' where "s' = s1\<lparr>tcp_bound_pcbs := TCP_REG a (tcp_bound_pcbs s1)\<rparr>"
  have bind: "tcp_bind s a (Some ip) port = Some (s', ERR_OK)"
    using assms False by (simp add: tcp_bind_def tcp_bind_in_use_eq s'_def s1_def pcb'_def Let_def)
  have addr: "local_ip pcb' = ip" "local_port pcb' = port"
    using assms(4) by (auto simp: pcb'_def ip_addr_isany_def)
  have old: "pcbs s' b = pcbs s b" if "b \<in> set (tcp_bound_pcbs s)" for b
    using that assms(6) by (auto simp: s'_def s1_def put_pcb_def)
  have "sockets s' = insert (ip, port) (sockets s)"
    using addr assms(6) old by (auto simp: sockets_def s'_def s1_def put_pcb_def TCP_REG_def image_iff)
  moreover have "lists_live s'"
    using assms(1) by (auto simp: lists_live_def s'_def s1_def put_pcb_def TCP_REG_def)
  moreover have "\<forall>x\<in>sockets s. \<not> clash x (ip, port)"
    using False by (auto simp: taken_def)
  ultimately show ?thesis
    using bind False by (simp add: s'_def s1_def put_pcb_def)
qed

text \<open>A fresh socket beside one that is bound to port 80 of every address.\<close>

definition one_bound :: stack where
  "one_bound = (sample_stack no_heap)\<lparr>tcp_bound_pcbs := [7],
     pcbs := [7 \<mapsto> (tcp_fresh_pcb 0 0)\<lparr>local_port := 80\<rparr>, 8 \<mapsto> tcp_fresh_pcb 0 0]\<rparr>"

theorem tcp_bind_exclusive_witness:
  "tcp_bind one_bound 8 (Some 0x0100000A) 80 = Some (one_bound, ERR_USE)
   \<and> (\<exists>s'. tcp_bind one_bound 8 (Some 0x0100000A) 8080 = Some (s', ERR_OK)
       \<and> sockets s' = {(0, 80), (0x0100000A, 8080)} \<and> lists_live s')"
proof -
  have live: "lists_live one_bound" "pcbs one_bound 8 = Some (tcp_fresh_pcb 0 0)" "8 \<notin> set (tcp_bound_pcbs one_bound)"
    by (simp_all add: lists_live_def one_bound_def sample_stack_def)
  have fresh: "pcb_state (tcp_fresh_pcb 0 0) = CLOSED" "local_ip (tcp_fresh_pcb 0 0) = 0"
    by (simp_all add: tcp_fresh_pcb_def)
  have sock: "sockets one_bound = {(0, 80)}"
    by (simp add: sockets_def one_bound_def sample_stack_def tcp_fresh_pcb_def)
  have "taken one_bound 0x0100000A 80" "\<not> taken one_bound 0x0100000A 8080"
    unfolding taken_def sock by (simp_all add: clash_def ip_addr_isany_def one_bound_def sample_stack_def)
  then show ?thesis
    using tcp_bind_exclusive [OF live(1,2) fresh _ live(3), of 80 "0x0100000A"]
      tcp_bind_exclusive [OF live(1,2) fresh _ live(3), of 8080 "0x0100000A"] sock by (auto simp: insert_commute)
qed

end
