(* ===== verification/Tcp_Timers.thy ===== *)
theory Tcp_Timers
  imports Tcp_State
begin

text \<open>
  The slow timer: blocks in TIME-WAIT are released after twice the maximum segment lifetime, and a
  connection that the keep-alive timer gives up is used after it was freed.
\<close>

unbundle bit_operations_syntax

section \<open>TIME-WAIT\<close>

text \<open>The ticks since the last segment of a block.\<close>

definition age :: "stack \<Rightarrow> ptr \<Rightarrow> nat" where
  "age s a = unat (tcp_ticks s - tmr (the (pcbs s a)))"

definition waiting :: "stack \<Rightarrow> bool" where
  "waiting s \<longleftrightarrow> distinct (tcp_tw_pcbs s) \<and> (\<forall>a\<in>set (tcp_tw_pcbs s). \<exists>pcb. pcbs s a = Some pcb \<and> pcb_state pcb = TIME_WAIT)"

text \<open>The stack without the blocks of a set.\<close>

definition let_go :: "ptr set \<Rightarrow> stack \<Rightarrow> stack" where
  "let_go A s = s\<lparr>tcp_tw_pcbs := filter (\<lambda>a. a \<notin> A) (tcp_tw_pcbs s), pcbs := (\<lambda>a. if a \<in> A then None else pcbs s a)\<rparr>"

lemma let_go_empty [simp]: "let_go {} s = s"
  by (simp add: let_go_def)

lemma let_go_simps [simp]:
  "tcp_tw_pcbs (let_go A s) = filter (\<lambda>a. a \<notin> A) (tcp_tw_pcbs s)" "tcp_ticks (let_go A s) = tcp_ticks s"
  "tcp_active_pcbs (let_go A s) = tcp_active_pcbs s" "a \<notin> A \<Longrightarrow> age (let_go A s) a = age s a"
  "pcbs (let_go A s) a = (if a \<in> A then None else pcbs s a)"
  by (simp_all add: let_go_def age_def)

lemma waiting_release: "waiting s \<Longrightarrow> waiting (let_go A s)"
  by (auto simp: waiting_def let_go_def)

lemma let_go_release: "let_go A (let_go B s) = let_go (A \<union> B) s"
proof -
  have "(\<lambda>a. if a \<in> A then None else if a \<in> B then None else pcbs s a) = (\<lambda>a. if a \<in> A \<union> B then None else pcbs s a)"
    by auto
  moreover have "filter (\<lambda>a. a \<notin> B \<and> a \<notin> A) (tcp_tw_pcbs s) = filter (\<lambda>a. a \<notin> A \<union> B) (tcp_tw_pcbs s)"
    by (rule filter_cong) auto
  ultimately show ?thesis
    by (simp add: let_go_def cong: if_cong)
qed

lemma let_go_head:
  assumes "distinct (tcp_tw_pcbs s)"
  shows "memp_free_pcb a (s\<lparr>tcp_tw_pcbs := remove1 a (tcp_tw_pcbs s)\<rparr>) = let_go {a} s"
proof -
  have "remove1 a (tcp_tw_pcbs s) = filter (\<lambda>b. b \<notin> {a}) (tcp_tw_pcbs s)"
    using distinct_remove1_removeAll [OF assms] by (auto simp: removeAll_filter_not_eq intro!: filter_cong)
  then show ?thesis
    by (simp add: let_go_def memp_free_pcb_def fun_upd_def)
qed

text \<open>The loop of the timer over some of the blocks.\<close>

lemma tcp_slowtmr_tw_release:
  assumes "waiting s" "distinct as" "set as \<subseteq> set (tcp_tw_pcbs s)"
  shows "tcp_slowtmr_tw s as = Some (let_go {a \<in> set as. age s a > 240} s)"
  using assms
proof (induction as arbitrary: s)
  case (Cons a as)
  then obtain pcb where pcb: "pcbs s a = Some pcb" "pcb_state pcb = TIME_WAIT"
    by (auto simp: waiting_def)
  have exp: "tcp_ticks s - tmr pcb > 240 \<longleftrightarrow> age s a > 240"
    by (simp add: age_def pcb word_less_nat_alt)
  show ?case
  proof (cases "age s a > 240")
    case False
    with Cons.prems have "tcp_slowtmr_tw s as = Some (let_go {b \<in> set as. age s b > 240} s)"
      by (intro Cons.IH) auto
    moreover have "{b \<in> set (a # as). age s b > 240} = {b \<in> set as. age s b > 240}"
      using False by auto
    ultimately show ?thesis
      using False pcb exp by simp
  next
    case True
    let ?s = "let_go {a} s"
    have "tcp_slowtmr_tw ?s as = Some (let_go {b \<in> set as. age ?s b > 240} ?s)"
      using Cons.prems by (intro Cons.IH waiting_release) auto
    moreover have "{b \<in> set as. age ?s b > 240} \<union> {a} = {b \<in> set (a # as). age s b > 240}"
      using Cons.prems(2) True by (auto simp: age_def let_go_def)
    moreover have "tcp_pcb_purge s pcb = Some (s, pcb)"
      using pcb by (simp add: tcp_pcb_purge_def)
    ultimately show ?thesis
      using True pcb exp Cons.prems(1) by (simp add: let_go_head waiting_def let_go_release)
  qed
qed simp

text \<open>Some calls of the slow timer.\<close>

primrec slow_ticks :: "callbacks \<Rightarrow> nat \<Rightarrow> stack \<Rightarrow> stack option" where
  "slow_ticks cb 0 s = Some s"
| "slow_ticks cb (Suc n) s = do { s \<leftarrow> slow_ticks cb n s; tcp_slowtmr cb s }"

definition later :: "nat \<Rightarrow> stack \<Rightarrow> stack" where
  "later n s = s\<lparr>tcp_ticks := tcp_ticks s + of_nat n\<rparr>"

lemma later_simps [simp]:
  "tcp_tw_pcbs (later n s) = tcp_tw_pcbs s" "tcp_active_pcbs (later n s) = tcp_active_pcbs s" "pcbs (later n s) = pcbs s"
  "waiting (later n s) = waiting s" "later 0 s = s"
  by (simp_all add: later_def waiting_def)

lemma later_age:
  assumes "age s a + n < 2 ^ 32"
  shows "age (later n s) a = age s a + n"
proof -
  have "tcp_ticks s + of_nat n - tmr (the (pcbs s a)) = (tcp_ticks s - tmr (the (pcbs s a))) + of_nat n"
    by simp
  then show ?thesis
    using assms unat_add_lem [of "tcp_ticks s - tmr (the (pcbs s a))" "of_nat n"]
    by (simp add: age_def later_def unat_of_nat diff_add_eq)
qed

lemma tcp_slowtmr_waiting:
  assumes "tcp_active_pcbs s = []" "waiting s"
  shows "tcp_slowtmr cb s = Some (let_go {a \<in> set (tcp_tw_pcbs s). age (later 1 s) a > 240} (later 1 s))"
proof -
  have "tcp_slowtmr cb s = tcp_slowtmr_tw (later 1 s) (tcp_tw_pcbs s)"
    using assms(1) by (simp add: tcp_slowtmr_def tcp_slowtmr_active.simps [of cb _ _ 0] later_def)
  then show ?thesis
    using assms(2) by (simp add: tcp_slowtmr_tw_release waiting_def)
qed

lemma later_release: "later 1 (let_go A (later n s)) = let_go A (later (Suc n) s)"
  by (rule stack.equality) (simp_all add: later_def let_go_def ac_simps cong: if_cong)

text \<open>C32. Blocks in TIME-WAIT are released by the slow timer after 2 MSL and no earlier: when no connection is
  active and no segment arrives, \<open>n\<close> ticks of the timer let_go exactly the blocks whose last segment is
  then more than 240 ticks old, with everything else in the stack unchanged but the tick counter. So after 241
  ticks no block is left in TIME-WAIT.\<close>

theorem timewait_expires:
  assumes "tcp_active_pcbs s = []" "waiting s" "\<forall>a\<in>set (tcp_tw_pcbs s). age s a \<le> 240"
  shows "slow_ticks cb n s = Some (let_go {a \<in> set (tcp_tw_pcbs s). age s a + n > 240} (later n s))
    \<and> (n > 240 \<longrightarrow> tcp_tw_pcbs (the (slow_ticks cb n s)) = [])"
proof -
  have run: "slow_ticks cb n s = Some (let_go {a \<in> set (tcp_tw_pcbs s). age s a + n > 240} (later n s))"
  proof (induction n)
    case 0
    have none: "{a \<in> set (tcp_tw_pcbs s). age s a + 0 > 240} = {}"
      using assms(3) by auto
    show ?case unfolding none by simp
  next
    case (Suc n)
    let ?R = "\<lambda>n. {a \<in> set (tcp_tw_pcbs s). age s a + n > 240}"
    let ?t = "let_go (?R n) (later n s)"
    have "tcp_slowtmr cb ?t = Some (let_go {a \<in> set (tcp_tw_pcbs ?t). age (later 1 ?t) a > 240} (later 1 ?t))"
      using assms(1,2) by (intro tcp_slowtmr_waiting) (simp_all add: waiting_release)
    also have "later 1 ?t = let_go (?R n) (later (Suc n) s)"
      by (rule later_release)
    also have "let_go {a \<in> set (tcp_tw_pcbs ?t). age (let_go (?R n) (later (Suc n) s)) a > 240} (let_go (?R n) (later (Suc n) s))
      = let_go ({a \<in> set (tcp_tw_pcbs ?t). age (let_go (?R n) (later (Suc n) s)) a > 240} \<union> ?R n) (later (Suc n) s)"
      by (rule let_go_release)
    also have "{a \<in> set (tcp_tw_pcbs ?t). age (let_go (?R n) (later (Suc n) s)) a > 240} \<union> ?R n = ?R (Suc n)"
      by (auto simp: later_age)
    finally show ?case
      using Suc.IH by simp
  qed
  then show ?thesis
    using assms(3) by (auto simp: filter_empty_conv)
qed

definition one_waiting :: stack where
  "one_waiting = (sample_stack no_heap)\<lparr>tcp_tw_pcbs := [7], pcbs := [7 \<mapsto> (tcp_fresh_pcb 0 0)\<lparr>pcb_state := TIME_WAIT\<rparr>]\<rparr>"

theorem timewait_expires_witness:
  "pcbs (the (slow_ticks idle_callbacks 240 one_waiting)) 7 \<noteq> None
   \<and> pcbs (the (slow_ticks idle_callbacks 241 one_waiting)) 7 = None
   \<and> tcp_tw_pcbs (the (slow_ticks idle_callbacks 241 one_waiting)) = []"
proof -
  have 1: "tcp_active_pcbs one_waiting = []" "waiting one_waiting" "tcp_tw_pcbs one_waiting = [7]" "age one_waiting 7 = 0"
      "pcbs one_waiting 7 \<noteq> None"
    by (simp_all add: one_waiting_def sample_stack_def waiting_def age_def tcp_fresh_pcb_def)
  then have 2: "\<forall>a\<in>set (tcp_tw_pcbs one_waiting). age one_waiting a \<le> 240"
    by simp
  show ?thesis
    using timewait_expires [OF 1(1,2) 2, of idle_callbacks 240] timewait_expires [OF 1(1,2) 2, of idle_callbacks 241] 1
    by simp
qed

section \<open>Keep-alive\<close>

text \<open>The idle time, in ticks, after which a connection is given up.\<close>

definition keep_limit :: "tcp_pcb \<Rightarrow> nat" where
  "keep_limit pcb = (unat (keep_idle pcb) + 9 * 75000) div 500"

text \<open>The retransmission part of the timer leaves what the keep-alive part reads.\<close>

definition same_idle :: "stack \<Rightarrow> tcp_pcb \<Rightarrow> stack \<Rightarrow> tcp_pcb \<Rightarrow> bool" where
  "same_idle s pcb s' pcb' \<longleftrightarrow> tcp_ticks s' = tcp_ticks s \<and> tmr pcb' = tmr pcb
    \<and> pcb_state pcb' = pcb_state pcb \<and> so_options pcb' = so_options pcb \<and> keep_idle pcb' = keep_idle pcb"

lemma same_idle_sends: "frame s' = frame s \<and> core pcb' = core pcb1 \<Longrightarrow> same_idle s pcb s pcb1 \<Longrightarrow> same_idle s pcb s' pcb'"
  using frameD(5) [of s' s] coreD(1,11,16,17) [of pcb' pcb1] by (simp add: same_idle_def)

lemma tcp_slowtmr_persist_core: "tcp_slowtmr_persist s pcb = Some (s', pcb') \<Longrightarrow> same_idle s pcb s' pcb'"
  unfolding tcp_slowtmr_persist_def Let_def
  by (auto simp: same_idle_def split: if_split_asm Option.bind_split_asm dest!: tcp_zero_window_probe_io frameD(5))

lemma tcp_rto_backoff_core: "tcp_rto_backoff pcb = Some pcb' \<Longrightarrow> same_idle s pcb s pcb'"
  unfolding tcp_rto_backoff_def Let_def by (auto simp: same_idle_def split: if_split_asm Option.bind_split_asm)

lemma tcp_slowtmr_rexmit_core:
  assumes "tcp_slowtmr_rexmit s a pcb = Some (s', pcb')"
  shows "same_idle s pcb s' pcb'"
proof -
  define pcb0 where "pcb0 = (if 0 \<le> sint (rtime pcb) then pcb\<lparr>rtime := rtime pcb + 1\<rparr> else pcb)"
  have 0: "same_idle s pcb s pcb0"
    by (simp add: same_idle_def pcb0_def)
  consider "s' = s" "pcb' = pcb0" | pcb1 where "tcp_rto_backoff pcb0 = Some pcb1" "tcp_rexmit_rto s a pcb1 = Some (s', pcb')"
    using assms unfolding tcp_slowtmr_rexmit_def pcb0_def [symmetric]
    by (auto simp: Let_def split: if_split_asm Option.bind_split_asm)
  then show ?thesis
  proof cases
    case 1
    with 0 show ?thesis by simp
  next
    case 2
    then show ?thesis
      using same_idle_sends [OF tcp_rexmit_rto_sends [OF 2(2)]] tcp_rto_backoff_core [OF 2(1), of s] 0
      by (simp add: same_idle_def)
  qed
qed

lemma tcp_slowtmr_rtx_core: "tcp_slowtmr_rtx s a pcb = Some (s', pcb', r) \<Longrightarrow> same_idle s pcb s' pcb'"
  unfolding tcp_slowtmr_rtx_def
  by (auto split: if_split_asm Option.bind_split_asm dest!: tcp_slowtmr_persist_core tcp_slowtmr_rexmit_core)
    (simp_all add: same_idle_def)

text \<open>C33. A connection whose keep-alive timer runs out is used after it was freed: \<^verbatim>\<open>tcp_slowtmr\<close>
  calls \<^verbatim>\<open>tcp_abort\<close>, which releases the control block, and goes on to read the block, so that in
  the model the timer has no result. The error callback is assumed not to bring the freed block back (\<^const>\<open>leaves_freed\<close>).\<close>

theorem keepalive_use_after_free:
  assumes "leaves_freed cb" "pcbs s a = Some pcb" "so_options pcb AND SOF_KEEPALIVE \<noteq> 0"
    "pcb_state pcb = ESTABLISHED \<or> pcb_state pcb = CLOSE_WAIT" "age s a > keep_limit pcb"
  shows "(\<forall>s1 pcb1 r s2. tcp_slowtmr_rtx s a pcb = Some (s1, pcb1, r) \<longrightarrow>
      tcp_slowtmr_keepalive cb (put_pcb a pcb1 s1) a = Some s2 \<longrightarrow> pcbs s2 a = None)
    \<and> tcp_slowtmr_pcb cb s prev a e = None"
proof -
  have freed: "pcbs s2 a = None"
    if "tcp_slowtmr_rtx s a pcb = Some (s1, pcb1, r)" "tcp_slowtmr_keepalive cb (put_pcb a pcb1 s1) a = Some s2" for s1 pcb1 r s2
  proof -
    have "tcp_abort cb (put_pcb a pcb1 s1) a = Some s2"
      using that(2) assms tcp_slowtmr_rtx_core [OF that(1)]
      by (auto simp: same_idle_def tcp_slowtmr_keepalive_def keep_limit_def age_def put_pcb_def split: if_split_asm)
    then show ?thesis
      by (rule tcp_abort_frees [OF assms(1)])
  qed
  moreover have "tcp_slowtmr_pcb cb s prev a e = None"
    using assms(2) freed unfolding tcp_slowtmr_pcb_def
    by (cases "tcp_slowtmr_rtx s a pcb") (auto split: Option.bind_split)
  ultimately show ?thesis by blast
qed

definition silent_pcb :: tcp_pcb where
  "silent_pcb = (tcp_fresh_pcb 0 0)\<lparr>pcb_state := ESTABLISHED, so_options := SOF_KEEPALIVE, remote_ip := 0x0200000A\<rparr>"

definition silent :: stack where
  "silent = (sample_stack no_heap)\<lparr>tcp_ticks := 20000, tcp_active_pcbs := [7], pcbs := [7 \<mapsto> silent_pcb]\<rparr>"

theorem keepalive_use_after_free_witness:
  "(\<exists>s2. tcp_slowtmr_rtx silent 7 silent_pcb = Some (silent, silent_pcb, False)
      \<and> tcp_slowtmr_keepalive idle_callbacks silent 7 = Some s2 \<and> pcbs s2 7 = None)
   \<and> tcp_slowtmr_pcb idle_callbacks silent NULL 7 ERR_OK = None"
proof -
  have k: "leaves_freed idle_callbacks"
    by (simp add: leaves_freed_def idle_callbacks_def)
  have 1: "pcbs silent 7 = Some silent_pcb" "so_options silent_pcb AND SOF_KEEPALIVE \<noteq> 0" "pcb_state silent_pcb = ESTABLISHED"
      "age silent 7 > keep_limit silent_pcb" "put_pcb 7 silent_pcb silent = silent"
    by (simp_all add: silent_def silent_pcb_def SOF_KEEPALIVE_def age_def keep_limit_def tcp_fresh_pcb_def sample_stack_def put_pcb_def)
  have 2: "tcp_slowtmr_rtx silent 7 silent_pcb = Some (silent, silent_pcb, False)"
    by (simp add: tcp_slowtmr_rtx_def tcp_slowtmr_rexmit_def silent_pcb_def tcp_fresh_pcb_def TCP_MAXRTX_def)
  have "tcp_slowtmr_keepalive idle_callbacks silent 7 \<noteq> None"
    by (simp add: tcp_slowtmr_keepalive_def silent_def silent_pcb_def SOF_KEEPALIVE_def tcp_fresh_pcb_def sample_stack_def
      tcp_abort_def tcp_pcb_remove_def tcp_pcb_purge_def has_def TCP_RMV_def TCP_EVENT_ERR_def put_pcb_def memp_free_pcb_def
      tcp_rst_def pbuf_alloc_s_def pbuf_alloc_def mem_malloc_pbuf_def no_heap_def Let_def)
  then obtain s2 where "tcp_slowtmr_keepalive idle_callbacks silent 7 = Some s2"
    by blast
  then show ?thesis
    using keepalive_use_after_free [OF k 1(1,2) _ 1(4), of NULL ERR_OK] 1 2 by auto
qed

end
