(* ===== verification/Tcp_Send.thy ===== *)
theory Tcp_Send
  imports Tcp_State
begin

text \<open>
  The queue of a sender. The unacknowledged and the unsent segments of a connection cover, in this order,
  one range of sequence numbers that ends where the next data will be queued; \<^verbatim>\<open>tcp_output\<close> and
  \<^verbatim>\<open>tcp_enqueue\<close> keep it that way.
\<close>

unbundle bit_operations_syntax

section \<open>Segments in order\<close>

definition seq_of :: "tcp_seg \<Rightarrow> u32" where
  "seq_of seg = ntohl (h_seqno (s_hdr seg))"

fun contiguous :: "u32 \<Rightarrow> tcp_seg list \<Rightarrow> u32 \<Rightarrow> bool" where
  "contiguous q [] r \<longleftrightarrow> q = r"
| "contiguous q (seg # segs) r \<longleftrightarrow> seq_of seg = q \<and> TCP_TCPLEN seg > 0 \<and> contiguous (seg_end seg) segs r"

definition span :: "tcp_seg list \<Rightarrow> nat" where
  "span segs = sum_list (map TCP_TCPLEN segs)"

lemma span_simps [simp]: "span [] = 0" "span (seg # segs) = TCP_TCPLEN seg + span segs" "span (xs @ ys) = span xs + span ys"
  by (simp_all add: span_def)

lemma seg_end_seq: "seg_end seg = seq_of seg + of_nat (TCP_TCPLEN seg)"
  by (simp add: seg_end_def seq_of_def)

lemma contiguous_append: "contiguous q (xs @ ys) r \<longleftrightarrow> (\<exists>m. contiguous q xs m \<and> contiguous m ys r)"
  by (induction xs arbitrary: q) auto

lemma contiguous_end: "contiguous q segs r \<Longrightarrow> r = q + of_nat (span segs)"
proof (induction segs arbitrary: q)
  case (Cons seg segs)
  then show ?case
    using Cons.IH [of "seg_end seg"] by (auto simp: seg_end_seq add.assoc)
qed simp

lemma contiguous_last:
  assumes "contiguous q segs r" "segs \<noteq> []"
  shows "seq_of (last segs) = r - of_nat (TCP_TCPLEN (last segs))" "TCP_TCPLEN (last segs) > 0"
proof -
  have "segs = butlast segs @ [last segs]"
    using assms(2) by simp
  then have "\<exists>m. contiguous m [last segs] r"
    using assms(1) contiguous_append by metis
  then show "seq_of (last segs) = r - of_nat (TCP_TCPLEN (last segs))" "TCP_TCPLEN (last segs) > 0"
    by (auto simp: seg_end_seq)
qed

text \<open>Sending changes the acknowledgement, the window, the checksum and the ACK flag of a header only.\<close>

definition same_data :: "tcp_seg \<Rightarrow> tcp_seg \<Rightarrow> bool" where
  "same_data seg seg' \<longleftrightarrow> s_p seg' = s_p seg \<and> s_dataptr seg' = s_dataptr seg \<and> s_len seg' = s_len seg
     \<and> h_seqno (s_hdr seg') = h_seqno (s_hdr seg)
     \<and> has (hdr_flags (s_hdr seg')) TCP_FIN = has (hdr_flags (s_hdr seg)) TCP_FIN
     \<and> has (hdr_flags (s_hdr seg')) TCP_SYN = has (hdr_flags (s_hdr seg)) TCP_SYN"

lemma same_data_refl [simp]: "same_data seg seg"
  by (simp add: same_data_def)

lemma same_data_trans: "same_data a b \<Longrightarrow> same_data b c \<Longrightarrow> same_data a c"
  by (auto simp: same_data_def)

lemma same_data_seq:
  assumes "same_data seg seg'"
  shows "seq_of seg' = seq_of seg" "TCP_TCPLEN seg' = TCP_TCPLEN seg" "seg_end seg' = seg_end seg" "s_len seg' = s_len seg"
  using assms by (simp_all add: same_data_def seq_of_def TCP_TCPLEN_def seg_end_def)

lemma contiguous_same: "list_all2 same_data xs ys \<Longrightarrow> contiguous q ys r \<longleftrightarrow> contiguous q xs r"
  by (induction xs ys arbitrary: q rule: list_all2_induct) (auto simp: same_data_seq)

lemma span_same: "list_all2 same_data xs ys \<Longrightarrow> span ys = span xs"
  by (induction xs ys rule: list_all2_induct) (auto simp: same_data_seq)

lemma same_len: "list_all2 same_data xs ys \<Longrightarrow> (\<forall>seg\<in>set ys. s_len seg \<le> m) \<longleftrightarrow> (\<forall>seg\<in>set xs. s_len seg \<le> m)"
  by (induction xs ys rule: list_all2_induct) (auto simp: same_data_seq)

lemma same_list_refl [simp]: "list_all2 same_data xs xs"
  by (simp add: list_all2_refl)

lemma hdr_flags_set_flag: "hdr_flags (TCPH_SET_FLAG f h) = hdr_flags h OR (f AND 0x3f)"
proof -
  have "ucast (ntohs (htons (ntohs (hdrlen_rsvd_flags h) OR ucast f)) AND 0x3f :: u16) = (ucast (ntohs (hdrlen_rsvd_flags h) AND 0x3f) OR (f AND 0x3f) :: u8)"
    by (simp add: ntohs_def htons_htons bit_eq_iff bit_simps) (auto simp: bit_simps)
  then show ?thesis
    by (simp add: hdr_flags_def TCPH_FLAGS_def TCPH_SET_FLAG_def TCP_FLAGS_def)
qed

lemma has_or: "has (a OR b) m \<longleftrightarrow> has a m \<or> has b m"
  by (auto simp: has_def bit_eq_iff bit_simps)

lemma same_data_set_flag:
  "f AND TCP_FIN = 0 \<Longrightarrow> f AND TCP_SYN = 0 \<Longrightarrow> same_data seg (seg\<lparr>s_hdr := TCPH_SET_FLAG f (s_hdr seg)\<rparr>)"
  unfolding same_data_def
  by (simp add: hdr_flags_set_flag has_or) (simp add: has_def TCPH_SET_FLAG_def TCP_FIN_def TCP_SYN_def and.assoc)

section \<open>Output\<close>

lemma tcp_output_segment_same:
  assumes "tcp_output_segment s seg pcb = Some (s', seg', pcb')"
  shows "same_data seg seg'" "unsent pcb' = unsent pcb" "unacked pcb' = unacked pcb"
proof -
  obtain lip where "(if ip_addr_isany (local_ip pcb)
         then do { n \<leftarrow> ip_route s (remote_ip pcb);
           if n = NULL then Some None else do { nf \<leftarrow> netifs s n; Some (Some (nf_ip_addr nf)) } }
         else Some (Some (local_ip pcb))) = Some lip"
    using assms unfolding tcp_output_segment_def Let_def bind_eq_Some_conv by blast
  then have "same_data seg seg' \<and> unsent pcb' = unsent pcb \<and> unacked pcb' = unacked pcb"
    using assms unfolding tcp_output_segment_def Let_def
    by (cases lip) (auto simp: same_data_def hdr_flags_def TCPH_FLAGS_def tcp_chksum_def Let_def split: Option.bind_split_asm)
  then show "same_data seg seg'" "unsent pcb' = unsent pcb" "unacked pcb' = unacked pcb"
    by simp_all
qed

text \<open>The flags that switch the Nagle algorithm off for a control block.\<close>

definition nagle_off :: "tcp_pcb \<Rightarrow> bool" where
  "nagle_off pcb \<longleftrightarrow> has (pcb_flags pcb) TF_NODELAY \<or> has (pcb_flags pcb) TF_NAGLEMEMERR \<or> has (pcb_flags pcb) TF_FIN"

lemma has_or_mask: "has f (m OR n) \<longleftrightarrow> has f m \<or> has f n"
  by (auto simp: has_def bit_eq_iff bit_simps)

lemma tcp_output_segment_flags:
  assumes "tcp_output_segment s seg pcb = Some (s', seg', pcb')"
  shows "pcb_flags pcb' = pcb_flags pcb"
proof -
  obtain lip where "(if ip_addr_isany (local_ip pcb)
         then do { n \<leftarrow> ip_route s (remote_ip pcb);
           if n = NULL then Some None else do { nf \<leftarrow> netifs s n; Some (Some (nf_ip_addr nf)) } }
         else Some (Some (local_ip pcb))) = Some lip"
    using assms unfolding tcp_output_segment_def Let_def bind_eq_Some_conv by blast
  then show ?thesis
    using assms unfolding tcp_output_segment_def Let_def by (cases lip) (auto split: Option.bind_split_asm)
qed

lemma nagle_off_out_pcb: "nagle_off (out_pcb pcb rest) = nagle_off pcb"
  by (auto simp: nagle_off_def out_pcb_def has_def TF_NODELAY_def TF_NAGLEMEMERR_def TF_FIN_def TF_ACK_DELAY_def TF_ACK_NOW_def
    and.assoc)

lemma tcp_output_one_nagle:
  assumes "tcp_output_one s pcb seg rest = Some (s', pcb')"
  shows "nagle_off pcb' = nagle_off pcb"
proof -
  obtain s1 seg1 pcb1 where 1: "tcp_output_segment s (out_seg pcb seg) (out_pcb pcb rest) = Some (s1, seg1, pcb1)"
      "(if TCP_TCPLEN seg1 > 0 then Some (s1, (sent_pcb pcb1 seg1)\<lparr>unacked := tcp_unacked_insert (unacked pcb1) seg1\<rparr>)
        else do { (s, _) \<leftarrow> tcp_seg_free s1 seg1; Some (s, sent_pcb pcb1 seg1) }) = Some (s', pcb')"
    using assms(1) unfolding tcp_output_one_eq by (rule bind3E)
  have "pcb_flags pcb' = pcb_flags pcb1"
    using 1(2) by (auto simp: sent_pcb_def split: if_split_asm Option.bind_split_asm)
  then show ?thesis
    using tcp_output_segment_flags [OF 1(1)] nagle_off_out_pcb [of pcb rest] by (simp add: nagle_off_def)
qed

lemma out_seg_same: "same_data seg (out_seg pcb seg)"
  by (simp add: out_seg_def same_data_set_flag TCP_ACK_def TCP_FIN_def TCP_SYN_def)

lemma tcp_output_one_moves:
  assumes "tcp_output_one s pcb seg rest = Some (s', pcb')" "TCP_TCPLEN seg > 0"
  shows "\<exists>seg'. same_data seg seg' \<and> unsent pcb' = rest \<and> unacked pcb' = tcp_unacked_insert (unacked pcb) seg'
    \<and> snd_nxt pcb' = seg_end seg"
proof -
  obtain s1 seg1 pcb1 where 1: "tcp_output_segment s (out_seg pcb seg) (out_pcb pcb rest) = Some (s1, seg1, pcb1)"
      "(if TCP_TCPLEN seg1 > 0 then Some (s1, (sent_pcb pcb1 seg1)\<lparr>unacked := tcp_unacked_insert (unacked pcb1) seg1\<rparr>)
        else do { (s, _) \<leftarrow> tcp_seg_free s1 seg1; Some (s, sent_pcb pcb1 seg1) }) = Some (s', pcb')"
    using assms(1) unfolding tcp_output_one_eq by (rule bind3E)
  have same: "same_data seg seg1"
    using same_data_trans [OF out_seg_same tcp_output_segment_same(1) [OF 1(1)]] .
  then have "pcb' = (sent_pcb pcb1 seg1)\<lparr>unacked := tcp_unacked_insert (unacked pcb1) seg1\<rparr>"
    using 1(2) assms(2) by (simp add: same_data_seq)
  then show ?thesis
    using same tcp_output_segment_same(2,3) [OF 1(1)] by (auto simp: sent_pcb_def out_pcb_def same_data_seq)
qed

lemma unacked_insert_append:
  assumes "contiguous q (us @ seg # segs) r" "span (us @ seg # segs) < 2 ^ 31"
  shows "tcp_unacked_insert us seg = us @ [seg]"
proof (cases "us = []")
  case False
  obtain m where m: "contiguous q us m" "seq_of seg = m"
    using assms(1) by (auto simp: contiguous_append)
  have "seq_of seg - seq_of (last us) = of_nat (TCP_TCPLEN (last us))"
    using contiguous_last(1) [OF m(1) False] m(2) by simp
  moreover have "TCP_TCPLEN (last us) < 2 ^ 31"
    using assms(2) False member_le_sum_list [of "TCP_TCPLEN (last us)" "map TCP_TCPLEN us"] by (simp add: span_def)
  then have "sint (of_nat (TCP_TCPLEN (last us)) :: u32) = int (TCP_TCPLEN (last us))"
    by (simp add: signed_of_nat signed_take_bit_int_eq_self)
  ultimately show ?thesis
    using False by (simp add: tcp_unacked_insert_def TCP_SEQ_LT_def seq_of_def)
qed (simp add: tcp_unacked_insert_def)

text \<open>The octets from the last acknowledged one to the end of a segment, and what the output loop leaves
  unsent in \<open>pcb'\<close> and why: the next segment would end beyond the window, or it is the only one left,
  there is data in flight, and no flag of \<open>pcb\<close> switches the Nagle algorithm off.\<close>

definition reach :: "tcp_pcb \<Rightarrow> tcp_seg \<Rightarrow> u32" where
  "reach pcb seg = (seq_of seg + ucast (s_len seg)) - lastack pcb"

definition held_back :: "tcp_pcb \<Rightarrow> tcp_pcb \<Rightarrow> u32 \<Rightarrow> bool" where
  "held_back pcb pcb' wnd \<longleftrightarrow> (case unsent pcb' of [] \<Rightarrow> True
     | seg # rest \<Rightarrow> reach pcb seg > wnd \<or> rest = [] \<and> unacked pcb' \<noteq> [] \<and> \<not> nagle_off pcb)"

lemma seg_window_reach: "seg_window pcb seg = reach pcb seg"
  by (simp add: seg_window_def reach_def seq_of_def)

lemma held_back_cong:
  "unsent pcb1 = unsent pcb2 \<Longrightarrow> unacked pcb1 = unacked pcb2 \<Longrightarrow> held_back pcb pcb1 wnd = held_back pcb pcb2 wnd"
  by (simp add: held_back_def split: list.splits)

text \<open>The first \<open>sent\<close> of the unsent segments have moved behind the unacknowledged ones.\<close>

definition moved :: "tcp_pcb \<Rightarrow> tcp_seg list \<Rightarrow> tcp_pcb \<Rightarrow> bool" where
  "moved pcb sent pcb' \<longleftrightarrow> unsent pcb = sent @ unsent pcb'
     \<and> (\<exists>sent'. list_all2 same_data sent sent' \<and> unacked pcb' = unacked pcb @ sent')
     \<and> snd_nxt pcb' = (if sent = [] then snd_nxt pcb else seg_end (last sent))"

lemma moved_refl: "unsent pcb' = unsent pcb \<Longrightarrow> unacked pcb' = unacked pcb \<Longrightarrow> snd_nxt pcb' = snd_nxt pcb \<Longrightarrow> moved pcb [] pcb'"
  by (simp add: moved_def)

lemma tcp_output_loop_moves:
  assumes "tcp_output_loop s wnd pcb (unsent pcb) = Some (s', pcb')"
    "contiguous q (unacked pcb @ unsent pcb) r" "span (unacked pcb @ unsent pcb) < 2 ^ 31"
  shows "\<exists>sent. moved pcb sent pcb' \<and> (\<forall>seg\<in>set sent. reach pcb seg \<le> wnd) \<and> held_back pcb pcb' wnd"
  using assms
proof (induction "unsent pcb" arbitrary: s pcb)
  case Nil
  then show ?case
    using moved_refl [of pcb pcb] by (intro exI [of _ "[]"]) (simp add: held_back_def)
next
  case (Cons seg rest)
  note unsent = Cons.hyps(2) [symmetric]
  show ?case
  proof (cases "seg_window pcb seg \<le> wnd \<and> (tcp_do_output_nagle pcb \<or> has (pcb_flags pcb) (TF_NAGLEMEMERR OR TF_FIN))")
    case False
    then have "pcb' = pcb"
      using Cons.prems(1) unsent by (auto simp: tcp_output_loop.simps(2))
    moreover have "held_back pcb pcb wnd"
      using False unsent
      by (cases rest) (auto simp: held_back_def nagle_off_def has_or_mask tcp_do_output_nagle_def seg_window_reach not_le)
    ultimately show ?thesis
      using moved_refl [of pcb pcb] by (intro exI [of _ "[]"]) simp
  next
    case True
    then obtain s1 pcb1 where 1: "tcp_output_one s pcb seg rest = Some (s1, pcb1)"
        "tcp_output_loop s1 wnd pcb1 rest = Some (s', pcb')"
      using Cons.prems(1) unsent by (auto simp: tcp_output_loop.simps(2) split: Option.bind_split_asm)
    have len: "TCP_TCPLEN seg > 0"
      using Cons.prems(2) unsent by (auto simp: contiguous_append)
    obtain seg' where 2: "same_data seg seg'" "unsent pcb1 = rest" "unacked pcb1 = tcp_unacked_insert (unacked pcb) seg'"
        "snd_nxt pcb1 = seg_end seg"
      using tcp_output_one_moves [OF 1(1) len] by blast
    have same: "list_all2 same_data (unacked pcb @ unsent pcb) (unacked pcb @ seg' # rest)"
      using 2(1) unsent by (simp add: list_all2_append)
    then have q: "contiguous q (unacked pcb @ seg' # rest) r" "span (unacked pcb @ seg' # rest) < 2 ^ 31"
      using Cons.prems(2,3) contiguous_same span_same by metis+
    have un: "unacked pcb1 = unacked pcb @ [seg']"
      using unacked_insert_append [OF q] 2(3) by simp
    have la: "lastack pcb1 = lastack pcb"
      using tcp_output_one_sends [OF 1(1)] coreD(5) by blast
    obtain sent where 3: "moved pcb1 sent pcb'" "\<forall>seg\<in>set sent. reach pcb1 seg \<le> wnd" "held_back pcb1 pcb' wnd"
      using Cons.hyps(1) [of pcb1 s1] 1(2) 2(2) un q by auto
    have "moved pcb (seg # sent) pcb'"
      using 3(1) 2 un unsent unfolding moved_def by (fastforce simp: list_all2_Cons1)
    moreover have "\<forall>x\<in>set (seg # sent). reach pcb x \<le> wnd"
      using 3(2) True la by (simp add: reach_def seg_window_reach)
    moreover have "held_back pcb pcb' wnd"
      using 3(3) la tcp_output_one_nagle [OF 1(1)] by (simp add: held_back_def reach_def split: list.splits)
    ultimately show ?thesis
      by blast
  qed
qed

lemma moved_contiguous:
  "moved pcb sent pcb' \<Longrightarrow> contiguous q (unacked pcb' @ unsent pcb') r \<longleftrightarrow> contiguous q (unacked pcb @ unsent pcb) r"
  unfolding moved_def
  by (auto simp: contiguous_same [OF list_all2_appendI [OF same_list_refl list_all2_appendI [OF _ same_list_refl]]])

text \<open>C4. \<^verbatim>\<open>tcp_output\<close> keeps to the window and to the order: of a queue of segments in order it sends a
  first part of the unsent ones; of each of them the last octet, counted from the last acknowledged one, is
  inside the smaller of the send and the congestion window. They move unchanged (up to acknowledgement,
  window, checksum and ACK flag) behind the unacknowledged ones, so the queue covers the same sequence numbers
  in the same order. It stops only when nothing is left, when the next segment would end beyond the window, or
  at a single last segment while data is in flight and neither \<^verbatim>\<open>TF_NODELAY\<close>, a memory error nor a queued
  FIN switches the Nagle algorithm off. (While the stack is inside the input function of the block nothing is
  sent, so that case is left out, and the queue covers less than half of the sequence space.)\<close>

theorem tcp_output_in_window:
  assumes "tcp_output s a pcb = Some (s', pcb', e)" "tcp_input_pcb s \<noteq> a"
    "contiguous q (unacked pcb @ unsent pcb) r" "span (unacked pcb @ unsent pcb) < 2 ^ 31"
  shows "\<exists>sent. moved pcb sent pcb'
    \<and> (\<forall>seg\<in>set sent. (seq_of seg + ucast (s_len seg)) - lastack pcb \<le> (ucast (min (snd_wnd pcb) (cwnd pcb)) :: u32))
    \<and> (unsent pcb' = []
       \<or> (seq_of (hd (unsent pcb')) + ucast (s_len (hd (unsent pcb')))) - lastack pcb > (ucast (min (snd_wnd pcb) (cwnd pcb)) :: u32)
       \<or> length (unsent pcb') = 1 \<and> unacked pcb' \<noteq> []
           \<and> \<not> (has (pcb_flags pcb) TF_NODELAY \<or> has (pcb_flags pcb) TF_NAGLEMEMERR \<or> has (pcb_flags pcb) TF_FIN))
    \<and> contiguous q (unacked pcb' @ unsent pcb') r"
proof -
  let ?wnd = "ucast (min (snd_wnd pcb) (cwnd pcb)) :: u32"
  have "\<exists>sent. moved pcb sent pcb' \<and> (\<forall>seg\<in>set sent. reach pcb seg \<le> ?wnd) \<and> held_back pcb pcb' ?wnd"
  proof (cases "has (pcb_flags pcb) TF_ACK_NOW \<and> (case unsent pcb of [] \<Rightarrow> True | seg # _ \<Rightarrow> seg_window pcb seg > ?wnd)")
    case True
    then have ack: "tcp_output_ack s pcb = Some (s', pcb', e)"
      using assms(1,2) by (simp add: tcp_output_def Let_def)
    then have same: "unsent pcb' = unsent pcb \<and> unacked pcb' = unacked pcb \<and> snd_nxt pcb' = snd_nxt pcb"
      by (auto simp: tcp_output_ack_def Let_def split: Option.bind_split_asm if_split_asm)
    then have "held_back pcb pcb' ?wnd"
      using True by (auto simp: held_back_def seg_window_reach split: list.splits)
    with same show ?thesis
      using moved_refl [of pcb' pcb] by (intro exI [of _ "[]"]) simp
  next
    case False
    then obtain s1 pcb1 where 1: "tcp_output_loop s ?wnd pcb (unsent pcb) = Some (s1, pcb1)"
        "unsent pcb' = unsent pcb1" "unacked pcb' = unacked pcb1" "snd_nxt pcb' = snd_nxt pcb1"
      using assms(1,2) unfolding tcp_output_def Let_def
      by (auto split: Option.bind_split_asm list.splits if_split_asm)
    then show ?thesis
      using tcp_output_loop_moves [OF 1(1) assms(3,4)] held_back_cong [OF 1(2,3)] by (simp add: moved_def)
  qed
  then obtain sent where 2: "moved pcb sent pcb'" "\<forall>seg\<in>set sent. reach pcb seg \<le> ?wnd" "held_back pcb pcb' ?wnd"
    by blast
  then show ?thesis
    using moved_contiguous [OF 2(1)] assms(3)
    by (intro exI [of _ sent]) (auto simp: reach_def held_back_def nagle_off_def split: list.splits)
qed

section \<open>Queueing\<close>

text \<open>A control segment is one with SYN or FIN.\<close>

definition ctl :: "u8 \<Rightarrow> bool" where
  "ctl fl \<longleftrightarrow> has fl TCP_SYN \<or> has fl TCP_FIN"

lemma has_and_flags [simp]: "has (fl AND 0x3f) TCP_FIN = has fl TCP_FIN" "has (fl AND 0x3f) TCP_SYN = has fl TCP_SYN"
  by (simp_all add: has_def TCP_FIN_def TCP_SYN_def and.assoc)

lemma hdr_flags_flags_set: "hdr_flags (TCPH_FLAGS_SET f h) = f AND 0x3f"
proof -
  have "ucast (ntohs (htons ((ntohs (hdrlen_rsvd_flags h) AND NOT 0x3f) OR ucast f)) AND 0x3f :: u16) = (f AND 0x3f :: u8)"
    by (simp add: ntohs_def htons_htons bit_eq_iff bit_simps) (auto simp: bit_simps)
  then show ?thesis
    by (simp add: hdr_flags_def TCPH_FLAGS_def TCPH_FLAGS_SET_def TCP_FLAGS_def)
qed

lemma hdr_flags_hdrlen_set: "hdr_flags (TCPH_HDRLEN_SET n h) = hdr_flags h"
proof -
  have "push_bit 12 n AND mask 6 = (0 :: u16)"
    by (rule bit_word_eqI) (auto simp: bit_simps)
  then have "push_bit 12 n AND 0x3f = (0 :: u16)"
    by (simp add: mask_eq_exp_minus_1)
  then have "(push_bit 12 n OR (ntohs (hdrlen_rsvd_flags h) AND 0x3f)) AND 0x3f = ntohs (hdrlen_rsvd_flags h) AND 0x3f"
    by (simp add: bit.conj_disj_distrib2 and.assoc)
  then show ?thesis
    by (simp add: hdr_flags_def TCPH_FLAGS_def TCPH_HDRLEN_SET_def TCP_FLAGS_def ntohs_def htons_htons)
qed

lemma tcp_enqueue_hdr_fields [simp]:
  "hdr_flags (tcp_enqueue_hdr h pcb q fl opt) = fl AND 0x3f" "h_seqno (tcp_enqueue_hdr h pcb q fl opt) = htonl q"
  by (simp_all add: tcp_enqueue_hdr_def Let_def hdr_flags_hdrlen_set hdr_flags_flags_set split: option.splits)
    (simp_all add: TCPH_HDRLEN_SET_def TCPH_FLAGS_SET_def)

text \<open>The segments that one call queues.\<close>

definition queued :: "u8 \<Rightarrow> u16 \<Rightarrow> tcp_seg \<Rightarrow> bool" where
  "queued fl m seg \<longleftrightarrow> s_len seg \<le> m \<and> hdr_flags (s_hdr seg) = fl AND 0x3f"

lemma queued_len: "queued fl m seg \<Longrightarrow> TCP_TCPLEN seg = unat (s_len seg) + (if ctl fl then 1 else 0)"
  by (auto simp: queued_def TCP_TCPLEN_def ctl_def)

lemma tcp_enqueue_seg_queued:
  assumes "tcp_enqueue_seg s pcb arg dp fl afl opt n q ql = Some (s', segs, True, ql')" "n \<le> m"
  shows "\<exists>seg. segs = [seg] \<and> seq_of seg = q \<and> s_len seg = n \<and> queued fl m seg"
  using assms unfolding tcp_enqueue_seg_def Let_def
  by (auto simp: seq_of_def ntohl_def htonl_htonl queued_def split: prod.splits if_split_asm Option.bind_split_asm)

lemma tcp_enqueue_loop_contiguous:
  "tcp_enqueue_loop s pcb arg dp fl afl opt left q ql n queue = Some res \<Longrightarrow>
   res = (s', queue', True, ql', n') \<Longrightarrow> mss pcb > 0 \<Longrightarrow> (left > 0 \<longrightarrow> \<not> ctl fl) \<Longrightarrow> (queue = [] \<and> left = 0 \<longrightarrow> ctl fl) \<Longrightarrow>
   \<exists>new. queue' = queue @ new \<and> (\<forall>seg\<in>set new. queued fl (mss pcb) seg) \<and> (queue \<noteq> [] \<and> left = 0 \<longrightarrow> new = [])
     \<and> contiguous q new (q + (if queue = [] \<and> left = 0 then 1 else ucast left))
     \<and> span new = (if queue = [] \<and> left = 0 then 1 else unat left) \<and> (left \<le> mss pcb \<longrightarrow> length new \<le> 1)"
proof (induction rule: tcp_enqueue_loop.raw_induct [rotated, consumes 1, case_names step])
  case (step loop s pcb arg dp fl afl opt left q ql n queue res)
  show ?case
  proof (cases "queue = [] \<or> left > 0")
    case False
    then have "queue \<noteq> []" "left = 0"
      using word_neq_0_conv by auto
    with step.hyps step.prems show ?thesis by auto
  next
    case True
    define k where "k = (if left > mss pcb then mss pcb else left)"
    obtain s1 segs ok1 ql1 where 1: "tcp_enqueue_seg s pcb arg dp fl afl opt k q ql = Some (s1, segs, ok1, ql1)"
        "(if \<not> ok1 then Some (s1, queue @ segs, False, ql1, k)
          else loop s1 pcb arg (ptr_add dp (unat k)) fl afl opt (left - k) (q + ucast k) ql1 k (queue @ segs)) = Some res"
      using step.hyps True unfolding k_def by (auto simp: Let_def split: Option.bind_split_asm)
    with step.prems(1) have ok: ok1
      by (auto split: if_split_asm)
    have kle: "k \<le> mss pcb" "k \<le> left"
      by (auto simp: k_def)
    obtain seg where seg: "segs = [seg]" "seq_of seg = q" "s_len seg = k" "queued fl (mss pcb) seg"
      using tcp_enqueue_seg_queued [of s pcb arg dp fl afl opt k q ql s1 segs ql1] 1(1) ok kle(1) by auto
    have len: "TCP_TCPLEN seg = unat k + (if ctl fl then 1 else 0)"
      using queued_len [OF seg(4)] seg(3) by simp
    have split: "unat k + unat (left - k) = unat left"
      using kle(2) by (simp add: unat_sub word_le_nat_alt)
    have sum: "ucast k + ucast (left - k) = (ucast left :: u32)"
      using split by (metis of_nat_add of_nat_unat)
    obtain new where new: "queue' = (queue @ [seg]) @ new" "\<forall>seg\<in>set new. queued fl (mss pcb) seg" "left - k = 0 \<longrightarrow> new = []"
        "contiguous (q + ucast k) new (q + ucast k + ucast (left - k))" "span new = unat (left - k)"
    proof -
      have "left - k > 0 \<longrightarrow> \<not> ctl fl"
        using step.prems(3) by (cases "left = 0") (auto simp: k_def word_neq_0_conv)
      then show ?thesis
        using step.IH [of s1 pcb arg "ptr_add dp (unat k)" fl afl opt "left - k" "q + ucast k" ql1 k "queue @ segs" res]
          1(2) ok step.prems(1,2) seg(1) that by auto
    qed
    show ?thesis
    proof (cases "left = 0")
      case True
      then have "k = 0" "ctl fl" "queue = []"
        using step.prems(4) \<open>queue = [] \<or> left > 0\<close> by (auto simp: k_def)
      then show ?thesis
        using new True seg len by (intro exI [of _ "[seg]"]) (simp add: seg_end_seq)
    next
      case False
      then have "k > 0" "\<not> ctl fl"
        using step.prems(2,3) by (auto simp: k_def word_neq_0_conv)
      then have "seg_end seg = q + ucast k" "TCP_TCPLEN seg = unat k" "0 < unat k"
        using len seg(2) by (simp_all add: seg_end_seq unat_gt_0)
      moreover have "left \<le> mss pcb \<longrightarrow> new = []"
        using new(3) kle(2) by (auto simp: k_def split: if_split_asm)
      ultimately show ?thesis
        using new(1,2,4,5) False seg sum split by (intro exI [of _ "seg # new"]) (simp add: add.assoc)
    qed
  qed
qed

lemma set_last_psh_same: "list_all2 same_data segs (set_last_psh segs)"
proof (cases "segs = []")
  case False
  have "same_data (last segs) ((last segs)\<lparr>s_hdr := TCPH_SET_FLAG TCP_PSH (s_hdr (last segs))\<rparr>)"
    by (rule same_data_set_flag) (simp_all add: TCP_PSH_def TCP_FIN_def TCP_SYN_def)
  then have "list_all2 same_data (butlast segs @ [last segs])
      (butlast segs @ [(last segs)\<lparr>s_hdr := TCPH_SET_FLAG TCP_PSH (s_hdr (last segs))\<rparr>])"
    by (intro list_all2_appendI same_list_refl) simp
  with False show ?thesis by (simp add: set_last_psh_def)
qed (simp add: set_last_psh_def)

lemma psh_same: "list_all2 same_data segs (if psh then set_last_psh segs else segs)"
  by (simp add: set_last_psh_same)

text \<open>Merging the first queued segment into the last unsent one.\<close>

lemma merge_contiguous:
  assumes "contiguous q (us @ [useg]) m" "contiguous m (seg # queue) r" "tcp_enqueue_fits pcb useg seg fl" "queued fl k seg"
  shows "contiguous q (us @ useg\<lparr>s_len := s_len useg + s_len seg\<rparr> # queue) r"
    "TCP_TCPLEN (useg\<lparr>s_len := s_len useg + s_len seg\<rparr>) = TCP_TCPLEN useg + TCP_TCPLEN seg"
proof -
  have fits: "\<not> ctl fl" "\<not> ctl (hdr_flags (s_hdr useg))" "unat (s_len useg) + unat (s_len seg) \<le> unat (mss pcb)"
    using assms(3) by (auto simp: tcp_enqueue_fits_def has_or_mask ctl_def)
  then have "unat (s_len useg + s_len seg) = unat (s_len useg) + unat (s_len seg)"
    using unsigned_less [of "mss pcb", where ?'a = nat] by (subst unat_add_lem [symmetric]) simp
  moreover have len: "TCP_TCPLEN seg = unat (s_len seg)"
    using queued_len [OF assms(4)] fits(1) by simp
  ultimately show *: "TCP_TCPLEN (useg\<lparr>s_len := s_len useg + s_len seg\<rparr>) = TCP_TCPLEN useg + TCP_TCPLEN seg"
    using fits(2) by (simp add: TCP_TCPLEN_def ctl_def)
  obtain n where "contiguous q us n" "seq_of useg = n" "TCP_TCPLEN useg > 0" "seg_end useg = m"
    using assms(1) by (auto simp: contiguous_append)
  moreover have "seq_of seg = m" "contiguous (seg_end seg) queue r"
    using assms(2) by auto
  ultimately show "contiguous q (us @ useg\<lparr>s_len := s_len useg + s_len seg\<rparr> # queue) r"
    using * by (auto simp: contiguous_append seg_end_seq add.assoc) (simp_all add: seq_of_def add.assoc)
qed

lemma set_tl: "set (tl xs) \<subseteq> set xs"
  by (cases xs) auto

lemma tcp_enqueue_unsent_contiguous:
  assumes "contiguous q (as @ us) m" "contiguous m queue r" "\<forall>seg\<in>set queue. queued fl (mss pcb) seg" "queue \<noteq> []"
    "merge \<longleftrightarrow> us \<noteq> [] \<and> tcp_enqueue_fits pcb (last us) (hd queue) fl"
  shows "contiguous q (as @ tcp_enqueue_unsent us queue merge psh) r
    \<and> span (tcp_enqueue_unsent us queue merge psh) = span us + span queue
    \<and> ((\<forall>seg\<in>set us. s_len seg \<le> mss pcb) \<longrightarrow> (\<forall>seg\<in>set (tcp_enqueue_unsent us queue merge psh). s_len seg \<le> mss pcb))"
proof -
  have len: "\<forall>seg\<in>set (if psh then set_last_psh xs else xs). s_len seg \<le> mss pcb" if "set xs \<subseteq> set queue" for xs
    using that assms(3) unfolding same_len [OF psh_same] by (auto simp: queued_def)
  show ?thesis
  proof (cases merge)
    case False
    have same: "list_all2 same_data (as @ us @ queue) (as @ us @ (if psh then set_last_psh queue else queue))"
      by (intro list_all2_appendI same_list_refl psh_same)
    have "contiguous q (as @ us @ queue) r"
      using assms(1,2) by (auto simp: contiguous_append)
    then show ?thesis
      using False contiguous_same [OF same] span_same [OF psh_same] len [of queue]
      by (auto simp: tcp_enqueue_unsent_def)
  next
    case True
    define useg seg where "useg = last us" and "seg = hd queue"
    let ?u = "useg\<lparr>s_len := s_len useg + s_len seg\<rparr>"
    have us: "us = butlast us @ [useg]" "queue = seg # tl queue" and fits: "tcp_enqueue_fits pcb useg seg fl"
      using True assms(4,5) by (simp_all add: useg_def seg_def)
    have q: "contiguous q ((as @ butlast us) @ [useg]) m" "contiguous m (seg # tl queue) r" "queued fl (mss pcb) seg"
      using assms(1-3) us by (metis append.assoc) (use assms(2,3) us in \<open>metis list.set_intros(1)\<close>)+
    note merged = merge_contiguous [OF q(1,2) fits q(3)]
    have same: "list_all2 same_data ((as @ butlast us) @ ?u # tl queue) ((as @ butlast us) @ ?u # (if psh then set_last_psh (tl queue) else tl queue))"
      by (intro list_all2_appendI list.rel_intros(2) same_list_refl same_data_refl psh_same)
    have eq: "tcp_enqueue_unsent us queue merge psh = butlast us @ ?u # (if psh then set_last_psh (tl queue) else tl queue)"
      using True by (simp add: tcp_enqueue_unsent_def useg_def seg_def)
    have "span us + span queue = span (butlast us) + TCP_TCPLEN ?u + span (tl queue)"
      by (subst us(1), subst us(2)) (simp add: merged(2))
    moreover have "s_len ?u \<le> mss pcb"
      using fits unat_plus_if' [of "s_len useg" "s_len seg"] by (auto simp: tcp_enqueue_fits_def word_le_nat_alt split: if_split_asm)
    ultimately show ?thesis
      using merged(1) contiguous_same [OF same] span_same [OF psh_same] len [of "tl queue"] set_tl [of queue] unfolding eq
      by (auto dest: in_set_butlastD)
  qed
qed

text \<open>What \<^verbatim>\<open>tcp_enqueue\<close> does to a control block.\<close>

definition refused :: "tcp_pcb \<Rightarrow> tcp_pcb \<Rightarrow> err \<Rightarrow> bool" where
  "refused pcb pcb' e \<longleftrightarrow> unacked pcb' = unacked pcb \<and> unsent pcb' = unsent pcb \<and> snd_lbb pcb' = snd_lbb pcb
     \<and> snd_buf pcb' = snd_buf pcb \<and> e \<noteq> ERR_OK"

lemma tcp_enqueue_memerr_refused: "tcp_enqueue_memerr s pcb queue = Some (s', pcb', e) \<Longrightarrow> refused pcb pcb' e"
  by (auto simp: tcp_enqueue_memerr_def refused_def split: Option.bind_split_asm)

lemma tcp_enqueue_cases:
  assumes "tcp_enqueue s pcb arg len fl afl opt = Some (s', pcb', e)" "mss pcb > 0" "(len > 0) \<noteq> ctl fl"
  obtains "refused pcb pcb' e"
  | queue ql psh where "e = ERR_OK" "queue \<noteq> []" "\<forall>seg\<in>set queue. queued fl (mss pcb) seg"
      "contiguous (snd_lbb pcb) queue (snd_lbb pcb + (if ctl fl then 1 else ucast len))"
      "span queue = (if ctl fl then 1 else unat len)" "len \<le> mss pcb \<longrightarrow> length queue \<le> 1"
      "pcb' = tcp_enqueue_done pcb (tcp_enqueue_unsent (unsent pcb) queue
         (unsent pcb \<noteq> [] \<and> tcp_enqueue_fits pcb (last (unsent pcb)) (hd queue) fl) psh) len fl ql"
proof -
  define dp where "dp = (case arg of None \<Rightarrow> (NULL, 0) | Some a \<Rightarrow> a)"
  consider (no) "refused pcb pcb' e"
    | (yes) s1 queue ql n where "tcp_enqueue_loop s pcb arg dp fl afl opt len (snd_lbb pcb) (snd_queuelen pcb) 0 [] = Some (s1, queue, True, ql, n)"
      "tcp_enqueue_append s1 pcb len fl afl ql n queue = Some (s', pcb', e)"
    using assms(1) unfolding tcp_enqueue_def dp_def Let_def
    by (auto simp: refused_def split: if_split_asm Option.bind_split_asm dest!: tcp_enqueue_memerr_refused)
  then show thesis
  proof cases
    case yes
    have l0: "len = 0 \<longleftrightarrow> ctl fl"
      using assms(3) by (auto simp: word_gt_0)
    have queue: "\<forall>seg\<in>set queue. queued fl (mss pcb) seg"
        "contiguous (snd_lbb pcb) queue (snd_lbb pcb + (if ctl fl then 1 else ucast len))"
        "span queue = (if ctl fl then 1 else unat len)" "len \<le> mss pcb \<longrightarrow> length queue \<le> 1"
      using tcp_enqueue_loop_contiguous [OF yes(1) refl assms(2)] assms(3) l0 by auto
    moreover have "queue \<noteq> []"
      using queue(3) l0 by (cases "ctl fl") (auto simp: unat_eq_zero)
    moreover have "refused pcb pcb' e \<or> e = ERR_OK \<and> pcb' = tcp_enqueue_done pcb (tcp_enqueue_unsent (unsent pcb) queue
        (unsent pcb \<noteq> [] \<and> tcp_enqueue_fits pcb (last (unsent pcb)) (hd queue) fl) (n > 0 \<and> \<not> has afl TCP_WRITE_FLAG_MORE)) len fl ql"
      using yes(2) unfolding tcp_enqueue_append_def Let_def
      by (auto split: if_split_asm Option.bind_split_asm dest!: tcp_enqueue_memerr_refused)
    ultimately show thesis
      using that by blast
  qed (use that in blast)
qed

text \<open>C5. \<^verbatim>\<open>tcp_enqueue\<close> keeps the queue of a sender in order: when it accepts data, or a SYN or FIN, the
  unacknowledged and the unsent segments still cover one range of sequence numbers without gap or overlap, and
  the range ends at the new end of the send buffer, further by the octets of the data (by one for SYN or FIN);
  no segment is longer than the segment size. When it refuses, the queue and the numbers are as before.\<close>

theorem tcp_enqueue_in_order:
  assumes "tcp_enqueue s pcb arg len fl afl opt = Some (s', pcb', e)" "mss pcb > 0" "(len > 0) \<noteq> ctl fl"
    "contiguous q (unacked pcb @ unsent pcb) (snd_lbb pcb)" "\<forall>seg\<in>set (unsent pcb). s_len seg \<le> mss pcb"
  shows "unacked pcb' = unacked pcb
    \<and> (if e = ERR_OK
       then contiguous q (unacked pcb' @ unsent pcb') (snd_lbb pcb')
         \<and> snd_lbb pcb' = snd_lbb pcb + (if ctl fl then 1 else ucast len)
         \<and> span (unsent pcb') = span (unsent pcb) + (if ctl fl then 1 else unat len)
         \<and> (\<forall>seg\<in>set (unsent pcb'). s_len seg \<le> mss pcb)
       else unsent pcb' = unsent pcb \<and> snd_lbb pcb' = snd_lbb pcb \<and> snd_buf pcb' = snd_buf pcb)"
  using assms(1-3)
proof (cases rule: tcp_enqueue_cases)
  case 1
  then show ?thesis by (simp add: refused_def)
next
  case (2 queue ql psh)
  then show ?thesis
    using tcp_enqueue_unsent_contiguous [OF assms(4) 2(4,3,2) refl, of psh] assms(3,5)
    by (auto simp: tcp_enqueue_done_def ctl_def Let_def word_gt_0)
qed

section \<open>Fast retransmit\<close>

text \<open>C34. Data written after a fast retransmit may overwrite data in flight: while the segment is on its way
  through the input function, \<^verbatim>\<open>tcp_rexmit\<close> leaves the first unacknowledged segment at the head of an
  empty unsent list, and \<^verbatim>\<open>tcp_enqueue\<close> then adds new data to this old segment when it fits. The data
  goes out with sequence numbers of the next segment in flight, and the numbers at the end of the send buffer,
  which the call hands out for it, belong to no segment.\<close>

theorem write_after_fast_retransmit:
  assumes "tcp_input_pcb s = a" "unsent pcb = []" "unacked pcb = seg # seg2 # segs"
    "contiguous q (unacked pcb) (snd_lbb pcb)" "\<not> ctl (hdr_flags (s_hdr seg))"
    "len > 0" "unat (s_len seg) + unat len \<le> unat (mss pcb)"
    "tcp_rexmit s a pcb = Some (s1, pcb1)" "tcp_enqueue s2 pcb1 arg len 0 afl None = Some (s', pcb', ERR_OK)"
  shows "\<exists>seg'. unsent pcb' = [seg'] \<and> seq_of seg' = q \<and> unat (s_len seg') = unat (s_len seg) + unat len
    \<and> seg2 \<in> set (unacked pcb') \<and> TCP_SEQ_LT (seq_of seg2) (seg_end seg')
    \<and> snd_lbb pcb' = snd_lbb pcb + ucast len \<and> span (unacked pcb') + span (unsent pcb') = span (unacked pcb) + unat len"
proof -
  have pcb1: "unsent pcb1 = [seg]" "unacked pcb1 = seg2 # segs" "mss pcb1 = mss pcb" "snd_lbb pcb1 = snd_lbb pcb"
    using assms(1-3,8) by (auto simp: tcp_rexmit_def tcp_output_def Let_def)
  have q: "seq_of seg = q" "TCP_TCPLEN seg > 0" "seq_of seg2 = seg_end seg"
    using assms(3,4) by auto
  have small: "unat (s_len seg) + unat len < 65536"
    using assms(7) unsigned_less [of "mss pcb", where ?'a = nat] by simp
  then have sum: "unat (s_len seg + len) = unat (s_len seg) + unat len"
    by (subst unat_add_lem [symmetric]) simp
  have nctl: "\<not> ctl 0"
    by (simp add: ctl_def has_def)
  have ms: "mss pcb1 > 0" "(len > 0) \<noteq> ctl 0" "len \<le> mss pcb1"
    using assms(6,7) pcb1(3) nctl by (auto simp: word_less_nat_alt word_le_nat_alt)
  show ?thesis
    using assms(9) ms(1,2)
  proof (cases rule: tcp_enqueue_cases)
    case 1
    then show ?thesis by (simp add: refused_def)
  next
    case (2 queue ql psh)
    then obtain x where x: "queue = [x]"
      using ms(3) by (cases queue) auto
    have xlen: "s_len x = len"
      using 2(3,5) nctl x queued_len [of 0 "mss pcb1" x] by (simp add: word_unat_eq_iff)
    have "\<not> has 0 m" for m
      by (simp add: has_def)
    then have fits: "tcp_enqueue_fits pcb1 seg x 0"
      using assms(5,7) q(2) pcb1(3) xlen by (auto simp: tcp_enqueue_fits_def has_or_mask ctl_def)
    let ?s = "seg\<lparr>s_len := s_len seg + len\<rparr>"
    have un: "unsent pcb' = [?s]" "unacked pcb' = seg2 # segs" "snd_lbb pcb' = snd_lbb pcb + ucast len"
      using 2(7) x pcb1 fits xlen by (auto simp: tcp_enqueue_done_def tcp_enqueue_unsent_def set_last_psh_def has_def Let_def)
    have tl: "TCP_TCPLEN ?s = TCP_TCPLEN seg + unat len"
      using assms(5) sum by (simp add: TCP_TCPLEN_def ctl_def)
    have "seq_of seg2 - seg_end ?s = - of_nat (unat len)"
      using q tl by (simp add: seg_end_seq) (simp add: seq_of_def)
    moreover have "sint (of_int (- int k) :: u32) = - int k" if "k < 65536" for k
      using that by (subst signed_of_int) (simp add: signed_take_bit_int_eq_self)
    from this [of "unat len"] have "sint (- of_nat (unat len) :: u32) = - int (unat len)"
      using unsigned_less [of len, where ?'a = nat] by simp
    moreover have "0 < uint len"
      using assms(6) by (simp add: word_less_def)
    ultimately show ?thesis
      using un q sum tl assms(3) by (auto simp: TCP_SEQ_LT_def seq_of_def)
  qed
qed

section \<open>A connection that sends\<close>

text \<open>An established connection with a large window, and three octets to send.\<close>

definition open_pcb :: tcp_pcb where
  "open_pcb = (tcp_fresh_pcb 1000 0)\<lparr>pcb_state := ESTABLISHED, local_ip := 0x0100000A, remote_ip := 0x0200000A,
     local_port := 4097, remote_port := 80, snd_wnd := 5000, cwnd := 2000, pcb_flags := TF_NODELAY\<rparr>"

definition text_stack :: stack where
  "text_stack = sample_stack (no_heap\<lparr>mem_ok := (\<lambda>p. True), blocks := [1 \<mapsto> [65, 66, 67]], brk := 2\<rparr>)"

definition written :: "stack \<times> tcp_pcb" where
  "written = the (do { (s, pcb, _) \<leftarrow> tcp_write text_stack open_pcb (Some (1, 0)) 3 TCP_WRITE_FLAG_COPY; Some (s, pcb) })"

theorem tcp_enqueue_in_order_witness:
  "\<exists>s' pcb'. tcp_enqueue text_stack open_pcb (Some (1, 0)) 3 0 1 None = Some (s', pcb', ERR_OK)
     \<and> contiguous 1000 (unacked pcb' @ unsent pcb') 1003 \<and> span (unsent pcb') = 3"
proof -
  have "map_option (\<lambda>(s, pcb, e). e) (tcp_enqueue text_stack open_pcb (Some (1, 0)) 3 0 1 None) = Some ERR_OK"
    by code_simp
  then obtain s' pcb' where 1: "tcp_enqueue text_stack open_pcb (Some (1, 0)) 3 0 1 None = Some (s', pcb', ERR_OK)"
    by auto
  have "mss open_pcb > 0" "((3 :: u16) > 0) \<noteq> ctl 0" "contiguous 1000 (unacked open_pcb @ unsent open_pcb) (snd_lbb open_pcb)"
      "unsent open_pcb = []" "snd_lbb open_pcb = 1000" "\<not> ctl 0"
    by code_simp+
  then show ?thesis
    using tcp_enqueue_in_order [OF 1, of 1000] 1 by auto
qed

lemma written_facts:
  "contiguous 1000 (unacked (snd written) @ unsent (snd written)) 1003" "span (unacked (snd written) @ unsent (snd written)) = 3"
  "tcp_input_pcb (fst written) = 0" "min (snd_wnd (snd written)) (cwnd (snd written)) = 2000"
  "map_option (\<lambda>(s, pcb, e). (unsent pcb = [], length (link s), e)) (tcp_output (fst written) 7 (snd written)) = Some (True, 1, ERR_OK)"
  by code_simp+

theorem tcp_output_in_window_witness:
  "\<exists>s' pcb' sent. tcp_output (fst written) 7 (snd written) = Some (s', pcb', ERR_OK) \<and> length (link s') = 1
     \<and> unsent pcb' = [] \<and> moved (snd written) sent pcb'
     \<and> (\<forall>seg\<in>set sent. (seq_of seg + ucast (s_len seg)) - lastack (snd written) \<le> 2000)
     \<and> contiguous 1000 (unacked pcb') 1003"
proof -
  obtain s' pcb' where 1: "tcp_output (fst written) 7 (snd written) = Some (s', pcb', ERR_OK)" "length (link s') = 1" "unsent pcb' = []"
    using written_facts(5) by auto
  show ?thesis
    using tcp_output_in_window [OF 1(1) _ written_facts(1)] written_facts 1 by auto
qed

text \<open>The connection with two segments in flight, while a duplicate acknowledgement goes through the input
  function.\<close>

definition dup_stack :: stack where
  "dup_stack = text_stack\<lparr>tcp_input_pcb := 7, mem := (mem text_stack)\<lparr>brk := 5, pbufs :=
     [3 \<mapsto> \<lparr>p_next = 0, payload = (3, 0), tot_len = 23, p_len = 23, p_type = PBUF_RAM, p_flags = 0, p_ref = 1\<rparr>]\<rparr>\<rparr>"

definition dup_pcb :: tcp_pcb where
  "dup_pcb = open_pcb\<lparr>unacked := [data_seg 3 1000 3, data_seg 4 1003 3], snd_lbb := 1006\<rparr>"

definition rexmit_pcb :: tcp_pcb where
  "rexmit_pcb = snd (the (tcp_rexmit dup_stack 7 dup_pcb))"

lemma dup_facts:
  "tcp_input_pcb dup_stack = 7" "unsent dup_pcb = []" "snd_lbb dup_pcb = 1006" "mss dup_pcb = 536" "s_len (data_seg 3 1000 3) = 3"
  "contiguous 1000 (unacked dup_pcb) 1006" "\<not> ctl (hdr_flags (s_hdr (data_seg 3 1000 3)))"
  by code_simp+

lemma rexmit_runs: "\<exists>s1. tcp_rexmit dup_stack 7 dup_pcb = Some (s1, rexmit_pcb)"
  using dup_facts(1) by (auto simp: rexmit_pcb_def tcp_rexmit_def tcp_output_def dup_pcb_def Let_def)

lemma rexmit_write: "map_option (\<lambda>(s, pcb, e). e) (tcp_enqueue dup_stack rexmit_pcb (Some (1, 0)) 3 0 1 None) = Some ERR_OK"
  by code_simp

theorem write_after_fast_retransmit_witness:
  "\<exists>s' pcb' seg'. tcp_enqueue dup_stack rexmit_pcb (Some (1, 0)) 3 0 1 None = Some (s', pcb', ERR_OK)
     \<and> unsent pcb' = [seg'] \<and> seq_of seg' = 1000 \<and> unat (s_len seg') = 6 \<and> snd_lbb pcb' = 1009
     \<and> TCP_SEQ_LT (seq_of (data_seg 4 1003 3)) (seg_end seg')"
proof -
  obtain s1 where rex: "tcp_rexmit dup_stack 7 dup_pcb = Some (s1, rexmit_pcb)"
    using rexmit_runs by blast
  obtain s' pcb' where enq: "tcp_enqueue dup_stack rexmit_pcb (Some (1, 0)) 3 0 1 None = Some (s', pcb', ERR_OK)"
    using rexmit_write by auto
  have un: "unacked dup_pcb = data_seg 3 1000 3 # data_seg 4 1003 3 # []"
    by (simp add: dup_pcb_def)
  show ?thesis
    using write_after_fast_retransmit [OF dup_facts(1,2) un _ dup_facts(7) _ _ rex enq, of 1000] enq dup_facts by auto
qed

end
