(* ===== verification/Headers.thy ===== *)
theory Headers
  imports Stack
begin

text \<open>
  Headers as octets and back, their checksums, and reading what was written to the payload memory.
\<close>

unbundle bit_operations_syntax

section \<open>Words in memory\<close>

lemma length_mem_bytes [simp]: "length (mem_bytes16 w) = 2" "length (mem_bytes32 v) = 4" "mem_bytes16 w \<noteq> []"
  by (simp_all add: mem_bytes16_def mem_bytes32_def)

lemma load16_bytes [simp]: "ucast (load16 (ucast w) (ucast (drop_bit 8 w))) = (w :: u16)"
proof -
  have "unat w < 65536" using unsigned_less [of w, where ?'a = nat] by simp
  then show ?thesis
    by (simp add: word_unat_eq_iff unat_ucast_mod unat_load16 unat_drop_bit_div)
qed

lemma load32_bytes [simp]:
  "load32 (ucast w) (ucast (drop_bit 8 w)) (ucast (drop_bit 16 w)) (ucast (drop_bit 24 w)) = (w :: u32)"
proof -
  let ?x = "unat w"
  have "?x < 4294967296" using unsigned_less [of w, where ?'a = nat] by simp
  then have d: "?x div 65536 = ?x div 256 div 256" "?x div 16777216 = ?x div 256 div 256 div 256"
      "?x div 256 div 256 div 256 mod 256 = ?x div 256 div 256 div 256"
    by (simp_all add: div_mult2_eq [symmetric] less_mult_imp_div_less)
  have "?x mod 256 + 256 * (?x div 256 mod 256) + 65536 * (?x div 65536 mod 256) + 16777216 * (?x div 16777216) = ?x"
    using mod_mult_div_eq [of ?x 256] mod_mult_div_eq [of "?x div 256" 256] mod_mult_div_eq [of "?x div 256 div 256" 256]
    unfolding d by linarith
  moreover have "?x div 16777216 mod 256 = ?x div 16777216"
    using d by simp
  ultimately show ?thesis
    by (simp add: word_unat_eq_iff unat_ucast_mod unat_load32 unat_drop_bit_div)
qed

lemma bytes_load16 [simp]: "ucast (ucast (load16 a b) :: u16) = a" "ucast (drop_bit 8 (ucast (load16 a b) :: u16)) = b"
proof -
  have "unat a < 256" "unat b < 256"
    using unsigned_less [of a, where ?'a = nat] unsigned_less [of b, where ?'a = nat] by simp_all
  then show "ucast (ucast (load16 a b) :: u16) = a" "ucast (drop_bit 8 (ucast (load16 a b) :: u16)) = b"
    by (simp_all add: word_unat_eq_iff unat_ucast_mod unat_load16 unat_drop_bit_div)
qed

lemma octet_div: "(a :: nat) < 256 \<Longrightarrow> (a + 256 * r) div 256 = r" and octet_mod: "a < 256 \<Longrightarrow> (a + 256 * r) mod 256 = a"
  by simp_all

lemma bytes_load32 [simp]:
  "ucast (load32 a b c d) = a" "ucast (drop_bit 8 (load32 a b c d)) = b"
  "ucast (drop_bit 16 (load32 a b c d)) = c" "ucast (drop_bit 24 (load32 a b c d)) = d"
proof -
  have horner: "unat (load32 a b c d) = unat a + 256 * (unat b + 256 * (unat c + 256 * unat d))"
    by (simp add: unat_load32)
  have "unat a < 256" "unat b < 256" "unat c < 256" "unat d < 256"
    using unsigned_less [of a, where ?'a = nat] unsigned_less [of b, where ?'a = nat]
      unsigned_less [of c, where ?'a = nat] unsigned_less [of d, where ?'a = nat] by simp_all
  then have m: "unat (load32 a b c d) mod 256 = unat a" "unat (load32 a b c d) div 256 mod 256 = unat b"
      "unat (load32 a b c d) div 65536 mod 256 = unat c" "unat (load32 a b c d) div 16777216 mod 256 = unat d"
    unfolding horner div_mult2_eq [of _ 256 256, simplified] div_mult2_eq [of _ 65536 256, simplified]
    by (simp_all only: octet_div octet_mod mod_less)
  show "ucast (load32 a b c d) = a" "ucast (drop_bit 8 (load32 a b c d)) = b"
    "ucast (drop_bit 16 (load32 a b c d)) = c" "ucast (drop_bit 24 (load32 a b c d)) = d"
    using m by (simp_all add: word_unat_eq_iff unat_ucast_mod unat_drop_bit_div)
qed

lemma mem_bytes16_load16w: "i + 1 < length bs \<Longrightarrow> mem_bytes16 (load16w bs i) = [bs ! i, bs ! (i + 1)]"
  by (simp add: mem_bytes16_def load16w_def)

lemma mem_bytes32_load32w:
  "i + 3 < length bs \<Longrightarrow> mem_bytes32 (load32w bs i) = [bs ! i, bs ! (i + 1), bs ! (i + 2), bs ! (i + 3)]"
  by (simp add: mem_bytes32_def load32w_def)

section \<open>IP headers\<close>

lemma length_ip_hdr_octets [simp]: "length (ip_hdr_octets h) = 20" "ip_hdr_octets h \<noteq> []"
  by (simp_all add: ip_hdr_octets_def)

lemma ip_hdr_of_octets [simp]: "ip_hdr_of (ip_hdr_octets h @ bs) = h"
  by (simp add: ip_hdr_of_def ip_hdr_octets_def mem_bytes16_def mem_bytes32_def load16w_def load32w_def)

lemma ip_hdr_of_octets' [simp]: "ip_hdr_of (ip_hdr_octets h) = h"
  using ip_hdr_of_octets [of h "[]"] by simp

lemma ip_hdr_octets_of: "length bs \<ge> 20 \<Longrightarrow> ip_hdr_octets (ip_hdr_of bs) = take 20 bs"
  by (rule nth_equalityI)
     (auto simp: ip_hdr_of_def ip_hdr_octets_def mem_bytes16_load16w mem_bytes32_load32w less_Suc_eq numeral_eq_Suc)

text \<open>A header whose checksum is filled in verifies.\<close>

lemma ip_hdr_chksum_verifies:
  "inet_chksum (ip_hdr_octets (h\<lparr>ih_chksum := inet_chksum (ip_hdr_octets (h\<lparr>ih_chksum := 0\<rparr>))\<rparr>)) = 0"
proof -
  define pre where "pre = mem_bytes16 (v_hl_tos h) @ mem_bytes16 (ih_len h) @ mem_bytes16 (ih_id h)
     @ mem_bytes16 (ih_offset h) @ mem_bytes16 (ttl_proto h)"
  define post where "post = mem_bytes32 (ih_src h) @ mem_bytes32 (ih_dest h)"
  have oct: "ip_hdr_octets (h\<lparr>ih_chksum := c\<rparr>) = pre @ [ucast c, ucast (drop_bit 8 c)] @ post" for c
    by (simp add: ip_hdr_octets_def pre_def post_def mem_bytes16_def)
  have "inet_chksum (pre @ [ucast c, ucast (drop_bit 8 c)] @ post) = 0"
    if "c = inet_chksum (pre @ [0, 0] @ post)" for c
    by (rule inet_chksum_fill [OF _ _ that]) (simp_all add: pre_def post_def)
  then show ?thesis
    unfolding oct by simp
qed

section \<open>Reading and writing\<close>

definition block_write :: "u8 list \<Rightarrow> nat \<Rightarrow> u8 list \<Rightarrow> u8 list" where
  "block_write bs i ws = take i bs @ ws @ drop (i + length ws) bs"

lemma length_block_write [simp]: "i + length ws \<le> length bs \<Longrightarrow> length (block_write bs i ws) = length bs"
  by (simp add: block_write_def)

lemma mem_write_at:
  "blocks h b = Some bs \<Longrightarrow> i + length ws \<le> length bs \<Longrightarrow> 
   mem_write h (b, int i) ws = Some (h\<lparr>blocks := (blocks h)(b \<mapsto> block_write bs i ws)\<rparr>)"
  by (cases "ws = []") (auto simp: mem_write_def block_write_def fun_upd_idem)

lemma mem_read_at:
  "blocks h b = Some bs \<Longrightarrow> i + n \<le> length bs \<Longrightarrow> mem_read h (b, int i) n = Some (take n (drop i bs))"
  by (simp add: mem_read_def)

lemma mem_read_other: "mem_read (h\<lparr>blocks := (blocks h)(b \<mapsto> bs)\<rparr>) a n = mem_read h a n" if "fst a \<noteq> b"
  using that by (simp add: mem_read_def)

text \<open>The contents of a chain depend only on its pbufs and their blocks.\<close>

lemma chain_data_frame:
  assumes "chain_data h qs = Some bs" "\<And>q. q \<in> set qs \<Longrightarrow> pbufs h' q = pbufs h q"
    and "\<And>q. q \<in> set qs \<Longrightarrow> blocks h' (fst (payload (pb h q))) = blocks h (fst (payload (pb h q)))"
  shows "chain_data h' qs = Some bs"
  using assms
proof (induction qs arbitrary: bs)
  case (Cons q qs)
  then show ?case
    by (fastforce simp: pbuf_data_def mem_read_def)
qed simp

end
