(* ===== verification/Fragments.thy ===== *)
theory Fragments
  imports Ip_Frag Headers Sample
begin

text \<open>
  What \<^verbatim>\<open>ip_frag\<close> sends: a train of fragments that carry the data of the datagram in order.
\<close>

unbundle bit_operations_syntax

section \<open>Sending one pbuf behind an empty header pbuf\<close>

definition ram :: "ptr \<Rightarrow> u16 \<Rightarrow> pbuf" where
  "ram fb m = \<lparr>p_next = NULL, payload = (fb, 0), tot_len = m, p_len = m, p_type = PBUF_REF, p_flags = 0, p_ref = 1\<rparr>"

lemma pbuf_octets_chain: "chain h p qs \<Longrightarrow> chain_data h qs = Some bs \<Longrightarrow> \<exists>xs. pbuf_octets h p = Some xs \<and> concat xs = bs"
proof (induction qs arbitrary: p bs)
  case Nil
  then show ?case by (subst pbuf_octets.simps) simp
next
  case (Cons q qs)
  then obtain b d r where b: "p = q" "q \<noteq> NULL" "pbufs h q = Some b" "chain h (p_next b) qs"
      "pbuf_data h q = Some d" "chain_data h qs = Some r" "bs = d @ r"
    by (auto simp: chain_Cons)
  obtain xs where "pbuf_octets h (p_next b) = Some xs" "concat xs = r"
    using Cons.IH [OF b(4,6)] by blast
  then show ?case
    using b by (subst pbuf_octets.simps) (auto simp: pbuf_data_def)
qed

definition sent_heap :: "heap \<Rightarrow> heap" where
  "sent_heap h = h\<lparr>brk := brk h + 1\<rparr>"

lemma realloc_ram:
  assumes "pbufs h r = Some (ram fb m)" "n \<le> m" "r \<noteq> NULL"
  shows "pbuf_realloc h r n = Some (put_pbuf r (ram fb n) h)"
  using assms by (subst pbuf_realloc_def, subst pbuf_realloc_loop.simps)
    (auto simp: ram_def Let_def put_pbuf_def fun_upd_idem not_le)

text \<open>The driver gets the octets of \<open>r\<close>; afterwards the heap is as before, but for the used address.\<close>

lemma ip_frag_send_ram:
  assumes "heap_ok (mem s)" "mem_ok (mem s) (brk (mem s))" "pbufs (mem s) r = Some (ram fb m)" "r \<noteq> NULL"
    and "blocks (mem s) fb = Some bs" "unat m \<le> length bs"
  shows "ip_frag_send s nif dest r = Some (s\<lparr>mem := sent_heap (mem s), link := link s @ [Output nif (take (unat m) bs) dest]\<rparr>, True)"
proof -
  define h where "h = mem s"
  define a where "a = brk h"
  have a: "a \<noteq> NULL" "pbufs h a = None" "blocks h a = None" "a \<noteq> r" "a \<noteq> fb"
    using assms by (auto simp: heap_ok_def a_def h_def)
  define hb :: pbuf where "hb = \<lparr>p_next = NULL, payload = (a, 14), tot_len = 0, p_len = 0, p_type = PBUF_RAM, p_flags = 0, p_ref = 1\<rparr>"
  define h1 where "h1 = h\<lparr>brk := a + 1, blocks := (blocks h)(a \<mapsto> map (junk h a) [0..<14]), pbufs := (pbufs h)(a \<mapsto> hb)\<rparr>"
  have alloc: "pbuf_alloc_s s PBUF_LINK 0 PBUF_RAM = Some (s\<lparr>mem := h1\<rparr>, a)"
    using assms(2) a by (simp add: pbuf_alloc_s_def pbuf_alloc_def mem_malloc_pbuf_def pbuf_offset_def PBUF_LINK_HLEN_def
        put_pbuf_def h1_def hb_def h_def a_def Let_def)
  define h2 where "h2 = h1\<lparr>pbufs := (pbufs h1)(a \<mapsto> hb\<lparr>p_next := r, tot_len := m\<rparr>, r \<mapsto> (ram fb m)\<lparr>p_ref := 2\<rparr>)\<rparr>"
  have r1: "pbufs h1 r = Some (ram fb m)" "pbufs h1 a = Some hb"
    using assms(3) a by (simp_all add: h1_def h_def)
  have chain: "pbuf_chain h1 a r = Some h2"
    using a assms(4) r1 unfolding pbuf_chain_def pbuf_cat_def
    by (subst pbuf_cat_loop.simps) (simp add: put_pbuf_def h2_def hb_def ram_def pbuf_ref_def)
  have "blocks h2 fb = Some bs"
    using assms(5) a by (simp add: h2_def h1_def h_def)
  then have oct: "pbuf_octets h2 a = Some [[], take (unat m) bs]"
    using a assms(4,6) 
    by (subst pbuf_octets.simps, subst pbuf_octets.simps, subst pbuf_octets.simps)
       (simp add: h2_def hb_def ram_def mem_read_def)
  have "pbuf_free h2 a = Some (sent_heap h, 1)"
    using a assms(3,4) unfolding pbuf_free_def
    by (subst pbuf_free_loop.simps, subst pbuf_free_loop.simps)
       (auto simp: h2_def h1_def hb_def ram_def h_def pbuf_dealloc_def mem_free_pbuf_def put_pbuf_def sent_heap_def a_def
         Let_def fun_eq_iff intro!: heap.equality)
  then show ?thesis
    using alloc chain oct a(1) by (simp add: ip_frag_send_def netif_output_def pbuf_free_s_def h_def)
qed

section \<open>One fragment\<close>

text \<open>The octets of a fragment with the header fields \<open>tmp\<close> and the data \<open>ws\<close>, in the buffer \<open>buf\<close>.\<close>

definition frag_octets :: "u8 list \<Rightarrow> u16 \<Rightarrow> u8 list \<Rightarrow> u8 list" where
  "frag_octets buf tmp ws =
     ip_hdr_octets (ip_frag_hdr (ip_hdr_of buf) tmp (of_nat (length ws))) @ ws @ drop (20 + length ws) buf"

lemma length_frag_octets [simp]: "20 + length ws \<le> length buf \<Longrightarrow> length (frag_octets buf tmp ws) = length buf"
  by (simp add: frag_octets_def)

lemma ip_hdr_of_take: "ip_hdr_of (take 20 bs) = ip_hdr_of bs" if "20 \<le> length bs"
  using that by (simp add: ip_hdr_of_def load16w_def load32w_def)

text \<open>The heap and the buffers between two fragments.\<close>

definition frag_state :: "stack \<Rightarrow> ptr \<Rightarrow> u16 \<Rightarrow> u8 list \<Rightarrow> ptr \<Rightarrow> ptr list \<Rightarrow> u8 list \<Rightarrow> bool" where
  "frag_state s r m buf p qs bs \<longleftrightarrow> heap_ok (mem s) \<and> mem_ok (mem s) = (\<lambda>a. True)
     \<and> r \<noteq> NULL \<and> pbufs (mem s) r = Some (ram (frag_buf s) m) \<and> r \<notin> set qs
     \<and> blocks (mem s) (frag_buf s) = Some buf \<and> length buf = 1500 \<and> unat m \<le> 1500
     \<and> chain (mem s) p qs \<and> chain_data (mem s) qs = Some bs
     \<and> (\<forall>q\<in>set qs. fst (payload (pb (mem s) q)) \<noteq> frag_buf s)"

definition after_frag :: "stack \<Rightarrow> ptr \<Rightarrow> ip_addr \<Rightarrow> ptr \<Rightarrow> u16 \<Rightarrow> u8 list \<Rightarrow> stack" where
  "after_frag s nif dest r m buf =
     s\<lparr>mem := (mem s)\<lparr>pbufs := (pbufs (mem s))(r \<mapsto> ram (frag_buf s) m), blocks := (blocks (mem s))(frag_buf s \<mapsto> buf),
                       brk := brk (mem s) + 1\<rparr>,
       link := link s @ [Output nif (take (unat m) buf) dest]\<rparr>"

lemma frag_state_after:
  assumes "frag_state s r m buf p qs bs" "length buf' = 1500" "unat m' \<le> 1500"
  shows "frag_state (after_frag s nif dest r m' buf') r m' buf' p qs bs"
proof -
  let ?s = "after_frag s nif dest r m' buf'"
  have same: "pbufs (mem ?s) q = pbufs (mem s) q" "blocks (mem ?s) (fst (payload (pb (mem s) q))) = blocks (mem s) (fst (payload (pb (mem s) q)))"
    if "q \<in> set qs" for q
    using assms(1) that by (auto simp: frag_state_def after_frag_def)
  have "chain (mem ?s) p qs"
    using assms(1) chain_cong [of qs "mem ?s" "mem s" p] same(1) by (simp add: frag_state_def)
  moreover have "chain_data (mem ?s) qs = Some bs"
    using assms(1) chain_data_frame [of "mem s" qs bs "mem ?s"] same by (simp add: frag_state_def)
  moreover have "\<forall>q\<in>set qs. fst (payload (pb (mem ?s) q)) \<noteq> frag_buf s"
    using assms(1) same(1) by (simp add: frag_state_def)
  moreover have "frag_buf s < brk (mem s)" "r < brk (mem s)"
    using assms(1) unfolding frag_state_def heap_ok_def by (metis not_less option.distinct(1))+
  then have "heap_ok (mem ?s)"
    using assms(1) by (simp add: frag_state_def after_frag_def heap_ok_def)
  moreover have "frag_buf ?s = frag_buf s" "pbufs (mem ?s) r = Some (ram (frag_buf s) m')"
      "blocks (mem ?s) (frag_buf s) = Some buf'" "mem_ok (mem ?s) = mem_ok (mem s)"
    by (simp_all add: after_frag_def)
  ultimately show ?thesis
    using assms unfolding frag_state_def by simp
qed

lemma ip_frag_one_sends:
  assumes st: "frag_state s r m buf p qs bs" and len: "20 + unat cop \<le> 1500" "unat poff + unat cop \<le> length bs"
    and last: "l \<Longrightarrow> left = cop \<and> left + 20 \<le> m" and ws: "ws = take (unat cop) (drop (unat poff) bs)"
    and m': "m' = (if l then left + 20 else m)"
  shows "ip_frag_one s p nif dest r l left tmp cop poff =
    Some (after_frag s nif dest r m' (frag_octets buf tmp ws), poff + cop, True)"
proof -
  let ?h = "mem s" and ?fb = "frag_buf s" and ?new = "frag_octets buf tmp ws"
  have lws: "length ws = unat cop" and copy: "pbuf_copy_partial ?h p cop poff = Some ws"
    using st len ws by (auto simp: frag_state_def copy_partial_chain)
  define h1 where "h1 = ?h\<lparr>blocks := (blocks ?h)(?fb \<mapsto> block_write buf 20 ws)\<rparr>"
  have w1: "mem_write ?h (?fb, int (unat IP_HLEN)) ws = Some h1"
    using st len(1) lws unfolding h1_def frag_state_def by (subst mem_write_at [of _ _ buf]) (auto simp: IP_HLEN_def)
  have rd: "read_ip_hdr h1 (?fb, 0) = Some (ip_hdr_of buf)"
    using st lws len(1) ip_hdr_of_take [of buf] mem_read_at [of h1 ?fb "block_write buf 20 ws" 0 20]
    by (auto simp: read_ip_hdr_def h1_def frag_state_def block_write_def)
  define h2 where "h2 = ?h\<lparr>blocks := (blocks ?h)(?fb \<mapsto> ?new)\<rparr>"
  have w2: "mem_write h1 (?fb, 0) (ip_hdr_octets (ip_frag_hdr (ip_hdr_of buf) tmp cop)) = Some h2"
    using st lws len(1) mem_write_at [of h1 ?fb "block_write buf 20 ws" 0 "ip_hdr_octets (ip_frag_hdr (ip_hdr_of buf) tmp cop)"]
    by (auto simp: h1_def h2_def frag_state_def block_write_def frag_octets_def)
  define h3 where "h3 = h2\<lparr>pbufs := (pbufs ?h)(r \<mapsto> ram ?fb m')\<rparr>"
  have re: "(if l then pbuf_realloc h2 r (left + IP_HLEN) else Some h2) = Some h3"
    using st last realloc_ram [of h2 r ?fb m "left + 20"]
    by (auto simp: h3_def h2_def frag_state_def m' IP_HLEN_def put_pbuf_def fun_upd_idem)
  have "unat m' \<le> 1500"
    using st last by (auto simp: m' frag_state_def word_le_nat_alt)
  then have send: "ip_frag_send (s\<lparr>mem := h3\<rparr>) nif dest r = Some (after_frag s nif dest r m' ?new, True)"
    using st len(1) lws
    by (subst ip_frag_send_ram [of _ r ?fb m' ?new]) (auto simp: frag_state_def h3_def h2_def heap_ok_def after_frag_def sent_heap_def)
  show ?thesis
    unfolding ip_frag_one_def by (simp add: copy w1 [simplified] rd w2 re send lws)
qed

section \<open>The train of fragments\<close>

text \<open>The fields of a header that fragmentation keeps.\<close>

definition hdr_base :: "ip_hdr \<Rightarrow> ip_hdr" where
  "hdr_base h = h\<lparr>ih_len := 0, ih_offset := 0, ih_chksum := 0\<rparr>"

text \<open>A list of packets that carries \<open>data\<close>, from the offset \<open>ofo\<close> on in units of 8 octets: every packet has
  the fields of the header \<open>iphdr\<close>, a header checksum that verifies, its place in the datagram, and the flag
  \<open>IP_MF\<close> unless it is the last; only the last may have a length that is no multiple of 8.\<close>

fun frag_train :: "ip_hdr \<Rightarrow> nat \<Rightarrow> u16 \<Rightarrow> u16 \<Rightarrow> u8 list \<Rightarrow> u8 list list \<Rightarrow> bool" where
  "frag_train iphdr mtu omf ofo data [] \<longleftrightarrow> data = []"
| "frag_train iphdr mtu omf ofo data (f # fs) \<longleftrightarrow>
     (let h = ip_hdr_of f; n = unat (ntohs (ih_len h)) - 20
      in length f \<le> mtu \<and> 0 < n \<and> 20 + n \<le> length f \<and> n \<le> length data
         \<and> hdr_base h = hdr_base iphdr \<and> inet_chksum (take 20 f) = 0
         \<and> ntohs (ih_offset h) = omf OR (IP_OFFMASK AND ofo) OR (if fs = [] then 0 else IP_MF)
         \<and> (fs \<noteq> [] \<longrightarrow> n mod 8 = 0)
         \<and> take n (drop 20 f) = take n data
         \<and> frag_train iphdr mtu omf (ofo + of_nat (n div 8)) (drop n data) fs)"

lemma frag_hdr_fields [simp]:
  "ntohs (ih_offset (ip_frag_hdr h tmp cop)) = tmp" "ntohs (ih_len (ip_frag_hdr h tmp cop)) = cop + 20"
  "hdr_base (ip_frag_hdr h tmp cop) = hdr_base h"
  by (simp_all add: ip_frag_hdr_def Let_def hdr_base_def ntohs_def htons_htons IP_HLEN_def)

lemma frag_hdr_chksum: "inet_chksum (ip_hdr_octets (ip_frag_hdr h tmp cop)) = 0"
  using ip_hdr_chksum_verifies [of "h\<lparr>ih_offset := htons tmp, ih_len := htons (cop + IP_HLEN)\<rparr>"]
  by (simp add: ip_frag_hdr_def Let_def)

lemma frag_octets_fields:
  assumes "20 + length ws \<le> m" "m \<le> length buf"
  shows "ip_hdr_of (take m (frag_octets buf tmp ws)) = ip_frag_hdr (ip_hdr_of buf) tmp (of_nat (length ws))"
    "take 20 (take m (frag_octets buf tmp ws)) = ip_hdr_octets (ip_frag_hdr (ip_hdr_of buf) tmp (of_nat (length ws)))"
    "take (length ws) (drop 20 (take m (frag_octets buf tmp ws))) = ws"
    "ip_hdr_of (frag_octets buf tmp ws) = ip_frag_hdr (ip_hdr_of buf) tmp (of_nat (length ws))"
  using assms by (simp_all add: frag_octets_def take_drop [symmetric] drop_take)

text \<open>One more packet in front of a train.\<close>

lemma frag_train_step:
  assumes len: "0 < length ws" "20 + length ws \<le> m" "m \<le> length buf" "m \<le> mtu" "mtu \<le> 1500" "ws = take (length ws) data"
    and base: "hdr_base (ip_hdr_of buf) = hdr_base iphdr"
    and tmp: "tmp = omf OR (IP_OFFMASK AND ofo) OR (if fs = [] then 0 else IP_MF)" "fs \<noteq> [] \<Longrightarrow> length ws mod 8 = 0"
    and rest: "frag_train iphdr mtu omf (ofo + of_nat (length ws div 8)) (drop (length ws) data) fs"
  shows "frag_train iphdr mtu omf ofo data (take m (frag_octets buf tmp ws) # fs)"
proof -
  have "unat (of_nat (length ws) + 20 :: u16) = length ws + 20"
    using len by (simp add: unat_word_ariths unat_of_nat)
  moreover have "length ws \<le> length data"
    using len(1,6) by (metis length_take min.absorb_iff1 nat_le_linear take_all)
  ultimately show ?thesis
    using assms frag_octets_fields [of ws m buf tmp] by (simp add: Let_def frag_hdr_chksum min_def)
qed

section \<open>The loop\<close>

lemma free_ram: "pbufs (mem s) r = Some (ram fb m) \<Longrightarrow> r \<noteq> NULL \<Longrightarrow> \<exists>h. pbuf_free_s s r = Some (s\<lparr>mem := h\<rparr>, 1)"
  unfolding pbuf_free_s_def pbuf_free_def
  by (subst pbuf_free_loop.simps, subst pbuf_free_loop.simps) (auto simp: ram_def)

lemma ip_frag_loop_sends:
  assumes "frag_state s r mtu buf p qs bs" "28 \<le> mtu" "unat poff + unat left = length bs" "length bs < 65536"
    and "hdr_base (ip_hdr_of buf) = hdr_base iphdr" "nfb = of_nat ((unat mtu - 20) div 8)"
  shows "\<exists>s' fs. ip_frag_loop s p nif dest r mtu nfb omf left ofo poff = Some (s', ERR_OK)
    \<and> link s' = link s @ map (\<lambda>f. Output nif f dest) fs \<and> frag_train iphdr (unat mtu) omf ofo (drop (unat poff) bs) fs"
  using assms
proof (induction "unat left" arbitrary: s buf left ofo poff rule: less_induct)
  case less
  note st = less.prems(1)
  have mtu: "unat mtu \<le> 1500" "28 \<le> unat mtu" and r: "r \<noteq> NULL" "pbufs (mem s) r = Some (ram (frag_buf s) mtu)"
      and buf: "length buf = 1500"
    using st less.prems(2) by (auto simp: frag_state_def word_le_nat_alt)
  define k where "k = (unat mtu - 20) div 8"
  have k: "0 < k" "8 * k \<le> unat mtu - 20" "unat nfb = k" "unat (nfb * 8) = 8 * k"
    using mtu less.prems(6) by (simp_all add: k_def unat_of_nat unat_word_ariths div_greater_zero_iff)
  show ?case
  proof (cases "left = 0")
    case True
    then obtain h where "pbuf_free_s s r = Some (s\<lparr>mem := h\<rparr>, 1)"
      using free_ram r by blast
    then show ?thesis
      using True less.prems(3) by (subst ip_frag_loop.simps) (auto intro!: exI [of _ "[]"])
  next
    case False
    define l where "l = (int (unat left) \<le> int (unat mtu) - int (unat IP_HLEN))"
    define cop where "cop = (if l then left else nfb * 8)"
    define tmp where "tmp = (if \<not> l then (omf OR (IP_OFFMASK AND ofo)) OR IP_MF else omf OR (IP_OFFMASK AND ofo))"
    define ws where "ws = take (unat cop) (drop (unat poff) bs)"
    define m where "m = (if l then left + 20 else mtu)"
    define s1 where "s1 = after_frag s nif dest r m (frag_octets buf tmp ws)"
    have "int (unat IP_HLEN) = 20"
      by (simp add: IP_HLEN_def)
    then have lst: "l \<longleftrightarrow> unat left + 20 \<le> unat mtu"
      unfolding l_def by linarith
    have cop: "0 < unat cop" "unat cop \<le> unat left" "20 + unat cop \<le> unat mtu" "cop \<le> left"
      using k lst mtu unat_gt_0 [of left] False unfolding cop_def word_le_nat_alt by (auto simp del: unat_gt_0)
    have lws: "length ws = unat cop"
      using cop less.prems(3) by (simp add: ws_def)
    have m: "unat m \<le> unat mtu" "20 + unat cop \<le> unat m"
      using lst mtu cop by (auto simp: m_def cop_def unat_word_ariths)
    have "ip_frag_one s p nif dest r l left tmp cop poff = Some (s1, poff + cop, True)"
      unfolding s1_def using cop mtu less.prems(3) lst
      by (intro ip_frag_one_sends [OF st _ _ _ ws_def m_def]) (auto simp: cop_def word_le_nat_alt unat_word_ariths)
    then have step: "ip_frag_loop s p nif dest r mtu nfb omf left ofo poff
        = ip_frag_loop s1 p nif dest r mtu nfb omf (left - cop) (ofo + nfb) (poff + cop)"
      using False unfolding ip_frag_loop.simps [of s p nif dest r mtu nfb omf left] Let_def l_def [symmetric]
        cop_def [symmetric] tmp_def [symmetric] by simp
    have train: "frag_train iphdr (unat mtu) omf ofo (drop (unat poff) bs) (take (unat m) (frag_octets buf tmp ws) # fs)"
      if "frag_train iphdr (unat mtu) omf (ofo + of_nat (unat cop div 8)) (drop (unat poff + unat cop) bs) fs"
        "l \<longleftrightarrow> fs = []" for fs
      using that cop m mtu k buf less.prems(5) lws
      by (intro frag_train_step) (auto simp: tmp_def ws_def cop_def ac_simps)
    have link: "link s1 = link s @ [Output nif (take (unat m) (frag_octets buf tmp ws)) dest]"
      by (simp add: s1_def after_frag_def)
    have sub: "unat (left - cop) = unat left - unat cop" "unat (poff + cop) = unat poff + unat cop"
      using cop less.prems(3,4) by (simp_all add: unat_sub unat_word_ariths)
    show ?thesis
    proof (cases l)
      case True
      have "pbufs (mem s1) r = Some (ram (frag_buf s) m)"
        by (simp add: s1_def after_frag_def)
      then obtain h where "pbuf_free_s s1 r = Some (s1\<lparr>mem := h\<rparr>, 1)"
        using free_ram r by blast
      then have "ip_frag_loop s p nif dest r mtu nfb omf left ofo poff = Some (s1\<lparr>mem := h\<rparr>, ERR_OK)"
        using True unfolding step by (subst ip_frag_loop.simps) (simp add: cop_def)
      moreover have "drop (unat poff + unat cop) bs = []"
        using True less.prems(3) by (simp add: cop_def)
      ultimately show ?thesis
        using train [of "[]"] True link by (auto intro!: exI [of _ "[_]"])
    next
      case False
      have "frag_state s1 r mtu (frag_octets buf tmp ws) p qs bs"
        unfolding s1_def using frag_state_after [OF st] False lws cop mtu buf by (simp add: m_def)
      moreover have "hdr_base (ip_hdr_of (frag_octets buf tmp ws)) = hdr_base iphdr"
        using less.prems(5) frag_octets_fields(4) [of ws 1500 buf tmp] lws cop mtu buf by simp
      ultimately obtain s' fs where IH: "ip_frag_loop s1 p nif dest r mtu nfb omf (left - cop) (ofo + nfb) (poff + cop) = Some (s', ERR_OK)"
          "link s' = link s1 @ map (\<lambda>f. Output nif f dest) fs"
          "frag_train iphdr (unat mtu) omf (ofo + nfb) (drop (unat (poff + cop)) bs) fs"
        using less.hyps [of "left - cop" s1 "frag_octets buf tmp ws" "poff + cop" "ofo + nfb"] sub cop less.prems by auto
      moreover have "drop (unat (poff + cop)) bs \<noteq> []"
        using sub False lst less.prems(3) k by (simp add: cop_def)
      then have "fs \<noteq> []" using IH(3) by auto
      moreover have "of_nat (unat cop div 8) = nfb"
        using False k(4) less.prems(6) by (simp add: cop_def k_def)
      ultimately show ?thesis
        unfolding step using train [of fs] False link sub by (auto intro!: exI [of _ "_ # fs"])
    qed
  qed
qed

section \<open>The whole datagram\<close>

definition frag_body :: "u8 list \<Rightarrow> u8 list" where
  "frag_body f = take (unat (ntohs (ih_len (ip_hdr_of f))) - 20) (drop 20 f)"

lemma frag_train_data: "frag_train iphdr mtu omf ofo data fs \<Longrightarrow> concat (map frag_body fs) = data"
proof (induction fs arbitrary: ofo data)
  case (Cons f fs)
  let ?n = "unat (ntohs (ih_len (ip_hdr_of f))) - 20"
  have "frag_body f = take ?n data"
    using Cons.prems by (simp add: Let_def frag_body_def)
  moreover have "concat (map frag_body fs) = drop ?n data"
    using Cons by (auto simp: Let_def)
  ultimately show ?case by simp
qed simp

lemma ip_hdr_of_append: "20 \<le> length bs \<Longrightarrow> ip_hdr_of (bs @ cs) = ip_hdr_of bs"
  using ip_hdr_of_take [of "bs @ cs"] ip_hdr_of_take [of bs] by simp

lemma ip_frag_start:
  assumes "netifs s nif = Some nf" "heap_ok (mem s)" "mem_ok (mem s) = (\<lambda>a. True)" "packet (mem s) p qs"
    and "20 \<le> p_len (pb (mem s) p)" "p \<noteq> NULL" "chain_data (mem s) qs = Some bs" "blocks (mem s) (frag_buf s) = Some buf" "length buf = 1500"
    and "\<forall>q\<in>set qs. fst (payload (pb (mem s) q)) \<noteq> frag_buf s" "nf_mtu nf \<le> 1500"
  shows "\<exists>s' r buf'. frag_state s' r (nf_mtu nf) buf' p qs bs \<and> ip_hdr_of buf' = ip_hdr_of bs \<and> link s' = link s
    \<and> ip_frag s p nif dest = ip_frag_loop s' p nif dest r (nf_mtu nf) (ip_frag_nfb (nf_mtu nf))
        (ntohs (ih_offset (ip_hdr_of bs)) AND IP_MF) (of_nat (length bs) - 20) (ntohs (ih_offset (ip_hdr_of bs)) AND IP_OFFMASK) 20"
proof -
  let ?h = "mem s" and ?fb = "frag_buf s"
  define r where "r = brk ?h"
  obtain b d e rs where q: "qs = p # rs" "pbufs ?h p = Some b" "pbuf_data ?h p = Some d" "chain_data ?h rs = Some e" "bs = d @ e"
    using assms(4,6,7) by (cases qs) (auto simp: packet_def)
  have fresh: "r \<noteq> NULL" "pbufs ?h r = None" "blocks ?h r = None" "r \<noteq> ?fb"
    using assms(2,8) by (auto simp: heap_ok_def r_def)
  have notin: "r \<notin> set qs"
    using fresh(2) assms(4) chain_live [of ?h p qs r] by (auto simp: packet_def)
  have d: "length d = unat (p_len b)" "mem_read ?h (payload b) (unat (p_len b)) = Some d" "20 \<le> unat (p_len b)"
    using q(2,3) assms(5) mem_read_length by (auto simp: pbuf_data_def word_le_nat_alt)
  define buf' where "buf' = block_write buf 0 (take 20 d)"
  define h1 where "h1 = ?h\<lparr>brk := brk ?h + 1, pbufs := (pbufs ?h)(r \<mapsto> ram ?fb (nf_mtu nf))\<rparr>"
  define h2 where "h2 = h1\<lparr>blocks := (blocks h1)(?fb \<mapsto> buf')\<rparr>"
  have rd: "mem_read h1 (payload b) 20 = Some (take 20 d)"
    using mem_read_sub [OF d(2), of 0 20] d(3) by (simp add: h1_def ptr_add_def mem_read_def)
  have wr: "mem_write h1 (?fb, 0) (take 20 d) = Some h2"
    using mem_write_at [of h1 ?fb buf 0 "take 20 d"] assms(8,9) d by (simp add: h1_def h2_def buf'_def)
  have buf': "length buf' = 1500" "ip_hdr_of buf' = ip_hdr_of bs"
    using assms(9) d q(5) ip_hdr_of_take [of d]
    by (simp_all add: buf'_def block_write_def ip_hdr_of_append)
  then have rh: "read_ip_hdr h2 (?fb, 0) = Some (ip_hdr_of bs)"
    using mem_read_at [of h2 ?fb buf' 0 20] ip_hdr_of_take [of buf'] by (simp add: h2_def read_ip_hdr_def)
  have st: "frag_state (s\<lparr>mem := h2\<rparr>) r (nf_mtu nf) buf' p qs bs"
  proof -
    have same: "pbufs h2 q = pbufs ?h q" "blocks h2 (fst (payload (pb ?h q))) = blocks ?h (fst (payload (pb ?h q)))" if "q \<in> set qs" for q
      using that assms(10) notin by (auto simp: h2_def h1_def)
    have "chain h2 p qs" "chain_data h2 qs = Some bs"
      using same assms(4,7) chain_cong [of qs h2 ?h p] chain_data_frame [of ?h qs bs h2] by (simp_all add: packet_def)
    moreover have "heap_ok h2"
      using assms(2,8) fresh by (auto simp: heap_ok_def h2_def h1_def r_def)
    moreover have "\<forall>q\<in>set qs. fst (payload (pb h2 q)) \<noteq> ?fb"
      using same(1) assms(10) by simp
    ultimately show ?thesis
      using fresh(1) notin buf' assms(3,11) by (simp add: frag_state_def h2_def h1_def word_le_nat_alt)
  qed
  have tot: "tot_len b = of_nat (length bs)"
  proof -
    have u: "unat (tot_len b) = length bs"
      using assms(4) q(1,2) chain_data_length [OF assms(7)] by (auto simp: packet_def)
    show ?thesis
      unfolding u [symmetric] by simp
  qed
  define h0 where "h0 = ?h\<lparr>brk := brk ?h + 1, pbufs := (pbufs ?h)(r \<mapsto> ram NULL 0)\<rparr>"
  have alloc: "pbuf_alloc_s s PBUF_LINK 0 PBUF_REF = Some (s\<lparr>mem := h0\<rparr>, r)"
    using assms(3) fresh(1) by (simp add: pbuf_alloc_s_def pbuf_alloc_def memp_malloc_pbuf_def Let_def r_def put_pbuf_def
        h0_def ram_def)
  have r0: "pbufs h0 r = Some (ram NULL 0)"
    by (simp add: h0_def)
  have put: "put_pbuf r ((ram NULL 0)\<lparr>tot_len := nf_mtu nf, p_len := nf_mtu nf, payload := (?fb, 0)\<rparr>) h0 = h1"
    by (simp add: h0_def h1_def put_pbuf_def ram_def)
  have p1: "pbufs h1 p = Some b"
    using q(1,2) notin by (auto simp: h1_def)
  have "ip_frag s p nif dest = ip_frag_loop (s\<lparr>mem := h2\<rparr>) p nif dest r (nf_mtu nf) (ip_frag_nfb (nf_mtu nf))
        (ntohs (ih_offset (ip_hdr_of bs)) AND IP_MF) (of_nat (length bs) - 20) (ntohs (ih_offset (ip_hdr_of bs)) AND IP_OFFMASK) 20"
    using assms(1) fresh(1) by (simp add: ip_frag_def alloc r0 put p1 tot Let_def IP_HLEN_def rd wr rh del: pbufs_put mem_read_put)
  then show ?thesis
    using st buf' by (intro exI [of _ "s\<lparr>mem := h2\<rparr>"]) auto
qed

text \<open>With an MTU from 20 to 27 no octet of data fits in a fragment that is not the last, and the loop makes no
  progress: it ends only when a pbuf cannot be allocated.\<close>

lemma ip_frag_loop_stuck:
  "ip_frag_loop s p nif dest r mtu nfb omf left ofo poff = Some res \<Longrightarrow> nfb = 0 \<Longrightarrow>
   int (unat left) > int (unat mtu) - int (unat IP_HLEN) \<Longrightarrow> left \<noteq> 0 \<Longrightarrow> snd res = ERR_MEM"
proof (induction rule: ip_frag_loop.raw_induct [rotated, consumes 1, case_names step])
  case (step loop s p nif dest r mtu nfb omf left ofo poff res)
  then show ?case
    by (cases res) (auto simp: Let_def split: if_split_asm Option.bind_split_asm)
qed

lemma ip_frag_small_mtu:
  assumes "netifs s nif = Some nf" "pbufs (mem s) p = Some b" "20 \<le> nf_mtu nf" "nf_mtu nf < 28" "nf_mtu nf < tot_len b"
    and "ip_frag s p nif dest = Some (s', e)" "p < brk (mem s)"
  shows "e = ERR_MEM"
proof -
  have "ip_frag_nfb (nf_mtu nf) = 0"
  proof -
    have "int (unat IP_HLEN) = 20" "20 \<le> int (unat (nf_mtu nf))" "int (unat (nf_mtu nf)) < 28"
      using assms(3,4) by (simp_all add: IP_HLEN_def word_le_def word_less_def)
    then show ?thesis
      unfolding ip_frag_nfb_def Let_def by simp
  qed
  moreover have "int (unat (nf_mtu nf)) - int (unat IP_HLEN) < int (unat (tot_len b - IP_HLEN))" "tot_len b - IP_HLEN \<noteq> 0"
  proof -
    have "IP_HLEN \<le> tot_len b" "unat IP_HLEN = 20" "20 \<le> unat (nf_mtu nf)" "unat (nf_mtu nf) < unat (tot_len b)"
      using assms(3,5) by (auto simp: IP_HLEN_def word_le_nat_alt word_less_nat_alt)
    then have "int (unat (tot_len b - IP_HLEN)) = int (unat (tot_len b)) - 20" "int (unat (nf_mtu nf)) < int (unat (tot_len b))"
        "20 \<le> int (unat (nf_mtu nf))"
      by (simp_all add: unat_sub of_nat_diff word_less_nat_alt del: of_nat_unat)
    moreover have "int (unat IP_HLEN) = 20" by (simp add: IP_HLEN_def)
    ultimately show "int (unat (nf_mtu nf)) - int (unat IP_HLEN) < int (unat (tot_len b - IP_HLEN))" "tot_len b - IP_HLEN \<noteq> 0"
      by (auto simp del: of_nat_unat)
  qed
  ultimately show ?thesis
    using assms by (auto simp: ip_frag_def pbuf_alloc_s_def pbuf_alloc_def memp_malloc_pbuf_def Let_def
        split: if_split_asm Option.bind_split_asm dest!: ip_frag_loop_stuck)
qed

definition frag_sample :: stack where
  "frag_sample = (sample_stack
     \<lparr>pbufs = [1 \<mapsto> \<lparr>p_next = NULL, payload = (1, 0), tot_len = 32, p_len = 32, p_type = PBUF_RAM, p_flags = 0, p_ref = 1\<rparr>],
      blocks = [1 \<mapsto> map of_nat [0..<32], 2 \<mapsto> replicate 1500 0], brk = 3, mem_ok = (\<lambda>a. True), junk = (\<lambda>a i. 0),
      pool_payload = PBUF_POOL_BUFSIZE\<rparr>)
     \<lparr>frag_buf := 2, netifs := [1 \<mapsto> sample_netif\<lparr>nf_mtu := 28\<rparr>]\<rparr>"

section \<open>Properties\<close>

text \<open>C7. Fragmentation carries the whole datagram: for an interface with an MTU from 28 to the size of the static
  buffer, a well-formed packet and a heap in which every allocation succeeds, \<^verbatim>\<open>ip_frag\<close> returns \<^verbatim>\<open>ERR_OK\<close> and has given the
  driver a list of packets, none longer than the MTU, whose data put together is the data of the datagram. Every
  packet has the addresses, the identification and the other fields of the original header, its own length, the offset
  of its data, a checksum that verifies, and the flag \<^verbatim>\<open>IP_MF\<close> on all but the last, and all but the
  last carry a multiple of 8 octets.\<close>

theorem ip_frag_carries_datagram:
  assumes "netifs s nif = Some nf" "28 \<le> nf_mtu nf" "nf_mtu nf \<le> 1500"
    and "heap_ok (mem s)" "mem_ok (mem s) = (\<lambda>a. True)" "blocks (mem s) (frag_buf s) = Some buf" "length buf = 1500"
    and "packet (mem s) p qs" "p \<noteq> NULL" "20 \<le> p_len (pb (mem s) p)" "chain_data (mem s) qs = Some bs"
    and "\<forall>q\<in>set qs. fst (payload (pb (mem s) q)) \<noteq> frag_buf s"
  shows "\<exists>s' fs. ip_frag s p nif dest = Some (s', ERR_OK) \<and> link s' = link s @ map (\<lambda>f. Output nif f dest) fs
    \<and> concat (map frag_body fs) = drop 20 bs
    \<and> frag_train (ip_hdr_of bs) (unat (nf_mtu nf)) (ntohs (ih_offset (ip_hdr_of bs)) AND IP_MF)
        (ntohs (ih_offset (ip_hdr_of bs)) AND IP_OFFMASK) (drop 20 bs) fs"
proof -
  let ?o = "ntohs (ih_offset (ip_hdr_of bs))"
  obtain s1 r buf' where 1: "frag_state s1 r (nf_mtu nf) buf' p qs bs" "ip_hdr_of buf' = ip_hdr_of bs" "link s1 = link s"
      "ip_frag s p nif dest = ip_frag_loop s1 p nif dest r (nf_mtu nf) (ip_frag_nfb (nf_mtu nf)) (?o AND IP_MF)
         (of_nat (length bs) - 20) (?o AND IP_OFFMASK) 20"
    using ip_frag_start [OF assms(1,4,5,8,10,9,11,6,7,12,3)] by blast
  have len: "20 \<le> length bs" "length bs < 65536"
    using assms(8-11) chain_data_length [OF assms(11)] unsigned_less [of "tot_len (pb (mem s) p)", where ?'a = nat]
    by (cases qs; auto simp: packet_def word_le_nat_alt)+
  then have left: "unat (of_nat (length bs) - 20 :: u16) = length bs - 20"
    by (subst unat_sub) (simp_all add: word_le_nat_alt unat_of_nat)
  have "28 \<le> unat (nf_mtu nf)" "int (unat IP_HLEN) = 20"
    using assms(2) by (simp_all add: word_le_nat_alt IP_HLEN_def)
  then have d: "int (unat (nf_mtu nf)) - int (unat IP_HLEN) = int (unat (nf_mtu nf) - 20)"
    by linarith
  have nfb: "ip_frag_nfb (nf_mtu nf) = of_nat ((unat (nf_mtu nf) - 20) div 8)"
    unfolding ip_frag_nfb_def Let_def d by (simp add: zdiv_int [of _ 8, simplified, symmetric])
  obtain s' fs where 2: "ip_frag s p nif dest = Some (s', ERR_OK)" "link s' = link s @ map (\<lambda>f. Output nif f dest) fs"
      "frag_train (ip_hdr_of bs) (unat (nf_mtu nf)) (?o AND IP_MF) (?o AND IP_OFFMASK) (drop 20 bs) fs"
    using ip_frag_loop_sends [OF 1(1) assms(2) _ len(2) _ nfb, of 20 "of_nat (length bs) - 20" "ip_hdr_of bs" nif dest
        "?o AND IP_MF" "?o AND IP_OFFMASK"] left len unfolding 1(2-4) by auto
  then show ?thesis
    using frag_train_data by blast
qed

theorem ip_frag_carries_datagram_witness:
  "\<exists>s' fs. ip_frag frag_sample 1 1 7 = Some (s', ERR_OK) \<and> link s' = map (\<lambda>f. Output 1 f 7) fs
    \<and> concat (map frag_body fs) = map of_nat [20..<32]"
proof -
  have data: "chain_data (mem frag_sample) [1] = Some (map of_nat [0..<32])"
    by (simp add: frag_sample_def sample_stack_def pbuf_data_def mem_read_def)
  have "drop 20 (map of_nat [0..<32]) = (map of_nat [20..<32] :: u8 list)"
    by (simp add: drop_map)
  then show ?thesis
    using ip_frag_carries_datagram [of frag_sample 1 "sample_netif\<lparr>nf_mtu := 28\<rparr>" "replicate 1500 0" 1 "[1]" "map of_nat [0..<32]" 7, OF _ _ _ _ _ _ _ _ _ _ data]
    by (auto simp: frag_sample_def sample_stack_def sample_netif_def heap_ok_def packet_def)
qed

end
