(* ===== verification/Ip_Wire.thy ===== *)
theory Ip_Wire
  imports Fragments Ip
begin

text \<open>
  What \<^verbatim>\<open>ip_output_if\<close> gives to the driver: the header it builds, and the whole packet when no
  fragmentation is needed.
\<close>

unbundle bit_operations_syntax

section \<open>The header\<close>

lemma u16_mask8: "(255 :: u16) = mask 8" "(15 :: u16) = mask 4"
  by (simp_all add: mask_eq_exp_minus_1)

lemma octet_of_pair:
  "(ucast (a :: u8) OR push_bit 8 (w :: u16)) AND 0xff = ucast a" "drop_bit 8 (ucast a OR push_bit 8 (drop_bit 8 w)) = drop_bit 8 w"
  "drop_bit 8 (push_bit 8 (ucast a :: u16)) = ucast a" "drop_bit 8 (v AND 0xff OR push_bit 8 (ucast a :: u16)) = ucast a"
  unfolding u16_mask8 by (rule bit_word_eqI; auto simp: bit_simps dest: bit_imp_le_length)+

lemma ip_hdr_macros [simp]:
  "IPH_PROTO (IPH_PROTO_SET proto h) = ucast proto" "IPH_TTL (IPH_PROTO_SET proto h) = IPH_TTL h"
  "IPH_TTL (IPH_TTL_SET t h) = ucast t"
  by (simp_all add: IPH_PROTO_def IPH_PROTO_SET_def IPH_TTL_def IPH_TTL_SET_def ntohs_def htons_htons octet_of_pair del: drop_bit_or)

lemma vhltos_fields:
  "drop_bit 12 (0x4000 OR 0x500 OR ucast (w :: u8)) = (4 :: u16)" "drop_bit 8 (0x4000 OR 0x500 OR ucast (w :: u8)) AND 0xf = (5 :: u16)"
proof -
  have "drop_bit 12 (ucast w :: u16) = 0" "drop_bit 8 (ucast w :: u16) = 0"
    by (rule bit_word_eqI; auto simp: bit_simps dest: bit_imp_le_length)+
  then show "drop_bit 12 (0x4000 OR 0x500 OR ucast w) = (4 :: u16)" "drop_bit 8 (0x4000 OR 0x500 OR ucast w) AND 0xf = (5 :: u16)"
    by simp_all
qed

definition ip_hdr_for :: "ip_hdr \<Rightarrow> ip_addr \<Rightarrow> ip_addr \<Rightarrow> u8 \<Rightarrow> u8 \<Rightarrow> nat \<Rightarrow> bool" where
  "ip_hdr_for h src dest t proto n \<longleftrightarrow> IPH_V h = 4 \<and> IPH_HL h = 5 \<and> IPH_TTL h = ucast t \<and> IPH_PROTO h = ucast proto
     \<and> ih_src h = src \<and> ih_dest h = dest \<and> unat (ntohs (ih_len h)) = n \<and> ih_offset h = 0
     \<and> inet_chksum (ip_hdr_octets h) = 0"

lemma ip_build_hdr_for: "ip_hdr_for (ip_build_hdr h src dest t tos' proto n ident) src dest t proto (unat n)"
proof -
  define h1 where "h1 = (IPH_PROTO_SET proto (IPH_TTL_SET t h))"
  define h2 where "h2 = IPH_VHLTOS_SET 4 (IP_HLEN div 4) tos' (h1\<lparr>ih_dest := dest\<rparr>)\<lparr>ih_len := htons n, ih_offset := 0,
    ih_id := htons ident, ih_src := src\<rparr>"
  have b: "ip_build_hdr h src dest t tos' proto n ident = h2\<lparr>ih_chksum := inet_chksum (ip_hdr_octets (h2\<lparr>ih_chksum := 0\<rparr>))\<rparr>"
    by (simp add: ip_build_hdr_def Let_def h1_def h2_def IPH_VHLTOS_SET_def)
  have "IPH_TTL h1 = ucast t" "IPH_PROTO h1 = ucast proto"
    by (simp_all add: h1_def)
  then show ?thesis
    unfolding b ip_hdr_for_def
    by (simp add: ip_hdr_chksum_verifies)
       (simp add: h2_def IPH_VHLTOS_SET_def IPH_V_def IPH_HL_def IPH_TTL_def IPH_PROTO_def ntohs_def htons_htons IP_HLEN_def
         vhltos_fields del: drop_bit_or)
qed

section \<open>Packets in memory\<close>

text \<open>A packet with the contents \<open>bs\<close>: the payload of its first pbuf \<open>b\<close> starts \<open>i\<close> octets into the block
  \<open>blk\<close> with the contents \<open>buf\<close>, which no other pbuf of the packet uses.\<close>

definition laid_out :: "heap \<Rightarrow> ptr \<Rightarrow> pbuf \<Rightarrow> ptr list \<Rightarrow> u8 list \<Rightarrow> ptr \<Rightarrow> u8 list \<Rightarrow> nat \<Rightarrow> bool" where
  "laid_out h p b qs bs blk buf i \<longleftrightarrow> packet h p (p # qs) \<and> chain_data h (p # qs) = Some bs
     \<and> pbufs h p = Some b \<and> payload b = (blk, int i) \<and> (p_type b = PBUF_RAM \<or> p_type b = PBUF_POOL)
     \<and> blocks h blk = Some buf \<and> i + unat (p_len b) \<le> length buf
     \<and> (\<forall>q\<in>set qs. fst (payload (pb h q)) \<noteq> blk)"

lemma laid_outD:
  assumes "laid_out h p b qs bs blk buf i"
  shows "p \<noteq> NULL" "pbufs h p = Some b" "unat (tot_len b) = length bs" "unat (p_len b) \<le> length bs"
    "p \<notin> set qs" "chain h (p_next b) qs" "payload b = (blk, int i)" "i + unat (p_len b) \<le> length buf"
    "\<exists>e. chain_data h qs = Some e \<and> bs = take (unat (p_len b)) (drop i buf) @ e"
proof -
  have c: "chain h p (p # qs)" and d: "chain_data h (p # qs) = Some bs" and b: "pbufs h p = Some b"
    using assms unfolding laid_out_def packet_def by blast+
  show "p \<noteq> NULL" "pbufs h p = Some b" "chain h (p_next b) qs"
    using c b by auto
  show "p \<notin> set qs"
    using chain_distinct [OF c] by simp
  show "unat (tot_len b) = length bs" "unat (p_len b) \<le> length bs" "payload b = (blk, int i)" "i + unat (p_len b) \<le> length buf"
    using assms chain_data_length [OF d] b by (simp_all add: laid_out_def packet_def)
  obtain a e where a: "pbuf_data h p = Some a" "chain_data h qs = Some e" "bs = a @ e"
    using d by auto
  then have "a = take (unat (p_len b)) (drop i buf)"
    using assms b by (auto simp: laid_out_def pbuf_data_def mem_read_def split: if_splits)
  with a show "\<exists>e. chain_data h qs = Some e \<and> bs = take (unat (p_len b)) (drop i buf) @ e"
    by blast
qed

text \<open>The same heap but for the first pbuf and its block.\<close>

lemma laid_out_change:
  assumes "laid_out h p b qs bs blk buf i" "\<And>q. q \<noteq> p \<Longrightarrow> pbufs h' q = pbufs h q" "\<And>a. a \<noteq> blk \<Longrightarrow> blocks h' a = blocks h a"
    and "pbufs h' p = Some b'" "p_next b' = p_next b" "p_type b' = p_type b" "payload b' = (blk, int i')"
    and "blocks h' blk = Some buf'" "i' + unat (p_len b') \<le> length buf'"
    and "unat (tot_len b') + unat (p_len b) = unat (tot_len b) + unat (p_len b')"
    and "bs' = take (unat (p_len b')) (drop i' buf') @ drop (unat (p_len b)) bs"
  shows "laid_out h' p b' qs bs' blk buf' i'"
proof -
  note f = laid_outD [OF assms(1)]
  obtain e where e: "chain_data h qs = Some e" "bs = take (unat (p_len b)) (drop i buf) @ e"
    using f(9) by blast
  have same: "pbufs h' q = pbufs h q" "blocks h' (fst (payload (pb h q))) = blocks h (fst (payload (pb h q)))"
    if "q \<in> set qs" for q
    using f(5) that assms(1) by (auto simp: laid_out_def intro: assms(2,3))
  have "chain h' (p_next b) qs"
    using same(1) f(6) chain_cong [of qs h' h "p_next b"] by blast
  moreover have "tot_lens_ok h' qs" "lens h' qs = lens h qs"
    using same(1) assms(1) tot_lens_ok_cong [of qs h' h] lens_cong [of qs h' h] by (auto simp: laid_out_def packet_def)
  moreover have "unat (tot_len b) = unat (p_len b) + lens h qs"
    using assms(1) f(2) by (simp add: laid_out_def packet_def)
  ultimately have "packet h' p (p # qs)"
    using f(1) assms(4,5,10) by (simp add: packet_def)
  moreover have "chain_data h' qs = Some e"
    using e(1) same by (rule chain_data_frame)
  then have "chain_data h' (p # qs) = Some (take (unat (p_len b')) (drop i' buf') @ e)"
    using assms(4,7-9) by (simp add: pbuf_data_def mem_read_def)
  moreover have "drop (unat (p_len b)) bs = e"
    using e(2) f(8) by simp
  ultimately show ?thesis
    using assms(1,4,6-9,11) same(1) by (simp add: laid_out_def)
qed

text \<open>Revealing \<open>k\<close> octets of a header.\<close>

definition shown_more :: "pbuf \<Rightarrow> ptr \<Rightarrow> nat \<Rightarrow> nat \<Rightarrow> pbuf" where
  "shown_more b blk i k = b\<lparr>payload := (blk, int (i - k)), p_len := p_len b + of_nat k, tot_len := tot_len b + of_nat k\<rparr>"

lemma laid_out_reveal:
  assumes "laid_out h p b qs bs blk buf i" "k \<le> i" "0 < k" "k < 32768" "length bs + k < 65536"
  shows "pbuf_header h p (of_nat k) = Some (put_pbuf p (shown_more b blk i k) h, False)"
    "laid_out (put_pbuf p (shown_more b blk i k) h) p (shown_more b blk i k) qs (take k (drop (i - k) buf) @ bs) blk buf (i - k)"
proof -
  note f = laid_outD [OF assms(1)]
  have k: "sint (of_nat k :: u16) = int k" "(of_nat k :: u16) \<noteq> 0"
    using assms(3,4) sint_of_small [of k] by (auto simp: word_unat_eq_iff unat_of_nat)
  show "pbuf_header h p (of_nat k) = Some (put_pbuf p (shown_more b blk i k) h, False)"
    using assms f(1,2,7) k by (auto simp: pbuf_header_def shown_more_def laid_out_def of_nat_diff)
  have len: "unat (p_len b + of_nat k) = unat (p_len b) + k" "unat (tot_len b + of_nat k) = unat (tot_len b) + k"
    using assms f(3,4) by (simp_all add: unat_word_ariths unat_of_nat)
  obtain e where e: "bs = take (unat (p_len b)) (drop i buf) @ e"
    using f(9) by blast
  have "take (unat (p_len b) + k) (drop (i - k) buf) = take k (drop (i - k) buf) @ take (unat (p_len b)) (drop i buf)"
    using assms(2) take_add [of k "unat (p_len b)" "drop (i - k) buf"] by (simp add: add.commute)
  then show "laid_out (put_pbuf p (shown_more b blk i k) h) p (shown_more b blk i k) qs (take k (drop (i - k) buf) @ bs) blk buf (i - k)"
    using assms(1,2) len f(8) e
    by (intro laid_out_change [OF assms(1)]) (auto simp: shown_more_def laid_out_def)
qed

text \<open>Hiding \<open>k\<close> octets.\<close>

definition shown_less :: "pbuf \<Rightarrow> ptr \<Rightarrow> nat \<Rightarrow> nat \<Rightarrow> pbuf" where
  "shown_less b blk i k = b\<lparr>payload := (blk, int (i + k)), p_len := p_len b - of_nat k, tot_len := tot_len b - of_nat k\<rparr>"

lemma unat_p_len_less:
  assumes "laid_out h p b qs bs blk buf i" "k \<le> unat (p_len b)"
  shows "unat (p_len (shown_less b blk i k)) = unat (p_len b) - k" "unat (tot_len (shown_less b blk i k)) = unat (tot_len b) - k"
proof -
  have "k < 65536"
    using assms(2) unsigned_less [of "p_len b", where ?'a = nat] by simp
  then have "unat (of_nat k :: u16) = k"
    by (simp add: unat_of_nat)
  then show "unat (p_len (shown_less b blk i k)) = unat (p_len b) - k" "unat (tot_len (shown_less b blk i k)) = unat (tot_len b) - k"
    using assms(2) laid_outD(3,4) [OF assms(1)] by (simp_all add: shown_less_def unat_sub word_le_nat_alt)
qed

lemma laid_out_hide:
  assumes "laid_out h p b qs bs blk buf i" "k \<le> unat (p_len b)"
  shows "laid_out (put_pbuf p (shown_less b blk i k) h) p (shown_less b blk i k) qs (drop k bs) blk buf (i + k)"
proof -
  note f = laid_outD [OF assms(1)]
  note len = unat_p_len_less [OF assms]
  obtain e where e: "bs = take (unat (p_len b)) (drop i buf) @ e"
    using f(9) by blast
  have "drop k bs = take (unat (p_len b) - k) (drop (i + k) buf) @ drop (unat (p_len b)) bs"
    using assms(2) f(8) e by (simp add: drop_take ac_simps)
  then show ?thesis
    using assms(1,2) f(3,4,8) len
    by (intro laid_out_change [OF assms(1)]) (simp_all add: laid_out_def, simp_all add: shown_less_def)
qed

lemma pbuf_header_hide:
  assumes "laid_out h p b qs bs blk buf i" "k \<le> unat (p_len b)" "0 < k" "k < 32768"
  shows "pbuf_header h p (- of_nat k) = Some (put_pbuf p (shown_less b blk i k) h, False)"
proof -
  note f = laid_outD [OF assms(1)]
  have k: "sint (- of_nat k :: u16) = - int k" "unat (of_nat k :: u16) = k" "(of_nat k :: u16) \<noteq> 0"
    using assms(3,4) sint_neg_small [of k] by (auto simp: word_unat_eq_iff unat_of_nat)
  then have "(of_nat k :: u16) \<le> p_len b"
    using assms(2) by (simp add: word_le_nat_alt)
  then show ?thesis
    using assms f(1,2,7) k by (auto simp: pbuf_header_def shown_less_def laid_out_def Let_def)
qed

text \<open>Writing a header at the front.\<close>

lemma laid_out_write:
  assumes "laid_out h p b qs bs blk buf i" "length ws \<le> unat (p_len b)"
  shows "mem_write h (blk, int i) ws = Some (h\<lparr>blocks := (blocks h)(blk \<mapsto> block_write buf i ws)\<rparr>)"
    "laid_out (h\<lparr>blocks := (blocks h)(blk \<mapsto> block_write buf i ws)\<rparr>) p b qs (ws @ drop (length ws) bs) blk (block_write buf i ws) i"
proof -
  note f = laid_outD [OF assms(1)]
  show "mem_write h (blk, int i) ws = Some (h\<lparr>blocks := (blocks h)(blk \<mapsto> block_write buf i ws)\<rparr>)"
    using assms f(8) by (intro mem_write_at) (simp_all add: laid_out_def)
  obtain e where e: "bs = take (unat (p_len b)) (drop i buf) @ e"
    using f(9) by blast
  have "ws @ drop (length ws) bs = take (unat (p_len b)) (drop i (block_write buf i ws)) @ drop (unat (p_len b)) bs"
    using assms(2) f(8) e by (simp add: block_write_def drop_take ac_simps)
  then show "laid_out (h\<lparr>blocks := (blocks h)(blk \<mapsto> block_write buf i ws)\<rparr>) p b qs (ws @ drop (length ws) bs) blk (block_write buf i ws) i"
    using assms f(2,7,8) by (intro laid_out_change [OF assms(1)]) auto
qed

lemma laid_out_octets: "laid_out h p b qs bs blk buf i \<Longrightarrow> \<exists>xs. pbuf_octets h p = Some xs \<and> concat xs = bs"
  unfolding laid_out_def packet_def using pbuf_octets_chain by blast

section \<open>Output\<close>

text \<open>A packet that needs no fragmentation goes to the driver in one piece.\<close>

lemma ip_output_if_sends:
  assumes lay: "laid_out (mem s) p b qs bs blk buf i" and room: "20 \<le> i" "length bs + 20 < 65536" "length over \<le> unat (p_len b)"
    and nif: "netifs s nif = Some nf" "nf_mtu nf = 0 \<or> length bs + 20 \<le> unat (nf_mtu nf)"
  shows "\<exists>hdr h' buf'. ip_output_if s p over src (Some d) t t' proto nif
      = Some (s\<lparr>mem := h', ip_id := ip_id s + 1, link := link s @ [Output nif (ip_hdr_octets hdr @ over @ drop (length over) bs) d]\<rparr>,
              drv_err s (length (link s)))
    \<and> laid_out h' p (shown_more b blk i 20) qs (ip_hdr_octets hdr @ over @ drop (length over) bs) blk buf' (i - 20)
    \<and> ip_hdr_for hdr (if src = 0 then nf_ip_addr nf else src) d t proto (20 + length bs)"
proof -
  let ?src = "if src = 0 then nf_ip_addr nf else src" and ?b = "shown_more b blk i 20"
  define h1 where "h1 = put_pbuf p ?b (mem s)"
  have hd: "pbuf_header_s s p IP_HLEN = Some (s\<lparr>mem := h1\<rparr>, False)"
    and lay1: "laid_out h1 p ?b qs (take 20 (drop (i - 20) buf) @ bs) blk buf (i - 20)"
    using laid_out_reveal [OF lay, of 20] room by (simp_all add: pbuf_header_s_def h1_def IP_HLEN_def)
  note f = laid_outD [OF lay1]
  have len: "i - 20 + 20 \<le> length buf" "unat (p_len ?b) = 20 + unat (p_len b)" "unat (tot_len ?b) = 20 + length bs"
    using f(3,8) room laid_outD(4,8) [OF lay] by (auto simp: shown_more_def unat_word_ariths)
  obtain iphdr where rd: "read_ip_hdr h1 (blk, int (i - 20)) = Some iphdr"
    using len lay1 mem_read_at [of h1 blk buf "i - 20" 20] by (auto simp: read_ip_hdr_def laid_out_def)
  define hdr where "hdr = ip_build_hdr iphdr ?src d t t' proto (tot_len ?b) (ip_id s)"
  define octs where "octs = ip_hdr_octets hdr @ over @ drop (length over) bs"
  define buf' where "buf' = block_write buf (i - 20) (ip_hdr_octets hdr @ over)"
  define h2 where "h2 = h1\<lparr>blocks := (blocks h1)(blk \<mapsto> buf')\<rparr>"
  have wr: "mem_write h1 (blk, int (i - 20)) (ip_hdr_octets hdr @ over) = Some h2"
    and lay2: "laid_out h2 p ?b qs octs blk buf' (i - 20)"
    using laid_out_write [OF lay1, of "ip_hdr_octets hdr @ over"] len room by (simp_all add: h2_def buf'_def octs_def)
  obtain xs where xs: "pbuf_octets h2 p = Some xs" "concat xs = octs"
    using laid_out_octets [OF lay2] by blast
  have fits: "\<not> (nf_mtu nf \<noteq> 0 \<and> tot_len ?b > nf_mtu nf)"
    using nif(2) len by (auto simp: word_less_nat_alt)
  have "ip_transmit (s\<lparr>mem := h1, ip_id := ip_id s + 1\<rparr>) p (ip_hdr_octets hdr @ over) d nif
      = Some (s\<lparr>mem := h2, ip_id := ip_id s + 1, link := link s @ [Output nif octs d]\<rparr>, drv_err s (length (link s)))"
    using nif(1) f(2,7) wr xs fits by (auto simp: ip_transmit_def netif_output_def Let_def)
  moreover have "ip_output_if s p over src (Some d) t t' proto nif
      = ip_transmit (s\<lparr>mem := h1, ip_id := ip_id s + 1\<rparr>) p (ip_hdr_octets hdr @ over) d nif"
    using nif(1) by (simp add: ip_output_if_def hd f(2,7) rd ip_addr_isany_def hdr_def Let_def)
  moreover have "ip_hdr_for hdr ?src d t proto (20 + length bs)"
    unfolding hdr_def len(3) [symmetric] by (rule ip_build_hdr_for)
  ultimately show ?thesis
    using lay2 unfolding octs_def by (intro exI [of _ hdr] exI [of _ h2] exI [of _ buf']) simp
qed

end
