(* ===== verification/Tcp_Wire.thy ===== *)
theory Tcp_Wire
  imports Tcp Ip_Wire
begin

text \<open>
  What TCP puts on the wire: the packet that \<^verbatim>\<open>tcp_output_segment\<close> gives to the driver.
\<close>

unbundle bit_operations_syntax

lemma length_tcp_hdr_octets [simp]: "length (tcp_hdr_octets h) = 20"
  by (simp add: tcp_hdr_octets_def)

lemma length_pseudo_header [simp]: "length (pseudo_header src dest proto n) = 12"
  by (simp add: pseudo_header_def)

lemma tcp_chksum_verifies:
  assumes "c = rfc1071 (pseudo_header src dest proto n @ tcp_hdr_octets (h\<lparr>h_chksum := 0\<rparr>) @ bs)"
  shows "rfc1071 (pseudo_header src dest proto n @ tcp_hdr_octets (h\<lparr>h_chksum := c\<rparr>) @ bs) = 0"
proof -
  define pre where "pre = pseudo_header src dest proto n @ mem_bytes16 (h_src h) @ mem_bytes16 (h_dest h) @ mem_bytes32 (h_seqno h)
     @ mem_bytes32 (h_ackno h) @ mem_bytes16 (hdrlen_rsvd_flags h) @ mem_bytes16 (h_wnd h)"
  define post where "post = mem_bytes16 (h_urgp h) @ bs"
  have oct: "pseudo_header src dest proto n @ tcp_hdr_octets (h\<lparr>h_chksum := w\<rparr>) @ bs = pre @ [ucast w, ucast (drop_bit 8 w)] @ post" for w
    by (simp add: pre_def post_def tcp_hdr_octets_def mem_bytes16_def)
  show ?thesis
    unfolding oct by (rule rfc1071_fill [of pre c]) (use assms in \<open>auto simp: oct pre_def\<close>)
qed

lemma laid_out_first:
  assumes "laid_out h p b qs bs blk buf i"
  shows "\<exists>x xs. pbuf_octets h p = Some (x # xs) \<and> length x = unat (p_len b) \<and> x @ concat xs = bs"
proof -
  note f = laid_outD [OF assms]
  obtain e where e: "chain_data h qs = Some e" "bs = take (unat (p_len b)) (drop i buf) @ e"
    using f(9) by blast
  obtain xs where xs: "pbuf_octets h (p_next b) = Some xs" "concat xs = e"
    using pbuf_octets_chain [OF f(6) e(1)] by blast
  have "blocks h blk = Some buf"
    using assms by (simp add: laid_out_def)
  then have "pbuf_octets h p = Some (take (unat (p_len b)) (drop i buf) # xs)"
    using f(1,2,7,8) xs(1) mem_read_at [of h blk buf i "unat (p_len b)"] by (subst pbuf_octets.simps) simp
  then show ?thesis
    using e(2) xs(2) f(8) by simp
qed

text \<open>The checksum of a segment makes it verify.\<close>

lemma tcp_chksum_laid_out:
  assumes "laid_out h p b qs bs blk buf i" "20 \<le> unat (p_len b)" "length bs < 65536"
  shows "\<exists>c. tcp_chksum h p hdr lip rip = Some (hdr\<lparr>h_chksum := c\<rparr>)
    \<and> inet_chksum_pseudo [tcp_hdr_octets (hdr\<lparr>h_chksum := c\<rparr>) @ drop 20 bs] lip rip IP_PROTO_TCP (of_nat (length bs)) = 0"
proof -
  obtain x xs where x: "pbuf_octets h p = Some (x # xs)" "length x = unat (p_len b)" "x @ concat xs = bs"
    using laid_out_first [OF assms(1)] by blast
  note f = laid_outD [OF assms(1)]
  have u: "unat (tot_len b) = length bs"
    using f(3) .
  have tot: "tot_len b = of_nat (length bs)"
    unfolding u [symmetric] by simp
  define c where "c = inet_chksum_pseudo (overlay (tcp_hdr_octets (hdr\<lparr>h_chksum := 0\<rparr>)) (x # xs)) lip rip IP_PROTO_TCP (of_nat (length bs))"
  have "\<forall>q\<in>set (overlay (tcp_hdr_octets (hdr\<lparr>h_chksum := 0\<rparr>)) (x # xs)). length q < 65536"
  proof
    fix q assume "q \<in> set (overlay (tcp_hdr_octets (hdr\<lparr>h_chksum := 0\<rparr>)) (x # xs))"
    then have "length q = length x \<or> q \<in> set xs"
      using x(2) assms(2) by auto
    moreover have "length q \<le> length (concat xs)" if "q \<in> set xs"
      using that by (auto simp: length_concat intro: member_le_sum_list)
    ultimately show "length q < 65536"
      using arg_cong [OF x(3), of length] assms(3) by auto
  qed
  then have "c = rfc1071 (pseudo_header lip rip IP_PROTO_TCP (of_nat (length bs)) @ tcp_hdr_octets (hdr\<lparr>h_chksum := 0\<rparr>) @ drop 20 bs)"
    unfolding c_def using x(2) assms(2) by (subst inet_chksum_pseudo_eq) (simp_all add: x(3) [symmetric])
  then have "rfc1071 (pseudo_header lip rip IP_PROTO_TCP (of_nat (length bs)) @ tcp_hdr_octets (hdr\<lparr>h_chksum := c\<rparr>) @ drop 20 bs) = 0"
    by (rule tcp_chksum_verifies)
  moreover have "tcp_chksum h p hdr lip rip = Some (hdr\<lparr>h_chksum := c\<rparr>)"
    using x(1) f(2) by (simp add: tcp_chksum_def c_def tot Let_def)
  ultimately show ?thesis
    using assms(2,3) f(4) by (auto simp: inet_chksum_pseudo_eq)
qed

lemma ip_route_mem [simp]: "ip_route (s\<lparr>mem := h\<rparr>) d = ip_route s d"
proof -
  have "ip_route_list (s\<lparr>mem := h\<rparr>) d ns = ip_route_list s d ns" for ns
    by (induction ns) (simp_all cong: if_cong)
  then show ?thesis by (simp add: ip_route_def cong: if_cong)
qed

text \<open>C6. A segment goes out as one packet that its receiver accepts: an IP header for the two ends of the connection with the
  right length and a checksum that verifies, then the TCP header of the segment with the acknowledgment number, the window and a
  checksum that verifies over the pseudo header, then the options and data as they were queued. This holds for the first
  transmission and for retransmissions, when the payload pointer still shows an old header in front (\<open>k\<close> octets), on an
  interface whose MTU the packet fits.\<close>

theorem tcp_segment_on_wire:
  assumes "laid_out (mem s) (s_p seg) b qs bs blk buf j" "s_tcphdr seg = (blk, int (j + k))" "k + 20 \<le> unat (p_len b)" "20 \<le> j + k"
    and "ip_route s (remote_ip pcb) = Some nif" "nif \<noteq> NULL" "netifs s nif = Some nf" "nf_ip_addr nf \<noteq> 0"
    and "length bs - k + 20 < 65536" "nf_mtu nf = 0 \<or> length bs - k + 20 \<le> unat (nf_mtu nf)"
    and "ip = (if local_ip pcb = 0 then nf_ip_addr nf else local_ip pcb)"
  shows "\<exists>s' pcb' c hdr. let th = (s_hdr seg)\<lparr>h_ackno := htonl (rcv_nxt pcb), h_wnd := htons (rcv_ann_wnd pcb), h_chksum := c\<rparr> in
      tcp_output_segment s seg pcb = Some (s', seg\<lparr>s_hdr := th\<rparr>, pcb')
    \<and> link s' = link s @ [Output nif (ip_hdr_octets hdr @ tcp_hdr_octets th @ drop (k + 20) bs) (remote_ip pcb)]
    \<and> ip_hdr_for hdr ip (remote_ip pcb) (ttl pcb) IP_PROTO_TCP (20 + (length bs - k))
    \<and> inet_chksum_pseudo [tcp_hdr_octets th @ drop (k + 20) bs] ip (remote_ip pcb) IP_PROTO_TCP (of_nat (length bs - k)) = 0"
proof -
  define b' where "b' = shown_less b blk j k"
  define h1 where "h1 = put_pbuf (s_p seg) b' (mem s)"
  note f = laid_outD [OF assms(1)]
  have b': "b' = b\<lparr>p_len := p_len b - of_nat k, tot_len := tot_len b - of_nat k, payload := s_tcphdr seg\<rparr>"
    using assms(2) by (simp add: b'_def shown_less_def)
  have lay: "laid_out h1 (s_p seg) b' qs (drop k bs) blk buf (j + k)"
    using laid_out_hide [OF assms(1)] assms(3) by (simp add: h1_def b'_def)
  have len20: "20 \<le> unat (p_len b')" "length (drop k bs) < 65536"
    using assms(3,9) unat_p_len_less [OF assms(1), of k] by (simp_all add: b'_def)
  let ?th = "(s_hdr seg)\<lparr>h_ackno := htonl (rcv_nxt pcb), h_wnd := htons (rcv_ann_wnd pcb)\<rparr>"
  obtain c where c: "tcp_chksum h1 (s_p seg) ?th ip (remote_ip pcb) = Some (?th\<lparr>h_chksum := c\<rparr>)"
      "inet_chksum_pseudo [tcp_hdr_octets (?th\<lparr>h_chksum := c\<rparr>) @ drop 20 (drop k bs)] ip (remote_ip pcb) IP_PROTO_TCP (of_nat (length (drop k bs))) = 0"
    using tcp_chksum_laid_out [OF lay len20, of ?th ip "remote_ip pcb"] by auto
  have ip: "ip \<noteq> 0"
    using assms(8,11) by auto
  obtain hdr h' where out: "ip_output_if (s\<lparr>mem := h1\<rparr>) (s_p seg) (tcp_hdr_octets (?th\<lparr>h_chksum := c\<rparr>)) ip (Some (remote_ip pcb)) (ttl pcb) (tos pcb) IP_PROTO_TCP nif
      = Some (s\<lparr>mem := h', ip_id := ip_id s + 1,
                link := link s @ [Output nif (ip_hdr_octets hdr @ tcp_hdr_octets (?th\<lparr>h_chksum := c\<rparr>) @ drop 20 (drop k bs)) (remote_ip pcb)]\<rparr>, drv_err s (length (link s)))"
      "ip_hdr_for hdr ip (remote_ip pcb) (ttl pcb) IP_PROTO_TCP (20 + length (drop k bs))"
    using ip_output_if_sends [of "s\<lparr>mem := h1\<rparr>" "s_p seg" b' qs "drop k bs" blk buf "j + k" "tcp_hdr_octets (?th\<lparr>h_chksum := c\<rparr>)" nif nf ip
        "remote_ip pcb" "ttl pcb" "tos pcb" IP_PROTO_TCP] lay len20 assms(4,7,9,10) ip by auto
  define pcb1 where "pcb1 = pcb\<lparr>local_ip := ip\<rparr>"
  define pcb2 where "pcb2 = (if rtime pcb1 = -1 then pcb1\<lparr>rtime := 0\<rparr> else pcb1)"
  define pcb3 where "pcb3 = (if rttest pcb2 = 0 then pcb2\<lparr>rttest := tcp_ticks s, rtseq := ntohl (h_seqno (s_hdr seg))\<rparr> else pcb2)"
  have pcb3: "local_ip pcb3 = ip" "remote_ip pcb3 = remote_ip pcb" "ttl pcb3 = ttl pcb" "tos pcb3 = tos pcb"
    by (simp_all add: pcb1_def pcb2_def pcb3_def)
  have len: "of_int (snd (s_tcphdr seg) - snd (payload b)) = (of_nat k :: u16)"
    using assms(2) f(7) by simp
  have lip: "(if ip_addr_isany (local_ip pcb)
         then do { n \<leftarrow> ip_route s (remote_ip pcb);
           if n = NULL then Some None else do { nf \<leftarrow> netifs s n; Some (Some (nf_ip_addr nf)) } }
         else Some (Some (local_ip pcb))) = Some (Some ip)"
    using assms(5-7,11) by (simp add: ip_addr_isany_def)
  have "tcp_output_segment s seg pcb = Some (s\<lparr>mem := h', ip_id := ip_id s + 1,
      link := link s @ [Output nif (ip_hdr_octets hdr @ tcp_hdr_octets (?th\<lparr>h_chksum := c\<rparr>) @ drop 20 (drop k bs)) (remote_ip pcb)]\<rparr>,
      seg\<lparr>s_hdr := ?th\<lparr>h_chksum := c\<rparr>\<rparr>, pcb3)"
  proof -
    have same: "s_p (s_hdr_update g seg) = s_p seg" "s_tcphdr (s_hdr_update g seg) = s_tcphdr seg" for g
      by simp_all
    have "tcp_output_segment s seg pcb = (do { hdr \<leftarrow> tcp_chksum h1 (s_p seg) ?th (local_ip pcb3) (remote_ip pcb3);
        (s, _) \<leftarrow> ip_output (s\<lparr>mem := h1\<rparr>) (s_p seg) (tcp_hdr_octets hdr) (local_ip pcb3) (remote_ip pcb3) (ttl pcb3) (tos pcb3) IP_PROTO_TCP;
        Some (s, seg\<lparr>s_hdr := hdr\<rparr>, pcb3) })"
      unfolding tcp_output_segment_def Let_def lip Option.bind.bind_lunit option.case same f(2) len
      by (simp add: pcb1_def pcb2_def pcb3_def h1_def b')
    then show ?thesis
      unfolding pcb3 using out(1) c(1) assms(5,6) by (simp add: ip_output_def)
  qed
  then show ?thesis
    using out(2) c(2) by (intro exI) (auto simp: Let_def add.commute)
qed

text \<open>A segment with three octets of data that is sent again: the driver has left an IP header in front of its TCP header.\<close>

definition resent_pbuf :: pbuf where
  "resent_pbuf = \<lparr>p_next = NULL, payload = (2, 0), tot_len = 43, p_len = 43, p_type = PBUF_RAM, p_flags = 0, p_ref = 1\<rparr>"

definition resent_stack :: stack where
  "resent_stack = sample_stack
     \<lparr>pbufs = [2 \<mapsto> resent_pbuf], blocks = [2 \<mapsto> replicate 40 0 @ [7, 8, 9]], brk = 3, mem_ok = (\<lambda>a. True), junk = (\<lambda>a i. 0),
      pool_payload = PBUF_POOL_BUFSIZE\<rparr>"

definition resent_seg :: tcp_seg where
  "resent_seg = \<lparr>s_p = 2, s_dataptr = (2, 40), s_len = 3, s_tcphdr = (2, 20), s_hdr = zero_tcp_hdr\<lparr>h_seqno := htonl 1000\<rparr>\<rparr>"

definition resent_pcb :: tcp_pcb where
  "resent_pcb = (tcp_fresh_pcb 1000 0)\<lparr>pcb_state := ESTABLISHED, remote_ip := 0x0200000A, rcv_nxt := 500\<rparr>"

theorem tcp_segment_on_wire_witness:
  "\<exists>s' seg' pcb' hdr th. tcp_output_segment resent_stack resent_seg resent_pcb = Some (s', seg', pcb')
    \<and> link s' = [Output 1 (ip_hdr_octets hdr @ tcp_hdr_octets th @ [7, 8, 9]) 0x0200000A] \<and> ntohl (h_ackno th) = 500
    \<and> inet_chksum_pseudo [tcp_hdr_octets th @ [7, 8, 9]] 0x0100000A 0x0200000A IP_PROTO_TCP 23 = 0"
proof -
  let ?bs = "replicate 40 0 @ [7, 8, 9] :: u8 list"
  have 1: "laid_out (mem resent_stack) (s_p resent_seg) resent_pbuf [] ?bs 2 ?bs 0"
    by (simp add: resent_stack_def resent_seg_def resent_pbuf_def sample_stack_def laid_out_def packet_def pbuf_data_def mem_read_def)
  have 2: "ip_route resent_stack (remote_ip resent_pcb) = Some 1" "netifs resent_stack 1 = Some sample_netif"
    by (simp_all add: resent_stack_def sample_stack_def ip_route_def ip_addr_netcmp_def resent_pcb_def sample_netif_def netif_is_up_def NETIF_FLAG_UP_def)
  have 3: "s_tcphdr resent_seg = (2, int (0 + 20))" "20 + 20 \<le> unat (p_len resent_pbuf)" "nf_ip_addr sample_netif = 0x0100000A"
      "local_ip resent_pcb = 0" "nf_mtu sample_netif = 1500" "remote_ip resent_pcb = 0x0200000A" "rcv_nxt resent_pcb = 500" "link resent_stack = []"
    by (simp_all add: resent_seg_def resent_pbuf_def sample_netif_def resent_pcb_def tcp_fresh_pcb_def resent_stack_def sample_stack_def)
  have 4: "length ?bs = 43" "drop (20 + 20) ?bs = [7, 8, 9]"
    by simp_all
  have 5: "(20 :: nat) \<le> 0 + 20" "(1 :: ptr) \<noteq> NULL" "nf_ip_addr sample_netif \<noteq> 0" "length ?bs - 20 + 20 < 65536"
      "nf_mtu sample_netif = 0 \<or> length ?bs - 20 + 20 \<le> unat (nf_mtu sample_netif)"
      "nf_ip_addr sample_netif = (if local_ip resent_pcb = 0 then nf_ip_addr sample_netif else local_ip resent_pcb)"
    unfolding 4 3 by simp_all
  obtain s' pcb' c hdr where r: "let th = (s_hdr resent_seg)\<lparr>h_ackno := htonl (rcv_nxt resent_pcb), h_wnd := htons (rcv_ann_wnd resent_pcb), h_chksum := c\<rparr> in
      tcp_output_segment resent_stack resent_seg resent_pcb = Some (s', resent_seg\<lparr>s_hdr := th\<rparr>, pcb')
    \<and> link s' = link resent_stack @ [Output 1 (ip_hdr_octets hdr @ tcp_hdr_octets th @ drop (20 + 20) ?bs) (remote_ip resent_pcb)]
    \<and> ip_hdr_for hdr (nf_ip_addr sample_netif) (remote_ip resent_pcb) (ttl resent_pcb) IP_PROTO_TCP (20 + (length ?bs - 20))
    \<and> inet_chksum_pseudo [tcp_hdr_octets th @ drop (20 + 20) ?bs] (nf_ip_addr sample_netif) (remote_ip resent_pcb) IP_PROTO_TCP (of_nat (length ?bs - 20)) = 0"
    using tcp_segment_on_wire [OF 1 3(1,2) 5(1) 2(1) 5(2) 2(2) 5(3-6)] by blast
  define th where "th = (s_hdr resent_seg)\<lparr>h_ackno := htonl 500, h_wnd := htons (rcv_ann_wnd resent_pcb), h_chksum := c\<rparr>"
  have "ntohl (h_ackno th) = 500" "of_nat (43 - 20) = (23 :: u16)"
    by (simp_all add: th_def ntohl_def htonl_htonl)
  then show ?thesis
    using r [unfolded 3 4 Let_def, folded th_def] by (metis append_Nil)
qed

end
