(* ===== verification/Icmp.thy ===== *)
theory Icmp
  imports Ip
begin

text \<open>
  ICMP, \<^verbatim>\<open>core/ipv4/icmp.c\<close>: the answer to an echo request and the two error messages. The headers
  are read from and written to the payload memory.
\<close>

unbundle bit_operations_syntax

definition ICMP_ER :: u16 where "ICMP_ER = 0"
definition ICMP_DUR :: u16 where "ICMP_DUR = 3"
definition ICMP_ECHO :: u16 where "ICMP_ECHO = 8"
definition ICMP_TE :: u16 where "ICMP_TE = 11"

datatype icmp_dur_type = ICMP_DUR_NET | ICMP_DUR_HOST | ICMP_DUR_PROTO | ICMP_DUR_PORT | ICMP_DUR_FRAG | ICMP_DUR_SR

fun icmp_dur_code :: "icmp_dur_type \<Rightarrow> u16" where
  "icmp_dur_code ICMP_DUR_NET = 0"
| "icmp_dur_code ICMP_DUR_HOST = 1"
| "icmp_dur_code ICMP_DUR_PROTO = 2"
| "icmp_dur_code ICMP_DUR_PORT = 3"
| "icmp_dur_code ICMP_DUR_FRAG = 4"
| "icmp_dur_code ICMP_DUR_SR = 5"

datatype icmp_te_type = ICMP_TE_TTL | ICMP_TE_FRAG

fun icmp_te_code :: "icmp_te_type \<Rightarrow> u16" where
  "icmp_te_code ICMP_TE_TTL = 0"
| "icmp_te_code ICMP_TE_FRAG = 1"

definition ICMP_TTL :: u8 where "ICMP_TTL = 255"
definition IP_PROTO_ICMP :: u8 where "IP_PROTO_ICMP = 1"
definition ICMP_DEST_UNREACH_DATASIZE :: nat where "ICMP_DEST_UNREACH_DATASIZE = 8"

text \<open>The fields of an ICMP header, as the macros of \<^verbatim>\<open>icmp.h\<close> set them in \<^verbatim>\<open>_type_code\<close>.\<close>

definition ICMPH_TYPE_SET :: "u16 \<Rightarrow> u16 \<Rightarrow> u16" where
  "ICMPH_TYPE_SET type type_code = htons ((ntohs type_code AND 0xff) OR push_bit 8 type)"

definition ICMPH_CODE_SET :: "u16 \<Rightarrow> u16 \<Rightarrow> u16" where
  "ICMPH_CODE_SET code type_code = htons (code OR push_bit 8 (drop_bit 8 (ntohs type_code)))"

text \<open>A 16-bit field in memory.\<close>

definition mem_read16 :: "heap \<Rightarrow> ptr \<times> int \<Rightarrow> u16 option" where
  "mem_read16 h a = do { bs \<leftarrow> mem_read h a 2; Some (load16w bs 0) }"

definition mem_write16 :: "heap \<Rightarrow> ptr \<times> int \<Rightarrow> u16 \<Rightarrow> heap option" where
  "mem_write16 h a w = mem_write h a (mem_bytes16 w)"

section \<open>Echo\<close>

text \<open>The adjustment of the checksum when the type changes from 8 to 0.\<close>

definition icmp_echo_chksum :: "u16 \<Rightarrow> u16" where
  "icmp_echo_chksum c =
     (if c \<ge> htons (0xffff - push_bit 8 ICMP_ECHO) then c + htons (push_bit 8 ICMP_ECHO) + 1
      else c + htons (push_bit 8 ICMP_ECHO))"

text \<open>A packet with room for the headers in front of the ICMP header of \<open>p\<close>: \<open>p\<close> itself or a copy of it.
  The result has the packet and the address of its IP header, or \<open>None\<close> for the jump to \<^verbatim>\<open>memerr\<close>.\<close>

definition icmp_echo_room ::
    "stack \<Rightarrow> ptr \<Rightarrow> ptr \<times> int \<Rightarrow> u16 \<Rightarrow> (stack \<times> (ptr \<times> ptr \<times> int) option) option" where
  "icmp_echo_room s p iph hlen =
     do {
       let room = of_nat (20 + PBUF_LINK_HLEN);
       (s, fail) \<leftarrow> pbuf_header_s s p room;
       if fail
       then do {
         (s, fail) \<leftarrow> pbuf_header_s s p hlen;
         if fail then Some (s, None)
         else do {
           pb \<leftarrow> pbufs (mem s) p;
           (s, r) \<leftarrow> pbuf_alloc_s s PBUF_LINK (tot_len pb) PBUF_RAM;
           if r = NULL then Some (s, None)
           else do {
             (h, e) \<leftarrow> pbuf_copy (mem s) r p;
             let s = s\<lparr>mem := h\<rparr>;
             if e \<noteq> ERR_OK then Some (s, None)
             else do {
               rb \<leftarrow> pbufs (mem s) r;
               let iph = payload rb;
               (s, fail) \<leftarrow> pbuf_header_s s r (- hlen);
               if fail then Some (s, None)
               else do {
                 (s, _) \<leftarrow> pbuf_free_s s p;
                 Some (s, Some (r, iph))
               }
             }
           }
         }
       }
       else do {
         (s, fail) \<leftarrow> pbuf_header_s s p (- room);
         if fail then Some (s, None) else Some (s, Some (p, iph))
       }
     }"

text \<open>The request in \<open>p\<close> becomes the answer.\<close>

definition icmp_echo_reply :: "heap \<Rightarrow> ptr \<times> int \<Rightarrow> ptr \<times> int \<Rightarrow> heap option" where
  "icmp_echo_reply h iph iecho =
     do {
       iphdr \<leftarrow> read_ip_hdr h iph;
       h \<leftarrow> mem_write h iph (ip_hdr_octets (iphdr\<lparr>ih_src := ih_dest iphdr, ih_dest := ih_src iphdr\<rparr>));
       type_code \<leftarrow> mem_read16 h iecho;
       h \<leftarrow> mem_write16 h iecho (ICMPH_TYPE_SET ICMP_ER type_code);
       chksum \<leftarrow> mem_read16 h (ptr_add iecho 2);
       h \<leftarrow> mem_write16 h (ptr_add iecho 2) (icmp_echo_chksum chksum);
       iphdr \<leftarrow> read_ip_hdr h iph;
       let iphdr = (IPH_TTL_SET ICMP_TTL iphdr)\<lparr>ih_chksum := 0\<rparr>;
       mem_write h iph (ip_hdr_octets (iphdr\<lparr>ih_chksum := inet_chksum (ip_hdr_octets iphdr)\<rparr>))
     }"

text \<open>The case \<^verbatim>\<open>ICMP_ECHO\<close> of \<^verbatim>\<open>icmp_input\<close>. The last step of every path frees the packet.\<close>

definition icmp_input_echo :: "stack \<Rightarrow> ptr \<Rightarrow> ptr \<Rightarrow> ptr \<times> int \<Rightarrow> u16 \<Rightarrow> stack option" where
  "icmp_input_echo s p inp iph hlen =
     do {
       nf \<leftarrow> netifs s inp;
       iphdr \<leftarrow> read_ip_hdr (mem s) iph;
       pb \<leftarrow> pbufs (mem s) p;
       if ip_addr_isbroadcast (ih_dest iphdr) nf \<or> ip_addr_ismulticast (ih_dest iphdr) \<or> tot_len pb < 8
       then do { (s, _) \<leftarrow> pbuf_free_s s p; Some s }
       else do {
         xs \<leftarrow> pbuf_octets (mem s) p;
         if inet_chksum_pbuf xs \<noteq> 0 then do { (s, _) \<leftarrow> pbuf_free_s s p; Some s }
         else do {
           (s, res) \<leftarrow> icmp_echo_room s p iph hlen;
           case res of
             None \<Rightarrow> do { (s, _) \<leftarrow> pbuf_free_s s p; Some s }
           | Some (p, iph) \<Rightarrow> do {
               pb \<leftarrow> pbufs (mem s) p;
               h \<leftarrow> icmp_echo_reply (mem s) iph (payload pb);
               (s, fail) \<leftarrow> pbuf_header_s (s\<lparr>mem := h\<rparr>) p hlen;
               s \<leftarrow> (if fail then Some s
                 else do {
                   iphdr \<leftarrow> read_ip_hdr (mem s) iph;
                   (s, _) \<leftarrow> ip_output_if s p [] (ih_src iphdr) None ICMP_TTL 0 IP_PROTO_ICMP inp;
                   Some s
                 });
               (s, _) \<leftarrow> pbuf_free_s s p;
               Some s
             }
         }
       }
     }"

definition icmp_input :: "stack \<Rightarrow> ptr \<Rightarrow> ptr \<Rightarrow> stack option" where
  "icmp_input s p inp =
     do {
       pb \<leftarrow> pbufs (mem s) p;
       let iph = payload pb;
       iphdr \<leftarrow> read_ip_hdr (mem s) iph;
       let hlen = IPH_HL iphdr * 4;
       (s, fail) \<leftarrow> pbuf_header_s s p (- hlen);
       pb \<leftarrow> pbufs (mem s) p;
       if fail \<or> tot_len pb < 4 then do { (s, _) \<leftarrow> pbuf_free_s s p; Some s }
       else do {
         bs \<leftarrow> mem_read (mem s) (payload pb) 1;
         if ucast (bs ! 0) = ICMP_ECHO then icmp_input_echo s p inp iph hlen
         else do { (s, _) \<leftarrow> pbuf_free_s s p; Some s }
       }
     }"

section \<open>Errors\<close>

text \<open>The common text of \<^verbatim>\<open>icmp_dest_unreach\<close> and \<^verbatim>\<open>icmp_time_exceeded\<close>: the message
  \<open>type\<close>, \<open>code\<close> about the packet \<open>p\<close>, whose payload is its IP header.\<close>

definition icmp_error :: "stack \<Rightarrow> ptr \<Rightarrow> u16 \<Rightarrow> u16 \<Rightarrow> stack option" where
  "icmp_error s p type code =
     do {
       let n = 20 + ICMP_DEST_UNREACH_DATASIZE;
       (s, q) \<leftarrow> pbuf_alloc_s s PBUF_IP (of_nat (8 + n)) PBUF_RAM;
       if q = NULL then Some s
       else do {
         pb \<leftarrow> pbufs (mem s) p;
         qb \<leftarrow> pbufs (mem s) q;
         type_code \<leftarrow> mem_read16 (mem s) (payload qb);
         h \<leftarrow> mem_write16 (mem s) (payload qb) (ICMPH_CODE_SET code (ICMPH_TYPE_SET type type_code));
         bs \<leftarrow> mem_read h (payload pb) n;
         h \<leftarrow> mem_write h (ptr_add (payload qb) 8) bs;
         h \<leftarrow> mem_write16 h (ptr_add (payload qb) 2) 0;
         bs \<leftarrow> mem_read h (payload qb) (unat (p_len qb));
         h \<leftarrow> mem_write16 h (ptr_add (payload qb) 2) (inet_chksum bs);
         iphdr \<leftarrow> read_ip_hdr h (payload pb);
         (s, _) \<leftarrow> ip_output (s\<lparr>mem := h\<rparr>) q [] 0 (ih_src iphdr) ICMP_TTL 0 IP_PROTO_ICMP;
         (s, _) \<leftarrow> pbuf_free_s s q;
         Some s
       }
     }"

definition icmp_dest_unreach :: "stack \<Rightarrow> ptr \<Rightarrow> icmp_dur_type \<Rightarrow> stack option" where
  "icmp_dest_unreach s p t = icmp_error s p ICMP_DUR (icmp_dur_code t)"

definition icmp_time_exceeded :: "stack \<Rightarrow> ptr \<Rightarrow> icmp_te_type \<Rightarrow> stack option" where
  "icmp_time_exceeded s p t = icmp_error s p ICMP_TE (icmp_te_code t)"

end
