(* ===== verification/Udp.thy ===== *)
theory Udp
  imports Icmp
begin

text \<open>
  UDP, \<^verbatim>\<open>core/udp.c\<close>, in the configuration of the build (no UDP-Lite, no DHCP). The list
  \<^verbatim>\<open>udp_pcbs\<close> is a list of addresses of live control blocks; the receive functions of the application are
  the argument \<open>on_recv\<close>.
\<close>

unbundle bit_operations_syntax

definition UDP_HLEN :: u16 where "UDP_HLEN = 8"
definition UDP_TTL :: u8 where "UDP_TTL = 255"
definition IP_PROTO_UDP :: u8 where "IP_PROTO_UDP = 17"
definition UDP_FLAGS_NOCHKSUM :: u8 where "UDP_FLAGS_NOCHKSUM = 0x01"
definition UDP_FLAGS_CONNECTED :: u8 where "UDP_FLAGS_CONNECTED = 0x04"
definition UDP_LOCAL_PORT_RANGE_START :: u16 where "UDP_LOCAL_PORT_RANGE_START = 4096"
definition UDP_LOCAL_PORT_RANGE_END :: u16 where "UDP_LOCAL_PORT_RANGE_END = 0x7fff"

type_synonym udp_recv_fn = "fptr \<Rightarrow> stack \<Rightarrow> nat \<Rightarrow> ptr \<Rightarrow> ptr \<Rightarrow> ip_addr \<Rightarrow> u16 \<Rightarrow> stack option"

record udp_hdr =
  uh_src :: u16
  uh_dest :: u16
  uh_len :: u16
  uh_chksum :: u16

definition udp_hdr_octets :: "udp_hdr \<Rightarrow> u8 list" where
  "udp_hdr_octets h = mem_bytes16 (uh_src h) @ mem_bytes16 (uh_dest h) @ mem_bytes16 (uh_len h) @ mem_bytes16 (uh_chksum h)"

definition read_udp_hdr :: "heap \<Rightarrow> ptr \<times> int \<Rightarrow> udp_hdr option" where
  "read_udp_hdr h a =
     do {
       bs \<leftarrow> mem_read h a 8;
       Some \<lparr>uh_src = load16w bs 0, uh_dest = load16w bs 2, uh_len = load16w bs 4, uh_chksum = load16w bs 6\<rparr>
     }"

definition put_upcb :: "ptr \<Rightarrow> udp_pcb \<Rightarrow> stack \<Rightarrow> stack" where
  "put_upcb a pcb s = s\<lparr>upcbs := (upcbs s)(a := Some pcb)\<rparr>"

section \<open>Input\<close>

definition udp_local_match :: "udp_pcb \<Rightarrow> ip_hdr \<Rightarrow> netif \<Rightarrow> u16 \<Rightarrow> bool" where
  "udp_local_match pcb iphdr nf dest \<longleftrightarrow> u_local_port pcb = dest
     \<and> (ip_addr_isany (u_local_ip pcb) \<or> u_local_ip pcb = ih_dest iphdr
        \<or> ip_addr_ismulticast (ih_dest iphdr) \<or> ip_addr_isbroadcast (ih_dest iphdr) nf)"

definition udp_full_match :: "udp_pcb \<Rightarrow> ip_hdr \<Rightarrow> netif \<Rightarrow> u16 \<Rightarrow> u16 \<Rightarrow> bool" where
  "udp_full_match pcb iphdr nf src dest \<longleftrightarrow> udp_local_match pcb iphdr nf dest \<and> u_remote_port pcb = src
     \<and> (ip_addr_isany (u_remote_ip pcb) \<or> u_remote_ip pcb = ih_src iphdr)"

text \<open>The loop over the control blocks: \<open>seen\<close> are the blocks already passed, in the order of the list. A full match
  that is not the first of the list moves to the front. The result is the block for the datagram (\<open>NULL\<close> when there is
  none) and the list.\<close>

fun udp_find ::
    "stack \<Rightarrow> ip_hdr \<Rightarrow> netif \<Rightarrow> u16 \<Rightarrow> u16 \<Rightarrow> ptr list \<Rightarrow> ptr \<Rightarrow> ptr list \<Rightarrow> (ptr \<times> ptr list) option" where
  "udp_find s iphdr nf src dest seen uncon_pcb [] = Some (uncon_pcb, seen)"
| "udp_find s iphdr nf src dest seen uncon_pcb (a # as) =
     do {
       pcb \<leftarrow> upcbs s a;
       let uncon_pcb = (if udp_local_match pcb iphdr nf dest \<and> uncon_pcb = NULL
                           \<and> u_flags pcb AND UDP_FLAGS_CONNECTED = 0 then a else uncon_pcb);
       if udp_full_match pcb iphdr nf src dest then Some (a, a # seen @ as)
       else udp_find s iphdr nf src dest (seen @ [a]) uncon_pcb as
     }"

text \<open>The datagram is for the block \<open>a\<close>, or for this host and no block (\<open>a\<close> is \<open>NULL\<close>).\<close>

definition udp_deliver ::
    "udp_recv_fn \<Rightarrow> stack \<Rightarrow> ptr \<Rightarrow> netif \<Rightarrow> ip_hdr \<Rightarrow> udp_hdr \<Rightarrow> ptr \<Rightarrow> stack option" where
  "udp_deliver on_recv s p nf iphdr udphdr a =
     do {
       pb \<leftarrow> pbufs (mem s) p;
       bad \<leftarrow> (if uh_chksum udphdr \<noteq> 0
         then do {
           xs \<leftarrow> pbuf_octets (mem s) p;
           Some (inet_chksum_pseudo xs (ih_src iphdr) (ih_dest iphdr) IP_PROTO_UDP (tot_len pb) \<noteq> 0)
         }
         else Some False);
       if bad then do { (s, _) \<leftarrow> pbuf_free_s s p; Some s }
       else do {
         (s, fail) \<leftarrow> pbuf_header_s s p (- UDP_HLEN);
         if fail then do { (s, _) \<leftarrow> pbuf_free_s s p; Some s }
         else if a \<noteq> NULL
         then do {
           pcb \<leftarrow> upcbs s a;
           if u_recv pcb \<noteq> 0
           then on_recv (u_recv pcb) s (u_recv_arg pcb) a p (ih_src iphdr) (ntohs (uh_src udphdr))
           else do { (s, _) \<leftarrow> pbuf_free_s s p; Some s }
         }
         else do {
           s \<leftarrow> (if \<not> ip_addr_isbroadcast (ih_dest iphdr) nf \<and> \<not> ip_addr_ismulticast (ih_dest iphdr)
             then do {
               (s, _) \<leftarrow> pbuf_header_s s p (IPH_HL iphdr * 4 + UDP_HLEN);
               icmp_dest_unreach s p ICMP_DUR_PORT
             }
             else Some s);
           (s, _) \<leftarrow> pbuf_free_s s p;
           Some s
         }
       }
     }"

definition udp_input :: "udp_recv_fn \<Rightarrow> stack \<Rightarrow> ptr \<Rightarrow> ptr \<Rightarrow> stack option" where
  "udp_input on_recv s p inp =
     do {
       pb \<leftarrow> pbufs (mem s) p;
       iphdr \<leftarrow> read_ip_hdr (mem s) (payload pb);
       (s, fail) \<leftarrow> (if tot_len pb < IPH_HL iphdr * 4 + UDP_HLEN then Some (s, True)
         else pbuf_header_s s p (- (IPH_HL iphdr * 4)));
       if fail then do { (s, _) \<leftarrow> pbuf_free_s s p; Some s }
       else do {
         pb \<leftarrow> pbufs (mem s) p;
         udphdr \<leftarrow> read_udp_hdr (mem s) (payload pb);
         nf \<leftarrow> netifs s inp;
         (a, as) \<leftarrow> udp_find s iphdr nf (ntohs (uh_src udphdr)) (ntohs (uh_dest udphdr)) [] NULL (udp_pcbs s);
         let s = s\<lparr>udp_pcbs := as\<rparr>;
         if a \<noteq> NULL \<or> nf_ip_addr nf = ih_dest iphdr then udp_deliver on_recv s p nf iphdr udphdr a
         else do { (s, _) \<leftarrow> pbuf_free_s s p; Some s }
       }
     }"

section \<open>Binding\<close>

text \<open>The loop that looks for a free port: \<open>port\<close> is tried against the blocks \<open>as\<close> that are left. The
  result is the port and whether the loop stopped because the range is used up.\<close>

partial_function (option) udp_port_search :: "stack \<Rightarrow> u16 \<Rightarrow> ptr list \<Rightarrow> (u16 \<times> bool) option" where
  "udp_port_search s port as =
     (case as of
        [] \<Rightarrow> Some (port, False)
      | a # as' \<Rightarrow>
          if port = UDP_LOCAL_PORT_RANGE_END then Some (port, True)
          else do {
            pcb \<leftarrow> upcbs s a;
            if u_local_port pcb = port then udp_port_search s (port + 1) (udp_pcbs s)
            else udp_port_search s port as'
          })"

declare udp_port_search.simps [code]

definition udp_bind :: "stack \<Rightarrow> ptr \<Rightarrow> ip_addr \<Rightarrow> u16 \<Rightarrow> (stack \<times> err) option" where
  "udp_bind s a ipaddr port =
     do {
       let rebind = (a \<in> set (udp_pcbs s));
       pcb \<leftarrow> upcbs s a;
       let s = put_upcb a (pcb\<lparr>u_local_ip := ipaddr\<rparr>) s;
       (port, used_up) \<leftarrow> (if port = 0 then udp_port_search s UDP_LOCAL_PORT_RANGE_START (udp_pcbs s)
         else Some (port, False));
       if used_up then Some (s, ERR_USE)
       else do {
         let s = put_upcb a (pcb\<lparr>u_local_ip := ipaddr, u_local_port := port\<rparr>) s;
         Some (if rebind then s else s\<lparr>udp_pcbs := a # udp_pcbs s\<rparr>, ERR_OK)
       }
     }"

definition udp_connect :: "stack \<Rightarrow> ptr \<Rightarrow> ip_addr \<Rightarrow> u16 \<Rightarrow> (stack \<times> err) option" where
  "udp_connect s a ipaddr port =
     do {
       pcb \<leftarrow> upcbs s a;
       (s, e) \<leftarrow> (if u_local_port pcb = 0 then udp_bind s a (u_local_ip pcb) (u_local_port pcb) else Some (s, ERR_OK));
       if e \<noteq> ERR_OK then Some (s, e)
       else do {
         pcb \<leftarrow> upcbs s a;
         let s = put_upcb a (pcb\<lparr>u_remote_ip := ipaddr, u_remote_port := port,
                                 u_flags := u_flags pcb OR UDP_FLAGS_CONNECTED\<rparr>) s;
         Some (if a \<in> set (udp_pcbs s) then s else s\<lparr>udp_pcbs := a # udp_pcbs s\<rparr>, ERR_OK)
       }
     }"

definition udp_disconnect :: "stack \<Rightarrow> ptr \<Rightarrow> stack option" where
  "udp_disconnect s a =
     do {
       pcb \<leftarrow> upcbs s a;
       Some (put_upcb a (pcb\<lparr>u_remote_ip := 0, u_remote_port := 0,
                             u_flags := u_flags pcb AND NOT UDP_FLAGS_CONNECTED\<rparr>) s)
     }"

definition udp_recv :: "stack \<Rightarrow> ptr \<Rightarrow> fptr \<Rightarrow> nat \<Rightarrow> stack option" where
  "udp_recv s a recv recv_arg = do { pcb \<leftarrow> upcbs s a; Some (put_upcb a (pcb\<lparr>u_recv := recv, u_recv_arg := recv_arg\<rparr>) s) }"

definition udp_remove :: "stack \<Rightarrow> ptr \<Rightarrow> stack" where
  "udp_remove s a = s\<lparr>udp_pcbs := remove1 a (udp_pcbs s), upcbs := (upcbs s)(a := None)\<rparr>"

definition udp_new :: "stack \<Rightarrow> stack \<times> ptr" where
  "udp_new s =
     (let (s, a) = memp_malloc s
      in if a \<noteq> NULL
         then (put_upcb a \<lparr>u_local_ip = 0, u_remote_ip = 0, u_so_options = 0, u_tos = 0, u_ttl = UDP_TTL, u_flags = 0,
                           u_local_port = 0, u_remote_port = 0, u_multicast_ip = 0, u_recv = 0, u_recv_arg = 0\<rparr> s, a)
         else (s, a))"

section \<open>Output\<close>

text \<open>The packet with room for the UDP header: \<open>p\<close> itself, or a header pbuf chained in front of it.\<close>

definition udp_hdr_room :: "stack \<Rightarrow> ptr \<Rightarrow> (stack \<times> ptr) option" where
  "udp_hdr_room s p =
     do {
       (s, fail) \<leftarrow> pbuf_header_s s p UDP_HLEN;
       if fail
       then do {
         (s, q) \<leftarrow> pbuf_alloc_s s PBUF_IP UDP_HLEN PBUF_RAM;
         if q = NULL then Some (s, NULL)
         else do { h \<leftarrow> pbuf_chain (mem s) q p; Some (s\<lparr>mem := h\<rparr>, q) }
       }
       else Some (s, p)
     }"

text \<open>The header in its final form and the call of IP: \<open>udphdr\<close> has the ports and checksum 0.\<close>

definition udp_transmit ::
    "stack \<Rightarrow> udp_pcb \<Rightarrow> ptr \<Rightarrow> udp_hdr \<Rightarrow> ip_addr \<Rightarrow> ip_addr \<Rightarrow> ptr \<Rightarrow> (stack \<times> err) option" where
  "udp_transmit s pcb q udphdr src_ip dst_ip nif =
     do {
       qb \<leftarrow> pbufs (mem s) q;
       let udphdr = udphdr\<lparr>uh_len := htons (tot_len qb)\<rparr>;
       h \<leftarrow> mem_write (mem s) (payload qb) (udp_hdr_octets udphdr);
       h \<leftarrow> (if u_flags pcb AND UDP_FLAGS_NOCHKSUM = 0
         then do {
           xs \<leftarrow> pbuf_octets h q;
           let c = inet_chksum_pseudo xs src_ip dst_ip IP_PROTO_UDP (tot_len qb);
           mem_write h (payload qb) (udp_hdr_octets (udphdr\<lparr>uh_chksum := (if c = 0 then 0xffff else c)\<rparr>))
         }
         else Some h);
       ip_output_if (s\<lparr>mem := h\<rparr>) q [] src_ip (Some dst_ip) (u_ttl pcb) (u_tos pcb) IP_PROTO_UDP nif
     }"

definition udp_sendto_if :: "stack \<Rightarrow> ptr \<Rightarrow> ptr \<Rightarrow> ip_addr \<Rightarrow> u16 \<Rightarrow> ptr \<Rightarrow> (stack \<times> err) option" where
  "udp_sendto_if s a p dst_ip dst_port nif =
     do {
       pcb \<leftarrow> upcbs s a;
       (s, e) \<leftarrow> (if u_local_port pcb = 0 then udp_bind s a (u_local_ip pcb) (u_local_port pcb) else Some (s, ERR_OK));
       if e \<noteq> ERR_OK then Some (s, e)
       else do {
         (s, q) \<leftarrow> udp_hdr_room s p;
         if q = NULL then Some (s, ERR_MEM)
         else do {
           pcb \<leftarrow> upcbs s a;
           qb \<leftarrow> pbufs (mem s) q;
           udphdr \<leftarrow> read_udp_hdr (mem s) (payload qb);
           let udphdr = udphdr\<lparr>uh_src := htons (u_local_port pcb), uh_dest := htons dst_port, uh_chksum := 0\<rparr>;
           h \<leftarrow> mem_write (mem s) (payload qb) (udp_hdr_octets udphdr);
           let s = s\<lparr>mem := h\<rparr>;
           nf \<leftarrow> netifs s nif;
           (s, e) \<leftarrow> (if \<not> ip_addr_isany (u_local_ip pcb) \<and> u_local_ip pcb \<noteq> nf_ip_addr nf then Some (s, ERR_VAL)
             else udp_transmit s pcb q udphdr (if ip_addr_isany (u_local_ip pcb) then nf_ip_addr nf else u_local_ip pcb)
                    dst_ip nif);
           s \<leftarrow> (if q \<noteq> p then do { (s, _) \<leftarrow> pbuf_free_s s q; Some s } else Some s);
           Some (s, e)
         }
       }
     }"

definition udp_sendto :: "stack \<Rightarrow> ptr \<Rightarrow> ptr \<Rightarrow> ip_addr \<Rightarrow> u16 \<Rightarrow> (stack \<times> err) option" where
  "udp_sendto s a p dst_ip dst_port =
     do {
       pcb \<leftarrow> upcbs s a;
       nif \<leftarrow> ip_route s (if ip_addr_ismulticast dst_ip then u_multicast_ip pcb else dst_ip);
       if nif = NULL then Some (s, ERR_RTE) else udp_sendto_if s a p dst_ip dst_port nif
     }"

definition udp_send :: "stack \<Rightarrow> ptr \<Rightarrow> ptr \<Rightarrow> (stack \<times> err) option" where
  "udp_send s a p = do { pcb \<leftarrow> upcbs s a; udp_sendto s a p (u_remote_ip pcb) (u_remote_port pcb) }"

end
