(* ===== verification/Udp_Wire.thy ===== *)
theory Udp_Wire
  imports Udp Ip_Wire Sample
begin

text \<open>
  What UDP puts on the wire, which control block gets a datagram, and the ports that \<^verbatim>\<open>udp_bind\<close>
  gives out.
\<close>

unbundle bit_operations_syntax

section \<open>Sending\<close>

lemma length_udp_hdr_octets [simp]: "length (udp_hdr_octets h) = 8"
  by (simp add: udp_hdr_octets_def)

lemma pseudo_header_even [simp]: "length (pseudo_header src dest proto n) = 12"
  by (simp add: pseudo_header_def)

lemma udp_chksum_verifies:
  assumes "c = rfc1071 (pseudo_header src dest proto n @ udp_hdr_octets (h\<lparr>uh_chksum := 0\<rparr>) @ bs)"
  shows "rfc1071 (pseudo_header src dest proto n @ udp_hdr_octets (h\<lparr>uh_chksum := (if c = 0 then 0xffff else c)\<rparr>) @ bs) = 0"
proof -
  define pre where "pre = pseudo_header src dest proto n @ mem_bytes16 (uh_src h) @ mem_bytes16 (uh_dest h) @ mem_bytes16 (uh_len h)"
  have oct: "pseudo_header src dest proto n @ udp_hdr_octets (h\<lparr>uh_chksum := w\<rparr>) @ bs = pre @ [ucast w, ucast (drop_bit 8 w)] @ bs" for w
    by (simp add: pre_def udp_hdr_octets_def mem_bytes16_def)
  show ?thesis
    unfolding oct by (rule rfc1071_fill [of pre c]) (use assms in \<open>auto simp: oct pre_def\<close>)
qed

text \<open>The last part of \<^verbatim>\<open>udp_sendto_if\<close>: the header is in place but for its length and checksum.\<close>

lemma udp_transmit_sends:
  assumes lay: "laid_out (mem s) p b qs (udp_hdr_octets uh @ bs) blk buf i" and room: "20 \<le> i" "length bs + 28 < 65536" "8 \<le> unat (p_len b)"
    and nif: "netifs s nif = Some nf" "nf_mtu nf = 0 \<or> length bs + 28 \<le> unat (nf_mtu nf)"
    and pcb: "u_flags pcb AND UDP_FLAGS_NOCHKSUM = 0" "uh_chksum uh = 0" "src \<noteq> 0"
  shows "\<exists>hdr c s'. udp_transmit s pcb p uh src dst nif = Some (s', drv_err s (length (link s)))
    \<and> link s' = link s @ [Output nif (ip_hdr_octets hdr @ udp_hdr_octets (uh\<lparr>uh_len := htons (of_nat (8 + length bs)), uh_chksum := c\<rparr>) @ bs) dst]
    \<and> ip_hdr_for hdr src dst (u_ttl pcb) IP_PROTO_UDP (28 + length bs)
    \<and> c \<noteq> 0 \<and> rfc1071 (pseudo_header src dst IP_PROTO_UDP (of_nat (8 + length bs))
         @ udp_hdr_octets (uh\<lparr>uh_len := htons (of_nat (8 + length bs)), uh_chksum := c\<rparr>) @ bs) = 0"
proof -
  define n where "n = (of_nat (8 + length bs) :: u16)"
  define uh1 where "uh1 = uh\<lparr>uh_len := htons n\<rparr>"
  note f = laid_outD [OF lay]
  have tot: "tot_len b = n"
  proof -
    have u: "unat (tot_len b) = 8 + length bs"
      using f(3) by simp
    show ?thesis unfolding n_def u [symmetric] by simp
  qed
  define buf1 where "buf1 = block_write buf i (udp_hdr_octets uh1)"
  define h1 where "h1 = (mem s)\<lparr>blocks := (blocks (mem s))(blk \<mapsto> buf1)\<rparr>"
  have w1: "mem_write (mem s) (blk, int i) (udp_hdr_octets uh1) = Some h1" and l1: "laid_out h1 p b qs (udp_hdr_octets uh1 @ bs) blk buf1 i"
    using laid_out_write [OF lay, of "udp_hdr_octets uh1"] room(3) by (simp_all add: h1_def buf1_def)
  obtain xs where xs: "pbuf_octets h1 p = Some xs" "concat xs = udp_hdr_octets uh1 @ bs"
    using laid_out_octets [OF l1] by blast
  define c where "c = inet_chksum_pseudo xs src dst IP_PROTO_UDP n"
  define c' where "c' = (if c = 0 then 0xffff else c)"
  have c0: "c' \<noteq> 0" by (simp add: c'_def word_unat_eq_iff)
  define uh2 where "uh2 = uh1\<lparr>uh_chksum := c'\<rparr>"
  have "\<forall>q\<in>set xs. length q < 65536"
  proof
    fix q assume "q \<in> set xs"
    then have "length q \<le> length (concat xs)"
      by (auto simp: length_concat intro: member_le_sum_list)
    then show "length q < 65536" using xs(2) room(2) by simp
  qed
  moreover have "uh1\<lparr>uh_chksum := 0\<rparr> = uh1"
    using pcb(2) by (simp add: uh1_def)
  ultimately have "c = rfc1071 (pseudo_header src dst IP_PROTO_UDP n @ udp_hdr_octets (uh1\<lparr>uh_chksum := 0\<rparr>) @ bs)"
    unfolding c_def by (subst inet_chksum_pseudo_eq) (simp_all add: xs(2))
  then have ok: "rfc1071 (pseudo_header src dst IP_PROTO_UDP n @ udp_hdr_octets uh2 @ bs) = 0"
    unfolding uh2_def c'_def by (rule udp_chksum_verifies)
  define buf2 where "buf2 = block_write buf1 i (udp_hdr_octets uh2)"
  define h2 where "h2 = h1\<lparr>blocks := (blocks h1)(blk \<mapsto> buf2)\<rparr>"
  have w2: "mem_write h1 (blk, int i) (udp_hdr_octets uh2) = Some h2" and l2: "laid_out h2 p b qs (udp_hdr_octets uh2 @ bs) blk buf2 i"
    using laid_out_write [OF l1, of "udp_hdr_octets uh2"] room(3) by (simp_all add: h2_def buf2_def)
  obtain hdr h' where out: "ip_output_if (s\<lparr>mem := h2\<rparr>) p [] src (Some dst) (u_ttl pcb) (u_tos pcb) IP_PROTO_UDP nif
      = Some (s\<lparr>mem := h', ip_id := ip_id s + 1, link := link s @ [Output nif (ip_hdr_octets hdr @ udp_hdr_octets uh2 @ bs) dst]\<rparr>,
              drv_err s (length (link s)))"
      "ip_hdr_for hdr src dst (u_ttl pcb) IP_PROTO_UDP (28 + length bs)"
    using ip_output_if_sends [of "s\<lparr>mem := h2\<rparr>" p b qs "udp_hdr_octets uh2 @ bs" blk buf2 i "[]" nif nf src dst
        "u_ttl pcb" "u_tos pcb" IP_PROTO_UDP] l2 room nif pcb(3)
    by (auto simp: add.commute)
  have "udp_transmit s pcb p uh src dst nif
      = Some (s\<lparr>mem := h', ip_id := ip_id s + 1, link := link s @ [Output nif (ip_hdr_octets hdr @ udp_hdr_octets uh2 @ bs) dst]\<rparr>,
              drv_err s (length (link s)))"
    using out(1) pcb(1) unfolding udp_transmit_def
    by (simp add: f(2,7) tot uh1_def [symmetric] w1 xs(1) c_def [symmetric] c'_def [symmetric] uh2_def [symmetric] w2 Let_def cong: if_cong)
  then show ?thesis
    using out(2) ok c0 unfolding uh2_def uh1_def n_def
    by (intro exI [of _ hdr] exI [of _ c'] exI) auto
qed

text \<open>C8. A datagram of a bound control block goes out as one packet that its receiver accepts: an IP header for the source
  and destination with the right length and a checksum that verifies, a UDP header with the ports of the block and of the
  receiver and the length, a UDP checksum that is not 0 (0 would mean none) and verifies over the pseudo header, and the data
  unchanged. This is for a packet with room for both headers on an interface whose MTU it fits, with the address of the
  interface or no local address.\<close>

theorem udp_datagram_on_wire:
  assumes "upcbs s a = Some pcb" "u_local_port pcb \<noteq> 0" "u_flags pcb AND UDP_FLAGS_NOCHKSUM = 0"
    and "netifs s nif = Some nf" "nf_ip_addr nf \<noteq> 0" "u_local_ip pcb = 0 \<or> u_local_ip pcb = nf_ip_addr nf"
    and "nf_mtu nf = 0 \<or> length bs + 28 \<le> unat (nf_mtu nf)" "length bs + 28 < 65536"
    and "laid_out (mem s) p b qs bs blk buf i" "28 \<le> i"
  shows "\<exists>s' hdr uh. udp_sendto_if s a p dst port nif = Some (s', drv_err s (length (link s)))
    \<and> link s' = link s @ [Output nif (ip_hdr_octets hdr @ udp_hdr_octets uh @ bs) dst]
    \<and> ip_hdr_for hdr (nf_ip_addr nf) dst (u_ttl pcb) IP_PROTO_UDP (28 + length bs)
    \<and> ntohs (uh_src uh) = u_local_port pcb \<and> ntohs (uh_dest uh) = port \<and> ntohs (uh_len uh) = of_nat (8 + length bs)
    \<and> uh_chksum uh \<noteq> 0
    \<and> inet_chksum_pseudo [udp_hdr_octets uh @ bs] (nf_ip_addr nf) dst IP_PROTO_UDP (of_nat (8 + length bs)) = 0"
proof -
  let ?b = "shown_more b blk i 8" and ?ip = "nf_ip_addr nf"
  define h1 where "h1 = put_pbuf p ?b (mem s)"
  have hd: "pbuf_header_s s p UDP_HLEN = Some (s\<lparr>mem := h1\<rparr>, False)"
    and l1: "laid_out h1 p ?b qs (take 8 (drop (i - 8) buf) @ bs) blk buf (i - 8)"
    using laid_out_reveal [OF assms(9), of 8] assms(8,10) by (simp_all add: pbuf_header_s_def h1_def UDP_HLEN_def)
  note f = laid_outD [OF l1]
  have len: "i - 8 + 8 \<le> length buf" "8 \<le> unat (p_len ?b)" "20 \<le> i - 8"
    using f(8) assms(8,10) laid_outD(4,8) [OF assms(9)] by (auto simp: shown_more_def unat_word_ariths)
  obtain uh0 where rd: "read_udp_hdr h1 (blk, int (i - 8)) = Some uh0"
    using len l1 mem_read_at [of h1 blk buf "i - 8" 8] by (auto simp: read_udp_hdr_def laid_out_def)
  define uh1 where "uh1 = uh0\<lparr>uh_src := htons (u_local_port pcb), uh_dest := htons port, uh_chksum := 0\<rparr>"
  define buf2 where "buf2 = block_write buf (i - 8) (udp_hdr_octets uh1)"
  define h2 where "h2 = h1\<lparr>blocks := (blocks h1)(blk \<mapsto> buf2)\<rparr>"
  have wr: "mem_write h1 (blk, int (i - 8)) (udp_hdr_octets uh1) = Some h2"
    and l2: "laid_out h2 p ?b qs (udp_hdr_octets uh1 @ bs) blk buf2 (i - 8)"
    using laid_out_write [OF l1, of "udp_hdr_octets uh1"] len assms(10) laid_outD(8) [OF assms(9)]
    by (simp_all add: h2_def buf2_def)
  obtain s' hdr c where out: "udp_transmit (s\<lparr>mem := h2\<rparr>) pcb p uh1 ?ip dst nif = Some (s', drv_err s (length (link s)))"
      "link s' = link s @ [Output nif (ip_hdr_octets hdr @ udp_hdr_octets (uh1\<lparr>uh_len := htons (of_nat (8 + length bs)), uh_chksum := c\<rparr>) @ bs) dst]"
      "ip_hdr_for hdr ?ip dst (u_ttl pcb) IP_PROTO_UDP (28 + length bs)" "c \<noteq> 0"
      "rfc1071 (pseudo_header ?ip dst IP_PROTO_UDP (of_nat (8 + length bs))
         @ udp_hdr_octets (uh1\<lparr>uh_len := htons (of_nat (8 + length bs)), uh_chksum := c\<rparr>) @ bs) = 0"
    using udp_transmit_sends [of "s\<lparr>mem := h2\<rparr>" p ?b qs uh1 bs blk buf2 "i - 8" nif nf pcb ?ip dst] l2 len assms(3-5,7,8,10)
    by (auto simp: uh1_def)
  have src: "(if ip_addr_isany (u_local_ip pcb) then ?ip else u_local_ip pcb) = ?ip"
      "\<not> (\<not> ip_addr_isany (u_local_ip pcb) \<and> u_local_ip pcb \<noteq> ?ip)"
    using assms(6) by (auto simp: ip_addr_isany_def)
  have "udp_sendto_if s a p dst port nif = Some (s', drv_err s (length (link s)))"
    using assms(1,2,4) f(1) out(1) src unfolding udp_sendto_if_def udp_hdr_room_def
    by (simp add: hd f(2,7) rd uh1_def [symmetric] wr Let_def del: de_Morgan_conj)
  then show ?thesis
    using out(2-5) assms(8)
    by (intro exI [of _ s'] exI [of _ hdr] exI [of _ "uh1\<lparr>uh_len := htons (of_nat (8 + length bs)), uh_chksum := c\<rparr>"])
       (simp add: uh1_def ntohs_def htons_htons inet_chksum_pseudo_eq)
qed

definition udp_sample_pcb :: udp_pcb where
  "udp_sample_pcb = \<lparr>u_local_ip = 0, u_remote_ip = 0, u_so_options = 0, u_tos = 0, u_ttl = UDP_TTL, u_flags = 0,
     u_local_port = 4096, u_remote_port = 0, u_multicast_ip = 0, u_recv = 0, u_recv_arg = 0\<rparr>"

definition udp_sample :: stack where
  "udp_sample = (sample_stack
     \<lparr>pbufs = [2 \<mapsto> \<lparr>p_next = NULL, payload = (2, 28), tot_len = 3, p_len = 3, p_type = PBUF_RAM, p_flags = 0, p_ref = 1\<rparr>],
      blocks = [2 \<mapsto> replicate 28 0 @ [7, 8, 9]], brk = 3, mem_ok = (\<lambda>a. True), junk = (\<lambda>a i. 0),
      pool_payload = PBUF_POOL_BUFSIZE\<rparr>)
     \<lparr>upcbs := [5 \<mapsto> udp_sample_pcb], udp_pcbs := [5]\<rparr>"

theorem udp_datagram_on_wire_witness:
  "\<exists>s' hdr uh. udp_sendto_if udp_sample 5 2 77 53 1 = Some (s', ERR_OK)
    \<and> link s' = [Output 1 (ip_hdr_octets hdr @ udp_hdr_octets uh @ [7, 8, 9]) 77] \<and> ntohs (uh_dest uh) = 53
    \<and> inet_chksum_pseudo [udp_hdr_octets uh @ [7, 8, 9]] 0x0100000a 77 IP_PROTO_UDP 11 = 0"
  using udp_datagram_on_wire [of udp_sample 5 udp_sample_pcb 1 sample_netif "[7, 8, 9]" 2
      "\<lparr>p_next = NULL, payload = (2, 28), tot_len = 3, p_len = 3, p_type = PBUF_RAM, p_flags = 0, p_ref = 1\<rparr>" "[]" 2 "replicate 28 0 @ [7, 8, 9]" 28 77 53]
  by (auto simp: udp_sample_def udp_sample_pcb_def sample_stack_def sample_netif_def laid_out_def packet_def pbuf_data_def
      mem_read_def UDP_FLAGS_NOCHKSUM_def)

section \<open>Receiving\<close>

text \<open>The block for a datagram, as the comment in the source describes it: the first one that matches both ends, or else the
  first unconnected one that matches the local end.\<close>

definition udp_owner :: "stack \<Rightarrow> ip_hdr \<Rightarrow> netif \<Rightarrow> u16 \<Rightarrow> u16 \<Rightarrow> ptr option" where
  "udp_owner s iphdr nf src dest =
     (case find (\<lambda>a. udp_full_match (the (upcbs s a)) iphdr nf src dest) (udp_pcbs s) of
        Some a \<Rightarrow> Some a
      | None \<Rightarrow> find (\<lambda>a. udp_local_match (the (upcbs s a)) iphdr nf dest
                       \<and> u_flags (the (upcbs s a)) AND UDP_FLAGS_CONNECTED = 0) (udp_pcbs s))"

lemma find_SomeD: "find P xs = Some x \<Longrightarrow> P x \<and> x \<in> set xs"
  by (auto simp: find_Some_iff)

lemma udp_find_spec:
  assumes "\<forall>a\<in>set as. upcbs s a \<noteq> None" "NULL \<notin> set as"
  shows "udp_find s iphdr nf src dest seen uncon as =
     (case find (\<lambda>a. udp_full_match (the (upcbs s a)) iphdr nf src dest) as of
        Some a \<Rightarrow> Some (a, a # seen @ remove1 a as)
      | None \<Rightarrow> Some (if uncon \<noteq> NULL then uncon
          else (case find (\<lambda>a. udp_local_match (the (upcbs s a)) iphdr nf dest
                       \<and> u_flags (the (upcbs s a)) AND UDP_FLAGS_CONNECTED = 0) as of Some a \<Rightarrow> a | None \<Rightarrow> NULL), seen @ as))"
  using assms
proof (induction as arbitrary: seen uncon)
  case (Cons a as)
  then obtain pcb where "upcbs s a = Some pcb" by auto
  with Cons show ?case
    by (auto simp: Let_def split: option.splits dest: find_SomeD)
qed (auto split: option.splits)

section \<open>Ports\<close>

lemma udp_pcbs_put [simp]: "udp_pcbs (put_upcb a pcb s) = udp_pcbs s"
  by (simp add: put_upcb_def)

definition udp_ports :: "stack \<Rightarrow> u16 set" where
  "udp_ports s = (\<lambda>a. u_local_port (the (upcbs s a))) ` set (udp_pcbs s)"

text \<open>The outcome of the search from \<open>port\<close> on: the first port that is free, or the end of the range.\<close>

definition first_free :: "stack \<Rightarrow> u16 \<Rightarrow> u16 \<times> bool \<Rightarrow> bool" where
  "first_free s port res \<longleftrightarrow> (let (q, used_up) = res in port \<le> q \<and> (\<forall>r. port \<le> r \<and> r < q \<longrightarrow> r \<in> udp_ports s)
     \<and> (if used_up then q = UDP_LOCAL_PORT_RANGE_END else q < UDP_LOCAL_PORT_RANGE_END \<and> q \<notin> udp_ports s))"

lemma udp_port_search_first_free:
  assumes "\<forall>a\<in>set (udp_pcbs s). upcbs s a \<noteq> None" "udp_pcbs s = xs @ as" "\<forall>a\<in>set xs. u_local_port (the (upcbs s a)) \<noteq> port"
    and "port \<le> UDP_LOCAL_PORT_RANGE_END" "as = [] \<longrightarrow> port \<noteq> UDP_LOCAL_PORT_RANGE_END"
  shows "\<exists>res. udp_port_search s port as = Some res \<and> first_free s port res"
  using assms
proof (induction "(unat UDP_LOCAL_PORT_RANGE_END - unat port) * (length (udp_pcbs s) + 1) + length as" arbitrary: port xs as
    rule: less_induct)
  case less
  show ?case
  proof (cases as)
    case Nil
    then have "port \<notin> udp_ports s"
      using less.prems(2,3) by (force simp: udp_ports_def)
    then show ?thesis
      using Nil less.prems(4,5) by (subst udp_port_search.simps) (auto simp: first_free_def)
  next
    case (Cons a as')
    then obtain pcb where pcb: "upcbs s a = Some pcb" "a \<in> set (udp_pcbs s)"
      using less.prems(1,2) by auto
    consider (stop) "port = UDP_LOCAL_PORT_RANGE_END" | (used) "port \<noteq> UDP_LOCAL_PORT_RANGE_END" "u_local_port pcb = port"
      | (go) "port \<noteq> UDP_LOCAL_PORT_RANGE_END" "u_local_port pcb \<noteq> port"
      by blast
    then show ?thesis
    proof cases
      case stop
      then show ?thesis
        using Cons by (subst udp_port_search.simps) (auto simp: first_free_def)
    next
      case used
      have lt: "unat port < unat UDP_LOCAL_PORT_RANGE_END"
        using used(1) less.prems(4) by (simp add: word_le_nat_alt word_unat_eq_iff)
      have ne: "udp_pcbs s \<noteq> []"
        using pcb(2) by auto
      from lt have suc: "unat (port + 1) = unat port + 1"
        by (simp add: UDP_LOCAL_PORT_RANGE_END_def unat_word_ariths)
      have "(unat UDP_LOCAL_PORT_RANGE_END - unat (port + 1)) * (length (udp_pcbs s) + 1) + length (udp_pcbs s)
          < (unat UDP_LOCAL_PORT_RANGE_END - unat port) * (length (udp_pcbs s) + 1) + length as"
      proof -
        have "unat UDP_LOCAL_PORT_RANGE_END - unat port = Suc (unat UDP_LOCAL_PORT_RANGE_END - unat (port + 1))"
          using lt suc by simp
        then show ?thesis by simp
      qed
      then obtain res where res: "udp_port_search s (port + 1) (udp_pcbs s) = Some res" "first_free s (port + 1) res"
        using less.hyps [of "port + 1" "udp_pcbs s" "[]"] less.prems(1) lt suc ne
        by (auto simp: word_le_nat_alt)
      have "port \<in> udp_ports s"
        using pcb used(2) unfolding udp_ports_def by force
      moreover have "r = port \<or> port + 1 \<le> r" if "port \<le> r" for r
        using that suc by (auto simp: word_le_nat_alt word_unat_eq_iff)
      ultimately have "first_free s port res"
        using res(2) suc by (auto simp: first_free_def word_le_nat_alt)
      then show ?thesis
        using Cons pcb used res(1) by (subst udp_port_search.simps) simp
    next
      case go
      then show ?thesis
        using less.hyps [of port as' "xs @ [a]"] less.prems Cons pcb
        by (subst udp_port_search.simps) auto
    qed
  qed
qed

section \<open>Properties\<close>

text \<open>C13. A datagram is delivered as the source documents it: \<^verbatim>\<open>udp_input\<close> looks up the control block and hands
  the datagram to the first one that matches both ends, or else to the first unconnected one that matches the local port and
  address, and to none otherwise. A block that matches both ends moves to the front of the list; the list keeps its other
  blocks in their order.\<close>

theorem udp_demultiplexing:
  assumes "\<forall>a\<in>set (udp_pcbs s). upcbs s a \<noteq> None" "NULL \<notin> set (udp_pcbs s)"
  shows "udp_find s iphdr nf src dest [] NULL (udp_pcbs s) =
    Some (case udp_owner s iphdr nf src dest of None \<Rightarrow> NULL | Some a \<Rightarrow> a,
      case find (\<lambda>a. udp_full_match (the (upcbs s a)) iphdr nf src dest) (udp_pcbs s) of
        None \<Rightarrow> udp_pcbs s | Some a \<Rightarrow> a # remove1 a (udp_pcbs s))"
  using assms by (simp add: udp_find_spec udp_owner_def split: option.splits)

definition two_udp_pcbs :: stack where
  "two_udp_pcbs = udp_sample\<lparr>udp_pcbs := [5, 6],
     upcbs := [5 \<mapsto> udp_sample_pcb, 6 \<mapsto> udp_sample_pcb\<lparr>u_remote_ip := 9, u_remote_port := 53, u_flags := UDP_FLAGS_CONNECTED\<rparr>]\<rparr>"

theorem udp_demultiplexing_witness:
  "udp_find two_udp_pcbs (zero_ip_hdr\<lparr>ih_src := 9\<rparr>) sample_netif 53 4096 [] NULL [5, 6] = Some (6, [6, 5])
   \<and> udp_find two_udp_pcbs (zero_ip_hdr\<lparr>ih_src := 8\<rparr>) sample_netif 53 4096 [] NULL [5, 6] = Some (5, [5, 6])"
  using udp_demultiplexing [of two_udp_pcbs "zero_ip_hdr\<lparr>ih_src := 9\<rparr>" sample_netif 53 4096]
    udp_demultiplexing [of two_udp_pcbs "zero_ip_hdr\<lparr>ih_src := 8\<rparr>" sample_netif 53 4096]
  by (simp add: two_udp_pcbs_def udp_sample_pcb_def udp_owner_def udp_full_match_def udp_local_match_def ip_addr_isany_def
      UDP_FLAGS_CONNECTED_def)

text \<open>Binding without a port always returns and picks the first port from 4096 on that no registered block uses, below
  0x7fff; only when all of these are taken it returns \<^verbatim>\<open>ERR_USE\<close>, although 0x7fff itself may be free. Binding to a
  given port always succeeds, even when another block has the same address and port.\<close>

theorem udp_bind_ports:
  assumes "\<forall>x\<in>set (udp_pcbs s). upcbs s x \<noteq> None" "upcbs s a = Some pcb"
  shows "\<exists>s' e. udp_bind s a ip port = Some (s', e)
    \<and> (e = ERR_OK \<longrightarrow> a \<in> set (udp_pcbs s') \<and> (\<exists>pcb'. upcbs s' a = Some pcb' \<and> u_local_ip pcb' = ip
         \<and> (if port \<noteq> 0 then u_local_port pcb' = port
            else 4096 \<le> u_local_port pcb' \<and> u_local_port pcb' < 0x7fff \<and> u_local_port pcb' \<notin> udp_ports s
                 \<and> (\<forall>q. 4096 \<le> q \<and> q < u_local_port pcb' \<longrightarrow> q \<in> udp_ports s))))
    \<and> (e \<noteq> ERR_OK \<longrightarrow> e = ERR_USE \<and> port = 0 \<and> (\<forall>q. 4096 \<le> q \<and> q < 0x7fff \<longrightarrow> q \<in> udp_ports s))"
proof (cases "port = 0")
  case False
  then show ?thesis
    using assms(2) by (auto simp: udp_bind_def put_upcb_def Let_def)
next
  case True
  let ?s = "put_upcb a (pcb\<lparr>u_local_ip := ip\<rparr>) s"
  have ports: "udp_ports ?s = udp_ports s"
    using assms(2) unfolding udp_ports_def put_upcb_def by (intro image_cong) auto
  have "\<exists>res. udp_port_search ?s UDP_LOCAL_PORT_RANGE_START (udp_pcbs ?s) = Some res \<and> first_free ?s UDP_LOCAL_PORT_RANGE_START res"
    using assms(1) by (intro udp_port_search_first_free [of _ "[]"])
      (simp_all add: put_upcb_def UDP_LOCAL_PORT_RANGE_START_def UDP_LOCAL_PORT_RANGE_END_def)
  then obtain q u where q: "udp_port_search ?s UDP_LOCAL_PORT_RANGE_START (udp_pcbs ?s) = Some (q, u)"
      "first_free ?s UDP_LOCAL_PORT_RANGE_START (q, u)"
    by auto
  have b: "udp_bind s a ip port = (if u then Some (?s, ERR_USE)
      else Some (let s = put_upcb a (pcb\<lparr>u_local_ip := ip, u_local_port := q\<rparr>) ?s
                 in if a \<in> set (udp_pcbs s) then s else s\<lparr>udp_pcbs := a # udp_pcbs s\<rparr>, ERR_OK))"
    using assms(2) True q(1) by (simp add: udp_bind_def Let_def)
  have "first_free s UDP_LOCAL_PORT_RANGE_START (q, u)"
    using q(2) unfolding first_free_def ports .
  then show ?thesis
    using True unfolding b
    by (cases u) (auto simp: first_free_def put_upcb_def Let_def UDP_LOCAL_PORT_RANGE_START_def UDP_LOCAL_PORT_RANGE_END_def)
qed

theorem udp_bind_ports_witness:
  "\<exists>s'. udp_bind udp_sample 5 0 0 = Some (s', ERR_OK) \<and> u_local_port (the (upcbs s' 5)) = 4097"
proof -
  have "udp_ports udp_sample = {4096}"
    by (auto simp: udp_ports_def udp_sample_def udp_sample_pcb_def)
  moreover have "upcbs udp_sample = [5 \<mapsto> udp_sample_pcb]" "udp_pcbs udp_sample = [5]"
    by (simp_all add: udp_sample_def)
  ultimately obtain s' e where s': "udp_bind udp_sample 5 0 0 = Some (s', e)"
      "e = ERR_OK \<longrightarrow> 4096 \<le> u_local_port (the (upcbs s' 5)) \<and> u_local_port (the (upcbs s' 5)) \<noteq> 4096
         \<and> (\<forall>q. 4096 \<le> q \<and> q < u_local_port (the (upcbs s' 5)) \<longrightarrow> q = 4096)"
      "e \<noteq> ERR_OK \<longrightarrow> (\<forall>q. 4096 \<le> q \<and> q < (0x7fff :: u16) \<longrightarrow> q = 4096)"
    using udp_bind_ports [of udp_sample 5 udp_sample_pcb 0 0] by auto
  have "e = ERR_OK"
    using s'(3) [rule_format, of 4097] by auto
  moreover have "u_local_port (the (upcbs s' 5)) = 4097"
  proof -
    let ?q = "u_local_port (the (upcbs s' 5))"
    have "4096 < ?q" "\<not> 4097 < ?q"
      using s'(2) \<open>e = ERR_OK\<close> spec [of "\<lambda>q. 4096 \<le> q \<and> q < ?q \<longrightarrow> q = 4096" 4097] by auto
    then show ?thesis
      by (simp add: word_less_nat_alt word_unat_eq_iff)
  qed
  ultimately show ?thesis
    using s'(1) by blast
qed

end
