(* ===== verification/Ip_Reass.thy ===== *)
theory Ip_Reass
  imports Icmp
begin

text \<open>
  Reassembly of fragments, the first half of \<^verbatim>\<open>core/ipv4/ip_frag.c\<close>. The list of datagrams is linked
  by the pointers \<open>rd_next\<close>, because the source unlinks with a predecessor that it has to find. The queue of a
  datagram is a list of the fragments with their ranges; the source links it through the memory of the IP headers of
  the fragments, which nothing else reads as long as the fragment is queued.
\<close>

unbundle bit_operations_syntax

definition IP_REASS_FLAG_LASTFRAG :: u8 where "IP_REASS_FLAG_LASTFRAG = 0x01"
definition IP_REASS_MAXAGE :: u8 where "IP_REASS_MAXAGE = 3"
definition IP_REASS_MAX_PBUFS :: nat where "IP_REASS_MAX_PBUFS = 10"

definition IP_ADDRESSES_AND_ID_MATCH :: "ip_hdr \<Rightarrow> ip_hdr \<Rightarrow> bool" where
  "IP_ADDRESSES_AND_ID_MATCH a b \<longleftrightarrow> ih_src a = ih_src b \<and> ih_dest a = ih_dest b \<and> ih_id a = ih_id b"

text \<open>The range of a fragment, from its header.\<close>

definition frag_offset :: "ip_hdr \<Rightarrow> u16" where
  "frag_offset h = (ntohs (ih_offset h) AND IP_OFFMASK) * 8"

definition frag_len :: "ip_hdr \<Rightarrow> u16" where
  "frag_len h = ntohs (ih_len h) - IPH_HL h * 4"

definition put_reass :: "ptr \<Rightarrow> ip_reassdata \<Rightarrow> stack \<Rightarrow> stack" where
  "put_reass r rd s = s\<lparr>reass := (reass s)(r := Some rd)\<rparr>"

section \<open>Removing datagrams\<close>

definition ip_reass_dequeue_datagram :: "stack \<Rightarrow> ptr \<Rightarrow> ptr \<Rightarrow> stack option" where
  "ip_reass_dequeue_datagram s ipr prev =
     do {
       rd \<leftarrow> reass s ipr;
       s \<leftarrow> (if reassdatagrams s = ipr then Some (s\<lparr>reassdatagrams := rd_next rd\<rparr>)
         else if prev = NULL then None
         else do { pr \<leftarrow> reass s prev; Some (put_reass prev (pr\<lparr>rd_next := rd_next rd\<rparr>) s) });
       Some (s\<lparr>reass := (reass s)(ipr := None)\<rparr>)
     }"

text \<open>The loop that frees the queued pbufs, with the number freed so far.\<close>

fun ip_reass_free_frags :: "stack \<Rightarrow> ip_reass_helper list \<Rightarrow> nat \<Rightarrow> (stack \<times> nat) option" where
  "ip_reass_free_frags s [] pbufs_freed = Some (s, pbufs_freed)"
| "ip_reass_free_frags s (f # fs) pbufs_freed =
     do {
       n \<leftarrow> pbuf_clen (mem s) (fr_p f);
       (s, _) \<leftarrow> pbuf_free_s s (fr_p f);
       ip_reass_free_frags s fs (pbufs_freed + unat n)
     }"

definition ip_reass_free_complete_datagram :: "stack \<Rightarrow> ptr \<Rightarrow> ptr \<Rightarrow> (stack \<times> nat) option" where
  "ip_reass_free_complete_datagram s ipr prev =
     do {
       rd \<leftarrow> reass s ipr;
       (s, pbufs_freed, frags) \<leftarrow>
         (case rd_p rd of
            [] \<Rightarrow> None
          | f # fs \<Rightarrow>
              if fr_start f = 0
              then do {
                let s = put_reass ipr (rd\<lparr>rd_p := fs\<rparr>) s;
                pb \<leftarrow> pbufs (mem s) (fr_p f);
                h \<leftarrow> mem_write (mem s) (payload pb) (ip_hdr_octets (rd_iphdr rd));
                s \<leftarrow> icmp_time_exceeded (s\<lparr>mem := h\<rparr>) (fr_p f) ICMP_TE_FRAG;
                n \<leftarrow> pbuf_clen (mem s) (fr_p f);
                (s, _) \<leftarrow> pbuf_free_s s (fr_p f);
                Some (s, unat n, fs)
              }
              else Some (s, 0, f # fs));
       (s, pbufs_freed) \<leftarrow> ip_reass_free_frags s frags pbufs_freed;
       s \<leftarrow> ip_reass_dequeue_datagram s ipr prev;
       Some (s\<lparr>ip_reass_pbufcount := ip_reass_pbufcount s - of_nat pbufs_freed\<rparr>, pbufs_freed)
     }"

text \<open>The inner loop of \<^verbatim>\<open>ip_reass_remove_oldest_datagram\<close>: \<open>oldest\<close>, \<open>prev\<close> and the
  number of other datagrams.\<close>

partial_function (option) ip_reass_oldest ::
    "stack \<Rightarrow> ip_hdr \<Rightarrow> ptr \<Rightarrow> ptr \<Rightarrow> ptr \<Rightarrow> nat \<Rightarrow> (ptr \<times> ptr \<times> nat) option" where
  "ip_reass_oldest s fraghdr r oldest prev other_datagrams =
     (if r = NULL then Some (oldest, prev, other_datagrams)
      else do {
        rd \<leftarrow> reass s r;
        (oldest, other_datagrams) \<leftarrow>
          (if \<not> IP_ADDRESSES_AND_ID_MATCH (rd_iphdr rd) fraghdr
           then (if oldest = NULL then Some (r, other_datagrams + 1)
                 else do {
                   od \<leftarrow> reass s oldest;
                   Some (if rd_timer rd \<le> rd_timer od then r else oldest, other_datagrams + 1)
                 })
           else Some (oldest, other_datagrams));
        let prev = (if rd_next rd \<noteq> NULL then r else prev);
        ip_reass_oldest s fraghdr (rd_next rd) oldest prev other_datagrams
      })"

declare ip_reass_oldest.simps [code]

partial_function (option) ip_reass_remove_loop :: "stack \<Rightarrow> ip_hdr \<Rightarrow> nat \<Rightarrow> nat \<Rightarrow> (stack \<times> nat) option" where
  "ip_reass_remove_loop s fraghdr pbufs_needed pbufs_freed =
     do {
       (oldest, prev, other_datagrams) \<leftarrow> ip_reass_oldest s fraghdr (reassdatagrams s) NULL NULL 0;
       (s, pbufs_freed) \<leftarrow> (if oldest \<noteq> NULL
         then do {
           (s, n) \<leftarrow> ip_reass_free_complete_datagram s oldest prev;
           Some (s, pbufs_freed + n)
         }
         else Some (s, pbufs_freed));
       if pbufs_freed < pbufs_needed \<and> other_datagrams > 1
       then ip_reass_remove_loop s fraghdr pbufs_needed pbufs_freed
       else Some (s, pbufs_freed)
     }"

declare ip_reass_remove_loop.simps [code]

definition ip_reass_remove_oldest_datagram :: "stack \<Rightarrow> ip_hdr \<Rightarrow> nat \<Rightarrow> (stack \<times> nat) option" where
  "ip_reass_remove_oldest_datagram s fraghdr pbufs_needed = ip_reass_remove_loop s fraghdr pbufs_needed 0"

section \<open>The timer\<close>

partial_function (option) ip_reass_tmr_from :: "stack \<Rightarrow> ptr \<Rightarrow> ptr \<Rightarrow> stack option" where
  "ip_reass_tmr_from s r prev =
     (if r = NULL then Some s
      else do {
        rd \<leftarrow> reass s r;
        if rd_timer rd > 0
        then ip_reass_tmr_from (put_reass r (rd\<lparr>rd_timer := rd_timer rd - 1\<rparr>) s) (rd_next rd) r
        else do {
          (s, _) \<leftarrow> ip_reass_free_complete_datagram s r prev;
          ip_reass_tmr_from s (rd_next rd) prev
        }
      })"

declare ip_reass_tmr_from.simps [code]

definition ip_reass_tmr :: "stack \<Rightarrow> stack option" where
  "ip_reass_tmr s = ip_reass_tmr_from s (reassdatagrams s) NULL"

section \<open>New datagrams\<close>

definition ip_reass_enqueue_new_datagram :: "stack \<Rightarrow> ip_hdr \<Rightarrow> nat \<Rightarrow> (stack \<times> ptr) option" where
  "ip_reass_enqueue_new_datagram s fraghdr clen =
     do {
       let (s, ipr) = memp_malloc s;
       (s, ipr) \<leftarrow> (if ipr = NULL
         then do {
           (s, n) \<leftarrow> ip_reass_remove_oldest_datagram s fraghdr clen;
           Some (if n \<ge> clen then memp_malloc s else (s, NULL))
         }
         else Some (s, ipr));
       if ipr = NULL then Some (s, NULL)
       else Some (put_reass ipr \<lparr>rd_next = reassdatagrams s, rd_p = [], rd_iphdr = fraghdr, rd_datagram_len = 0,
                                 rd_flags = 0, rd_timer = IP_REASS_MAXAGE\<rparr> (s\<lparr>reassdatagrams := ipr\<rparr>), ipr)
     }"

section \<open>Queueing a fragment\<close>

text \<open>The loop that finds the place of the fragment \<open>new\<close> in the queue, with the fragment \<open>prev\<close> before it and
  the variable \<open>valid\<close>. The result is the new queue, \<open>valid\<close> and the fragments behind the new one, or
  \<open>None\<close> when the fragment is thrown away.\<close>

fun ip_reass_insert ::
    "ip_reass_helper \<Rightarrow> ip_reass_helper option \<Rightarrow> bool \<Rightarrow> ip_reass_helper list
      \<Rightarrow> (ip_reass_helper list \<times> bool \<times> ip_reass_helper list) option" where
  "ip_reass_insert new prev valid [] =
     (case prev of
        Some p \<Rightarrow> Some ([new], valid \<and> fr_end p = fr_start new, [])
      | None \<Rightarrow> Some ([new], valid, []))"
| "ip_reass_insert new prev valid (q # qs) =
     (if fr_start new < fr_start q
      then (case prev of
              Some p \<Rightarrow> if fr_start new < fr_end p \<or> fr_end new > fr_start q then None
                        else Some (new # q # qs, valid, q # qs)
            | None \<Rightarrow> Some (new # q # qs, valid, q # qs))
      else if fr_start new = fr_start q then None
      else if fr_start new < fr_end q then None
      else do {
        let valid = (case prev of Some p \<Rightarrow> if fr_end p \<noteq> fr_start q then False else valid | None \<Rightarrow> valid);
        (frags, valid, behind) \<leftarrow> ip_reass_insert new (Some q) valid qs;
        Some (q # frags, valid, behind)
      })"

text \<open>The loop that checks that there are no holes behind the fragment \<open>prev\<close>.\<close>

fun no_holes :: "ip_reass_helper \<Rightarrow> ip_reass_helper list \<Rightarrow> bool" where
  "no_holes prev [] = True"
| "no_holes prev (q # qs) \<longleftrightarrow> fr_end prev = fr_start q \<and> no_holes q qs"

definition ip_reass_chain_frag_into_datagram_and_validate :: "stack \<Rightarrow> ptr \<Rightarrow> ptr \<Rightarrow> (stack \<times> bool) option" where
  "ip_reass_chain_frag_into_datagram_and_validate s ipr new_p =
     do {
       pb \<leftarrow> pbufs (mem s) new_p;
       fraghdr \<leftarrow> read_ip_hdr (mem s) (payload pb);
       let len = frag_len fraghdr;
       let offset = frag_offset fraghdr;
       let new = \<lparr>fr_p = new_p, fr_start = offset, fr_end = offset + len\<rparr>;
       rd \<leftarrow> reass s ipr;
       case ip_reass_insert new None True (rd_p rd) of
         None \<Rightarrow> do {
           n \<leftarrow> pbuf_clen (mem s) new_p;
           let s = s\<lparr>ip_reass_pbufcount := ip_reass_pbufcount s - ucast n\<rparr>;
           (s, _) \<leftarrow> pbuf_free_s s new_p;
           Some (s, False)
         }
       | Some (frags, valid, behind) \<Rightarrow>
           Some (put_reass ipr (rd\<lparr>rd_p := frags\<rparr>) s,
                 rd_flags rd AND IP_REASS_FLAG_LASTFRAG \<noteq> 0 \<and> valid \<and> fr_start (hd frags) = 0 \<and> no_holes new behind)
     }"

section \<open>Incoming fragments\<close>

text \<open>The loop that looks for the datagram of a fragment and its predecessor in the list.\<close>

partial_function (option) ip_reass_lookup :: "stack \<Rightarrow> ip_hdr \<Rightarrow> ptr \<Rightarrow> ptr \<Rightarrow> (ptr \<times> ptr) option" where
  "ip_reass_lookup s fraghdr ipr ipr_prev =
     (if ipr = NULL then Some (NULL, ipr_prev)
      else do {
        rd \<leftarrow> reass s ipr;
        if IP_ADDRESSES_AND_ID_MATCH (rd_iphdr rd) fraghdr then Some (ipr, ipr_prev)
        else ip_reass_lookup s fraghdr (rd_next rd) ipr
      })"

declare ip_reass_lookup.simps [code]

text \<open>The loop that chains the pbufs of a complete datagram.\<close>

fun ip_reass_cat :: "stack \<Rightarrow> ptr \<Rightarrow> ip_reass_helper list \<Rightarrow> stack option" where
  "ip_reass_cat s p [] = Some s"
| "ip_reass_cat s p (f # fs) =
     do {
       (s, _) \<leftarrow> pbuf_header_s s (fr_p f) (- IP_HLEN);
       h \<leftarrow> pbuf_cat (mem s) p (fr_p f);
       ip_reass_cat (s\<lparr>mem := h\<rparr>) p fs
     }"

text \<open>The header of the reassembled datagram.\<close>

definition ip_reass_hdr :: "ip_hdr \<Rightarrow> u16 \<Rightarrow> ip_hdr" where
  "ip_reass_hdr h n =
     (let h = h\<lparr>ih_len := htons n, ih_offset := 0, ih_chksum := 0\<rparr>
      in h\<lparr>ih_chksum := inet_chksum (ip_hdr_octets h)\<rparr>)"

definition ip_reass_finish :: "stack \<Rightarrow> ptr \<Rightarrow> ptr \<Rightarrow> (stack \<times> ptr) option" where
  "ip_reass_finish s ipr ipr_prev =
     do {
       rd \<leftarrow> reass s ipr;
       let rd = rd\<lparr>rd_datagram_len := rd_datagram_len rd + IP_HLEN\<rparr>;
       case rd_p rd of
         [] \<Rightarrow> None
       | f # fs \<Rightarrow> do {
           pb \<leftarrow> pbufs (mem s) (fr_p f);
           h \<leftarrow> mem_write (mem s) (payload pb) (ip_hdr_octets (ip_reass_hdr (rd_iphdr rd) (rd_datagram_len rd)));
           s \<leftarrow> ip_reass_cat (put_reass ipr rd (s\<lparr>mem := h\<rparr>)) (fr_p f) fs;
           s \<leftarrow> ip_reass_dequeue_datagram s ipr ipr_prev;
           n \<leftarrow> pbuf_clen (mem s) (fr_p f);
           Some (s\<lparr>ip_reass_pbufcount := ip_reass_pbufcount s - ucast n\<rparr>, fr_p f)
         }
     }"

text \<open>The middle of \<^verbatim>\<open>ip_reass\<close>: the entry \<open>ipr\<close> of the fragment \<open>p\<close> is known.\<close>

definition ip_reass_frag :: "stack \<Rightarrow> ptr \<Rightarrow> ip_hdr \<Rightarrow> u8 \<Rightarrow> ptr \<Rightarrow> ptr \<Rightarrow> (stack \<times> ptr) option" where
  "ip_reass_frag s p fraghdr clen ipr ipr_prev =
     do {
       let s = s\<lparr>ip_reass_pbufcount := ip_reass_pbufcount s + ucast clen\<rparr>;
       rd \<leftarrow> reass s ipr;
       let rd = (if ntohs (ih_offset fraghdr) AND IP_MF = 0
         then rd\<lparr>rd_flags := rd_flags rd OR IP_REASS_FLAG_LASTFRAG,
                 rd_datagram_len := frag_offset fraghdr + frag_len fraghdr\<rparr>
         else rd);
       (s, complete) \<leftarrow> ip_reass_chain_frag_into_datagram_and_validate (put_reass ipr rd s) ipr p;
       if complete then ip_reass_finish s ipr ipr_prev else Some (s, NULL)
     }"

definition ip_reass :: "stack \<Rightarrow> ptr \<Rightarrow> (stack \<times> ptr) option" where
  "ip_reass s p =
     do {
       pb \<leftarrow> pbufs (mem s) p;
       fraghdr \<leftarrow> read_ip_hdr (mem s) (payload pb);
       if IPH_HL fraghdr * 4 \<noteq> IP_HLEN then do { (s, _) \<leftarrow> pbuf_free_s s p; Some (s, NULL) }
       else do {
         clen \<leftarrow> pbuf_clen (mem s) p;
         (s, ok) \<leftarrow> (if unat (ip_reass_pbufcount s) + unat clen > IP_REASS_MAX_PBUFS
           then do {
             (s, n) \<leftarrow> ip_reass_remove_oldest_datagram s fraghdr (unat clen);
             Some (s, n \<noteq> 0 \<and> unat (ip_reass_pbufcount s) + unat clen \<le> IP_REASS_MAX_PBUFS)
           }
           else Some (s, True));
         if \<not> ok then do { (s, _) \<leftarrow> pbuf_free_s s p; Some (s, NULL) }
         else do {
           (ipr, ipr_prev) \<leftarrow> ip_reass_lookup s fraghdr (reassdatagrams s) NULL;
           (s, ipr) \<leftarrow> (if ipr = NULL then ip_reass_enqueue_new_datagram s fraghdr (unat clen)
             else do {
               rd \<leftarrow> reass s ipr;
               Some (if ntohs (ih_offset fraghdr) AND IP_OFFMASK = 0 \<and> ntohs (ih_offset (rd_iphdr rd)) AND IP_OFFMASK \<noteq> 0
                     then put_reass ipr (rd\<lparr>rd_iphdr := fraghdr\<rparr>) s else s, ipr)
             });
           if ipr = NULL then do { (s, _) \<leftarrow> pbuf_free_s s p; Some (s, NULL) }
           else ip_reass_frag s p fraghdr clen ipr ipr_prev
         }
       }
     }"

end
