(* ===== verification/Reassembly.thy ===== *)
theory Reassembly
  imports Ip_Reass Headers Sample
begin

text \<open>
  Reassembly: the queue of a datagram, when a datagram counts as complete, and the list of datagrams.
\<close>

unbundle bit_operations_syntax

section \<open>The queue of a datagram\<close>

text \<open>A queue in order.\<close>

definition queue_ok :: "ip_reass_helper list \<Rightarrow> bool" where
  "queue_ok fs \<longleftrightarrow> sorted_wrt (\<lambda>f g. fr_start f < fr_start g) fs \<and> (\<forall>f\<in>set fs. fr_start f < fr_end f)"

text \<open>The fragments cover a range without holes.\<close>

fun gapless :: "ip_reass_helper list \<Rightarrow> bool" where
  "gapless [] = True"
| "gapless (f # fs) \<longleftrightarrow> no_holes f fs"

lemma gapless_append:
  "gapless (fs @ g # gs) \<longleftrightarrow> gapless fs \<and> (fs \<noteq> [] \<longrightarrow> fr_end (last fs) = fr_start g) \<and> gapless (g # gs)"
proof (cases fs)
  case (Cons f fs')
  have "no_holes f (fs' @ g # gs) \<longleftrightarrow> no_holes f fs' \<and> fr_end (last (f # fs')) = fr_start g \<and> no_holes g gs" for f
    by (induction fs' arbitrary: f) auto
  with Cons show ?thesis by simp
qed simp

text \<open>The part of the queue in front of a new fragment, and the part behind it.\<close>

definition in_front :: "ip_reass_helper \<Rightarrow> ip_reass_helper list \<Rightarrow> ip_reass_helper list" where
  "in_front new = takeWhile (\<lambda>f. fr_start f \<le> fr_start new)"

definition in_back :: "ip_reass_helper \<Rightarrow> ip_reass_helper list \<Rightarrow> ip_reass_helper list" where
  "in_back new = dropWhile (\<lambda>f. fr_start f \<le> fr_start new)"

text \<open>A fragment that is thrown away: it starts in a fragment of the queue, or it is not the first and reaches into the
  fragment behind it.\<close>

definition clashes :: "ip_reass_helper \<Rightarrow> ip_reass_helper list \<Rightarrow> bool" where
  "clashes new fs \<longleftrightarrow> (\<exists>f\<in>set fs. fr_start f \<le> fr_start new \<and> fr_start new < fr_end f)
     \<or> (in_front new fs \<noteq> [] \<and> in_back new fs \<noteq> [] \<and> fr_end new > fr_start (hd (in_back new fs)))"

lemma ip_reass_insert_spec:
  assumes "sorted_wrt (\<lambda>f g. fr_start f < fr_start g) fs" "\<forall>f\<in>set fs. fr_start f < fr_end f"
    and "case prev of None \<Rightarrow> True | Some p \<Rightarrow> fr_end p \<le> fr_start new"
  shows "ip_reass_insert new prev valid fs =
    (if (\<exists>f\<in>set fs. fr_start f \<le> fr_start new \<and> fr_start new < fr_end f)
        \<or> ((in_front new fs \<noteq> [] \<or> prev \<noteq> None) \<and> in_back new fs \<noteq> [] \<and> fr_end new > fr_start (hd (in_back new fs))) then None
     else Some (in_front new fs @ new # in_back new fs,
       valid \<and> (case prev of None \<Rightarrow> gapless (in_front new fs) | Some p \<Rightarrow> no_holes p (in_front new fs))
         \<and> (in_back new fs = [] \<longrightarrow> (case prev of None \<Rightarrow> in_front new fs = [] \<or> fr_end (last (in_front new fs)) = fr_start new
             | Some p \<Rightarrow> fr_end (last (p # in_front new fs)) = fr_start new)),
       in_back new fs))"
  using assms
proof (induction fs arbitrary: prev valid)
  case Nil
  then show ?case by (auto simp: in_front_def in_back_def split: option.splits)
next
  case (Cons f fs)
  show ?case
  proof (cases "fr_start new < fr_start f")
    case True
    then have none: "\<not> (\<exists>g\<in>set (f # fs). fr_start g \<le> fr_start new \<and> fr_start new < fr_end g)"
      using Cons.prems(1) by auto
    moreover have "in_front new (f # fs) = []" "in_back new (f # fs) = f # fs"
      using True by (simp_all add: in_front_def in_back_def)
    ultimately show ?thesis
      using True Cons.prems(3) by (auto split: option.splits)
  next
    case False
    then have split: "in_front new (f # fs) = f # in_front new fs" "in_back new (f # fs) = in_back new fs"
      by (simp_all add: in_front_def in_back_def)
    show ?thesis
    proof (cases "fr_start new < fr_end f")
      case True
      with False show ?thesis by auto
    next
      case clear: False
      then have "fr_start new \<noteq> fr_start f"
        using Cons.prems(2) by auto
      with False clear Cons.IH [of "Some f"] Cons.prems show ?thesis
        by (auto simp: split Let_def split: option.splits)
    qed
  qed
qed

lemma queue_ok_insert:
  assumes "queue_ok fs" "fr_start new < fr_end new" "\<not> clashes new fs"
  shows "queue_ok (in_front new fs @ new # in_back new fs)"
proof -
  have fs: "fs = in_front new fs @ in_back new fs"
    by (simp add: in_front_def in_back_def)
  have sorted: "sorted_wrt (\<lambda>f g. fr_start f < fr_start g) (in_front new fs @ in_back new fs)"
    using assms(1) fs by (simp add: queue_ok_def)
  have "fr_start f < fr_start new" if "f \<in> set (in_front new fs)" for f
  proof -
    have "f \<in> set fs" "fr_start f \<le> fr_start new"
      using that set_takeWhileD by (fastforce simp: in_front_def)+
    moreover have "fr_start f \<noteq> fr_start new"
      using \<open>f \<in> set fs\<close> assms(1,3) by (metis clashes_def order_refl queue_ok_def)
    ultimately show ?thesis by simp
  qed
  moreover have "fr_start new < fr_start f" if f: "f \<in> set (in_back new fs)" for f
  proof -
    obtain g gs where g: "in_back new fs = g # gs"
      using f by (cases "in_back new fs") auto
    then have "\<not> fr_start g \<le> fr_start new"
      unfolding in_back_def by (simp add: dropWhile_eq_Cons_conv)
    moreover have "f = g \<or> fr_start g < fr_start f"
      using sorted f unfolding g by (auto simp: sorted_wrt_append)
    ultimately show ?thesis by auto
  qed
  moreover have "\<forall>f\<in>set (in_front new fs) \<union> set (in_back new fs). fr_start f < fr_end f"
    using assms(1) fs by (metis queue_ok_def set_append)
  ultimately show ?thesis
    using sorted assms(2) by (auto simp: queue_ok_def sorted_wrt_append)
qed

text \<open>C10. A fragment of at least one octet is queued or thrown away. It is thrown away, with its pbufs and their share of the
  count, exactly when it starts inside a fragment of the queue, or is not the first one and reaches into the fragment behind it.
  Otherwise it is put in its place and the queue stays in order. The datagram counts as complete exactly when the last fragment has
  been seen, the queue starts at 0 and either has no holes, or has its only hole directly in front of the new fragment when that is
  put into the middle: this hole is overlooked.\<close>

theorem ip_reass_queueing:
  assumes "chain (mem s) p (p # qs)" "read_ip_hdr (mem s) (payload (pb (mem s) p)) = Some h" "reass s ipr = Some rd" "queue_ok (rd_p rd)"
    and "new = \<lparr>fr_p = p, fr_start = frag_offset h, fr_end = frag_offset h + frag_len h\<rparr>" "fr_start new < fr_end new"
  shows "if clashes new (rd_p rd)
    then \<exists>h'. release (mem s) (p # qs) h' \<and> ip_reass_chain_frag_into_datagram_and_validate s ipr p
      = Some (s\<lparr>ip_reass_pbufcount := ip_reass_pbufcount s - ucast (of_nat (length (p # qs)) :: u8), mem := h'\<rparr>, False)
    else let fs = in_front new (rd_p rd) @ new # in_back new (rd_p rd) in
      queue_ok fs \<and> ip_reass_chain_frag_into_datagram_and_validate s ipr p = Some (put_reass ipr (rd\<lparr>rd_p := fs\<rparr>) s,
        rd_flags rd AND IP_REASS_FLAG_LASTFRAG \<noteq> 0 \<and> fr_start (hd fs) = 0
        \<and> (gapless fs \<or> in_back new (rd_p rd) \<noteq> [] \<and> gapless (in_front new (rd_p rd)) \<and> gapless (new # in_back new (rd_p rd))))"
proof -
  obtain b where b: "pbufs (mem s) p = Some b" "p \<noteq> NULL"
    using assms(1) by auto
  have ins: "ip_reass_insert new None True (rd_p rd) =
    (if clashes new (rd_p rd) then None
     else Some (in_front new (rd_p rd) @ new # in_back new (rd_p rd),
       gapless (in_front new (rd_p rd)) \<and> (in_back new (rd_p rd) = [] \<longrightarrow> in_front new (rd_p rd) = []
           \<or> fr_end (last (in_front new (rd_p rd))) = fr_start new), in_back new (rd_p rd)))"
    using ip_reass_insert_spec [of "rd_p rd" new None True] assms(4) by (simp add: clashes_def queue_ok_def)
  show ?thesis
  proof (cases "clashes new (rd_p rd)")
    case True
    obtain h' where "pbuf_free (mem s) p = Some (h', of_nat (length (unref_prefix (mem s) (p # qs))))" "release (mem s) (p # qs) h'"
      using pbuf_free_loop_chain [OF assms(1), of 0] b by (auto simp: pbuf_free_def)
    with True show ?thesis
      using b assms(2,3) ins pbuf_clen_chain [OF assms(1)]
      by (simp add: ip_reass_chain_frag_into_datagram_and_validate_def Let_def assms(5) [symmetric] pbuf_free_s_def) blast
  next
    case False
    have "queue_ok (in_front new (rd_p rd) @ new # in_back new (rd_p rd))"
      using queue_ok_insert assms(4,6) False by blast
    with False show ?thesis
      using b assms(2,3) ins by (simp add: ip_reass_chain_frag_into_datagram_and_validate_def Let_def assms(5) [symmetric] gapless_append) blast
  qed
qed

text \<open>A datagram of 32 octets of which the octets 0 to 7 and the last eight have arrived; now the octets 16 to 23 arrive, and the
  datagram counts as complete.\<close>

definition hole_hdr :: ip_hdr where
  "hole_hdr = zero_ip_hdr\<lparr>v_hl_tos := htons 0x4500, ih_len := htons 28, ih_offset := htons 0x2002\<rparr>"

definition hole_rd :: ip_reassdata where
  "hole_rd = \<lparr>rd_next = NULL, rd_p = [\<lparr>fr_p = 5, fr_start = 0, fr_end = 8\<rparr>, \<lparr>fr_p = 6, fr_start = 24, fr_end = 32\<rparr>],
     rd_iphdr = hole_hdr, rd_datagram_len = 32, rd_flags = IP_REASS_FLAG_LASTFRAG, rd_timer = IP_REASS_MAXAGE\<rparr>"

definition hole_stack :: stack where
  "hole_stack = (sample_stack
     \<lparr>pbufs = [2 \<mapsto> \<lparr>p_next = NULL, payload = (2, 0), tot_len = 28, p_len = 28, p_type = PBUF_RAM, p_flags = 0, p_ref = 1\<rparr>],
      blocks = [2 \<mapsto> ip_hdr_octets hole_hdr @ replicate 8 1], brk = 10, mem_ok = (\<lambda>a. True), junk = (\<lambda>a i. 0),
      pool_payload = PBUF_POOL_BUFSIZE\<rparr>)\<lparr>reass := [9 \<mapsto> hole_rd], reassdatagrams := 9\<rparr>"

theorem ip_reass_queueing_witness:
  "\<exists>s' rd. ip_reass_chain_frag_into_datagram_and_validate hole_stack 9 2 = Some (s', True) \<and> reass s' 9 = Some rd
     \<and> queue_ok (rd_p rd) \<and> \<not> gapless (rd_p rd)"
proof -
  let ?new = "\<lparr>fr_p = 2, fr_start = 16, fr_end = 24\<rparr>"
  have 1: "chain (mem hole_stack) 2 [2]" "read_ip_hdr (mem hole_stack) (payload (pb (mem hole_stack) 2)) = Some hole_hdr"
      "reass hole_stack 9 = Some hole_rd" "queue_ok (rd_p hole_rd)"
    by (simp_all add: hole_stack_def sample_stack_def read_ip_hdr_def mem_read_def hole_rd_def queue_ok_def)
  have 2: "?new = \<lparr>fr_p = 2, fr_start = frag_offset hole_hdr, fr_end = frag_offset hole_hdr + frag_len hole_hdr\<rparr>"
    by (simp add: frag_offset_def frag_len_def hole_hdr_def IPH_HL_def ntohs_def htons_htons IP_OFFMASK_def)
  have 3: "in_front ?new (rd_p hole_rd) = [\<lparr>fr_p = 5, fr_start = 0, fr_end = 8\<rparr>]"
      "in_back ?new (rd_p hole_rd) = [\<lparr>fr_p = 6, fr_start = 24, fr_end = 32\<rparr>]" "\<not> clashes ?new (rd_p hole_rd)"
      "rd_flags hole_rd AND IP_REASS_FLAG_LASTFRAG \<noteq> 0"
    by (simp_all add: clashes_def in_front_def in_back_def hole_rd_def IP_REASS_FLAG_LASTFRAG_def)
  from ip_reass_queueing [OF 1 2] 3 show ?thesis
    by (auto simp: put_reass_def Let_def)
qed

section \<open>The list of datagrams\<close>

text \<open>\<open>r\<close> is the head of the list with the entries \<open>rs\<close>.\<close>

fun rlist :: "stack \<Rightarrow> ptr \<Rightarrow> ptr list \<Rightarrow> bool" where
  "rlist s r [] \<longleftrightarrow> r = NULL"
| "rlist s r (x # xs) \<longleftrightarrow> r = x \<and> x \<noteq> NULL \<and> (\<exists>rd. reass s x = Some rd \<and> rlist s (rd_next rd) xs)"

abbreviation rd_of :: "stack \<Rightarrow> ptr \<Rightarrow> ip_reassdata" where
  "rd_of s r \<equiv> the (reass s r)"

lemma rlist_append: "rlist s r (xs @ y # ys) \<Longrightarrow> \<exists>rd. y \<noteq> NULL \<and> reass s y = Some rd \<and> rlist s (rd_next rd) ys"
  by (induction xs arbitrary: r) auto

lemma rlist_next: "rlist s r (xs @ x # y # ys) \<Longrightarrow> \<exists>rd. reass s x = Some rd \<and> rd_next rd = y"
  using rlist_append [of s r xs x "y # ys"] by auto

lemma rlist_NULL: "rlist s r xs \<Longrightarrow> NULL \<notin> set xs"
  by (induction xs arbitrary: r) auto

lemma rlist_det: "rlist s r xs \<Longrightarrow> rlist s r ys \<Longrightarrow> xs = ys"
proof (induction xs arbitrary: r ys)
  case Nil
  then show ?case by (cases ys) auto
next
  case (Cons x xs)
  then show ?case by (cases ys) auto
qed

lemma rlist_distinct: "rlist s r xs \<Longrightarrow> distinct xs"
proof (induction xs arbitrary: r)
  case (Cons x xs)
  have "x \<notin> set xs"
  proof
    assume "x \<in> set xs"
    then obtain as bs where xs: "xs = as @ x # bs"
      by (meson split_list)
    obtain rd where rd: "x \<noteq> NULL" "reass s x = Some rd" "rlist s (rd_next rd) xs"
      using Cons.prems by auto
    then have "rlist s (rd_next rd) bs"
      using rlist_append [of s "rd_next rd" as x bs] xs by auto
    with rd(3) have "xs = bs"
      by (rule rlist_det)
    with xs show False by (metis append_eq_append_conv2 append_self_conv list.distinct(1) list.inject not_Cons_self2 append_Cons self_append_conv2)
  qed
  with Cons show ?case by auto
qed simp

text \<open>The loop finds the oldest of the datagrams, and the predecessor of the last one.\<close>

fun before_last :: "ptr list \<Rightarrow> ptr \<Rightarrow> ptr" where
  "before_last (x # y # xs) prev = before_last (y # xs) x"
| "before_last xs prev = prev"

lemma ip_reass_oldest_spec:
  assumes "rlist s r rs" "\<forall>x\<in>set rs. \<not> IP_ADDRESSES_AND_ID_MATCH (rd_iphdr (rd_of s x)) hdr"
    and "oldest \<noteq> NULL \<longrightarrow> reass s oldest \<noteq> None"
  shows "ip_reass_oldest s hdr r oldest prev n = Some (fold (\<lambda>x old. if old = NULL \<or> rd_timer (rd_of s x) \<le> rd_timer (rd_of s old) then x else old) rs oldest,
    before_last rs prev, n + length rs)"
  using assms
proof (induction rs arbitrary: r oldest prev n)
  case Nil
  then show ?case by (simp add: ip_reass_oldest.simps)
next
  case (Cons x xs)
  then obtain rd where rd: "r = x" "x \<noteq> NULL" "reass s x = Some rd" "rlist s (rd_next rd) xs"
    by auto
  have nxt: "rd_next rd \<noteq> NULL \<longleftrightarrow> xs \<noteq> []"
    using rd(4) by (cases xs) auto
  have last: "before_last (x # xs) prev = before_last xs (if xs \<noteq> [] then x else prev)"
    by (cases xs) auto
  show ?case
    using rd Cons.prems(2,3) Cons.IH [OF rd(4)] nxt
    by (subst ip_reass_oldest.simps) (auto simp: Let_def last)
qed

lemma ip_reass_free_frags_frame: "ip_reass_free_frags s fs n = Some (s', n') \<Longrightarrow> frame s' = frame s"
proof (induction fs arbitrary: s n)
  case (Cons f fs)
  then obtain c :: u8 and s1 m where "pbuf_free_s s (fr_p f) = Some (s1, m)" "ip_reass_free_frags s1 fs (n + unat c) = Some (s', n')"
    by (auto simp: bind_eq_Some_conv)
  then show ?case
    using Cons.IH pbuf_free_s_io by metis
qed simp

lemma frame_reass: "frame s' = frame s \<Longrightarrow> reass s' = reass s \<and> reassdatagrams s' = reassdatagrams s"
proof -
  have "reass (frame s) = reass s" "reassdatagrams (frame s) = reassdatagrams s" for s
    by (simp_all add: frame_def)
  then show "frame s' = frame s \<Longrightarrow> reass s' = reass s \<and> reassdatagrams s' = reassdatagrams s"
    by metis
qed

lemma before_last_eq: "before_last (xs @ [x, y]) prev = x"
proof (induction xs arbitrary: prev)
  case (Cons a xs)
  then show ?case by (cases xs) auto
qed simp

lemma fold_oldest:
  fixes t :: "ptr \<Rightarrow> u8"
  defines "g \<equiv> \<lambda>x old. if old = NULL \<or> t x \<le> t old then x else old"
  assumes "\<forall>x\<in>set xs. t v \<le> t x" "\<forall>x\<in>set ys. t v < t x" "v \<noteq> NULL"
  shows "fold g (xs @ v # ys) NULL = v"
proof -
  have "fold g xs old = NULL \<or> t v \<le> t (fold g xs old)" if "old = NULL \<or> t v \<le> t old" for old
    using that assms(2) by (induction xs arbitrary: old) (auto simp: g_def)
  from this [of NULL] have "g v (fold g xs NULL) = v"
    by (auto simp: g_def)
  moreover have "fold g ys v = v"
    using assms(3,4) by (induction ys) (auto simp: g_def)
  ultimately show ?thesis by simp
qed

text \<open>C35. When the reassembly has to make room, the victim is unlinked with the predecessor of the last datagram of the list instead of
  its own: after removing a datagram that is neither the first nor the last of the list, the entry in front of it still points
  to the freed entry.\<close>

theorem ip_reass_remove_oldest_dangles:
  assumes "rlist s (reassdatagrams s) (front @ x # v # back)" "back \<noteq> []" "reass s v = Some rd" "rd_p rd = f # fs" "fr_start f \<noteq> 0"
    and "\<forall>r\<in>set (front @ x # v # back). \<not> IP_ADDRESSES_AND_ID_MATCH (rd_iphdr (rd_of s r)) hdr"
    and "\<forall>r\<in>set (front @ [x]). rd_timer rd \<le> rd_timer (rd_of s r)" "\<forall>r\<in>set back. rd_timer rd < rd_timer (rd_of s r)"
    and "ip_reass_free_frags s (rd_p rd) 0 = Some (s1, n)" "needed \<le> n"
  shows "\<exists>s' rx. ip_reass_remove_oldest_datagram s hdr needed = Some (s', n) \<and> reass s' v = None
    \<and> reass s' x = Some rx \<and> rd_next rx = v"
proof -
  obtain z zs where z: "back = zs @ [z]"
    using assms(2) rev_exhaust by blast
  define y where "y = last (v # zs)"
  have list: "front @ x # v # back = (front @ x # butlast (v # zs)) @ [y, z]"
    unfolding y_def z using append_butlast_last_id [of "v # zs"] by simp
  note d = rlist_distinct [OF assms(1)] rlist_NULL [OF assms(1)]
  have y: "y \<in> set (v # zs)" "y \<noteq> x" "x \<noteq> v" "v \<noteq> NULL" "y \<noteq> NULL"
  proof -
    show "y \<in> set (v # zs)" by (simp add: y_def)
    with d show "y \<noteq> x" "x \<noteq> v" "v \<noteq> NULL" "y \<noteq> NULL" by (auto simp: z)
  qed
  obtain rx where rx: "reass s x = Some rx" "rd_next rx = v"
    using rlist_next [OF assms(1)] by blast
  obtain ry where ry: "reass s y = Some ry"
    using assms(1) rlist_append [of s "reassdatagrams s" "front @ x # butlast (v # zs)" y "[z]"] unfolding list by auto
  have head: "reassdatagrams s \<noteq> v"
    using assms(1) d(1) by (cases front) auto
  have "ip_reass_oldest s hdr (reassdatagrams s) NULL NULL 0 = Some (v, y, length (front @ x # v # back))"
  proof -
    have "before_last (front @ x # v # back) NULL = y"
      unfolding list by (rule before_last_eq)
    moreover have "fold (\<lambda>x old. if old = NULL \<or> rd_timer (rd_of s x) \<le> rd_timer (rd_of s old) then x else old) ((front @ [x]) @ v # back) NULL = v"
      using assms(3,7,8) y(4) by (intro fold_oldest) auto
    ultimately show ?thesis
      using ip_reass_oldest_spec [OF assms(1,6)] by simp
  qed
  moreover obtain s2 where "ip_reass_free_complete_datagram s v y = Some (s2, n)" "reass s2 v = None" "reass s2 x = Some rx"
    using assms(3-5) assms(9) [unfolded assms(4)] frame_reass [OF ip_reass_free_frags_frame [OF assms(9)]] head y ry rx
    by (simp add: ip_reass_free_complete_datagram_def ip_reass_dequeue_datagram_def put_reass_def del: ip_reass_free_frags.simps)
  ultimately show ?thesis
    using y(4) rx assms(10) by (subst ip_reass_remove_oldest_datagram_def, subst ip_reass_remove_loop.simps) auto
qed

text \<open>Three datagrams, of which the middle one is the oldest.\<close>

definition waiting_rd :: "ptr \<Rightarrow> u8 \<Rightarrow> ptr \<Rightarrow> ip_reassdata" where
  "waiting_rd nxt t p = \<lparr>rd_next = nxt, rd_p = [\<lparr>fr_p = p, fr_start = 8, fr_end = 16\<rparr>], rd_iphdr = zero_ip_hdr\<lparr>ih_id := 5\<rparr>,
     rd_datagram_len = 0, rd_flags = 0, rd_timer = t\<rparr>"

definition crowded :: stack where
  "crowded = (sample_stack
     (no_heap\<lparr>pbufs := [2 \<mapsto> \<lparr>p_next = NULL, payload = (2, 0), tot_len = 28, p_len = 28, p_type = PBUF_RAM, p_flags = 0, p_ref = 1\<rparr>]\<rparr>))
     \<lparr>reass := [7 \<mapsto> waiting_rd 8 3 4, 8 \<mapsto> waiting_rd 9 1 2, 9 \<mapsto> waiting_rd NULL 2 3], reassdatagrams := 7, ip_reass_pbufcount := 3\<rparr>"

theorem ip_reass_remove_oldest_dangles_witness:
  "\<exists>s' rx. ip_reass_remove_oldest_datagram crowded zero_ip_hdr 1 = Some (s', 1) \<and> reass s' 8 = None
     \<and> reass s' 7 = Some rx \<and> rd_next rx = 8"
proof -
  have free: "\<exists>s1. ip_reass_free_frags crowded (rd_p (waiting_rd 9 1 2)) 0 = Some (s1, 1)"
    by (simp add: crowded_def waiting_rd_def sample_stack_def pbuf_clen.simps pbuf_free_s_def pbuf_free_def pbuf_free_loop.simps)
  have 1: "rlist crowded (reassdatagrams crowded) ([] @ 7 # 8 # [9])" "reass crowded 8 = Some (waiting_rd 9 1 2)"
    by (simp_all add: crowded_def sample_stack_def waiting_rd_def)
  have 2: "rd_p (waiting_rd 9 1 2) = \<lparr>fr_p = 2, fr_start = 8, fr_end = 16\<rparr> # []" "\<not> IP_ADDRESSES_AND_ID_MATCH (rd_iphdr (waiting_rd a b c)) zero_ip_hdr"
      "rd_timer (waiting_rd a b c) = b" for a b c
    by (simp_all add: waiting_rd_def IP_ADDRESSES_AND_ID_MATCH_def zero_ip_hdr_def)
  have 3: "rd_of crowded 7 = waiting_rd 8 3 4" "rd_of crowded 8 = waiting_rd 9 1 2" "rd_of crowded 9 = waiting_rd NULL 2 3"
    by (simp_all add: crowded_def sample_stack_def)
  from free obtain s1 where "ip_reass_free_frags crowded (rd_p (waiting_rd 9 1 2)) 0 = Some (s1, 1)" by blast
  from ip_reass_remove_oldest_dangles [OF 1(1) _ 1(2) 2(1) _ _ _ _ this] show ?thesis
    using 2(2,3) 3 by simp
qed

end
