(* ===== verification/Reass_Join.thy ===== *)
theory Reass_Join
  imports Reassembly Ip_Wire
begin

text \<open>
  Reassembly: how the queued fragments of a complete datagram are joined into one packet.
\<close>

unbundle bit_operations_syntax

text \<open>The packet of a queued fragment: the pbuf \<open>p\<close>, then \<open>qs\<close>, with a header of 20 octets and the data \<open>e\<close>.\<close>

definition fragment :: "heap \<Rightarrow> ptr \<Rightarrow> ptr list \<Rightarrow> u8 list \<Rightarrow> bool" where
  "fragment h p qs e \<longleftrightarrow> packet h p (p # qs) \<and> 20 \<le> unat (p_len (pb h p)) \<and> 0 \<le> snd (payload (pb h p))
     \<and> (\<exists>hd. length hd = 20 \<and> chain_data h (p # qs) = Some (hd @ e))"

lemma fragment_frame:
  assumes "fragment h p qs e" "\<And>x. x \<in> set (p # qs) \<Longrightarrow> pbufs h' x = pbufs h x"
    and "\<And>x. x \<in> set (p # qs) \<Longrightarrow> blocks h' (fst (payload (pb h x))) = blocks h (fst (payload (pb h x)))"
  shows "fragment h' p qs e"
proof -
  obtain hd where hd: "length hd = 20" "chain_data h (p # qs) = Some (hd @ e)"
    using assms(1) by (auto simp: fragment_def)
  have "chain_data h' (p # qs) = Some (hd @ e)"
    by (rule chain_data_frame [OF hd(2) assms(2,3)])
  then show ?thesis
    using assms(1) hd(1) packet_cong [of "p # qs" h' h p, OF assms(2)] assms(2) [of p] by (auto simp: fragment_def)
qed

lemma pbuf_header_frame: "pbuf_header h p n = Some (h', f) \<Longrightarrow> blocks h' = blocks h \<and> (\<forall>x. x \<noteq> p \<longrightarrow> pbufs h' x = pbufs h x)"
  by (auto simp: pbuf_header_def Let_def split: if_split_asm Option.bind_split_asm prod.split_asm)

lemma hide_fragment:
  assumes "fragment h p qs e"
  shows "\<exists>h'. pbuf_header h p (- IP_HLEN) = Some (h', False) \<and> packet h' p (p # qs) \<and> chain_data h' (p # qs) = Some e
    \<and> blocks h' = blocks h \<and> (\<forall>x. x \<noteq> p \<longrightarrow> pbufs h' x = pbufs h x)"
proof -
  obtain hd where "length hd = 20" "chain_data h (p # qs) = Some (hd @ e)"
    using assms by (auto simp: fragment_def)
  then obtain h' where "pbuf_header h p (- of_nat 20) = Some (h', False)" "packet h' p (p # qs)" "chain_data h' (p # qs) = Some e"
    using header_hide_packet [of h p qs 20 "hd @ e"] assms by (auto simp: fragment_def)
  then show ?thesis
    using pbuf_header_frame [of h p "- of_nat 20" h' False] by (auto simp: IP_HLEN_def)
qed

text \<open>The loop that joins the fragments \<open>xs\<close>, each with its pbufs and its data, to the packet \<open>p\<close>.\<close>

abbreviation frag_pbufs :: "(ip_reass_helper \<times> ptr list \<times> u8 list) list \<Rightarrow> ptr list" where
  "frag_pbufs xs \<equiv> concat (map (\<lambda>(f, qs, e). fr_p f # qs) xs)"

abbreviation frag_data :: "(ip_reass_helper \<times> ptr list \<times> u8 list) list \<Rightarrow> u8 list" where
  "frag_data xs \<equiv> concat (map (\<lambda>(f, qs, e). e) xs)"

lemma fragments_frame:
  assumes "\<forall>(g, rs, d)\<in>set xs. fragment h (fr_p g) rs d" "\<And>x. x \<in> set (frag_pbufs xs) \<Longrightarrow> pbufs h' x = pbufs h x"
    and "\<And>x. x \<in> set (frag_pbufs xs) \<Longrightarrow> blocks h' (fst (payload (pb h x))) = blocks h (fst (payload (pb h x)))"
  shows "\<forall>(g, rs, d)\<in>set xs. fragment h' (fr_p g) rs d"
proof clarify
  fix g rs d
  assume g: "(g, rs, d) \<in> set xs"
  then have "set (fr_p g # rs) \<subseteq> set (frag_pbufs xs)" "fragment h (fr_p g) rs d"
    using assms(1) by force+
  then show "fragment h' (fr_p g) rs d"
    using fragment_frame [of h "fr_p g" rs d h'] assms(2,3) by (meson subsetD)
qed

lemma ip_reass_cat_spec:
  assumes "packet (mem s) p ps" "ps \<noteq> []" "chain_data (mem s) ps = Some a"
    and "\<forall>(f, qs, e)\<in>set xs. fragment (mem s) (fr_p f) qs e" "distinct (ps @ frag_pbufs xs)" "length (a @ frag_data xs) < 65536"
  shows "\<exists>h'. ip_reass_cat s p (map fst xs) = Some (s\<lparr>mem := h'\<rparr>) \<and> packet h' p (ps @ frag_pbufs xs)
    \<and> chain_data h' (ps @ frag_pbufs xs) = Some (a @ frag_data xs)"
  using assms
proof (induction xs arbitrary: s ps a)
  case Nil
  then show ?case by (intro exI [of _ "mem s"]) simp
next
  case (Cons x xs)
  obtain f qs e where x: "x = (f, qs, e)"
    by (cases x)
  obtain h1 where h1: "pbuf_header (mem s) (fr_p f) (- IP_HLEN) = Some (h1, False)" "packet h1 (fr_p f) (fr_p f # qs)"
      "chain_data h1 (fr_p f # qs) = Some e" "blocks h1 = blocks (mem s)" "\<And>y. y \<noteq> fr_p f \<Longrightarrow> pbufs h1 y = pbufs (mem s) y"
    using hide_fragment [of "mem s" "fr_p f" qs e] Cons.prems(4) x by auto
  have dist: "distinct ((ps @ fr_p f # qs) @ frag_pbufs xs)"
    using Cons.prems(5) by (simp add: x)
  then have f: "fr_p f \<notin> set ps"
    by simp
  have ps: "packet h1 p ps" "chain_data h1 ps = Some a"
    using Cons.prems(1,3) f h1(4,5) packet_cong [of ps h1 "mem s" p] chain_data_frame [of "mem s" ps a h1] by metis+
  have small: "lens h1 ps + lens h1 (fr_p f # qs) < 65536"
    using chain_data_length [OF ps(2)] chain_data_length [OF h1(3)] Cons.prems(6) by (simp add: x)
  have disj: "set ps \<inter> set (fr_p f # qs) = {}"
    using Cons.prems(5) by (auto simp: x)
  define h2 where "h2 = linked h1 ps (fr_p f)"
  have cat: "pbuf_cat h1 p (fr_p f) = Some h2" "packet h2 p (ps @ fr_p f # qs)" "chain_data h2 (ps @ fr_p f # qs) = Some (a @ e)"
    using pbuf_cat_packet [OF ps(1) Cons.prems(2) h1(2) _ disj small] ps(2) h1(3) chain_data_append [of h1 ps "fr_p f # qs" "a @ e"]
    by (auto simp: h2_def)
  have same: "pbufs h2 y = pbufs (mem s) y" if "y \<notin> set (ps @ fr_p f # qs)" for y
    using that h1(5) by (simp add: h2_def linked_def)
  have blk: "blocks h2 = blocks (mem s)"
    using h1(4) by (simp add: h2_def linked_def)
  have frs: "\<forall>(g, rs, d)\<in>set xs. fragment h2 (fr_p g) rs d"
  proof (rule fragments_frame [of xs "mem s"])
    show "\<forall>(g, rs, d)\<in>set xs. fragment (mem s) (fr_p g) rs d"
      using Cons.prems(4) by simp
    have "set (ps @ fr_p f # qs) \<inter> set (frag_pbufs xs) = {}"
      using dist by (simp only: distinct_append)
    then show "pbufs h2 y = pbufs (mem s) y" if "y \<in> set (frag_pbufs xs)" for y
      using same that by blast
  qed (simp add: blk)
  have len: "length ((a @ e) @ frag_data xs) < 65536"
    using Cons.prems(6) by (simp add: x)
  have m: "mem (s\<lparr>mem := h2\<rparr>) = h2" "s\<lparr>mem := h2\<rparr>\<lparr>mem := h'\<rparr> = s\<lparr>mem := h'\<rparr>" for h'
    by simp_all
  obtain h' where "ip_reass_cat (s\<lparr>mem := h2\<rparr>) p (map fst xs) = Some (s\<lparr>mem := h'\<rparr>)"
      "packet h' p ((ps @ fr_p f # qs) @ frag_pbufs xs)" "chain_data h' ((ps @ fr_p f # qs) @ frag_pbufs xs) = Some ((a @ e) @ frag_data xs)"
    using Cons.IH [of "s\<lparr>mem := h2\<rparr>", unfolded m, OF cat(2) _ cat(3) frs dist len] by blast
  then show ?case
    using h1(1) cat(1) by (auto simp: x pbuf_header_s_def)
qed

section \<open>Taking a datagram out of the list\<close>

lemma rlist_cong:
  "(\<And>x. x \<in> set xs \<Longrightarrow> map_option rd_next (reass s' x) = map_option rd_next (reass s x)) \<Longrightarrow> rlist s' r xs = rlist s r xs"
proof (induction xs arbitrary: r)
  case (Cons x xs)
  from Cons.prems [of x] have "map_option rd_next (reass s' x) = map_option rd_next (reass s x)"
    by simp
  with Cons show ?case
    by (cases "reass s x"; cases "reass s' x") auto
qed simp

lemma rlist_unlink:
  assumes "rlist s r (xs @ l # v # ys)" "reass s l = Some rl" "reass s v = Some rv"
    and "reass s' = (reass s)(l := Some (rl\<lparr>rd_next := rd_next rv\<rparr>), v := None)"
  shows "rlist s' r (xs @ l # ys)"
proof -
  note d = rlist_distinct [OF assms(1)]
  have "rlist s (rd_next rv) ys"
    using rlist_append [of s r "xs @ [l]" v ys] assms(1,3) by auto
  then have "rlist s' (rd_next rv) ys"
    using d assms(4) by (subst rlist_cong [of ys s' s]) auto
  with assms(1) d show ?thesis
    using assms(2,4) by (induction xs arbitrary: r) auto
qed

lemma ip_reass_dequeue_list:
  assumes "rlist s (reassdatagrams s) (front @ ipr # back)" "prev = (if front = [] then NULL else last front)"
  shows "\<exists>s'. ip_reass_dequeue_datagram s ipr prev = Some s' \<and> rlist s' (reassdatagrams s') (front @ back) \<and> reass s' ipr = None \<and> mem s' = mem s
    \<and> ip_reass_pbufcount s' = ip_reass_pbufcount s"
proof (cases front rule: rev_cases)
  case Nil
  then obtain rd where rd: "reassdatagrams s = ipr" "reass s ipr = Some rd" "rlist s (rd_next rd) back"
    using assms(1) by auto
  have "ipr \<notin> set back"
    using rlist_distinct [OF assms(1)] by simp
  then have "rlist (s\<lparr>reassdatagrams := rd_next rd, reass := (reass s)(ipr := None)\<rparr>) (rd_next rd) back"
    using rd(3) by (subst rlist_cong [of "back" _ s]) auto
  then show ?thesis
    using rd Nil by (simp add: ip_reass_dequeue_datagram_def)
next
  case (snoc xs l)
  have list: "rlist s (reassdatagrams s) (xs @ l # ipr # back)"
    using assms(1) snoc by simp
  obtain rl where rl: "reass s l = Some rl" "l \<noteq> NULL"
    using rlist_append [OF list] by auto
  obtain rv where rv: "reass s ipr = Some rv"
    using rlist_append [OF assms(1)] by auto
  have head: "reassdatagrams s \<noteq> ipr"
    using list rlist_distinct [OF list] by (cases xs) auto
  have ne: "l \<noteq> ipr"
    using rlist_distinct [OF list] by simp
  let ?s = "s\<lparr>reass := (reass s)(l := Some (rl\<lparr>rd_next := rd_next rv\<rparr>), ipr := None)\<rparr>"
  have "ip_reass_dequeue_datagram s ipr prev = Some ?s"
    using head rl rv ne assms(2) snoc by (simp add: ip_reass_dequeue_datagram_def put_reass_def)
  moreover have "rlist ?s (reassdatagrams s) (xs @ l # back)"
    using rlist_unlink [OF list rl(1) rv] by simp
  ultimately show ?thesis
    using snoc by simp
qed

section \<open>The datagram\<close>

lemma ip_reass_hdr_fields:
  "ih_len (ip_reass_hdr h n) = htons n" "ih_offset (ip_reass_hdr h n) = 0" "ih_src (ip_reass_hdr h n) = ih_src h"
  "ih_dest (ip_reass_hdr h n) = ih_dest h" "ih_id (ip_reass_hdr h n) = ih_id h" "inet_chksum (ip_hdr_octets (ip_reass_hdr h n)) = 0"
  by (simp_all add: ip_reass_hdr_def Let_def ip_hdr_chksum_verifies)

text \<open>C9. The fragments of a complete datagram become one packet: the first fragment gets the header of the datagram with the total
  length, no fragment offset and a checksum that verifies, the headers of the others are dropped, and the contents are the header
  followed by the data of the fragments in the order of the queue. The datagram leaves the list, which keeps the others in order.\<close>

theorem ip_reass_finish_joins:
  assumes "rlist s (reassdatagrams s) (front @ ipr # back)" "prev = (if front = [] then NULL else last front)"
    and "reass s ipr = Some rd" "rd_p rd = f # map fst xs"
    and "laid_out (mem s) (fr_p f) b qs (hd0 @ e) blk buf i" "length hd0 = 20" "20 \<le> unat (p_len b)"
    and "\<forall>(g, rs, d)\<in>set xs. fragment (mem s) (fr_p g) rs d" "\<forall>x\<in>set (frag_pbufs xs). fst (payload (pb (mem s) x)) \<noteq> blk"
    and "distinct ((fr_p f # qs) @ frag_pbufs xs)" "20 + length (e @ frag_data xs) < 65536"
    and "unat (rd_datagram_len rd) = length (e @ frag_data xs)"
  shows "\<exists>s' hdr. ip_reass_finish s ipr prev = Some (s', fr_p f) \<and> packet (mem s') (fr_p f) ((fr_p f # qs) @ frag_pbufs xs)
    \<and> chain_data (mem s') ((fr_p f # qs) @ frag_pbufs xs) = Some (ip_hdr_octets hdr @ e @ frag_data xs)
    \<and> ih_src hdr = ih_src (rd_iphdr rd) \<and> ih_dest hdr = ih_dest (rd_iphdr rd) \<and> ih_id hdr = ih_id (rd_iphdr rd)
    \<and> ih_offset hdr = 0 \<and> unat (ntohs (ih_len hdr)) = 20 + length (e @ frag_data xs) \<and> inet_chksum (ip_hdr_octets hdr) = 0
    \<and> rlist s' (reassdatagrams s') (front @ back) \<and> reass s' ipr = None"
proof -
  define n where "n = rd_datagram_len rd + IP_HLEN"
  define hdr where "hdr = ip_reass_hdr (rd_iphdr rd) n"
  have n: "unat n = 20 + length (e @ frag_data xs)"
    using assms(11,12) by (simp add: n_def IP_HLEN_def unat_word_ariths)
  note f = laid_outD [OF assms(5)]
  define h1 where "h1 = (mem s)\<lparr>blocks := (blocks (mem s))(blk \<mapsto> block_write buf i (ip_hdr_octets hdr))\<rparr>"
  have wr: "mem_write (mem s) (payload b) (ip_hdr_octets hdr) = Some h1"
    and lay: "laid_out h1 (fr_p f) b qs (ip_hdr_octets hdr @ e) blk (block_write buf i (ip_hdr_octets hdr)) i"
    using laid_out_write [OF assms(5), of "ip_hdr_octets hdr"] assms(6,7) f(7) by (simp_all add: h1_def)
  define s1 where "s1 = put_reass ipr (rd\<lparr>rd_datagram_len := n\<rparr>) (s\<lparr>mem := h1\<rparr>)"
  have "\<forall>(g, rs, d)\<in>set xs. fragment h1 (fr_p g) rs d"
  proof (rule fragments_frame [OF assms(8)])
    fix x
    assume "x \<in> set (frag_pbufs xs)"
    with assms(9) have "fst (payload (pb (mem s) x)) \<noteq> blk" ..
    then show "blocks h1 (fst (payload (pb (mem s) x))) = blocks (mem s) (fst (payload (pb (mem s) x)))"
      by (simp add: h1_def)
  qed (simp add: h1_def)
  then obtain h2 where cat: "ip_reass_cat s1 (fr_p f) (map fst xs) = Some (s1\<lparr>mem := h2\<rparr>)" "packet h2 (fr_p f) ((fr_p f # qs) @ frag_pbufs xs)"
      "chain_data h2 ((fr_p f # qs) @ frag_pbufs xs) = Some ((ip_hdr_octets hdr @ e) @ frag_data xs)"
    using ip_reass_cat_spec [of s1 "fr_p f" "fr_p f # qs" "ip_hdr_octets hdr @ e" xs] lay assms(10,11)
    by (auto simp: s1_def put_reass_def laid_out_def)
  have "rlist (s1\<lparr>mem := h2\<rparr>) (reassdatagrams (s1\<lparr>mem := h2\<rparr>)) (front @ ipr # back)"
    using assms(1,3) by (subst rlist_cong [of _ _ s]) (auto simp: s1_def put_reass_def)
  then obtain s2 where deq: "ip_reass_dequeue_datagram (s1\<lparr>mem := h2\<rparr>) ipr prev = Some s2" "rlist s2 (reassdatagrams s2) (front @ back)"
      "reass s2 ipr = None" "mem s2 = h2"
    using ip_reass_dequeue_list [of "s1\<lparr>mem := h2\<rparr>" front ipr "back" prev] assms(2) by auto
  obtain c where clen: "pbuf_clen h2 (fr_p f) = Some c"
    using cat(2) pbuf_clen_chain unfolding packet_def by blast
  define s3 where "s3 = s2\<lparr>ip_reass_pbufcount := ip_reass_pbufcount s2 - ucast c\<rparr>"
  have "ip_reass_finish s ipr prev = Some (s3, fr_p f)"
    using assms(3,4) f(2) wr cat(1) deq(1,4) clen by (simp add: ip_reass_finish_def Let_def n_def hdr_def s1_def s3_def)
  moreover have "rlist s3 (reassdatagrams s3) (front @ back)" "reass s3 ipr = None" "mem s3 = h2"
    using deq(2-4) rlist_cong [of "front @ back" s3 s2] by (simp_all add: s3_def)
  ultimately show ?thesis
    using cat(2,3) n by (intro exI [of _ s3] exI [of _ hdr]) (simp add: hdr_def ip_reass_hdr_fields ntohs_def htons_htons)
qed

text \<open>A datagram of nine octets in two fragments.\<close>

definition whole_pbuf :: "ptr \<Rightarrow> u16 \<Rightarrow> pbuf" where
  "whole_pbuf p n = \<lparr>p_next = NULL, payload = (p, 0), tot_len = n, p_len = n, p_type = PBUF_RAM, p_flags = 0, p_ref = 1\<rparr>"

definition whole_rd :: ip_reassdata where
  "whole_rd = \<lparr>rd_next = NULL, rd_p = [\<lparr>fr_p = 2, fr_start = 0, fr_end = 8\<rparr>, \<lparr>fr_p = 3, fr_start = 8, fr_end = 9\<rparr>],
     rd_iphdr = zero_ip_hdr\<lparr>ih_src := 77\<rparr>, rd_datagram_len = 9, rd_flags = IP_REASS_FLAG_LASTFRAG, rd_timer = IP_REASS_MAXAGE\<rparr>"

definition whole_stack :: stack where
  "whole_stack = (sample_stack
     \<lparr>pbufs = [2 \<mapsto> whole_pbuf 2 28, 3 \<mapsto> whole_pbuf 3 21],
      blocks = [2 \<mapsto> replicate 20 0 @ [1, 2, 3, 4, 5, 6, 7, 8], 3 \<mapsto> replicate 20 0 @ [9]], brk = 10, mem_ok = (\<lambda>a. True),
      junk = (\<lambda>a i. 0), pool_payload = PBUF_POOL_BUFSIZE\<rparr>)\<lparr>reass := [9 \<mapsto> whole_rd], reassdatagrams := 9\<rparr>"

theorem ip_reass_finish_joins_witness:
  "\<exists>s' hdr. ip_reass_finish whole_stack 9 NULL = Some (s', 2) \<and> packet (mem s') 2 [2, 3]
    \<and> chain_data (mem s') [2, 3] = Some (ip_hdr_octets hdr @ [1, 2, 3, 4, 5, 6, 7, 8, 9]) \<and> ih_src hdr = 77
    \<and> unat (ntohs (ih_len hdr)) = 29 \<and> reassdatagrams s' = NULL"
proof -
  let ?f = "\<lparr>fr_p = 2, fr_start = 0, fr_end = 8\<rparr>" and ?xs = "[(\<lparr>fr_p = 3, fr_start = 8, fr_end = 9\<rparr>, [], [9 :: u8])]"
  have 1: "rlist whole_stack (reassdatagrams whole_stack) ([] @ 9 # [])" "reass whole_stack 9 = Some whole_rd"
      "rd_p whole_rd = ?f # map fst ?xs" "rd_datagram_len whole_rd = 9" "ih_src (rd_iphdr whole_rd) = 77"
    by (simp_all add: whole_stack_def sample_stack_def whole_rd_def)
  have 2: "laid_out (mem whole_stack) (fr_p ?f) (whole_pbuf 2 28) [] (replicate 20 0 @ [1, 2, 3, 4, 5, 6, 7, 8]) 2
      (replicate 20 0 @ [1, 2, 3, 4, 5, 6, 7, 8]) 0" "p_len (whole_pbuf 2 28) = 28"
    by (simp_all add: laid_out_def whole_stack_def sample_stack_def whole_pbuf_def packet_def pbuf_data_def mem_read_def)
  have 3: "fragment (mem whole_stack) 3 [] [9]" "fst (payload (pb (mem whole_stack) 3)) = 3"
    unfolding fragment_def
    by (auto simp: whole_stack_def sample_stack_def whole_pbuf_def packet_def pbuf_data_def mem_read_def intro!: exI [of _ "replicate 20 0"])
  from ip_reass_finish_joins [OF 1(1) _ 1(2,3) 2(1), of NULL] show ?thesis
    using 1(4,5) 2(2) 3 by auto
qed

end
