(* ===== verification/Igmp.thy ===== *)
theory Igmp
  imports Icmp
begin

text \<open>
  IGMP, \<^verbatim>\<open>core/ipv4/igmp.c\<close>: membership of the interfaces in multicast groups. The list
  \<^verbatim>\<open>igmp_group_list\<close> is a list of addresses of live groups. The multicast filter of a driver is a call out
  of the stack and is recorded in \<open>link\<close>.
\<close>

unbundle bit_operations_syntax

definition IP_PROTO_IGMP :: u8 where "IP_PROTO_IGMP = 2"
definition IGMP_TTL :: u8 where "IGMP_TTL = 1"
definition IGMP_MINLEN :: u16 where "IGMP_MINLEN = 8"
definition ROUTER_ALERT :: u16 where "ROUTER_ALERT = 0x9404"
definition ROUTER_ALERTLEN :: u16 where "ROUTER_ALERTLEN = 4"
definition IGMP_MEMB_QUERY :: u8 where "IGMP_MEMB_QUERY = 0x11"
definition IGMP_V2_MEMB_REPORT :: u8 where "IGMP_V2_MEMB_REPORT = 0x16"
definition IGMP_LEAVE_GROUP :: u8 where "IGMP_LEAVE_GROUP = 0x17"
definition IGMP_V1_DELAYING_MEMBER_TMR :: u8 where "IGMP_V1_DELAYING_MEMBER_TMR = 10"
definition IGMP_JOIN_DELAYING_MEMBER_TMR :: u8 where "IGMP_JOIN_DELAYING_MEMBER_TMR = 5"

record igmp_msg =
  igmp_msgtype :: u8
  igmp_maxresp :: u8
  igmp_checksum :: u16
  igmp_group_address :: ip_addr

definition igmp_msg_octets :: "igmp_msg \<Rightarrow> u8 list" where
  "igmp_msg_octets m = [igmp_msgtype m, igmp_maxresp m] @ mem_bytes16 (igmp_checksum m) @ mem_bytes32 (igmp_group_address m)"

definition read_igmp_msg :: "heap \<Rightarrow> ptr \<times> int \<Rightarrow> igmp_msg option" where
  "read_igmp_msg h a =
     do {
       bs \<leftarrow> mem_read h a 8;
       Some \<lparr>igmp_msgtype = bs ! 0, igmp_maxresp = bs ! 1, igmp_checksum = load16w bs 2, igmp_group_address = load32w bs 4\<rparr>
     }"

definition put_group :: "ptr \<Rightarrow> igmp_group \<Rightarrow> stack \<Rightarrow> stack" where
  "put_group g grp s = s\<lparr>groups := (groups s)(g := Some grp)\<rparr>"

definition igmp_mac_filter :: "stack \<Rightarrow> ptr \<Rightarrow> netif \<Rightarrow> ip_addr \<Rightarrow> bool \<Rightarrow> stack" where
  "igmp_mac_filter s nif nf addr add =
     (if nf_igmp_mac_filter nf \<noteq> 0 then s\<lparr>link := link s @ [Mac_Filter nif addr add]\<rparr> else s)"

definition igmp_init :: "stack \<Rightarrow> stack" where
  "igmp_init s = s\<lparr>allsystems := IP4_ADDR 224 0 0 1, allrouters := IP4_ADDR 224 0 0 2\<rparr>"

section \<open>Groups\<close>

fun igmp_lookfor :: "stack \<Rightarrow> ptr \<Rightarrow> ip_addr \<Rightarrow> ptr list \<Rightarrow> ptr option" where
  "igmp_lookfor s ifp addr [] = Some NULL"
| "igmp_lookfor s ifp addr (g # gs) =
     do {
       grp \<leftarrow> groups s g;
       if g_interface grp = ifp \<and> group_address grp = addr then Some g else igmp_lookfor s ifp addr gs
     }"

definition igmp_lookfor_group :: "stack \<Rightarrow> ptr \<Rightarrow> ip_addr \<Rightarrow> ptr option" where
  "igmp_lookfor_group s ifp addr = igmp_lookfor s ifp addr (igmp_group_list s)"

definition igmp_lookup_group :: "stack \<Rightarrow> ptr \<Rightarrow> ip_addr \<Rightarrow> (stack \<times> ptr) option" where
  "igmp_lookup_group s ifp addr =
     do {
       g \<leftarrow> igmp_lookfor_group s ifp addr;
       if g \<noteq> NULL then Some (s, g)
       else do {
         let (s, g) = memp_malloc s;
         if g \<noteq> NULL
         then Some ((put_group g \<lparr>g_interface = ifp, group_address = addr, last_reporter_flag = False,
                      group_state = IGMP_GROUP_NON_MEMBER, g_timer = 0, g_use = 0\<rparr> s)
                      \<lparr>igmp_group_list := g # igmp_group_list s\<rparr>, g)
         else Some (s, NULL)
       }
     }"

definition igmp_remove_group :: "stack \<Rightarrow> ptr \<Rightarrow> stack \<times> err" where
  "igmp_remove_group s g =
     (s\<lparr>igmp_group_list := remove1 g (igmp_group_list s), groups := (groups s)(g := None)\<rparr>,
      if g \<in> set (igmp_group_list s) then ERR_OK else ERR_ARG)"

definition igmp_start :: "stack \<Rightarrow> ptr \<Rightarrow> (stack \<times> err) option" where
  "igmp_start s nif =
     do {
       (s, g) \<leftarrow> igmp_lookup_group s nif (allsystems s);
       if g \<noteq> NULL
       then do {
         grp \<leftarrow> groups s g;
         let s = put_group g (grp\<lparr>group_state := IGMP_GROUP_IDLE_MEMBER, g_use := g_use grp + 1\<rparr>) s;
         nf \<leftarrow> netifs s nif;
         Some (igmp_mac_filter s nif nf (allsystems s) True, ERR_OK)
       }
       else Some (s, ERR_MEM)
     }"

text \<open>The loop of \<^verbatim>\<open>igmp_stop\<close>.\<close>

fun igmp_stop_list :: "stack \<Rightarrow> ptr \<Rightarrow> ptr list \<Rightarrow> stack option" where
  "igmp_stop_list s nif [] = Some s"
| "igmp_stop_list s nif (g # gs) =
     do {
       grp \<leftarrow> groups s g;
       s \<leftarrow> (if g_interface grp = nif
         then do {
           nf \<leftarrow> netifs s nif;
           let s = igmp_mac_filter (s\<lparr>igmp_group_list := remove1 g (igmp_group_list s)\<rparr>) nif nf (group_address grp) False;
           Some (s\<lparr>groups := (groups s)(g := None)\<rparr>)
         }
         else Some s);
       igmp_stop_list s nif gs
     }"

definition igmp_stop :: "stack \<Rightarrow> ptr \<Rightarrow> (stack \<times> err) option" where
  "igmp_stop s nif = do { s \<leftarrow> igmp_stop_list s nif (igmp_group_list s); Some (s, ERR_OK) }"

section \<open>Output\<close>

definition igmp_build_hdr :: "ip_hdr \<Rightarrow> u8 list \<Rightarrow> ip_addr \<Rightarrow> ip_addr \<Rightarrow> u8 \<Rightarrow> u8 \<Rightarrow> u16 \<Rightarrow> u16 \<Rightarrow> ip_hdr" where
  "igmp_build_hdr h ra src dest ttl' proto n ident =
     (let h = IPH_TTL_SET ttl' h;
          h = IPH_PROTO_SET proto h;
          h = h\<lparr>ih_dest := dest\<rparr>;
          h = IPH_VHLTOS_SET 4 ((IP_HLEN + ROUTER_ALERTLEN) div 4) 0 h;
          h = h\<lparr>ih_len := htons n, ih_offset := 0, ih_id := htons ident, ih_src := src, ih_chksum := 0\<rparr>
      in h\<lparr>ih_chksum := inet_chksum (ip_hdr_octets h @ ra)\<rparr>)"

text \<open>\<^verbatim>\<open>igmp_ip_output_if\<close>; no caller passes \<^verbatim>\<open>IP_HDRINCL\<close>.\<close>

definition igmp_ip_output_if ::
    "stack \<Rightarrow> ptr \<Rightarrow> ip_addr \<Rightarrow> ip_addr \<Rightarrow> u8 \<Rightarrow> u8 \<Rightarrow> ptr \<Rightarrow> (stack \<times> err) option" where
  "igmp_ip_output_if s p src dest ttl' proto nif =
     do {
       (s, fail) \<leftarrow> pbuf_header_s s p ROUTER_ALERTLEN;
       if fail then Some (s, ERR_BUF)
       else do {
         pb \<leftarrow> pbufs (mem s) p;
         let ra = mem_bytes16 (htons ROUTER_ALERT) @ mem_bytes16 0;
         h \<leftarrow> mem_write (mem s) (payload pb) ra;
         (s, fail) \<leftarrow> pbuf_header_s (s\<lparr>mem := h\<rparr>) p IP_HLEN;
         if fail then Some (s, ERR_BUF)
         else do {
           pb \<leftarrow> pbufs (mem s) p;
           iphdr \<leftarrow> read_ip_hdr (mem s) (payload pb);
           nf \<leftarrow> netifs s nif;
           let src = (if ip_addr_isany src then nf_ip_addr nf else src);
           h \<leftarrow> mem_write (mem s) (payload pb)
             (ip_hdr_octets (igmp_build_hdr iphdr ra src dest ttl' proto (tot_len pb) (igmp_ip_id s)));
           netif_output (s\<lparr>mem := h, igmp_ip_id := igmp_ip_id s + 1\<rparr>) nif p dest
         }
       }
     }"

text \<open>The message that \<^verbatim>\<open>igmp_send\<close> writes.\<close>

definition igmp_build_msg :: "u8 \<Rightarrow> ip_addr \<Rightarrow> igmp_msg" where
  "igmp_build_msg type addr =
     (let m = \<lparr>igmp_msgtype = type, igmp_maxresp = 0, igmp_checksum = 0, igmp_group_address = addr\<rparr>
      in m\<lparr>igmp_checksum := inet_chksum (igmp_msg_octets m)\<rparr>)"

definition igmp_send :: "stack \<Rightarrow> ptr \<Rightarrow> u8 \<Rightarrow> stack option" where
  "igmp_send s g type =
     do {
       (s, p) \<leftarrow> pbuf_alloc_s s PBUF_TRANSPORT IGMP_MINLEN PBUF_RAM;
       if p = NULL then Some s
       else do {
         grp \<leftarrow> groups s g;
         nf \<leftarrow> netifs s (g_interface grp);
         let s = (if type = IGMP_V2_MEMB_REPORT then put_group g (grp\<lparr>last_reporter_flag := True\<rparr>) s else s);
         s \<leftarrow> (if type = IGMP_V2_MEMB_REPORT \<or> type = IGMP_LEAVE_GROUP
           then do {
             let dest = (if type = IGMP_V2_MEMB_REPORT then group_address grp else allrouters s);
             pb \<leftarrow> pbufs (mem s) p;
             h \<leftarrow> mem_write (mem s) (payload pb) (igmp_msg_octets (igmp_build_msg type (group_address grp)));
             (s, _) \<leftarrow> igmp_ip_output_if (s\<lparr>mem := h\<rparr>) p (nf_ip_addr nf) dest IGMP_TTL IP_PROTO_IGMP (g_interface grp);
             Some s
           }
           else Some s);
         (s, _) \<leftarrow> pbuf_free_s s p;
         Some s
       }
     }"

section \<open>Timers\<close>

definition igmp_start_timer :: "igmp_group \<Rightarrow> u8 \<Rightarrow> igmp_group" where
  "igmp_start_timer grp max_time = grp\<lparr>g_timer := ucast max_time\<rparr>"

definition igmp_stop_timer :: "igmp_group \<Rightarrow> igmp_group" where
  "igmp_stop_timer grp = grp\<lparr>g_timer := 0\<rparr>"

definition igmp_delaying_member :: "igmp_group \<Rightarrow> u8 \<Rightarrow> igmp_group" where
  "igmp_delaying_member grp maxresp =
     (if group_state grp = IGMP_GROUP_IDLE_MEMBER
         \<or> (group_state grp = IGMP_GROUP_DELAYING_MEMBER \<and> ucast maxresp > g_timer grp)
      then (igmp_start_timer grp (maxresp div 2))\<lparr>group_state := IGMP_GROUP_DELAYING_MEMBER\<rparr>
      else grp)"

text \<open>The loops over the groups of an interface that restart the timers: \<open>P\<close> is the test of the loop.\<close>

fun igmp_delay_list :: "(igmp_group \<Rightarrow> bool) \<Rightarrow> u8 \<Rightarrow> stack \<Rightarrow> ptr list \<Rightarrow> stack option" where
  "igmp_delay_list P maxresp s [] = Some s"
| "igmp_delay_list P maxresp s (g # gs) =
     do {
       grp \<leftarrow> groups s g;
       igmp_delay_list P maxresp (if P grp then put_group g (igmp_delaying_member grp maxresp) s else s) gs
     }"

definition igmp_report_groups :: "stack \<Rightarrow> ptr \<Rightarrow> stack option" where
  "igmp_report_groups s nif =
     igmp_delay_list (\<lambda>grp. g_interface grp = nif) IGMP_JOIN_DELAYING_MEMBER_TMR s (igmp_group_list s)"

definition igmp_timeout :: "stack \<Rightarrow> ptr \<Rightarrow> stack option" where
  "igmp_timeout s g =
     do {
       grp \<leftarrow> groups s g;
       if group_state grp = IGMP_GROUP_DELAYING_MEMBER then igmp_send s g IGMP_V2_MEMB_REPORT else Some s
     }"

fun igmp_tmr_list :: "stack \<Rightarrow> ptr list \<Rightarrow> stack option" where
  "igmp_tmr_list s [] = Some s"
| "igmp_tmr_list s (g # gs) =
     do {
       grp \<leftarrow> groups s g;
       s \<leftarrow> (if g_timer grp \<noteq> 0
         then do {
           let s = put_group g (grp\<lparr>g_timer := g_timer grp - 1\<rparr>) s;
           if g_timer grp - 1 = 0 then igmp_timeout s g else Some s
         }
         else Some s);
       igmp_tmr_list s gs
     }"

definition igmp_tmr :: "stack \<Rightarrow> stack option" where
  "igmp_tmr s = igmp_tmr_list s (igmp_group_list s)"

section \<open>Joining and leaving\<close>

text \<open>The loops over the interfaces; \<open>e\<close> is the value that would be returned so far.\<close>

definition igmp_wants :: "netif \<Rightarrow> ip_addr \<Rightarrow> bool" where
  "igmp_wants nf ifaddr \<longleftrightarrow> nf_flags nf AND NETIF_FLAG_IGMP \<noteq> 0 \<and> (ip_addr_isany ifaddr \<or> nf_ip_addr nf = ifaddr)"

definition igmp_join_new :: "stack \<Rightarrow> ptr \<Rightarrow> netif \<Rightarrow> ptr \<Rightarrow> ip_addr \<Rightarrow> stack option" where
  "igmp_join_new s nif nf g groupaddr =
     do {
       grp \<leftarrow> groups s g;
       let s = (if g_use grp = 0 then igmp_mac_filter s nif nf groupaddr True else s);
       s \<leftarrow> igmp_send s g IGMP_V2_MEMB_REPORT;
       grp \<leftarrow> groups s g;
       Some (put_group g ((igmp_start_timer grp IGMP_JOIN_DELAYING_MEMBER_TMR)
                            \<lparr>group_state := IGMP_GROUP_DELAYING_MEMBER\<rparr>) s)
     }"

fun igmp_join_list :: "stack \<Rightarrow> ip_addr \<Rightarrow> ip_addr \<Rightarrow> err \<Rightarrow> ptr list \<Rightarrow> (stack \<times> err) option" where
  "igmp_join_list s ifaddr groupaddr e [] = Some (s, e)"
| "igmp_join_list s ifaddr groupaddr e (nif # nifs) =
     do {
       nf \<leftarrow> netifs s nif;
       if igmp_wants nf ifaddr
       then do {
         (s, g) \<leftarrow> igmp_lookup_group s nif groupaddr;
         if g = NULL then Some (s, ERR_MEM)
         else do {
           grp \<leftarrow> groups s g;
           s \<leftarrow> (if group_state grp \<noteq> IGMP_GROUP_NON_MEMBER then Some s else igmp_join_new s nif nf g groupaddr);
           grp \<leftarrow> groups s g;
           igmp_join_list (put_group g (grp\<lparr>g_use := g_use grp + 1\<rparr>) s) ifaddr groupaddr ERR_OK nifs
         }
       }
       else igmp_join_list s ifaddr groupaddr e nifs
     }"

definition igmp_joingroup :: "stack \<Rightarrow> ip_addr \<Rightarrow> ip_addr \<Rightarrow> (stack \<times> err) option" where
  "igmp_joingroup s ifaddr groupaddr =
     (if \<not> ip_addr_ismulticast groupaddr \<or> groupaddr = allsystems s then Some (s, ERR_VAL)
      else igmp_join_list s ifaddr groupaddr ERR_VAL (netif_list s))"

fun igmp_leave_list :: "stack \<Rightarrow> ip_addr \<Rightarrow> ip_addr \<Rightarrow> err \<Rightarrow> ptr list \<Rightarrow> (stack \<times> err) option" where
  "igmp_leave_list s ifaddr groupaddr e [] = Some (s, e)"
| "igmp_leave_list s ifaddr groupaddr e (nif # nifs) =
     do {
       nf \<leftarrow> netifs s nif;
       if igmp_wants nf ifaddr
       then do {
         g \<leftarrow> igmp_lookfor_group s nif groupaddr;
         if g \<noteq> NULL
         then do {
           grp \<leftarrow> groups s g;
           s \<leftarrow> (if g_use grp \<le> 1
             then do {
               s \<leftarrow> (if last_reporter_flag grp then igmp_send s g IGMP_LEAVE_GROUP else Some s);
               Some (fst (igmp_remove_group (igmp_mac_filter s nif nf groupaddr False) g))
             }
             else Some (put_group g (grp\<lparr>g_use := g_use grp - 1\<rparr>) s));
           igmp_leave_list s ifaddr groupaddr ERR_OK nifs
         }
         else igmp_leave_list s ifaddr groupaddr e nifs
       }
       else igmp_leave_list s ifaddr groupaddr e nifs
     }"

definition igmp_leavegroup :: "stack \<Rightarrow> ip_addr \<Rightarrow> ip_addr \<Rightarrow> (stack \<times> err) option" where
  "igmp_leavegroup s ifaddr groupaddr =
     (if \<not> ip_addr_ismulticast groupaddr \<or> groupaddr = allsystems s then Some (s, ERR_VAL)
      else igmp_leave_list s ifaddr groupaddr ERR_VAL (netif_list s))"

section \<open>Input\<close>

text \<open>The case \<^verbatim>\<open>IGMP_MEMB_QUERY\<close>; \<open>g\<close> is the group of the destination address.\<close>

definition igmp_query :: "stack \<Rightarrow> ptr \<Rightarrow> ip_addr \<Rightarrow> igmp_msg \<Rightarrow> ptr \<Rightarrow> stack option" where
  "igmp_query s inp dest m g =
     do {
       grp \<leftarrow> groups s g;
       if dest = allsystems s \<and> igmp_group_address m = 0
       then igmp_delay_list (\<lambda>grp. g_interface grp = inp \<and> group_address grp \<noteq> allsystems s)
              (if igmp_maxresp m = 0 then IGMP_V1_DELAYING_MEMBER_TMR else igmp_maxresp m) s (igmp_group_list s)
       else if group_address grp \<noteq> 0
       then do {
         g \<leftarrow> (if dest = allsystems s then igmp_lookfor_group s inp (igmp_group_address m) else Some g);
         if g \<noteq> NULL
         then do { grp \<leftarrow> groups s g; Some (put_group g (igmp_delaying_member grp (igmp_maxresp m)) s) }
         else Some s
       }
       else Some s
     }"

text \<open>The case \<^verbatim>\<open>IGMP_V2_MEMB_REPORT\<close>.\<close>

definition igmp_report_heard :: "igmp_group \<Rightarrow> igmp_group" where
  "igmp_report_heard grp =
     (if group_state grp = IGMP_GROUP_DELAYING_MEMBER
      then grp\<lparr>g_timer := 0, group_state := IGMP_GROUP_IDLE_MEMBER, last_reporter_flag := False\<rparr> else grp)"

definition igmp_input :: "stack \<Rightarrow> ptr \<Rightarrow> ptr \<Rightarrow> ip_addr \<Rightarrow> stack option" where
  "igmp_input s p inp dest =
     do {
       pb \<leftarrow> pbufs (mem s) p;
       iphdr \<leftarrow> read_ip_hdr (mem s) (payload pb);
       (s, fail) \<leftarrow> pbuf_header_s s p (- (IPH_HL iphdr * 4));
       pb \<leftarrow> pbufs (mem s) p;
       if fail \<or> p_len pb < IGMP_MINLEN then do { (s, _) \<leftarrow> pbuf_free_s s p; Some s }
       else do {
         bs \<leftarrow> mem_read (mem s) (payload pb) (unat (p_len pb));
         if inet_chksum bs \<noteq> 0 then do { (s, _) \<leftarrow> pbuf_free_s s p; Some s }
         else do {
           g \<leftarrow> igmp_lookfor_group s inp dest;
           if g = NULL then do { (s, _) \<leftarrow> pbuf_free_s s p; Some s }
           else do {
             m \<leftarrow> read_igmp_msg (mem s) (payload pb);
             s \<leftarrow> (if igmp_msgtype m = IGMP_MEMB_QUERY then igmp_query s inp dest m g
               else if igmp_msgtype m = IGMP_V2_MEMB_REPORT
               then do { grp \<leftarrow> groups s g; Some (put_group g (igmp_report_heard grp) s) }
               else Some s);
             (s, _) \<leftarrow> pbuf_free_s s p;
             Some s
           }
         }
       }
     }"

end
