(* ===== verification/Igmp_Groups.thy ===== *)
theory Igmp_Groups
  imports Igmp Sample
begin

text \<open>
  The list of multicast groups: what every entry point of IGMP keeps of it, and the steps of the protocol as a relation.
\<close>

unbundle bit_operations_syntax

section \<open>The invariant\<close>

text \<open>A group in the list is a member, and its timer is at most half of the largest response time of a query.\<close>

definition group_ok :: "igmp_group \<Rightarrow> bool" where
  "group_ok grp \<longleftrightarrow> group_state grp \<noteq> IGMP_GROUP_NON_MEMBER \<and> unat (g_timer grp) \<le> 127"

definition group_id :: "igmp_group \<Rightarrow> ptr \<times> ip_addr" where
  "group_id grp = (g_interface grp, group_address grp)"

text \<open>The list has no group twice, every group in it is allocated, and no interface has two groups for an address.\<close>

definition listed :: "stack \<Rightarrow> bool" where
  "listed s \<longleftrightarrow> distinct (igmp_group_list s)
     \<and> (\<forall>g\<in>set (igmp_group_list s). g \<noteq> NULL \<and> g < brk (mem s) \<and> groups s g \<noteq> None)
     \<and> inj_on (\<lambda>g. group_id (the (groups s g))) (set (igmp_group_list s))"

definition igmp_ok :: "stack \<Rightarrow> bool" where
  "igmp_ok s \<longleftrightarrow> listed s \<and> (\<forall>g\<in>set (igmp_group_list s). group_ok (the (groups s g)))"

section \<open>Steps that keep the list\<close>

definition evolves :: "stack \<Rightarrow> stack \<Rightarrow> bool" where
  "evolves s s' \<longleftrightarrow> igmp_group_list s' = igmp_group_list s \<and> brk (mem s) \<le> brk (mem s')
     \<and> (\<forall>g grp. groups s g = Some grp \<longrightarrow> (\<exists>grp'. groups s' g = Some grp' \<and> group_id grp' = group_id grp \<and> (group_ok grp \<longrightarrow> group_ok grp')))"

lemma evolves_refl [simp]: "evolves s s"
  by (simp add: evolves_def)

lemma evolves_trans [trans]: "evolves s t \<Longrightarrow> evolves t u \<Longrightarrow> evolves s u"
  unfolding evolves_def by (metis (no_types, lifting) order_trans)

lemma evolves_ok:
  assumes "evolves s s'" "listed s"
  shows "listed s'" "igmp_ok s \<Longrightarrow> igmp_ok s'"
proof -
  have list: "igmp_group_list s' = igmp_group_list s" and brk: "brk (mem s) \<le> brk (mem s')"
    and grp: "\<And>g grp. groups s g = Some grp \<Longrightarrow> \<exists>grp'. groups s' g = Some grp' \<and> group_id grp' = group_id grp \<and> (group_ok grp \<longrightarrow> group_ok grp')"
    using assms(1) by (auto simp: evolves_def)
  have live: "groups s' g \<noteq> None" "group_id (the (groups s' g)) = group_id (the (groups s g))"
      "group_ok (the (groups s g)) \<Longrightarrow> group_ok (the (groups s' g))" if g: "g \<in> set (igmp_group_list s)" for g
  proof -
    obtain x where "groups s g = Some x"
      using assms(2) g by (auto simp: listed_def)
    with grp [OF this] show "groups s' g \<noteq> None" "group_id (the (groups s' g)) = group_id (the (groups s g))"
      "group_ok (the (groups s g)) \<Longrightarrow> group_ok (the (groups s' g))"
      by auto
  qed
  show l: "listed s'"
    using assms(2) brk live(1,2) unfolding listed_def list by (auto simp: inj_on_def)
  show "igmp_ok s \<Longrightarrow> igmp_ok s'"
    using l live(3) by (simp add: igmp_ok_def list)
qed

lemma evolves_keeps_ok: "evolves s s' \<Longrightarrow> igmp_ok s \<Longrightarrow> igmp_ok s'"
  using evolves_ok(2) by (simp add: igmp_ok_def)

lemma evolves_same: "groups s' = groups s \<Longrightarrow> igmp_group_list s' = igmp_group_list s \<Longrightarrow> brk (mem s) \<le> brk (mem s') \<Longrightarrow> evolves s s'"
  by (simp add: evolves_def)

lemma evolves_put:
  "groups s g = Some grp \<Longrightarrow> group_id grp' = group_id grp \<Longrightarrow> (group_ok grp \<Longrightarrow> group_ok grp') \<Longrightarrow> evolves s (put_group g grp' s)"
  by (auto simp: evolves_def put_group_def)

text \<open>Operations that leave the groups alone.\<close>

named_theorems keeps "operations that leave the groups alone"

lemma pbuf_free_loop_brk: "pbuf_free_loop h p c = Some r \<Longrightarrow> brk (fst r) = brk h"
proof (induction rule: pbuf_free_loop.raw_induct [rotated, consumes 1, case_names step])
  case (step loop h p c r)
  then show ?case
    by (auto simp: dealloc_heap split: if_split_asm Option.bind_split_asm)
qed

lemma pbuf_free_s_keeps [keeps]:
  "pbuf_free_s s p = Some (s', n) \<Longrightarrow> groups s' = groups s \<and> igmp_group_list s' = igmp_group_list s \<and> brk (mem s') = brk (mem s)"
  using pbuf_free_loop_brk [of "mem s" p 0]
  by (auto simp: pbuf_free_s_def pbuf_free_def bind_eq_Some_conv split: if_splits)

lemma pbuf_header_s_keeps [keeps]:
  "pbuf_header_s s p n = Some (s', f) \<Longrightarrow> groups s' = groups s \<and> igmp_group_list s' = igmp_group_list s \<and> brk (mem s') = brk (mem s)"
  by (auto simp: pbuf_header_s_def pbuf_header_def Let_def split: if_split_asm Option.bind_split_asm prod.split_asm)

lemma pbuf_alloc_s_keeps [keeps]:
  "pbuf_alloc_s s l n PBUF_RAM = Some (s', p)
    \<Longrightarrow> groups s' = groups s \<and> igmp_group_list s' = igmp_group_list s \<and> brk (mem s') = brk (mem s) + 1"
  by (auto simp: pbuf_alloc_s_def pbuf_alloc_def mem_malloc_pbuf_def Let_def bind_eq_Some_conv split: if_splits)

lemma mem_write_keeps [keeps]: "mem_write h a bs = Some h' \<Longrightarrow> brk h' = brk h"
  by (auto simp: mem_write_def Let_def split: if_split_asm Option.bind_split_asm prod.split_asm)

lemma netif_output_keeps [keeps]:
  "netif_output s nif p d = Some (s', e) \<Longrightarrow> groups s' = groups s \<and> igmp_group_list s' = igmp_group_list s \<and> brk (mem s') = brk (mem s)"
  by (auto simp: netif_output_def bind_eq_Some_conv)

lemma igmp_ip_output_if_keeps [keeps]:
  "igmp_ip_output_if s p src d t proto nif = Some (s', e)
    \<Longrightarrow> groups s' = groups s \<and> igmp_group_list s' = igmp_group_list s \<and> brk (mem s') = brk (mem s)"
  by (auto simp: igmp_ip_output_if_def Let_def split: if_split_asm Option.bind_split_asm dest!: keeps)

lemma igmp_mac_filter_keeps [simp]:
  "groups (igmp_mac_filter s nif nf a b) = groups s" "igmp_group_list (igmp_mac_filter s nif nf a b) = igmp_group_list s"
  "mem (igmp_mac_filter s nif nf a b) = mem s"
  by (simp_all add: igmp_mac_filter_def)

section \<open>Sending and timers\<close>

lemma igmp_send_evolves: "igmp_send s g type = Some s' \<Longrightarrow> evolves s s'"
  by (auto simp: igmp_send_def evolves_def put_group_def group_id_def group_ok_def Let_def
      split: if_split_asm Option.bind_split_asm dest!: keeps)

lemma igmp_delaying_member_ok:
  "group_id (igmp_delaying_member grp m) = group_id grp" "group_ok grp \<Longrightarrow> group_ok (igmp_delaying_member grp m)"
proof -
  have "unat m < 256"
    using unat_lt [of m] by simp
  then have "unat m div 2 \<le> 127"
    by linarith
  then have "unat (ucast (m div 2) :: u16) \<le> 127"
    by (simp add: unat_ucast_mod unat_div)
  then show "group_id (igmp_delaying_member grp m) = group_id grp" "group_ok grp \<Longrightarrow> group_ok (igmp_delaying_member grp m)"
    by (simp_all add: igmp_delaying_member_def igmp_start_timer_def group_id_def group_ok_def)
qed

lemma igmp_delay_list_evolves: "igmp_delay_list P m s gs = Some s' \<Longrightarrow> evolves s s'"
proof (induction gs arbitrary: s)
  case (Cons g gs)
  then obtain grp where grp: "groups s g = Some grp"
    by (auto simp: bind_eq_Some_conv)
  then have "evolves s (if P grp then put_group g (igmp_delaying_member grp m) s else s)"
    by (simp add: evolves_put igmp_delaying_member_ok)
  moreover have "igmp_delay_list P m (if P grp then put_group g (igmp_delaying_member grp m) s else s) gs = Some s'"
    using Cons.prems grp by simp
  ultimately show ?case
    using Cons.IH evolves_trans by blast
qed simp

lemma igmp_timeout_evolves: "igmp_timeout s g = Some s' \<Longrightarrow> evolves s s'"
  by (auto simp: igmp_timeout_def bind_eq_Some_conv intro: igmp_send_evolves split: if_splits)

lemma igmp_tmr_list_evolves: "igmp_tmr_list s gs = Some s' \<Longrightarrow> evolves s s'"
proof (induction gs arbitrary: s)
  case (Cons g gs)
  then obtain grp where grp: "groups s g = Some grp"
    by (auto simp: bind_eq_Some_conv)
  let ?s = "put_group g (grp\<lparr>g_timer := g_timer grp - 1\<rparr>) s"
  obtain s1 where s1: "(if g_timer grp \<noteq> 0 then if g_timer grp - 1 = 0 then igmp_timeout ?s g else Some ?s else Some s) = Some s1"
      "igmp_tmr_list s1 gs = Some s'"
    using Cons.prems grp by (auto simp: bind_eq_Some_conv Let_def split: if_splits)
  have "evolves s ?s" if "g_timer grp \<noteq> 0"
  proof (rule evolves_put [OF grp])
    have "unat (g_timer grp - 1) = unat (g_timer grp) - 1"
      using that by (simp add: unat_minus_one)
    then show "group_ok grp \<Longrightarrow> group_ok (grp\<lparr>g_timer := g_timer grp - 1\<rparr>)"
      by (auto simp: group_ok_def)
  qed (simp add: group_id_def)
  then have "evolves s s1"
    using s1(1) igmp_timeout_evolves [of ?s g s1] evolves_trans by (auto split: if_splits)
  then show ?case
    using Cons.IH [OF s1(2)] evolves_trans by blast
qed simp

lemma igmp_query_evolves: "igmp_query s inp dest m g = Some s' \<Longrightarrow> evolves s s'"
  by (auto simp: igmp_query_def bind_eq_Some_conv split: if_splits
      intro: igmp_delay_list_evolves intro!: evolves_put igmp_delaying_member_ok)

lemma igmp_input_evolves: "igmp_input s p inp dest = Some s' \<Longrightarrow> evolves s s'"
  by (auto simp: igmp_input_def Let_def evolves_def put_group_def igmp_report_heard_def group_id_def group_ok_def
      split: if_split_asm Option.bind_split_asm dest!: keeps igmp_query_evolves)

section \<open>Groups that come and go\<close>

lemma igmp_lookfor_spec:
  "igmp_lookfor s ifp addr gs = Some g \<Longrightarrow> NULL \<notin> set gs \<Longrightarrow>
     (if g = NULL then \<forall>x\<in>set gs. group_id (the (groups s x)) \<noteq> (ifp, addr)
      else g \<in> set gs \<and> (\<exists>grp. groups s g = Some grp \<and> group_id grp = (ifp, addr)))"
  by (induction gs) (auto simp: group_id_def bind_eq_Some_conv split: if_splits)

text \<open>The only group that need not be a member is the one just made, \<open>g\<close>.\<close>

definition ok_but :: "ptr \<Rightarrow> stack \<Rightarrow> bool" where
  "ok_but g s \<longleftrightarrow> listed s \<and> (\<forall>x\<in>set (igmp_group_list s). group_ok (the (groups s x))
     \<or> x = g \<and> group_state (the (groups s x)) = IGMP_GROUP_NON_MEMBER \<and> g_timer (the (groups s x)) = 0)"

lemma listed_new:
  assumes "listed s" "a = brk (mem s)" "a \<noteq> NULL" "\<forall>x\<in>set (igmp_group_list s). group_id (the (groups s x)) \<noteq> group_id grp"
    and "groups s' = (groups s)(a \<mapsto> grp)" "igmp_group_list s' = a # igmp_group_list s" "brk (mem s') = brk (mem s) + 1"
  shows "listed s'"
proof -
  have "a \<notin> set (igmp_group_list s)"
    using assms(1,2) by (auto simp: listed_def)
  then show ?thesis
    using assms by (auto simp: listed_def inj_on_def less_Suc_eq)
qed

lemma igmp_lookup_group_spec:
  assumes "igmp_lookup_group s ifp addr = Some (s', g)" "igmp_ok s"
  shows "ok_but g s'" "g \<noteq> NULL \<Longrightarrow> g \<in> set (igmp_group_list s')" "g = NULL \<Longrightarrow> igmp_ok s'"
proof -
  have ok: "listed s" "\<forall>x\<in>set (igmp_group_list s). group_ok (the (groups s x))" and null: "NULL \<notin> set (igmp_group_list s)"
    using assms(2) by (auto simp: igmp_ok_def listed_def)
  obtain f where f: "igmp_lookfor s ifp addr (igmp_group_list s) = Some f"
    using assms(1) by (auto simp: igmp_lookup_group_def igmp_lookfor_group_def bind_eq_Some_conv)
  note spec = igmp_lookfor_spec [OF f null]
  have "ok_but g s' \<and> (g \<noteq> NULL \<longrightarrow> g \<in> set (igmp_group_list s')) \<and> (g = NULL \<longrightarrow> igmp_ok s')"
  proof (cases "f = NULL")
    case False
    then show ?thesis
      using assms f spec ok by (auto simp: igmp_lookup_group_def igmp_lookfor_group_def ok_but_def)
  next
    case True
    define a where "a = brk (mem s)"
    define grp where "grp = \<lparr>g_interface = ifp, group_address = addr, last_reporter_flag = False,
      group_state = IGMP_GROUP_NON_MEMBER, g_timer = 0, g_use = 0\<rparr>"
    have more: "evolves s (s\<lparr>mem := (mem s)\<lparr>brk := brk (mem s) + 1\<rparr>\<rparr>)"
      by (rule evolves_same) simp_all
    show ?thesis
    proof (cases "a \<noteq> NULL \<and> mem_ok (mem s) a")
      case False
      then have "s' = s\<lparr>mem := (mem s)\<lparr>brk := brk (mem s) + 1\<rparr>\<rparr>" "g = NULL"
        using assms(1) f True
        by (auto simp: igmp_lookup_group_def igmp_lookfor_group_def memp_malloc_def memp_malloc_pbuf_def Let_def a_def split: if_splits)
      then show ?thesis
        using evolves_ok [OF more ok(1)] assms(2) by (auto simp: ok_but_def igmp_ok_def)
    next
      case fine: True
      then have g: "g = a" and s': "groups s' = (groups s)(a \<mapsto> grp)" "igmp_group_list s' = a # igmp_group_list s" "brk (mem s') = brk (mem s) + 1"
        using assms(1) f True
        by (auto simp: igmp_lookup_group_def igmp_lookfor_group_def memp_malloc_def memp_malloc_pbuf_def Let_def a_def grp_def put_group_def)
      have "listed s'"
        using spec True fine by (intro listed_new [OF ok(1) a_def _ _ s']) (auto simp: grp_def group_id_def)
      moreover have "a \<notin> set (igmp_group_list s)"
        using ok(1) by (auto simp: listed_def a_def)
      ultimately show ?thesis
        using fine g s' ok(2) by (auto simp: ok_but_def grp_def)
    qed
  qed
  then show "ok_but g s'" "g \<noteq> NULL \<Longrightarrow> g \<in> set (igmp_group_list s')" "g = NULL \<Longrightarrow> igmp_ok s'"
    by blast+
qed

lemma ok_but_put:
  assumes "listed s" "\<forall>x\<in>set (igmp_group_list s). x \<noteq> g \<longrightarrow> group_ok (the (groups s x))"
    and "groups s g = Some grp" "group_id grp' = group_id grp" "group_ok grp'"
  shows "igmp_ok (put_group g grp' s)"
proof -
  have "group_id (the (groups (put_group g grp' s) x)) = group_id (the (groups s x))" for x
    using assms(3,4) by (simp add: put_group_def)
  then have "listed (put_group g grp' s)"
    using assms(1,3) by (auto simp: listed_def put_group_def inj_on_def)
  then show ?thesis
    using assms by (auto simp: igmp_ok_def put_group_def)
qed

lemma igmp_ok_remove:
  assumes "igmp_ok s" "groups s' = (groups s)(g := None)" "igmp_group_list s' = remove1 g (igmp_group_list s)" "brk (mem s') = brk (mem s)"
  shows "igmp_ok s'"
proof -
  have "distinct (igmp_group_list s)"
    using assms(1) by (simp add: igmp_ok_def listed_def)
  then have "set (igmp_group_list s') = set (igmp_group_list s) - {g}" "distinct (igmp_group_list s')"
    using assms(3) by simp_all
  then show ?thesis
    using assms by (auto simp: igmp_ok_def listed_def inj_on_def)
qed

lemma igmp_join_new_ok:
  assumes "igmp_join_new s nif nf g addr = Some s'" "ok_but g s"
  shows "igmp_ok s'"
proof -
  obtain grp s2 grp2 where s2: "groups s g = Some grp"
      "igmp_send (if g_use grp = 0 then igmp_mac_filter s nif nf addr True else s) g IGMP_V2_MEMB_REPORT = Some s2" "groups s2 g = Some grp2"
      "s' = put_group g ((igmp_start_timer grp2 IGMP_JOIN_DELAYING_MEMBER_TMR)\<lparr>group_state := IGMP_GROUP_DELAYING_MEMBER\<rparr>) s2"
    using assms(1) by (auto simp: igmp_join_new_def bind_eq_Some_conv Let_def)
  have "evolves s (if g_use grp = 0 then igmp_mac_filter s nif nf addr True else s)"
    by (simp add: evolves_same)
  then have ev: "evolves s s2"
    using igmp_send_evolves [OF s2(2)] evolves_trans by blast
  have l: "listed s"
    using assms(2) by (simp add: ok_but_def)
  have "group_ok (the (groups s2 x))" if "x \<in> set (igmp_group_list s2)" "x \<noteq> g" for x
  proof -
    have x: "x \<in> set (igmp_group_list s)" "group_ok (the (groups s x))"
      using that ev assms(2) by (auto simp: evolves_def ok_but_def)
    then obtain y where "groups s x = Some y"
      using l by (auto simp: listed_def)
    with x(2) ev show ?thesis
      by (fastforce simp: evolves_def)
  qed
  moreover have "group_ok ((igmp_start_timer grp2 IGMP_JOIN_DELAYING_MEMBER_TMR)\<lparr>group_state := IGMP_GROUP_DELAYING_MEMBER\<rparr>)"
    by (simp add: group_ok_def igmp_start_timer_def IGMP_JOIN_DELAYING_MEMBER_TMR_def)
  ultimately show ?thesis
    unfolding s2(4) using evolves_ok(1) [OF ev l] s2(3) by (intro ok_but_put) (auto simp: group_id_def igmp_start_timer_def)
qed

lemma igmp_join_list_ok: "igmp_join_list s ifaddr addr e nifs = Some (s', e') \<Longrightarrow> igmp_ok s \<Longrightarrow> igmp_ok s'"
proof (induction nifs arbitrary: s e)
  case (Cons nif nifs)
  obtain nf where nf: "netifs s nif = Some nf"
    using Cons.prems(1) by (auto simp: bind_eq_Some_conv)
  show ?case
  proof (cases "igmp_wants nf ifaddr")
    case True
    obtain s1 g where g: "igmp_lookup_group s nif addr = Some (s1, g)"
      using Cons.prems(1) nf True by (auto simp: bind_eq_Some_conv)
    note spec = igmp_lookup_group_spec [OF g Cons.prems(2)]
    show ?thesis
    proof (cases "g = NULL")
      case False
      then obtain grp s2 grp2 where s2: "groups s1 g = Some grp"
          "(if group_state grp \<noteq> IGMP_GROUP_NON_MEMBER then Some s1 else igmp_join_new s1 nif nf g addr) = Some s2" "groups s2 g = Some grp2"
          "igmp_join_list (put_group g (grp2\<lparr>g_use := g_use grp2 + 1\<rparr>) s2) ifaddr addr ERR_OK nifs = Some (s', e')"
        using Cons.prems(1) nf True g False by (auto simp: bind_eq_Some_conv)
      have "igmp_ok s2"
        using s2(1,2) spec(1) igmp_join_new_ok [of s1 nif nf g addr s2] by (auto simp: ok_but_def igmp_ok_def split: if_splits)
      then have "igmp_ok (put_group g (grp2\<lparr>g_use := g_use grp2 + 1\<rparr>) s2)"
        using evolves_keeps_ok evolves_put [OF s2(3), of "grp2\<lparr>g_use := g_use grp2 + 1\<rparr>"] by (simp add: group_id_def group_ok_def)
      then show ?thesis
        using Cons.IH s2(4) by blast
    qed (use Cons.prems(1) nf True g spec(3) in simp)
  qed (use Cons nf in simp)
qed simp

lemma igmp_start_ok:
  assumes "igmp_start s nif = Some (s', e)" "igmp_ok s"
  shows "igmp_ok s'"
proof -
  obtain s1 g where g: "igmp_lookup_group s nif (allsystems s) = Some (s1, g)"
    using assms(1) by (auto simp: igmp_start_def bind_eq_Some_conv)
  note spec = igmp_lookup_group_spec [OF g assms(2)]
  show ?thesis
  proof (cases "g = NULL")
    case False
    then obtain grp nf s2 where s2: "groups s1 g = Some grp" "s2 = put_group g (grp\<lparr>group_state := IGMP_GROUP_IDLE_MEMBER, g_use := g_use grp + 1\<rparr>) s1"
        "s' = igmp_mac_filter s2 nif nf (allsystems s2) True"
      using assms(1) g by (auto simp: igmp_start_def bind_eq_Some_conv Let_def)
    have "group_ok grp \<or> g_timer grp = 0"
      using spec(1,2) False s2(1) by (fastforce simp: ok_but_def)
    then have "igmp_ok s2"
      unfolding s2(2) using spec(1) s2(1) by (intro ok_but_put) (auto simp: ok_but_def group_id_def group_ok_def)
    then show ?thesis
      unfolding s2(3) by (rule evolves_keeps_ok [rotated]) (simp add: evolves_same)
  qed (use assms(1) g spec(3) in \<open>simp add: igmp_start_def\<close>)
qed

lemma igmp_leave_list_ok: "igmp_leave_list s ifaddr addr e nifs = Some (s', e') \<Longrightarrow> igmp_ok s \<Longrightarrow> igmp_ok s'"
proof (induction nifs arbitrary: s e)
  case (Cons nif nifs)
  obtain nf g where nf: "netifs s nif = Some nf" and g: "igmp_wants nf ifaddr \<Longrightarrow> igmp_lookfor_group s nif addr = Some g"
    using Cons.prems(1) by (auto simp: bind_eq_Some_conv split: if_splits)
  show ?case
  proof (cases "igmp_wants nf ifaddr \<and> g \<noteq> NULL")
    case True
    then obtain grp s2 where s2: "groups s g = Some grp" "(if g_use grp \<le> 1
         then do {
           s \<leftarrow> (if last_reporter_flag grp then igmp_send s g IGMP_LEAVE_GROUP else Some s);
           Some (fst (igmp_remove_group (igmp_mac_filter s nif nf addr False) g))
         }
         else Some (put_group g (grp\<lparr>g_use := g_use grp - 1\<rparr>) s)) = Some s2"
        "igmp_leave_list s2 ifaddr addr ERR_OK nifs = Some (s', e')"
      using Cons.prems(1) nf g by (auto simp: bind_eq_Some_conv)
    have "igmp_ok s2"
    proof (cases "g_use grp \<le> 1")
      case True
      then obtain s1 where s1: "(if last_reporter_flag grp then igmp_send s g IGMP_LEAVE_GROUP else Some s) = Some s1"
          "s2 = fst (igmp_remove_group (igmp_mac_filter s1 nif nf addr False) g)"
        using s2(2) by (auto simp: bind_eq_Some_conv)
      have "evolves s s1"
        using s1(1) igmp_send_evolves by (auto split: if_splits)
      then have "igmp_ok s1"
        using evolves_keeps_ok Cons.prems(2) by blast
      then show ?thesis
        by (rule igmp_ok_remove) (simp_all add: s1(2) igmp_remove_group_def)
    next
      case False
      then have "evolves s s2"
        using s2(1,2) evolves_put [of s g grp "grp\<lparr>g_use := g_use grp - 1\<rparr>"] by (simp add: group_id_def group_ok_def)
      then show ?thesis
        using evolves_keeps_ok Cons.prems(2) by blast
    qed
    then show ?thesis
      using Cons.IH s2(3) by blast
  qed (use Cons nf g in \<open>auto split: if_splits\<close>)
qed simp

lemma igmp_stop_list_ok: "igmp_stop_list s nif gs = Some s' \<Longrightarrow> igmp_ok s \<Longrightarrow> igmp_ok s'"
proof (induction gs arbitrary: s)
  case (Cons g gs)
  then obtain grp where grp: "groups s g = Some grp"
    by (auto simp: bind_eq_Some_conv)
  show ?case
  proof (cases "g_interface grp = nif")
    case True
    then obtain nf s1 where "igmp_stop_list s1 nif gs = Some s'"
        "s1 = (igmp_mac_filter (s\<lparr>igmp_group_list := remove1 g (igmp_group_list s)\<rparr>) nif nf (group_address grp) False)
           \<lparr>groups := (groups (s\<lparr>igmp_group_list := remove1 g (igmp_group_list s)\<rparr>))(g := None)\<rparr>"
      using Cons.prems(1) grp by (auto simp: bind_eq_Some_conv Let_def)
    moreover from this(2) have "igmp_ok s1"
      by (intro igmp_ok_remove [OF Cons.prems(2)]) simp_all
    ultimately show ?thesis
      using Cons.IH by blast
  qed (use Cons grp in simp)
qed simp

section \<open>The protocol\<close>

text \<open>One step: a call, the timer, a message, or anything else the stack does, which leaves the groups alone.\<close>

inductive igmp_step :: "stack \<Rightarrow> stack \<Rightarrow> bool" where
  start: "igmp_start s nif = Some (s', e) \<Longrightarrow> igmp_step s s'"
| stop: "igmp_stop s nif = Some (s', e) \<Longrightarrow> igmp_step s s'"
| report: "igmp_report_groups s nif = Some s' \<Longrightarrow> igmp_step s s'"
| join: "igmp_joingroup s ifaddr addr = Some (s', e) \<Longrightarrow> igmp_step s s'"
| leave: "igmp_leavegroup s ifaddr addr = Some (s', e) \<Longrightarrow> igmp_step s s'"
| tmr: "igmp_tmr s = Some s' \<Longrightarrow> igmp_step s s'"
| input: "igmp_input s p inp dest = Some s' \<Longrightarrow> igmp_step s s'"
| other: "groups s' = groups s \<Longrightarrow> igmp_group_list s' = igmp_group_list s \<Longrightarrow> brk (mem s) \<le> brk (mem s') \<Longrightarrow> igmp_step s s'"

lemma igmp_step_ok: "igmp_step s s' \<Longrightarrow> igmp_ok s \<Longrightarrow> igmp_ok s'"
proof (induction rule: igmp_step.induct)
  case (start s nif s' e)
  then show ?case by (rule igmp_start_ok)
next
  case (stop s nif s' e)
  then show ?case
    by (auto simp: igmp_stop_def bind_eq_Some_conv intro: igmp_stop_list_ok)
next
  case (report s nif s')
  then show ?case
    unfolding igmp_report_groups_def using evolves_keeps_ok igmp_delay_list_evolves by blast
next
  case (join s ifaddr addr s' e)
  then show ?case
    using igmp_join_list_ok by (auto simp: igmp_joingroup_def split: if_splits)
next
  case (leave s ifaddr addr s' e)
  then show ?case
    using igmp_leave_list_ok by (auto simp: igmp_leavegroup_def split: if_splits)
next
  case (tmr s s')
  then show ?case
    unfolding igmp_tmr_def using evolves_keeps_ok igmp_tmr_list_evolves by blast
next
  case (input s p inp dest s')
  then show ?case
    using evolves_keeps_ok igmp_input_evolves by blast
next
  case (other s' s)
  then show ?case
    using evolves_keeps_ok evolves_same by blast
qed

text \<open>C12. However the interfaces start and stop, groups are joined and left, the timer runs and messages arrive, the list of groups stays
  well-formed: no group is in it twice or freed, no interface has two entries for an address, every group in it is a
  member, and its timer is at most 127.\<close>

theorem igmp_groups_well_formed:
  assumes "igmp_step\<^sup>*\<^sup>* s s'" "igmp_ok s"
  shows "distinct (igmp_group_list s')
    \<and> (\<forall>g\<in>set (igmp_group_list s'). \<exists>grp. groups s' g = Some grp \<and> group_state grp \<noteq> IGMP_GROUP_NON_MEMBER \<and> unat (g_timer grp) \<le> 127
         \<and> (\<forall>x\<in>set (igmp_group_list s'). group_id (the (groups s' x)) = group_id grp \<longrightarrow> x = g))"
proof -
  have "igmp_ok s'"
    using assms by (induction rule: rtranclp_induct) (auto intro: igmp_step_ok)
  then have l: "distinct (igmp_group_list s')" "\<And>g. g \<in> set (igmp_group_list s') \<Longrightarrow> groups s' g \<noteq> None \<and> group_ok (the (groups s' g))"
      "inj_on (\<lambda>g. group_id (the (groups s' g))) (set (igmp_group_list s'))"
    by (simp_all add: igmp_ok_def listed_def)
  have "\<exists>grp. groups s' g = Some grp \<and> group_state grp \<noteq> IGMP_GROUP_NON_MEMBER \<and> unat (g_timer grp) \<le> 127
      \<and> (\<forall>x\<in>set (igmp_group_list s'). group_id (the (groups s' x)) = group_id grp \<longrightarrow> x = g)" if g: "g \<in> set (igmp_group_list s')" for g
  proof -
    obtain grp where grp: "groups s' g = Some grp" "group_ok grp"
      using l(2) [OF g] by auto
    moreover have "x = g" if "x \<in> set (igmp_group_list s')" "group_id (the (groups s' x)) = group_id grp" for x
      using inj_onD [OF l(3), of x g] that g grp(1) by simp
    ultimately show ?thesis
      by (auto simp: group_ok_def)
  qed
  with l(1) show ?thesis
    by blast
qed

text \<open>An interface that starts, and joins the group 224.0.0.9 there.\<close>

definition igmp_netif :: netif where
  "igmp_netif = sample_netif\<lparr>nf_flags := NETIF_FLAG_IGMP OR NETIF_FLAG_UP\<rparr>"

definition igmp_stack :: stack where
  "igmp_stack = (sample_stack (no_heap\<lparr>mem_ok := (\<lambda>p. True)\<rparr>))\<lparr>netifs := [1 \<mapsto> igmp_netif]\<rparr>"

theorem igmp_groups_well_formed_witness:
  "\<exists>s' g. igmp_step\<^sup>*\<^sup>* igmp_stack s' \<and> igmp_group_list s' = [g] \<and> (\<exists>grp. groups s' g = Some grp \<and> group_state grp \<noteq> IGMP_GROUP_NON_MEMBER)"
proof -
  have "\<exists>s' g. igmp_start igmp_stack 1 = Some (s', ERR_OK) \<and> igmp_group_list s' = [g]"
    by (simp add: igmp_start_def igmp_lookup_group_def igmp_lookfor_group_def igmp_stack_def sample_stack_def memp_malloc_def
        memp_malloc_pbuf_def no_heap_def put_group_def igmp_mac_filter_def Let_def)
  then obtain s' g where s': "igmp_start igmp_stack 1 = Some (s', ERR_OK)" "igmp_group_list s' = [g]"
    by blast
  then have "igmp_step\<^sup>*\<^sup>* igmp_stack s'"
    by (blast intro: igmp_step.start)
  moreover have "igmp_ok igmp_stack"
    by (simp add: igmp_ok_def listed_def igmp_stack_def sample_stack_def)
  ultimately show ?thesis
    using igmp_groups_well_formed [of igmp_stack s'] s'(2) by auto
qed

end
