(* ===== verification/Netif.thy ===== *)
theory Netif
  imports Igmp Tcp
begin

text \<open>
  Network interfaces, \<^verbatim>\<open>core/netif.c\<close>, in the configuration of the build (no ARP, no DHCP, no status
  or link callbacks). The structs are allocated by the caller; the function that initialises the device is the argument
  \<open>init\<close>.
\<close>

unbundle bit_operations_syntax

definition put_netif :: "ptr \<Rightarrow> netif \<Rightarrow> stack \<Rightarrow> stack" where
  "put_netif nif nf s = s\<lparr>netifs := (netifs s)(nif := Some nf)\<rparr>"

section \<open>Addresses\<close>

text \<open>The loop of \<^verbatim>\<open>netif_set_ipaddr\<close> over the active connections: the successor is read before the
  connection is aborted.\<close>

partial_function (option) netif_abort_from :: "callbacks \<Rightarrow> stack \<Rightarrow> ptr \<Rightarrow> ptr \<Rightarrow> stack option" where
  "netif_abort_from cb s nif a =
     (if a = NULL then Some s
      else do {
        pcb \<leftarrow> pcbs s a;
        nf \<leftarrow> netifs s nif;
        let nxt = next_pcb a (tcp_active_pcbs s);
        s \<leftarrow> (if local_ip pcb = nf_ip_addr nf then tcp_abort cb s a else Some s);
        netif_abort_from cb s nif nxt
      })"

declare netif_abort_from.simps [code]

fun netif_relisten :: "stack \<Rightarrow> ip_addr \<Rightarrow> ip_addr \<Rightarrow> ptr list \<Rightarrow> stack option" where
  "netif_relisten s old ipaddr [] = Some s"
| "netif_relisten s old ipaddr (a # as) =
     do {
       l \<leftarrow> lpcbs s a;
       netif_relisten
         (if \<not> ip_addr_isany (l_local_ip l) \<and> l_local_ip l = old
          then s\<lparr>lpcbs := (lpcbs s)(a := Some (l\<lparr>l_local_ip := ipaddr\<rparr>))\<rparr> else s) old ipaddr as
     }"

definition netif_set_ipaddr :: "callbacks \<Rightarrow> stack \<Rightarrow> ptr \<Rightarrow> ip_addr \<Rightarrow> stack option" where
  "netif_set_ipaddr cb s nif ipaddr =
     do {
       nf \<leftarrow> netifs s nif;
       s \<leftarrow> (if ipaddr \<noteq> nf_ip_addr nf
         then do {
           s \<leftarrow> netif_abort_from cb s nif (case tcp_active_pcbs s of [] \<Rightarrow> NULL | a # _ \<Rightarrow> a);
           nf \<leftarrow> netifs s nif;
           netif_relisten s (nf_ip_addr nf) ipaddr (tcp_listen_pcbs s)
         }
         else Some s);
       nf \<leftarrow> netifs s nif;
       Some (put_netif nif (nf\<lparr>nf_ip_addr := ipaddr\<rparr>) s)
     }"

definition netif_set_gw :: "stack \<Rightarrow> ptr \<Rightarrow> ip_addr \<Rightarrow> stack option" where
  "netif_set_gw s nif gw = do { nf \<leftarrow> netifs s nif; Some (put_netif nif (nf\<lparr>nf_gw := gw\<rparr>) s) }"

definition netif_set_netmask :: "stack \<Rightarrow> ptr \<Rightarrow> ip_addr \<Rightarrow> stack option" where
  "netif_set_netmask s nif netmask = do { nf \<leftarrow> netifs s nif; Some (put_netif nif (nf\<lparr>nf_netmask := netmask\<rparr>) s) }"

definition netif_set_addr :: "callbacks \<Rightarrow> stack \<Rightarrow> ptr \<Rightarrow> ip_addr \<Rightarrow> ip_addr \<Rightarrow> ip_addr \<Rightarrow> stack option" where
  "netif_set_addr cb s nif ipaddr netmask gw =
     do {
       s \<leftarrow> netif_set_ipaddr cb s nif ipaddr;
       s \<leftarrow> netif_set_netmask s nif netmask;
       netif_set_gw s nif gw
     }"

section \<open>The list of interfaces\<close>

definition netif_set_default :: "stack \<Rightarrow> ptr \<Rightarrow> stack" where
  "netif_set_default s nif = s\<lparr>netif_default := nif\<rparr>"

definition netif_add ::
    "callbacks \<Rightarrow> (stack \<Rightarrow> ptr \<Rightarrow> (stack \<times> err) option) \<Rightarrow> stack \<Rightarrow> ptr \<Rightarrow> ip_addr \<Rightarrow> ip_addr \<Rightarrow> ip_addr
      \<Rightarrow> (stack \<times> ptr) option" where
  "netif_add cb init s nif ipaddr netmask gw =
     do {
       nf \<leftarrow> netifs s nif;
       let nf = nf\<lparr>nf_ip_addr := 0, nf_netmask := 0, nf_gw := 0, nf_flags := 0, nf_igmp_mac_filter := 0, nf_num := netifnum s\<rparr>;
       let s = (put_netif nif nf s)\<lparr>netifnum := netifnum s + 1\<rparr>;
       s \<leftarrow> netif_set_addr cb s nif ipaddr netmask gw;
       (s, e) \<leftarrow> init s nif;
       if e \<noteq> ERR_OK then Some (s, NULL)
       else do {
         let s = s\<lparr>netif_list := nif # netif_list s\<rparr>;
         nf \<leftarrow> netifs s nif;
         s \<leftarrow> (if nf_flags nf AND NETIF_FLAG_IGMP \<noteq> 0 then do { (s, _) \<leftarrow> igmp_start s nif; Some s } else Some s);
         Some (s, nif)
       }
     }"

definition netif_remove :: "stack \<Rightarrow> ptr \<Rightarrow> stack option" where
  "netif_remove s nif =
     (if nif = NULL then Some s
      else do {
        nf \<leftarrow> netifs s nif;
        s \<leftarrow> (if nf_flags nf AND NETIF_FLAG_IGMP \<noteq> 0 then do { (s, _) \<leftarrow> igmp_stop s nif; Some s } else Some s);
        if nif \<in> set (netif_list s)
        then do {
          let s = s\<lparr>netif_list := remove1 nif (netif_list s)\<rparr>;
          Some (if netif_default s = nif then netif_set_default s NULL else s)
        }
        else Some s
      })"

text \<open>\<^verbatim>\<open>netif_find\<close>; a name is a pointer to at least three octets, \<open>None\<close> is \<^verbatim>\<open>NULL\<close>.\<close>

fun netif_find_list :: "stack \<Rightarrow> u8 \<times> u8 \<Rightarrow> u8 \<Rightarrow> ptr list \<Rightarrow> ptr option" where
  "netif_find_list s name num [] = Some NULL"
| "netif_find_list s name num (nif # nifs) =
     do {
       nf \<leftarrow> netifs s nif;
       if num = nf_num nf \<and> name = nf_name nf then Some nif else netif_find_list s name num nifs
     }"

definition netif_find :: "stack \<Rightarrow> (u8 \<times> u8 \<times> u8) option \<Rightarrow> ptr option" where
  "netif_find s name =
     (case name of
        None \<Rightarrow> Some NULL
      | Some (n0, n1, n2) \<Rightarrow> netif_find_list s (n0, n1) (n2 - 0x30) (netif_list s))"

section \<open>Up and down\<close>

definition netif_set_up :: "stack \<Rightarrow> ptr \<Rightarrow> stack option" where
  "netif_set_up s nif =
     do {
       nf \<leftarrow> netifs s nif;
       Some (if nf_flags nf AND NETIF_FLAG_UP = 0 then put_netif nif (nf\<lparr>nf_flags := nf_flags nf OR NETIF_FLAG_UP\<rparr>) s else s)
     }"

definition netif_set_down :: "stack \<Rightarrow> ptr \<Rightarrow> stack option" where
  "netif_set_down s nif =
     do {
       nf \<leftarrow> netifs s nif;
       Some (if nf_flags nf AND NETIF_FLAG_UP \<noteq> 0 then put_netif nif (nf\<lparr>nf_flags := nf_flags nf AND NOT NETIF_FLAG_UP\<rparr>) s else s)
     }"

end
