(* ===== verification/Raw.thy ===== *)
theory Raw
  imports Ip
begin

text \<open>
  Raw IP, \<^verbatim>\<open>core/raw.c\<close>. The list \<^verbatim>\<open>raw_pcbs\<close> is a list of addresses of live control
  blocks. The receive functions of the application are the argument \<open>on_recv\<close>; one that returns a number other than
  0 has eaten the packet. A function may change the list, so the loop reads the successor of a block in the list as it
  is after the call.
\<close>

definition RAW_TTL :: u8 where "RAW_TTL = 255"

type_synonym raw_recv_fn = "fptr \<Rightarrow> stack \<Rightarrow> nat \<Rightarrow> ptr \<Rightarrow> ptr \<Rightarrow> ip_addr \<Rightarrow> (stack \<times> u8) option"

definition put_rpcb :: "ptr \<Rightarrow> raw_pcb \<Rightarrow> stack \<Rightarrow> stack" where
  "put_rpcb a pcb s = s\<lparr>rpcbs := (rpcbs s)(a := Some pcb)\<rparr>"

text \<open>\<^verbatim>\<open>pcb->next\<close> of a block in a list: the block behind it, or \<open>NULL\<close>.\<close>

fun succ_of :: "ptr \<Rightarrow> ptr list \<Rightarrow> ptr" where
  "succ_of a [] = NULL"
| "succ_of a (x # xs) = (if x = a then (case xs of [] \<Rightarrow> NULL | y # _ \<Rightarrow> y) else succ_of a xs)"

text \<open>The loop of \<^verbatim>\<open>raw_input\<close>. A block that ate the packet moves to the front; the result says whether
  one did.\<close>

partial_function (option) raw_input_from ::
    "raw_recv_fn \<Rightarrow> stack \<Rightarrow> ptr \<Rightarrow> ip_hdr \<Rightarrow> ptr \<Rightarrow> ptr \<Rightarrow> (stack \<times> bool) option" where
  "raw_input_from on_recv s p iphdr prev a =
     (if a = NULL then Some (s, False)
      else do {
        pcb \<leftarrow> rpcbs s a;
        (s, eaten) \<leftarrow> (if ucast (r_protocol pcb) = IPH_PROTO iphdr \<and> r_recv pcb \<noteq> 0
          then on_recv (r_recv pcb) s (r_recv_arg pcb) a p (ih_src iphdr)
          else Some (s, 0));
        _ \<leftarrow> rpcbs s a;
        if eaten \<noteq> 0
        then (if prev = NULL then Some (s, True)
              else if succ_of prev (raw_pcbs s) = a then Some (s\<lparr>raw_pcbs := a # remove1 a (raw_pcbs s)\<rparr>, True)
              else None)
        else raw_input_from on_recv s p iphdr a (succ_of a (raw_pcbs s))
      })"

declare raw_input_from.simps [code]

definition raw_input :: "raw_recv_fn \<Rightarrow> stack \<Rightarrow> ptr \<Rightarrow> (stack \<times> bool) option" where
  "raw_input on_recv s p =
     do {
       pb \<leftarrow> pbufs (mem s) p;
       iphdr \<leftarrow> read_ip_hdr (mem s) (payload pb);
       raw_input_from on_recv s p iphdr NULL (case raw_pcbs s of [] \<Rightarrow> NULL | a # _ \<Rightarrow> a)
     }"

definition raw_bind :: "stack \<Rightarrow> ptr \<Rightarrow> ip_addr \<Rightarrow> (stack \<times> err) option" where
  "raw_bind s a ipaddr = do { pcb \<leftarrow> rpcbs s a; Some (put_rpcb a (pcb\<lparr>r_local_ip := ipaddr\<rparr>) s, ERR_OK) }"

definition raw_connect :: "stack \<Rightarrow> ptr \<Rightarrow> ip_addr \<Rightarrow> (stack \<times> err) option" where
  "raw_connect s a ipaddr = do { pcb \<leftarrow> rpcbs s a; Some (put_rpcb a (pcb\<lparr>r_remote_ip := ipaddr\<rparr>) s, ERR_OK) }"

definition raw_recv :: "stack \<Rightarrow> ptr \<Rightarrow> fptr \<Rightarrow> nat \<Rightarrow> stack option" where
  "raw_recv s a recv recv_arg = do { pcb \<leftarrow> rpcbs s a; Some (put_rpcb a (pcb\<lparr>r_recv := recv, r_recv_arg := recv_arg\<rparr>) s) }"

text \<open>The packet with room for the IP header: \<open>p\<close> itself, or an empty pbuf chained in front of it, with the error
  of the early returns.\<close>

definition raw_hdr_room :: "stack \<Rightarrow> ptr \<Rightarrow> (stack \<times> ptr) option" where
  "raw_hdr_room s p =
     do {
       (s, fail) \<leftarrow> pbuf_header_s s p IP_HLEN;
       if fail
       then do {
         (s, q) \<leftarrow> pbuf_alloc_s s PBUF_IP 0 PBUF_RAM;
         if q = NULL then Some (s, NULL)
         else do { h \<leftarrow> pbuf_chain (mem s) q p; Some (s\<lparr>mem := h\<rparr>, q) }
       }
       else do {
         (s, fail) \<leftarrow> pbuf_header_s s p (- IP_HLEN);
         Some (s, if fail then NULL else p)
       }
     }"

definition raw_sendto :: "stack \<Rightarrow> ptr \<Rightarrow> ptr \<Rightarrow> ip_addr \<Rightarrow> (stack \<times> err) option" where
  "raw_sendto s a p ipaddr =
     do {
       (s, q) \<leftarrow> raw_hdr_room s p;
       if q = NULL then Some (s, ERR_MEM)
       else do {
         pcb \<leftarrow> rpcbs s a;
         nif \<leftarrow> ip_route s ipaddr;
         (s, e) \<leftarrow> (if nif = NULL then Some (s, ERR_RTE)
           else do {
             nf \<leftarrow> netifs s nif;
             ip_output_if s q [] (if ip_addr_isany (r_local_ip pcb) then nf_ip_addr nf else r_local_ip pcb)
               (Some ipaddr) (r_ttl pcb) (r_tos pcb) (r_protocol pcb) nif
           });
         s \<leftarrow> (if q \<noteq> p then do { (s, _) \<leftarrow> pbuf_free_s s q; Some s } else Some s);
         Some (s, e)
       }
     }"

definition raw_send :: "stack \<Rightarrow> ptr \<Rightarrow> ptr \<Rightarrow> (stack \<times> err) option" where
  "raw_send s a p = do { pcb \<leftarrow> rpcbs s a; raw_sendto s a p (r_remote_ip pcb) }"

definition raw_remove :: "stack \<Rightarrow> ptr \<Rightarrow> stack" where
  "raw_remove s a = s\<lparr>raw_pcbs := remove1 a (raw_pcbs s), rpcbs := (rpcbs s)(a := None)\<rparr>"

definition raw_new :: "stack \<Rightarrow> u8 \<Rightarrow> stack \<times> ptr" where
  "raw_new s proto =
     (let (s, a) = memp_malloc s
      in if a \<noteq> NULL
         then ((put_rpcb a \<lparr>r_local_ip = 0, r_remote_ip = 0, r_so_options = 0, r_tos = 0, r_ttl = RAW_TTL,
                            r_protocol = proto, r_recv = 0, r_recv_arg = 0\<rparr> s)\<lparr>raw_pcbs := a # raw_pcbs s\<rparr>, a)
         else (s, a))"

end
