(* ===== verification/Ip_Input.thy ===== *)
theory Ip_Input
  imports Ip_Reass Udp Raw Igmp Tcp_In
begin

text \<open>
  Input of IP datagrams, \<^verbatim>\<open>ip_input\<close> of \<^verbatim>\<open>core/ipv4/ip.c\<close>, in the configuration of the
  build (no forwarding, no DHCP): the checks of the header, the choice of the interface, reassembly, and the dispatch to
  raw IP, UDP, TCP, ICMP and IGMP.
\<close>

unbundle bit_operations_syntax

text \<open>What the application does with data: the callbacks of TCP and the receive functions of UDP and raw IP.\<close>

record applications =
  app_tcp :: callbacks
  app_udp :: udp_recv_fn
  app_raw :: raw_recv_fn

definition ip_input_drop :: "stack \<Rightarrow> ptr \<Rightarrow> (stack \<times> err) option" where
  "ip_input_drop s p = do { (s, _) \<leftarrow> pbuf_free_s s p; Some (s, ERR_OK) }"

text \<open>The loop that looks for the interface with the address \<open>dest\<close>.\<close>

fun ip_input_match :: "stack \<Rightarrow> ip_addr \<Rightarrow> ptr list \<Rightarrow> ptr option" where
  "ip_input_match s dest [] = Some NULL"
| "ip_input_match s dest (n # ns) =
     do {
       nf \<leftarrow> netifs s n;
       if netif_is_up nf \<and> \<not> ip_addr_isany (nf_ip_addr nf) \<and> (dest = nf_ip_addr nf \<or> ip_addr_isbroadcast dest nf)
       then Some n else ip_input_match s dest ns
     }"

text \<open>The interface the packet is for, or \<open>NULL\<close>: the one it came in on is tried first.\<close>

definition ip_input_netif :: "stack \<Rightarrow> ip_addr \<Rightarrow> ptr \<Rightarrow> ptr option" where
  "ip_input_netif s dest inp =
     (if ip_addr_ismulticast dest
      then do {
        nf \<leftarrow> netifs s inp;
        if nf_flags nf AND NETIF_FLAG_IGMP \<noteq> 0
        then do { g \<leftarrow> igmp_lookfor_group s inp dest; Some (if g \<noteq> NULL then inp else NULL) }
        else Some NULL
      }
      else ip_input_match s dest (inp # removeAll inp (netif_list s)))"

text \<open>The upper layers: raw IP first, then the protocol of the header at the address \<open>iph\<close>.\<close>

definition ip_input_deliver :: "applications \<Rightarrow> stack \<Rightarrow> ptr \<Rightarrow> ptr \<Rightarrow> (stack \<times> err) option" where
  "ip_input_deliver app s p inp =
     do {
       pb \<leftarrow> pbufs (mem s) p;
       let iph = payload pb;
       (s, eaten) \<leftarrow> raw_input (app_raw app) s p;
       if eaten then Some (s, ERR_OK)
       else do {
         iphdr \<leftarrow> read_ip_hdr (mem s) iph;
         let proto = IPH_PROTO iphdr;
         if proto = ucast IP_PROTO_UDP then do { s \<leftarrow> udp_input (app_udp app) s p inp; Some (s, ERR_OK) }
         else if proto = ucast IP_PROTO_TCP then do { s \<leftarrow> tcp_input (app_tcp app) s p inp; Some (s, ERR_OK) }
         else if proto = ucast IP_PROTO_ICMP then do { s \<leftarrow> icmp_input s p inp; Some (s, ERR_OK) }
         else if proto = ucast IP_PROTO_IGMP then do { s \<leftarrow> igmp_input s p inp (ih_dest iphdr); Some (s, ERR_OK) }
         else do {
           nf \<leftarrow> netifs s inp;
           s \<leftarrow> (if \<not> ip_addr_isbroadcast (ih_dest iphdr) nf \<and> \<not> ip_addr_ismulticast (ih_dest iphdr)
             then do {
               pb \<leftarrow> pbufs (mem s) p;
               icmp_dest_unreach (s\<lparr>mem := put_pbuf p (pb\<lparr>payload := iph\<rparr>) (mem s)\<rparr>) p ICMP_DUR_PROTO
             }
             else Some s);
           ip_input_drop s p
         }
       }
     }"

text \<open>The packet is sound and as long as its header says.\<close>

definition ip_input_accept :: "applications \<Rightarrow> stack \<Rightarrow> ptr \<Rightarrow> ptr \<Rightarrow> ip_hdr \<Rightarrow> (stack \<times> err) option" where
  "ip_input_accept app s p inp iphdr =
     do {
       nif \<leftarrow> ip_input_netif s (ih_dest iphdr) inp;
       nf \<leftarrow> netifs s inp;
       if ip_addr_isbroadcast (ih_src iphdr) nf \<or> ip_addr_ismulticast (ih_src iphdr) then ip_input_drop s p
       else if nif = NULL then ip_input_drop s p
       else do {
         (s, p) \<leftarrow> (if ih_offset iphdr AND htons (IP_OFFMASK OR IP_MF) \<noteq> 0 then ip_reass s p else Some (s, p));
         if p = NULL then Some (s, ERR_OK) else ip_input_deliver app s p inp
       }
     }"

definition ip_input :: "applications \<Rightarrow> stack \<Rightarrow> ptr \<Rightarrow> ptr \<Rightarrow> (stack \<times> err) option" where
  "ip_input app s p inp =
     do {
       pb \<leftarrow> pbufs (mem s) p;
       vhl \<leftarrow> mem_read16 (mem s) (payload pb);
       if drop_bit 12 (ntohs vhl) \<noteq> 4 then ip_input_drop s p
       else do {
         let iphdr_hlen = (drop_bit 8 (ntohs vhl) AND 0x0f) * 4;
         len \<leftarrow> mem_read16 (mem s) (ptr_add (payload pb) 2);
         let iphdr_len = ntohs len;
         if iphdr_hlen > p_len pb \<or> iphdr_len > tot_len pb then ip_input_drop s p
         else do {
           bs \<leftarrow> mem_read (mem s) (payload pb) (unat iphdr_hlen);
           if inet_chksum bs \<noteq> 0 then ip_input_drop s p
           else do {
             h \<leftarrow> pbuf_realloc (mem s) p iphdr_len;
             iphdr \<leftarrow> read_ip_hdr h (payload pb);
             ip_input_accept app (s\<lparr>mem := h\<rparr>) p inp iphdr
           }
         }
       }
     }"

end
