(* ===== verification/Pbuf_Cursor.thy ===== *)
theory Pbuf_Cursor
  imports Headers
begin

text \<open>
  Positions in the contents of a chain. Code that copies to a chain or encodes into one walks along it with a pbuf and an offset;
  this theory says which octet of the contents such a cursor is at, how it moves on and what a write there does to the
  contents. The copying of packets (\<^verbatim>\<open>pbuf_copy\<close>) is the first use.
\<close>

section \<open>Cursors\<close>

text \<open>No pbuf is empty. Code that goes on to the next pbuf at the end of one does not look at the length of that pbuf, so this is a
  condition of most of what follows.\<close>

definition no_empty :: "heap \<Rightarrow> ptr list \<Rightarrow> bool" where
  "no_empty h qs \<longleftrightarrow> (\<forall>q\<in>set qs. 0 < unat (p_len (pb h q)))"

text \<open>Every pbuf has a payload block to itself.\<close>

definition own_blocks :: "heap \<Rightarrow> ptr list \<Rightarrow> ptr list" where
  "own_blocks h qs = map (\<lambda>q. fst (payload (pb h q))) qs"

definition cursor :: "heap \<Rightarrow> ptr list \<Rightarrow> ptr \<Rightarrow> nat \<Rightarrow> nat \<Rightarrow> bool" where
  "cursor h qs p off k \<longleftrightarrow>
     (if p = NULL then off = 0 \<and> k = lens h qs
      else \<exists>xs ys. qs = xs @ p # ys \<and> k = lens h xs + off \<and> off < unat (p_len (pb h p)))"

lemma cursorE:
  assumes "cursor h qs p off k" "p \<noteq> NULL"
  obtains xs ys where "qs = xs @ p # ys" "k = lens h xs + off" "off < unat (p_len (pb h p))"
  using assms by (auto simp: cursor_def)

lemma cursor_start: "chain h p qs \<Longrightarrow> no_empty h qs \<Longrightarrow> cursor h qs p 0 0"
  by (cases qs) (fastforce simp: cursor_def no_empty_def intro: exI [of _ "[]"])+

lemma cursor_cong: "pbufs h' = pbufs h \<Longrightarrow> cursor h' qs p off k = cursor h qs p off k"
  by (simp add: cursor_def lens_def)

lemma chain_next:
  assumes "chain h p0 (xs @ p # ys)"
  shows "p \<noteq> NULL" "\<exists>b. pbufs h p = Some b \<and> chain h (p_next b) ys"
  using chain_suffix [OF assms] by auto

lemma cursor_live: "cursor h qs p off k \<Longrightarrow> p \<noteq> NULL \<Longrightarrow> chain h p0 qs \<Longrightarrow> \<exists>b. pbufs h p = Some b"
  using chain_next(2) by (metis cursorE)

lemma cursor_step:
  assumes "cursor h qs p off k" "p \<noteq> NULL" "chain h p0 qs" "no_empty h qs" "off + n \<le> unat (p_len (pb h p))"
  shows "if off + n = unat (p_len (pb h p)) then cursor h qs (p_next (pb h p)) 0 (k + n) else cursor h qs p (off + n) (k + n)"
proof (cases "off + n = unat (p_len (pb h p))")
  case False
  obtain xs ys where "qs = xs @ p # ys" "k = lens h xs + off"
    using assms(1,2) by (rule cursorE)
  with False assms(2,5) show ?thesis
    by (fastforce simp: cursor_def)
next
  case True
  obtain xs ys where qs: "qs = xs @ p # ys" "k = lens h xs + off"
    using assms(1,2) by (rule cursorE)
  obtain b where b: "pbufs h p = Some b" "chain h (p_next b) ys"
    using chain_next(2) assms(3) qs(1) by blast
  have k: "k + n = lens h (xs @ [p])"
    using True qs(2) by (simp add: lens_append)
  have "cursor h qs (p_next b) 0 (k + n)"
  proof (cases ys)
    case Nil
    then show ?thesis
      using b k qs(1) by (simp add: cursor_def)
  next
    case (Cons y zs)
    then have "p_next b = y" "y \<noteq> NULL" "0 < unat (p_len (pb h y))"
      using b assms(4) qs(1) by (auto simp: no_empty_def)
    moreover have "qs = (xs @ [p]) @ y # zs"
      using qs(1) Cons by simp
    ultimately show ?thesis
      unfolding cursor_def using k by (simp only: if_False) (intro exI [of _ "xs @ [p]"] exI [of _ zs], simp)
  qed
  then show ?thesis
    using True b(1) by simp
qed

lemma cursor_le: "cursor h qs p off k \<Longrightarrow> k \<le> lens h qs"
  by (auto simp: cursor_def lens_append split: if_splits)

lemma cursor_less: "cursor h qs p off k \<Longrightarrow> p \<noteq> NULL \<Longrightarrow> k < lens h qs"
  by (auto simp: cursor_def lens_append split: if_splits)

section \<open>Reading and writing at a cursor\<close>

lemma cursor_read:
  assumes "cursor h qs p off k" "p \<noteq> NULL" "chain_data h qs = Some bs" "off + n \<le> unat (p_len (pb h p))"
  shows "mem_read h (ptr_add (payload (pb h p)) off) n = Some (take n (drop k bs))"
proof -
  obtain xs ys where qs: "qs = xs @ p # ys" "k = lens h xs + off"
    using assms(1,2) by (rule cursorE)
  obtain a d e where d: "chain_data h xs = Some a" "pbuf_data h p = Some d" "bs = a @ d @ e"
    using assms(3) qs(1) by (auto simp: chain_data_append)
  have "length d = unat (p_len (pb h p))"
    using d(2) mem_read_length by (auto simp: pbuf_data_def)
  moreover have "length a = lens h xs"
    using d(1) by (rule chain_data_length)
  ultimately have "take n (drop k bs) = take n (drop off d)"
    using assms(4) qs(2) d(3) by simp
  then show ?thesis
    using mem_read_sub [of h "payload (pb h p)" _ d off n] d(2) assms(4) by (simp add: pbuf_data_def)
qed

lemma block_write_mid: "length a = n \<Longrightarrow> off + length ws \<le> length d \<Longrightarrow>
    block_write (a @ d @ e) (n + off) ws = a @ block_write d off ws @ e"
  by (simp add: block_write_def)

lemma block_write_part:
  assumes "off + length ws \<le> n" "i + n \<le> length m"
  shows "take n (drop i (block_write m (i + off) ws)) = block_write (take n (drop i m)) off ws"
proof -
  have "take i m @ take off (drop i m) = take (i + off) m"
    by (simp add: take_add)
  then have "block_write m (i + off) ws = take i m @ take off (drop i m) @ ws @ drop (i + off + length ws) m"
    by (simp add: block_write_def)
  moreover have "length (take i m) = i" "length (take off (drop i m)) = off"
    using assms by simp_all
  ultimately have "take n (drop i (block_write m (i + off) ws))
      = take off (drop i m) @ ws @ take (n - off - length ws) (drop (i + off + length ws) m)"
    using assms(1) by (simp add: diff_diff_eq)
  also have "drop (i + off + length ws) m = drop (off + length ws) (drop i m)"
    by (simp add: ac_simps)
  also have "take off (drop i m) @ ws @ take (n - off - length ws) (drop (off + length ws) (drop i m))
      = block_write (take n (drop i m)) off ws"
    using assms(1) by (simp only: block_write_def drop_take take_take min_def diff_diff_eq) simp
  finally show ?thesis .
qed

lemma cursor_write:
  assumes "cursor h qs p off k" "p \<noteq> NULL" "chain_data h qs = Some bs" "off + length ws \<le> unat (p_len (pb h p))"
    and "distinct (own_blocks h qs)"
  obtains buf where "mem_write h (ptr_add (payload (pb h p)) off) ws
      = Some (h\<lparr>blocks := (blocks h)(fst (payload (pb h p)) \<mapsto> buf)\<rparr>)"
    "chain_data (h\<lparr>blocks := (blocks h)(fst (payload (pb h p)) \<mapsto> buf)\<rparr>) qs = Some (block_write bs k ws)"
proof -
  let ?b = "pb h p"
  obtain xs ys where qs: "qs = xs @ p # ys" "k = lens h xs + off" and off: "off < unat (p_len ?b)"
    using assms(1,2) by (rule cursorE)
  obtain a d e where d: "chain_data h xs = Some a" "pbuf_data h p = Some d" "chain_data h ys = Some e" "bs = a @ d @ e"
    using assms(3) qs(1) by (auto simp: chain_data_append)
  obtain blk i m where m: "payload ?b = (blk, int i)" "blocks h blk = Some m" "i + unat (p_len ?b) \<le> length m"
    "d = take (unat (p_len ?b)) (drop i m)"
    using d(2) off by (cases "payload ?b") (auto simp: pbuf_data_def mem_read_def split: bind_splits if_splits elim!: nonneg_int_cases)
  define buf where "buf = block_write m (i + off) ws"
  let ?h = "h\<lparr>blocks := (blocks h)(fst (payload ?b) \<mapsto> buf)\<rparr>"
  have run: "mem_write h (ptr_add (payload ?b) off) ws = Some ?h"
    using m(1-3) assms(4) mem_write_at [of h blk m "i + off" ws] by (simp add: ptr_add_def buf_def)
  have "pbuf_data ?h p = Some (take (unat (p_len ?b)) (drop i buf))"
    using m(1,3) assms(4) mem_read_at [of ?h blk buf i "unat (p_len ?b)"] by (simp add: pbuf_data_def buf_def)
  then have mid: "pbuf_data ?h p = Some (block_write d off ws)"
    using block_write_part [OF assms(4) m(3)] m(4) by (simp add: buf_def)
  have "fst (payload ?b) \<notin> (\<lambda>q. fst (payload (pb h q))) ` (set xs \<union> set ys)"
    using assms(5) qs(1) by (simp add: own_blocks_def image_Un)
  then have ne: "fst (payload (pb h q)) \<noteq> fst (payload ?b)" if "q \<in> set xs \<union> set ys" for q
    using that by (metis image_eqI)
  have xs: "chain_data ?h xs = Some a"
    using d(1) by (rule chain_data_frame) (simp_all add: ne)
  have ys: "chain_data ?h ys = Some e"
    using d(3) by (rule chain_data_frame) (simp_all add: ne)
  have "chain_data ?h qs = Some (a @ block_write d off ws @ e)"
    unfolding qs(1) chain_data_append chain_data_Cons using xs ys mid by blast
  also have "a @ block_write d off ws @ e = block_write bs k ws"
    using block_write_mid [of a "lens h xs" off ws d e] chain_data_length [OF d(1)] m(3,4) assms(4) qs(2) d(4) by simp
  finally show ?thesis
    using run that by blast
qed

section \<open>Copying a packet\<close>

text \<open>In a packet without empty pbufs only the last one is as long as all that follow, so the test for a queue of packets fails.\<close>

lemma not_queue:
  assumes "packet h p0 (xs @ p # ys)" "no_empty h (xs @ p # ys)"
  shows "\<exists>b. pbufs h p = Some b \<and> \<not> (p_len b = tot_len b \<and> p_next b \<noteq> NULL)"
proof -
  have "tot_lens_ok h (p # ys)"
    using assms(1) by (induction xs arbitrary: p0) (auto simp: packet_def)
  moreover obtain b where b: "pbufs h p = Some b" "chain h (p_next b) ys"
    using chain_next(2) assms(1) unfolding packet_def by blast
  moreover have "0 < lens h ys" if "p_next b \<noteq> NULL"
    using that b(2) assms(2) by (cases ys) (auto simp: no_empty_def)
  ultimately show ?thesis
    by (cases "p_next b = NULL") auto
qed

lemma cursor_queue:
  assumes "cursor h qs p off k" "packet h p0 qs" "no_empty h qs"
  shows "p = NULL \<or> (\<exists>b. pbufs h p = Some b \<and> \<not> (p_len b = tot_len b \<and> p_next b \<noteq> NULL))"
proof (cases "p = NULL")
  case False
  then obtain xs ys where "qs = xs @ p # ys"
    using assms(1) by (auto elim: cursorE)
  then show ?thesis
    using not_queue [of h p0 xs p ys] assms(2,3) by simp
qed simp

lemma block_write_append:
  "k + length a + length b \<le> length T \<Longrightarrow> block_write (block_write T k a) (k + length a) b = block_write T k (a @ b)"
  by (simp add: block_write_def ac_simps)

text \<open>A copy in progress: the packets \<open>ts\<close> with contents \<open>T\<close> and \<open>fs\<close> with contents \<open>F\<close> share no memory.\<close>

definition copying :: "heap \<Rightarrow> ptr \<Rightarrow> ptr list \<Rightarrow> u8 list \<Rightarrow> ptr \<Rightarrow> ptr list \<Rightarrow> u8 list \<Rightarrow> bool" where
  "copying h t0 ts T f0 fs F \<longleftrightarrow> packet h t0 ts \<and> packet h f0 fs \<and> no_empty h ts \<and> no_empty h fs \<and> distinct (own_blocks h ts)
     \<and> set (own_blocks h ts) \<inter> set (own_blocks h fs) = {} \<and> chain_data h ts = Some T \<and> chain_data h fs = Some F"

lemma copyingD:
  assumes "copying h t0 ts T f0 fs F"
  shows "packet h t0 ts" "packet h f0 fs" "no_empty h ts" "no_empty h fs" "distinct (own_blocks h ts)"
    "set (own_blocks h ts) \<inter> set (own_blocks h fs) = {}" "chain_data h ts = Some T" "chain_data h fs = Some F" "chain h t0 ts" "chain h f0 fs"
    "length T = lens h ts" "length F = lens h fs"
  using assms chain_data_length [of h ts T] chain_data_length [of h fs F] unfolding copying_def packet_def by blast+

lemma copying_write:
  assumes "copying h t0 ts T f0 fs F" "a \<in> set (own_blocks h ts)" "chain_data (h\<lparr>blocks := (blocks h)(a \<mapsto> buf)\<rparr>) ts = Some T'"
  shows "copying (h\<lparr>blocks := (blocks h)(a \<mapsto> buf)\<rparr>) t0 ts T' f0 fs F"
proof -
  let ?h = "h\<lparr>blocks := (blocks h)(a \<mapsto> buf)\<rparr>"
  note c = copyingD [OF assms(1)]
  have "fst (payload (pb h q)) \<noteq> a" if "q \<in> set fs" for q
    using that c(6) assms(2) by (auto simp: own_blocks_def)
  then have "chain_data ?h fs = Some F"
    by (intro chain_data_frame [OF c(8)]) simp_all
  then show ?thesis
    using c(1-6) assms(3) packet_cong [of ts ?h h t0] packet_cong [of fs ?h h f0]
    by (simp add: copying_def no_empty_def own_blocks_def)
qed

text \<open>One round of the loop copies \<open>n\<close> octets.\<close>

lemma pbuf_copy_step:
  assumes c: "copying h t0 ts T f0 fs F"
    and cur: "cursor h ts t (unat xo) kt" "cursor h fs f (unat fo) kf" "t \<noteq> NULL" "f \<noteq> NULL"
  obtains n a buf t1 xo1 f1 fo1 where "0 < n" "a \<in> set (own_blocks h ts)"
    "pbuf_copy_loop h t f xo fo = (if f1 \<noteq> NULL then pbuf_copy_loop (h\<lparr>blocks := (blocks h)(a \<mapsto> buf)\<rparr>) t1 f1 xo1 fo1
       else Some (h\<lparr>blocks := (blocks h)(a \<mapsto> buf)\<rparr>, ERR_OK))"
    "cursor h ts t1 (unat xo1) (kt + n)" "cursor h fs f1 (unat fo1) (kf + n)"
    "copying (h\<lparr>blocks := (blocks h)(a \<mapsto> buf)\<rparr>) t0 ts (block_write T kt (take n (drop kf F))) f0 fs F"
proof -
  note d = copyingD [OF c]
  obtain tb fb where live: "pbufs h t = Some tb" "pbufs h f = Some fb"
    using cursor_live cur d(9,10) by metis
  have off: "unat xo < unat (p_len tb)" "unat fo < unat (p_len fb)"
    using cur live by (auto elim!: cursorE)
  define len where "len = (if int (unat (p_len tb)) - int (unat xo) \<ge> int (unat (p_len fb)) - int (unat fo)
      then p_len fb - fo else p_len tb - xo)"
  have "unat len = min (unat (p_len tb) - unat xo) (unat (p_len fb) - unat fo)"
    using off by (auto simp: len_def unat_sub word_le_nat_alt simp del: of_nat_unat simp flip: of_nat_diff)
  then have len: "unat xo + unat len \<le> unat (p_len tb)" "unat fo + unat len \<le> unat (p_len fb)" "0 < unat len"
    using off by linarith+
  have sums: "unat (xo + len) = unat xo + unat len" "unat (fo + len) = unat fo + unat len"
    using off len unat_lt [of "p_len tb"] unat_lt [of "p_len fb"] by (simp_all add: unat_word_ariths)
  define ws where "ws = take (unat len) (drop kf F)"
  have rd: "mem_read h (ptr_add (payload fb) (unat fo)) (unat len) = Some ws"
    using cursor_read [OF cur(2,4) d(8), of "unat len"] len live by (simp add: ws_def)
  then have "unat xo + length ws \<le> unat (p_len tb)"
    using mem_read_length len by fastforce
  then obtain buf where wr: "mem_write h (ptr_add (payload tb) (unat xo)) ws = Some (h\<lparr>blocks := (blocks h)(fst (payload tb) \<mapsto> buf)\<rparr>)"
    "chain_data (h\<lparr>blocks := (blocks h)(fst (payload tb) \<mapsto> buf)\<rparr>) ts = Some (block_write T kt ws)"
    using cursor_write [OF cur(1,3) d(7) _ d(5)] unfolding live option.sel by blast
  let ?h = "h\<lparr>blocks := (blocks h)(fst (payload tb) \<mapsto> buf)\<rparr>"
  define t1 xo1 where "t1 = (if xo + len = p_len tb then p_next tb else t)" and "xo1 = (if xo + len = p_len tb then 0 else xo + len)"
  define f1 fo1 where "f1 = (if fo + len \<ge> p_len fb then p_next fb else f)" and "fo1 = (if fo + len \<ge> p_len fb then 0 else fo + len)"
  have ct: "cursor h ts t1 (unat xo1) (kt + unat len)"
    using cursor_step [OF cur(1,3) d(9,3), of "unat len"] off len sums live
    by (auto simp: t1_def xo1_def word_unat_eq_iff split: if_splits)
  have cf: "cursor h fs f1 (unat fo1) (kf + unat len)"
    using cursor_step [OF cur(2,4) d(10,4), of "unat len"] off len sums live
    by (auto simp: f1_def fo1_def word_le_nat_alt split: if_splits)
  have "pbuf_copy_loop h t f xo fo = (if f1 \<noteq> NULL then pbuf_copy_loop ?h t1 f1 xo1 fo1 else Some (?h, ERR_OK))"
    using live rd wr(1) cur(3,4) cursor_queue [OF ct d(1,3)] cursor_queue [OF cf d(2,4)]
    by (subst pbuf_copy_loop.simps, cases "xo + len = p_len tb"; cases "fo + len \<ge> p_len fb"; cases "t1 = NULL"; cases "f1 = NULL")
       (auto simp: len_def [symmetric] Let_def t1_def xo1_def f1_def fo1_def simp del: of_nat_unat)
  moreover have a: "fst (payload tb) \<in> set (own_blocks h ts)"
    using cur(1,3) live by (auto simp: own_blocks_def elim!: cursorE intro: rev_image_eqI)
  moreover have "copying ?h t0 ts (block_write T kt (take (unat len) (drop kf F))) f0 fs F"
    using copying_write [OF c a wr(2)] by (simp add: ws_def)
  ultimately show ?thesis
    using that ct cf len(3) by blast
qed

lemma pbuf_copy_loop_copies:
  assumes "copying h t0 ts T f0 fs F" "cursor h ts t (unat xo) kt" "cursor h fs f (unat fo) kf" "t \<noteq> NULL" "f \<noteq> NULL"
    and "kt + (length F - kf) \<le> length T"
  shows "\<exists>B. pbuf_copy_loop h t f xo fo = Some (h\<lparr>blocks := B\<rparr>, ERR_OK)
    \<and> chain_data (h\<lparr>blocks := B\<rparr>) ts = Some (block_write T kt (drop kf F))
    \<and> (\<forall>a. a \<notin> set (own_blocks h ts) \<longrightarrow> B a = blocks h a)"
  using assms
proof (induction "length F - kf" arbitrary: h t f xo fo kt kf T rule: less_induct)
  case less
  obtain n a buf t1 xo1 f1 fo1 where n: "0 < n" and a: "a \<in> set (own_blocks h ts)"
    and run: "pbuf_copy_loop h t f xo fo = (if f1 \<noteq> NULL then pbuf_copy_loop (h\<lparr>blocks := (blocks h)(a \<mapsto> buf)\<rparr>) t1 f1 xo1 fo1
       else Some (h\<lparr>blocks := (blocks h)(a \<mapsto> buf)\<rparr>, ERR_OK))"
    and cur: "cursor h ts t1 (unat xo1) (kt + n)" "cursor h fs f1 (unat fo1) (kf + n)"
    and c: "copying (h\<lparr>blocks := (blocks h)(a \<mapsto> buf)\<rparr>) t0 ts (block_write T kt (take n (drop kf F))) f0 fs F"
    by (rule pbuf_copy_step [OF less.prems(1-5)])
  let ?h = "h\<lparr>blocks := (blocks h)(a \<mapsto> buf)\<rparr>"
  note d = copyingD [OF less.prems(1)]
  have kf: "kf + n \<le> length F" "kf < length F"
    using cursor_le [OF cur(2)] n d(12) by simp_all
  show ?case
  proof (cases "f1 = NULL")
    case True
    then have "take n (drop kf F) = drop kf F"
      using cur(2) d(12) by (auto simp: cursor_def)
    then show ?thesis
      using run True copyingD(7) [OF c] a by (intro exI [of _ "blocks ?h"]) auto
  next
    case False
    have kf1: "kf + n < length F"
      using cursor_less [OF cur(2) False] d(12) by simp
    then have t1: "t1 \<noteq> NULL"
      using cur(1) less.prems(6) d(11) by (intro notI) (simp add: cursor_def, linarith)
    have len: "length (take n (drop kf F)) = n"
      using kf by simp
    have "length F - (kf + n) < length F - kf" "kt + n + (length F - (kf + n)) \<le> length (block_write T kt (take n (drop kf F)))"
      using kf1 n less.prems(6) by simp_all
    note small = this
    have "cursor ?h ts t1 (unat xo1) (kt + n)" "cursor ?h fs f1 (unat fo1) (kf + n)"
      using cur cursor_cong [of ?h h] by simp_all
    note IH = less.hyps [OF small(1) c this t1 False small(2)]
    have "take n (drop kf F) @ drop (kf + n) F = drop kf F"
      using append_take_drop_id [of n "drop kf F"] by (simp add: add.commute)
    then have "block_write (block_write T kt (take n (drop kf F))) (kt + n) (drop (kf + n) F) = block_write T kt (drop kf F)"
      using block_write_append [of kt "take n (drop kf F)" "drop (kf + n) F" T] len less.prems(6) kf by simp
    moreover have "own_blocks ?h ts = own_blocks h ts"
      by (simp add: own_blocks_def)
    ultimately show ?thesis
      using IH run False a by auto
  qed
qed

text \<open>Copying fills the first octets of the target with the contents of the source and changes nothing else; a target that is too
  short is refused.\<close>

lemma pbuf_copy_packet:
  assumes "packet h t (t # ts)" "packet h f (f # fs)" "no_empty h (t # ts)" "no_empty h (f # fs)" "distinct (own_blocks h (t # ts))"
    and "set (own_blocks h (t # ts)) \<inter> set (own_blocks h (f # fs)) = {}"
    and "chain_data h (t # ts) = Some T" "chain_data h (f # fs) = Some F"
  shows "if length F \<le> length T
    then \<exists>B. pbuf_copy h t f = Some (h\<lparr>blocks := B\<rparr>, ERR_OK) \<and> chain_data (h\<lparr>blocks := B\<rparr>) (t # ts) = Some (F @ drop (length F) T)
      \<and> (\<forall>a. a \<notin> set (own_blocks h (t # ts)) \<longrightarrow> B a = blocks h a)
    else pbuf_copy h t f = Some (h, ERR_ARG)"
proof -
  obtain tb fb where b: "pbufs h t = Some tb" "pbufs h f = Some fb" "t \<noteq> NULL" "f \<noteq> NULL"
    "unat (tot_len tb) = length T" "unat (tot_len fb) = length F"
    using assms(1,2) chain_data_length [OF assms(7)] chain_data_length [OF assms(8)] by (auto simp: packet_Cons)
  have "cursor h (t # ts) t 0 0" "cursor h (f # fs) f 0 0"
    using assms(1-4) by (auto intro!: cursor_start simp: packet_def)
  then have "length F \<le> length T \<Longrightarrow> ?thesis"
    using pbuf_copy_loop_copies [of h t "t # ts" T f "f # fs" F t 0 0 f 0 0] assms b unfolding copying_def
    by (simp add: pbuf_copy_def word_le_nat_alt block_write_def)
  then show ?thesis
    using b by (auto simp: pbuf_copy_def word_le_nat_alt)
qed

text \<open>An empty pbuf at the end of the source is one round too many: when the octets before it fill the target, the loop goes on with the
  target pointer at NULL.\<close>

lemma pbuf_copy_empty_tail:
  assumes "t \<noteq> NULL" "pbufs h t = Some tb" "p_next tb = NULL" "f \<noteq> NULL" "pbufs h f = Some fb" "p_len fb = p_len tb" "tot_len fb \<le> tot_len tb"
    and "p_next fb \<noteq> NULL" "pbufs h (p_next fb) = Some e" "p_next e = NULL" "pbufs h NULL = None"
  shows "pbuf_copy h t f = None"
proof -
  have "pbuf_copy_loop h' NULL q 0 0 = None" if "pbufs h' = pbufs h" for h' q
    using that assms(11) by (subst pbuf_copy_loop.simps) simp
  moreover have "pbufs h' = pbufs h" if "mem_write h a ws = Some h'" for h' a ws
    using that by (auto simp: mem_write_def Let_def split: if_splits bind_splits)
  ultimately have "pbuf_copy_loop h t f 0 0 = None"
    using assms by (subst pbuf_copy_loop.simps) (auto simp: Let_def split: Option.bind_split)
  then show ?thesis
    using assms by (simp add: pbuf_copy_def)
qed

text \<open>C25. Copying a packet over another one, however both are divided into pbufs, as long as none of them is empty, no two of the target share a
  block and the source lies in other blocks: when the target is long enough its first octets become those of the source, the rest of its
  contents and every block that is not one of its payloads stay as they are, and no pbuf changes; otherwise nothing is changed and
  \<^verbatim>\<open>ERR_ARG\<close> is returned. (With an empty pbuf at the end of the source the code can dereference NULL, lemma
  \<open>pbuf_copy_empty_tail\<close>.)\<close>

theorem pbuf_copy_copies:
  assumes "packet h t (t # ts)" "packet h f (f # fs)" "no_empty h (t # ts)" "no_empty h (f # fs)" "distinct (own_blocks h (t # ts))"
    and "set (own_blocks h (t # ts)) \<inter> set (own_blocks h (f # fs)) = {}"
    and "chain_data h (t # ts) = Some T" "chain_data h (f # fs) = Some F"
  shows "if length F \<le> length T
    then \<exists>B. pbuf_copy h t f = Some (h\<lparr>blocks := B\<rparr>, ERR_OK) \<and> chain_data (h\<lparr>blocks := B\<rparr>) (t # ts) = Some (F @ drop (length F) T)
      \<and> (\<forall>a. a \<notin> set (own_blocks h (t # ts)) \<longrightarrow> B a = blocks h a)
    else pbuf_copy h t f = Some (h, ERR_ARG)"
  using assms by (rule pbuf_copy_packet)

theorem pbuf_copy_copies_witness:
  "\<exists>B. pbuf_copy three_pbufs 1 3 = Some (three_pbufs\<lparr>blocks := B\<rparr>, ERR_OK)
    \<and> chain_data (three_pbufs\<lparr>blocks := B\<rparr>) [1, 2] = Some [15, 11, 12, 13, 14]"
proof -
  have "chain_data three_pbufs [3] = Some [15]" "no_empty three_pbufs [1, 2]" "no_empty three_pbufs [3]"
    "own_blocks three_pbufs [1, 2] = [1, 2]" "own_blocks three_pbufs [3] = [3]"
    by (simp_all add: three_pbufs_def pbuf_data_def mem_read_def no_empty_def own_blocks_def)
  then show ?thesis
    using pbuf_copy_copies [of three_pbufs 1 "[2]" 3 "[]" "[10, 11, 12, 13, 14]" "[15]"] by fastforce
qed

end
