(* ===== verification/Icmp_Wire.thy ===== *)
theory Icmp_Wire
  imports Icmp Sample Ip_Wire Pbuf_Cursor
begin

text \<open>
  What ICMP puts on the wire: the answer to an echo request that arrives in one pbuf.
\<close>

unbundle bit_operations_syntax

section \<open>The checksum of the answer\<close>

lemma le_sum_0: "le_sum bs = 0 \<longleftrightarrow> (\<forall>x\<in>set bs. x = 0)"
  by (induction bs rule: le_sum.induct) (auto simp: unat_eq_zero)

lemma unat_mem_bytes16: "unat (ucast (c :: u16) :: u8) + 256 * unat (ucast (drop_bit 8 c) :: u8) = unat c"
proof -
  have "unat c div 256 < 256"
    using unat_lt [of c] by (simp add: less_mult_imp_div_less)
  then show ?thesis
    by (simp add: unat_ucast_mod unat_drop_bit_div)
qed

lemma rfc1071_0: "rfc1071 bs = 0 \<longleftrightarrow> le_sum bs \<noteq> 0 \<and> le_sum bs mod 65535 = 0"
proof -
  have "rfc1071 bs = 0 \<longleftrightarrow> ocsum (le_sum bs) = 65535"
    using ocsum_lt [of "le_sum bs"] by (auto simp: word_unat_eq_iff unat_rfc1071)
  also have "\<dots> \<longleftrightarrow> le_sum bs \<noteq> 0 \<and> le_sum bs mod 65535 = 0"
    by (cases "le_sum bs") (auto simp: ocsum_def mod_Suc)
  finally show ?thesis .
qed

lemma unat_icmp_echo_chksum:
  "unat (icmp_echo_chksum c) = (if unat c \<ge> 65527 then unat c - 65527 else unat c + 8)"
proof -
  have h: "htons (0xffff - push_bit 8 ICMP_ECHO) = 65527" "htons (push_bit 8 ICMP_ECHO) = 8"
    by (simp_all add: ICMP_ECHO_def htons_def)
  have "unat c < 65536" using unat_lt [of c] by simp
  moreover have "unat (c + 8 + 1) = unat c - 65527" if "65527 \<le> unat c"
  proof -
    have "unat (c + 8 + 1) = (unat c + 9) mod 65536"
      by (simp add: unat_word_ariths mod_simps) (simp add: add.commute)
    also have "\<dots> = (unat c - 65527 + 65536) mod 65536"
      using that by (simp add: add.commute)
    finally show ?thesis
      using \<open>unat c < 65536\<close> by simp
  qed
  moreover have "unat (c + 8) = unat c + 8" if "unat c < 65527"
    using that by (simp add: unat_word_ariths)
  ultimately show ?thesis
    by (simp add: icmp_echo_chksum_def h word_le_nat_alt)
qed

lemma echo_sum:
  fixes c n :: nat
  assumes "(8 + c + n) mod 65535 = 0" "c < 65536"
  defines "c' \<equiv> if c \<ge> 65527 then c - 65527 else c + 8"
  shows "c' + n \<noteq> 0 \<and> (c' + n) mod 65535 = 0 \<longleftrightarrow> n \<noteq> 0"
proof (cases "c \<ge> 65527")
  case True
  then have "8 + c + n = c' + n + 65535"
    by (simp add: c'_def)
  then have "(c' + n) mod 65535 = 0"
    using assms(1) by (simp only: mod_add_self2)
  moreover have "c' < 65535" if "n = 0"
    using assms(2) True by (simp add: c'_def)
  ultimately show ?thesis
    by (cases "n = 0") auto
next
  case False
  then have "c' + n = 8 + c + n" "c' < 65535" "c' \<noteq> 0"
    by (simp_all add: c'_def)
  then show ?thesis
    using assms(1) by (cases "n = 0") auto
qed

lemma le_sum_icmp: "le_sum ([t, code] @ mem_bytes16 c @ body) = unat t + 256 * unat code + unat c + le_sum body"
  using unat_mem_bytes16 [of c] by (simp add: mem_bytes16_def)

lemma icmp_echo_chksum_verifies:
  assumes "inet_chksum ([8, code] @ mem_bytes16 c @ body) = 0" "length body < 65532"
  shows "inet_chksum ([0, code] @ mem_bytes16 (icmp_echo_chksum c) @ body) = 0 \<longleftrightarrow> code \<noteq> 0 \<or> (\<exists>x\<in>set body. x \<noteq> 0)"
proof -
  define n where "n = 256 * unat code + le_sum body"
  have zero: "n = 0 \<longleftrightarrow> \<not> (code \<noteq> 0 \<or> (\<exists>x\<in>set body. x \<noteq> 0))"
    by (auto simp: n_def le_sum_0 unat_eq_zero)
  have sum: "inet_chksum ([t, code] @ mem_bytes16 w @ body) = 0 \<longleftrightarrow> unat t + unat w + n \<noteq> 0 \<and> (unat t + unat w + n) mod 65535 = 0" for t w
  proof -
    have "length ([t, code] @ mem_bytes16 w @ body) < 65536"
      using assms(2) by simp
    moreover have "unat t + unat w + n = le_sum ([t, code] @ mem_bytes16 w @ body)"
      unfolding le_sum_icmp n_def by linarith
    ultimately show ?thesis
      by (simp only: inet_chksum_eq rfc1071_0)
  qed
  have "(8 + unat c + n) mod 65535 = 0"
    using assms(1) unfolding sum by simp
  moreover have "unat c < 65536"
    using unat_lt [of c] by simp
  ultimately have "unat (icmp_echo_chksum c) + n \<noteq> 0 \<and> (unat (icmp_echo_chksum c) + n) mod 65535 = 0 \<longleftrightarrow> n \<noteq> 0"
    using echo_sum [of "unat c" n] unfolding unat_icmp_echo_chksum by simp
  then show ?thesis
    unfolding sum using zero by simp
qed

section \<open>The answer\<close>

lemma mem_write_mid:
  assumes "blocks h blk = Some (pre @ old @ post)" "length ws = length old" "i = int (length pre)"
  shows "mem_write h (blk, i) ws = Some (h\<lparr>blocks := (blocks h)(blk \<mapsto> pre @ ws @ post)\<rparr>)"
  unfolding assms(3) using assms(1,2) by (subst mem_write_at [OF assms(1)]) (simp_all add: block_write_def)

lemma mem_read_mid:
  assumes "blocks h blk = Some (pre @ bs @ post)" "n = length bs" "i = int (length pre)"
  shows "mem_read h (blk, i) n = Some bs"
  unfolding assms(3) using assms(2) by (subst mem_read_at [OF assms(1)]) simp_all

definition echo_hdr :: "ip_hdr \<Rightarrow> ip_hdr" where
  "echo_hdr iphdr = (let h = (IPH_TTL_SET ICMP_TTL (iphdr\<lparr>ih_src := ih_dest iphdr, ih_dest := ih_src iphdr\<rparr>))\<lparr>ih_chksum := 0\<rparr>
     in h\<lparr>ih_chksum := inet_chksum (ip_hdr_octets h)\<rparr>)"

lemma mem_bytes16_type: "mem_bytes16 (ICMPH_TYPE_SET ICMP_ER (load16w [t, code] 0)) = [0, code]"
proof -
  have "mem_bytes16 (ICMPH_TYPE_SET ICMP_ER w) = [0, ucast (drop_bit 8 w)]" for w
    unfolding ICMPH_TYPE_SET_def ICMP_ER_def u16_mask8 mem_bytes16_def
    by (auto simp: bit_simps bit_htons ntohs_def add.commute intro!: bit_word_eqI dest: bit_imp_le_length)
  then show ?thesis
    by (simp add: load16w_def)
qed

lemma icmp_echo_reply_block:
  assumes "blocks h blk = Some (pre @ ip_hdr_octets iphdr @ [t, code] @ mem_bytes16 c @ post)"
  shows "icmp_echo_reply h (blk, int (length pre)) (blk, int (length pre) + 20)
    = Some (h\<lparr>blocks := (blocks h)(blk \<mapsto> pre @ ip_hdr_octets (echo_hdr iphdr) @ [0, code] @ mem_bytes16 (icmp_echo_chksum c) @ post)\<rparr>)"
proof -
  define x where "x = iphdr\<lparr>ih_src := ih_dest iphdr, ih_dest := ih_src iphdr\<rparr>"
  define h1 where "h1 = h\<lparr>blocks := (blocks h)(blk \<mapsto> pre @ ip_hdr_octets x @ [t, code] @ mem_bytes16 c @ post)\<rparr>"
  define h2 where "h2 = h\<lparr>blocks := (blocks h)(blk \<mapsto> pre @ ip_hdr_octets x @ [0, code] @ mem_bytes16 c @ post)\<rparr>"
  define h3 where "h3 = h\<lparr>blocks := (blocks h)(blk \<mapsto> pre @ ip_hdr_octets x @ [0, code] @ mem_bytes16 (icmp_echo_chksum c) @ post)\<rparr>"
  have hdr: "mem_read h (blk, int (length pre)) 20 = Some (ip_hdr_octets iphdr)" "mem_read h3 (blk, int (length pre)) 20 = Some (ip_hdr_octets x)"
    using mem_read_mid [OF assms] mem_read_mid [of h3 blk pre "ip_hdr_octets x"] by (simp_all add: h3_def)
  have 1: "mem_write h (blk, int (length pre)) (ip_hdr_octets x) = Some h1"
    using mem_write_mid [OF assms, of "ip_hdr_octets x"] by (simp add: h1_def)
  have 2: "mem_read h1 (blk, int (length pre) + 20) 2 = Some [t, code]" "mem_write h1 (blk, int (length pre) + 20) [0, code] = Some h2"
    using mem_read_mid [of h1 blk "pre @ ip_hdr_octets x" "[t, code]" _ 2] mem_write_mid [of h1 blk "pre @ ip_hdr_octets x" "[t, code]"]
    by (simp_all add: h1_def h2_def)
  have 3: "mem_read h2 (blk, int (length pre) + 22) 2 = Some (mem_bytes16 c)"
      "mem_write h2 (blk, int (length pre) + 22) (mem_bytes16 (icmp_echo_chksum c)) = Some h3"
    using mem_read_mid [of h2 blk "pre @ ip_hdr_octets x @ [0, code]" "mem_bytes16 c"]
      mem_write_mid [of h2 blk "pre @ ip_hdr_octets x @ [0, code]" "mem_bytes16 c"]
    by (simp_all add: h2_def h3_def)
  have 4: "mem_write h3 (blk, int (length pre)) (ip_hdr_octets (echo_hdr iphdr))
      = Some (h\<lparr>blocks := (blocks h)(blk \<mapsto> pre @ ip_hdr_octets (echo_hdr iphdr) @ [0, code] @ mem_bytes16 (icmp_echo_chksum c) @ post)\<rparr>)"
    using mem_write_mid [of h3 blk pre "ip_hdr_octets x"] by (simp add: h3_def)
  have "load16w (mem_bytes16 c) 0 = c"
    by (simp add: load16w_def mem_bytes16_def)
  then show ?thesis
    using 1 2 3 [unfolded add.commute [of _ "22 :: int"]] 4 hdr
    by (simp add: icmp_echo_reply_def read_ip_hdr_def mem_read16_def mem_write16_def ptr_add_def mem_bytes16_type
      x_def [symmetric]) (simp add: echo_hdr_def Let_def x_def)
qed

lemma echo_hdr_fields:
  "ih_src (echo_hdr iphdr) = ih_dest iphdr" "ih_dest (echo_hdr iphdr) = ih_src iphdr" "IPH_TTL (echo_hdr iphdr) = 255"
  "inet_chksum (ip_hdr_octets (echo_hdr iphdr)) = 0"
proof -
  have "IPH_TTL (h\<lparr>ih_chksum := c\<rparr>) = IPH_TTL h" for h c
    by (simp add: IPH_TTL_def)
  then show "IPH_TTL (echo_hdr iphdr) = 255"
    by (simp add: echo_hdr_def Let_def ICMP_TTL_def)
qed (simp_all add: echo_hdr_def Let_def ip_hdr_chksum_verifies, simp_all add: IPH_TTL_SET_def)

text \<open>A message in one pbuf is accepted exactly when its checksum verifies, whatever its length.\<close>

lemma inet_chksum_pbuf_one:
  assumes "length m < 65536"
  shows "inet_chksum_pbuf [m] = 0 \<longleftrightarrow> inet_chksum m = 0"
proof -
  define acc where "acc = fold32 (ucast (lwip_standard_chksum m))"
  have acc: "unat acc < 65536"
    using fold32_oceq by (simp add: acc_def)
  have "acc AND 0xffff = acc"
    using unat_and_mask_mod [of acc 16] acc by (simp add: word_unat_eq_iff mask_eq_exp_minus_1)
  moreover have dist: "acc AND x OR acc AND y = acc AND (x OR y)" for x y
    by (rule bit_word_eqI) (auto simp: bit_and_iff bit_or_iff)
  moreover have "acc AND 0xff00 OR acc AND 0xff = acc AND 0xffff"
    using dist [of "0xff00" "0xff"] by simp
  ultimately have mask: "acc AND 0xff00 OR acc AND 0xff = acc"
    by simp
  have "unat acc div 256 < 256" "unat acc mod 256 < 256" "unat acc = 256 * (unat acc div 256) + unat acc mod 256"
    using acc by (simp_all add: less_mult_imp_div_less)
  then have "unat acc mod 256 * 256 + unat acc div 256 = 65535 \<longleftrightarrow> unat acc = 65535"
    by linarith
  then have "unat (swap32 acc) = 65535 \<longleftrightarrow> unat acc = 65535"
    unfolding unat_swap32 [OF acc] .
  moreover have "unat (swap32 acc) < 65536"
    using swap32_oceq(1) [OF acc] .
  moreover have "inet_chksum_pbuf [m] = ucast (NOT ((if length m mod 2 \<noteq> 0 then swap32 acc else acc) AND 0xffff))"
    by (simp add: inet_chksum_pbuf_def acc_def [symmetric] Let_def mask)
  moreover have "inet_chksum m = ucast (NOT (acc AND 0xffff))"
    by (simp add: inet_chksum_def acc_def Let_def)
  moreover have "ucast (NOT (x AND 0xffff)) = (0 :: u16) \<longleftrightarrow> unat x = 65535" if "unat x < 65536" for x :: u32
    using unat_finish [OF that] that by (simp only: word_unat_eq_iff) auto
  ultimately show ?thesis
    using acc by simp
qed

section \<open>Sending it\<close>

lemma icmp_echo_room_in_place:
  assumes "laid_out (mem s) p b qs bs blk buf i" "34 \<le> i" "length bs + 34 < 65536"
  shows "icmp_echo_room s p iph hlen = Some (s, Some (p, iph))"
proof -
  note f = laid_outD [OF assms(1)]
  let ?b = "shown_more b blk i 34"
  have room: "of_nat (20 + PBUF_LINK_HLEN) = (34 :: u16)"
    by (simp add: PBUF_LINK_HLEN_def)
  have 1: "pbuf_header_s s p 34 = Some (s\<lparr>mem := put_pbuf p ?b (mem s)\<rparr>, False)"
    and lay: "laid_out (put_pbuf p ?b (mem s)) p ?b qs (take 34 (drop (i - 34) buf) @ bs) blk buf (i - 34)"
    using laid_out_reveal [OF assms(1), of 34] assms(2,3) by (simp_all add: pbuf_header_s_def)
  have "unat (p_len ?b) = unat (p_len b) + 34"
    using f(4) assms(3) by (simp add: shown_more_def unat_word_ariths)
  moreover have "put_pbuf p (shown_less ?b blk (i - 34) 34) (put_pbuf p ?b (mem s)) = mem s"
    using f(2,7) assms(2) by (simp add: put_pbuf_def shown_less_def shown_more_def fun_upd_idem)
  ultimately have "pbuf_header_s (s\<lparr>mem := put_pbuf p ?b (mem s)\<rparr>) p (- 34) = Some (s, False)"
    using pbuf_header_hide [OF lay, of 34] by (simp add: pbuf_header_s_def)
  then show ?thesis
    unfolding icmp_echo_room_def room by (simp add: Let_def 1)
qed

lemma laid_out_read_hdr:
  assumes "laid_out h p b qs (ip_hdr_octets hdr @ bs) blk buf i" "20 \<le> unat (p_len b)"
  shows "read_ip_hdr h (blk, int i) = Some hdr"
proof -
  note f = laid_outD [OF assms(1)]
  obtain e where e: "ip_hdr_octets hdr @ bs = take (unat (p_len b)) (drop i buf) @ e"
    using f(9) by blast
  have "take 20 (drop i buf) = take 20 (ip_hdr_octets hdr @ bs)"
    unfolding e using assms(2) f(8) by (simp add: min_def) linarith
  moreover have "mem_read h (blk, int i) 20 = Some (take 20 (drop i buf))"
    using assms f(8) by (intro mem_read_at) (simp_all add: laid_out_def)
  ultimately show ?thesis
    by (simp add: read_ip_hdr_def)
qed

lemma ip_output_if_hdrincl:
  assumes "laid_out (mem s) p b qs (ip_hdr_octets hdr @ bs) blk buf i" "20 \<le> unat (p_len b)" "netifs s nif = Some nf"
    and "nf_mtu nf = 0 \<or> 20 + length bs \<le> unat (nf_mtu nf)"
  shows "ip_output_if s p [] src None t t' proto nif
    = Some (s\<lparr>link := link s @ [Output nif (ip_hdr_octets hdr @ bs) (ih_dest hdr)]\<rparr>, drv_err s (length (link s)))"
proof -
  note f = laid_outD [OF assms(1)]
  obtain xs where xs: "pbuf_octets (mem s) p = Some xs" "concat xs = ip_hdr_octets hdr @ bs"
    using laid_out_octets [OF assms(1)] by blast
  have "\<not> (nf_mtu nf \<noteq> 0 \<and> tot_len b > nf_mtu nf)"
    using assms(4) f(3) by (auto simp: word_less_nat_alt)
  moreover have "mem_write (mem s) (blk, int i) [] = Some (mem s)"
    by (simp add: mem_write_def)
  ultimately show ?thesis
    using laid_out_read_hdr [OF assms(1,2)] xs assms(3) f(2,7)
    by (auto simp: ip_output_if_def ip_transmit_def netif_output_def Let_def)
qed

lemma pbuf_free_last:
  assumes "pbufs (mem s) p = Some b" "p \<noteq> NULL" "p_next b = NULL" "p_ref b = 1"
  shows "\<exists>h'. pbuf_free_s s p = Some (s\<lparr>mem := h'\<rparr>, 1) \<and> pbufs h' = (pbufs (mem s))(p := None)"
  using assms by (intro exI [of _ "pbuf_dealloc (mem s) p (p_type b)"])
    (simp add: pbuf_free_s_def pbuf_free_def pbuf_free_loop.simps pbuf_dealloc_def mem_free_pbuf_def mem_free_struct_def)

lemma laid_out_one:
  assumes "laid_out h p b [] bs blk buf i"
  shows "unat (p_len b) = length bs" "pbuf_octets h p = Some [bs]"
proof -
  note f = laid_outD [OF assms]
  show len: "unat (p_len b) = length bs"
    using f(8,9) by auto
  have "mem_read h (blk, int i) (unat (p_len b)) = Some bs"
    using assms f(8,9) mem_read_at [of h blk buf i "unat (p_len b)"] by (auto simp: laid_out_def)
  then show "pbuf_octets h p = Some [bs]"
    using f(1,2,6,7) by (subst pbuf_octets.simps) (simp add: pbuf_octets.simps)
qed

lemma echo_reply_laid_out:
  assumes "laid_out h p b [] ([8, code] @ mem_bytes16 c @ body) blk (pre @ ip_hdr_octets iphdr @ [8, code] @ mem_bytes16 c @ body @ post) (length pre + 20)"
  defines "msg' \<equiv> [0, code] @ mem_bytes16 (icmp_echo_chksum c) @ body"
  shows "\<exists>h'. icmp_echo_reply h (blk, int (length pre)) (blk, int (length pre) + 20) = Some h'
    \<and> laid_out h' p b [] msg' blk (pre @ ip_hdr_octets (echo_hdr iphdr) @ msg' @ post) (length pre + 20) \<and> pbufs h' = pbufs h"
proof -
  let ?buf = "pre @ ip_hdr_octets (echo_hdr iphdr) @ msg' @ post"
  let ?h = "h\<lparr>blocks := (blocks h)(blk \<mapsto> ?buf)\<rparr>"
  have "icmp_echo_reply h (blk, int (length pre)) (blk, int (length pre) + 20) = Some ?h"
    using icmp_echo_reply_block [of h blk pre iphdr 8 code c "body @ post"] assms(1) by (simp add: laid_out_def msg'_def)
  moreover have "laid_out ?h p b [] msg' blk ?buf (length pre + 20)"
    using laid_outD [OF assms(1)] laid_out_one(1) [OF assms(1)]
    by (intro laid_out_change [OF assms(1)]) (simp_all add: msg'_def)
  moreover have "pbufs ?h = pbufs h"
    by simp
  ultimately show ?thesis
    by blast
qed

text \<open>A layout with the octets in front of the payload and behind it.\<close>

lemma laid_out_oneE:
  assumes "laid_out h p b [] bs blk buf i"
  obtains pre post where "buf = pre @ bs @ post" "length pre = i"
proof
  note f = laid_outD [OF assms]
  have "bs = take (unat (p_len b)) (drop i buf)"
    using f(9) by simp
  then show "buf = take i buf @ bs @ drop (i + unat (p_len b)) buf"
    by (metis add.commute append_take_drop_id drop_drop)
  show "length (take i buf) = i"
    using f(8) by simp
qed

lemma laid_out_one_cong:
  assumes "laid_out h p b [] bs blk buf i" "pbufs h' p = pbufs h p" "blocks h' blk = blocks h blk"
  shows "laid_out h' p b [] bs blk buf i"
  using assms by (auto simp: laid_out_def packet_def pbuf_data_def mem_read_def)

text \<open>A fresh pbuf takes a copy of a packet in one pbuf.\<close>

lemma pbuf_copy_fresh:
  assumes lay: "laid_out h p b [] bs blk buf i" and ok: "heap_ok h" "mem_ok h (brk h)" and "bs \<noteq> []"
  obtains h' r buf' where "r \<noteq> p" "r \<noteq> NULL"
    "\<exists>h1. pbuf_alloc h l (tot_len b) PBUF_RAM = Some (h1, r) \<and> pbuf_copy h1 r p = Some (h', ERR_OK)"
    "pbufs h' p = Some b" "laid_out h' r \<lparr>p_next = NULL, payload = (r, int (pbuf_offset l)), tot_len = tot_len b, p_len = tot_len b, p_type = PBUF_RAM,
       p_flags = 0, p_ref = 1\<rparr> [] bs r buf' (pbuf_offset l)"
proof -
  note f = laid_outD [OF lay] and one = laid_out_one [OF lay]
  define r where "r = brk h"
  define rb where "rb = \<lparr>p_next = NULL, payload = (r, int (pbuf_offset l)), tot_len = tot_len b, p_len = tot_len b, p_type = PBUF_RAM, p_flags = 0, p_ref = 1\<rparr>"
  define h1 where "h1 = put_pbuf r rb (h\<lparr>brk := brk h + 1, blocks := (blocks h)(r \<mapsto> map (junk h r) [0..<pbuf_offset l + unat (tot_len b)])\<rparr>)"
  have r: "r \<noteq> NULL" "p \<noteq> r" "blk \<noteq> r"
    using ok f(2) lay by (auto simp: heap_ok_def r_def laid_out_def)
  have alloc: "pbuf_alloc h l (tot_len b) PBUF_RAM = Some (h1, r)"
    using ok r(1) by (simp add: pbuf_alloc_def mem_malloc_pbuf_def Let_def h1_def rb_def r_def)
  have tot: "tot_len b = p_len b" "unat (tot_len b) = length bs"
    using f(3) one(1) by (simp_all add: word_unat_eq_iff)
  have p1: "pbufs h1 p = Some b" "pbufs h1 r = Some rb"
    using f(2) r by (simp_all add: h1_def)
  have "mem_read h1 (r, int (pbuf_offset l)) (length bs) = Some (take (length bs) (drop (pbuf_offset l) (map (junk h r) [0..<pbuf_offset l + unat (tot_len b)])))"
    using mem_read_at [of h1 r "map (junk h r) [0..<pbuf_offset l + unat (tot_len b)]" "pbuf_offset l" "length bs"] tot by (simp add: h1_def)
  then obtain T where T: "chain_data h1 [r] = Some T" "length T = length bs"
    using p1(2) tot by (auto simp: pbuf_data_def rb_def)
  have "chain_data h [p] = Some bs"
    using lay by (simp add: laid_out_def)
  then have F: "chain_data h1 [p] = Some bs"
    using f(2,7) r by (rule_tac chain_data_frame [where h = h]) (simp_all add: h1_def)
  have "packet h1 r [r]" "packet h1 p [p]" "no_empty h1 [r]" "no_empty h1 [p]"
    using p1 r f(1,6) tot one(1) \<open>bs \<noteq> []\<close> by (auto simp: packet_def no_empty_def rb_def)
  moreover have "set (own_blocks h1 [r]) \<inter> set (own_blocks h1 [p]) = {}" "own_blocks h1 [r] = [r]"
    using p1 f(7) r by (simp_all add: own_blocks_def rb_def)
  ultimately obtain B where B: "pbuf_copy h1 r p = Some (h1\<lparr>blocks := B\<rparr>, ERR_OK)" "chain_data (h1\<lparr>blocks := B\<rparr>) [r] = Some bs"
    using pbuf_copy_packet [of h1 r "[]" p "[]" T bs] T F by auto
  have "0 < length bs"
    using \<open>bs \<noteq> []\<close> by simp
  then obtain buf' where "B r = Some buf'" "pbuf_offset l + length bs \<le> length buf'"
    using B(2) p1(2) tot by (auto simp: pbuf_data_def rb_def mem_read_def split: bind_splits if_splits)
  then have "laid_out (h1\<lparr>blocks := B\<rparr>) r rb [] bs r buf' (pbuf_offset l)"
    using B(2) p1(2) r tot one(1) by (simp add: laid_out_def packet_def rb_def)
  then show ?thesis
    using that [of r "h1\<lparr>blocks := B\<rparr>" buf'] r alloc B(1) p1(1) unfolding rb_def by auto
qed

lemma icmp_echo_room_copied:
  assumes lay: "laid_out (mem s) p b [] msg blk (pre @ ip_hdr_octets iphdr @ msg @ post) (length pre + 20)" and "length pre < 14"
    and ok: "heap_ok (mem s)" "mem_ok (mem s) (brk (mem s))" and ref: "p_ref b = 1" and "length msg < 65502"
  obtains h' r b' pre' post' where "icmp_echo_room s p iph 20 = Some (s\<lparr>mem := h'\<rparr>, Some (r, r, 14))"
    "pbufs h' p = None" "r \<noteq> p" "p_ref b' = 1" "length pre' = 14"
    "laid_out h' r b' [] msg r (pre' @ ip_hdr_octets iphdr @ msg @ post') (length pre' + 20)"
proof -
  note f = laid_outD [OF lay]
  let ?buf = "pre @ ip_hdr_octets iphdr @ msg @ post" and ?i = "length pre"
  have room: "of_nat (20 + PBUF_LINK_HLEN) = (34 :: u16)"
    by (simp add: PBUF_LINK_HLEN_def)
  have 1: "pbuf_header_s s p 34 = Some (s, True)"
    using f(1,2,7) lay assms(2) by (auto simp: pbuf_header_s_def pbuf_header_def laid_out_def Let_def)
  define b0 where "b0 = shown_more b blk (?i + 20) 20"
  define h0 where "h0 = put_pbuf p b0 (mem s)"
  have 2: "pbuf_header_s s p 20 = Some (s\<lparr>mem := h0\<rparr>, False)" and lay0: "laid_out h0 p b0 [] (ip_hdr_octets iphdr @ msg) blk ?buf ?i"
    using laid_out_reveal [OF lay, of 20] assms(6) by (simp_all add: pbuf_header_s_def h0_def b0_def)
  have "heap_ok h0" "mem_ok h0 (brk h0)" "ip_hdr_octets iphdr @ msg \<noteq> []"
    using ok f(1,2) length_ip_hdr_octets [of iphdr] by (auto simp: heap_ok_def h0_def)
  from pbuf_copy_fresh [OF lay0 this, of PBUF_LINK, unfolded pbuf_offset_def PBUF_LINK_HLEN_def pbuf_layer.case of_nat_numeral] obtain h2 r buf2 h1 where r: "r \<noteq> p" "r \<noteq> NULL"
    and 3: "pbuf_alloc h0 PBUF_LINK (tot_len b0) PBUF_RAM = Some (h1, r)" "pbuf_copy h1 r p = Some (h2, ERR_OK)" and p2: "pbufs h2 p = Some b0"
    and lay2: "laid_out h2 r \<lparr>p_next = NULL, payload = (r, 14), tot_len = tot_len b0, p_len = tot_len b0, p_type = PBUF_RAM,
       p_flags = 0, p_ref = 1\<rparr> [] (ip_hdr_octets iphdr @ msg) r buf2 14" (is "laid_out h2 r ?rb _ _ r buf2 14")
    by metis
  define rb where "rb = shown_less ?rb r 14 20"
  define h3 where "h3 = put_pbuf r rb h2"
  have len: "20 \<le> unat (p_len ?rb)"
    using laid_out_one(1) [OF lay2] by simp
  have 4: "pbuf_header_s (s\<lparr>mem := h2\<rparr>) r (- 20) = Some (s\<lparr>mem := h3\<rparr>, False)" and lay3: "laid_out h3 r rb [] msg r buf2 34"
    using pbuf_header_hide [OF lay2 len] laid_out_hide [OF lay2 len] by (simp_all add: h3_def rb_def pbuf_header_s_def)
  define h4 where "h4 = pbuf_dealloc h3 p (p_type b0)"
  have 5: "pbuf_free_s (s\<lparr>mem := h3\<rparr>) p = Some (s\<lparr>mem := h4\<rparr>, 1)" and gone: "pbufs h4 p = None"
    using p2 r f(1,6) ref by (simp_all add: pbuf_free_s_def pbuf_free_def pbuf_free_loop.simps h3_def h4_def b0_def shown_more_def dealloc_heap)
  have "laid_out h4 r rb [] msg r buf2 34"
    using r by (intro laid_out_one_cong [OF lay3]) (auto simp: h4_def pbuf_dealloc_def mem_free_pbuf_def mem_free_struct_def)
  moreover obtain pre' post' where "buf2 = pre' @ (ip_hdr_octets iphdr @ msg) @ post'" "length pre' = 14"
    using laid_out_oneE [OF lay2] by metis
  moreover have "icmp_echo_room s p iph 20 = Some (s\<lparr>mem := h4\<rparr>, Some (r, r, 14))"
    using 1 2 3 4 5 p2 r laid_outD(2) [OF lay2] laid_outD(2) [OF lay0]
    unfolding icmp_echo_room_def room by (simp add: Let_def pbuf_alloc_s_def)
  ultimately show ?thesis
    using that [of h4 r rb pre' post'] gone r by (simp add: rb_def shown_less_def)
qed

text \<open>With room in front or memory for a copy there is a packet to answer in.\<close>

lemma icmp_echo_room_found:
  assumes lay: "laid_out (mem s) p b [] msg blk (pre @ ip_hdr_octets iphdr @ msg @ post) (length pre + 20)"
    and room: "14 \<le> length pre \<or> heap_ok (mem s) \<and> mem_ok (mem s) (brk (mem s))" and "p_ref b = 1" "length msg < 65502"
  obtains h' r b' blk' pre' post' where "icmp_echo_room s p (blk, int (length pre)) 20 = Some (s\<lparr>mem := h'\<rparr>, Some (r, blk', int (length pre')))"
    "r = p \<or> pbufs h' p = None" "p_ref b' = 1"
    "laid_out h' r b' [] msg blk' (pre' @ ip_hdr_octets iphdr @ msg @ post') (length pre' + 20)"
proof (cases "14 \<le> length pre")
  case True
  then have "icmp_echo_room s p (blk, int (length pre)) 20 = Some (s, Some (p, blk, int (length pre)))"
    using assms(4) by (intro icmp_echo_room_in_place [OF lay]) simp_all
  then show ?thesis
    using that [of "mem s" p blk pre b post] lay assms(3) by simp
next
  case False
  with room have pre: "length pre < 14" "heap_ok (mem s)" "mem_ok (mem s) (brk (mem s))"
    by simp_all
  obtain h' r b' pre' post' where r: "icmp_echo_room s p (blk, int (length pre)) 20 = Some (s\<lparr>mem := h'\<rparr>, Some (r, r, 14))"
    "pbufs h' p = None" "p_ref b' = 1" "length pre' = 14"
    "laid_out h' r b' [] msg r (pre' @ ip_hdr_octets iphdr @ msg @ post') (length pre' + 20)"
    by (rule icmp_echo_room_copied [OF lay pre assms(3,4)])
  show ?thesis
    by (rule that [of h' r r pre' b' post']) (use r in simp_all)
qed

text \<open>The second half of the echo case: the answer is made, goes out and is freed.\<close>

lemma echo_sends:
  assumes lay: "laid_out h p b [] ([8, code] @ mem_bytes16 c @ body) blk
      (pre @ ip_hdr_octets iphdr @ [8, code] @ mem_bytes16 c @ body @ post) (length pre + 20)"
    and "p_ref b = 1" "length body < 65478" "netifs s inp = Some nf" "nf_mtu nf = 0 \<or> 24 + length body \<le> unat (nf_mtu nf)"
  defines "msg' \<equiv> [0, code] @ mem_bytes16 (icmp_echo_chksum c) @ body"
  shows "\<exists>h2 h3 hdr s3 h'. icmp_echo_reply h (blk, int (length pre)) (blk, int (length pre) + 20) = Some h2
    \<and> pbuf_header h2 p 20 = Some (h3, False) \<and> read_ip_hdr h3 (blk, int (length pre)) = Some hdr
    \<and> (\<forall>src t t' proto. ip_output_if (s\<lparr>mem := h3\<rparr>) p [] src None t t' proto inp = Some (s3, drv_err s (length (link s))))
    \<and> link s3 = link s @ [Output inp (ip_hdr_octets (echo_hdr iphdr) @ msg') (ih_src iphdr)]
    \<and> pbuf_free_s s3 p = Some (s3\<lparr>mem := h'\<rparr>, 1) \<and> pbufs h' = (pbufs h)(p := None)"
proof -
  let ?hdr = "echo_hdr iphdr" and ?i = "length pre"
  let ?buf = "pre @ ip_hdr_octets ?hdr @ msg' @ post" and ?b = "shown_more b blk (?i + 20) 20"
  obtain h2 where reply: "icmp_echo_reply h (blk, int ?i) (blk, int ?i + 20) = Some h2"
    and lay2: "laid_out h2 p b [] msg' blk ?buf (?i + 20)" and same: "pbufs h2 = pbufs h"
    using echo_reply_laid_out [OF lay] unfolding msg'_def by blast
  define h3 where "h3 = put_pbuf p ?b h2"
  have msg': "length msg' = 4 + length body"
    by (simp add: msg'_def)
  have hd: "pbuf_header h2 p 20 = Some (h3, False)" and lay3: "laid_out h3 p ?b [] (ip_hdr_octets ?hdr @ msg') blk ?buf ?i"
    using laid_out_reveal [OF lay2, of 20] assms(3) msg' by (simp_all add: h3_def)
  have len: "20 \<le> unat (p_len ?b)"
    using laid_out_one(1) [OF lay3] by simp
  define s3 where "s3 = s\<lparr>mem := h3, link := link s @ [Output inp (ip_hdr_octets ?hdr @ msg') (ih_src iphdr)]\<rparr>"
  have "ip_output_if (s\<lparr>mem := h3\<rparr>) p [] src None t t' proto inp = Some (s3, drv_err s (length (link s)))" for src t t' proto
    using ip_output_if_hdrincl [of "s\<lparr>mem := h3\<rparr>" p ?b "[]" ?hdr msg' blk ?buf ?i inp nf src t t' proto] lay3 len assms(4,5) msg'
    by (simp add: s3_def echo_hdr_fields)
  moreover obtain h' where "pbuf_free_s s3 p = Some (s3\<lparr>mem := h'\<rparr>, 1)" "pbufs h' = (pbufs h)(p := None)"
    using pbuf_free_last [of s3 p ?b] laid_outD(1,2,6) [OF lay3] assms(2) same by (auto simp: s3_def shown_more_def h3_def)
  ultimately show ?thesis
    using reply hd laid_out_read_hdr [OF lay3 len] by (intro exI conjI allI) (auto simp: s3_def)
qed

text \<open>An echo request that arrives in one pbuf, with room for a link header in front of it or memory for a copy, is answered: one packet goes back to
  the sender with the addresses exchanged, a fresh time to live, a header checksum that verifies, the type changed to echo reply and
  identifier, sequence number and data as they came; the pbuf is freed. The checksum of the message is adjusted without
  reading the data, and the result verifies exactly when the code, the identifier, the sequence number and the data are
  not all zero: the all-zero message gets the checksum 0 where 0xffff is right.\<close>

lemma icmp_echo_answered:
  assumes "laid_out (mem s) p b [] (ip_hdr_octets iphdr @ [8, code] @ mem_bytes16 c @ body) blk buf i"
    and "14 \<le> i \<or> heap_ok (mem s) \<and> mem_ok (mem s) (brk (mem s))" "p_ref b = 1" and "IPH_HL iphdr = 5" "4 \<le> length body" "length body < 65478" "inet_chksum ([8, code] @ mem_bytes16 c @ body) = 0"
    and "netifs s inp = Some nf" "\<not> ip_addr_isbroadcast (ih_dest iphdr) nf" "\<not> ip_addr_ismulticast (ih_dest iphdr)"
    and "nf_mtu nf = 0 \<or> 24 + length body \<le> unat (nf_mtu nf)"
  shows "\<exists>s' hdr c'. icmp_input s p inp = Some s' \<and> pbufs (mem s') p = None
    \<and> link s' = link s @ [Output inp (ip_hdr_octets hdr @ [0, code] @ mem_bytes16 c' @ body) (ih_src iphdr)]
    \<and> ih_src hdr = ih_dest iphdr \<and> ih_dest hdr = ih_src iphdr \<and> IPH_TTL hdr = 255 \<and> inet_chksum (ip_hdr_octets hdr) = 0
    \<and> (inet_chksum ([0, code] @ mem_bytes16 c' @ body) = 0 \<longleftrightarrow> code \<noteq> 0 \<or> (\<exists>x\<in>set body. x \<noteq> 0))"
proof -
  define msg where "msg = [8, code] @ mem_bytes16 c @ body"
  define msg' where "msg' = [0, code] @ mem_bytes16 (icmp_echo_chksum c) @ body"
  have lmsg: "length msg = 4 + length body" "length msg' = 4 + length body"
    by (simp_all add: msg_def msg'_def)
  have lay: "laid_out (mem s) p b [] (ip_hdr_octets iphdr @ msg) blk buf i"
    using assms(1) by (simp add: msg_def)
  obtain pre post where buf: "buf = pre @ (ip_hdr_octets iphdr @ msg) @ post" and i: "i = length pre"
    using laid_out_oneE [OF lay] by metis
  note f = laid_outD [OF lay]
  define b1 where "b1 = shown_less b blk i 20"
  define h1 where "h1 = put_pbuf p b1 (mem s)"
  have hd1: "pbuf_header (mem s) p (- 20) = Some (h1, False)" and lay1: "laid_out h1 p b1 [] msg blk buf (i + 20)"
    using pbuf_header_hide [OF lay, of 20] laid_out_hide [OF lay, of 20] laid_out_one(1) [OF lay] lmsg by (simp_all add: h1_def b1_def)
  note f1 = laid_outD [OF lay1]
  have rd: "read_ip_hdr (mem s) (blk, int i) = Some iphdr" "read_ip_hdr h1 (blk, int i) = Some iphdr"
    using laid_out_read_hdr [OF lay] laid_out_one(1) [OF lay] by (simp_all add: read_ip_hdr_def mem_read_def h1_def)
  have type: "mem_read h1 (blk, int (i + 20)) 1 = Some [8]"
    using mem_read_mid [of h1 blk "pre @ ip_hdr_octets iphdr" "[8]" _ 1] buf i lay1 by (simp add: laid_out_def msg_def)
  have tot: "\<not> tot_len b1 < 8" "\<not> tot_len b1 < 4"
    using f1(3) lmsg assms(5) by (simp_all add: word_less_nat_alt)
  have ok: "inet_chksum_pbuf [msg] = 0"
    using assms(6,7) lmsg by (simp add: inet_chksum_pbuf_one) (simp add: msg_def)
  have "14 \<le> length pre \<or> heap_ok h1 \<and> mem_ok h1 (brk h1)"
    using assms(2) f(1,2) by (auto simp: i h1_def heap_ok_def)
  then obtain hr r br blkr prer postr
    where room: "icmp_echo_room (s\<lparr>mem := h1\<rparr>) p (blk, int i) 20 = Some (s\<lparr>mem := hr\<rparr>, Some (r, blkr, int (length prer)))"
      and gone: "r = p \<or> pbufs hr p = None" and ref: "p_ref br = 1"
      and layr: "laid_out hr r br [] msg blkr (prer @ ip_hdr_octets iphdr @ msg @ postr) (length prer + 20)"
    using icmp_echo_room_found [of "s\<lparr>mem := h1\<rparr>" p b1 msg blk pre iphdr post thesis] lay1 assms(3,6) lmsg
    by (simp add: i buf) (simp add: b1_def shown_less_def)
  obtain h2 h3 hdr s3 h' where echo: "icmp_echo_reply hr (blkr, int (length prer)) (blkr, int (length prer) + 20) = Some h2"
      "pbuf_header h2 r 20 = Some (h3, False)" "read_ip_hdr h3 (blkr, int (length prer)) = Some hdr"
      "\<And>src t t' proto. ip_output_if (s\<lparr>mem := h3\<rparr>) r [] src None t t' proto inp = Some (s3, drv_err s (length (link s)))"
      "link s3 = link s @ [Output inp (ip_hdr_octets (echo_hdr iphdr) @ msg') (ih_src iphdr)]"
      "pbuf_free_s s3 r = Some (s3\<lparr>mem := h'\<rparr>, 1)" "pbufs h' = (pbufs hr)(r := None)"
    using echo_sends [OF layr [unfolded msg_def append_assoc] ref assms(6,8,11)] by (auto simp: msg'_def)
  have "icmp_input_echo (s\<lparr>mem := h1\<rparr>) p inp (blk, int i) 20 = Some (s3\<lparr>mem := h'\<rparr>)"
    using rd(2) assms(8-10) tot ok laid_out_one(2) [OF lay1] room f1(2,7) echo laid_outD(2,7) [OF layr]
    by (simp add: icmp_input_echo_def pbuf_header_s_def add.commute)
  moreover have "icmp_input s p inp = icmp_input_echo (s\<lparr>mem := h1\<rparr>) p inp (blk, int i) 20"
    using f(2,7) rd(1) assms(4) hd1 tot(2) f1(2,7) type
    by (simp add: icmp_input_def pbuf_header_s_def ICMP_ECHO_def Let_def)
  ultimately show ?thesis
    using echo(5,7) gone icmp_echo_chksum_verifies [OF assms(7)] assms(6)
    by (intro exI [of _ "s3\<lparr>mem := h'\<rparr>"] exI [of _ "echo_hdr iphdr"] exI [of _ "icmp_echo_chksum c"])
       (auto simp: echo_hdr_fields msg'_def)
qed

text \<open>A request from 10.0.0.2 with the sequence number 1 and one octet of data.\<close>

definition ping_hdr :: ip_hdr where
  "ping_hdr = (let h = zero_ip_hdr\<lparr>v_hl_tos := htons 0x4500, ttl_proto := htons 0x4001, ih_len := htons 29,
       ih_src := 0x0200000A, ih_dest := 0x0100000A\<rparr>
     in h\<lparr>ih_chksum := inet_chksum (ip_hdr_octets h)\<rparr>)"

lemma ping_hdr_fields:
  "v_hl_tos ping_hdr = htons 0x4500" "ttl_proto ping_hdr = htons 0x4001" "ih_len ping_hdr = htons 29" "ih_offset ping_hdr = 0"
  "ih_src ping_hdr = 0x0200000A" "ih_dest ping_hdr = 0x0100000A" "inet_chksum (ip_hdr_octets ping_hdr) = 0"
proof -
  define h where "h = zero_ip_hdr\<lparr>v_hl_tos := htons 0x4500, ttl_proto := htons 0x4001, ih_len := htons 29, ih_src := 0x0200000A, ih_dest := 0x0100000A\<rparr>"
  have "ping_hdr = h\<lparr>ih_chksum := inet_chksum (ip_hdr_octets (h\<lparr>ih_chksum := 0\<rparr>))\<rparr>"
    by (simp add: ping_hdr_def h_def Let_def zero_ip_hdr_def)
  then show "inet_chksum (ip_hdr_octets ping_hdr) = 0"
    using ip_hdr_chksum_verifies [of h] by simp
qed (simp_all add: ping_hdr_def zero_ip_hdr_def Let_def)

definition ping_pbuf :: pbuf where
  "ping_pbuf = \<lparr>p_next = NULL, payload = (2, 14), tot_len = 29, p_len = 29, p_type = PBUF_RAM, p_flags = 0, p_ref = 1\<rparr>"

definition ping_stack :: stack where
  "ping_stack = sample_stack
     \<lparr>pbufs = [2 \<mapsto> ping_pbuf],
      blocks = [2 \<mapsto> replicate 14 0 @ ip_hdr_octets ping_hdr @ [8, 0] @ mem_bytes16 65264 @ [0, 0, 0, 1, 7]],
      brk = 3, mem_ok = (\<lambda>a. True), junk = (\<lambda>a i. 0), pool_payload = PBUF_POOL_BUFSIZE\<rparr>"

lemma ping_facts:
  "laid_out (mem ping_stack) 2 ping_pbuf [] (ip_hdr_octets ping_hdr @ [8, 0] @ mem_bytes16 65264 @ [0, 0, 0, 1, 7]) 2
     (replicate 14 0 @ ip_hdr_octets ping_hdr @ [8, 0] @ mem_bytes16 65264 @ [0, 0, 0, 1, 7]) 14"
  "IPH_HL ping_hdr = 5" "inet_chksum ([8, 0] @ mem_bytes16 65264 @ [0, 0, 0, 1, 7]) = 0" "netifs ping_stack 1 = Some sample_netif"
  "\<not> ip_addr_isbroadcast (ih_dest ping_hdr) sample_netif" "\<not> ip_addr_ismulticast (ih_dest ping_hdr)" "p_ref ping_pbuf = 1" "link ping_stack = []"
  "nf_mtu sample_netif = 1500" "ih_src ping_hdr = 0x0200000A" "ih_dest ping_hdr = 0x0100000A"
proof -
  show "inet_chksum ([8, 0] @ mem_bytes16 65264 @ [0, 0, 0, 1, 7]) = 0"
    by (subst inet_chksum_eq) (simp_all add: mem_bytes16_def rfc1071_0)
  show "laid_out (mem ping_stack) 2 ping_pbuf [] (ip_hdr_octets ping_hdr @ [8, 0] @ mem_bytes16 65264 @ [0, 0, 0, 1, 7]) 2
     (replicate 14 0 @ ip_hdr_octets ping_hdr @ [8, 0] @ mem_bytes16 65264 @ [0, 0, 0, 1, 7]) 14"
    by (simp add: laid_out_def ping_stack_def sample_stack_def ping_pbuf_def packet_def pbuf_data_def mem_read_def)
qed (simp_all add: ping_stack_def sample_stack_def ping_hdr_fields ping_pbuf_def IPH_HL_def ntohs_def htons_htons
  sample_netif_def ip_addr_isbroadcast_def ip_addr_ismulticast_def ntohl_def htonl_def)

end
