(* ===== verification/Ip_Demux.thy ===== *)
theory Ip_Demux
  imports Ip_Input Icmp_Wire Pbuf_Alloc Igmp_Groups
begin

text \<open>
  IP input: which packets are dropped, and where the others go.
\<close>

unbundle bit_operations_syntax

lemma mem_read16_hdr:
  assumes "blocks h blk = Some (pre @ ip_hdr_octets iphdr @ post)"
  shows "mem_read16 h (blk, int (length pre)) = Some (v_hl_tos iphdr)"
    "mem_read16 h (ptr_add (blk, int (length pre)) 2) = Some (ih_len iphdr)"
    "mem_read h (blk, int (length pre)) 20 = Some (ip_hdr_octets iphdr)"
proof -
  obtain rest where o: "ip_hdr_octets iphdr = mem_bytes16 (v_hl_tos iphdr) @ mem_bytes16 (ih_len iphdr) @ rest"
    by (simp add: ip_hdr_octets_def)
  have l: "load16w (mem_bytes16 w) 0 = w" for w
    by (simp add: load16w_def mem_bytes16_def)
  show "mem_read16 h (blk, int (length pre)) = Some (v_hl_tos iphdr)"
    using mem_read_mid [of h blk pre "mem_bytes16 (v_hl_tos iphdr)" "mem_bytes16 (ih_len iphdr) @ rest @ post" 2] assms
    by (simp add: mem_read16_def o l)
  show "mem_read16 h (ptr_add (blk, int (length pre)) 2) = Some (ih_len iphdr)"
    using mem_read_mid [of h blk "pre @ mem_bytes16 (v_hl_tos iphdr)" "mem_bytes16 (ih_len iphdr)" "rest @ post" 2] assms
    by (simp add: mem_read16_def o l ptr_add_def add.commute)
  show "mem_read h (blk, int (length pre)) 20 = Some (ip_hdr_octets iphdr)"
    by (rule mem_read_mid [OF assms]) simp_all
qed

lemma ip_input_drop_chain:
  assumes "chain (mem s) p (p # qs)"
  shows "\<exists>h'. ip_input_drop s p = Some (s\<lparr>mem := h'\<rparr>, ERR_OK) \<and> release (mem s) (p # qs) h'"
proof -
  have "p \<noteq> NULL" using assms by simp
  then show ?thesis
    using pbuf_free_loop_chain [OF assms, of 0] by (auto simp: ip_input_drop_def pbuf_free_s_def pbuf_free_def)
qed

text \<open>Trimming keeps the first octets of a packet and the payload of its first pbuf.\<close>

lemma laid_out_realloc:
  assumes "laid_out h p b qs bs blk buf i" "unat n \<le> length bs" "unat n < length bs \<Longrightarrow> own_payload h (p # qs)"
  shows "\<exists>h' b' qs'. pbuf_realloc h p n = Some h' \<and> laid_out h' p b' qs' (take (unat n) bs) blk buf i
    \<and> unat (p_len b') = min (unat (p_len b)) (unat n) \<and> (unat n = length bs \<longrightarrow> h' = h)"
proof (cases "unat n = length bs")
  note f = laid_outD [OF assms(1)]
  case True
  then have "pbuf_realloc h p n = Some h"
    using f(2,3) by (simp add: pbuf_realloc_def word_le_nat_alt)
  then show ?thesis
    using True assms(1) f(4) by (intro exI [of _ h] exI [of _ b] exI [of _ qs]) simp
next
  note f = laid_outD [OF assms(1)]
  case False
  have q: "packet h p (p # qs)" "chain_data h (p # qs) = Some bs" "blocks h blk = Some buf"
      "\<forall>y\<in>set qs. fst (payload (pb h y)) \<noteq> blk"
    using assms(1) by (simp_all add: laid_out_def)
  have own: "own_payload h (p # qs)" and lt: "n < tot_len b"
    using False assms(2,3) f(3) by (simp_all add: word_less_nat_alt)
  have ch: "chain h p (p # qs)" and l: "length bs = lens h (p # qs)"
    using q(1) chain_data_length [OF q(2)] by (simp_all add: packet_def)
  obtain keep x rest r where k: "p # qs = keep @ x # rest"
      "pbuf_realloc_loop h p n (n - tot_len b) = Some (bump (n - tot_len b) keep h, x, r)"
      "unat r \<le> unat (p_len (pb h x))" "unat n = lens h keep + unat r"
    using realloc_loop_chain [OF ch, of n "n - tot_len b"] assms(2) l by auto
  obtain h' where h': "pbuf_realloc h p n = Some h'" "shrunk h (n - tot_len b) keep x r rest h'"
    using pbuf_realloc_shrunk [OF _ f(2) lt k(2), of rest] ch k(1) by auto
  obtain qs' where qs': "keep @ [x] = p # qs'" "set qs' \<subseteq> set qs"
    using k(1) by (cases keep) auto
  have new: "packet h' p (p # qs')" "chain_data h' (p # qs') = Some (take (unat n) bs)"
    using shrunk_packet [OF h'(2), of p] shrunk_data [OF h'(2), of p bs] q ch own k f(3) l qs'(1) by simp_all
  have dist: "distinct (keep @ x # rest)"
    using chain_distinct [OF ch] k(1) by simp
  have "blk \<notin> set rest"
  proof
    assume "blk \<in> set rest"
    then have "p = blk"
      using own f(2,7) k(1) qs'(1) unfolding own_payload_def by (metis Un_iff fst_conv list.set_intros option.sel set_append)
    then show False
      using \<open>blk \<in> set rest\<close> dist qs'(1) by (metis append_Cons append_Nil append_assoc distinct.simps(2) in_set_conv_decomp)
  qed
  then have blocks': "blocks h' blk = Some buf"
    using h'(2) q(3) by (simp add: shrunk_def)
  have same: "map_option payload (pbufs h' y) = map_option payload (pbufs h y)" if "y \<in> set (p # qs')" for y
    using h'(2) that unfolding qs'(1) [symmetric] by (auto simp: shrunk_def option.map_comp comp_def)
  have "fst (payload (pb h' y)) \<noteq> blk" if "y \<in> set qs'" for y
  proof -
    have "y \<in> set qs"
      using that qs'(2) by blast
    moreover obtain yb where "pbufs h y = Some yb"
      using chain_live [OF ch, of y] calculation by auto
    ultimately have "pbufs h y = Some yb" "fst (payload yb) \<noteq> blk"
      using q(4) by auto
    moreover have "map_option payload (pbufs h' y) = map_option payload (pbufs h y)"
      using same that by simp
    ultimately show ?thesis
      by auto
  qed
  moreover obtain b' where b': "pbufs h' p = Some b'" "payload b' = payload b" "p_type b' = p_type b"
      "unat (p_len b') = min (unat (p_len b)) (unat n)"
  proof (cases keep)
    case Nil
    then have "x = p" using qs'(1) by simp
    then show ?thesis
      using that h'(2) f(2) k(3,4) Nil by (simp add: shrunk_def)
  next
    case (Cons y ys)
    then have "y = p" using qs'(1) by simp
    then show ?thesis
      using that h'(2) f(2) k(4) Cons by (simp add: shrunk_def)
  qed
  ultimately have "laid_out h' p b' qs' (take (unat n) bs) blk buf i"
    using new blocks' assms(1) f(7,8) by (simp add: laid_out_def)
  then show ?thesis
    using h'(1) b'(4) False by blast
qed

text \<open>The packet is for this host: to a multicast group of the interface it came in on, or to the address or a
  broadcast address of an interface that is up and has an address.\<close>

definition netif_accepts :: "netif \<Rightarrow> ip_addr \<Rightarrow> bool" where
  "netif_accepts nf dest \<longleftrightarrow> netif_is_up nf \<and> nf_ip_addr nf \<noteq> 0 \<and> (dest = nf_ip_addr nf \<or> ip_addr_isbroadcast dest nf)"

definition for_host :: "stack \<Rightarrow> ptr \<Rightarrow> ip_addr \<Rightarrow> bool" where
  "for_host s inp dest \<longleftrightarrow>
     (if ip_addr_ismulticast dest
      then nf_flags (the (netifs s inp)) AND NETIF_FLAG_IGMP \<noteq> 0
         \<and> (\<exists>g\<in>set (igmp_group_list s). group_id (the (groups s g)) = (inp, dest))
      else \<exists>n\<in>set (inp # netif_list s). netif_accepts (the (netifs s n)) dest)"

lemma for_host_mem [simp]: "for_host (s\<lparr>mem := h\<rparr>) inp dest = for_host s inp dest"
  by (simp add: for_host_def cong: if_cong)

lemma ip_input_match_spec:
  assumes "\<forall>n\<in>set ns. n \<noteq> NULL \<and> netifs s n \<noteq> None"
  shows "\<exists>n. ip_input_match s dest ns = Some n \<and> (n \<noteq> NULL \<longleftrightarrow> (\<exists>n\<in>set ns. netif_accepts (the (netifs s n)) dest))"
  using assms
proof (induction ns)
  case (Cons x ns)
  obtain nf where nf: "x \<noteq> NULL" "netifs s x = Some nf"
    using Cons.prems by auto
  then show ?case
    using Cons by (cases "netif_accepts nf dest") (auto simp: netif_accepts_def ip_addr_isany_def)
qed simp

lemma igmp_lookfor_total:
  assumes "\<forall>g\<in>set gs. g \<noteq> NULL \<and> groups s g \<noteq> None"
  shows "\<exists>g. igmp_lookfor s ifp addr gs = Some g \<and> (g \<noteq> NULL \<longleftrightarrow> (\<exists>g\<in>set gs. group_id (the (groups s g)) = (ifp, addr)))"
  using assms
proof (induction gs)
  case (Cons x gs)
  obtain grp where "x \<noteq> NULL" "groups s x = Some grp"
    using Cons.prems by auto
  then show ?case
    using Cons by (cases "group_id grp = (ifp, addr)") (auto simp: group_id_def)
qed simp

lemma ip_input_netif_for_host:
  assumes "\<forall>n\<in>set (inp # netif_list s). n \<noteq> NULL \<and> netifs s n \<noteq> None" "ip_addr_ismulticast dest \<Longrightarrow> \<forall>g\<in>set (igmp_group_list s). g \<noteq> NULL \<and> groups s g \<noteq> None"
  shows "\<exists>n. ip_input_netif s dest inp = Some n \<and> (n \<noteq> NULL \<longleftrightarrow> for_host s inp dest)"
proof (cases "ip_addr_ismulticast dest")
  case True
  obtain g where "igmp_lookfor s inp dest (igmp_group_list s) = Some g"
      "g \<noteq> NULL \<longleftrightarrow> (\<exists>g\<in>set (igmp_group_list s). group_id (the (groups s g)) = (inp, dest))"
    using igmp_lookfor_total [OF assms(2) [OF True]] by blast
  moreover obtain nf where "inp \<noteq> NULL" "netifs s inp = Some nf"
    using assms(1) by auto
  ultimately show ?thesis
    using True by (simp add: ip_input_netif_def igmp_lookfor_group_def for_host_def)
next
  case False
  have "\<forall>n\<in>set (inp # removeAll inp (netif_list s)). n \<noteq> NULL \<and> netifs s n \<noteq> None"
    using assms(1) by simp
  from ip_input_match_spec [OF this, of dest] show ?thesis
    using False by (auto simp: ip_input_netif_def for_host_def)
qed

text \<open>The upper layer for a protocol. A protocol the stack does not know is answered with an ICMP message, unless
  the packet is broadcast or multicast, and freed.\<close>

definition upper_layer :: "applications \<Rightarrow> u16 \<Rightarrow> ip_addr \<Rightarrow> stack \<Rightarrow> ptr \<Rightarrow> ptr \<Rightarrow> stack option" where
  "upper_layer app proto dest s p inp =
     (if proto = ucast IP_PROTO_UDP then udp_input (app_udp app) s p inp
      else if proto = ucast IP_PROTO_TCP then tcp_input (app_tcp app) s p inp
      else if proto = ucast IP_PROTO_ICMP then icmp_input s p inp
      else if proto = ucast IP_PROTO_IGMP then igmp_input s p inp dest
      else do {
        nf \<leftarrow> netifs s inp;
        s \<leftarrow> (if ip_addr_isbroadcast dest nf \<or> ip_addr_ismulticast dest then Some s
              else icmp_dest_unreach s p ICMP_DUR_PROTO);
        (s, _) \<leftarrow> pbuf_free_s s p;
        Some s
      })"

lemma ip_input_deliver_upper:
  assumes "laid_out (mem s) p b qs (ip_hdr_octets iphdr @ rest) blk buf i" "20 \<le> unat (p_len b)" "raw_pcbs s = []"
  shows "ip_input_deliver app s p inp = map_option (\<lambda>s'. (s', ERR_OK)) (upper_layer app (IPH_PROTO iphdr) (ih_dest iphdr) s p inp)"
proof -
  note f = laid_outD [OF assms(1)]
  have put: "put_pbuf p (b\<lparr>payload := (blk, int i)\<rparr>) (mem s) = mem s"
  proof -
    have "b\<lparr>payload := (blk, int i)\<rparr> = b"
      using f(7) by (cases b) simp
    then show ?thesis
      using f(2) by (simp add: put_pbuf_def fun_upd_idem)
  qed
  have "raw_input (app_raw app) s p = Some (s, False)"
    using assms(3) f(2,7) laid_out_read_hdr [OF assms(1,2)] by (simp add: raw_input_def raw_input_from.simps)
  then have "ip_input_deliver app s p inp = (let proto = IPH_PROTO iphdr in
         if proto = ucast IP_PROTO_UDP then do { s \<leftarrow> udp_input (app_udp app) s p inp; Some (s, ERR_OK) }
         else if proto = ucast IP_PROTO_TCP then do { s \<leftarrow> tcp_input (app_tcp app) s p inp; Some (s, ERR_OK) }
         else if proto = ucast IP_PROTO_ICMP then do { s \<leftarrow> icmp_input s p inp; Some (s, ERR_OK) }
         else if proto = ucast IP_PROTO_IGMP then do { s \<leftarrow> igmp_input s p inp (ih_dest iphdr); Some (s, ERR_OK) }
         else do {
           nf \<leftarrow> netifs s inp;
           s \<leftarrow> (if \<not> ip_addr_isbroadcast (ih_dest iphdr) nf \<and> \<not> ip_addr_ismulticast (ih_dest iphdr)
             then icmp_dest_unreach s p ICMP_DUR_PROTO else Some s);
           ip_input_drop s p
         })"
    using f(2,7) put laid_out_read_hdr [OF assms(1,2)] by (simp add: ip_input_deliver_def cong: if_cong)
  also have "\<dots> = map_option (\<lambda>s'. (s', ERR_OK)) (upper_layer app (IPH_PROTO iphdr) (ih_dest iphdr) s p inp)"
    by (auto simp: upper_layer_def ip_input_drop_def Let_def map_conv_bind_option comp_def prod.case_distrib
        split: Option.bind_split cong: if_cong)
  finally show ?thesis .
qed

text \<open>The header and the length are sound.\<close>

definition ip_sound :: "ip_hdr \<Rightarrow> u16 \<Rightarrow> u8 list \<Rightarrow> bool" where
  "ip_sound iphdr len octets \<longleftrightarrow> IPH_V iphdr = 4 \<and> unat (IPH_HL iphdr) * 4 \<le> unat len
     \<and> unat (ntohs (ih_len iphdr)) \<le> length octets \<and> inet_chksum (take (unat (IPH_HL iphdr) * 4) octets) = 0"

lemma ip_input_sound:
  assumes "laid_out (mem s) p b qs (ip_hdr_octets iphdr @ rest) blk buf i" "20 \<le> unat (p_len b)"
  shows "ip_input app s p inp = (if ip_sound iphdr (p_len b) (ip_hdr_octets iphdr @ rest)
    then do { h \<leftarrow> pbuf_realloc (mem s) p (ntohs (ih_len iphdr)); iphdr \<leftarrow> read_ip_hdr h (payload b);
              ip_input_accept app (s\<lparr>mem := h\<rparr>) p inp iphdr }
    else ip_input_drop s p)"
proof -
  note f = laid_outD [OF assms(1)]
  obtain e where e: "ip_hdr_octets iphdr @ rest = take (unat (p_len b)) (drop i buf) @ e"
    using f(9) by blast
  have blk: "blocks (mem s) blk = Some buf"
    using assms(1) by (simp add: laid_out_def)
  have "take 20 (drop i buf) = take 20 (ip_hdr_octets iphdr @ rest)"
    unfolding e using assms(2) f(8) by (simp add: min_def) linarith
  then have "buf = take i buf @ ip_hdr_octets iphdr @ drop (i + 20) buf"
    by (metis add.commute append_take_drop_id append_eq_conv_conj drop_drop length_ip_hdr_octets(1))
  moreover have "length (take i buf) = i"
    using f(8) by simp
  ultimately have rd: "mem_read16 (mem s) (blk, int i) = Some (v_hl_tos iphdr)"
      "mem_read16 (mem s) (ptr_add (blk, int i) 2) = Some (ih_len iphdr)"
    using mem_read16_hdr [of "mem s" blk "take i buf" iphdr "drop (i + 20) buf"] blk by simp_all
  have hl: "unat ((drop_bit 8 (ntohs (v_hl_tos iphdr)) AND 0xf) * 4) = unat (IPH_HL iphdr) * 4"
  proof -
    have "unat (IPH_HL iphdr) \<le> 15"
      using word_and_le1 [of "drop_bit 8 (ntohs (v_hl_tos iphdr))" 15] by (simp add: IPH_HL_def word_le_nat_alt)
    then show ?thesis
      by (simp add: IPH_HL_def unat_word_ariths)
  qed
  have take: "mem_read (mem s) (blk, int i) n = Some (take n (ip_hdr_octets iphdr @ rest))" if "n \<le> unat (p_len b)" for n
    using mem_read_at [OF blk, of i n] that f(8) unfolding e by (simp add: min_def) linarith
  show ?thesis
    using f(2,3,7) rd hl take [of "unat (IPH_HL iphdr) * 4"]
    by (auto simp: ip_input_def ip_sound_def Let_def IPH_V_def word_less_nat_alt word_le_nat_alt not_le)
qed

lemma ip_input_cases:
  fixes s p inp iphdr rest
  defines "octets \<equiv> ip_hdr_octets iphdr @ rest"
    and "len \<equiv> ntohs (ih_len iphdr)"
  assumes lay: "laid_out (mem s) p b qs octets blk buf i" and pl: "20 \<le> unat (p_len b)"
    and own: "unat len < length octets \<Longrightarrow> own_payload (mem s) (p # qs)" and len: "20 \<le> unat len"
    and off: "ih_offset iphdr AND htons (IP_OFFMASK OR IP_MF) = 0"
    and nifs: "\<forall>n\<in>set (inp # netif_list s). n \<noteq> NULL \<and> netifs s n \<noteq> None" "ip_addr_ismulticast (ih_dest iphdr) \<Longrightarrow> \<forall>g\<in>set (igmp_group_list s). g \<noteq> NULL \<and> groups s g \<noteq> None"
    and nf: "netifs s inp = Some nf" and raw: "raw_pcbs s = []"
  shows "if \<not> ip_sound iphdr (p_len b) octets
    then \<exists>h'. ip_input app s p inp = Some (s\<lparr>mem := h'\<rparr>, ERR_OK) \<and> release (mem s) (p # qs) h'
    else \<exists>h b' qs'. pbuf_realloc (mem s) p len = Some h \<and> laid_out h p b' qs' (take (unat len) octets) blk buf i
      \<and> (unat len = length octets \<longrightarrow> h = mem s \<and> qs' = qs)
      \<and> (if \<not> for_host s inp (ih_dest iphdr) \<or> ip_addr_isbroadcast (ih_src iphdr) nf \<or> ip_addr_ismulticast (ih_src iphdr)
         then \<exists>h'. ip_input app s p inp = Some (s\<lparr>mem := h'\<rparr>, ERR_OK) \<and> release h (p # qs') h'
         else ip_input app s p inp
           = map_option (\<lambda>s'. (s', ERR_OK)) (upper_layer app (IPH_PROTO iphdr) (ih_dest iphdr) (s\<lparr>mem := h\<rparr>) p inp))"
proof (cases "ip_sound iphdr (p_len b) octets")
  note f = laid_outD [OF lay]
  have chain: "chain (mem s) p (p # qs)"
    using lay unfolding laid_out_def packet_def by blast
  case False
  then show ?thesis
    using ip_input_drop_chain [OF chain] ip_input_sound [OF lay [unfolded octets_def] pl, of app inp] by (simp add: octets_def)
next
  note f = laid_outD [OF lay]
  case True
  have "unat len \<le> length octets"
    using True by (simp add: ip_sound_def len_def)
  from laid_out_realloc [OF lay this own] obtain h b' qs' where h: "pbuf_realloc (mem s) p len = Some h"
      "laid_out h p b' qs' (take (unat len) octets) blk buf i" "unat (p_len b') = min (unat (p_len b)) (unat len)"
      "unat len = length octets \<longrightarrow> h = mem s"
    by blast
  have hdr: "take (unat len) octets = ip_hdr_octets iphdr @ take (unat len - 20) rest"
    using len by (simp add: octets_def)
  have chain: "chain (mem (s\<lparr>mem := h\<rparr>)) p (p # qs')"
    using h(2) unfolding laid_out_def packet_def by (metis stack.select_convs(1) stack.surjective stack.update_convs(1))
  have qs: "qs' = qs" if "unat len = length octets"
  proof -
    have "chain (mem s) p (p # qs)"
      using lay unfolding laid_out_def packet_def by blast
    then have "chain h p (p # qs)"
      using h(4) that by simp
    then show ?thesis
      using chain_unique [of h p "p # qs'" "p # qs"] chain by simp
  qed
  have 1: "ip_input app s p inp = ip_input_accept app (s\<lparr>mem := h\<rparr>) p inp iphdr"
    using ip_input_sound [OF lay [unfolded octets_def] pl, of app inp] True h(1) f(7) laid_out_read_hdr [OF h(2) [unfolded hdr]] h(3) pl len
    by (simp add: octets_def len_def)
  obtain n where n: "ip_input_netif (s\<lparr>mem := h\<rparr>) (ih_dest iphdr) inp = Some n" "n \<noteq> NULL \<longleftrightarrow> for_host s inp (ih_dest iphdr)"
    using ip_input_netif_for_host [of inp "s\<lparr>mem := h\<rparr>" "ih_dest iphdr"] nifs by auto
  have 2: "ip_input_accept app (s\<lparr>mem := h\<rparr>) p inp iphdr =
      (if \<not> for_host s inp (ih_dest iphdr) \<or> ip_addr_isbroadcast (ih_src iphdr) nf \<or> ip_addr_ismulticast (ih_src iphdr)
       then ip_input_drop (s\<lparr>mem := h\<rparr>) p else ip_input_deliver app (s\<lparr>mem := h\<rparr>) p inp)"
    using n off nf f(1) by (cases "n = NULL") (auto simp: ip_input_accept_def)
  have 3: "ip_input_deliver app (s\<lparr>mem := h\<rparr>) p inp
      = map_option (\<lambda>s'. (s', ERR_OK)) (upper_layer app (IPH_PROTO iphdr) (ih_dest iphdr) (s\<lparr>mem := h\<rparr>) p inp)"
    using ip_input_deliver_upper [of "s\<lparr>mem := h\<rparr>" p b' qs' iphdr "take (unat len - 20) rest"] h(2,3) pl len raw
    by (simp add: hdr)
  obtain h' where "ip_input_drop (s\<lparr>mem := h\<rparr>) p = Some (s\<lparr>mem := h'\<rparr>, ERR_OK)" "release h (p # qs') h'"
    using ip_input_drop_chain [OF chain] by auto
  then have 4: "if \<not> for_host s inp (ih_dest iphdr) \<or> ip_addr_isbroadcast (ih_src iphdr) nf \<or> ip_addr_ismulticast (ih_src iphdr)
      then \<exists>h'. ip_input app s p inp = Some (s\<lparr>mem := h'\<rparr>, ERR_OK) \<and> release h (p # qs') h'
      else ip_input app s p inp
        = map_option (\<lambda>s'. (s', ERR_OK)) (upper_layer app (IPH_PROTO iphdr) (ih_dest iphdr) (s\<lparr>mem := h\<rparr>) p inp)"
    unfolding 1 2 3 by simp blast
  then show ?thesis
    using h(1,2,4) qs by (simp only: True not_True_eq_False if_False) blast
qed

lemma ip_input_demux:
  assumes "laid_out (mem s) p b qs (ip_hdr_octets iphdr @ msg) blk buf i" "20 \<le> unat (p_len b)" "IPH_HL iphdr = 5"
    and "unat (ntohs (ih_len iphdr)) = 20 + length msg" "ih_offset iphdr AND htons (IP_OFFMASK OR IP_MF) = 0"
    and "netif_list s = [inp]" "netifs s inp = Some nf" "netif_is_up nf" "nf_ip_addr nf \<noteq> 0" "\<not> ip_addr_ismulticast (ih_dest iphdr)"
    and "raw_pcbs s = []" "inp \<noteq> NULL"
  shows "if IPH_V iphdr \<noteq> 4 \<or> inet_chksum (ip_hdr_octets iphdr) \<noteq> 0
      \<or> \<not> (ih_dest iphdr = nf_ip_addr nf \<or> ip_addr_isbroadcast (ih_dest iphdr) nf)
      \<or> ip_addr_isbroadcast (ih_src iphdr) nf \<or> ip_addr_ismulticast (ih_src iphdr)
    then \<exists>h'. ip_input app s p inp = Some (s\<lparr>mem := h'\<rparr>, ERR_OK) \<and> release (mem s) (p # qs) h'
    else ip_input app s p inp = map_option (\<lambda>s'. (s', ERR_OK)) (upper_layer app (IPH_PROTO iphdr) (ih_dest iphdr) s p inp)"
proof -
  have snd: "ip_sound iphdr (p_len b) (ip_hdr_octets iphdr @ msg) \<longleftrightarrow> IPH_V iphdr = 4 \<and> inet_chksum (ip_hdr_octets iphdr) = 0"
    using assms(2-4) by (simp add: ip_sound_def)
  have host: "for_host s inp (ih_dest iphdr) \<longleftrightarrow> ih_dest iphdr = nf_ip_addr nf \<or> ip_addr_isbroadcast (ih_dest iphdr) nf"
    using assms(6-10) by (simp add: for_host_def netif_accepts_def)
  have "\<forall>n\<in>set (inp # netif_list s). n \<noteq> NULL \<and> netifs s n \<noteq> None"
    using assms(6,7,12) by simp
  from ip_input_cases [OF assms(1,2) _ _ assms(5) this _ assms(7,11), of app] show ?thesis
    using assms(4,10) snd host by (auto split: if_splits)
qed

text \<open>C11. A packet that is no fragment, on a host without raw sockets, is freed without any other change when its version is
  not 4, its header or its length field reach beyond what was received, or the checksum of the header (with its options) is
  wrong. Otherwise it is trimmed to its length field. Then it is freed without any other change when it is not for this host
  (no multicast group of the interface, no address or broadcast address of any interface that is up), or its source is a
  broadcast or multicast address; and else the protocol it names gets it, as it arrived up to that length: UDP, TCP, ICMP or IGMP,
  and for every other protocol it is answered with an ICMP message, unless it is broadcast or multicast, and freed.
  (The length field covers at least a header without options, the first pbuf has that header, and no pbuf of the packet keeps its
  payload in the block of another one, which trimming could free.)\<close>

theorem ip_input_demultiplexes:
  assumes "laid_out (mem s) p b qs (ip_hdr_octets iphdr @ rest) blk buf i" "20 \<le> unat (p_len b)" "own_payload (mem s) (p # qs)"
    and "20 \<le> unat (ntohs (ih_len iphdr))" "ih_offset iphdr AND htons (IP_OFFMASK OR IP_MF) = 0"
    and "\<forall>n\<in>set (inp # netif_list s). n \<noteq> NULL \<and> netifs s n \<noteq> None" "netifs s inp = Some nf"
    and "\<forall>g\<in>set (igmp_group_list s). g \<noteq> NULL \<and> groups s g \<noteq> None" "raw_pcbs s = []"
  shows "if IPH_V iphdr \<noteq> 4 \<or> unat (IPH_HL iphdr) * 4 > unat (p_len b) \<or> unat (ntohs (ih_len iphdr)) > 20 + length rest
      \<or> inet_chksum (take (unat (IPH_HL iphdr) * 4) (ip_hdr_octets iphdr @ rest)) \<noteq> 0
    then \<exists>h'. ip_input app s p inp = Some (s\<lparr>mem := h'\<rparr>, ERR_OK) \<and> release (mem s) (p # qs) h'
    else \<exists>h b' qs'. pbuf_realloc (mem s) p (ntohs (ih_len iphdr)) = Some h
      \<and> laid_out h p b' qs' (take (unat (ntohs (ih_len iphdr))) (ip_hdr_octets iphdr @ rest)) blk buf i
      \<and> (unat (ntohs (ih_len iphdr)) = 20 + length rest \<longrightarrow> h = mem s \<and> qs' = qs)
      \<and> (if \<not> for_host s inp (ih_dest iphdr) \<or> ip_addr_isbroadcast (ih_src iphdr) nf \<or> ip_addr_ismulticast (ih_src iphdr)
         then \<exists>h'. ip_input app s p inp = Some (s\<lparr>mem := h'\<rparr>, ERR_OK) \<and> release h (p # qs') h'
         else ip_input app s p inp
           = map_option (\<lambda>s'. (s', ERR_OK)) (upper_layer app (IPH_PROTO iphdr) (ih_dest iphdr) (s\<lparr>mem := h\<rparr>) p inp))"
  using ip_input_cases [OF assms(1,2) _ assms(4-6) _ assms(7,9), of app] assms(3,8)
  by (simp add: ip_sound_def not_le not_less de_Morgan_conj cong: if_cong split del: if_split)

text \<open>The example of ICMP.\<close>

lemma ping_demux:
  "IPH_V ping_hdr = 4" "IPH_PROTO ping_hdr = ucast IP_PROTO_ICMP" "unat (ntohs (ih_len ping_hdr)) = 29"
  "ih_offset ping_hdr AND htons (IP_OFFMASK OR IP_MF) = 0" "netif_list ping_stack = [1]" "netif_is_up sample_netif"
  "nf_ip_addr sample_netif = 0x0100000A" "raw_pcbs ping_stack = []" "20 \<le> unat (p_len ping_pbuf)"
  "\<not> ip_addr_isbroadcast (ih_src ping_hdr) sample_netif" "\<not> ip_addr_ismulticast (ih_src ping_hdr)"
  by (simp_all add: IPH_V_def IPH_PROTO_def ping_hdr_fields ntohs_def htons_htons IP_PROTO_ICMP_def ping_stack_def sample_stack_def
      sample_netif_def netif_is_up_def NETIF_FLAG_UP_def ping_pbuf_def ip_addr_isbroadcast_def ip_addr_ismulticast_def ip_addr_netcmp_def
      ntohl_def htonl_def)

theorem ip_input_demultiplexes_witness:
  "\<forall>app. ip_input app ping_stack 2 1 = map_option (\<lambda>s'. (s', ERR_OK)) (icmp_input ping_stack 2 1)"
proof
  fix app
  have 1: "own_payload (mem ping_stack) [2]" "\<forall>n\<in>set (1 # netif_list ping_stack). n \<noteq> NULL \<and> netifs ping_stack n \<noteq> None"
      "\<forall>g\<in>set (igmp_group_list ping_stack). g \<noteq> NULL \<and> groups ping_stack g \<noteq> None" "for_host ping_stack 1 (ih_dest ping_hdr)"
    using ping_facts(4,6,11) ping_demux(5-7)
    by (simp_all add: own_payload_def for_host_def netif_accepts_def ping_stack_def sample_stack_def)
  show "ip_input app ping_stack 2 1 = map_option (\<lambda>s'. (s', ERR_OK)) (icmp_input ping_stack 2 1)"
    using ip_input_demultiplexes [OF ping_facts(1) ping_demux(9) 1(1) _ ping_demux(4) 1(2) ping_facts(4) 1(3) ping_demux(8), of app]
      1(4) ping_facts(2) ping_demux(1-3,9-11) ping_hdr_fields(6,7)
    by (simp add: upper_layer_def IP_PROTO_ICMP_def IP_PROTO_UDP_def IP_PROTO_TCP_def)
qed

end
