(* ===== verification/Mem.thy ===== *)
theory Mem
  imports Prelude "HOL-Library.Monad_Syntax"
begin

text \<open>
  The heap of lwIP, \<^verbatim>\<open>core/mem.c\<close>, for builds that do not take the C library's \<^verbatim>\<open>malloc\<close>.

  The memory \<^verbatim>\<open>ram\<close> is seen through the headers in it: \<open>ram\<close> gives the \<^verbatim>\<open>struct mem\<close> at an offset, \<open>None\<close>
  where none was written yet. A pointer into the heap is its distance from \<^verbatim>\<open>ram\<close>, a header its offset; \<open>None\<close> as a pointer is
  NULL, and \<open>None\<close> as a result is an access to a header that is not there. \<^verbatim>\<open>mem_size_t\<close> has 16 bits, as for every
  \<^verbatim>\<open>MEM_SIZE\<close> up to 64000; \<^verbatim>\<open>MEM_SIZE\<close> and \<^verbatim>\<open>MEM_ALIGNMENT\<close> are fields of the heap. The size of a structure is
  a \<^verbatim>\<open>size_t\<close> of 64 bits, so sums with it are not cut off before they are compared. The semaphore guards against other
  threads only, and the statistics are left out.
\<close>

unbundle bit_operations_syntax

type_synonym mem_size = "16 word"
type_synonym size_t = "64 word"

record mem =
  mem_next :: mem_size
  mem_prev :: mem_size
  mem_used :: "8 word"

record mem_heap =
  ram :: "mem_size \<Rightarrow> mem option"
  lfree :: mem_size
  MEM_SIZE :: mem_size
  MEM_ALIGNMENT :: mem_size

definition LWIP_MEM_ALIGN_SIZE :: "mem_heap \<Rightarrow> mem_size \<Rightarrow> mem_size" where
  "LWIP_MEM_ALIGN_SIZE h sz = (sz + MEM_ALIGNMENT h - 1) AND NOT (MEM_ALIGNMENT h - 1)"

text \<open>Two fields of two octets and one octet take six octets.\<close>

definition SIZEOF_STRUCT_MEM :: "mem_heap \<Rightarrow> mem_size" where
  "SIZEOF_STRUCT_MEM h = LWIP_MEM_ALIGN_SIZE h 6"

definition MIN_SIZE_ALIGNED :: "mem_heap \<Rightarrow> mem_size" where
  "MIN_SIZE_ALIGNED h = LWIP_MEM_ALIGN_SIZE h 12"

definition MEM_SIZE_ALIGNED :: "mem_heap \<Rightarrow> mem_size" where
  "MEM_SIZE_ALIGNED h = LWIP_MEM_ALIGN_SIZE h (MEM_SIZE h)"

abbreviation put_mem :: "mem_size \<Rightarrow> mem \<Rightarrow> mem_heap \<Rightarrow> mem_heap" where
  "put_mem a m h \<equiv> h\<lparr>ram := (ram h)(a \<mapsto> m)\<rparr>"

section \<open>Start and release\<close>

definition mem_init :: "mem_heap \<Rightarrow> mem_heap" where
  "mem_init h = (let e = MEM_SIZE_ALIGNED h in
     h\<lparr>ram := (ram h)(0 \<mapsto> \<lparr>mem_next = e, mem_prev = 0, mem_used = 0\<rparr>,
                      e \<mapsto> \<lparr>mem_next = e, mem_prev = e, mem_used = 1\<rparr>),
       lfree := 0\<rparr>)"

definition set_prev :: "mem_size \<Rightarrow> mem_size \<Rightarrow> mem_heap \<Rightarrow> mem_heap option" where
  "set_prev a p h = do { m \<leftarrow> ram h a; Some (put_mem a (m\<lparr>mem_prev := p\<rparr>) h) }"

definition plug_forward :: "mem_heap \<Rightarrow> mem_size \<Rightarrow> mem_heap option" where
  "plug_forward h mem =
     do {
       m \<leftarrow> ram h mem;
       let nmem = mem_next m;
       n \<leftarrow> ram h nmem;
       if mem \<noteq> nmem \<and> mem_used n = 0 \<and> nmem \<noteq> MEM_SIZE_ALIGNED h
       then do {
         let h = (if lfree h = nmem then h\<lparr>lfree := mem\<rparr> else h);
         set_prev (mem_next n) mem (put_mem mem (m\<lparr>mem_next := mem_next n\<rparr>) h)
       }
       else Some h
     }"

definition plug_backward :: "mem_heap \<Rightarrow> mem_size \<Rightarrow> mem_heap option" where
  "plug_backward h mem =
     do {
       m \<leftarrow> ram h mem;
       let pmem = mem_prev m;
       p \<leftarrow> ram h pmem;
       if pmem \<noteq> mem \<and> mem_used p = 0
       then do {
         let h = (if lfree h = mem then h\<lparr>lfree := pmem\<rparr> else h);
         set_prev (mem_next m) pmem (put_mem pmem (p\<lparr>mem_next := mem_next m\<rparr>) h)
       }
       else Some h
     }"

definition plug_holes :: "mem_heap \<Rightarrow> mem_size \<Rightarrow> mem_heap option" where
  "plug_holes h mem = do { h \<leftarrow> plug_forward h mem; plug_backward h mem }"

text \<open>The header in front of a pointer.\<close>

definition mem_of :: "mem_heap \<Rightarrow> int \<Rightarrow> mem_size option" where
  "mem_of h rmem = (let a = rmem - int (unat (SIZEOF_STRUCT_MEM h)) in if 0 \<le> a then Some (of_int a) else None)"

definition mem_free :: "mem_heap \<Rightarrow> int option \<Rightarrow> mem_heap option" where
  "mem_free h rmem =
     (case rmem of
        None \<Rightarrow> Some h
      | Some rmem \<Rightarrow>
          if rmem < 0 \<or> rmem \<ge> int (unat (MEM_SIZE_ALIGNED h)) then Some h
          else do {
            mem \<leftarrow> mem_of h rmem;
            m \<leftarrow> ram h mem;
            let h = put_mem mem (m\<lparr>mem_used := 0\<rparr>) h;
            let h = (if mem < lfree h then h\<lparr>lfree := mem\<rparr> else h);
            plug_holes h mem
          })"

section \<open>Allocation\<close>

text \<open>The size that is really taken.\<close>

definition mem_padded :: "mem_heap \<Rightarrow> mem_size \<Rightarrow> mem_size" where
  "mem_padded h sz =
     (let sz = LWIP_MEM_ALIGN_SIZE h sz in if sz < MIN_SIZE_ALIGNED h then MIN_SIZE_ALIGNED h else sz)"

text \<open>A free block \<open>mem2\<close> at \<open>ptr2\<close> becomes the successor of the block at \<open>ptr\<close>; \<open>next\<close> follows it.\<close>

definition link_after :: "mem_heap \<Rightarrow> mem_size \<Rightarrow> mem_size \<Rightarrow> mem_size \<Rightarrow> mem_heap option" where
  "link_after h ptr ptr2 next =
     do {
       let h = put_mem ptr2 \<lparr>mem_next = next, mem_prev = ptr, mem_used = 0\<rparr> h;
       m \<leftarrow> ram h ptr;
       let h = put_mem ptr (m\<lparr>mem_next := ptr2\<rparr>) h;
       if next \<noteq> MEM_SIZE_ALIGNED h then set_prev next ptr2 h else Some h
     }"

text \<open>The loop that looks for the lowest free block after an allocation.\<close>

partial_function (option) next_free :: "mem_heap \<Rightarrow> mem_size \<Rightarrow> mem_size option" where
  "next_free h a =
     do {
       m \<leftarrow> ram h a;
       if mem_used m \<noteq> 0 \<and> a \<noteq> MEM_SIZE_ALIGNED h then next_free h (mem_next m) else Some a
     }"

declare next_free.simps [code]

text \<open>The fitting block \<open>m\<close> at \<open>ptr\<close> is used for \<open>sz\<close> octets; the rest is split off when it can hold a block.\<close>

definition mem_use :: "mem_heap \<Rightarrow> mem_size \<Rightarrow> mem \<Rightarrow> mem_size \<Rightarrow> mem_heap option" where
  "mem_use h ptr m sz =
     (if ucast (mem_next m) - (ucast ptr + ucast (SIZEOF_STRUCT_MEM h))
           \<ge> ucast sz + ucast (SIZEOF_STRUCT_MEM h) + (ucast (MIN_SIZE_ALIGNED h) :: size_t)
      then do {
        h \<leftarrow> link_after h ptr (ptr + SIZEOF_STRUCT_MEM h + sz) (mem_next m);
        m \<leftarrow> ram h ptr;
        Some (put_mem ptr (m\<lparr>mem_used := 1\<rparr>) h)
      }
      else Some (put_mem ptr (m\<lparr>mem_used := 1\<rparr>) h))"

definition mem_take :: "mem_heap \<Rightarrow> mem_size \<Rightarrow> mem \<Rightarrow> mem_size \<Rightarrow> mem_heap option" where
  "mem_take h ptr m sz =
     do {
       h \<leftarrow> mem_use h ptr m sz;
       if ptr = lfree h then do { a \<leftarrow> next_free h (lfree h); Some (h\<lparr>lfree := a\<rparr>) } else Some h
     }"

partial_function (option) mem_search :: "mem_heap \<Rightarrow> mem_size \<Rightarrow> mem_size \<Rightarrow> (mem_heap \<times> int option) option" where
  "mem_search h sz ptr =
     (if int (unat ptr) < int (unat (MEM_SIZE_ALIGNED h)) - int (unat sz)
      then do {
        m \<leftarrow> ram h ptr;
        if mem_used m = 0 \<and> ucast (mem_next m) - (ucast ptr + ucast (SIZEOF_STRUCT_MEM h)) \<ge> (ucast sz :: size_t)
        then do {
          h \<leftarrow> mem_take h ptr m sz;
          Some (h, Some (int (unat ptr) + int (unat (SIZEOF_STRUCT_MEM h))))
        }
        else mem_search h sz (mem_next m)
      }
      else Some (h, None))"

declare mem_search.simps [code]

definition mem_malloc :: "mem_heap \<Rightarrow> mem_size \<Rightarrow> (mem_heap \<times> int option) option" where
  "mem_malloc h sz =
     (if sz = 0 then Some (h, None)
      else let sz = mem_padded h sz
           in if sz > MEM_SIZE_ALIGNED h then Some (h, None) else mem_search h sz (lfree h))"

section \<open>Shrinking\<close>

text \<open>The block at \<open>ptr\<close> shrinks from \<open>sz\<close> to \<open>newsize\<close> octets.\<close>

definition mem_shrink :: "mem_heap \<Rightarrow> mem_size \<Rightarrow> mem_size \<Rightarrow> mem_size \<Rightarrow> mem_heap option" where
  "mem_shrink h ptr newsize sz =
     do {
       m \<leftarrow> ram h ptr;
       m2 \<leftarrow> ram h (mem_next m);
       let ptr2 = ptr + SIZEOF_STRUCT_MEM h + newsize;
       if mem_used m2 = 0
       then do {
         let h = (if lfree h = mem_next m then h\<lparr>lfree := ptr2\<rparr> else h);
         link_after h ptr ptr2 (mem_next m2)
       }
       else if ucast newsize + ucast (SIZEOF_STRUCT_MEM h) + ucast (MIN_SIZE_ALIGNED h) \<le> (ucast sz :: size_t)
       then do {
         let h = (if ptr2 < lfree h then h\<lparr>lfree := ptr2\<rparr> else h);
         link_after h ptr ptr2 (mem_next m)
       }
       else Some h
     }"

definition mem_realloc :: "mem_heap \<Rightarrow> int \<Rightarrow> mem_size \<Rightarrow> (mem_heap \<times> int option) option" where
  "mem_realloc h rmem newsize =
     (let newsize = mem_padded h newsize in
      if newsize > MEM_SIZE_ALIGNED h then Some (h, None)
      else if rmem < 0 \<or> rmem \<ge> int (unat (MEM_SIZE_ALIGNED h)) then Some (h, Some rmem)
      else do {
        ptr \<leftarrow> mem_of h rmem;
        m \<leftarrow> ram h ptr;
        let sz = mem_next m - ptr - SIZEOF_STRUCT_MEM h;
        if newsize > sz then Some (h, None)
        else if newsize = sz then Some (h, Some rmem)
        else do { h \<leftarrow> mem_shrink h ptr newsize sz; Some (h, Some rmem) }
      })"

text \<open>\<^verbatim>\<open>mem_calloc\<close>: the product is cut off to \<^verbatim>\<open>mem_size_t\<close> for the allocation; the result also has the number of octets that
  \<^verbatim>\<open>memset\<close> clears behind the pointer, which is the full product. (In C it is an \<^verbatim>\<open>int\<close> product of
  two promoted 16-bit numbers, undefined from \<open>2 ^ 31\<close> on; that is not modelled.)\<close>

definition mem_calloc :: "mem_heap \<Rightarrow> mem_size \<Rightarrow> mem_size \<Rightarrow> (mem_heap \<times> int option \<times> nat) option" where
  "mem_calloc h count sz =
     do {
       (h, p) \<leftarrow> mem_malloc h (count * sz);
       Some (h, p, case p of None \<Rightarrow> 0 | Some _ \<Rightarrow> unat count * unat sz)
     }"

end
