(* ===== verification/Mem_Blocks.thy ===== *)
theory Mem_Blocks
  imports Mem
begin

text \<open>
  The heap of \<^verbatim>\<open>mem.c\<close> is a list of blocks without gaps. Allocation is first fit on this list, release marks a block and merges
  it with its free neighbours, and shrinking moves or makes the free block behind.
\<close>

unbundle bit_operations_syntax

section \<open>The list in memory\<close>

text \<open>A block: its offset, the offset of the next one, whether it is used.\<close>

type_synonym block = "mem_size \<times> mem_size \<times> bool"

definition smallest :: "mem_heap \<Rightarrow> nat" where
  "smallest h = unat (SIZEOF_STRUCT_MEM h) + unat (MIN_SIZE_ALIGNED h)"

definition same_conf :: "mem_heap \<Rightarrow> mem_heap \<Rightarrow> bool" where
  "same_conf h h' \<longleftrightarrow> MEM_SIZE h' = MEM_SIZE h \<and> MEM_ALIGNMENT h' = MEM_ALIGNMENT h"

lemma conf_simps [simp]:
  "SIZEOF_STRUCT_MEM (h\<lparr>ram := r\<rparr>) = SIZEOF_STRUCT_MEM h" "SIZEOF_STRUCT_MEM (h\<lparr>lfree := a\<rparr>) = SIZEOF_STRUCT_MEM h"
  "MIN_SIZE_ALIGNED (h\<lparr>ram := r\<rparr>) = MIN_SIZE_ALIGNED h" "MIN_SIZE_ALIGNED (h\<lparr>lfree := a\<rparr>) = MIN_SIZE_ALIGNED h"
  "MEM_SIZE_ALIGNED (h\<lparr>ram := r\<rparr>) = MEM_SIZE_ALIGNED h" "MEM_SIZE_ALIGNED (h\<lparr>lfree := a\<rparr>) = MEM_SIZE_ALIGNED h"
  "smallest (h\<lparr>ram := r\<rparr>) = smallest h" "smallest (h\<lparr>lfree := a\<rparr>) = smallest h"
  "same_conf h (h'\<lparr>ram := r\<rparr>) = same_conf h h'" "same_conf h (h'\<lparr>lfree := a\<rparr>) = same_conf h h'" "same_conf h h"
  by (simp_all add: SIZEOF_STRUCT_MEM_def MIN_SIZE_ALIGNED_def MEM_SIZE_ALIGNED_def LWIP_MEM_ALIGN_SIZE_def smallest_def same_conf_def)

lemma same_confD:
  assumes "same_conf h h'"
  shows "SIZEOF_STRUCT_MEM h' = SIZEOF_STRUCT_MEM h" "MIN_SIZE_ALIGNED h' = MIN_SIZE_ALIGNED h"
    "MEM_SIZE_ALIGNED h' = MEM_SIZE_ALIGNED h" "smallest h' = smallest h" "MEM_ALIGNMENT h' = MEM_ALIGNMENT h"
    "LWIP_MEM_ALIGN_SIZE h' sz = LWIP_MEM_ALIGN_SIZE h sz" "mem_padded h' sz = mem_padded h sz"
  using assms by (simp_all add: same_conf_def SIZEOF_STRUCT_MEM_def MIN_SIZE_ALIGNED_def MEM_SIZE_ALIGNED_def
    LWIP_MEM_ALIGN_SIZE_def smallest_def mem_padded_def Let_def)

lemma same_conf_trans: "same_conf h h1 \<Longrightarrow> same_conf h1 h2 \<Longrightarrow> same_conf h h2"
  by (simp add: same_conf_def)

text \<open>The blocks from offset \<open>a\<close>, whose predecessor is \<open>p\<close>, up to the offset \<open>a'\<close>, whose predecessor is \<open>p'\<close>.\<close>

fun seg :: "mem_heap \<Rightarrow> mem_size \<Rightarrow> mem_size \<Rightarrow> block list \<Rightarrow> mem_size \<Rightarrow> mem_size \<Rightarrow> bool" where
  "seg h p a [] p' a' \<longleftrightarrow> p' = p \<and> a' = a"
| "seg h p a ((b, n, u) # bs) p' a' \<longleftrightarrow> b = a \<and> ram h a = Some \<lparr>mem_next = n, mem_prev = p, mem_used = of_bool u\<rparr>
     \<and> unat a + smallest h \<le> unat n \<and> unat (MEM_ALIGNMENT h) dvd unat n \<and> seg h a n bs p' a'"

definition end_ok :: "mem_heap \<Rightarrow> bool" where
  "end_ok h \<longleftrightarrow> (\<exists>e. ram h (MEM_SIZE_ALIGNED h) = Some e \<and> mem_used e \<noteq> 0 \<and> mem_next e = MEM_SIZE_ALIGNED h)"

definition rest :: "mem_heap \<Rightarrow> mem_size \<Rightarrow> mem_size \<Rightarrow> block list \<Rightarrow> bool" where
  "rest h p a bs \<longleftrightarrow> (\<exists>p'. seg h p a bs p' (MEM_SIZE_ALIGNED h)) \<and> end_ok h"

abbreviation node :: "mem_size \<Rightarrow> mem_size \<Rightarrow> bool \<Rightarrow> mem" where
  "node n p u \<equiv> \<lparr>mem_next = n, mem_prev = p, mem_used = of_bool u\<rparr>"

lemma seg_append: "seg h p a (xs @ ys) p' a' \<longleftrightarrow> (\<exists>p1 a1. seg h p a xs p1 a1 \<and> seg h p1 a1 ys p' a')"
proof (induction xs arbitrary: p a)
  case (Cons b bs)
  then show ?case
    by (cases b) auto
qed simp

lemma seg_le: "seg h p a bs p' a' \<Longrightarrow> unat a \<le> unat a'"
proof (induction bs arbitrary: p a)
  case (Cons b bs)
  then show ?case by (cases b) (fastforce dest: Cons.IH)
qed simp

lemma seg_starts:
  assumes "seg h p a bs p' a'" "(b, n, u) \<in> set bs" "0 < smallest h"
  shows "unat a \<le> unat b \<and> unat b + smallest h \<le> unat n \<and> unat n \<le> unat a'"
  using assms(1,2)
proof (induction bs arbitrary: p a)
  case (Cons c bs)
  obtain b1 n1 u1 where c: "c = (b1, n1, u1)"
    by (cases c)
  then have tl: "seg h a n1 bs p' a'" "unat a + smallest h \<le> unat n1" "b1 = a"
    using Cons.prems(1) by auto
  show ?case
    using Cons.prems(2) Cons.IH [OF tl(1)] tl(2,3) seg_le [OF tl(1)] by (auto simp: c)
qed simp

lemma seg_frame:
  assumes "seg h p a bs p' a'" "same_conf h h'" "0 < smallest h"
    and "\<And>x. unat a \<le> unat x \<Longrightarrow> unat x < unat a' \<Longrightarrow> ram h' x = ram h x"
  shows "seg h' p a bs p' a'"
  using assms(1,4)
proof (induction bs arbitrary: p a)
  case (Cons c bs)
  obtain b n u where c: "c = (b, n, u)"
    by (cases c)
  then have tl: "seg h a n bs p' a'" "unat a + smallest h \<le> unat n"
    using Cons.prems(1) by auto
  have "seg h' a n bs p' a'"
    by (rule Cons.IH [OF tl(1)]) (use Cons.prems(2) tl(2) in auto)
  moreover have "ram h' a = ram h a"
    using Cons.prems(2) [of a] tl(2) seg_le [OF tl(1)] assms(3) by simp
  ultimately show ?case
    using Cons.prems(1) same_confD [OF assms(2)] by (simp add: c)
qed simp

text \<open>The parts of a list around the change.\<close>

lemma rest_frame:
  assumes "rest h p a bs" "same_conf h h'" "0 < smallest h" "\<And>x. unat a \<le> unat x \<Longrightarrow> ram h' x = ram h x"
  shows "rest h' p a bs"
proof -
  obtain p' where s: "seg h p a bs p' (MEM_SIZE_ALIGNED h)" and e: "end_ok h"
    using assms(1) by (auto simp: rest_def)
  have "seg h' p a bs p' (MEM_SIZE_ALIGNED h)"
    using s assms(2,3) by (rule seg_frame) (simp add: assms(4))
  moreover have "end_ok h'"
    using e assms(4) seg_le [OF s] same_confD(3) [OF assms(2)] by (simp add: end_ok_def)
  ultimately show ?thesis
    using same_confD(3) [OF assms(2)] by (auto simp: rest_def)
qed

lemma rest_Cons: "rest h p a ((b, n, u) # bs) \<longleftrightarrow> b = a \<and> ram h a = Some (node n p u) \<and> unat a + smallest h \<le> unat n
    \<and> unat (MEM_ALIGNMENT h) dvd unat n \<and> rest h a n bs"
  by (auto simp: rest_def)

lemma rest_join: "seg h 0 0 xs p a \<Longrightarrow> rest h p a ys \<Longrightarrow> rest h 0 0 (xs @ ys)"
  unfolding rest_def seg_append by blast

lemma rest_Nil: "rest h p a [] \<longleftrightarrow> a = MEM_SIZE_ALIGNED h \<and> end_ok h"
  by (auto simp: rest_def)

lemma rest_le: "rest h p a bs \<Longrightarrow> unat a \<le> unat (MEM_SIZE_ALIGNED h)"
  by (auto simp: rest_def dest: seg_le)

lemma rest_end: "rest h p (MEM_SIZE_ALIGNED h) bs \<Longrightarrow> 0 < smallest h \<Longrightarrow> bs = []"
  using rest_le by (cases bs) (auto simp: rest_Cons, fastforce)

lemma rest_live: "rest h p a bs \<Longrightarrow> \<exists>m. ram h a = Some m"
  by (cases bs) (auto simp: rest_Cons rest_Nil end_ok_def)

lemma rest_set_prev:
  assumes "rest h q a bs" "0 < smallest h"
  obtains h' where "set_prev a r h = Some h'" "rest h' r a bs" "\<And>x. x \<noteq> a \<Longrightarrow> ram h' x = ram h x" "lfree h' = lfree h" "same_conf h h'"
proof -
  obtain m where m: "ram h a = Some m"
    using rest_live [OF assms(1)] by blast
  define h' where "h' = put_mem a (m\<lparr>mem_prev := r\<rparr>) h"
  have "rest h' r a bs"
  proof (cases bs)
    case Nil
    then show ?thesis
      using assms(1) m by (auto simp: rest_Nil end_ok_def h'_def)
  next
    case (Cons c cs)
    obtain b n u where c: "c = (b, n, u)"
      by (cases c)
    have "rest h' a n cs"
      by (rule rest_frame [of h]) (use assms Cons c in \<open>auto simp: rest_Cons h'_def\<close>)
    then show ?thesis
      using assms(1) m Cons c by (simp add: rest_Cons h'_def)
  qed
  then show ?thesis
    using that [of h'] m by (simp add: set_prev_def h'_def)
qed

lemma seg_put:
  assumes "seg h p a xs p' a'" "0 < smallest h" "unat a' \<le> unat x"
  shows "seg (put_mem x m h) p a xs p' a'"
  by (rule seg_frame [OF assms(1)]) (use assms in auto)

lemma seg_other:
  assumes "seg h p a xs p' a'" "0 < smallest h" "same_conf h h'" "\<And>x. unat x < unat a' \<Longrightarrow> ram h' x = ram h x"
  shows "seg h' p a xs p' a'"
  by (rule seg_frame [OF assms(1,3,2)]) (simp add: assms(4))

lemma p_dvd: "seg h p 0 xs p' a \<Longrightarrow> unat (MEM_ALIGNMENT h) dvd unat a"
  by (induction xs arbitrary: p rule: rev_induct) (auto simp: seg_append)

text \<open>The whole heap.\<close>

definition blocks_in :: "mem_heap \<Rightarrow> block list \<Rightarrow> bool" where
  "blocks_in h bs \<longleftrightarrow> 0 < smallest h \<and> rest h 0 0 bs"

lemma blocks_in_split:
  "blocks_in h (xs @ (a, n, u) # ys) \<longleftrightarrow> 0 < smallest h \<and> (\<exists>p. seg h 0 0 xs p a \<and> rest h p a ((a, n, u) # ys))"
  by (auto simp: blocks_in_def rest_def seg_append)

section \<open>Making and merging blocks\<close>

lemma link_after_blocks:
  assumes "seg h 0 0 xs p a" "ram h a = Some (node n p u)" "rest h q c ys" "0 < smallest h"
    and "unat a + smallest h \<le> unat b" "unat b + smallest h \<le> unat c" "unat (MEM_ALIGNMENT h) dvd unat b" "unat (MEM_ALIGNMENT h) dvd unat c"
  obtains h' where "link_after h a b c = Some h'" "seg h' 0 0 xs p a" "rest h' p a ((a, b, u) # (b, c, False) # ys)"
    "lfree h' = lfree h" "same_conf h h'"
proof -
  define h1 where "h1 = put_mem a (node b p u) (put_mem b (node c a False) h)"
  have ne: "a \<noteq> b" "b \<noteq> c" "a \<noteq> c"
    using assms(4-6) by auto
  have front: "x \<noteq> a \<and> x \<noteq> b \<and> x \<noteq> c" if "unat x < unat a" for x
    using that assms(4-6) by auto
  have r1: "rest h1 q c ys"
    by (rule rest_frame [OF assms(3)]) (use assms(4-6) in \<open>auto simp: h1_def\<close>)
  have s1: "seg h1 0 0 xs p a"
    by (rule seg_other [OF assms(1,4)]) (use front in \<open>simp_all add: h1_def\<close>)
  obtain h' where h': "(if c \<noteq> MEM_SIZE_ALIGNED h1 then set_prev c b h1 else Some h1) = Some h'" "rest h' b c ys"
    "\<And>x. x \<noteq> c \<Longrightarrow> ram h' x = ram h1 x" "lfree h' = lfree h1" "same_conf h1 h'"
  proof (cases "c = MEM_SIZE_ALIGNED h1")
    case True
    then have "ys = []"
      using r1 rest_end [of h1 q ys] assms(4) by (simp add: h1_def)
    then show ?thesis
      using that [of h1] True r1 by (simp add: rest_Nil)
  next
    case False
    obtain h' where "set_prev c b h1 = Some h'" "rest h' b c ys" "\<And>x. x \<noteq> c \<Longrightarrow> ram h' x = ram h1 x" "lfree h' = lfree h1" "same_conf h1 h'"
      by (rule rest_set_prev [OF r1, of b]) (use assms(4) in \<open>auto simp: h1_def\<close>)
    then show ?thesis
      using that False by simp
  qed
  have "same_conf h h'"
    using h'(5) by (simp add: same_conf_def h1_def)
  moreover have "seg h' 0 0 xs p a"
    by (rule seg_other [OF s1]) (use h'(3,5) assms(4) front in \<open>simp_all add: h1_def\<close>)
  moreover have "rest h' p a ((a, b, u) # (b, c, False) # ys)"
    using h'(2,3) ne assms(5-8) same_confD [OF \<open>same_conf h h'\<close>] by (simp add: rest_Cons) (simp add: h1_def)
  moreover have "link_after h a b c = Some h'"
    using assms(2) ne h'(1) by (cases "c = MEM_SIZE_ALIGNED h") (simp_all add: link_after_def Let_def h1_def)
  ultimately show ?thesis
    using that h'(4) by (simp add: h1_def)
qed

text \<open>A freed block swallows a free successor.\<close>

lemma plug_forward_blocks:
  assumes "seg h 0 0 xs p a" "rest h p a ((a, n, False) # ys)" "0 < smallest h"
  obtains h' n' where "plug_forward h a = Some h'" "seg h' 0 0 xs p a" "same_conf h h'"
    "case ys of (b, m, False) # zs \<Rightarrow> rest h' p a ((a, m, False) # zs) \<and> lfree h' = (if lfree h = n then a else lfree h)
     | _ \<Rightarrow> rest h' p a ((a, n, False) # ys) \<and> lfree h' = lfree h"
proof -
  have a: "ram h a = Some (node n p False)" "unat a + smallest h \<le> unat n" "rest h a n ys"
    using assms(2) by (simp_all add: rest_Cons)
  show ?thesis
  proof (cases "\<exists>m zs. ys = (n, m, False) # zs")
    case True
    then obtain m zs where ys: "ys = (n, m, False) # zs"
      by blast
    with a have n: "ram h n = Some (node m a False)" "unat n + smallest h \<le> unat m" "rest h n m zs" "unat (MEM_ALIGNMENT h) dvd unat m"
      by (simp_all add: rest_Cons)
    define h0 where "h0 = (if lfree h = n then h\<lparr>lfree := a\<rparr> else h)"
    have h0 [simp]: "ram h0 = ram h" "same_conf h h0" "lfree h0 = (if lfree h = n then a else lfree h)"
      by (simp_all add: h0_def)
    let ?h = "put_mem a (node m p False) h0"
    have "rest ?h n m zs"
      by (rule rest_frame [OF n(3)]) (use a n assms(3) in auto)
    moreover have "0 < smallest ?h"
      using assms(3) same_confD(4) [OF h0(2)] by simp
    ultimately obtain h' where h': "set_prev m a ?h = Some h'" "rest h' a m zs" "\<And>x. x \<noteq> m \<Longrightarrow> ram h' x = ram ?h x" "lfree h' = lfree ?h" "same_conf ?h h'"
      using rest_set_prev [of ?h n m zs a] by blast
    have conf: "same_conf h h'"
      using h'(5) h0(2) by (simp add: same_conf_def)
    have "n \<noteq> MEM_SIZE_ALIGNED h" "a \<noteq> n" "a \<noteq> m"
      using n(2) a(2) assms(3) rest_le [OF n(3)] by auto
    moreover from this have "plug_forward h a = Some h'"
      using a(1) n(1) h'(1) by (simp add: plug_forward_def Let_def h0_def)
    moreover have "x \<noteq> a \<and> x \<noteq> m" if "unat x < unat a" for x
      using that a(2) n(2) by auto
    then have "seg h' 0 0 xs p a"
      by (intro seg_other [OF assms(1,3) conf]) (use h'(3) in simp)
    moreover have "rest h' p a ((a, m, False) # zs)"
      using h'(2,3) \<open>a \<noteq> m\<close> a(2) n(2,4) same_confD [OF conf] by (simp add: rest_Cons)
    ultimately show ?thesis
      using that [of h'] ys h'(4) conf by simp
  next
    case False
    have "\<exists>e. ram h n = Some e \<and> (mem_used e \<noteq> 0 \<or> n = MEM_SIZE_ALIGNED h)"
      using a(3) False by (cases ys) (auto simp: rest_Cons rest_Nil end_ok_def)
    then have "plug_forward h a = Some h"
      using a(1) by (auto simp: plug_forward_def Let_def)
    moreover have "case ys of (b, m, False) # zs \<Rightarrow> rest h p a ((a, m, False) # zs) \<and> lfree h = (if lfree h = n then a else lfree h)
      | _ \<Rightarrow> rest h p a ((a, n, False) # ys) \<and> lfree h = lfree h"
      using False a(3) assms(2) by (auto split: list.splits bool.splits) (auto simp: rest_Cons)
    ultimately show ?thesis
      using that [of h] assms(1) by simp
  qed
qed

text \<open>A freed block is swallowed by a free predecessor.\<close>

lemma plug_backward_merges:
  assumes "seg h 0 0 (ws @ [(b, a', False)]) p a" "rest h p a ((a, n, False) # ys)" "0 < smallest h"
  obtains h' p0 where "plug_backward h a = Some h'" "seg h' 0 0 ws p0 b" "rest h' p0 b ((b, n, False) # ys)" "same_conf h h'"
    "lfree h' = (if lfree h = a then b else lfree h)"
proof -
  have a: "ram h a = Some (node n p False)" "unat a + smallest h \<le> unat n" "rest h a n ys" "unat (MEM_ALIGNMENT h) dvd unat n"
    using assms(2) by (simp_all add: rest_Cons)
  obtain p0 where b: "seg h 0 0 ws p0 b" "ram h b = Some (node a p0 False)" "unat b + smallest h \<le> unat a" "p = b"
    using assms(1) by (auto simp: seg_append)
  define h0 where "h0 = (if lfree h = a then h\<lparr>lfree := b\<rparr> else h)"
  have h0 [simp]: "ram h0 = ram h" "same_conf h h0" "lfree h0 = (if lfree h = a then b else lfree h)"
    by (simp_all add: h0_def)
  let ?h = "put_mem b (node n p0 False) h0"
  have "rest ?h a n ys"
    by (rule rest_frame [OF a(3)]) (use a b assms(3) in auto)
  moreover have "0 < smallest ?h"
    using assms(3) same_confD(4) [OF h0(2)] by simp
  ultimately obtain h' where h': "set_prev n b ?h = Some h'" "rest h' b n ys" "\<And>x. x \<noteq> n \<Longrightarrow> ram h' x = ram ?h x" "lfree h' = lfree ?h" "same_conf ?h h'"
    using rest_set_prev [of ?h a n ys b] by blast
  have conf: "same_conf h h'"
    using h'(5) h0(2) by (simp add: same_conf_def)
  have ne: "b \<noteq> a" "b \<noteq> n"
    using b(3) a(2) assms(3) by auto
  then have "plug_backward h a = Some h'"
    using a(1) b(2,4) h'(1) by (cases "lfree h = a") (simp_all add: plug_backward_def Let_def h0_def)
  moreover have "x \<noteq> b \<and> x \<noteq> n" if "unat x < unat b" for x
    using that a(2) b(3) by auto
  then have "seg h' 0 0 ws p0 b"
    by (intro seg_other [OF b(1) assms(3) conf]) (use h'(3) in simp)
  moreover have "rest h' p0 b ((b, n, False) # ys)"
    using h'(2,3) ne a(2,4) b(3) same_confD [OF conf] by (simp add: rest_Cons)
  ultimately show ?thesis
    using that h'(4) conf by simp
qed

lemma plug_backward_stays:
  assumes "seg h 0 0 xs p a" "ram h a = Some (node n p False)" "\<And>ws b m. xs \<noteq> ws @ [(b, m, False)]"
  shows "plug_backward h a = Some h"
proof (cases xs rule: rev_cases)
  case Nil
  then show ?thesis
    using assms(1,2) by (simp add: plug_backward_def Let_def)
next
  case (snoc ws c)
  obtain b m u where c: "c = (b, m, u)"
    by (cases c)
  then have u
    using snoc assms(3) by (cases u) auto
  then show ?thesis
    using snoc c assms(1,2) by (auto simp: plug_backward_def Let_def seg_append)
qed

section \<open>The heap and its free blocks\<close>

definition first_free :: "mem_heap \<Rightarrow> block list \<Rightarrow> mem_size" where
  "first_free h bs = (case find (\<lambda>(a, n, u). \<not> u) bs of Some (a, n, u) \<Rightarrow> a | None \<Rightarrow> MEM_SIZE_ALIGNED h)"

fun no_free_pair :: "block list \<Rightarrow> bool" where
  "no_free_pair ((a, n, u) # (b, m, v) # bs) \<longleftrightarrow> (u \<or> v) \<and> no_free_pair ((b, m, v) # bs)"
| "no_free_pair _ = True"

text \<open>The configuration: an alignment that is a power of two and room for one block.\<close>

definition conf_ok :: "mem_heap \<Rightarrow> bool" where
  "conf_ok h \<longleftrightarrow> (\<exists>k\<le>4. MEM_ALIGNMENT h = 2 ^ k) \<and> MEM_SIZE h \<le> 64000 \<and> smallest h \<le> unat (MEM_SIZE_ALIGNED h)"

definition heap_is :: "mem_heap \<Rightarrow> block list \<Rightarrow> bool" where
  "heap_is h bs \<longleftrightarrow> conf_ok h \<and> rest h 0 0 bs \<and> bs \<noteq> [] \<and> no_free_pair bs \<and> lfree h = first_free h bs"

lemma align_mask: "(2 :: mem_size) ^ k - 1 = mask k"
  by (simp add: mask_eq_exp_minus_1)

lemma unat_align_down:
  fixes w :: mem_size
  shows "unat (w AND NOT (mask k)) = unat w div 2 ^ k * 2 ^ k"
proof -
  have "w AND NOT (mask k) = push_bit k (drop_bit k w)"
    by (rule bit_word_eqI) (auto simp: bit_and_iff bit_not_iff bit_mask_iff bit_push_bit_iff bit_drop_bit_eq)
  moreover have "unat w div 2 ^ k * 2 ^ k < 2 ^ 16"
    using unat_lt [of w] le_less_trans [OF div_times_less_eq_dividend] by simp
  ultimately show ?thesis
    by (simp add: unat_push_bit_mod unat_drop_bit_div)
qed

lemma align_size:
  assumes "MEM_ALIGNMENT h = 2 ^ k" "k \<le> 4"
  shows "unat (MEM_ALIGNMENT h) dvd unat (LWIP_MEM_ALIGN_SIZE h sz)"
    "unat sz + unat (MEM_ALIGNMENT h) \<le> 65536 \<Longrightarrow> unat sz \<le> unat (LWIP_MEM_ALIGN_SIZE h sz) \<and> unat (LWIP_MEM_ALIGN_SIZE h sz) < unat sz + unat (MEM_ALIGNMENT h)"
    "unat (MEM_ALIGNMENT h) = 2 ^ k"
proof -
  have "k \<in> {0, 1, 2, 3, 4}"
    using assms(2) by auto
  then show A: "unat (MEM_ALIGNMENT h) = 2 ^ k"
    using assms(1) by auto
  have al: "unat (LWIP_MEM_ALIGN_SIZE h sz) = unat (sz + (2 ^ k - 1)) div 2 ^ k * 2 ^ k"
    using unat_align_down [of "sz + (2 ^ k - 1)" k] assms(1) by (simp add: LWIP_MEM_ALIGN_SIZE_def add_diff_eq flip: align_mask)
  then show "unat (MEM_ALIGNMENT h) dvd unat (LWIP_MEM_ALIGN_SIZE h sz)"
    unfolding A by simp
  assume le: "unat sz + unat (MEM_ALIGNMENT h) \<le> 65536"
  have "unat ((2 :: mem_size) ^ k - 1) = 2 ^ k - 1"
    using \<open>k \<in> {0, 1, 2, 3, 4}\<close> by auto
  moreover have "(1 :: nat) \<le> 2 ^ k"
    by simp
  ultimately have "unat (sz + (2 ^ k - 1)) = unat sz + (2 ^ k - 1)"
    using le unfolding A by (subst unat_add_lem [THEN iffD1]) simp_all
  moreover have "n \<le> (n + (2 ^ k - 1)) div 2 ^ k * 2 ^ k \<and> (n + (2 ^ k - 1)) div 2 ^ k * 2 ^ k < n + 2 ^ k" for n :: nat
  proof -
    have "(n + (2 ^ k - 1)) div 2 ^ k * 2 ^ k + (n + (2 ^ k - 1)) mod 2 ^ k = n + (2 ^ k - 1)"
      by (rule div_mult_mod_eq)
    moreover have "(n + (2 ^ k - 1)) mod 2 ^ k < 2 ^ k"
      by simp
    ultimately show ?thesis
      using \<open>(1 :: nat) \<le> 2 ^ k\<close> by linarith
  qed
  ultimately show "unat sz \<le> unat (LWIP_MEM_ALIGN_SIZE h sz) \<and> unat (LWIP_MEM_ALIGN_SIZE h sz) < unat sz + unat (MEM_ALIGNMENT h)"
    unfolding al A by simp
qed

lemma conf_okD:
  assumes "conf_ok h"
  shows "0 < unat (MEM_ALIGNMENT h)" "unat (MEM_ALIGNMENT h) \<le> 16" "unat (MEM_ALIGNMENT h) dvd unat (SIZEOF_STRUCT_MEM h)"
    "unat (MEM_ALIGNMENT h) dvd unat (MIN_SIZE_ALIGNED h)" "unat (MEM_ALIGNMENT h) dvd unat (MEM_SIZE_ALIGNED h)"
    "6 \<le> unat (SIZEOF_STRUCT_MEM h)" "unat (SIZEOF_STRUCT_MEM h) < 22" "12 \<le> unat (MIN_SIZE_ALIGNED h)" "unat (MIN_SIZE_ALIGNED h) < 28"
    "unat (MEM_SIZE_ALIGNED h) < 64016" "0 < smallest h" "smallest h < 50"
proof -
  obtain k where k: "MEM_ALIGNMENT h = 2 ^ k" "k \<le> 4" and sz: "MEM_SIZE h \<le> 64000"
    using assms by (auto simp: conf_ok_def)
  have A: "unat (MEM_ALIGNMENT h) = 2 ^ k"
    by (rule align_size(3) [OF k])
  have "(2 :: nat) ^ k \<le> 2 ^ 4"
    using k(2) by (intro power_increasing) simp_all
  then show "0 < unat (MEM_ALIGNMENT h)" and 16: "unat (MEM_ALIGNMENT h) \<le> 16"
    unfolding A by simp_all
  show "unat (MEM_ALIGNMENT h) dvd unat (SIZEOF_STRUCT_MEM h)" "unat (MEM_ALIGNMENT h) dvd unat (MIN_SIZE_ALIGNED h)"
    "unat (MEM_ALIGNMENT h) dvd unat (MEM_SIZE_ALIGNED h)"
    by (simp_all add: SIZEOF_STRUCT_MEM_def MIN_SIZE_ALIGNED_def MEM_SIZE_ALIGNED_def align_size(1) [OF k])
  have "unat (MEM_SIZE h) \<le> 64000"
    using sz by (simp add: word_le_nat_alt)
  with 16 show "6 \<le> unat (SIZEOF_STRUCT_MEM h)" "unat (SIZEOF_STRUCT_MEM h) < 22" "12 \<le> unat (MIN_SIZE_ALIGNED h)"
    "unat (MIN_SIZE_ALIGNED h) < 28" "unat (MEM_SIZE_ALIGNED h) < 64016"
    using align_size(2) [OF k, of 6] align_size(2) [OF k, of 12] align_size(2) [OF k, of "MEM_SIZE h"]
    by (simp_all add: SIZEOF_STRUCT_MEM_def MIN_SIZE_ALIGNED_def MEM_SIZE_ALIGNED_def)
  then show "0 < smallest h" "smallest h < 50"
    by (simp_all add: smallest_def)
qed

lemma no_free_pair_Cons: "no_free_pair (c # bs) \<longleftrightarrow> (bs = [] \<or> snd (snd c) \<or> snd (snd (hd bs))) \<and> no_free_pair bs"
  by (cases c; cases bs) auto

lemma no_free_pair_append:
  "no_free_pair (xs @ ys) \<longleftrightarrow> no_free_pair xs \<and> no_free_pair ys \<and> (xs = [] \<or> ys = [] \<or> snd (snd (last xs)) \<or> snd (snd (hd ys)))"
  by (induction xs) (auto simp: no_free_pair_Cons)

lemma first_free_append:
  "first_free h (xs @ ys) = (if \<exists>a n. (a, n, False) \<in> set xs then first_free h xs else first_free h ys)"
  by (induction xs) (auto simp: first_free_def)

lemma first_free_Cons [simp]: "first_free h ((a, n, u) # bs) = (if u then first_free h bs else a)"
  by (simp add: first_free_def)

lemma first_free_conf: "same_conf h h' \<Longrightarrow> first_free h' bs = first_free h bs"
  using same_confD(3) [of h h'] by (simp add: first_free_def split: option.split)

lemma first_free_lfree [simp]: "first_free (h\<lparr>lfree := l\<rparr>) bs = first_free h bs"
  by (simp add: first_free_def split: option.split)

lemma first_free_in: "\<exists>a n. (a, n, False) \<in> set bs \<Longrightarrow> \<exists>n. (first_free h bs, n, False) \<in> set bs"
  by (induction bs) (auto simp: first_free_def)

lemma first_free_ge:
  assumes "rest h p a bs" "0 < smallest h"
  shows "unat a \<le> unat (first_free h bs)"
proof (cases "\<exists>a n. (a, n, False) \<in> set bs")
  case True
  then obtain n where "(first_free h bs, n, False) \<in> set bs"
    using first_free_in by blast
  then show ?thesis
    using assms seg_starts unfolding rest_def by blast
next
  case False
  then have "first_free h bs = MEM_SIZE_ALIGNED h"
    by (induction bs) (auto simp: first_free_def)
  then show ?thesis
    using rest_le [OF assms(1)] by simp
qed

lemma first_free_front:
  assumes "seg h p a xs p' a'" "0 < smallest h" "\<exists>a n. (a, n, False) \<in> set xs"
  shows "unat (first_free h xs) < unat a'"
proof -
  obtain n where "(first_free h xs, n, False) \<in> set xs"
    using first_free_in [OF assms(3)] by blast
  then show ?thesis
    using seg_starts [OF assms(1) _ assms(2)] assms(2) by fastforce
qed

section \<open>Release\<close>

text \<open>What \<^verbatim>\<open>mem_free\<close> does to the list: the block becomes free and neighbours that are free are merged.\<close>

fun merge_free :: "block list \<Rightarrow> block list" where
  "merge_free ((a, n, u) # (b, m, v) # bs) =
     (if \<not> u \<and> \<not> v then merge_free ((a, m, False) # bs) else (a, n, u) # merge_free ((b, m, v) # bs))"
| "merge_free bs = bs"

definition release_block :: "mem_size \<Rightarrow> block list \<Rightarrow> block list" where
  "release_block a bs = merge_free (map (\<lambda>(b, n, u). (b, n, u \<and> b \<noteq> a)) bs)"

lemma merge_free_id: "no_free_pair bs \<Longrightarrow> merge_free bs = bs"
  by (induction bs rule: merge_free.induct) auto

lemma merge_free_append:
  "no_free_pair xs \<Longrightarrow> xs = [] \<or> snd (snd (last xs)) \<Longrightarrow> merge_free (xs @ ys) = xs @ merge_free ys"
proof (induction xs)
  case (Cons c xs)
  obtain a n u where c: "c = (a, n, u)"
    by (cases c)
  show ?case
  proof (cases xs)
    case Nil
    with Cons.prems c show ?thesis by (cases ys) auto
  next
    case (Cons d zs)
    with Cons.prems Cons.IH c show ?thesis by (cases d) auto
  qed
qed simp

lemma merge_free_hole:
  assumes "no_free_pair ys"
  shows "merge_free ((a, n, False) # ys) = (case ys of (b, m, False) # zs \<Rightarrow> (a, m, False) # zs | _ \<Rightarrow> (a, n, False) # ys)"
proof (cases ys)
  case (Cons c zs)
  obtain b m v where "c = (b, m, v)"
    by (cases c)
  with Cons assms show ?thesis
    by (cases v; cases zs) (auto simp: no_free_pair_Cons merge_free_id split: prod.splits)
qed simp

lemma merge_free_last:
  assumes "no_free_pair (ws @ [(b, a, False)])"
  shows "merge_free (ws @ (b, a, False) # (a, n, False) # ys) = ws @ merge_free ((b, n, False) # ys)"
proof -
  have "merge_free (ws @ (b, a, False) # (a, n, False) # ys) = ws @ merge_free ((b, a, False) # (a, n, False) # ys)"
    using assms by (intro merge_free_append) (auto simp: no_free_pair_append)
  then show ?thesis
    by simp
qed

text \<open>What the list says about one block.\<close>

lemma heap_isD:
  assumes "heap_is h bs" "(a, n, u) \<in> set bs"
  obtains xs ys p where "bs = xs @ (a, n, u) # ys" "seg h 0 0 xs p a" "rest h p a ((a, n, u) # ys)"
    "unat a + smallest h \<le> unat n" "unat n \<le> unat (MEM_SIZE_ALIGNED h)" "a \<notin> fst ` set xs" "a \<notin> fst ` set ys"
proof -
  obtain xs ys where bs: "bs = xs @ (a, n, u) # ys"
    using assms(2) by (meson split_list)
  have pos: "0 < smallest h"
    using assms(1) conf_okD(11) by (auto simp: heap_is_def)
  obtain p where p: "seg h 0 0 xs p a" "rest h p a ((a, n, u) # ys)"
    using assms(1) bs pos blocks_in_split [of h xs a n u ys] by (auto simp: heap_is_def blocks_in_def)
  then have n: "unat a + smallest h \<le> unat n" "rest h a n ys"
    by (simp_all add: rest_Cons)
  have "a \<notin> fst ` set xs"
    using seg_starts [OF p(1) _ pos] pos by fastforce
  moreover have "a \<notin> fst ` set ys"
    using n pos seg_starts [of h a n ys _ "MEM_SIZE_ALIGNED h"] unfolding rest_def by fastforce
  ultimately show ?thesis
    using that bs p n(1) rest_le [OF n(2)] by blast
qed

lemma mark_block: "a \<notin> fst ` set xs \<Longrightarrow> map (\<lambda>(b, n, u). (b, n, u \<and> b \<noteq> a)) xs = xs"
  by (induction xs) auto

text \<open>The pointer to the data of the block at \<open>a\<close>.\<close>

definition data_at :: "mem_heap \<Rightarrow> mem_size \<Rightarrow> int" where
  "data_at h a = int (unat a) + int (unat (SIZEOF_STRUCT_MEM h))"

lemma mem_of_data [simp]: "mem_of h (data_at h a) = Some a"
  by (simp add: mem_of_def data_at_def)

lemma data_in_heap:
  assumes "unat a + smallest h \<le> unat n" "unat n \<le> unat (MEM_SIZE_ALIGNED h)" "0 < unat (MIN_SIZE_ALIGNED h)"
  shows "\<not> (data_at h a < 0 \<or> data_at h a \<ge> int (unat (MEM_SIZE_ALIGNED h)))"
  using assms by (simp add: data_at_def smallest_def del: of_nat_unat)

text \<open>The steps of \<^verbatim>\<open>mem_free\<close> after the block at \<open>a\<close> is marked.\<close>

lemma plug_holes_blocks:
  assumes "seg h 0 0 xs p a" "rest h p a ((a, n, False) # ys)" "conf_ok h" "no_free_pair xs" "no_free_pair ys"
    and lf: "lfree h = first_free h (xs @ (a, n, False) # ys)"
  shows "\<exists>h'. plug_holes h a = Some h' \<and> heap_is h' (merge_free (xs @ (a, n, False) # ys)) \<and> same_conf h h'"
proof -
  have pos: "0 < smallest h"
    using conf_okD(11) [OF assms(3)] .
  have an: "unat a < unat n"
    using assms(2) pos by (simp add: rest_Cons)
  have le: "unat (lfree h) \<le> unat a"
    using lf first_free_front [OF assms(1) pos] by (cases "\<exists>a n. (a, n, False) \<in> set xs") (auto simp: first_free_append less_imp_le)
  obtain h1 where h1: "plug_forward h a = Some h1" "seg h1 0 0 xs p a" "same_conf h h1"
    "case ys of (b, m, False) # zs \<Rightarrow> rest h1 p a ((a, m, False) # zs) \<and> lfree h1 = (if lfree h = n then a else lfree h)
     | _ \<Rightarrow> rest h1 p a ((a, n, False) # ys) \<and> lfree h1 = lfree h"
    by (rule plug_forward_blocks [OF assms(1,2) pos])
  define hole where "hole = merge_free ((a, n, False) # ys)"
  obtain m zs where hole': "hole = (a, m, False) # zs" and r1: "rest h1 p a hole" and l1: "lfree h1 = lfree h"
    and nf: "no_free_pair zs" "zs = [] \<or> snd (snd (hd zs))"
    using h1(4) le an assms(5) merge_free_hole [OF assms(5), of a n] unfolding hole_def
    by (fastforce simp: no_free_pair_Cons split: list.splits prod.splits bool.splits if_splits)
  have pos1: "0 < smallest h1" and conf1: "conf_ok h1"
    using pos assms(3) same_confD [OF h1(3)] h1(3) by (simp_all add: conf_ok_def same_conf_def)
  show ?thesis
  proof (cases "\<exists>ws b k. xs = ws @ [(b, k, False)]")
    case True
    then obtain ws b where xs: "xs = ws @ [(b, a, False)]"
      using assms(1) by (auto simp: seg_append)
    obtain h2 p0 where h2: "plug_backward h1 a = Some h2" "seg h2 0 0 ws p0 b" "rest h2 p0 b ((b, m, False) # zs)" "same_conf h1 h2"
      "lfree h2 = (if lfree h1 = a then b else lfree h1)"
      using plug_backward_merges [OF h1(2) [unfolded xs] r1 [unfolded hole'] pos1] by blast
    have free: "\<exists>a n. (a, n, False) \<in> set xs"
      using xs by auto
    then have "lfree h = first_free h xs"
      using lf unfolding first_free_append by metis
    then have "lfree h \<noteq> a"
      using first_free_front [OF assms(1) pos free] by auto
    then have "lfree h2 = first_free h2 (ws @ (b, m, False) # zs)"
      using h2(5) l1 lf same_conf_trans [OF h1(3) h2(4)] by (simp add: xs first_free_append first_free_conf)
    moreover have "rest h2 0 0 (ws @ (b, m, False) # zs)"
      using h2(2,3) by (auto simp: rest_def seg_append)
    moreover have "merge_free (xs @ (a, n, False) # ys) = ws @ (b, m, False) # zs"
      using merge_free_last [of ws b a n ys] assms(4) merge_free_hole [OF assms(5)] hole' unfolding xs hole_def
      by (simp split: list.splits prod.splits bool.splits)
    moreover have "conf_ok h2"
      using conf1 h2(4) same_confD [OF h2(4)] by (simp add: conf_ok_def same_conf_def)
    ultimately show ?thesis
      using h1(1) h2(1) same_conf_trans [OF h1(3) h2(4)] assms(4) nf
      by (auto simp: plug_holes_def heap_is_def xs no_free_pair_append no_free_pair_Cons)
  next
    case False
    have "ram h1 a = Some (node m p False)"
      using r1 by (simp add: hole' rest_Cons)
    then have "plug_backward h1 a = Some h1"
      using plug_backward_stays [OF h1(2)] False by blast
    moreover have used: "xs = [] \<or> snd (snd (last xs))"
      using False by (cases xs rule: rev_cases) auto
    moreover have "merge_free (xs @ (a, n, False) # ys) = xs @ (a, m, False) # zs"
      using merge_free_append [OF assms(4) used] hole' by (simp add: hole_def)
    moreover have "rest h1 0 0 (xs @ (a, m, False) # zs)"
      using h1(2) r1 by (auto simp: rest_def seg_append hole')
    moreover have "lfree h1 = first_free h1 (xs @ (a, m, False) # zs)"
      using l1 lf h1(3) by (simp add: first_free_append first_free_conf)
    ultimately show ?thesis
      using h1(1,3) conf1 assms(4) nf by (auto simp: plug_holes_def heap_is_def no_free_pair_append no_free_pair_Cons)
  qed
qed

lemma mem_free_blocks:
  assumes "heap_is h bs" "(a, n, True) \<in> set bs"
  shows "\<exists>h'. mem_free h (Some (data_at h a)) = Some h' \<and> heap_is h' (release_block a bs) \<and> same_conf h h'"
proof -
  obtain xs ys p where bs: "bs = xs @ (a, n, True) # ys" and p: "seg h 0 0 xs p a" "rest h p a ((a, n, True) # ys)"
    and n: "unat a + smallest h \<le> unat n" "unat n \<le> unat (MEM_SIZE_ALIGNED h)" and d: "a \<notin> fst ` set xs" "a \<notin> fst ` set ys"
    by (rule heap_isD [OF assms])
  have conf: "conf_ok h" and lf: "lfree h = first_free h bs" and nf: "no_free_pair xs" "no_free_pair ys"
    using assms(1) by (simp_all add: heap_is_def bs no_free_pair_append no_free_pair_Cons)
  note c = conf_okD [OF conf]
  define h0 where "h0 = put_mem a (node n p False) h"
  define h1 where "h1 = (if a < lfree h0 then h0\<lparr>lfree := a\<rparr> else h0)"
  have same: "same_conf h h1" "ram h1 = (ram h)(a \<mapsto> node n p False)"
    by (simp_all add: h1_def h0_def)
  have s1: "seg h1 0 0 xs p a"
    by (rule seg_other [OF p(1) c(11) same(1)]) (auto simp: same)
  have "rest h1 a n ys"
    by (rule rest_frame [of h a n ys]) (use p(2) same n c(11) in \<open>auto simp: rest_Cons\<close>)
  then have r1: "rest h1 p a ((a, n, False) # ys)"
    using p(2) same same_confD [OF same(1)] by (simp add: rest_Cons)
  have "lfree h1 = first_free h1 (xs @ (a, n, False) # ys)"
  proof (cases "\<exists>a n. (a, n, False) \<in> set xs")
    case True
    then show ?thesis
      using lf first_free_front [OF p(1) c(11) True] first_free_conf [OF same(1)]
      by (auto simp: h1_def h0_def bs first_free_append word_less_nat_alt)
  next
    case False
    have "unat n \<le> unat (first_free h ys)"
      using first_free_ge [of h a n ys] p(2) c(11) by (simp add: rest_Cons)
    then show ?thesis
      using False lf n(1) c(11) by (auto simp: h1_def h0_def bs first_free_append word_less_nat_alt)
  qed
  moreover have "conf_ok h1"
    using conf same(1) same_confD [OF same(1)] by (simp add: conf_ok_def same_conf_def)
  ultimately obtain h' where h': "plug_holes h1 a = Some h'" "heap_is h' (merge_free (xs @ (a, n, False) # ys))" "same_conf h1 h'"
    using plug_holes_blocks [OF s1 r1 _ nf] by blast
  have "release_block a bs = merge_free (xs @ (a, n, False) # ys)"
    by (simp add: release_block_def bs mark_block d)
  moreover have "mem_free h (Some (data_at h a)) = plug_holes h1 a"
    using p(2) data_in_heap [OF n] c(8) by (simp add: mem_free_def Let_def rest_Cons h1_def h0_def)
  ultimately show ?thesis
    using h' same_conf_trans [OF same(1)] by auto
qed

section \<open>Allocation\<close>

text \<open>What \<^verbatim>\<open>mem_malloc\<close> does to the list: the first free block with room for \<open>sz\<close> octets is taken, and split when the rest can
  be a block.\<close>

definition taken :: "mem_heap \<Rightarrow> mem_size \<Rightarrow> mem_size \<Rightarrow> mem_size \<Rightarrow> block list" where
  "taken h sz a n =
     (let b = a + SIZEOF_STRUCT_MEM h + sz in
      if unat b + smallest h \<le> unat n then [(a, b, True), (b, n, False)] else [(a, n, True)])"

definition has_room :: "mem_heap \<Rightarrow> mem_size \<Rightarrow> mem_size \<Rightarrow> mem_size \<Rightarrow> bool" where
  "has_room h sz a n \<longleftrightarrow> unat a + unat (SIZEOF_STRUCT_MEM h) + unat sz \<le> unat n"

fun first_fit :: "mem_heap \<Rightarrow> mem_size \<Rightarrow> block list \<Rightarrow> (mem_size \<times> block list) option" where
  "first_fit h sz [] = None"
| "first_fit h sz ((a, n, u) # bs) =
     (if \<not> u \<and> has_room h sz a n then Some (a, taken h sz a n @ bs)
      else do { (b, bs) \<leftarrow> first_fit h sz bs; Some (b, (a, n, u) # bs) })"

lemma mark_used:
  assumes "seg h 0 0 xs p a" "rest h p a ((a, n, u) # ys)" "0 < smallest h"
  shows "seg (put_mem a (node n p v) h) 0 0 xs p a" "rest (put_mem a (node n p v) h) p a ((a, n, v) # ys)"
proof -
  show "seg (put_mem a (node n p v) h) 0 0 xs p a"
    using assms by (intro seg_put) simp_all
  have "rest (put_mem a (node n p v) h) a n ys"
    by (rule rest_frame [of h]) (use assms(2,3) in \<open>auto simp: rest_Cons\<close>)
  then show "rest (put_mem a (node n p v) h) p a ((a, n, v) # ys)"
    using assms(2) by (simp add: rest_Cons)
qed

lemma next_free_first: "rest h p a ys \<Longrightarrow> 0 < smallest h \<Longrightarrow> next_free h a = Some (first_free h ys)"
proof (induction ys arbitrary: p a)
  case Nil
  then show ?case
    by (subst next_free.simps) (auto simp: rest_Nil end_ok_def first_free_def)
next
  case (Cons c ys)
  obtain b n u where c: "c = (b, n, u)"
    by (cases c)
  with Cons.prems have r: "ram h a = Some (node n p u)" "rest h a n ys" "b = a" "unat a + smallest h \<le> unat n"
    by (simp_all add: rest_Cons)
  then have "a \<noteq> MEM_SIZE_ALIGNED h"
    using Cons.prems(2) rest_le [OF r(2)] by auto
  then show ?case
    using r c Cons.IH [OF r(2) Cons.prems(2)] by (subst next_free.simps) simp
qed

lemma size_t_sub:
  assumes "unat a + unat (k :: mem_size) \<le> unat n"
  shows "unat (ucast (n :: mem_size) - (ucast (a :: mem_size) + ucast k) :: size_t) = unat n - (unat a + unat k)"
proof -
  have "unat (ucast a + ucast k :: size_t) = unat a + unat k"
    using unat_lt [of a] unat_lt [of k] by (simp add: unat_word_ariths unat_ucast_mod)
  then show ?thesis
    using assms unat_lt [of n] by (subst unat_sub) (simp_all add: word_le_nat_alt unat_ucast_mod)
qed

lemma size_t_tests:
  assumes "unat a + smallest h \<le> unat n"
  shows "(ucast sz :: size_t) \<le> ucast n - (ucast a + ucast (SIZEOF_STRUCT_MEM h)) \<longleftrightarrow> has_room h sz a n"
    "has_room h sz a n \<Longrightarrow> (ucast sz + ucast (SIZEOF_STRUCT_MEM h) + ucast (MIN_SIZE_ALIGNED h) :: size_t)
       \<le> ucast n - (ucast a + ucast (SIZEOF_STRUCT_MEM h)) \<longleftrightarrow> unat (a + SIZEOF_STRUCT_MEM h + sz) + smallest h \<le> unat n"
    "has_room h sz a n \<Longrightarrow> unat (a + SIZEOF_STRUCT_MEM h + sz) = unat a + unat (SIZEOF_STRUCT_MEM h) + unat sz"
proof -
  have le: "unat a + unat (SIZEOF_STRUCT_MEM h) \<le> unat n"
    using assms by (simp add: smallest_def)
  show room: "(ucast sz :: size_t) \<le> ucast n - (ucast a + ucast (SIZEOF_STRUCT_MEM h)) \<longleftrightarrow> has_room h sz a n"
    using le unat_lt [of sz] by (simp only: word_le_nat_alt size_t_sub [OF le]) (auto simp: has_room_def unat_ucast_mod)
  assume r: "has_room h sz a n"
  then show s: "unat (a + SIZEOF_STRUCT_MEM h + sz) = unat a + unat (SIZEOF_STRUCT_MEM h) + unat sz"
    using unat_lt [of n] by (simp add: has_room_def unat_word_ariths)
  have "unat (ucast sz + ucast (SIZEOF_STRUCT_MEM h) + ucast (MIN_SIZE_ALIGNED h) :: size_t) = unat sz + smallest h"
    using unat_lt [of sz] unat_lt [of "SIZEOF_STRUCT_MEM h"] unat_lt [of "MIN_SIZE_ALIGNED h"]
    by (simp add: unat_word_ariths unat_ucast_mod smallest_def)
  then show "(ucast sz + ucast (SIZEOF_STRUCT_MEM h) + ucast (MIN_SIZE_ALIGNED h) :: size_t)
       \<le> ucast n - (ucast a + ucast (SIZEOF_STRUCT_MEM h)) \<longleftrightarrow> unat (a + SIZEOF_STRUCT_MEM h + sz) + smallest h \<le> unat n"
    using r le unfolding s by (simp only: word_le_nat_alt size_t_sub [OF le]) (auto simp: has_room_def)
qed

text \<open>A size that fits the alignment and the minimum.\<close>

definition size_ok :: "mem_heap \<Rightarrow> mem_size \<Rightarrow> bool" where
  "size_ok h sz \<longleftrightarrow> unat (MIN_SIZE_ALIGNED h) \<le> unat sz \<and> unat (MEM_ALIGNMENT h) dvd unat sz"

lemma padded_ok: "conf_ok h \<Longrightarrow> size_ok h (mem_padded h sz)"
  using align_size(1) [of h _ sz] conf_okD(4) [of h]
  by (auto simp: conf_ok_def size_ok_def mem_padded_def Let_def word_less_nat_alt)

lemma mem_use_blocks:
  assumes "seg h 0 0 xs p a" "rest h p a ((a, n, False) # ys)" "conf_ok h" "has_room h sz a n" "size_ok h sz"
  obtains h' where "mem_use h a (node n p False) sz = Some h'" "seg h' 0 0 xs p a" "rest h' p a (taken h sz a n @ ys)"
    "lfree h' = lfree h" "same_conf h h'"
proof -
  note c = conf_okD [OF assms(3)]
  have r: "ram h a = Some (node n p False)" "unat a + smallest h \<le> unat n" "rest h a n ys" "unat (MEM_ALIGNMENT h) dvd unat n"
    using assms(2) by (simp_all add: rest_Cons)
  note t = size_t_tests [OF r(2)]
  let ?b = "a + SIZEOF_STRUCT_MEM h + sz"
  show ?thesis
  proof (cases "unat ?b + smallest h \<le> unat n")
    case True
    have "unat a + smallest h \<le> unat ?b" "unat (MEM_ALIGNMENT h) dvd unat ?b"
      using t(3) [OF assms(4)] assms(5) c(3) p_dvd [OF assms(1)] by (simp_all add: size_ok_def smallest_def)
    then obtain h0 where h0: "link_after h a ?b n = Some h0" "seg h0 0 0 xs p a" "rest h0 p a ((a, ?b, False) # (?b, n, False) # ys)"
      "lfree h0 = lfree h" "same_conf h h0"
      using link_after_blocks [OF assms(1) r(1) r(3) c(11) _ True _ r(4)] by blast
    have pos: "0 < smallest h0"
      using c(11) same_confD(4) [OF h0(5)] by simp
    show ?thesis
      using that [of "put_mem a (node ?b p True) h0"] h0(1,4,5) True t(2) [OF assms(4)] mark_used [OF h0(2,3) pos, of True]
        h0(3) [unfolded rest_Cons, THEN conjunct2, THEN conjunct1] by (simp add: mem_use_def taken_def Let_def)
  next
    case False
    then show ?thesis
      using that [of "put_mem a (node n p True) h"] t(2) [OF assms(4)] mark_used [OF assms(1,2) c(11), of True]
      by (simp add: mem_use_def taken_def)
  qed
qed

lemma mem_take_blocks:
  assumes "heap_is h (xs @ (a, n, False) # ys)" "seg h 0 0 xs p a" "rest h p a ((a, n, False) # ys)"
    and "has_room h sz a n" "size_ok h sz"
  shows "\<exists>h'. mem_take h a (node n p False) sz = Some h' \<and> heap_is h' (xs @ taken h sz a n @ ys) \<and> same_conf h h'"
proof -
  have conf: "conf_ok h" and lf: "lfree h = first_free h (xs @ (a, n, False) # ys)"
    and nf: "no_free_pair xs" "no_free_pair ys" "xs = [] \<or> snd (snd (last xs))" "ys = [] \<or> snd (snd (hd ys))"
    using assms(1) by (auto simp: heap_is_def no_free_pair_append no_free_pair_Cons)
  obtain h1 where h1: "mem_use h a (node n p False) sz = Some h1" "seg h1 0 0 xs p a" "rest h1 p a (taken h sz a n @ ys)"
    "lfree h1 = lfree h" "same_conf h h1"
    by (rule mem_use_blocks [OF assms(2,3) conf assms(4,5)])
  have pos: "0 < smallest h" "0 < smallest h1"
    using conf_okD(11) [OF conf] same_confD(4) [OF h1(5)] by simp_all
  define h2 where "h2 = (if a = lfree h1 then h1\<lparr>lfree := first_free h1 (taken h sz a n @ ys)\<rparr> else h1)"
  have "mem_take h a (node n p False) sz = Some h2"
    using h1(1) next_free_first [OF h1(3) pos(2)] by (auto simp: mem_take_def h2_def)
  moreover have conf2: "same_conf h h2" "same_conf h1 h2"
    using h1(5) by (simp_all add: h2_def)
  moreover have "rest h1 0 0 (xs @ taken h sz a n @ ys)"
    by (rule rest_join [OF h1(2,3)])
  then have "rest h2 0 0 (xs @ taken h sz a n @ ys)"
    by (rule rest_frame [OF _ conf2(2) pos(2)]) (simp add: h2_def)
  moreover have "no_free_pair (xs @ taken h sz a n @ ys)"
    using nf by (auto simp: taken_def Let_def no_free_pair_append no_free_pair_Cons)
  moreover have "lfree h2 = first_free h2 (xs @ taken h sz a n @ ys)"
  proof (cases "\<exists>a n. (a, n, False) \<in> set xs")
    case True
    then have "lfree h = first_free h xs"
      using lf unfolding first_free_append by metis
    then show ?thesis
      using True first_free_front [OF assms(2) pos(1) True] h1(4) first_free_conf [OF conf2(1)]
      by (auto simp: h2_def first_free_append)
  next
    case False
    then have "lfree h = a"
      using lf unfolding first_free_append by simp
    then show ?thesis
      using False h1(4) by (auto simp: h2_def first_free_append)
  qed
  moreover have "conf_ok h2"
    using conf conf2(1) same_confD [OF conf2(1)] by (simp add: conf_ok_def same_conf_def)
  ultimately show ?thesis
    by (auto simp: heap_is_def taken_def Let_def)
qed

lemma first_fit_append:
  "first_fit h sz (xs @ ys) = (case first_fit h sz xs of Some (a, bs) \<Rightarrow> Some (a, bs @ ys)
     | None \<Rightarrow> do { (b, bs) \<leftarrow> first_fit h sz ys; Some (b, xs @ bs) })"
  by (cases "first_fit h sz ys"; induction xs) (auto split: option.splits if_splits)

lemma first_fit_none:
  assumes "\<And>a n u. (a, n, u) \<in> set bs \<Longrightarrow> u \<or> \<not> has_room h sz a n"
  shows "first_fit h sz bs = None"
  using assms
proof (induction bs)
  case (Cons c bs)
  obtain a n u where c: "c = (a, n, u)"
    by (cases c)
  have "first_fit h sz bs = None"
    using Cons.prems by (intro Cons.IH) simp
  then show ?case
    using Cons.prems [of a n u] c by simp
qed simp

lemma mem_search_blocks:
  assumes "heap_is h (xs @ ys)" "seg h 0 0 xs p a" "rest h p a ys" "size_ok h sz" "sz \<le> MEM_SIZE_ALIGNED h" "first_fit h sz xs = None"
  shows "\<exists>h'. mem_search h sz a = Some (h', map_option (\<lambda>(b, bs). data_at h b) (first_fit h sz (xs @ ys)))
    \<and> heap_is h' (case first_fit h sz (xs @ ys) of None \<Rightarrow> xs @ ys | Some (b, bs) \<Rightarrow> bs) \<and> same_conf h h'"
  using assms
proof (induction ys arbitrary: xs p a)
  case Nil
  have "unat a = unat (MEM_SIZE_ALIGNED h)"
    using Nil.prems(3) by (simp add: rest_Nil)
  then show ?case
    using Nil.prems by (subst mem_search.simps) simp
next
  case (Cons c ys)
  obtain b n u where c: "c = (b, n, u)"
    by (cases c)
  have pos: "0 < smallest h"
    using Cons.prems(1) conf_okD(11) by (auto simp: heap_is_def)
  have r: "b = a" "ram h a = Some (node n p u)" "unat a + smallest h \<le> unat n" "rest h a n ys" "unat n \<le> unat (MEM_SIZE_ALIGNED h)"
    using Cons.prems(3) c rest_le [of h a n ys] by (simp_all add: rest_Cons)
  show ?case
  proof (cases "int (unat a) < int (unat (MEM_SIZE_ALIGNED h)) - int (unat sz)")
    case stop: False
    have "\<not> has_room h sz b' n'" if "(b', n', u') \<in> set (c # ys)" for b' n' u'
    proof -
      obtain p' where "seg h p a (c # ys) p' (MEM_SIZE_ALIGNED h)"
        using Cons.prems(3) by (auto simp: rest_def)
      from seg_starts [OF this that pos] show ?thesis
        using stop pos Cons.prems(4) conf_okD(6) [of h] Cons.prems(1) by (auto simp: has_room_def heap_is_def simp del: of_nat_unat)
    qed
    then have "first_fit h sz (xs @ c # ys) = None"
      using Cons.prems(6) first_fit_none [of "c # ys" h sz] by (simp add: first_fit_append)
    then show ?thesis
      using stop Cons.prems(1) by (subst mem_search.simps) (simp del: of_nat_unat)
  next
    case go: True
    show ?thesis
    proof (cases "\<not> u \<and> has_room h sz a n")
      case True
      then obtain h' where "mem_take h a (node n p False) sz = Some h'" "heap_is h' (xs @ taken h sz a n @ ys)" "same_conf h h'"
        using mem_take_blocks [of h xs a n ys p sz] Cons.prems(1-4) c r(1) by auto
      then show ?thesis
        using go True r c Cons.prems(6) size_t_tests(1) [OF r(3)]
        by (subst mem_search.simps) (simp add: first_fit_append data_at_def same_confD(1) del: of_nat_unat)
    next
      case False
      have step: "mem_search h sz a = mem_search h sz n"
        using go False r(2) size_t_tests(1) [OF r(3)] by (subst mem_search.simps) (auto simp del: of_nat_unat)
      have "first_fit h sz (xs @ [c]) = None"
        using Cons.prems(6) False c r(1) by (auto simp: first_fit_append)
      moreover have "seg h 0 0 (xs @ [c]) a n"
        using Cons.prems(2,3) c by (auto simp: seg_append rest_Cons)
      ultimately show ?thesis
        using Cons.IH [of "xs @ [c]" a n] Cons.prems(1,4,5) r(4) unfolding step by (simp only: append_assoc append.simps)
    qed
  qed
qed

text \<open>The lowest free block splits the list.\<close>

lemma lowest_free:
  assumes "heap_is h bs"
  obtains xs ys p where "bs = xs @ ys" "seg h 0 0 xs p (lfree h)" "rest h p (lfree h) ys" "\<And>a n u. (a, n, u) \<in> set xs \<Longrightarrow> u"
proof (cases "\<exists>c\<in>set bs. \<not> snd (snd c)")
  case True
  then obtain xs c ys where c: "bs = xs @ c # ys" "\<not> snd (snd c)" "\<forall>c\<in>set xs. \<not> \<not> snd (snd c)"
    using split_list_first_prop [of bs "\<lambda>c. \<not> snd (snd c)"] by blast
  then obtain a n where an: "c = (a, n, False)"
    by (cases c) auto
  have used: "u" if "(a, n, u) \<in> set xs" for a n u
    using c(3) that by auto
  then have "first_free h bs = a"
    unfolding c(1) an first_free_append by (metis first_free_Cons)
  moreover obtain p where "seg h 0 0 xs p a" "rest h p a (c # ys)"
    using assms blocks_in_split [of h xs a n False ys] conf_okD(11) [of h] by (auto simp: heap_is_def blocks_in_def c(1) an)
  ultimately show ?thesis
    using that [of xs "c # ys" p] c(1) used assms unfolding heap_is_def by metis
next
  case False
  then have "first_free h bs = MEM_SIZE_ALIGNED h"
    by (induction bs) (auto simp: first_free_def)
  moreover obtain p where "seg h 0 0 bs p (MEM_SIZE_ALIGNED h)" "end_ok h"
    using assms by (auto simp: heap_is_def rest_def)
  ultimately show ?thesis
    using that [of bs "[]" p] False assms by (fastforce simp: heap_is_def rest_Nil)
qed

text \<open>The loop starts there.\<close>

lemma mem_malloc_blocks:
  assumes "heap_is h bs" "sz \<noteq> 0" "mem_padded h sz \<le> MEM_SIZE_ALIGNED h"
  shows "\<exists>h'. mem_malloc h sz = Some (h', map_option (\<lambda>(a, bs). data_at h a) (first_fit h (mem_padded h sz) bs))
    \<and> heap_is h' (case first_fit h (mem_padded h sz) bs of None \<Rightarrow> bs | Some (a, bs) \<Rightarrow> bs) \<and> same_conf h h'"
proof -
  have conf: "conf_ok h"
    using assms(1) by (simp add: heap_is_def)
  obtain xs ys p where bs: "bs = xs @ ys" and p: "seg h 0 0 xs p (lfree h)" "rest h p (lfree h) ys" and used: "\<And>a n u. (a, n, u) \<in> set xs \<Longrightarrow> u"
    using lowest_free [OF assms(1)] by metis
  have "first_fit h (mem_padded h sz) xs = None"
    using used by (intro first_fit_none) blast
  note found = mem_search_blocks [OF assms(1) [unfolded bs] p padded_ok [OF conf] assms(3) this]
  have "mem_malloc h sz = mem_search h (mem_padded h sz) (lfree h)"
    using assms(2,3) by (auto simp: mem_malloc_def Let_def)
  then show ?thesis
    using found unfolding bs by simp
qed

section \<open>Shrinking\<close>

text \<open>What \<^verbatim>\<open>mem_realloc\<close> does to the list: a free block behind grows to the front, otherwise a rest that can be a block becomes one.\<close>

definition cut :: "mem_heap \<Rightarrow> mem_size \<Rightarrow> mem_size \<Rightarrow> mem_size \<Rightarrow> block list \<Rightarrow> block list" where
  "cut h sz a n ys =
     (let b = a + SIZEOF_STRUCT_MEM h + sz in
      case ys of (c, m, False) # zs \<Rightarrow> (a, b, True) # (b, m, False) # zs
      | _ \<Rightarrow> taken h sz a n @ ys)"

fun shrink_block :: "mem_heap \<Rightarrow> mem_size \<Rightarrow> mem_size \<Rightarrow> block list \<Rightarrow> block list" where
  "shrink_block h sz a [] = []"
| "shrink_block h sz a ((b, n, u) # bs) = (if b = a then cut h sz a n bs else (b, n, u) # shrink_block h sz a bs)"

lemma shrink_block_at: "a \<notin> fst ` set xs \<Longrightarrow> shrink_block h sz a (xs @ (a, n, u) # ys) = xs @ cut h sz a n ys"
  by (induction xs) auto

text \<open>A new free block behind the block at \<open>a\<close>; \<open>l\<close> is the new lowest free block.\<close>

lemma link_free_blocks:
  assumes h: "conf_ok h" "seg h 0 0 xs p a" "ram h a = Some (node n p True)" "rest h q c zs"
    and b: "unat a + smallest h \<le> unat b" "unat b + smallest h \<le> unat c" "unat (MEM_ALIGNMENT h) dvd unat b" "unat (MEM_ALIGNMENT h) dvd unat c"
    and nf: "no_free_pair xs" "no_free_pair zs" "zs = [] \<or> snd (snd (hd zs))"
    and l: "l = (if \<exists>a n. (a, n, False) \<in> set xs then first_free h xs else b)"
  shows "\<exists>h'. link_after (h\<lparr>lfree := l\<rparr>) a b c = Some h' \<and> heap_is h' (xs @ (a, b, True) # (b, c, False) # zs) \<and> same_conf h h'"
proof -
  let ?h = "h\<lparr>lfree := l\<rparr>"
  note pos = conf_okD(11) [OF h(1)]
  have "seg ?h 0 0 xs p a" "rest ?h q c zs"
    using seg_frame [OF h(2), of ?h] rest_frame [OF h(4), of ?h] pos by simp_all
  then obtain h' where h': "link_after ?h a b c = Some h'" "seg h' 0 0 xs p a" "rest h' p a ((a, b, True) # (b, c, False) # zs)"
    "lfree h' = l" "same_conf ?h h'"
    using link_after_blocks [of ?h xs p a n True q c zs b] h(3) b pos by auto
  have conf: "same_conf h h'"
    using h'(5) by (simp add: same_conf_def)
  moreover have "first_free h' (xs @ (a, b, True) # (b, c, False) # zs) = l"
    using first_free_conf [OF conf] l by (simp add: first_free_append)
  moreover have "conf_ok h'"
    using h(1) same_confD [OF conf] conf by (simp add: conf_ok_def same_conf_def)
  ultimately show ?thesis
    using h'(1,4) rest_join [OF h'(2,3)] nf by (auto simp: heap_is_def no_free_pair_append no_free_pair_Cons)
qed

lemma lfree_idem [simp]: "lfree h = l \<Longrightarrow> h\<lparr>lfree := l\<rparr> = h"
  by simp

text \<open>Where the block ends after the shrinking.\<close>

lemma cut_point:
  assumes "conf_ok h" "seg h 0 0 xs p a" "unat a + smallest h \<le> unat n" "has_room h sz a n" "size_ok h sz"
  defines "b \<equiv> a + SIZEOF_STRUCT_MEM h + sz"
  shows "unat b = unat a + unat (SIZEOF_STRUCT_MEM h) + unat sz" "unat a + smallest h \<le> unat b" "unat (MEM_ALIGNMENT h) dvd unat b"
proof -
  show "unat b = unat a + unat (SIZEOF_STRUCT_MEM h) + unat sz"
    unfolding b_def by (rule size_t_tests(3) [OF assms(3,4)])
  then show "unat a + smallest h \<le> unat b" "unat (MEM_ALIGNMENT h) dvd unat b"
    using assms(5) conf_okD(3) [OF assms(1)] p_dvd [OF assms(2)] by (simp_all add: size_ok_def smallest_def)
qed

lemma mem_shrink_before_free:
  assumes h: "heap_is h (xs @ (a, n, True) # (n, m, False) # zs)" "seg h 0 0 xs p a" "rest h p a ((a, n, True) # (n, m, False) # zs)"
    and sz: "has_room h sz a n" "size_ok h sz" and n: "unat (a + SIZEOF_STRUCT_MEM h + sz) < unat n"
  defines "b \<equiv> a + SIZEOF_STRUCT_MEM h + sz"
  shows "\<exists>h'. mem_shrink h a sz size' = Some h' \<and> heap_is h' (xs @ (a, b, True) # (b, m, False) # zs) \<and> same_conf h h'"
proof -
  have conf: "conf_ok h" and lf: "lfree h = first_free h (xs @ (n, m, False) # zs)"
    and nf: "no_free_pair xs" "no_free_pair zs" "zs = [] \<or> snd (snd (hd zs))"
    using h(1) by (auto simp: heap_is_def no_free_pair_append no_free_pair_Cons first_free_append)
  have r: "ram h a = Some (node n p True)" "unat a + smallest h \<le> unat n" "ram h n = Some (node m a False)" "unat n + smallest h \<le> unat m"
    "rest h n m zs" "unat (MEM_ALIGNMENT h) dvd unat m"
    using h(3) by (simp_all add: rest_Cons)
  note b = cut_point [OF conf h(2) r(2) sz, folded b_def]
  define l where "l = (if \<exists>a n. (a, n, False) \<in> set xs then first_free h xs else b)"
  have bm: "unat b + smallest h \<le> unat m"
    using n r(4) by (simp add: b_def)
  obtain h' where h': "link_after (h\<lparr>lfree := l\<rparr>) a b m = Some h'" "heap_is h' (xs @ (a, b, True) # (b, m, False) # zs)" "same_conf h h'"
    using link_free_blocks [OF conf h(2) r(1,5) b(2) bm b(3) r(6) nf l_def] by blast
  have "(if lfree h = n then h\<lparr>lfree := b\<rparr> else h) = h\<lparr>lfree := l\<rparr>"
  proof (cases "\<exists>a n. (a, n, False) \<in> set xs")
    case free: True
    then have "lfree h = first_free h xs"
      using lf unfolding first_free_append by metis
    moreover have "first_free h xs \<noteq> n"
      using first_free_front [OF h(2) conf_okD(11) [OF conf] free] r(2) by auto
    ultimately show ?thesis
      using free by (simp add: l_def)
  next
    case False
    then show ?thesis
      using lf by (simp add: l_def first_free_append)
  qed
  then have "mem_shrink h a sz size' = Some h'"
    using r(1,3) h'(1) unfolding b_def by (cases "lfree h = n") (simp_all add: mem_shrink_def Let_def)
  then show ?thesis
    using h' by blast
qed

text \<open>The test whether the rest can be a block.\<close>

lemma shrink_test:
  assumes "unat a + smallest h \<le> unat n" "has_room h sz a n"
  shows "(ucast sz + ucast (SIZEOF_STRUCT_MEM h) + ucast (MIN_SIZE_ALIGNED h) :: size_t) \<le> ucast (n - a - SIZEOF_STRUCT_MEM h)
    \<longleftrightarrow> unat (a + SIZEOF_STRUCT_MEM h + sz) + smallest h \<le> unat n"
proof -
  have "unat (n - a - SIZEOF_STRUCT_MEM h) = unat n - (unat a + unat (SIZEOF_STRUCT_MEM h))"
    using assms(1) by (simp add: smallest_def unat_sub word_le_nat_alt)
  moreover have "unat (ucast sz + ucast (SIZEOF_STRUCT_MEM h) + ucast (MIN_SIZE_ALIGNED h) :: size_t) = unat sz + smallest h"
    using unat_lt [of sz] unat_lt [of "SIZEOF_STRUCT_MEM h"] unat_lt [of "MIN_SIZE_ALIGNED h"]
    by (simp add: unat_word_ariths unat_ucast_mod smallest_def)
  ultimately show ?thesis
    using size_t_tests(3) [OF assms] assms(1) unat_lt [of n] by (auto simp: word_le_nat_alt unat_ucast_mod smallest_def)
qed

lemma mem_shrink_before_used:
  assumes h: "heap_is h (xs @ (a, n, True) # ys)" "seg h 0 0 xs p a" "rest h p a ((a, n, True) # ys)" and used: "ys = [] \<or> snd (snd (hd ys))"
    and sz: "has_room h sz a n" "size_ok h sz"
  shows "\<exists>h'. mem_shrink h a sz (n - a - SIZEOF_STRUCT_MEM h) = Some h' \<and> heap_is h' (xs @ taken h sz a n @ ys) \<and> same_conf h h'"
proof -
  have conf: "conf_ok h" and lf: "lfree h = first_free h (xs @ ys)" and nf: "no_free_pair xs" "no_free_pair ys"
    using h(1) by (auto simp: heap_is_def no_free_pair_append no_free_pair_Cons first_free_append)
  have r: "ram h a = Some (node n p True)" "unat a + smallest h \<le> unat n" "rest h a n ys" "unat (MEM_ALIGNMENT h) dvd unat n"
    using h(3) by (simp_all add: rest_Cons)
  define b where "b = a + SIZEOF_STRUCT_MEM h + sz"
  note b = cut_point [OF conf h(2) r(2) sz, folded b_def] and test = shrink_test [OF r(2) sz(1), folded b_def]
  obtain e where e: "ram h n = Some e" "mem_used e \<noteq> 0"
    using r(3) used by (cases ys) (auto simp: rest_Cons rest_Nil end_ok_def)
  show ?thesis
  proof (cases "unat b + smallest h \<le> unat n")
    case False
    then have "mem_shrink h a sz (n - a - SIZEOF_STRUCT_MEM h) = Some h" "taken h sz a n = [(a, n, True)]"
      using r(1) e test by (simp_all add: mem_shrink_def Let_def taken_def b_def)
    then show ?thesis
      using h(1) by simp
  next
    case room: True
    define l where "l = (if \<exists>a n. (a, n, False) \<in> set xs then first_free h xs else b)"
    obtain h' where h': "link_after (h\<lparr>lfree := l\<rparr>) a b n = Some h'" "heap_is h' (xs @ (a, b, True) # (b, n, False) # ys)" "same_conf h h'"
      using link_free_blocks [OF conf h(2) r(1) r(3) b(2) room b(3) r(4) nf used l_def] by blast
    have "lfree h = l \<and> \<not> b < l" if free: "\<exists>a n. (a, n, False) \<in> set xs"
    proof -
      have "lfree h = first_free h xs"
        using lf free unfolding first_free_append by metis
      then show ?thesis
        using free first_free_front [OF h(2) conf_okD(11) [OF conf] free] b(2) by (simp add: l_def word_less_nat_alt)
    qed
    moreover have "l = b \<and> b < lfree h" if "\<nexists>a n. (a, n, False) \<in> set xs"
      using that lf first_free_ge [OF r(3) conf_okD(11) [OF conf]] room conf_okD(11) [OF conf]
      by (simp add: l_def first_free_append word_less_nat_alt)
    ultimately have "(if b < lfree h then h\<lparr>lfree := b\<rparr> else h) = h\<lparr>lfree := l\<rparr>"
      by (metis lfree_idem)
    then have "mem_shrink h a sz (n - a - SIZEOF_STRUCT_MEM h) = Some h'"
      using r(1) e test room h'(1) unfolding b_def
      by (cases "a + SIZEOF_STRUCT_MEM h + sz < lfree h") (simp_all add: mem_shrink_def Let_def)
    then show ?thesis
      using h' room by (auto simp: taken_def Let_def b_def)
  qed
qed

lemma mem_shrink_blocks:
  assumes "heap_is h (xs @ (a, n, True) # ys)" "seg h 0 0 xs p a" "rest h p a ((a, n, True) # ys)"
    and "has_room h sz a n" "size_ok h sz" "unat (a + SIZEOF_STRUCT_MEM h + sz) < unat n"
  shows "\<exists>h'. mem_shrink h a sz (n - a - SIZEOF_STRUCT_MEM h) = Some h' \<and> heap_is h' (xs @ cut h sz a n ys) \<and> same_conf h h'"
proof (cases "\<exists>m zs. ys = (n, m, False) # zs")
  case True
  then show ?thesis
    using mem_shrink_before_free [OF _ assms(2) _ assms(4-6)] assms(1,3) by (auto simp: cut_def Let_def)
next
  case False
  then have "ys = [] \<or> snd (snd (hd ys))"
    using assms(3) by (cases ys) (auto simp: rest_Cons)
  moreover from this have "cut h sz a n ys = taken h sz a n @ ys"
    by (cases ys) (auto simp: cut_def Let_def split: bool.splits)
  ultimately show ?thesis
    using mem_shrink_before_used [OF assms(1-3) _ assms(4,5)] by simp
qed

lemma mem_realloc_blocks:
  assumes "heap_is h bs" "(a, n, True) \<in> set bs"
  shows "if has_room h (mem_padded h sz) a n
    then \<exists>h'. mem_realloc h (data_at h a) sz = Some (h', Some (data_at h a)) \<and> heap_is h' (shrink_block h (mem_padded h sz) a bs) \<and> same_conf h h'
    else mem_realloc h (data_at h a) sz = Some (h, None)"
proof -
  obtain xs ys p where bs: "bs = xs @ (a, n, True) # ys" and p: "seg h 0 0 xs p a" "rest h p a ((a, n, True) # ys)"
    and n: "unat a + smallest h \<le> unat n" "unat n \<le> unat (MEM_SIZE_ALIGNED h)" and d: "a \<notin> fst ` set xs"
    by (rule heap_isD [OF assms])
  have conf: "conf_ok h" and nf: "no_free_pair ys"
    using assms(1) by (simp_all add: heap_is_def bs no_free_pair_append no_free_pair_Cons)
  note c = conf_okD [OF conf]
  let ?sz = "mem_padded h sz" and ?size = "n - a - SIZEOF_STRUCT_MEM h"
  have a: "ram h a = Some (node n p True)"
    using p(2) by (simp add: rest_Cons)
  have range: "\<not> (data_at h a < 0 \<or> data_at h a \<ge> int (unat (MEM_SIZE_ALIGNED h)))"
    using data_in_heap [OF n] c(8) by simp
  have sz: "unat ?size = unat n - (unat a + unat (SIZEOF_STRUCT_MEM h))"
    using n(1) by (simp add: smallest_def unat_sub word_le_nat_alt)
  then have room: "has_room h ?sz a n \<longleftrightarrow> ?sz \<le> ?size"
    using n(1) by (auto simp: has_room_def word_le_nat_alt smallest_def)
  have "?size \<le> MEM_SIZE_ALIGNED h"
    using sz n(2) by (simp add: word_le_nat_alt)
  then have run: "mem_realloc h (data_at h a) sz = (if ?sz > ?size then Some (h, None) else if ?sz = ?size then Some (h, Some (data_at h a))
      else do { h' \<leftarrow> mem_shrink h a ?sz ?size; Some (h', Some (data_at h a)) })"
    using range a by (auto simp: mem_realloc_def Let_def simp del: of_nat_unat)
  show ?thesis
  proof (cases "has_room h ?sz a n")
    case False
    then show ?thesis
      using run room by auto
  next
    case True
    note b = size_t_tests(3) [OF n(1) True]
    have sh: "shrink_block h ?sz a bs = xs @ cut h ?sz a n ys"
      by (simp add: bs shrink_block_at d)
    show ?thesis
    proof (cases "?sz = ?size")
      case same: True
      then have "a + SIZEOF_STRUCT_MEM h + ?sz = n"
        by simp
      then have "cut h ?sz a n ys = (a, n, True) # ys"
        using p(2) c(11) by (auto simp: cut_def taken_def rest_Cons split: list.splits bool.splits)
      then show ?thesis
        using run True same sh assms(1) bs by auto
    next
      case False
      have "unat (a + SIZEOF_STRUCT_MEM h + ?sz) < unat n"
        using False True room b sz n(1) unfolding word_unat_eq_iff has_room_def by linarith
      then show ?thesis
        using mem_shrink_blocks [OF assms(1) [unfolded bs] p True padded_ok [OF conf]] run room True False sh by auto
    qed
  qed
qed

lemma mem_init_blocks:
  assumes "conf_ok h"
  shows "heap_is (mem_init h) [(0, MEM_SIZE_ALIGNED h, False)]" "same_conf h (mem_init h)"
proof -
  show same: "same_conf h (mem_init h)"
    by (simp add: mem_init_def same_conf_def Let_def)
  have "0 < unat (MEM_SIZE_ALIGNED h)"
    using assms conf_okD(11) [OF assms] by (simp add: conf_ok_def)
  then show "heap_is (mem_init h) [(0, MEM_SIZE_ALIGNED h, False)]"
    using assms conf_okD(5) [OF assms] same_confD [OF same] same
    by (auto simp: heap_is_def rest_Cons rest_Nil end_ok_def conf_ok_def same_conf_def) (auto simp: mem_init_def Let_def)
qed

end
