(* ===== verification/Mem_Use.thy ===== *)
theory Mem_Use
  imports Mem_Blocks
begin

text \<open>
  The heap in use: any sequence of allocations, releases and shrinkings, with the allocations that are live. They keep apart and in
  bounds, every operation is defined, and nothing is lost.
\<close>

unbundle bit_operations_syntax

section \<open>The used blocks\<close>

definition used_in :: "block list \<Rightarrow> (mem_size \<times> mem_size) set" where
  "used_in bs = {(a, n). (a, n, True) \<in> set bs}"

lemma used_in_simps [simp]:
  "used_in [] = {}" "used_in ((a, n, u) # bs) = (if u then insert (a, n) (used_in bs) else used_in bs)"
  "used_in (xs @ ys) = used_in xs \<union> used_in ys"
  by (auto simp: used_in_def)

lemma used_in_merge: "used_in (merge_free bs) = used_in bs"
  by (induction bs rule: merge_free.induct) auto

lemma heap_is_blocks: "heap_is h bs \<Longrightarrow> blocks_in h bs"
  by (simp add: heap_is_def blocks_in_def conf_okD(11))

lemma block_bounds:
  assumes "heap_is h bs" "(a, n, u) \<in> set bs"
  shows "unat a + smallest h \<le> unat n" "unat n \<le> unat (MEM_SIZE_ALIGNED h)" "unat (MEM_ALIGNMENT h) dvd unat a"
proof -
  obtain xs ys p where p: "seg h 0 0 xs p a" "unat a + smallest h \<le> unat n" "unat n \<le> unat (MEM_SIZE_ALIGNED h)"
    by (rule heap_isD [OF assms])
  then show "unat a + smallest h \<le> unat n" "unat n \<le> unat (MEM_SIZE_ALIGNED h)" "unat (MEM_ALIGNMENT h) dvd unat a"
    using p_dvd [OF p(1)] by simp_all
qed

text \<open>Two blocks are the same or one ends where the other has not begun.\<close>

lemma blocks_apart:
  assumes "heap_is h bs" "(a, n, u) \<in> set bs" "(b, m, v) \<in> set bs"
  shows "(b = a \<and> m = n \<and> v = u) \<or> unat n \<le> unat b \<or> unat m \<le> unat a"
proof -
  obtain xs ys p where bs: "bs = xs @ (a, n, u) # ys" and p: "seg h 0 0 xs p a" "rest h p a ((a, n, u) # ys)"
    by (rule heap_isD [OF assms(1,2)])
  have pos: "0 < smallest h"
    using assms(1) conf_okD(11) by (auto simp: heap_is_def)
  obtain p' where "seg h a n ys p' (MEM_SIZE_ALIGNED h)"
    using p(2) by (auto simp: rest_Cons) (auto simp: rest_def)
  then show ?thesis
    using assms(3) seg_starts [OF p(1) _ pos, of b m v] seg_starts [of h a n ys p' "MEM_SIZE_ALIGNED h" b m v] pos by (auto simp: bs)
qed

lemma blocks_unique:
  assumes "heap_is h bs" "(a, n, u) \<in> set bs" "(a, m, v) \<in> set bs"
  shows "m = n \<and> v = u"
proof -
  have "0 < smallest h"
    using assms(1) by (simp add: heap_is_def conf_okD(11))
  then have "\<not> (unat n \<le> unat a \<or> unat m \<le> unat a)"
    using block_bounds(1) [OF assms(1,2)] block_bounds(1) [OF assms(1,3)] by linarith
  then show ?thesis
    using blocks_apart [OF assms] by blast
qed

lemma used_in_iff: "(a, n) \<in> used_in bs \<longleftrightarrow> (a, n, True) \<in> set bs"
  by (simp add: used_in_def)

lemma used_in_mark: "(b, m) \<in> used_in (map (\<lambda>(b, n, u). (b, n, u \<and> b \<noteq> a)) bs) \<longleftrightarrow> (b, m) \<in> used_in bs \<and> b \<noteq> a"
  by (force simp: used_in_iff)

lemma used_in_release:
  assumes "heap_is h bs" "(a, n, True) \<in> set bs"
  shows "used_in (release_block a bs) = used_in bs - {(a, n)}"
proof -
  have "m = n" if "(a, m) \<in> used_in bs" for m
    using blocks_unique [OF assms, of m True] that by (simp add: used_in_iff)
  then have "(b, m) \<in> used_in (release_block a bs) \<longleftrightarrow> (b, m) \<in> used_in bs - {(a, n)}" for b m
    unfolding release_block_def used_in_merge used_in_mark by fast
  then show ?thesis
    by (intro set_eqI) (metis surj_pair)
qed

text \<open>The block that is taken was free and has room.\<close>

lemma used_in_first_fit:
  assumes "first_fit h sz bs = Some (a, bs')" "\<forall>(a, n, u) \<in> set bs. unat a + smallest h \<le> unat n"
  shows "\<exists>n n'. (a, n, False) \<in> set bs \<and> has_room h sz a n' \<and> used_in bs' = insert (a, n') (used_in bs)"
  using assms
proof (induction bs arbitrary: bs')
  case (Cons c bs)
  obtain b n u where c: "c = (b, n, u)"
    by (cases c)
  show ?case
  proof (cases "\<not> u \<and> has_room h sz b n")
    case True
    then have "a = b" "bs' = taken h sz b n @ bs"
      using Cons.prems(1) c by auto
    moreover have "unat (b + SIZEOF_STRUCT_MEM h + sz) = unat b + unat (SIZEOF_STRUCT_MEM h) + unat sz"
      using size_t_tests(3) [of b h n sz] True Cons.prems(2) c by simp
    then have "has_room h sz b (b + SIZEOF_STRUCT_MEM h + sz)"
      by (simp add: has_room_def)
    ultimately show ?thesis
      using True c by (auto simp: taken_def Let_def)
  next
    case False
    then obtain bs1 where bs1: "first_fit h sz bs = Some (a, bs1)" "bs' = (b, n, u) # bs1"
      using Cons.prems(1) c by (cases "first_fit h sz bs") (auto split: if_splits)
    have "\<forall>(a, n, u) \<in> set bs. unat a + smallest h \<le> unat n"
      using Cons.prems(2) by simp
    from Cons.IH [OF bs1(1) this] obtain m m' where "(a, m, False) \<in> set bs" "has_room h sz a m'" "used_in bs1 = insert (a, m') (used_in bs)"
      by blast
    then show ?thesis
      using bs1(2) c by (intro exI [of _ m] exI [of _ m']) auto
  qed
qed simp

lemma first_fit_none_iff: "first_fit h sz bs = None \<longleftrightarrow> (\<forall>(a, n, u) \<in> set bs. u \<or> \<not> has_room h sz a n)"
proof (induction bs)
  case (Cons c bs)
  then show ?case
    by (cases c; cases "first_fit h sz bs") auto
qed simp

lemma used_in_shrink:
  assumes "heap_is h bs" "(a, n, True) \<in> set bs" "has_room h sz a n"
  shows "\<exists>n'. has_room h sz a n' \<and> used_in (shrink_block h sz a bs) = insert (a, n') (used_in bs - {(a, n)})"
proof -
  obtain xs ys where bs: "bs = xs @ (a, n, True) # ys" and d: "a \<notin> fst ` set xs" "a \<notin> fst ` set ys"
    by (rule heap_isD [OF assms(1,2)])
  then have "used_in bs - {(a, n)} = used_in (xs @ ys)"
    by (force simp: used_in_def)
  moreover have "unat (a + SIZEOF_STRUCT_MEM h + sz) = unat a + unat (SIZEOF_STRUCT_MEM h) + unat sz"
    using size_t_tests(3) [OF block_bounds(1) [OF assms(1,2)] assms(3)] .
  then have "has_room h sz a (a + SIZEOF_STRUCT_MEM h + sz)"
    by (simp add: has_room_def)
  ultimately show ?thesis
    using assms(3) by (auto simp: bs shrink_block_at [OF d(1)] cut_def taken_def Let_def split: list.splits bool.splits)
qed

section \<open>Steps\<close>

text \<open>Sizes from which rounding up to the alignment does not wrap around.\<close>

definition roundable :: "mem_heap \<Rightarrow> mem_size \<Rightarrow> bool" where
  "roundable h sz \<longleftrightarrow> unat sz + unat (MEM_ALIGNMENT h) \<le> 65536"

lemma padded_ge: "conf_ok h \<Longrightarrow> roundable h sz \<Longrightarrow> unat sz \<le> unat (mem_padded h sz)"
  unfolding conf_ok_def roundable_def using align_size(2) [of h _ sz] by (fastforce simp: mem_padded_def Let_def word_less_nat_alt)

lemma room_less: "has_room h (mem_padded h sz) a n \<Longrightarrow> conf_ok h \<Longrightarrow> roundable h sz \<Longrightarrow> has_room h sz a n"
  using padded_ge [of h sz] by (simp add: has_room_def)

lemma mem_padded_wraps:
  assumes "conf_ok h" "\<not> roundable h sz"
  shows "mem_padded h sz = mem_padded h 1"
proof -
  note c = conf_okD [OF assms(1)]
  obtain k where k: "MEM_ALIGNMENT h = 2 ^ k" "k \<le> 4"
    using assms(1) by (auto simp: conf_ok_def)
  have A: "unat (MEM_ALIGNMENT h) = 2 ^ k"
    by (rule align_size(3) [OF k])
  let ?w = "sz + MEM_ALIGNMENT h - 1"
  have "unat (MEM_ALIGNMENT h - 1) = unat (MEM_ALIGNMENT h) - 1"
    using c(1) by (simp add: unat_sub word_le_nat_alt)
  then have "unat (sz + (MEM_ALIGNMENT h - 1)) = (unat sz + (unat (MEM_ALIGNMENT h) - 1)) mod 65536"
    by (simp add: unat_word_ariths)
  also have "\<dots> = unat sz + (unat (MEM_ALIGNMENT h) - 1) - 65536"
    using assms(2) c(1,2) unat_lt [of sz] by (simp add: roundable_def mod_if)
  finally have "unat ?w = unat sz + (unat (MEM_ALIGNMENT h) - 1) - 65536"
    by (simp only: add_diff_eq)
  then have "unat ?w < 2 ^ k"
    using A unat_lt [of sz] c(1) unfolding A [symmetric] by simp
  then have "LWIP_MEM_ALIGN_SIZE h sz = 0"
    using unat_align_down [of ?w k] k(1) by (simp add: LWIP_MEM_ALIGN_SIZE_def align_mask unat_eq_zero)
  moreover have "unat (LWIP_MEM_ALIGN_SIZE h 1) \<le> unat (MEM_ALIGNMENT h)" "unat (MEM_ALIGNMENT h) dvd unat (MIN_SIZE_ALIGNED h)"
    using align_size(2) [OF k, of 1] c(2,4) by simp_all
  moreover from this(2) have "unat (MEM_ALIGNMENT h) \<le> unat (MIN_SIZE_ALIGNED h)"
    using c(8) by (intro dvd_imp_le) simp_all
  ultimately show ?thesis
    using c(8) by (auto simp: mem_padded_def Let_def word_less_nat_alt word_unat_eq_iff)
qed

text \<open>The octets of a request that its block is for: all of them, or one when rounding up wraps around.\<close>

definition granted :: "mem_heap \<Rightarrow> mem_size \<Rightarrow> mem_size" where
  "granted h sz = (if roundable h sz then sz else 1)"

lemma granted:
  assumes "conf_ok h"
  shows "roundable h (granted h sz)" "mem_malloc h (granted h sz) = mem_malloc h sz" "mem_realloc h p (granted h sz) = mem_realloc h p sz"
proof -
  note c = conf_okD [OF assms]
  show "roundable h (granted h sz)"
    using c(2) by (simp add: granted_def roundable_def)
  have "sz \<noteq> 0" if "\<not> roundable h sz"
    using that c(2) by (auto simp: roundable_def)
  then show "mem_malloc h (granted h sz) = mem_malloc h sz" "mem_realloc h p (granted h sz) = mem_realloc h p sz"
    using mem_padded_wraps [OF assms] by (auto simp: granted_def mem_malloc_def mem_realloc_def)
qed

text \<open>The live allocations: the pointers given out and the sizes granted.\<close>

type_synonym allocs = "int \<Rightarrow> mem_size option"

text \<open>One call of the program that uses the heap. It gives back only what it holds. An allocation and a shrinking may have any size;
  \<^verbatim>\<open>mem_calloc\<close> is called only with a product that can be rounded up in 16 bits, since for any other one its \<^verbatim>\<open>memset\<close> clears
  more octets than the block has.\<close>

inductive heap_step :: "mem_heap \<times> allocs \<Rightarrow> mem_heap \<times> allocs \<Rightarrow> bool" where
  malloc: "mem_malloc h sz = Some (h', Some p) \<Longrightarrow> heap_step (h, live) (h', live(p \<mapsto> granted h sz))"
| malloc_fails: "mem_malloc h sz = Some (h', None) \<Longrightarrow> heap_step (h, live) (h', live)"
| calloc: "mem_calloc h count sz = Some (h', Some p, k) \<Longrightarrow> unat count * unat sz < 65536 \<Longrightarrow> roundable h (count * sz) \<Longrightarrow>
    heap_step (h, live) (h', live(p \<mapsto> count * sz))"
| calloc_fails: "mem_calloc h count sz = Some (h', None, k) \<Longrightarrow> heap_step (h, live) (h', live)"
| free: "mem_free h (Some p) = Some h' \<Longrightarrow> live p \<noteq> None \<Longrightarrow> heap_step (h, live) (h', live(p := None))"
| free_null: "mem_free h None = Some h' \<Longrightarrow> heap_step (h, live) (h', live)"
| realloc: "mem_realloc h p sz = Some (h', Some q) \<Longrightarrow> live p \<noteq> None \<Longrightarrow>
    heap_step (h, live) (h', (live(p := None))(q \<mapsto> granted h sz))"
| realloc_fails: "mem_realloc h p sz = Some (h', None) \<Longrightarrow> live p \<noteq> None \<Longrightarrow> heap_step (h, live) (h', live)"

definition started :: "mem_heap \<Rightarrow> mem_heap \<times> allocs" where
  "started h = (mem_init h, \<lambda>_. None)"

text \<open>The invariant: the live allocations are the used blocks.\<close>

definition live_in :: "mem_heap \<Rightarrow> allocs \<Rightarrow> block list \<Rightarrow> bool" where
  "live_in h live bs \<longleftrightarrow> dom live = data_at h ` fst ` used_in bs
     \<and> (\<forall>(a, n) \<in> used_in bs. \<exists>sz. live (data_at h a) = Some sz \<and> has_room h sz a n)"

fun heap_inv :: "mem_heap \<Rightarrow> mem_heap \<times> allocs \<Rightarrow> bool" where
  "heap_inv h0 (h, live) \<longleftrightarrow> same_conf h0 h \<and> (\<exists>bs. heap_is h bs \<and> live_in h live bs)"

lemma data_at_inj [simp]: "data_at h a = data_at h b \<longleftrightarrow> a = b"
  by (simp add: data_at_def word_unat_eq_iff del: of_nat_unat)

lemma data_at_conf: "same_conf h h' \<Longrightarrow> data_at h' a = data_at h a"
  by (simp add: data_at_def same_confD)

lemma live_in_conf: "same_conf h h' \<Longrightarrow> live_in h' live bs = live_in h live bs"
  by (simp add: live_in_def data_at_conf has_room_def same_confD)

lemma live_in_used:
  assumes "live_in h live bs" "live p = Some sz"
  obtains a n where "(a, n, True) \<in> set bs" "p = data_at h a" "has_room h sz a n"
proof -
  have "p \<in> data_at h ` fst ` used_in bs"
    using assms unfolding live_in_def by blast
  then show ?thesis
    using assms that unfolding live_in_def used_in_def by fastforce
qed

lemma live_in_insert:
  assumes "live_in h live bs" "used_in bs' = insert (a, n) (used_in bs)" "has_room h sz a n" "a \<notin> fst ` used_in bs"
  shows "live_in h (live(data_at h a \<mapsto> sz)) bs'"
proof -
  have "b \<noteq> a" if "(b, m) \<in> used_in bs" for b m
    using that assms(4) by (metis fst_conv image_eqI)
  then have "\<exists>s. (live(data_at h a \<mapsto> sz)) (data_at h b) = Some s \<and> has_room h s b m" if "(b, m) \<in> used_in bs'" for b m
    using that assms(1-3) by (cases "(b, m) = (a, n)") (auto simp: live_in_def)
  moreover have "dom (live(data_at h a \<mapsto> sz)) = data_at h ` fst ` used_in bs'"
    using assms(1,2) by (simp add: live_in_def)
  ultimately show ?thesis
    unfolding live_in_def by blast
qed

lemma live_in_delete:
  assumes "live_in h live bs" "used_in bs' = used_in bs - {(a, n)}" "\<And>m. (a, m) \<in> used_in bs \<Longrightarrow> m = n"
  shows "live_in h (live(data_at h a := None)) bs'"
proof -
  have b: "b \<noteq> a" if "(b, m) \<in> used_in bs'" for b m
    using that assms(2,3) by auto
  have "x \<in> fst ` used_in bs' \<longleftrightarrow> x \<in> fst ` used_in bs - {a}" for x
    unfolding assms(2) image_iff using assms(3) by fastforce
  then have "fst ` used_in bs' = fst ` used_in bs - {a}"
    by blast
  then have "dom (live(data_at h a := None)) = data_at h ` fst ` used_in bs'"
    using assms(1) by (auto simp: live_in_def)
  moreover have "\<exists>sz. (live(data_at h a := None)) (data_at h b) = Some sz \<and> has_room h sz b m" if "(b, m) \<in> used_in bs'" for b m
    using that b [OF that] assms(1,2) by (auto simp: live_in_def)
  ultimately show ?thesis
    unfolding live_in_def by blast
qed

section \<open>Every step keeps the invariant\<close>

lemma mem_malloc_inv:
  assumes "heap_is h bs" "live_in h live bs"
  obtains h' r bs' where "mem_malloc h sz = Some (h', r)" "same_conf h h'" "heap_is h' bs'"
    "case r of None \<Rightarrow> bs' = bs | Some p \<Rightarrow> roundable h sz \<longrightarrow> live_in h' (live(p \<mapsto> sz)) bs'"
proof (cases "sz = 0 \<or> mem_padded h sz > MEM_SIZE_ALIGNED h")
  case True
  then have "mem_malloc h sz = Some (h, None)"
    by (auto simp: mem_malloc_def Let_def)
  then show ?thesis
    using that [of h None bs] assms by simp
next
  case False
  have conf: "conf_ok h"
    using assms(1) by (simp add: heap_is_def)
  let ?fit = "first_fit h (mem_padded h sz) bs"
  obtain h' where h': "mem_malloc h sz = Some (h', map_option (\<lambda>(a, bs). data_at h a) ?fit)" "same_conf h h'"
    "heap_is h' (case ?fit of None \<Rightarrow> bs | Some (a, bs) \<Rightarrow> bs)"
    using mem_malloc_blocks [OF assms(1), of sz] False by (auto simp: not_less)
  show ?thesis
  proof (cases ?fit)
    case None
    then show ?thesis
      using that [of h' None bs] h' by simp
  next
    case (Some f)
    then obtain a bs' where f: "?fit = Some (a, bs')"
      by (cases f) simp
    have "\<forall>(a, n, u) \<in> set bs. unat a + smallest h \<le> unat n"
      using block_bounds(1) [OF assms(1)] by blast
    then obtain n n' where n: "(a, n, False) \<in> set bs" "has_room h (mem_padded h sz) a n'" "used_in bs' = insert (a, n') (used_in bs)"
      using used_in_first_fit [OF f] by blast
    have "a \<notin> fst ` used_in bs"
      using blocks_unique [OF assms(1) n(1)] by (force simp: used_in_iff)
    then have "live_in h' (live(data_at h a \<mapsto> sz)) bs'" if "roundable h sz"
      using live_in_insert [OF assms(2) n(3) room_less [OF n(2) conf that]] live_in_conf [OF h'(2)] by simp
    then show ?thesis
      using that [of h' "Some (data_at h a)" bs'] h' f by simp
  qed
qed

lemma mem_free_inv:
  assumes "heap_is h bs" "live_in h live bs" "live p \<noteq> None"
  obtains h' bs' where "mem_free h (Some p) = Some h'" "same_conf h h'" "heap_is h' bs'" "live_in h' (live(p := None)) bs'"
proof -
  obtain sz where "live p = Some sz"
    using assms(3) by blast
  then obtain a n where a: "(a, n, True) \<in> set bs" "p = data_at h a"
    using live_in_used [OF assms(2)] by metis
  obtain h' where h': "mem_free h (Some p) = Some h'" "heap_is h' (release_block a bs)" "same_conf h h'"
    using mem_free_blocks [OF assms(1) a(1)] a(2) by blast
  have "m = n" if "(a, m) \<in> used_in bs" for m
    using blocks_unique [OF assms(1) a(1), of m True] that by (simp add: used_in_iff)
  then have "live_in h (live(p := None)) (release_block a bs)"
    unfolding a(2) by (rule live_in_delete [OF assms(2) used_in_release [OF assms(1) a(1)]])
  then show ?thesis
    using that h' live_in_conf [OF h'(3)] by blast
qed

lemma mem_realloc_inv:
  assumes "heap_is h bs" "live_in h live bs" "live p \<noteq> None"
  obtains h' r bs' where "mem_realloc h p sz = Some (h', r)" "same_conf h h'" "heap_is h' bs'"
    "case r of None \<Rightarrow> bs' = bs | Some q \<Rightarrow> q = p \<and> (roundable h sz \<longrightarrow> live_in h' (live(p \<mapsto> sz)) bs')"
proof -
  obtain old where "live p = Some old"
    using assms(3) by blast
  then obtain a n where a: "(a, n, True) \<in> set bs" "p = data_at h a"
    using live_in_used [OF assms(2)] by metis
  have conf: "conf_ok h"
    using assms(1) by (simp add: heap_is_def)
  note re = mem_realloc_blocks [OF assms(1) a(1), of sz]
  show ?thesis
  proof (cases "has_room h (mem_padded h sz) a n")
    case False
    then have "mem_realloc h p sz = Some (h, None)"
      using re a(2) by simp
    then show ?thesis
      using that [of h None bs] assms(1) by simp
  next
    case True
    then obtain h' where h': "mem_realloc h p sz = Some (h', Some p)" "heap_is h' (shrink_block h (mem_padded h sz) a bs)" "same_conf h h'"
      using re a(2) by auto
    let ?bs = "shrink_block h (mem_padded h sz) a bs"
    obtain n' where n': "has_room h (mem_padded h sz) a n'" "used_in ?bs = insert (a, n') (used_in bs - {(a, n)})"
      using used_in_shrink [OF assms(1) a(1) True] by blast
    have un: "m = n" if "(a, m) \<in> used_in bs" for m
      using blocks_unique [OF assms(1) a(1), of m True] that by (simp add: used_in_iff)
    have "live_in h (live(p := None)) (release_block a bs)"
      unfolding a(2) by (rule live_in_delete [OF assms(2) used_in_release [OF assms(1) a(1)] un])
    moreover have "a \<notin> fst ` used_in (release_block a bs)"
      using un unfolding used_in_release [OF assms(1) a(1)] by force
    moreover have "used_in ?bs = insert (a, n') (used_in (release_block a bs))"
      using n'(2) used_in_release [OF assms(1) a(1)] by simp
    ultimately have "live_in h' (live(p \<mapsto> sz)) ?bs" if "roundable h sz"
      using live_in_insert [of h "live(p := None)" "release_block a bs" ?bs a n' sz] room_less [OF n'(1) conf that] live_in_conf [OF h'(3)] a(2) by simp
    then show ?thesis
      using that [of h' "Some p" ?bs] h' by simp
  qed
qed

lemma heap_inv_started: "conf_ok h \<Longrightarrow> heap_inv h (started h)"
  using mem_init_blocks [of h] by (auto simp: started_def live_in_def used_in_def)

lemma heap_step_inv:
  assumes "heap_step s s'" "heap_inv h0 s"
  shows "heap_inv h0 s'"
  using assms
proof (induction rule: heap_step.induct)
  case (malloc h sz h' p live)
  then obtain bs where bs: "heap_is h bs" "live_in h live bs"
    by auto
  show ?case
    by (rule mem_malloc_inv [OF bs, of "granted h sz"])
      (use malloc granted [where h = h and sz = sz] bs(1) in \<open>auto simp: heap_is_def intro: same_conf_trans\<close>)
next
  case (malloc_fails h sz h' live)
  then obtain bs where bs: "heap_is h bs" "live_in h live bs"
    by auto
  show ?case
    by (rule mem_malloc_inv [OF bs, of sz]) (use malloc_fails bs in \<open>auto simp: live_in_conf intro: same_conf_trans\<close>)
next
  case (calloc h count sz h' p k live)
  then obtain bs where bs: "heap_is h bs" "live_in h live bs"
    by auto
  show ?case
    by (rule mem_malloc_inv [OF bs, of "count * sz"])
      (use calloc in \<open>auto simp: mem_calloc_def intro: same_conf_trans\<close>)
next
  case (calloc_fails h count sz h' k live)
  then obtain bs where bs: "heap_is h bs" "live_in h live bs"
    by auto
  show ?case
    by (rule mem_malloc_inv [OF bs, of "count * sz"])
      (use calloc_fails bs in \<open>auto simp: mem_calloc_def live_in_conf intro: same_conf_trans split: bind_splits\<close>)
next
  case (free h p h' live)
  then obtain bs where bs: "heap_is h bs" "live_in h live bs"
    by auto
  show ?case
    by (rule mem_free_inv [OF bs free.hyps(2)]) (use free in \<open>auto intro: same_conf_trans\<close>)
next
  case (free_null h h' live)
  then show ?case
    by (simp add: mem_free_def)
next
  case (realloc h p sz h' q live)
  then obtain bs where bs: "heap_is h bs" "live_in h live bs"
    by auto
  show ?case
    by (rule mem_realloc_inv [OF bs realloc.hyps(2), of "granted h sz"])
      (use realloc granted [where h = h and sz = sz] bs(1) in \<open>auto simp: heap_is_def intro: same_conf_trans\<close>)
next
  case (realloc_fails h p sz h' live)
  then obtain bs where bs: "heap_is h bs" "live_in h live bs"
    by auto
  show ?case
    by (rule mem_realloc_inv [OF bs realloc_fails.hyps(2), of sz]) (use realloc_fails bs in \<open>auto simp: live_in_conf intro: same_conf_trans\<close>)
qed

lemma reachable_heap_inv: "heap_step\<^sup>*\<^sup>* (started h0) s \<Longrightarrow> conf_ok h0 \<Longrightarrow> heap_inv h0 s"
  by (induction rule: rtranclp_induct) (auto intro: heap_inv_started heap_step_inv)

section \<open>Properties\<close>

text \<open>A heap of 64 octets for the examples.\<close>

definition small_heap :: mem_heap where
  "small_heap = \<lparr>ram = (\<lambda>_. None), lfree = 0, MEM_SIZE = 64, MEM_ALIGNMENT = 4\<rparr>"

lemma small_heap_sizes:
  "LWIP_MEM_ALIGN_SIZE small_heap sz = (sz + 3) AND NOT 3" "SIZEOF_STRUCT_MEM small_heap = 8" "MIN_SIZE_ALIGNED small_heap = 12"
  "MEM_SIZE_ALIGNED small_heap = 64" "MEM_ALIGNMENT small_heap = 4" "smallest small_heap = 20"
proof -
  show al: "LWIP_MEM_ALIGN_SIZE small_heap sz = (sz + 3) AND NOT 3" for sz
    by (simp add: LWIP_MEM_ALIGN_SIZE_def small_heap_def add_diff_eq [symmetric])
  show "SIZEOF_STRUCT_MEM small_heap = 8" "MIN_SIZE_ALIGNED small_heap = 12" "MEM_SIZE_ALIGNED small_heap = 64" "MEM_ALIGNMENT small_heap = 4"
    unfolding SIZEOF_STRUCT_MEM_def MIN_SIZE_ALIGNED_def MEM_SIZE_ALIGNED_def al by (simp_all add: small_heap_def)
  then show "smallest small_heap = 20"
    by (simp add: smallest_def)
qed

lemma small_heap_conf: "conf_ok small_heap"
  unfolding conf_ok_def small_heap_sizes by (rule conjI, rule exI [of _ 2]) (simp_all add: small_heap_def)

lemma small_heap_init: "heap_is (mem_init small_heap) [(0, 64, False)]" "same_conf small_heap (mem_init small_heap)"
  using mem_init_blocks [OF small_heap_conf] by (simp_all add: small_heap_sizes)

text \<open>The first allocation in it.\<close>

lemma small_heap_malloc:
  assumes "mem_padded small_heap sz = 12" "sz \<noteq> 0"
  obtains h' where "mem_malloc (mem_init small_heap) sz = Some (h', Some 8)" "heap_is h' [(0, 20, True), (20, 64, False)]" "same_conf small_heap h'"
proof -
  note same = same_confD [OF small_heap_init(2)]
  have "first_fit (mem_init small_heap) 12 [(0, 64, False)] = Some (0, [(0, 20, True), (20, 64, False)])"
    by (simp add: has_room_def taken_def same small_heap_sizes Let_def)
  then show ?thesis
    using that mem_malloc_blocks [OF small_heap_init(1) assms(2)] assms(1) same_conf_trans [OF small_heap_init(2)]
    by (auto simp: same small_heap_sizes data_at_def)
qed

text \<open>C14. In every state the heap can reach by allocations, releases of what is held and shrinkings, a live allocation lies in the heap behind its
  header, has the alignment, and is apart from every other one, with room for a header between them. Its size is the one asked for, except that
  a request so large that rounding it up wraps around in 16 bits counts as one octet, which is what the code grants (C36). Calls of
  \<^verbatim>\<open>mem_calloc\<close> whose product wraps around or cannot be rounded up are left out: they clear octets outside their block.
\<close>
theorem allocations_apart:
  assumes "conf_ok h0" "heap_step\<^sup>*\<^sup>* (started h0) (h, live)" "live p = Some sz"
  shows "int (unat (SIZEOF_STRUCT_MEM h0)) \<le> p \<and> p + int (unat sz) \<le> int (unat (MEM_SIZE_ALIGNED h0))
    \<and> int (unat (MEM_ALIGNMENT h0)) dvd p
    \<and> (\<forall>q sz'. live q = Some sz' \<and> q \<noteq> p \<longrightarrow>
         p + int (unat sz) + int (unat (SIZEOF_STRUCT_MEM h0)) \<le> q \<or> q + int (unat sz') + int (unat (SIZEOF_STRUCT_MEM h0)) \<le> p)"
proof -
  obtain bs where conf: "same_conf h0 h" and bs: "heap_is h bs" "live_in h live bs"
    using reachable_heap_inv [OF assms(2,1)] by auto
  note same = same_confD [OF conf]
  obtain a n where a: "(a, n, True) \<in> set bs" "p = data_at h a" "has_room h sz a n"
    using live_in_used [OF bs(2) assms(3)] by metis
  have "int (unat (MEM_ALIGNMENT h0)) dvd p"
    using block_bounds(3) [OF bs(1) a(1)] conf_okD(3) [OF assms(1)] unfolding a(2) data_at_def same of_nat_add [symmetric] of_nat_dvd_iff
    by (rule dvd_add)
  moreover have "p + int (unat sz) + int (unat (SIZEOF_STRUCT_MEM h0)) \<le> q \<or> q + int (unat sz') + int (unat (SIZEOF_STRUCT_MEM h0)) \<le> p"
    if q: "live q = Some sz'" "q \<noteq> p" for q sz'
  proof -
    obtain b m where b: "(b, m, True) \<in> set bs" "q = data_at h b" "has_room h sz' b m"
      using live_in_used [OF bs(2) q(1)] by metis
    then have "unat n \<le> unat b \<or> unat m \<le> unat a"
      using blocks_apart [OF bs(1) a(1) b(1)] a(2) q(2) by auto
    then show ?thesis
      using a(2,3) b(2,3) by (auto simp: has_room_def data_at_def same simp del: of_nat_unat)
  qed
  ultimately show ?thesis
    using a(2,3) block_bounds(2) [OF bs(1) a(1)] by (auto simp: has_room_def data_at_def same simp del: of_nat_unat)
qed

theorem allocations_apart_witness: "\<exists>h. heap_step\<^sup>*\<^sup>* (started small_heap) (h, [8 \<mapsto> 10])
    \<and> int (unat (MEM_ALIGNMENT small_heap)) dvd (8 :: int)"
proof -
  have "mem_padded small_heap 10 = 12"
    by (simp add: mem_padded_def small_heap_sizes Let_def)
  then obtain h' where h': "mem_malloc (mem_init small_heap) 10 = Some (h', Some 8)" "same_conf small_heap h'"
    by (rule small_heap_malloc) simp_all
  have "granted (mem_init small_heap) 10 = 10"
    using same_confD(5) [OF small_heap_init(2)] by (simp add: granted_def roundable_def small_heap_sizes)
  then have "heap_step\<^sup>*\<^sup>* (started small_heap) (h', (\<lambda>_. None)(8 \<mapsto> 10))"
    using heap_step.malloc [OF h'(1)] by (auto simp: started_def)
  with allocations_apart [OF small_heap_conf this, of 8 10] show ?thesis
    by (auto simp del: of_nat_unat)
qed

text \<open>Allocation, release and shrinking of a live allocation return in every reachable state: their loops end and they find every header they follow.
\<close>
theorem heap_operations_return:
  assumes "conf_ok h0" "heap_step\<^sup>*\<^sup>* (started h0) (h, live)"
  shows "mem_malloc h sz \<noteq> None \<and> mem_calloc h count sz \<noteq> None
    \<and> (live p \<noteq> None \<longrightarrow> mem_free h (Some p) \<noteq> None \<and> mem_realloc h p sz \<noteq> None)"
proof -
  obtain bs where bs: "heap_is h bs" "live_in h live bs"
    using reachable_heap_inv [OF assms(2,1)] by auto
  have "mem_malloc h sz \<noteq> None" for sz
    by (rule mem_malloc_inv [OF bs, of sz]) simp
  moreover from this [of "count * sz"] have "mem_calloc h count sz \<noteq> None"
    by (auto simp: mem_calloc_def)
  moreover have "mem_free h (Some p) \<noteq> None" if "live p \<noteq> None"
    by (rule mem_free_inv [OF bs that]) simp
  moreover have "mem_realloc h p sz \<noteq> None" if "live p \<noteq> None"
    by (rule mem_realloc_inv [OF bs that, of sz]) simp
  ultimately show ?thesis
    by blast
qed

theorem heap_operations_return_witness: "mem_malloc (mem_init small_heap) 10 \<noteq> None"
  using heap_operations_return [OF small_heap_conf, of "mem_init small_heap" "\<lambda>_. None" 10] by (simp add: started_def)

text \<open>C26. When everything is released, nothing is lost: in every reachable state without a live allocation the heap is one free block again, and
  a request that fits into the whole heap is granted at its start. (As in C14, calls of \<^verbatim>\<open>mem_calloc\<close> with a product that wraps around, which
  write outside their block, are left out.)
\<close>
theorem all_released_all_free:
  assumes "conf_ok h0" "heap_step\<^sup>*\<^sup>* (started h0) (h, \<lambda>_. None)"
    and "sz \<noteq> 0" "unat (SIZEOF_STRUCT_MEM h0) + unat (mem_padded h0 sz) \<le> unat (MEM_SIZE_ALIGNED h0)"
  shows "heap_is h [(0, MEM_SIZE_ALIGNED h0, False)] \<and> (\<exists>h'. mem_malloc h sz = Some (h', Some (int (unat (SIZEOF_STRUCT_MEM h0)))))"
proof -
  obtain bs where conf: "same_conf h0 h" and bs: "heap_is h bs" "live_in h (\<lambda>_. None) bs"
    using reachable_heap_inv [OF assms(2,1)] by auto
  note same = same_confD [OF conf]
  have "(a, n) \<notin> used_in bs" for a n
    using bs(2) by (auto simp: live_in_def)
  then have free: "\<forall>(a, n, u) \<in> set bs. \<not> u"
    by (auto simp: used_in_iff)
  obtain a n u bs' where bs': "bs = (a, n, u) # bs'"
    using bs(1) by (cases bs) (auto simp: heap_is_def)
  then have "bs' = []"
    using bs(1) free by (cases bs') (auto simp: heap_is_def no_free_pair_Cons)
  then have one: "bs = [(0, MEM_SIZE_ALIGNED h0, False)]"
    using bs(1) bs' free by (auto simp: heap_is_def rest_Cons rest_Nil same)
  then have "heap_is h [(0, MEM_SIZE_ALIGNED h0, False)]"
    using bs(1) by simp
  moreover have "first_fit h (mem_padded h sz) bs = Some (0, taken h (mem_padded h sz) 0 (MEM_SIZE_ALIGNED h0))"
    using assms(4) by (simp add: one has_room_def same)
  ultimately show ?thesis
    using mem_malloc_blocks [OF bs(1) assms(3)] assms(4) by (auto simp: same word_le_nat_alt data_at_def)
qed

theorem all_released_all_free_witness: "\<exists>h'. mem_malloc (mem_init small_heap) 50 = Some (h', Some 8)"
  using all_released_all_free [OF small_heap_conf, of "mem_init small_heap" 50]
  by (simp add: started_def mem_padded_def small_heap_sizes Let_def)

text \<open>The part of the list that an allocation sees.\<close>

abbreviation put_back :: "('a \<times> 'b) option \<Rightarrow> 'b \<Rightarrow> 'b" where
  "put_back r bs \<equiv> (case r of None \<Rightarrow> bs | Some (_, bs) \<Rightarrow> bs)"

text \<open>C15. The heap implements a list of blocks: \<^verbatim>\<open>mem_malloc\<close> takes the first free block with room for the padded size and splits it when the
  rest can be a block, and returns NULL exactly when no free block has room; \<^verbatim>\<open>mem_free\<close> frees the block and merges it with free neighbours;
  \<^verbatim>\<open>mem_realloc\<close> gives the end of the block back, or returns NULL when the block would have to grow.
\<close>
theorem heap_refines_blocks:
  assumes "heap_is h bs"
  defines "fit \<equiv> \<lambda>sz. if sz = 0 \<or> mem_padded h sz > MEM_SIZE_ALIGNED h then None else first_fit h (mem_padded h sz) bs"
  shows "(\<exists>h'. mem_malloc h sz = Some (h', map_option (\<lambda>(a, bs). data_at h a) (fit sz)) \<and> heap_is h' (put_back (fit sz) bs))
    \<and> (fit sz = None \<longleftrightarrow> sz = 0 \<or> mem_padded h sz > MEM_SIZE_ALIGNED h \<or> (\<forall>(a, n, u) \<in> set bs. u \<or> \<not> has_room h (mem_padded h sz) a n))
    \<and> (\<forall>(a, n, u) \<in> set bs. u \<longrightarrow>
         (\<exists>h'. mem_free h (Some (data_at h a)) = Some h' \<and> heap_is h' (release_block a bs))
       \<and> (if has_room h (mem_padded h sz) a n
          then \<exists>h'. mem_realloc h (data_at h a) sz = Some (h', Some (data_at h a)) \<and> heap_is h' (shrink_block h (mem_padded h sz) a bs)
          else mem_realloc h (data_at h a) sz = Some (h, None)))"
proof (intro conjI)
  show "\<exists>h'. mem_malloc h sz = Some (h', map_option (\<lambda>(a, bs). data_at h a) (fit sz)) \<and> heap_is h' (put_back (fit sz) bs)"
  proof (cases "sz = 0 \<or> mem_padded h sz > MEM_SIZE_ALIGNED h")
    case True
    then show ?thesis
      using assms(1) by (auto simp: fit_def mem_malloc_def Let_def)
  next
    case False
    then show ?thesis
      using mem_malloc_blocks [OF assms(1), of sz] by (auto simp: fit_def not_less)
  qed
  show "fit sz = None \<longleftrightarrow> sz = 0 \<or> mem_padded h sz > MEM_SIZE_ALIGNED h \<or> (\<forall>(a, n, u) \<in> set bs. u \<or> \<not> has_room h (mem_padded h sz) a n)"
    unfolding fit_def first_fit_none_iff [symmetric] by simp
  have "(\<exists>h'. mem_free h (Some (data_at h a)) = Some h' \<and> heap_is h' (release_block a bs))
    \<and> (if has_room h (mem_padded h sz) a n
       then \<exists>h'. mem_realloc h (data_at h a) sz = Some (h', Some (data_at h a)) \<and> heap_is h' (shrink_block h (mem_padded h sz) a bs)
       else mem_realloc h (data_at h a) sz = Some (h, None))" if "(a, n, True) \<in> set bs" for a n
    using mem_free_blocks [OF assms(1) that] mem_realloc_blocks [OF assms(1) that, of sz] by (auto split: if_splits)
  then show "\<forall>(a, n, u) \<in> set bs. u \<longrightarrow> (\<exists>h'. mem_free h (Some (data_at h a)) = Some h' \<and> heap_is h' (release_block a bs))
    \<and> (if has_room h (mem_padded h sz) a n
       then \<exists>h'. mem_realloc h (data_at h a) sz = Some (h', Some (data_at h a)) \<and> heap_is h' (shrink_block h (mem_padded h sz) a bs)
       else mem_realloc h (data_at h a) sz = Some (h, None))"
    by (auto simp del: split_paired_All)
qed

theorem heap_refines_blocks_witness: "\<exists>h'. mem_malloc (mem_init small_heap) 60 = Some (h', None)"
proof -
  have "mem_padded (mem_init small_heap) 60 = 60" "\<not> has_room (mem_init small_heap) 60 0 64"
    using same_confD [OF small_heap_init(2)] by (simp_all add: mem_padded_def small_heap_sizes has_room_def Let_def)
  then show ?thesis
    using heap_refines_blocks [OF small_heap_init(1), of 60] by auto
qed

text \<open>C36. Sizes near the end of \<^verbatim>\<open>mem_size_t\<close>: when rounding up to the alignment wraps around, \<^verbatim>\<open>mem_malloc\<close> does what it does for one octet,
  so it can return a block of the minimal size for a request of more than 65500 octets; and \<^verbatim>\<open>mem_calloc\<close>, whose product is cut off for the
  allocation only, clears more octets than the whole array of the heap has.
\<close>
theorem size_overflow:
  assumes "conf_ok h"
  shows "(\<not> roundable h sz \<longrightarrow> mem_malloc h sz = mem_malloc h 1)
    \<and> (mem_calloc h count sz = Some (h', Some p, k) \<and> 65536 \<le> unat count * unat sz \<longrightarrow>
         k > unat (MEM_SIZE_ALIGNED h) + 2 * unat (SIZEOF_STRUCT_MEM h) + unat (MEM_ALIGNMENT h))"
proof (intro conjI impI)
  assume wraps: "\<not> roundable h sz"
  then have "mem_padded h sz = mem_padded h 1"
    by (rule mem_padded_wraps [OF assms])
  moreover have "sz \<noteq> 0"
    using wraps conf_okD(2) [OF assms] by (auto simp: roundable_def)
  ultimately show "mem_malloc h sz = mem_malloc h 1"
    by (simp add: mem_malloc_def)
next
  assume "mem_calloc h count sz = Some (h', Some p, k) \<and> 65536 \<le> unat count * unat sz"
  then have "65536 \<le> k"
    by (auto simp: mem_calloc_def split: bind_splits)
  then show "k > unat (MEM_SIZE_ALIGNED h) + 2 * unat (SIZEOF_STRUCT_MEM h) + unat (MEM_ALIGNMENT h)"
    using conf_okD(2,7,10) [OF assms] by simp
qed

theorem size_overflow_witness:
  "(\<exists>h'. mem_malloc (mem_init small_heap) 65534 = Some (h', Some 8) \<and> heap_is h' [(0, 20, True), (20, 64, False)])
    \<and> (\<exists>h' k. mem_calloc (mem_init small_heap) 8193 8 = Some (h', Some 8, k) \<and> k > 80)"
proof
  note same = same_confD [OF small_heap_init(2)]
  have conf: "conf_ok (mem_init small_heap)"
    using small_heap_init(1) by (simp add: heap_is_def)
  have pad: "mem_padded small_heap 1 = 12" "mem_padded small_heap 8 = 12"
    by (simp_all add: mem_padded_def small_heap_sizes Let_def)
  obtain h1 where "mem_malloc (mem_init small_heap) 1 = Some (h1, Some 8)" "heap_is h1 [(0, 20, True), (20, 64, False)]"
    using small_heap_malloc [OF pad(1)] by auto
  moreover have "\<not> roundable (mem_init small_heap) 65534"
    by (simp add: roundable_def same small_heap_sizes)
  ultimately show "\<exists>h'. mem_malloc (mem_init small_heap) 65534 = Some (h', Some 8) \<and> heap_is h' [(0, 20, True), (20, 64, False)]"
    using size_overflow [OF conf, of 65534] by auto
  obtain h' where "mem_malloc (mem_init small_heap) 8 = Some (h', Some 8)"
    using small_heap_malloc [OF pad(2)] by auto
  moreover have product: "(8193 :: mem_size) * 8 = 8"
    by simp
  ultimately have calloc: "mem_calloc (mem_init small_heap) 8193 8 = Some (h', Some 8, 65544)"
    unfolding mem_calloc_def product by simp
  then show "\<exists>h' k. mem_calloc (mem_init small_heap) 8193 8 = Some (h', Some 8, k) \<and> k > 80"
    using size_overflow [OF conf, of 8 8193 h' 8 65544] by (auto simp: same small_heap_sizes)
qed

end
