(* ===== verification/Asn1.thy ===== *)
theory Asn1
  imports Stack
begin

text \<open>
  Reading and writing the ASN.1 fields of SNMP messages, \<^verbatim>\<open>core/snmp/asn1_dec.c\<close> and \<^verbatim>\<open>core/snmp/asn1_enc.c\<close>. A message is a
  chain of pbufs; every function finds the pbuf of an offset and then walks on octet by octet. A decoder returns \<open>Inl\<close> the error or
  \<open>Inr\<close> the value; what its result variable holds after an error is left out, except for object identifiers, whose structure is
  filled step by step. An encoder returns the heap and the error code. \<open>None\<close> is an access outside a payload, as for the pbufs.
\<close>

unbundle bit_operations_syntax

section \<open>Walking along a message\<close>

text \<open>The local variables of the walk.\<close>

record asn1_pos =
  a_p :: ptr
  msg_ptr :: "ptr \<times> int"
  a_ofs :: u16
  a_plen :: u16

partial_function (option) asn1_find :: "heap \<Rightarrow> ptr \<Rightarrow> u16 \<Rightarrow> u16 \<Rightarrow> asn1_pos option option" where
  "asn1_find h p ofs plen =
     (if p = NULL then Some None
      else do {
        b \<leftarrow> pbufs h p;
        let base = plen;
        let plen = plen + p_len b;
        if ofs < plen then Some (Some \<lparr>a_p = p, msg_ptr = ptr_add (payload b) (unat (ofs - base)), a_ofs = ofs, a_plen = plen\<rparr>)
        else asn1_find h (p_next b) ofs plen
      })"

declare asn1_find.simps [code]

definition asn1_next :: "heap \<Rightarrow> asn1_pos \<Rightarrow> asn1_pos option option" where
  "asn1_next h s =
     (let ofs = a_ofs s + 1 in
      if ofs \<ge> a_plen s
      then do {
        b \<leftarrow> pbufs h (a_p s);
        if p_next b = NULL then Some None
        else do {
          n \<leftarrow> pbufs h (p_next b);
          Some (Some \<lparr>a_p = p_next b, msg_ptr = payload n, a_ofs = ofs, a_plen = a_plen s + p_len n\<rparr>)
        }
      }
      else Some (Some (s\<lparr>msg_ptr := ptr_add (msg_ptr s) 1, a_ofs := ofs\<rparr>)))"

definition asn1_get :: "heap \<Rightarrow> asn1_pos \<Rightarrow> u8 option" where
  "asn1_get h s = do { bs \<leftarrow> mem_read h (msg_ptr s) 1; Some (hd bs) }"

definition asn1_put :: "heap \<Rightarrow> asn1_pos \<Rightarrow> u8 \<Rightarrow> heap option" where
  "asn1_put h s c = mem_write h (msg_ptr s) [c]"

text \<open>The end of the chain is \<^verbatim>\<open>ERR_ARG\<close>, for a decoder and for an encoder.\<close>

definition dec_at :: "asn1_pos option option \<Rightarrow> (asn1_pos \<Rightarrow> (err + 'a) option) \<Rightarrow> (err + 'a) option" where
  "dec_at r f = do { r \<leftarrow> r; case r of None \<Rightarrow> Some (Inl ERR_ARG) | Some s \<Rightarrow> f s }"

definition enc_at :: "asn1_pos option option \<Rightarrow> heap \<Rightarrow> (asn1_pos \<Rightarrow> (heap \<times> err) option) \<Rightarrow> (heap \<times> err) option" where
  "enc_at r h f = do { r \<leftarrow> r; case r of None \<Rightarrow> Some (h, ERR_ARG) | Some s \<Rightarrow> f s }"

lemma dec_at_simps [simp]:
  "dec_at None f = None" "dec_at (Some None) f = Some (Inl ERR_ARG)" "dec_at (Some (Some s)) f = f s"
  by (simp_all add: dec_at_def)

lemma enc_at_simps [simp]:
  "enc_at None h f = None" "enc_at (Some None) h f = Some (h, ERR_ARG)" "enc_at (Some (Some s)) h f = f s"
  by (simp_all add: enc_at_def)

lemma dec_at_mono [partial_function_mono]:
  assumes "\<And>s. mono_option (\<lambda>F. f F s)"
  shows "mono_option (\<lambda>F. dec_at r (f F))"
proof (cases r)
  case (Some p)
  then show ?thesis
    using assms by (cases p) (simp_all add: option.const_mono)
qed (simp add: option.const_mono)

lemma enc_at_mono [partial_function_mono]:
  assumes "\<And>s. mono_option (\<lambda>F. f F s)"
  shows "mono_option (\<lambda>F. enc_at r h (f F))"
proof (cases r)
  case (Some p)
  then show ?thesis
    using assms by (cases p) (simp_all add: option.const_mono)
qed (simp add: option.const_mono)

section \<open>Decoding\<close>

definition snmp_asn1_dec_type :: "heap \<Rightarrow> ptr \<Rightarrow> u16 \<Rightarrow> (err + u8) option" where
  "snmp_asn1_dec_type h p ofs = dec_at (asn1_find h p ofs 0) (\<lambda>s. do { c \<leftarrow> asn1_get h s; Some (Inr c) })"

text \<open>The indefinite form: the octets up to and with two zero octets are counted.\<close>

partial_function (option) asn1_indefinite :: "heap \<Rightarrow> u8 \<Rightarrow> u8 \<Rightarrow> u16 \<Rightarrow> asn1_pos \<Rightarrow> (err + u16) option" where
  "asn1_indefinite h i zeros len s =
     (if i > 0
      then let i = i - 1; len = len + 1 in
        dec_at (asn1_next h s) (\<lambda>s. do {
          c \<leftarrow> asn1_get h s;
          if c = 0
          then let zeros = zeros + 1 in asn1_indefinite h (if zeros = 2 then 0 else i) zeros len s
          else asn1_indefinite h i 0 len s
        })
      else if zeros \<noteq> 2 then asn1_indefinite h 2 zeros len s
      else Some (Inr len))"

declare asn1_indefinite.simps [code]

definition snmp_asn1_dec_length :: "heap \<Rightarrow> ptr \<Rightarrow> u16 \<Rightarrow> (err + u8 \<times> u16) option" where
  "snmp_asn1_dec_length h p ofs =
     dec_at (asn1_find h p ofs 0) (\<lambda>s. do {
       c \<leftarrow> asn1_get h s;
       if c < 0x80 then Some (Inr (1, ucast c))
       else if c = 0x80
       then do {
         r \<leftarrow> asn1_indefinite h 0 0 0 s;
         Some (case r of Inl e \<Rightarrow> Inl e | Inr len \<Rightarrow> Inr (1, len))
       }
       else if c = 0x81
       then dec_at (asn1_next h s) (\<lambda>s. do { c \<leftarrow> asn1_get h s; Some (Inr (2, ucast c)) })
       else if c = 0x82
       then dec_at (asn1_next h s) (\<lambda>s. do {
         hi \<leftarrow> asn1_get h s;
         dec_at (asn1_next h s) (\<lambda>s. do {
           lo \<leftarrow> asn1_get h s;
           Some (Inr (3, push_bit 8 (ucast hi) OR ucast lo))
         })
       })
       else Some (Inl ERR_ARG)
     })"

partial_function (option) asn1_u32_loop :: "heap \<Rightarrow> u16 \<Rightarrow> u32 \<Rightarrow> asn1_pos \<Rightarrow> (err + u32) option" where
  "asn1_u32_loop h len value s =
     do {
       c \<leftarrow> asn1_get h s;
       if len > 1
       then let value = push_bit 8 (value OR ucast c) in dec_at (asn1_next h s) (\<lambda>s. asn1_u32_loop h (len - 1) value s)
       else Some (Inr (value OR ucast c))
     }"

declare asn1_u32_loop.simps [code]

definition snmp_asn1_dec_u32t :: "heap \<Rightarrow> ptr \<Rightarrow> u16 \<Rightarrow> u16 \<Rightarrow> (err + u32) option" where
  "snmp_asn1_dec_u32t h p ofs len =
     dec_at (asn1_find h p ofs 0) (\<lambda>s.
       if len > 0 \<and> len < 6
       then do {
         c \<leftarrow> asn1_get h s;
         if c AND 0x80 \<noteq> 0 then Some (Inl ERR_ARG)
         else if len > 1 \<and> c = 0 then dec_at (asn1_next h s) (\<lambda>s. asn1_u32_loop h (len - 1) 0 s)
         else asn1_u32_loop h len 0 s
       }
       else Some (Inl ERR_ARG))"

text \<open>A signed value starts as 0 or -1, whose low octet the octets are put into.\<close>

definition asn1_low_octet :: "bool \<Rightarrow> u32 \<Rightarrow> u8 \<Rightarrow> u32" where
  "asn1_low_octet sign value c = (if sign then value AND (NOT 0xFF OR ucast c) else value OR ucast c)"

partial_function (option) asn1_s32_loop :: "heap \<Rightarrow> bool \<Rightarrow> u16 \<Rightarrow> u32 \<Rightarrow> asn1_pos \<Rightarrow> (err + u32) option" where
  "asn1_s32_loop h sign len value s =
     do {
       c \<leftarrow> asn1_get h s;
       let value = asn1_low_octet sign value c;
       if len > 1
       then let value = push_bit 8 value; value = (if sign then value OR 0xFF else value)
         in dec_at (asn1_next h s) (\<lambda>s. asn1_s32_loop h sign (len - 1) value s)
       else Some (Inr value)
     }"

declare asn1_s32_loop.simps [code]

definition snmp_asn1_dec_s32t :: "heap \<Rightarrow> ptr \<Rightarrow> u16 \<Rightarrow> u16 \<Rightarrow> (err + u32) option" where
  "snmp_asn1_dec_s32t h p ofs len =
     dec_at (asn1_find h p ofs 0) (\<lambda>s.
       if len > 0 \<and> len < 5
       then do {
         c \<leftarrow> asn1_get h s;
         if c AND 0x80 \<noteq> 0 then asn1_s32_loop h True len (- 1) s else asn1_s32_loop h False len 0 s
       }
       else Some (Inl ERR_ARG))"

subsection \<open>Object identifiers\<close>

definition LWIP_SNMP_OBJ_ID_LEN :: u8 where "LWIP_SNMP_OBJ_ID_LEN = 32"

text \<open>The array \<^verbatim>\<open>id\<close> is a list of 32 entries; \<^verbatim>\<open>oid_ptr\<close> is always at the index \<^verbatim>\<open>len\<close>.\<close>

record snmp_obj_id =
  oid_len :: u8
  oid_id :: "u32 list"

definition oid_store :: "u32 \<Rightarrow> snmp_obj_id \<Rightarrow> snmp_obj_id" where
  "oid_store v oid = oid\<lparr>oid_id := (oid_id oid)[unat (oid_len oid) := v]\<rparr>"

definition oid_append :: "u32 \<Rightarrow> snmp_obj_id \<Rightarrow> snmp_obj_id" where
  "oid_append v oid = (oid_store v oid)\<lparr>oid_len := oid_len oid + 1\<rparr>"

text \<open>The first octet holds the first two numbers.\<close>

definition oid_first :: "u8 \<Rightarrow> snmp_obj_id \<Rightarrow> snmp_obj_id" where
  "oid_first c oid =
     (let (a, b) = (if c = 0x2B then (1, 3) else if c < 40 then (0, ucast c) else if c < 80 then (1, ucast c - 40) else (2, ucast c - 80))
      in oid_append b (oid_append a (oid\<lparr>oid_len := 0\<rparr>)))"

text \<open>The continued octets of a sub-identifier, up to the last octet of the field.\<close>

partial_function (option) asn1_sub_id :: "heap \<Rightarrow> u16 \<Rightarrow> u32 \<Rightarrow> asn1_pos \<Rightarrow> (err + u16 \<times> u32 \<times> asn1_pos) option" where
  "asn1_sub_id h len sub_id s =
     do {
       c \<leftarrow> asn1_get h s;
       if c AND 0x80 \<noteq> 0 \<and> len > 1
       then dec_at (asn1_next h s) (\<lambda>s. asn1_sub_id h (len - 1) (push_bit 7 sub_id + ucast (c AND 0x7F)) s)
       else Some (Inr (len, sub_id, s))
     }"

declare asn1_sub_id.simps [code]

definition oid_at :: "asn1_pos option option \<Rightarrow> snmp_obj_id \<Rightarrow> (asn1_pos \<Rightarrow> (snmp_obj_id \<times> err) option) \<Rightarrow> (snmp_obj_id \<times> err) option" where
  "oid_at r oid f = do { r \<leftarrow> r; case r of None \<Rightarrow> Some (oid, ERR_ARG) | Some s \<Rightarrow> f s }"

lemma oid_at_simps [simp]:
  "oid_at None oid f = None" "oid_at (Some None) oid f = Some (oid, ERR_ARG)" "oid_at (Some (Some s)) oid f = f s"
  by (simp_all add: oid_at_def)

lemma oid_at_mono [partial_function_mono]:
  assumes "\<And>s. mono_option (\<lambda>F. f F s)"
  shows "mono_option (\<lambda>F. oid_at r oid (f F))"
proof (cases r)
  case (Some p)
  then show ?thesis
    using assms by (cases p) (simp_all add: option.const_mono)
qed (simp add: option.const_mono)

text \<open>One sub-identifier: the structure and the remaining length, or the error.\<close>

definition asn1_sub_ids :: "heap \<Rightarrow> u16 \<Rightarrow> snmp_obj_id \<Rightarrow> asn1_pos \<Rightarrow> (err + u16 \<times> snmp_obj_id \<times> asn1_pos) option" where
  "asn1_sub_ids h len oid s =
     do {
       c \<leftarrow> asn1_get h s;
       if c AND 0x80 \<noteq> 0
       then do {
         r \<leftarrow> asn1_sub_id h len 0 s;
         case r of
           Inl e \<Rightarrow> Some (Inl e)
         | Inr (len, sub_id, s) \<Rightarrow> do {
             c \<leftarrow> asn1_get h s;
             if c AND 0x80 = 0 \<and> len > 0
             then Some (Inr (len - 1, oid_store (push_bit 7 sub_id + ucast c) oid, s))
             else Some (Inr (len, oid, s))
           }
       }
       else Some (Inr (len - 1, oid_store (ucast c) oid, s))
     }"

partial_function (option) asn1_oid_loop :: "heap \<Rightarrow> u16 \<Rightarrow> snmp_obj_id \<Rightarrow> asn1_pos \<Rightarrow> (snmp_obj_id \<times> err) option" where
  "asn1_oid_loop h len oid s =
     (if len > 0 \<and> oid_len oid < LWIP_SNMP_OBJ_ID_LEN
      then do {
        r \<leftarrow> asn1_sub_ids h len oid s;
        case r of
          Inl e \<Rightarrow> Some (oid, e)
        | Inr (len, oid, s) \<Rightarrow>
            if len > 0
            then oid_at (asn1_next h s) oid (\<lambda>s. asn1_oid_loop h len (oid\<lparr>oid_len := oid_len oid + 1\<rparr>) s)
            else asn1_oid_loop h len (oid\<lparr>oid_len := oid_len oid + 1\<rparr>) s
      }
      else Some (oid, if len = 0 then ERR_OK else ERR_ARG))"

declare asn1_oid_loop.simps [code]

definition snmp_asn1_dec_oid :: "heap \<Rightarrow> ptr \<Rightarrow> u16 \<Rightarrow> u16 \<Rightarrow> snmp_obj_id \<Rightarrow> (snmp_obj_id \<times> err) option" where
  "snmp_asn1_dec_oid h p ofs len oid =
     oid_at (asn1_find h p ofs 0) oid (\<lambda>s.
       if len > 0
       then do {
         c \<leftarrow> asn1_get h s;
         let oid = oid_first c oid;
         if len - 1 > 0
         then oid_at (asn1_next h s) oid (\<lambda>s. asn1_oid_loop h (len - 1) oid s)
         else asn1_oid_loop h (len - 1) oid s
       }
       else Some (oid\<lparr>oid_len := 0\<rparr>, ERR_OK))"

subsection \<open>Raw octets\<close>

partial_function (option) asn1_raw_loop :: "heap \<Rightarrow> u16 \<Rightarrow> u8 list \<Rightarrow> asn1_pos \<Rightarrow> (err + u8 list) option" where
  "asn1_raw_loop h len raw s =
     do {
       c \<leftarrow> asn1_get h s;
       if len > 1 then dec_at (asn1_next h s) (\<lambda>s. asn1_raw_loop h (len - 1) (raw @ [c]) s)
       else Some (Inr (raw @ [c]))
     }"

declare asn1_raw_loop.simps [code]

definition snmp_asn1_dec_raw :: "heap \<Rightarrow> ptr \<Rightarrow> u16 \<Rightarrow> u16 \<Rightarrow> u16 \<Rightarrow> (err + u8 list) option" where
  "snmp_asn1_dec_raw h p ofs len raw_len =
     (if len > 0
      then dec_at (asn1_find h p ofs 0) (\<lambda>s. if raw_len \<ge> len then asn1_raw_loop h len [] s else Some (Inl ERR_ARG))
      else Some (Inr []))"

section \<open>Numbers of octets\<close>

definition snmp_asn1_enc_length_cnt :: "u16 \<Rightarrow> u8" where
  "snmp_asn1_enc_length_cnt len = (if len < 0x80 then 1 else if len < 0x100 then 2 else 3)"

definition snmp_asn1_enc_u32t_cnt :: "u32 \<Rightarrow> u16" where
  "snmp_asn1_enc_u32t_cnt value =
     (if value < 0x80 then 1 else if value < 0x8000 then 2 else if value < 0x800000 then 3 else if value < 0x80000000 then 4 else 5)"

definition snmp_asn1_enc_s32t_cnt :: "u32 \<Rightarrow> u16" where
  "snmp_asn1_enc_s32t_cnt value =
     (let value = (if sint value < 0 then NOT value else value)
      in if sint value < 0x80 then 1 else if sint value < 0x8000 then 2 else if sint value < 0x800000 then 3 else 4)"

text \<open>The number of sevens of bits that are left of a sub-identifier.\<close>

function asn1_groups :: "u32 \<Rightarrow> u8 \<Rightarrow> u8" where
  "asn1_groups sub_id cnt = (if sint sub_id > 0 then asn1_groups (signed_drop_bit 7 sub_id) (cnt + 1) else cnt)"
  by auto

termination
  by (relation "measure (\<lambda>(sub_id, cnt). nat (sint sub_id))") (auto simp: sint_signed_drop_bit_eq drop_bit_eq_div)

declare asn1_groups.simps [simp del]

fun asn1_oid_cnt_loop :: "u32 list \<Rightarrow> u8 \<Rightarrow> u8" where
  "asn1_oid_cnt_loop [] cnt = cnt"
| "asn1_oid_cnt_loop (sub_id # ident) cnt = asn1_oid_cnt_loop ident (asn1_groups (signed_drop_bit 7 sub_id) (cnt + 1))"

text \<open>The array of the identifier is a list.\<close>

definition snmp_asn1_enc_oid_cnt :: "u32 list \<Rightarrow> u16" where
  "snmp_asn1_enc_oid_cnt ident =
     ucast (if length ident > 1 then asn1_oid_cnt_loop (drop 2 ident) 1 else asn1_oid_cnt_loop ident 0)"

section \<open>Encoding\<close>

definition snmp_asn1_enc_type :: "heap \<Rightarrow> ptr \<Rightarrow> u16 \<Rightarrow> u8 \<Rightarrow> (heap \<times> err) option" where
  "snmp_asn1_enc_type h p ofs type = enc_at (asn1_find h p ofs 0) h (\<lambda>s. do { h \<leftarrow> asn1_put h s type; Some (h, ERR_OK) })"

definition snmp_asn1_enc_length :: "heap \<Rightarrow> ptr \<Rightarrow> u16 \<Rightarrow> u16 \<Rightarrow> (heap \<times> err) option" where
  "snmp_asn1_enc_length h p ofs len =
     enc_at (asn1_find h p ofs 0) h (\<lambda>s.
       if len < 0x80 then do { h \<leftarrow> asn1_put h s (ucast len); Some (h, ERR_OK) }
       else if len < 0x100
       then do {
         h \<leftarrow> asn1_put h s 0x81;
         enc_at (asn1_next h s) h (\<lambda>s. do { h \<leftarrow> asn1_put h s (ucast len); Some (h, ERR_OK) })
       }
       else do {
         h \<leftarrow> asn1_put h s 0x82;
         enc_at (asn1_next h s) h (\<lambda>s. do {
           h \<leftarrow> asn1_put h s (ucast (drop_bit 8 len));
           enc_at (asn1_next h s) h (\<lambda>s. do { h \<leftarrow> asn1_put h s (ucast len); Some (h, ERR_OK) })
         })
       })"

text \<open>The loops of the two integer encoders differ in the shift only.\<close>

partial_function (option) asn1_int_loop :: "(nat \<Rightarrow> u8) \<Rightarrow> heap \<Rightarrow> u8 \<Rightarrow> asn1_pos \<Rightarrow> (heap \<times> err) option" where
  "asn1_int_loop octet h octets_needed s =
     (if octets_needed > 1
      then do {
        let octets_needed = octets_needed - 1;
        h \<leftarrow> asn1_put h s (octet (unat octets_needed));
        enc_at (asn1_next h s) h (\<lambda>s. asn1_int_loop octet h octets_needed s)
      }
      else do { h \<leftarrow> asn1_put h s (octet 0); Some (h, ERR_OK) })"

declare asn1_int_loop.simps [code]

definition u32_octet :: "u32 \<Rightarrow> nat \<Rightarrow> u8" where
  "u32_octet value i = ucast (drop_bit (8 * i) value)"

definition s32_octet :: "u32 \<Rightarrow> nat \<Rightarrow> u8" where
  "s32_octet value i = ucast (signed_drop_bit (8 * i) value)"

definition snmp_asn1_enc_u32t :: "heap \<Rightarrow> ptr \<Rightarrow> u16 \<Rightarrow> u8 \<Rightarrow> u32 \<Rightarrow> (heap \<times> err) option" where
  "snmp_asn1_enc_u32t h p ofs octets_needed value =
     enc_at (asn1_find h p ofs 0) h (\<lambda>s.
       if octets_needed = 5
       then do {
         h \<leftarrow> asn1_put h s 0;
         enc_at (asn1_next h s) h (\<lambda>s. asn1_int_loop (u32_octet value) h (octets_needed - 1) s)
       }
       else asn1_int_loop (u32_octet value) h octets_needed s)"

definition snmp_asn1_enc_s32t :: "heap \<Rightarrow> ptr \<Rightarrow> u16 \<Rightarrow> u8 \<Rightarrow> u32 \<Rightarrow> (heap \<times> err) option" where
  "snmp_asn1_enc_s32t h p ofs octets_needed value =
     enc_at (asn1_find h p ofs 0) h (\<lambda>s. asn1_int_loop (s32_octet value) h octets_needed s)"

text \<open>The octets of a sub-identifier with the high bit set; \<^verbatim>\<open>shift\<close> is seven times the counter. No position is the end of
  the chain.\<close>

fun asn1_enc_sub_id :: "heap \<Rightarrow> u32 \<Rightarrow> nat \<Rightarrow> bool \<Rightarrow> asn1_pos \<Rightarrow> (heap \<times> asn1_pos option) option" where
  "asn1_enc_sub_id h sub_id 0 tail s = Some (h, Some s)"
| "asn1_enc_sub_id h sub_id (Suc k) tail s =
     (let code = ucast (signed_drop_bit (7 * Suc k) sub_id) :: u8 in
      if code \<noteq> 0 \<or> tail
      then do {
        h \<leftarrow> asn1_put h s (code OR 0x80);
        r \<leftarrow> asn1_next h s;
        case r of None \<Rightarrow> Some (h, None) | Some s \<Rightarrow> asn1_enc_sub_id h sub_id k True s
      }
      else asn1_enc_sub_id h sub_id k tail s)"

fun asn1_enc_ids :: "heap \<Rightarrow> u32 list \<Rightarrow> asn1_pos \<Rightarrow> (heap \<times> err) option" where
  "asn1_enc_ids h [] s = Some (h, ERR_OK)"
| "asn1_enc_ids h (sub_id # ident) s =
     do {
       (h, r) \<leftarrow> asn1_enc_sub_id h sub_id 4 False s;
       case r of
         None \<Rightarrow> Some (h, ERR_ARG)
       | Some s \<Rightarrow> do {
           h \<leftarrow> asn1_put h s (ucast sub_id AND 0x7F);
           if ident \<noteq> [] then enc_at (asn1_next h s) h (\<lambda>s. asn1_enc_ids h ident s) else Some (h, ERR_OK)
         }
     }"

text \<open>After the prefix the code moves on, and an identifier of two numbers needs an octet behind it.\<close>

definition snmp_asn1_enc_oid :: "heap \<Rightarrow> ptr \<Rightarrow> u16 \<Rightarrow> u32 list \<Rightarrow> (heap \<times> err) option" where
  "snmp_asn1_enc_oid h p ofs ident =
     enc_at (asn1_find h p ofs 0) h (\<lambda>s.
       case ident of
         a # b # ids \<Rightarrow> do {
           h \<leftarrow> asn1_put h s (if a = 1 \<and> b = 3 then 0x2B else ucast (a * 40 + b));
           enc_at (asn1_next h s) h (\<lambda>s. asn1_enc_ids h ids s)
         }
       | _ \<Rightarrow> Some (h, ERR_ARG))"

text \<open>The loop of \<^verbatim>\<open>snmp_asn1_enc_raw\<close>: the counter is an octet, and \<open>raw\<close> are the octets of the buffer from the pointer on, behind
  whose end nothing can be read.\<close>

fun asn1_enc_raw_loop :: "heap \<Rightarrow> u8 \<Rightarrow> u8 list \<Rightarrow> asn1_pos \<Rightarrow> (heap \<times> err) option" where
  "asn1_enc_raw_loop h raw_len [] s = (if raw_len > 0 then None else Some (h, ERR_OK))"
| "asn1_enc_raw_loop h raw_len (c # raw) s =
     (if raw_len > 1
      then do { h \<leftarrow> asn1_put h s c; enc_at (asn1_next h s) h (\<lambda>s. asn1_enc_raw_loop h (raw_len - 1) raw s) }
      else if raw_len > 0 then do { h \<leftarrow> asn1_put h s c; Some (h, ERR_OK) }
      else Some (h, ERR_OK))"

definition snmp_asn1_enc_raw :: "heap \<Rightarrow> ptr \<Rightarrow> u16 \<Rightarrow> u8 \<Rightarrow> u8 list \<Rightarrow> (heap \<times> err) option" where
  "snmp_asn1_enc_raw h p ofs raw_len raw = enc_at (asn1_find h p ofs 0) h (\<lambda>s. asn1_enc_raw_loop h raw_len raw s)"

end
