(* ===== verification/Asn1_Fields.thy ===== *)
theory Asn1_Fields
  imports Asn1 Pbuf_Cursor
begin

text \<open>
  The ASN.1 fields as lists of octets: what the decoders and encoders of \<^verbatim>\<open>core/snmp\<close> do on a chain of pbufs is what reference functions
  do on the octets from the offset, wherever the borders of the pbufs are, and decoding what was encoded gives the value back.
\<close>

unbundle bit_operations_syntax

section \<open>Positions in a message\<close>

text \<open>A message with the octets \<open>D\<close>: a chain of pbufs, none of them empty and none with its payload in the block of another one,
  of less than 65536 octets. The functions of \<^verbatim>\<open>core/snmp\<close> need the pbufs not to be empty: behind the last octet of a pbuf they
  take the first octet of the next one without looking at its length (lemma \<open>asn1_reads_empty_pbuf\<close>).\<close>

definition message :: "heap \<Rightarrow> ptr \<Rightarrow> ptr list \<Rightarrow> u8 list \<Rightarrow> bool" where
  "message h p qs D \<longleftrightarrow> chain h p qs \<and> no_empty h qs \<and> distinct (own_blocks h qs) \<and> chain_data h qs = Some D \<and> length D < 65536"

definition pos_at :: "heap \<Rightarrow> ptr list \<Rightarrow> nat \<Rightarrow> asn1_pos \<Rightarrow> bool" where
  "pos_at h qs k s \<longleftrightarrow> a_p s \<noteq> NULL \<and> unat (a_ofs s) = k \<and> (\<exists>off. cursor h qs (a_p s) off k
     \<and> off < unat (p_len (pb h (a_p s))) \<and> msg_ptr s = ptr_add (payload (pb h (a_p s))) off \<and> unat (a_plen s) + off = k + unat (p_len (pb h (a_p s))))"

lemma messageD:
  assumes "message h p qs D"
  shows "chain h p qs" "no_empty h qs" "distinct (own_blocks h qs)" "chain_data h qs = Some D" "length D < 65536" "lens h qs = length D"
  using assms chain_data_length [of h qs D] by (simp_all add: message_def)

lemma pos_at_cong: "pbufs h' = pbufs h \<Longrightarrow> pos_at h' qs k s = pos_at h qs k s"
  by (simp add: pos_at_def cursor_cong [of h' h])

lemma asn1_find_from:
  assumes "message h p0 (xs @ ys) D" "chain h p ys" "unat plen = lens h xs" "lens h xs \<le> unat ofs"
  shows "if unat ofs < length D then \<exists>s. asn1_find h p ofs plen = Some (Some s) \<and> pos_at h (xs @ ys) (unat ofs) s
    else asn1_find h p ofs plen = Some None"
  using assms
proof (induction ys arbitrary: xs p plen)
  case Nil
  then have "length D = lens h xs"
    using messageD(6) by fastforce
  with Nil show ?case
    by (simp add: asn1_find.simps)
next
  case (Cons y ys)
  note m = messageD [OF Cons.prems(1)]
  obtain b where b: "pbufs h y = Some b" "p = y" "y \<noteq> NULL" "chain h (p_next b) ys"
    using Cons.prems(2) by auto
  have total: "lens h xs + unat (p_len b) + lens h ys = length D"
    using m(6) b(1) by (simp add: lens_append)
  have sum: "unat (plen + p_len b) = lens h xs + unat (p_len b)"
    using Cons.prems(3) total m(5) by (simp add: unat_word_ariths)
  show ?case
  proof (cases "ofs < plen + p_len b")
    case True
    have "unat (ofs - plen) = unat ofs - lens h xs"
      using Cons.prems(3,4) by (simp add: unat_sub word_le_nat_alt)
    moreover have "cursor h (xs @ y # ys) y (unat ofs - lens h xs) (unat ofs)"
      using b True sum Cons.prems(4) by (fastforce simp: cursor_def word_less_nat_alt)
    ultimately show ?thesis
      using True b sum total Cons.prems(4)
      by (subst asn1_find.simps) (auto simp: pos_at_def Let_def word_less_nat_alt intro!: exI [of _ "unat ofs - lens h xs"])
  next
    case False
    have step: "asn1_find h p ofs plen = asn1_find h (p_next b) ofs (plen + p_len b)"
      using b False by (subst asn1_find.simps) (simp add: Let_def)
    have "xs @ y # ys = (xs @ [y]) @ ys" "lens h (xs @ [y]) = lens h xs + unat (p_len b)"
      using b(1) by (simp_all add: lens_append)
    then show ?thesis
      using Cons.IH [of "xs @ [y]" "p_next b" "plen + p_len b", unfolded append_assoc append_Cons append_Nil] Cons.prems(1) b(4) sum False unfolding step
      by (simp add: word_less_nat_alt)
  qed
qed

lemma asn1_find_spec:
  assumes "message h p qs D"
  shows "if unat ofs < length D then \<exists>s. asn1_find h p ofs 0 = Some (Some s) \<and> pos_at h qs (unat ofs) s
    else asn1_find h p ofs 0 = Some None"
  using asn1_find_from [of h p "[]" qs D p 0 ofs, unfolded append_Nil] assms messageD(1) [OF assms] by simp

lemma asn1_next_spec:
  assumes "message h p qs D" "pos_at h qs k s"
  shows "if k + 1 < length D then \<exists>s'. asn1_next h s = Some (Some s') \<and> pos_at h qs (k + 1) s' else asn1_next h s = Some None"
proof -
  note m = messageD [OF assms(1)]
  obtain b where b: "pbufs h (a_p s) = Some b"
    using assms(2) cursor_live m(1) unfolding pos_at_def by blast
  obtain off where off: "a_p s \<noteq> NULL" "unat (a_ofs s) = k" "cursor h qs (a_p s) off k" "off < unat (p_len b)"
    "msg_ptr s = ptr_add (payload b) off" "unat (a_plen s) + off = k + unat (p_len b)"
    using assms(2) b by (auto simp: pos_at_def)
  have k: "k < length D"
    using cursor_less [OF off(3,1)] m(6) by simp
  then have ofs: "unat (a_ofs s + 1) = k + 1"
    using off(2) m(5) by (simp add: unat_word_ariths)
  note step = cursor_step [OF off(3,1) m(1,2), of 1, unfolded b option.sel]
  show ?thesis
  proof (cases "off + 1 = unat (p_len b)")
    case False
    have "cursor h qs (a_p s) (off + 1) (k + 1)"
      using step False off(4) by simp
    moreover from this have "k + 1 < length D"
      using cursor_less off(1) m(6) by fastforce
    moreover have "\<not> a_ofs s + 1 \<ge> a_plen s"
      using ofs off(4,6) False by (simp add: word_le_nat_alt)
    ultimately show ?thesis
      using off ofs False b by (auto simp: asn1_next_def pos_at_def Let_def ptr_add_def intro!: exI [of _ "off + 1"])
  next
    case True
    have cur: "cursor h qs (p_next b) 0 (k + 1)"
      using step True by simp
    have ge: "a_ofs s + 1 \<ge> a_plen s"
      using ofs off(6) True by (simp add: word_le_nat_alt)
    show ?thesis
    proof (cases "p_next b = NULL")
      case no_more: True
      then have "k + 1 = length D"
        using cur m(6) by (simp add: cursor_def)
      then show ?thesis
        using ge b no_more by (simp add: asn1_next_def Let_def)
    next
      case False
      obtain n where n: "pbufs h (p_next b) = Some n"
        using cursor_live [OF cur False m(1)] by blast
      have less: "k + 1 < length D"
        using cursor_less [OF cur False] m(6) by simp
      obtain xs ys where qs: "qs = xs @ p_next b # ys" "k + 1 = lens h xs" "0 < unat (p_len n)"
        using cur False n by (auto elim: cursorE)
      then have "k + 1 + unat (p_len n) \<le> length D"
        using m(6) n by (simp add: lens_append)
      then have "unat (a_plen s + p_len n) = k + 1 + unat (p_len n)"
        using off(6) True m(5) by (simp add: unat_word_ariths)
      then show ?thesis
        using less ge b n False cur ofs qs(3) by (auto simp: asn1_next_def pos_at_def Let_def ptr_add_def)
    qed
  qed
qed

lemma asn1_get_spec:
  assumes "message h p qs D" "pos_at h qs k s"
  shows "k < length D" "asn1_get h s = Some (D ! k)"
proof -
  note m = messageD [OF assms(1)]
  obtain off where off: "a_p s \<noteq> NULL" "cursor h qs (a_p s) off k" "off < unat (p_len (pb h (a_p s)))" "msg_ptr s = ptr_add (payload (pb h (a_p s))) off"
    using assms(2) by (auto simp: pos_at_def)
  then show "k < length D"
    using cursor_less [of h qs "a_p s" off k] m(6) by simp
  then have "take 1 (drop k D) = [D ! k]"
    by (simp add: take_Suc_conv_app_nth [of 0, simplified] hd_drop_conv_nth take_Suc)
  then show "asn1_get h s = Some (D ! k)"
    using cursor_read [OF off(2,1) m(4), of 1] off(3,4) by (simp add: asn1_get_def)
qed

text \<open>Only the contents of the message change.\<close>

definition rewritten :: "heap \<Rightarrow> ptr list \<Rightarrow> heap \<Rightarrow> bool" where
  "rewritten h qs h' \<longleftrightarrow> (\<exists>B. h' = h\<lparr>blocks := B\<rparr> \<and> (\<forall>a. a \<notin> set (own_blocks h qs) \<longrightarrow> B a = blocks h a))"

lemma rewritten_refl: "rewritten h qs h"
  by (auto simp: rewritten_def intro: exI [of _ "blocks h"])

lemma rewritten_trans: "rewritten h qs h1 \<Longrightarrow> rewritten h1 qs h2 \<Longrightarrow> rewritten h qs h2"
  by (auto simp: rewritten_def own_blocks_def)

lemma rewritten_pbufs: "rewritten h qs h' \<Longrightarrow> pbufs h' = pbufs h"
  by (auto simp: rewritten_def)

lemma message_rewritten:
  assumes "message h p qs D" "rewritten h qs h'" "chain_data h' qs = Some D'" "length D' = length D"
  shows "message h' p qs D'"
proof -
  have same: "pbufs h' = pbufs h"
    by (rule rewritten_pbufs [OF assms(2)])
  then have "chain h' p qs = chain h p qs"
    by (intro chain_cong) simp
  then show ?thesis
    using assms same by (simp add: message_def no_empty_def own_blocks_def)
qed

lemma asn1_put_spec:
  assumes "message h p qs D" "pos_at h qs k s"
  obtains h' where "asn1_put h s c = Some h'" "message h' p qs (D[k := c])" "rewritten h qs h'"
proof -
  note m = messageD [OF assms(1)]
  let ?blk = "fst (payload (pb h (a_p s)))"
  obtain off where off: "a_p s \<noteq> NULL" "cursor h qs (a_p s) off k" "off < unat (p_len (pb h (a_p s)))" "msg_ptr s = ptr_add (payload (pb h (a_p s))) off"
    using assms(2) by (auto simp: pos_at_def)
  obtain buf where buf: "mem_write h (msg_ptr s) [c] = Some (h\<lparr>blocks := (blocks h)(?blk \<mapsto> buf)\<rparr>)"
    "chain_data (h\<lparr>blocks := (blocks h)(?blk \<mapsto> buf)\<rparr>) qs = Some (block_write D k [c])"
    by (rule cursor_write [OF off(2,1) m(4) _ m(3), of "[c]"]) (use off(3,4) in auto)
  have "?blk \<in> set (own_blocks h qs)"
    using off(1,2) by (auto simp: own_blocks_def elim!: cursorE)
  then have "rewritten h qs (h\<lparr>blocks := (blocks h)(?blk \<mapsto> buf)\<rparr>)"
    by (auto simp: rewritten_def)
  moreover have "block_write D k [c] = D[k := c]"
    using asn1_get_spec(1) [OF assms] by (simp add: block_write_def upd_conv_take_nth_drop)
  ultimately show ?thesis
    using that buf message_rewritten [OF assms(1)] by (simp add: asn1_put_def)
qed

section \<open>Reading and writing octets\<close>

text \<open>From a position the given octets can be read, up to the end of the message.\<close>

fun reads :: "heap \<Rightarrow> asn1_pos \<Rightarrow> u8 list \<Rightarrow> bool" where
  "reads h s [] \<longleftrightarrow> False"
| "reads h s (c # cs) \<longleftrightarrow> asn1_get h s = Some c
     \<and> (if cs = [] then asn1_next h s = Some None else \<exists>s'. asn1_next h s = Some (Some s') \<and> reads h s' cs)"

lemma pos_reads: "message h p qs D \<Longrightarrow> pos_at h qs k s \<Longrightarrow> reads h s (drop k D)"
proof (induction "length D - k" arbitrary: k s)
  case 0
  then show ?case
    using asn1_get_spec(1) by fastforce
next
  case (Suc n)
  note get = asn1_get_spec [OF Suc.prems] and nxt = asn1_next_spec [OF Suc.prems]
  have drop: "drop k D = D ! k # drop (k + 1) D"
    using get(1) by (simp add: Cons_nth_drop_Suc)
  show ?case
  proof (cases "k + 1 < length D")
    case True
    then obtain s' where s': "asn1_next h s = Some (Some s')" "pos_at h qs (k + 1) s'"
      using nxt by auto
    then show ?thesis
      using Suc.hyps(1) [of "k + 1" s'] Suc.hyps(2) Suc.prems(1) True get(2) unfolding drop by simp
  next
    case False
    then show ?thesis
      using nxt get(2) unfolding drop by simp
  qed
qed

lemma found_reads:
  assumes "message h p qs D"
  shows "if drop (unat ofs) D = [] then asn1_find h p ofs 0 = Some None
    else \<exists>s. asn1_find h p ofs 0 = Some (Some s) \<and> reads h s (drop (unat ofs) D)"
  using asn1_find_spec [OF assms, of ofs] pos_reads [OF assms] by (auto simp: not_less)

text \<open>Writing several octets, which is what every encoder does in the end.\<close>

fun asn1_write :: "heap \<Rightarrow> u8 list \<Rightarrow> asn1_pos \<Rightarrow> (heap \<times> err) option" where
  "asn1_write h [] s = Some (h, ERR_OK)"
| "asn1_write h [c] s = do { h \<leftarrow> asn1_put h s c; Some (h, ERR_OK) }"
| "asn1_write h (c # d # cs) s =
     do { h \<leftarrow> asn1_put h s c; enc_at (asn1_next h s) h (\<lambda>s. asn1_write h (d # cs) s) }"

lemma asn1_write_Cons:
  "asn1_write h (c # cs) = (\<lambda>s. do { h \<leftarrow> asn1_put h s c;
     if cs = [] then Some (h, ERR_OK) else enc_at (asn1_next h s) h (asn1_write h cs) })"
  by (cases cs) (simp_all add: fun_eq_iff)

lemma asn1_write_spec:
  assumes "message h p qs D" "pos_at h qs k s" "ws \<noteq> []"
  shows "\<exists>h'. asn1_write h ws s = Some (h', if k + length ws \<le> length D then ERR_OK else ERR_ARG)
    \<and> message h' p qs (block_write D k (take (length D - k) ws)) \<and> rewritten h qs h'"
  using assms
proof (induction ws arbitrary: h D k s)
  case (Cons c cs)
  obtain h1 where h1: "asn1_put h s c = Some h1" "message h1 p qs (D[k := c])" "rewritten h qs h1"
    by (rule asn1_put_spec [OF Cons.prems(1,2)])
  have k: "k < length D"
    by (rule asn1_get_spec(1) [OF Cons.prems(1,2)])
  have pos: "pos_at h1 qs k s"
    using Cons.prems(2) pos_at_cong [of h1 h] rewritten_pbufs [OF h1(3)] by simp
  note nxt = asn1_next_spec [OF h1(2) pos]
  have one: "block_write D k [c] = D[k := c]"
    using k by (simp add: block_write_def upd_conv_take_nth_drop)
  show ?case
  proof (cases "cs = [] \<or> \<not> k + 1 < length D")
    case True
    then have "take (length D - k) (c # cs) = [c]"
      using k by (auto simp: take_Cons')
    then show ?thesis
      using h1 True nxt k one by (auto simp: asn1_write_Cons)
  next
    case False
    then obtain s' where s': "asn1_next h1 s = Some (Some s')" "pos_at h1 qs (k + 1) s'"
      using nxt by auto
    obtain h' where h': "asn1_write h1 cs s' = Some (h', if k + 1 + length cs \<le> length D then ERR_OK else ERR_ARG)"
      "message h' p qs (block_write (D[k := c]) (k + 1) (take (length D - (k + 1)) cs))" "rewritten h1 qs h'"
      using Cons.IH [OF h1(2) s'(2)] False by auto
    have "take (length D - k) (c # cs) = c # take (length D - (k + 1)) cs"
      using k by (simp add: take_Cons')
    moreover have "block_write (D[k := c]) (k + 1) (take (length D - (k + 1)) cs) = block_write D k (c # take (length D - (k + 1)) cs)"
      using block_write_append [of k "[c]" "take (length D - (k + 1)) cs" D] k one by simp
    ultimately show ?thesis
      using h1 s'(1) h' False rewritten_trans [OF h1(3) h'(3)] by (auto simp: asn1_write_Cons)
  qed
qed simp

text \<open>The contract of an encoder that writes the octets \<open>ws\<close>.\<close>

definition encodes :: "heap \<Rightarrow> ptr \<Rightarrow> ptr list \<Rightarrow> u8 list \<Rightarrow> nat \<Rightarrow> u8 list \<Rightarrow> (heap \<times> err) option \<Rightarrow> bool" where
  "encodes h p qs D k ws r \<longleftrightarrow> (\<exists>h'. r = Some (h', if k + length ws \<le> length D then ERR_OK else ERR_ARG)
     \<and> message h' p qs (block_write D k (take (length D - k) ws)) \<and> rewritten h qs h')"

lemma encodes_loop:
  assumes "message h p qs D" "ws \<noteq> []" "\<And>s. f s = asn1_write h ws s"
  shows "encodes h p qs D (unat ofs) ws (enc_at (asn1_find h p ofs 0) h f)"
proof (cases "unat ofs < length D")
  case True
  then obtain s where "asn1_find h p ofs 0 = Some (Some s)" "pos_at h qs (unat ofs) s"
    using asn1_find_spec [OF assms(1), of ofs] by auto
  then show ?thesis
    using asn1_write_spec [OF assms(1) _ assms(2)] assms(3) by (simp add: encodes_def)
next
  case False
  then have "asn1_find h p ofs 0 = Some None" "\<not> unat ofs + length ws \<le> length D" "block_write D (unat ofs) [] = D"
    using asn1_find_spec [OF assms(1), of ofs] assms(2) by (cases ws; simp add: block_write_def)+
  then show ?thesis
    using assms(1) False rewritten_refl by (auto simp: encodes_def)
qed

section \<open>Encoders\<close>

text \<open>The octets that each encoder writes.\<close>

definition type_octets :: "u8 \<Rightarrow> u8 list" where
  "type_octets t = [t]"

definition length_octets :: "u16 \<Rightarrow> u8 list" where
  "length_octets len = (if len < 0x80 then [ucast len] else if len < 0x100 then [0x81, ucast len] else [0x82, ucast (drop_bit 8 len), ucast len])"

definition int_octets :: "(nat \<Rightarrow> u8) \<Rightarrow> nat \<Rightarrow> u8 list" where
  "int_octets octet n = map octet (rev [0..<n])"

definition u32_octets :: "nat \<Rightarrow> u32 \<Rightarrow> u8 list" where
  "u32_octets n value = (if n = 5 then 0 # int_octets (u32_octet value) 4 else int_octets (u32_octet value) n)"

definition s32_octets :: "nat \<Rightarrow> u32 \<Rightarrow> u8 list" where
  "s32_octets n value = int_octets (s32_octet value) n"

fun group_octets :: "u32 \<Rightarrow> nat \<Rightarrow> bool \<Rightarrow> u8 list" where
  "group_octets v 0 tail = []"
| "group_octets v (Suc k) tail =
     (let code = ucast (signed_drop_bit (7 * Suc k) v) :: u8 in
      if code \<noteq> 0 \<or> tail then (code OR 0x80) # group_octets v k True else group_octets v k tail)"

definition sub_octets :: "u32 \<Rightarrow> u8 list" where
  "sub_octets v = group_octets v 4 False @ [ucast v AND 0x7F]"

fun oid_octets :: "u32 list \<Rightarrow> u8 list" where
  "oid_octets (a # b # ids) = (if a = 1 \<and> b = 3 then 0x2B else ucast (a * 40 + b)) # concat (map sub_octets ids)"
| "oid_octets _ = []"

lemma sub_octets_nonempty [simp]: "sub_octets v \<noteq> []"
  by (simp add: sub_octets_def)

lemma int_octets_Suc: "int_octets octet (Suc n) = octet n # int_octets octet n"
  by (simp add: int_octets_def)

lemma asn1_int_loop_raw:
  "unat n = Suc m \<Longrightarrow> asn1_int_loop octet h n s = asn1_write h (int_octets octet (Suc m)) s"
proof (induction m arbitrary: n h s)
  case 0
  then show ?case
    by (subst asn1_int_loop.simps) (simp add: int_octets_def word_less_nat_alt)
next
  case (Suc m)
  have n: "unat (n - 1) = Suc m" "n > 1"
    using Suc.prems by (simp_all add: unat_sub word_le_nat_alt word_less_nat_alt)
  have "asn1_int_loop octet h (n - 1) = asn1_write h (int_octets octet (Suc m))" for h
    using Suc.IH [OF n(1)] by (simp add: fun_eq_iff)
  moreover have "int_octets octet (Suc m) \<noteq> []"
    by (simp add: int_octets_def)
  ultimately show ?case
    using n by (subst asn1_int_loop.simps) (simp add: int_octets_Suc [of octet "Suc m"] asn1_write_Cons [of _ "octet (Suc m)"] Let_def)
qed

lemma snmp_asn1_enc_type_encodes: "message h p qs D \<Longrightarrow> encodes h p qs D (unat ofs) (type_octets t) (snmp_asn1_enc_type h p ofs t)"
  unfolding snmp_asn1_enc_type_def by (rule encodes_loop) (simp_all add: type_octets_def)

lemma snmp_asn1_enc_length_encodes: "message h p qs D \<Longrightarrow> encodes h p qs D (unat ofs) (length_octets len) (snmp_asn1_enc_length h p ofs len)"
  unfolding snmp_asn1_enc_length_def by (rule encodes_loop) (simp_all add: length_octets_def asn1_write_Cons)

lemma snmp_asn1_enc_u32t_encodes:
  assumes "message h p qs D" "n \<in> {1..5}"
  shows "encodes h p qs D (unat ofs) (u32_octets (unat n) value) (snmp_asn1_enc_u32t h p ofs n value)"
proof -
  obtain m where m: "unat n = Suc m"
    using assms(2) by (cases "unat n") (auto simp: word_le_nat_alt)
  have five: "n = 5 \<longleftrightarrow> unat n = 5"
    by (simp add: word_unat_eq_iff)
  have four: "asn1_int_loop (u32_octet value) h (n - 1) = asn1_write h (int_octets (u32_octet value) 4)" if "n = 5" for h
    using asn1_int_loop_raw [of "n - 1" 3 "u32_octet value" h] that by (simp add: fun_eq_iff)
  have "int_octets (u32_octet value) 4 \<noteq> []"
    by (simp add: int_octets_def)
  moreover have "u32_octets (unat n) value \<noteq> []"
    using m by (simp add: u32_octets_def int_octets_def)
  ultimately show ?thesis
    unfolding snmp_asn1_enc_u32t_def using asn1_int_loop_raw [OF m] four m five
    by (intro encodes_loop [OF assms(1)]) (simp_all add: u32_octets_def asn1_write_Cons [of _ 0])
qed

lemma snmp_asn1_enc_s32t_encodes:
  assumes "message h p qs D" "0 < n"
  shows "encodes h p qs D (unat ofs) (s32_octets (unat n) value) (snmp_asn1_enc_s32t h p ofs n value)"
proof -
  obtain m where m: "unat n = Suc m"
    using assms(2) by (cases "unat n") (auto simp: word_less_nat_alt)
  then show ?thesis
    unfolding snmp_asn1_enc_s32t_def using asn1_int_loop_raw [OF m]
    by (intro encodes_loop [OF assms(1)]) (simp_all add: s32_octets_def int_octets_def)
qed

lemma asn1_enc_raw_loop_write:
  "unat raw_len \<le> length raw \<Longrightarrow> asn1_enc_raw_loop h raw_len raw s = asn1_write h (take (unat raw_len) raw) s"
proof (induction raw arbitrary: h raw_len s)
  case (Cons c raw)
  consider "raw_len = 0" | "raw_len = 1" | "raw_len > 1"
    by (metis word_le_less_eq word_less_1 word_neq_0_conv not_le)
  then show ?case
  proof cases
    case 3
    then have n: "unat raw_len = Suc (unat (raw_len - 1))" "0 < unat (raw_len - 1)"
      by (auto simp: unat_sub_if' word_less_nat_alt)
    then have "take (unat (raw_len - 1)) raw \<noteq> []" "unat (raw_len - 1) \<le> length raw"
      using Cons.prems by auto
    moreover from this have "asn1_enc_raw_loop h (raw_len - 1) raw = asn1_write h (take (unat (raw_len - 1)) raw)" for h
      using Cons.IH by (intro ext)
    ultimately show ?thesis
      using 3 n by (simp add: asn1_write_Cons)
  qed simp_all
qed (simp add: unat_eq_zero)

lemma snmp_asn1_enc_raw_encodes:
  assumes "message h p qs D" "0 < raw_len" "unat raw_len \<le> length raw"
  shows "encodes h p qs D (unat ofs) (take (unat raw_len) raw) (snmp_asn1_enc_raw h p ofs raw_len raw)"
  unfolding snmp_asn1_enc_raw_def
  by (rule encodes_loop [OF assms(1)]) (use assms(2,3) in \<open>auto simp: asn1_enc_raw_loop_write word_less_nat_alt\<close>)

subsection \<open>Object identifiers\<close>

lemma asn1_enc_sub_id_raw:
  assumes "\<And>h s. f h s = do { h \<leftarrow> asn1_put h s c; if cs = [] then Some (h, ERR_OK) else enc_at (asn1_next h s) h (\<lambda>s. asn1_write h cs s) }"
  shows "do { (h, r) \<leftarrow> asn1_enc_sub_id h v k tail s; case r of None \<Rightarrow> Some (h, ERR_ARG) | Some s \<Rightarrow> f h s }
    = asn1_write h (group_octets v k tail @ c # cs) s"
proof (induction k arbitrary: h tail s)
  case 0
  then show ?case
    using assms by (simp add: asn1_write_Cons)
next
  case (Suc k)
  show ?case
  proof (cases "(ucast (signed_drop_bit (7 * Suc k) v) :: u8) \<noteq> 0 \<or> tail")
    case False
    then show ?thesis
      using Suc.IH by (simp add: Let_def)
  next
    case True
    let ?c = "ucast (signed_drop_bit (7 * Suc k) v) OR 0x80 :: u8"
    have "do { (h, r) \<leftarrow> asn1_enc_sub_id h v (Suc k) tail s; case r of None \<Rightarrow> Some (h, ERR_ARG) | Some s \<Rightarrow> f h s }
      = do { h \<leftarrow> asn1_put h s ?c; enc_at (asn1_next h s) h (\<lambda>s. do {
          (h, r) \<leftarrow> asn1_enc_sub_id h v k True s; case r of None \<Rightarrow> Some (h, ERR_ARG) | Some s \<Rightarrow> f h s }) }"
      using True by (cases "asn1_put h s ?c"; cases "asn1_next (the (asn1_put h s ?c)) s") (auto simp: Let_def enc_at_def split: option.splits)
    then show ?thesis
      using True Suc.IH by (simp add: Let_def asn1_write_Cons)
  qed
qed

lemma asn1_enc_ids_raw: "ids \<noteq> [] \<Longrightarrow> asn1_enc_ids h ids = asn1_write h (concat (map sub_octets ids))"
proof (induction ids arbitrary: h)
  case (Cons v ids)
  let ?cs = "concat (map sub_octets ids)"
  have cs: "?cs = [] \<longleftrightarrow> ids = []"
    by (cases ids) simp_all
  let ?f = "\<lambda>h s. do { h \<leftarrow> asn1_put h s (ucast v AND 0x7F); if ids \<noteq> [] then enc_at (asn1_next h s) h (asn1_enc_ids h ids) else Some (h, ERR_OK) }"
  have f: "?f h s = do { h \<leftarrow> asn1_put h s (ucast v AND 0x7F); if ?cs = [] then Some (h, ERR_OK) else enc_at (asn1_next h s) h (asn1_write h ?cs) }" for h s
    using cs Cons.IH by (cases "ids = []") simp_all
  show ?case
    using asn1_enc_sub_id_raw [of ?f "ucast v AND 0x7F" ?cs h v 4 False, OF f] by (simp add: fun_eq_iff) (simp add: sub_octets_def)
qed simp

lemma snmp_asn1_enc_oid_encodes:
  assumes "message h p qs D" "ids \<noteq> []"
  shows "encodes h p qs D (unat ofs) (oid_octets (a # b # ids)) (snmp_asn1_enc_oid h p ofs (a # b # ids))"
proof -
  have "concat (map sub_octets ids) \<noteq> []"
    using assms(2) by (cases ids) (simp_all add: sub_octets_def)
  then show ?thesis
    unfolding snmp_asn1_enc_oid_def
    by (intro encodes_loop [OF assms(1)]) (simp_all add: asn1_enc_ids_raw [OF assms(2)] asn1_write_Cons)
qed

end
