(* ===== verification/Asn1_Roundtrip.thy ===== *)
theory Asn1_Roundtrip
  imports Asn1_Fields
begin

text \<open>Decoding gives back what was encoded, and every decoder returns on every message.\<close>

unbundle bit_operations_syntax

section \<open>Integers\<close>

lemma bit_u32_octet: "bit (u32_octet v i) j \<longleftrightarrow> j < 8 \<and> bit v (8 * i + j)"
  by (simp add: u32_octet_def bit_ucast_iff bit_drop_bit_eq)

lemma bit_s32_octet: "bit (s32_octet v i) j \<longleftrightarrow> j < 8 \<and> bit (signed_drop_bit (8 * i) v) j"
  by (simp add: s32_octet_def bit_ucast_iff)

lemma u32_octet_put: "push_bit 8 (drop_bit (8 * Suc m) v) OR ucast (u32_octet v m) = drop_bit (8 * m) v"
proof (rule bit_word_eqI)
  fix n
  assume "n < LENGTH(32)"
  then show "bit (push_bit 8 (drop_bit (8 * Suc m) v) OR ucast (u32_octet v m)) n \<longleftrightarrow> bit (drop_bit (8 * m) v) n"
    by (cases "n < 8") (auto simp: bit_or_iff bit_push_bit_iff bit_drop_bit_eq bit_ucast_iff bit_u32_octet ac_simps)
qed

lemma s32_octet_put: "push_bit 8 (signed_drop_bit (8 * Suc m) v) OR ucast (s32_octet v m) = signed_drop_bit (8 * m) v"
proof (rule bit_word_eqI)
  fix n
  assume n: "n < LENGTH(32)"
  show "bit (push_bit 8 (signed_drop_bit (8 * Suc m) v) OR ucast (s32_octet v m)) n \<longleftrightarrow> bit (signed_drop_bit (8 * m) v) n"
  proof (cases "n < 8")
    case True
    then show ?thesis
      by (auto simp: bit_or_iff bit_push_bit_iff bit_ucast_iff bit_s32_octet)
  next
    case False
    then obtain j where j: "n = 8 + j"
      using le_Suc_ex not_less by blast
    then show ?thesis
      using n by (auto simp: bit_or_iff bit_push_bit_iff bit_ucast_iff bit_s32_octet bit_signed_drop_bit_iff ac_simps)
  qed
qed

lemma low_octet_put:
  "asn1_low_octet sign (if sign then push_bit 8 x OR 0xFF else push_bit 8 x) c = push_bit 8 x OR ucast c"
proof (rule bit_word_eqI)
  fix n
  assume n: "n < LENGTH(32)"
  have m: "(0xFF :: u32) = mask 8"
    by (simp add: mask_eq_exp_minus_1)
  then have ff: "bit (255 :: u32) n \<longleftrightarrow> n < 8"
    using n by (simp only: bit_mask_iff) simp
  have "(- 256 :: u32) = NOT 255"
    by simp
  then have "bit (- 256 :: u32) n \<longleftrightarrow> \<not> n < 8"
    using n ff by (simp only: bit_not_iff) simp
  then show "bit (asn1_low_octet sign (if sign then push_bit 8 x OR 0xFF else push_bit 8 x) c) n \<longleftrightarrow> bit (push_bit 8 x OR ucast c) n"
    using n ff by (cases "n < 8") (auto simp: asn1_low_octet_def bit_or_iff bit_and_iff bit_not_iff bit_push_bit_iff bit_ucast_iff
      intro: bit_imp_le_length dest: bit_imp_le_length)
qed

lemma reads_tl:
  assumes "reads h s (c # d # cs)"
  shows "asn1_get h s = Some c" "\<exists>s'. asn1_next h s = Some (Some s') \<and> reads h s' (d # cs)"
  using assms by (auto simp del: reads.simps(2) simp: reads.simps(2) [of _ _ c])

lemma reads_get: "reads h s (c # cs) \<Longrightarrow> asn1_get h s = Some c"
  by simp

lemma int_octets_1: "int_octets octet (Suc 0) = [octet 0]"
  by (simp add: int_octets_def)

lemma int_octets_two: "int_octets octet (Suc (Suc m)) @ rest = octet (Suc m) # octet m # int_octets octet m @ rest"
  by (simp add: int_octets_Suc)

lemma int_octets_ne: "int_octets octet (Suc m) @ rest \<noteq> []"
  by (simp add: int_octets_Suc)

lemma reads_octets:
  assumes "reads h s (int_octets octet (Suc (Suc m)) @ rest)"
  shows "asn1_get h s = Some (octet (Suc m))" "\<exists>s'. asn1_next h s = Some (Some s') \<and> reads h s' (int_octets octet (Suc m) @ rest)"
  using reads_tl [OF assms [unfolded int_octets_two]] unfolding int_octets_Suc [of octet m] append_Cons by blast+

lemma len_step:
  assumes "unat (len :: u16) = Suc (Suc m)"
  shows "unat (len - 1) = Suc m" "len > 1"
  using assms by (simp_all add: unat_sub word_le_nat_alt word_less_nat_alt)

lemma len_last: "unat (len :: u16) = Suc 0 \<Longrightarrow> \<not> len > 1"
  by (simp add: word_less_nat_alt)

lemma u32_loop_steps:
  "asn1_get h s = Some c \<Longrightarrow> len > 1 \<Longrightarrow>
     asn1_u32_loop h len value s = dec_at (asn1_next h s) (asn1_u32_loop h (len - 1) (push_bit 8 (value OR ucast c)))"
  "asn1_get h s = Some c \<Longrightarrow> \<not> len > 1 \<Longrightarrow> asn1_u32_loop h len value s = Some (Inr (value OR ucast c))"
  by (subst asn1_u32_loop.simps, simp)+

lemma u32_loop_reads:
  "reads h s (int_octets (u32_octet v) (Suc m) @ rest) \<Longrightarrow> unat len = Suc m \<Longrightarrow>
   asn1_u32_loop h len (push_bit 8 (drop_bit (8 * Suc m) v)) s = Some (Inr v)"
proof (induction m arbitrary: s len)
  case 0
  then have "asn1_get h s = Some (u32_octet v 0)"
    unfolding int_octets_1 append_Cons by (intro reads_get)
  from u32_loop_steps(2) [OF this len_last [OF 0(2)]] show ?case
    using u32_octet_put [of 0 v] by simp
next
  case (Suc m)
  obtain s' where s': "asn1_next h s = Some (Some s')" "reads h s' (int_octets (u32_octet v) (Suc m) @ rest)"
    using reads_octets(2) [OF Suc.prems(1)] by blast
  note n = len_step [OF Suc.prems(2)]
  show ?case
    unfolding u32_loop_steps(1) [OF reads_octets(1) [OF Suc.prems(1)] n(2)] s'(1) dec_at_simps u32_octet_put
    by (rule Suc.IH [OF s'(2) n(1)])
qed

text \<open>The same for signed values, whose low octet is all ones before an octet of a negative value is put in.\<close>

abbreviation signed_start :: "bool \<Rightarrow> u32 \<Rightarrow> u32" where
  "signed_start sign x \<equiv> (if sign then push_bit 8 x OR 0xFF else push_bit 8 x)"

lemma s32_loop_steps:
  "asn1_get h s = Some c \<Longrightarrow> len > 1 \<Longrightarrow> asn1_s32_loop h sign len (signed_start sign x) s =
     dec_at (asn1_next h s) (asn1_s32_loop h sign (len - 1) (signed_start sign (push_bit 8 x OR ucast c)))"
  "asn1_get h s = Some c \<Longrightarrow> \<not> len > 1 \<Longrightarrow> asn1_s32_loop h sign len (signed_start sign x) s = Some (Inr (push_bit 8 x OR ucast c))"
  by (subst asn1_s32_loop.simps, simp only: low_octet_put Let_def bind.bind_lunit if_True if_False)+

lemma s32_loop_reads:
  "reads h s (int_octets (s32_octet v) (Suc m) @ rest) \<Longrightarrow> unat len = Suc m \<Longrightarrow>
   asn1_s32_loop h sign len (signed_start sign (signed_drop_bit (8 * Suc m) v)) s = Some (Inr v)"
proof (induction m arbitrary: s len)
  case 0
  then have "asn1_get h s = Some (s32_octet v 0)"
    unfolding int_octets_1 append_Cons by (intro reads_get)
  from s32_loop_steps(2) [OF this len_last [OF 0(2)]] show ?case
    using s32_octet_put [of 0 v] by simp
next
  case (Suc m)
  obtain s' where s': "asn1_next h s = Some (Some s')" "reads h s' (int_octets (s32_octet v) (Suc m) @ rest)"
    using reads_octets(2) [OF Suc.prems(1)] by blast
  note n = len_step [OF Suc.prems(2)]
  show ?case
    unfolding s32_loop_steps(1) [OF reads_octets(1) [OF Suc.prems(1)] n(2)] s'(1) dec_at_simps s32_octet_put
    by (rule Suc.IH [OF s'(2) n(1)])
qed

subsection \<open>The lengths\<close>

lemma and_sign: "(c :: u8) AND 0x80 = 0 \<longleftrightarrow> \<not> bit c 7"
  using and_exp_eq_0_iff_not_bit [of c 7] by simp

lemma drop_bit_small: "unat (v :: u32) < 2 ^ k \<Longrightarrow> drop_bit k v = 0"
  by (simp add: word_unat_eq_iff unat_drop_bit_div)

lemma u32_cnt_cases:
  obtains "snmp_asn1_enc_u32t_cnt v = 5"
  | m where "unat (snmp_asn1_enc_u32t_cnt v) = Suc m" "m < 4" "unat v < 2 ^ (8 * m + 7)"
proof (cases "snmp_asn1_enc_u32t_cnt v = 5")
  case False
  define m where "m = unat (snmp_asn1_enc_u32t_cnt v) - 1"
  have "unat (snmp_asn1_enc_u32t_cnt v) = Suc m" "m < 4" "unat v < 2 ^ (8 * m + 7)"
    using False by (auto simp: m_def snmp_asn1_enc_u32t_cnt_def word_less_nat_alt split: if_splits)
  then show ?thesis
    using that(2) by blast
qed

text \<open>A decoder at an offset where octets are known.\<close>

lemma dec_reads:
  assumes "message h p qs D" "drop (unat ofs) D = c # cs"
  obtains s where "asn1_find h p ofs 0 = Some (Some s)" "reads h s (c # cs)"
  using found_reads [OF assms(1), of ofs] assms(2) by (auto simp del: reads.simps)

lemma reads_next: "reads h s (c # cs) \<Longrightarrow> cs \<noteq> [] \<Longrightarrow> \<exists>s'. asn1_next h s = Some (Some s') \<and> reads h s' cs"
  by simp

lemma dec_u32t_start:
  assumes "asn1_find h p ofs 0 = Some (Some s)" "asn1_get h s = Some c" "0 < len" "len < 6" "c AND 0x80 = 0"
  shows "snmp_asn1_dec_u32t h p ofs len
    = (if len > 1 \<and> c = 0 then dec_at (asn1_next h s) (asn1_u32_loop h (len - 1) 0) else asn1_u32_loop h len 0 s)"
  using assms by (simp add: snmp_asn1_dec_u32t_def)

lemma small_top:
  assumes "unat (v :: u32) < 2 ^ (8 * m + 7)"
  shows "\<not> bit (u32_octet v m) 7" "u32_octet v m = 0 \<Longrightarrow> drop_bit (8 * m) v = 0" "drop_bit (8 * Suc m) v = 0"
proof -
  have "\<not> bit (drop_bit (8 * m + 7) v) j" for j
    unfolding drop_bit_small [OF assms] by simp
  then have top: "\<not> bit v (8 * m + 7 + j)" for j
    by (simp add: bit_drop_bit_eq)
  then show "\<not> bit (u32_octet v m) 7"
    using top [of 0] by (simp add: bit_u32_octet)
  show "drop_bit (8 * m) v = 0" if "u32_octet v m = 0"
  proof (rule bit_word_eqI)
    fix n
    have "\<not> bit v (8 * m + n)"
      using bit_u32_octet [of v m n] that top [of "n - 7"] by (cases "n < 8") (simp_all add: ac_simps)
    then show "bit (drop_bit (8 * m) v) n \<longleftrightarrow> bit 0 n"
      by (simp add: bit_drop_bit_eq)
  qed
  show "drop_bit (8 * Suc m) v = 0"
    using assms by (intro drop_bit_small) (rule less_le_trans, assumption, rule power_increasing, simp_all)
qed

lemma dec_u32t_octets:
  assumes "message h p qs D" "drop (unat ofs) D = u32_octets (unat (snmp_asn1_enc_u32t_cnt v)) v @ rest"
  shows "snmp_asn1_dec_u32t h p ofs (snmp_asn1_enc_u32t_cnt v) = Some (Inr v)"
proof (cases v rule: u32_cnt_cases)
  case 1
  then have "drop (unat ofs) D = 0 # int_octets (u32_octet v) (Suc 3) @ rest"
    using assms(2) by (simp add: u32_octets_def)
  then obtain s where s: "asn1_find h p ofs 0 = Some (Some s)" "reads h s (0 # int_octets (u32_octet v) (Suc 3) @ rest)"
    using dec_reads [OF assms(1)] by blast
  obtain s' where s': "asn1_next h s = Some (Some s')" "reads h s' (int_octets (u32_octet v) (Suc 3) @ rest)"
    using reads_next [OF s(2) int_octets_ne] by blast
  show ?thesis
    using dec_u32t_start [OF s(1) reads_get [OF s(2)], of 5] u32_loop_reads [OF s'(2), of 4] s'(1) 1 by simp
next
  case (2 m)
  let ?len = "snmp_asn1_enc_u32t_cnt v" and ?c = "u32_octet v m"
  have "unat ?len \<noteq> 5"
    using 2 by simp
  then have octets: "drop (unat ofs) D = ?c # int_octets (u32_octet v) m @ rest"
    using assms(2) 2 by (simp add: u32_octets_def int_octets_Suc)
  obtain s where s: "asn1_find h p ofs 0 = Some (Some s)" "reads h s (?c # int_octets (u32_octet v) m @ rest)"
    using dec_reads [OF assms(1) octets] by blast
  have len: "0 < ?len" "?len < 6" "1 < ?len \<longleftrightarrow> m \<noteq> 0"
    using 2 by (simp_all add: word_less_nat_alt)
  note top = small_top [OF 2(3)]
  note start = dec_u32t_start [OF s(1) reads_get [OF s(2)] len(1,2) and_sign [THEN iffD2, OF top(1)]]
  show ?thesis
  proof (cases "m \<noteq> 0 \<and> ?c = 0")
    case True
    then obtain k where k: "m = Suc k"
      by (cases m) auto
    obtain s' where s': "asn1_next h s = Some (Some s')" "reads h s' (int_octets (u32_octet v) (Suc k) @ rest)"
      using reads_next [OF s(2) [unfolded k] int_octets_ne] by blast
    have "drop_bit (8 * Suc k) v = 0" "unat (?len - 1) = Suc k"
      using top(2) True 2(1) k by (simp_all add: unat_sub word_le_nat_alt)
    then show ?thesis
      using u32_loop_reads [OF s'(2), of "?len - 1"] start s'(1) True len(3) by simp
  next
    case False
    have "reads h s (int_octets (u32_octet v) (Suc m) @ rest)"
      using s(2) unfolding int_octets_Suc append_Cons .
    from u32_loop_reads [OF this 2(1)] show ?thesis
      using start top(3) False len(3) by auto
  qed
qed

lemma signed_drop_small:
  assumes "- (2 ^ j) \<le> sint (v :: u32)" "sint v < 2 ^ j" "j \<le> k"
  shows "signed_drop_bit k v = (if sint v < 0 then - 1 else 0)"
proof -
  have p: "(2 :: int) ^ j \<le> 2 ^ k"
    using assms(3) by (intro power_increasing) simp_all
  have "sint (signed_drop_bit k v) = sint v div 2 ^ k"
    by (simp add: sint_signed_drop_bit_eq drop_bit_eq_div)
  also have "\<dots> = sint (if sint v < 0 then - 1 else 0 :: u32)"
  proof (cases "sint v < 0")
    case True
    have "sint v div 2 ^ k = - 1"
      by (intro int_div_pos_eq [of _ _ _ "sint v + 2 ^ k"]) (use True assms(1) p in linarith)+
    with True show ?thesis
      by simp
  next
    case False
    moreover have "sint v < 2 ^ k"
      using assms(2) p by linarith
    ultimately show ?thesis
      by (simp add: div_pos_pos_trivial)
  qed
  finally show ?thesis
    by (rule signed_word_eqI)
qed

lemma s32_cnt_cases:
  obtains m where "unat (snmp_asn1_enc_s32t_cnt v) = Suc m" "m < 4" "- (2 ^ (8 * m + 7)) \<le> sint v" "sint v < 2 ^ (8 * m + 7)"
proof -
  define m where "m = unat (snmp_asn1_enc_s32t_cnt v) - 1"
  have "sint (NOT v) = NOT (sint v)"
    by (rule bit_eqI) (auto simp: bit_sint_iff bit_not_iff dest: bit_imp_le_length)
  then have "sint (NOT v) = - sint v - 1"
    by (simp add: not_int_def)
  moreover have "- (2 ^ 31) \<le> sint v" "sint v < 2 ^ 31"
    using sint_greater_eq [of v] sint_less [of v] by simp_all
  ultimately have "unat (snmp_asn1_enc_s32t_cnt v) = Suc m" "m < 4" "- (2 ^ (8 * m + 7)) \<le> sint v" "sint v < 2 ^ (8 * m + 7)"
    by (auto simp: m_def snmp_asn1_enc_s32t_cnt_def Let_def split: if_splits)
  then show ?thesis
    by (rule that)
qed

lemma dec_s32t_start:
  assumes "asn1_find h p ofs 0 = Some (Some s)" "asn1_get h s = Some c" "0 < len" "len < 5"
  shows "snmp_asn1_dec_s32t h p ofs len = asn1_s32_loop h (bit c 7) len (if bit c 7 then - 1 else 0) s"
  using assms by (simp add: snmp_asn1_dec_s32t_def and_sign)

lemma dec_s32t_octets:
  assumes "message h p qs D" "drop (unat ofs) D = s32_octets (unat (snmp_asn1_enc_s32t_cnt v)) v @ rest"
  shows "snmp_asn1_dec_s32t h p ofs (snmp_asn1_enc_s32t_cnt v) = Some (Inr v)"
proof -
  let ?len = "snmp_asn1_enc_s32t_cnt v"
  obtain m where m: "unat ?len = Suc m" "m < 4" "- (2 ^ (8 * m + 7)) \<le> sint v" "sint v < 2 ^ (8 * m + 7)"
    by (rule s32_cnt_cases)
  let ?c = "s32_octet v m"
  have octets: "drop (unat ofs) D = ?c # int_octets (s32_octet v) m @ rest"
    using assms(2) m(1) by (simp add: s32_octets_def int_octets_Suc)
  obtain s where s: "asn1_find h p ofs 0 = Some (Some s)" "reads h s (?c # int_octets (s32_octet v) m @ rest)"
    using dec_reads [OF assms(1) octets] by blast
  have len: "0 < ?len" "?len < 5"
    using m(1,2) by (simp_all add: word_less_nat_alt)
  have "bit (s32_octet v m) 7 \<longleftrightarrow> bit (signed_drop_bit (8 * m + 7) v) 0"
    using m(2) by (simp add: bit_s32_octet bit_signed_drop_bit_iff) linarith
  then have sign: "bit ?c 7 \<longleftrightarrow> sint v < 0"
    using signed_drop_small [OF m(3,4), of "8 * m + 7"] by simp
  have "signed_drop_bit (8 * Suc m) v = (if sint v < 0 then - 1 else 0)"
    using m(3,4) by (rule signed_drop_small) simp
  moreover have "push_bit 8 (- 1) OR 0xFF = (- 1 :: u32)"
    by (simp add: push_bit_eq_mult)
  ultimately have start: "signed_start (sint v < 0) (signed_drop_bit (8 * Suc m) v) = (if sint v < 0 then - 1 else 0)"
    by (simp only: if_True if_False split: if_split) simp
  have "reads h s (int_octets (s32_octet v) (Suc m) @ rest)"
    using s(2) unfolding int_octets_Suc append_Cons .
  from s32_loop_reads [OF this m(1), of "sint v < 0"] show ?thesis
    unfolding dec_s32t_start [OF s(1) reads_get [OF s(2)] len] sign start .
qed

section \<open>Types, lengths and raw octets\<close>

lemma dec_type_octets:
  assumes "message h p qs D" "drop (unat ofs) D = type_octets t @ rest"
  shows "snmp_asn1_dec_type h p ofs = Some (Inr t)"
proof -
  have "drop (unat ofs) D = t # rest"
    using assms(2) by (simp add: type_octets_def)
  then obtain s where s: "asn1_find h p ofs 0 = Some (Some s)" "reads h s (t # rest)"
    using dec_reads [OF assms(1)] by blast
  then show ?thesis
    using reads_get [OF s(2)] by (simp add: snmp_asn1_dec_type_def)
qed

lemma high_low: "push_bit 8 (ucast (ucast (drop_bit 8 len) :: u8)) OR ucast (ucast len :: u8) = (len :: u16)"
proof (rule bit_word_eqI)
  fix n
  show "bit (push_bit 8 (ucast (ucast (drop_bit 8 len) :: u8)) OR ucast (ucast len :: u8) :: u16) n \<longleftrightarrow> bit len n" if "n < LENGTH(16)"
    using that by (cases "n < 8") (auto simp: bit_or_iff bit_push_bit_iff bit_ucast_iff bit_drop_bit_eq)
qed

lemma dec_length_octets:
  assumes "message h p qs D" "drop (unat ofs) D = length_octets len @ rest"
  shows "snmp_asn1_dec_length h p ofs = Some (Inr (snmp_asn1_enc_length_cnt len, len))"
proof (cases "len < 0x100")
  case True
  have ucast: "ucast (ucast len :: u8) = len"
    using True by (simp add: word_unat_eq_iff unat_ucast_mod word_less_nat_alt)
  show ?thesis
  proof (cases "len < 0x80")
    case small: True
    have "drop (unat ofs) D = ucast len # rest"
      using assms(2) small by (simp add: length_octets_def)
    then obtain s where s: "asn1_find h p ofs 0 = Some (Some s)" "reads h s (ucast len # rest)"
      using dec_reads [OF assms(1)] by blast
    have "(ucast len :: u8) < 0x80"
      using small by (simp add: word_less_nat_alt unat_ucast_mod)
    then show ?thesis
      using s(1) reads_get [OF s(2)] small ucast by (simp add: snmp_asn1_dec_length_def snmp_asn1_enc_length_cnt_def)
  next
    case False
    have "drop (unat ofs) D = 0x81 # ucast len # rest"
      using assms(2) True False by (simp add: length_octets_def)
    then obtain s where s: "asn1_find h p ofs 0 = Some (Some s)" "reads h s (0x81 # ucast len # rest)"
      using dec_reads [OF assms(1)] by blast
    obtain s' where s': "asn1_next h s = Some (Some s')" "reads h s' (ucast len # rest)"
      using reads_next [OF s(2)] by auto
    show ?thesis
      using s(1) reads_get [OF s(2)] s'(1) reads_get [OF s'(2)] True False ucast by (simp add: snmp_asn1_dec_length_def snmp_asn1_enc_length_cnt_def)
  qed
next
  case False
  then have "\<not> len < 0x80"
    by (auto simp: word_less_nat_alt)
  with False have "drop (unat ofs) D = 0x82 # ucast (drop_bit 8 len) # ucast len # rest"
    using assms(2) by (simp add: length_octets_def)
  then obtain s where s: "asn1_find h p ofs 0 = Some (Some s)" "reads h s (0x82 # ucast (drop_bit 8 len) # ucast len # rest)"
    using dec_reads [OF assms(1)] by blast
  obtain s' where s': "asn1_next h s = Some (Some s')" "reads h s' (ucast (drop_bit 8 len) # ucast len # rest)"
    using reads_next [OF s(2)] by auto
  obtain s'' where s'': "asn1_next h s' = Some (Some s'')" "reads h s'' (ucast len # rest)"
    using reads_next [OF s'(2)] by auto
  show ?thesis
    using s(1) reads_get [OF s(2)] s'(1) reads_get [OF s'(2)] s''(1) reads_get [OF s''(2)] False \<open>\<not> len < 0x80\<close> high_low [of len]
    by (simp add: snmp_asn1_dec_length_def snmp_asn1_enc_length_cnt_def)
qed

lemma raw_loop_reads:
  "reads h s (raw @ rest) \<Longrightarrow> raw \<noteq> [] \<Longrightarrow> unat len = length raw \<Longrightarrow> asn1_raw_loop h len acc s = Some (Inr (acc @ raw))"
proof (induction raw arbitrary: s len acc)
  case (Cons c raw)
  show ?case
  proof (cases raw)
    case Nil
    then show ?thesis
      using Cons.prems reads_get [of h s c rest] by (subst asn1_raw_loop.simps) (simp add: word_less_nat_alt)
  next
    case raw: (Cons d ds)
    have r: "reads h s (c # raw @ rest)"
      using Cons.prems(1) by (simp del: reads.simps)
    obtain s' where s': "asn1_next h s = Some (Some s')" "reads h s' (raw @ rest)"
      using reads_next [OF r] raw by (auto simp del: reads.simps)
    have "unat (len - 1) = length raw" "len > 1"
      using Cons.prems(3) raw by (simp_all add: unat_sub word_le_nat_alt word_less_nat_alt)
    then show ?thesis
      using Cons.IH [OF s'(2)] reads_get [OF r] s'(1) raw by (subst asn1_raw_loop.simps) simp
  qed
qed simp

lemma dec_raw_octets:
  assumes "message h p qs D" "drop (unat ofs) D = raw @ rest" "unat len = length raw" "len \<le> raw_len"
  shows "snmp_asn1_dec_raw h p ofs len raw_len = Some (Inr raw)"
proof (cases raw)
  case Nil
  then have "len = 0"
    using assms(3) by (simp add: unat_eq_zero)
  then show ?thesis
    using Nil by (simp add: snmp_asn1_dec_raw_def)
next
  case (Cons c cs)
  then have "drop (unat ofs) D = c # cs @ rest" "raw @ rest = c # cs @ rest"
    using assms(2) by simp_all
  then obtain s where s: "asn1_find h p ofs 0 = Some (Some s)" "reads h s (raw @ rest)"
    using dec_reads [OF assms(1)] by metis
  have "len > 0"
    using assms(3) Cons by (simp add: word_less_nat_alt)
  then show ?thesis
    using s(1) raw_loop_reads [OF s(2) _ assms(3)] assms(4) Cons by (simp add: snmp_asn1_dec_raw_def)
qed

end
