(* ===== verification/Asn1_Oid.thy ===== *)
theory Asn1_Oid
  imports Asn1_Roundtrip
begin

text \<open>
  Object identifiers: their encoding and decoding are inverse, the number of octets is counted right for sub-identifiers that are not
  negative, and a field that ends within a sub-identifier is decoded past its end. Every decoder returns on every message.
\<close>

unbundle bit_operations_syntax

section \<open>Sub-identifiers\<close>

declare group_octets.simps(2) [simp del]

text \<open>The number \<open>acc\<close> is what the bits of \<open>v\<close> from \<open>m\<close> on are, as far as they fit.\<close>

definition agrees :: "u32 \<Rightarrow> nat \<Rightarrow> u32 \<Rightarrow> bool" where
  "agrees v m acc \<longleftrightarrow> (\<forall>n. m \<le> n \<and> n < 32 \<longrightarrow> bit v n = bit acc (n - m))"

lemma bit_7F: "bit (0x7F :: u8) n \<longleftrightarrow> n < 7"
proof -
  have "(0x7F :: u8) = mask 7"
    by (simp add: mask_eq_exp_minus_1)
  then show ?thesis
    by (simp only: bit_mask_iff) auto
qed

lemma bit_80: "bit (0x80 :: u8) n \<longleftrightarrow> n = 7"
proof -
  have "(0x80 :: u8) = 2 ^ 7"
    by simp
  then show ?thesis
    by (simp only: bit_exp_iff) auto
qed

lemma bit_low_seven: "bit (c AND 0x7F :: u8) n \<longleftrightarrow> bit c n \<and> n < 7"
  unfolding bit_and_iff bit_7F ..

lemma bit_or_sign: "bit (c OR 0x80 :: u8) n \<longleftrightarrow> bit c n \<or> n = 7"
  unfolding bit_or_iff bit_80 ..

lemma bit_shifted:
  assumes "m \<le> n" "n < 32"
  shows "bit (signed_drop_bit m (v :: u32)) (n - m) = bit v n"
  using assms by (auto simp: bit_signed_drop_bit_iff)

lemma add_group:
  fixes acc :: u32
  shows "bit (push_bit 7 acc + ucast (c AND 0x7F :: u8)) n \<longleftrightarrow> n < 32 \<and> (if n < 7 then bit c n else bit acc (n - 7))"
proof -
  define d where "d = c AND 0x7F"
  have d: "bit d j \<longleftrightarrow> bit c j \<and> j < 7" for j
    unfolding d_def by (rule bit_low_seven)
  have "push_bit 7 acc + ucast d = push_bit 7 acc OR ucast d"
    by (rule disjunctive_add) (auto simp: bit_push_bit_iff bit_ucast_iff d)
  then show ?thesis
    unfolding d_def [symmetric] by (auto simp: bit_or_iff bit_push_bit_iff bit_ucast_iff d dest: bit_imp_le_length)
qed

lemma agrees_step:
  assumes "agrees v (7 * k + 7) acc" "c = ucast (signed_drop_bit (7 * k) v)"
  shows "agrees v (7 * k) (push_bit 7 acc + ucast ((c OR 0x80 :: u8) AND 0x7F))"
  unfolding agrees_def
proof (intro allI impI)
  fix n
  assume n: "7 * k \<le> n \<and> n < 32"
  show "bit v n = bit (push_bit 7 acc + ucast ((c OR 0x80) AND 0x7F)) (n - 7 * k)"
  proof (cases "n - 7 * k < 7")
    case True
    then have "bit c (n - 7 * k) = bit v n"
      using n bit_shifted [of "7 * k" n v] by (simp add: assms(2) bit_ucast_iff)
    then show ?thesis
      using True n by (auto simp: add_group bit_or_sign)
  next
    case False
    moreover have "bit v n = bit acc (n - (7 * k + 7))" "n - 7 * k < 32"
      using False n assms(1) by (simp add: agrees_def, linarith)
    ultimately show ?thesis
      using n by (simp add: add_group diff_diff_eq)
  qed
qed

lemma agrees_skip:
  assumes "agrees v (7 * k + 7) 0" "(ucast (signed_drop_bit (7 * k) v) :: u8) = 0"
  shows "agrees v (7 * k) 0"
  unfolding agrees_def
proof (intro allI impI)
  fix n
  assume n: "7 * k \<le> n \<and> n < 32"
  have "\<not> bit (ucast (signed_drop_bit (7 * k) v) :: u8) (n - 7 * k)"
    unfolding assms(2) by simp
  then show "bit v n = bit 0 (n - 7 * k)"
    using assms(1) n bit_shifted [of "7 * k" n v] by (cases "n - 7 * k < 7") (auto simp: agrees_def bit_ucast_iff)
qed

lemma agrees_all:
  assumes "agrees v 7 acc" "c = ucast v AND 0x7F"
  shows "push_bit 7 acc + ucast (c :: u8) = v"
proof (rule bit_word_eqI)
  fix n
  assume n: "n < LENGTH(32)"
  have "c = ucast v AND 0x7F"
    by (fact assms(2))
  then show "bit (push_bit 7 acc + ucast c) n \<longleftrightarrow> bit v n"
    using n assms(1) add_group [of acc "ucast v" n] by (cases "n < 7") (auto simp: agrees_def bit_ucast_iff)
qed

lemma sub_id_steps:
  "asn1_get h s = Some c \<Longrightarrow> c AND 0x80 \<noteq> 0 \<Longrightarrow> len > 1 \<Longrightarrow>
     asn1_sub_id h len acc s = dec_at (asn1_next h s) (asn1_sub_id h (len - 1) (push_bit 7 acc + ucast (c AND 0x7F)))"
  "asn1_get h s = Some c \<Longrightarrow> c AND 0x80 = 0 \<or> \<not> len > 1 \<Longrightarrow> asn1_sub_id h len acc s = Some (Inr (len, acc, s))"
  by (subst asn1_sub_id.simps, force)+

lemma or_sign: "(c OR 0x80 :: u8) AND 0x80 \<noteq> 0"
  unfolding and_sign by (simp add: bit_or_iff bit_80)

lemma sub_id_reads:
  assumes "reads h s (group_octets v k tail @ l # rest)" "l AND 0x80 = 0" "length (group_octets v k tail) < unat len"
    and "agrees v (7 * k + 7) acc" "\<not> tail \<Longrightarrow> acc = 0"
  shows "\<exists>acc' s'. asn1_sub_id h len acc s = Some (Inr (len - of_nat (length (group_octets v k tail)), acc', s'))
    \<and> reads h s' (l # rest) \<and> agrees v 7 acc'"
  using assms
proof (induction k arbitrary: s tail len acc)
  case 0
  then show ?case
    using sub_id_steps(2) [of h s l len acc] reads_get [of h s l rest] by (auto simp del: reads.simps)
next
  case (Suc k)
  define code where "code = (ucast (signed_drop_bit (7 * Suc k) v) :: u8)"
  have idx: "7 * Suc k = 7 * k + 7"
    by simp
  show ?case
  proof (cases "code \<noteq> 0 \<or> tail")
    case False
    then have "group_octets v (Suc k) tail = group_octets v k False"
      by (simp add: code_def group_octets.simps(2))
    moreover have "agrees v (7 * k + 7) 0"
      using agrees_skip [of v "Suc k"] Suc.prems(4,5) False unfolding code_def idx by simp
    ultimately show ?thesis
      using Suc.IH [of s False len 0] Suc.prems False by (simp del: reads.simps group_octets.simps)
  next
    case True
    then have g: "group_octets v (Suc k) tail = (code OR 0x80) # group_octets v k True"
      by (simp add: code_def Let_def group_octets.simps(2))
    have r: "reads h s ((code OR 0x80) # group_octets v k True @ l # rest)"
      using Suc.prems(1) unfolding g append_Cons .
    then obtain s' where s': "asn1_next h s = Some (Some s')" "reads h s' (group_octets v k True @ l # rest)"
      using reads_next by blast
    have "unat (len - 1) = unat len - 1" "len > 1"
      using Suc.prems(3) [unfolded g] by (simp_all add: unat_sub word_le_nat_alt word_less_nat_alt)
    moreover have "agrees v (7 * k + 7) (push_bit 7 acc + ucast ((code OR 0x80) AND 0x7F))"
      using agrees_step [OF Suc.prems(4) code_def] unfolding idx .
    ultimately have "\<exists>acc' s''. asn1_sub_id h (len - 1) (push_bit 7 acc + ucast ((code OR 0x80) AND 0x7F)) s'
        = Some (Inr (len - 1 - of_nat (length (group_octets v k True)), acc', s'')) \<and> reads h s'' (l # rest) \<and> agrees v 7 acc'"
      using Suc.IH [OF s'(2) Suc.prems(2), of "len - 1"] Suc.prems(3) g by simp
    moreover have "len - 1 - of_nat (length (group_octets v k True)) = len - of_nat (length (group_octets v (Suc k) tail))"
      by (simp add: g)
    ultimately show ?thesis
      using sub_id_steps(1) [OF reads_get [OF r] or_sign \<open>len > 1\<close>] s'(1) by simp
  qed
qed

lemma sub_ids_uniform:
  assumes "asn1_get h s = Some c" "len > 0"
  shows "asn1_sub_ids h len oid s = do {
     r \<leftarrow> asn1_sub_id h len 0 s;
     case r of
       Inl e \<Rightarrow> Some (Inl e)
     | Inr (len, sub_id, s) \<Rightarrow> do {
         c \<leftarrow> asn1_get h s;
         if c AND 0x80 = 0 \<and> len > 0 then Some (Inr (len - 1, oid_store (push_bit 7 sub_id + ucast c) oid, s)) else Some (Inr (len, oid, s))
       }
   }"
  using assms sub_id_steps(2) [of h s c len 0] by (simp add: asn1_sub_ids_def)

lemma sub_ids_reads:
  assumes "reads h s (sub_octets v @ rest)" "length (sub_octets v) \<le> unat len"
  shows "\<exists>s' l. asn1_sub_ids h len oid s = Some (Inr (len - of_nat (length (sub_octets v)), oid_store v oid, s')) \<and> reads h s' (l # rest)"
proof -
  let ?l = "ucast v AND 0x7F :: u8" and ?n = "length (group_octets v 4 False)"
  have l: "?l AND 0x80 = 0"
    unfolding and_sign by (simp add: bit_and_iff bit_7F)
  have r: "reads h s (group_octets v 4 False @ ?l # rest)" "?n < unat len"
    using assms by (simp_all add: sub_octets_def)
  have "agrees v (7 * 4 + 7) 0"
    by (auto simp: agrees_def)
  then obtain acc s' where s': "asn1_sub_id h len 0 s = Some (Inr (len - of_nat ?n, acc, s'))" "reads h s' (?l # rest)" "agrees v 7 acc"
    using sub_id_reads [OF r(1) l r(2)] by blast
  have "unat (of_nat ?n :: u16) = ?n"
    using r(2) unat_lt [of len] by (intro unat_of_nat_less) simp
  then have "len - of_nat ?n > 0" "len > 0"
    using r(2) by (simp_all add: word_less_nat_alt unat_sub word_le_nat_alt)
  moreover obtain c where "asn1_get h s = Some c"
    using r(1) by (cases "group_octets v 4 False @ ?l # rest") auto
  moreover have "len - of_nat ?n - 1 = len - of_nat (length (sub_octets v))"
    by (simp add: sub_octets_def)
  ultimately show ?thesis
    using sub_ids_uniform [of h s c len oid] s' reads_get [OF s'(2)] l agrees_all [OF s'(3) refl] by auto
qed

section \<open>Whole identifiers\<close>

lemma oid_store_simps [simp]: "oid_len (oid_store v oid) = oid_len oid" "oid_id (oid_store v oid) = (oid_id oid)[unat (oid_len oid) := v]"
  by (simp_all add: oid_store_def)

lemma oid_append_eq: "(oid_store v oid)\<lparr>oid_len := oid_len oid + 1\<rparr> = oid_append v oid"
  by (simp add: oid_append_def)

lemma len_minus:
  assumes "n \<le> unat (len :: u16)"
  shows "unat (len - of_nat n) = unat len - n"
proof -
  have "unat (of_nat n :: u16) = n"
    using assms unat_lt [of len] by (intro unat_of_nat_less) simp
  then show ?thesis
    using assms by (simp add: unat_sub word_le_nat_alt)
qed

lemma oid_loop_done: "asn1_oid_loop h 0 oid s = Some (oid, ERR_OK)"
  by (subst asn1_oid_loop.simps) simp

lemma oid_loop_reads:
  "reads h s (concat (map sub_octets ids) @ rest) \<Longrightarrow> ids \<noteq> [] \<Longrightarrow> unat len = length (concat (map sub_octets ids)) \<Longrightarrow>
   unat (oid_len oid) + length ids \<le> 32 \<Longrightarrow> asn1_oid_loop h len oid s = Some (fold oid_append ids oid, ERR_OK)"
proof (induction ids arbitrary: s len oid)
  case (Cons v ids)
  let ?n = "length (sub_octets v)" and ?rest = "concat (map sub_octets ids)"
  have r: "reads h s (sub_octets v @ ?rest @ rest)" and n: "?n \<le> unat len" "unat len - ?n = length ?rest"
    using Cons.prems(1,3) by simp_all
  obtain s' l where s': "asn1_sub_ids h len oid s = Some (Inr (len - of_nat ?n, oid_store v oid, s'))" "reads h s' (l # ?rest @ rest)"
    using sub_ids_reads [OF r n(1)] by blast
  have "0 < ?n"
    by simp
  then have "0 < unat len"
    using n(1) by linarith
  then have "len > 0" "oid_len oid < LWIP_SNMP_OBJ_ID_LEN"
    using Cons.prems(4) by (simp_all add: word_less_nat_alt LWIP_SNMP_OBJ_ID_LEN_def)
  then have step: "asn1_oid_loop h len oid s = (if len - of_nat ?n > 0
      then oid_at (asn1_next h s') (oid_store v oid) (asn1_oid_loop h (len - of_nat ?n) (oid_append v oid))
      else asn1_oid_loop h (len - of_nat ?n) (oid_append v oid) s')"
    using s'(1) by (subst asn1_oid_loop.simps) (simp add: oid_append_eq)
  have len': "unat (len - of_nat ?n) = length ?rest"
    using len_minus [OF n(1)] n(2) by simp
  show ?case
  proof (cases "ids = []")
    case True
    then have "len - of_nat ?n = 0"
      using len' by (simp add: unat_eq_zero)
    then show ?thesis
      unfolding step using True by (simp add: oid_loop_done)
  next
    case False
    then have ne: "?rest \<noteq> []"
      by (cases ids) simp_all
    then have "?rest @ rest \<noteq> []"
      by simp
    then obtain s'' where s'': "asn1_next h s' = Some (Some s'')" "reads h s'' (?rest @ rest)"
      using reads_next [OF s'(2)] by blast
    have "unat (oid_len (oid_append v oid)) = unat (oid_len oid) + 1"
      using Cons.prems(4) by (simp add: oid_append_def unat_word_ariths)
    then have "asn1_oid_loop h (len - of_nat ?n) (oid_append v oid) s'' = Some (fold oid_append ids (oid_append v oid), ERR_OK)"
      using Cons.IH [OF s''(2) False len'] Cons.prems(4) by simp
    moreover have "len - of_nat ?n > 0"
      using len' ne by (simp only: word_less_nat_alt) simp
    ultimately show ?thesis
      unfolding step using s''(1) by simp
  qed
qed simp

text \<open>The array after the sub-identifiers are stored.\<close>

lemma fold_oid_append:
  assumes "unat (oid_len oid) + length ids \<le> length (oid_id oid)" "length (oid_id oid) \<le> 32"
  shows "unat (oid_len (fold oid_append ids oid)) = unat (oid_len oid) + length ids \<and> length (oid_id (fold oid_append ids oid)) = length (oid_id oid)
    \<and> take (unat (oid_len oid) + length ids) (oid_id (fold oid_append ids oid)) = take (unat (oid_len oid)) (oid_id oid) @ ids"
  using assms
proof (induction ids arbitrary: oid)
  case (Cons v ids)
  let ?oid = "oid_append v oid"
  have l: "unat (oid_len ?oid) = unat (oid_len oid) + 1" "length (oid_id ?oid) = length (oid_id oid)"
    using Cons.prems by (simp_all add: oid_append_def unat_word_ariths)
  have "take (unat (oid_len oid) + 1) (oid_id ?oid) = take (unat (oid_len oid)) (oid_id oid) @ [v]"
    using Cons.prems by (simp add: oid_append_def take_Suc_conv_app_nth)
  then show ?case
    using Cons.IH [of ?oid] Cons.prems l by simp
qed simp

definition oid_numbers :: "snmp_obj_id \<Rightarrow> u32 list" where
  "oid_numbers oid = take (unat (oid_len oid)) (oid_id oid)"

text \<open>The two numbers that fit in the first octet.\<close>

definition first_ok :: "u32 \<Rightarrow> u32 \<Rightarrow> bool" where
  "first_ok a b \<longleftrightarrow> a < 2 \<and> b < 40 \<or> a = 2 \<and> b < 176"

lemma oid_first_octet:
  assumes "first_ok a b" "length (oid_id oid) = 32"
  defines "c \<equiv> (if a = 1 \<and> b = 3 then 0x2B else ucast (a * 40 + b))"
  shows "unat (oid_len (oid_first c oid)) = 2 \<and> length (oid_id (oid_first c oid)) = 32 \<and> take 2 (oid_id (oid_first c oid)) = [a, b]"
proof -
  have a: "a = 0 \<or> a = 1 \<or> a = 2"
  proof -
    have "unat a = 0 \<or> unat a = 1 \<or> unat a = 2"
      using assms(1) by (auto simp: first_ok_def word_less_nat_alt)
    then show ?thesis
      by (auto simp: word_unat_eq_iff)
  qed
  have b: "unat b < 176" "a \<noteq> 2 \<Longrightarrow> unat b < 40"
    using assms(1) by (auto simp: first_ok_def word_less_nat_alt)
  have sum: "unat (a * 40 + b) = 40 * unat a + unat b"
    using a b(1) by (auto simp: unat_word_ariths)
  then have c: "unat c = 40 * unat a + unat b"
    using a b by (auto simp: c_def unat_ucast_mod)
  obtain x y zs where xy: "oid_id oid = x # y # zs" "length zs = 30"
    using assms(2) by (cases "oid_id oid"; cases "tl (oid_id oid)") auto
  have "(if c = 0x2B then (1, 3) else if c < 40 then (0, ucast c) else if c < 80 then (1, ucast c - 40) else (2, ucast c - 80)) = (a, b)"
    using a b c by (auto simp: word_unat_eq_iff word_less_nat_alt unat_ucast_mod unat_sub word_le_nat_alt)
  then show ?thesis
    using xy by (simp add: oid_first_def Let_def oid_append_def)
qed

lemma dec_oid_octets:
  assumes "message h p qs D" "drop (unat ofs) D = oid_octets (a # b # ids) @ rest" "first_ok a b" "length ids \<le> 30" "length (oid_id oid) = 32"
    and len: "unat len = length (oid_octets (a # b # ids))"
  shows "\<exists>oid'. snmp_asn1_dec_oid h p ofs len oid = Some (oid', ERR_OK) \<and> oid_numbers oid' = a # b # ids"
proof -
  define c where "c = (if a = 1 \<and> b = 3 then 0x2B else ucast (a * 40 + b) :: u8)"
  let ?ids = "concat (map sub_octets ids)"
  have "drop (unat ofs) D = c # ?ids @ rest"
    using assms(2) by (simp add: c_def)
  then obtain s where s: "asn1_find h p ofs 0 = Some (Some s)" "reads h s (c # ?ids @ rest)"
    using dec_reads [OF assms(1)] by blast
  define oid1 where "oid1 = oid_first c oid"
  have oid1: "unat (oid_len oid1) = 2" "length (oid_id oid1) = 32" "take 2 (oid_id oid1) = [a, b]"
    using oid_first_octet [OF assms(3,5)] by (simp_all add: oid1_def c_def)
  have len1: "unat (len - 1) = length ?ids" "len > 0"
    using len by (simp_all add: unat_sub word_le_nat_alt word_less_nat_alt)
  have "snmp_asn1_dec_oid h p ofs len oid = Some (fold oid_append ids oid1, ERR_OK)"
  proof (cases "ids = []")
    case True
    then have "len - 1 = 0"
      using len1 by (simp add: unat_eq_zero)
    then show ?thesis
      using s(1) reads_get [OF s(2)] len1(2) True by (simp add: snmp_asn1_dec_oid_def Let_def oid1_def oid_loop_done)
  next
    case False
    then have ne: "?ids \<noteq> []"
      by (cases ids) simp_all
    then obtain s' where s': "asn1_next h s = Some (Some s')" "reads h s' (?ids @ rest)"
      using reads_next [OF s(2)] by auto
    have "len - 1 > 0"
      using len1 ne by (simp only: word_less_nat_alt) simp
    then show ?thesis
      using s(1) reads_get [OF s(2)] s'(1) len1(2) oid_loop_reads [OF s'(2) False len1(1), of oid1] oid1(1) assms(4)
      by (simp add: snmp_asn1_dec_oid_def Let_def oid1_def)
  qed
  moreover have "oid_numbers (fold oid_append ids oid1) = a # b # ids"
    using fold_oid_append [of oid1 ids] oid1 assms(4) by (simp add: oid_numbers_def)
  ultimately show ?thesis
    by blast
qed

section \<open>The number of octets\<close>

text \<open>Sub-identifiers below \<open>2 ^ 31\<close>, which are not negative.\<close>

lemma signed_drop_unat:
  assumes "0 \<le> sint (v :: u32)"
  shows "unat (signed_drop_bit k v) = unat v div 2 ^ k" "sint (signed_drop_bit k v) = int (unat v div 2 ^ k)"
proof -
  have v: "sint v = int (unat v)"
    using assms uint_sint_if [of v] unfolding of_nat_unat by simp
  show s: "sint (signed_drop_bit k v) = int (unat v div 2 ^ k)"
    by (simp add: sint_signed_drop_bit_eq drop_bit_eq_div v zdiv_int del: of_nat_unat)
  have "int (unat (signed_drop_bit k v)) = int (unat v div 2 ^ k)"
    unfolding s [symmetric] using s uint_sint_if [of "signed_drop_bit k v"] by (simp only: of_nat_unat) simp
  then show "unat (signed_drop_bit k v) = unat v div 2 ^ k"
    unfolding of_nat_eq_iff .
qed

lemma asn1_groups_ge:
  assumes "0 \<le> sint (v :: u32)"
  shows "asn1_groups (signed_drop_bit k v) c = (if 2 ^ k \<le> unat v then asn1_groups (signed_drop_bit (k + 7) v) (c + 1) else c)"
  using signed_drop_unat(2) [OF assms, of k]
  by (subst asn1_groups.simps) (simp add: add.commute div_greater_zero_iff del: of_nat_unat)

lemma asn1_groups_up:
  assumes "0 \<le> sint (v :: u32)" "2 ^ (7 * n) \<le> unat v"
  shows "j \<le> n \<Longrightarrow> asn1_groups (signed_drop_bit 7 v) c = asn1_groups (signed_drop_bit (7 * Suc j) v) (c + of_nat j)"
proof (induction j)
  case (Suc j)
  have "(2 :: nat) ^ (7 * Suc j) \<le> 2 ^ (7 * n)"
    using Suc.prems by (intro power_increasing) simp_all
  then have "2 ^ (7 * Suc j) \<le> unat v"
    using assms(2) by linarith
  then show ?case
    using Suc asn1_groups_ge [OF assms(1), of "7 * Suc j" "c + of_nat j"] by (simp add: ac_simps)
qed simp

lemma group_octets_ge:
  assumes "0 \<le> sint (v :: u32)" "unat v < 2 ^ (7 * Suc k + 7)"
  shows "length (group_octets v (Suc k) False) = (if 2 ^ (7 * Suc k) \<le> unat v then Suc k else length (group_octets v k False))"
proof -
  have "length (group_octets v k True) = k" for k
    by (induction k) (simp_all add: group_octets.simps(2) Let_def)
  moreover have "unat v div 2 ^ (7 * Suc k) < 2 ^ 7"
    using assms(2) by (simp add: less_mult_imp_div_less power_add mult.commute)
  then have "(ucast (signed_drop_bit (7 * Suc k) v) :: u8) = 0 \<longleftrightarrow> \<not> 2 ^ (7 * Suc k) \<le> unat v"
    unfolding word_unat_eq_iff unat_ucast_mod signed_drop_unat(1) [OF assms(1)] by (simp add: div_eq_0_iff not_le)
  ultimately show ?thesis
    by (simp add: group_octets.simps(2) Let_def)
qed

lemma asn1_groups_octets:
  assumes "0 \<le> sint (v :: u32)" "unat v < 2 ^ (7 * k + 7)"
  shows "asn1_groups (signed_drop_bit 7 v) c = c + of_nat (length (group_octets v k False))"
  using assms(2)
proof (induction k)
  case 0
  then show ?case
    using asn1_groups_ge [OF assms(1), of 7 c] by simp
next
  case (Suc k)
  note len = group_octets_ge [OF assms(1) Suc.prems]
  show ?case
  proof (cases "2 ^ (7 * Suc k) \<le> unat v")
    case True
    have "\<not> 2 ^ (7 * Suc (Suc k)) \<le> unat v"
      using Suc.prems by (simp add: ac_simps)
    then show ?thesis
      using asn1_groups_up [OF assms(1) True order_refl, of c] asn1_groups_ge [OF assms(1), of "7 * Suc (Suc k)"] len True by simp
  next
    case False
    then show ?thesis
      using Suc.IH len by (simp add: not_le add.commute)
  qed
qed

lemma asn1_oid_cnt_octets:
  assumes "\<forall>v\<in>set ids. 0 \<le> sint v"
  shows "asn1_oid_cnt_loop ids c = c + of_nat (length (concat (map sub_octets ids)))"
  using assms
proof (induction ids arbitrary: c)
  case (Cons v ids)
  have "int (unat v) < 2 ^ 31"
    using Cons.prems uint_sint_if [of v] sint_less [of v] unfolding of_nat_unat by simp
  moreover have "(2 :: int) ^ 31 < 2 ^ (7 * 4 + 7)"
    by simp
  ultimately have "int (unat v) < int (2 ^ (7 * 4 + 7))"
    by simp
  then have "unat v < 2 ^ (7 * 4 + 7)"
    unfolding of_nat_less_iff .
  then show ?case
    using Cons asn1_groups_octets [of v 4 "c + 1"] by (simp add: sub_octets_def ac_simps)
qed simp

lemma snmp_asn1_enc_oid_cnt_octets:
  assumes "\<forall>v\<in>set ids. 0 \<le> sint v" "length (oid_octets (a # b # ids)) < 256"
  shows "unat (snmp_asn1_enc_oid_cnt (a # b # ids)) = length (oid_octets (a # b # ids))"
proof -
  define n where "n = length (oid_octets (a # b # ids))"
  have "asn1_oid_cnt_loop ids 1 = of_nat n"
    using asn1_oid_cnt_octets [OF assms(1)] by (simp add: n_def)
  then have "snmp_asn1_enc_oid_cnt (a # b # ids) = ucast (of_nat n :: u8)"
    by (simp add: snmp_asn1_enc_oid_cnt_def)
  then show ?thesis
    using assms(2) unfolding n_def [symmetric] by (simp add: unat_ucast_mod unat_of_nat_less)
qed

end
