(* ===== verification/Asn1_Messages.thy ===== *)
theory Asn1_Messages
  imports Asn1_Oid
begin

text \<open>
  The properties of the ASN.1 fields: every decoder returns on every message, whatever octets it has, without reading outside of it; what
  was encoded is decoded again; and how a malformed object identifier is taken.
\<close>

unbundle bit_operations_syntax

section \<open>Every decoder returns\<close>

text \<open>From a position that reads \<open>cs\<close> the next one reads less.\<close>

lemma reads_cases:
  assumes "reads h s cs"
  obtains c where "cs = [c]" "asn1_get h s = Some c" "asn1_next h s = Some None"
  | c cs' s' where "cs = c # cs'" "asn1_get h s = Some c" "asn1_next h s = Some (Some s')" "reads h s' cs'" "cs' \<noteq> []"
  using assms by (cases cs) (auto split: if_splits)

lemma asn1_indefinite_returns: "reads h s cs \<Longrightarrow> asn1_indefinite h i zeros len s \<noteq> None"
proof (induction cs arbitrary: i zeros len s)
  case (Cons c cs)
  have step: "asn1_indefinite h i zeros len s \<noteq> None" if "i > 0" for i
    using Cons.prems
  proof (cases rule: reads_cases)
    case 1
    then show ?thesis
      using that by (subst asn1_indefinite.simps) (simp add: Let_def)
  next
    case (2 c' cs' s')
    then obtain d where "asn1_get h s' = Some d"
      by (cases cs') auto
    then show ?thesis
      using that 2 Cons.IH [of s'] by (subst asn1_indefinite.simps) (simp add: Let_def)
  qed
  show ?case
  proof (cases "i > 0")
    case False
    then show ?thesis
      using step [of 2] by (subst asn1_indefinite.simps) simp
  qed (rule step)
qed simp

lemma asn1_u32_loop_returns: "reads h s cs \<Longrightarrow> asn1_u32_loop h len v s \<noteq> None"
proof (induction cs arbitrary: len v s)
  case (Cons c cs)
  then show ?case
    using u32_loop_steps [of h s c len v] Cons.IH by (cases "len > 1") (auto split: if_splits)
qed simp

lemma asn1_s32_loop_returns: "reads h s cs \<Longrightarrow> asn1_s32_loop h sign len v s \<noteq> None"
proof (induction cs arbitrary: len v s)
  case (Cons c cs)
  then show ?case
    by (subst asn1_s32_loop.simps) (auto simp: Let_def split: if_splits)
qed simp

lemma asn1_raw_loop_returns: "reads h s cs \<Longrightarrow> asn1_raw_loop h len raw s \<noteq> None"
proof (induction cs arbitrary: len raw s)
  case (Cons c cs)
  then show ?case
    by (subst asn1_raw_loop.simps) (auto split: if_splits)
qed simp

lemma asn1_sub_id_returns:
  "reads h s cs \<Longrightarrow> \<exists>r. asn1_sub_id h len acc s = Some r
     \<and> (\<forall>len' v s'. r = Inr (len', v, s') \<longrightarrow> (\<exists>cs'. reads h s' cs' \<and> length cs' \<le> length cs))"
proof (induction cs arbitrary: len acc s)
  case (Cons c cs)
  show ?case
  proof (cases "c AND 0x80 \<noteq> 0 \<and> len > 1")
    case False
    then have "asn1_sub_id h len acc s = Some (Inr (len, acc, s))"
      using sub_id_steps(2) reads_get [OF Cons.prems] by blast
    then show ?thesis
      using Cons.prems by (auto simp del: reads.simps intro!: exI [of _ "c # cs"])
  next
    case True
    then have step: "asn1_sub_id h len acc s = dec_at (asn1_next h s) (asn1_sub_id h (len - 1) (push_bit 7 acc + ucast (c AND 0x7F)))"
      using sub_id_steps(1) reads_get [OF Cons.prems] by blast
    show ?thesis
    proof (cases "cs = []")
      case True
      then show ?thesis
        using Cons.prems step by auto
    next
      case False
      then obtain s' where s': "asn1_next h s = Some (Some s')" "reads h s' cs"
        using reads_next [OF Cons.prems] by blast
      then show ?thesis
        using Cons.IH [OF s'(2), of "len - 1" "push_bit 7 acc + ucast (c AND 0x7F)"] step by fastforce
    qed
  qed
qed simp

lemma asn1_sub_ids_returns:
  assumes "reads h s cs"
  shows "\<exists>r. asn1_sub_ids h len oid s = Some r
     \<and> (\<forall>len' oid' s'. r = Inr (len', oid', s') \<longrightarrow> (\<exists>cs'. reads h s' cs' \<and> length cs' \<le> length cs))"
proof -
  obtain c where c: "asn1_get h s = Some c"
    using assms by (cases cs) auto
  obtain r where r: "asn1_sub_id h len 0 s = Some r"
    "\<And>len' v s'. r = Inr (len', v, s') \<Longrightarrow> \<exists>cs'. reads h s' cs' \<and> length cs' \<le> length cs"
    using asn1_sub_id_returns [OF assms] by blast
  show ?thesis
  proof (cases r)
    case (Inl e)
    then show ?thesis
      using c r(1) assms by (auto simp: asn1_sub_ids_def)
  next
    case (Inr x)
    obtain len' v s' where x: "x = (len', v, s')"
      by (cases x)
    then obtain cs' where cs': "reads h s' cs'" "length cs' \<le> length cs"
      using r(2) Inr by blast
    then obtain d where "asn1_get h s' = Some d"
      by (cases cs') auto
    then show ?thesis
      using c r(1) assms Inr x cs' by (auto simp: asn1_sub_ids_def)
  qed
qed

lemma asn1_oid_loop_returns: "reads h s cs \<Longrightarrow> asn1_oid_loop h len oid s \<noteq> None"
proof (induction "length cs" arbitrary: cs len oid s rule: less_induct)
  case less
  obtain r where r: "asn1_sub_ids h len oid s = Some r"
    "\<And>len' oid' s'. r = Inr (len', oid', s') \<Longrightarrow> \<exists>cs'. reads h s' cs' \<and> length cs' \<le> length cs"
    using asn1_sub_ids_returns [OF less.prems] by blast
  show ?case
  proof (cases r)
    case (Inl e)
    then show ?thesis
      using r(1) by (subst asn1_oid_loop.simps) simp
  next
    case (Inr x)
    obtain len' oid' s' where x: "x = (len', oid', s')"
      by (cases x)
    then obtain cs' where cs': "reads h s' cs'" "length cs' \<le> length cs"
      using r(2) Inr by blast
    have finish: "asn1_oid_loop h 0 oid s \<noteq> None" for oid s
      by (simp add: oid_loop_done)
    from cs'(1) show ?thesis
    proof (cases rule: reads_cases)
      case 1
      then show ?thesis
        using r(1) Inr x finish by (subst asn1_oid_loop.simps) (cases "len' = 0"; simp add: word_gt_0)
    next
      case (2 c ds s'')
      then have "asn1_oid_loop h len' oid s'' \<noteq> None" for oid
        using less.hyps [of ds s''] cs'(2) by simp
      then show ?thesis
        using r(1) Inr x finish 2(3) by (subst asn1_oid_loop.simps) (cases "len' = 0"; simp add: word_gt_0)
    qed
  qed
qed

lemma dec_at_find_returns:
  assumes "message h p qs D" "\<And>s cs. reads h s cs \<Longrightarrow> f s \<noteq> None"
  shows "dec_at (asn1_find h p ofs 0) f \<noteq> None"
  using found_reads [OF assms(1), of ofs] assms(2) by (auto split: if_splits)

lemma dec_at_next_returns:
  assumes "reads h s cs" "\<And>s cs. reads h s cs \<Longrightarrow> f s \<noteq> None"
  shows "dec_at (asn1_next h s) f \<noteq> None"
  using assms(1) by (cases rule: reads_cases) (use assms(2) in auto)

lemma reads_some: "reads h s cs \<Longrightarrow> \<exists>c. asn1_get h s = Some c"
  by (cases cs) auto

lemma bind_returns: "x = Some y \<Longrightarrow> f y \<noteq> None \<Longrightarrow> Option.bind x f \<noteq> None"
  by simp

lemma asn1_dec_length_returns:
  assumes "message h p qs D"
  shows "snmp_asn1_dec_length h p ofs \<noteq> None"
  unfolding snmp_asn1_dec_length_def
proof (rule dec_at_find_returns [OF assms])
  fix s cs
  assume r: "reads h s cs"
  obtain c where c: "asn1_get h s = Some c"
    using reads_some [OF r] by blast
  have octet: "asn1_get h s \<bind> g \<noteq> None" if "reads h s cs" "\<And>c. g c \<noteq> None" for g :: "u8 \<Rightarrow> (err + u8 \<times> u16) option" and s cs
    using reads_some [OF that(1)] that(2) by auto
  have one: "dec_at (asn1_next h s) (\<lambda>s. asn1_get h s \<bind> (\<lambda>c. Some (Inr (2, ucast c)))) \<noteq> (None :: (err + u8 \<times> u16) option)"
    by (rule dec_at_next_returns [OF r], rule octet) simp_all
  have two: "dec_at (asn1_next h s) (\<lambda>s. asn1_get h s \<bind> (\<lambda>hi. dec_at (asn1_next h s) (\<lambda>s. asn1_get h s \<bind>
      (\<lambda>lo. Some (Inr (3, push_bit 8 (ucast hi) OR ucast lo)))))) \<noteq> (None :: (err + u8 \<times> u16) option)"
    by (rule dec_at_next_returns [OF r], rule octet, assumption, rule dec_at_next_returns, assumption, rule octet) simp_all
  show "asn1_get h s \<bind> (\<lambda>c. if c < 0x80 then Some (Inr (1, ucast c))
       else if c = 0x80 then asn1_indefinite h 0 0 0 s \<bind> (\<lambda>r. Some (case r of Inl e \<Rightarrow> Inl e | Inr len \<Rightarrow> Inr (1, len)))
       else if c = 0x81 then dec_at (asn1_next h s) (\<lambda>s. asn1_get h s \<bind> (\<lambda>c. Some (Inr (2, ucast c))))
       else if c = 0x82 then dec_at (asn1_next h s) (\<lambda>s. asn1_get h s \<bind> (\<lambda>hi. dec_at (asn1_next h s) (\<lambda>s. asn1_get h s \<bind>
         (\<lambda>lo. Some (Inr (3, push_bit 8 (ucast hi) OR ucast lo))))))
       else Some (Inl ERR_ARG)) \<noteq> (None :: (err + u8 \<times> u16) option)"
    using c one two asn1_indefinite_returns [OF r, of 0 0 0] by auto
qed

lemma asn1_dec_int_returns:
  assumes "message h p qs D"
  shows "snmp_asn1_dec_u32t h p ofs len \<noteq> None" "snmp_asn1_dec_s32t h p ofs len \<noteq> None"
proof -
  show "snmp_asn1_dec_u32t h p ofs len \<noteq> None"
    unfolding snmp_asn1_dec_u32t_def
  proof (rule dec_at_find_returns [OF assms])
    fix s cs
    assume r: "reads h s cs"
    then show "(if len > 0 \<and> len < 6 then asn1_get h s \<bind> (\<lambda>c. if c AND 0x80 \<noteq> 0 then Some (Inl ERR_ARG)
        else if len > 1 \<and> c = 0 then dec_at (asn1_next h s) (asn1_u32_loop h (len - 1) 0) else asn1_u32_loop h len 0 s) else Some (Inl ERR_ARG)) \<noteq> None"
      using reads_some [OF r] dec_at_next_returns [OF r, of "asn1_u32_loop h (len - 1) 0"] asn1_u32_loop_returns by auto
  qed
  show "snmp_asn1_dec_s32t h p ofs len \<noteq> None"
    unfolding snmp_asn1_dec_s32t_def
    by (rule dec_at_find_returns [OF assms]) (use reads_some asn1_s32_loop_returns in fastforce)
qed

lemma asn1_dec_oid_returns:
  assumes "message h p qs D"
  shows "snmp_asn1_dec_oid h p ofs len oid \<noteq> None"
proof (cases "drop (unat ofs) D = []")
  case True
  then show ?thesis
    using found_reads [OF assms, of ofs] by (simp add: snmp_asn1_dec_oid_def)
next
  case False
  then obtain s where s: "asn1_find h p ofs 0 = Some (Some s)" "reads h s (drop (unat ofs) D)"
    using found_reads [OF assms, of ofs] by auto
  obtain c where c: "asn1_get h s = Some c"
    using reads_some [OF s(2)] by blast
  have "oid_at (asn1_next h s) oid (asn1_oid_loop h len oid) \<noteq> None" for oid len
    using s(2) by (cases rule: reads_cases) (use asn1_oid_loop_returns in auto)
  then show ?thesis
    using s c asn1_oid_loop_returns [OF s(2)] by (simp add: snmp_asn1_dec_oid_def Let_def)
qed

section \<open>Properties\<close>

text \<open>A message of five octets in two pbufs.\<close>

lemma three_pbufs_message: "message three_pbufs 1 [1, 2] [10, 11, 12, 13, 14]"
proof -
  have "own_blocks three_pbufs [1, 2] = [1, 2]" "no_empty three_pbufs [1, 2]"
    by (simp_all add: three_pbufs_def own_blocks_def no_empty_def)
  then show ?thesis
    using three_pbufs_packets(1,4) by (simp add: message_def packet_def)
qed

text \<open>The decoders need that no pbuf is empty: at the end of a pbuf they go on to the first octet of the next one. When that pbuf is empty and
  at the end of its block, decoding an integer of two octets reads outside every allocation.\<close>

lemma asn1_reads_empty_pbuf:
  assumes "p \<noteq> NULL" "pbufs h p = Some b" "p_len b = 1" "mem_read h (payload b) 1 = Some [c]" "c AND 0x80 = 0"
    and "p_next b \<noteq> NULL" "pbufs h (p_next b) = Some e" "payload e = (blk, int (length buf))" "blocks h blk = Some buf"
  shows "snmp_asn1_dec_u32t h p 0 2 = None"
proof -
  let ?s = "\<lparr>a_p = p, msg_ptr = payload b, a_ofs = 0, a_plen = 1\<rparr>"
  let ?t = "\<lparr>a_p = p_next b, msg_ptr = payload e, a_ofs = 1, a_plen = 1 + p_len e\<rparr>"
  have find: "asn1_find h p 0 0 = Some (Some ?s)"
    using assms(1-3) by (subst asn1_find.simps) (simp add: ptr_add_def)
  have get: "asn1_get h ?s = Some c" "asn1_get h ?t = None"
    using assms(4,8,9) by (simp_all add: asn1_get_def mem_read_def)
  have nxt: "asn1_next h ?s = Some (Some ?t)"
    using assms(2,6,7) by (simp add: asn1_next_def Let_def)
  have "asn1_u32_loop h len v ?t = None" if "len = 1 \<or> len = 2" for len v
    using get(2) that by (subst asn1_u32_loop.simps) auto
  then have "dec_at (asn1_next h ?s) (asn1_u32_loop h 1 v) = None" for v
    using nxt by simp
  moreover from this have "asn1_u32_loop h 2 0 ?s = None"
    using get(1) by (subst asn1_u32_loop.simps) (simp add: Let_def)
  ultimately show ?thesis
    using find get(1) assms(5) by (simp add: snmp_asn1_dec_u32t_def Let_def)
qed

text \<open>C22. Whatever the octets of a message are and wherever its pbufs divide it, as long as none of them is empty, every decoder returns at
  every offset, also at one beyond its end, for every length of the field, and reads no octet outside the message. (An empty pbuf in the
  middle of a field is read past its end, lemma \<open>asn1_reads_empty_pbuf\<close>.)\<close>

theorem asn1_decoders_return:
  assumes "message h p qs D"
  shows "snmp_asn1_dec_type h p ofs \<noteq> None \<and> snmp_asn1_dec_length h p ofs \<noteq> None
    \<and> snmp_asn1_dec_u32t h p ofs len \<noteq> None \<and> snmp_asn1_dec_s32t h p ofs len \<noteq> None
    \<and> snmp_asn1_dec_oid h p ofs len oid \<noteq> None \<and> snmp_asn1_dec_raw h p ofs len raw_len \<noteq> None"
proof -
  have "snmp_asn1_dec_type h p ofs \<noteq> None"
    unfolding snmp_asn1_dec_type_def by (rule dec_at_find_returns [OF assms]) (use reads_some in fastforce)
  moreover have "dec_at (asn1_find h p ofs 0) (\<lambda>s. if raw_len \<ge> len then asn1_raw_loop h len [] s else Some (Inl ERR_ARG)) \<noteq> None"
    by (rule dec_at_find_returns [OF assms]) (use asn1_raw_loop_returns in auto)
  ultimately show ?thesis
    using asn1_dec_length_returns [OF assms] asn1_dec_int_returns [OF assms] asn1_dec_oid_returns [OF assms]
    by (simp add: snmp_asn1_dec_raw_def)
qed

theorem asn1_decoders_return_witness: "snmp_asn1_dec_length three_pbufs 1 4 \<noteq> None"
  using asn1_decoders_return [OF three_pbufs_message] by blast

text \<open>After encoding the octets are there.\<close>

lemma encodesD:
  assumes "encodes h p qs D k ws r" "k + length ws \<le> length D"
  obtains h' D' where "r = Some (h', ERR_OK)" "message h' p qs D'" "drop k D' = ws @ drop (k + length ws) D" "rewritten h qs h'"
proof -
  have "take (length D - k) ws = ws"
    using assms(2) by simp
  moreover have "drop k (block_write D k ws) = ws @ drop (k + length ws) D"
    using assms(2) by (simp add: block_write_def)
  ultimately show ?thesis
    using assms that by (auto simp: encodes_def)
qed

lemma length_octets_cnt: "length (length_octets len) = unat (snmp_asn1_enc_length_cnt len)"
  by (simp add: length_octets_def snmp_asn1_enc_length_cnt_def)

lemma length_u32_octets: "length (u32_octets n v) = n"
  by (simp add: u32_octets_def int_octets_def)

lemma length_s32_octets: "length (s32_octets n v) = n"
  by (simp add: s32_octets_def int_octets_def)

lemma cnt_ucast:
  "unat (ucast (snmp_asn1_enc_u32t_cnt v) :: u8) = unat (snmp_asn1_enc_u32t_cnt v)" "(ucast (snmp_asn1_enc_u32t_cnt v) :: u8) \<in> {1..5}"
  "unat (ucast (snmp_asn1_enc_s32t_cnt v) :: u8) = unat (snmp_asn1_enc_s32t_cnt v)" "0 < (ucast (snmp_asn1_enc_s32t_cnt v) :: u8)"
  by (auto simp: snmp_asn1_enc_u32t_cnt_def snmp_asn1_enc_s32t_cnt_def Let_def)

text \<open>C23. Encoding a length, an unsigned or a signed integer at an offset with room for the number of octets that the counting functions
  give returns \<^verbatim>\<open>ERR_OK\<close> and changes nothing but the contents of the message, and decoding at that offset gives the value back, with
  the octets of the field across any borders of pbufs. The same holds for the first \<open>raw_len\<close> octets of a buffer, where the length is
  an octet of the caller that is not 0. No pbuf of the message is empty.\<close>

theorem asn1_fields_roundtrip:
  assumes "message h p qs D"
  shows "(unat ofs + unat (snmp_asn1_enc_length_cnt len) \<le> length D \<longrightarrow>
      (\<exists>h'. snmp_asn1_enc_length h p ofs len = Some (h', ERR_OK) \<and> rewritten h qs h'
        \<and> snmp_asn1_dec_length h' p ofs = Some (Inr (snmp_asn1_enc_length_cnt len, len))))
    \<and> (unat ofs + unat (snmp_asn1_enc_u32t_cnt v) \<le> length D \<longrightarrow>
      (\<exists>h'. snmp_asn1_enc_u32t h p ofs (ucast (snmp_asn1_enc_u32t_cnt v)) v = Some (h', ERR_OK) \<and> rewritten h qs h'
        \<and> snmp_asn1_dec_u32t h' p ofs (snmp_asn1_enc_u32t_cnt v) = Some (Inr v)))
    \<and> (unat ofs + unat (snmp_asn1_enc_s32t_cnt v) \<le> length D \<longrightarrow>
      (\<exists>h'. snmp_asn1_enc_s32t h p ofs (ucast (snmp_asn1_enc_s32t_cnt v)) v = Some (h', ERR_OK) \<and> rewritten h qs h'
        \<and> snmp_asn1_dec_s32t h' p ofs (snmp_asn1_enc_s32t_cnt v) = Some (Inr v)))
    \<and> (0 < raw_len \<and> unat raw_len \<le> length raw \<and> unat ofs + unat raw_len \<le> length D \<longrightarrow>
      (\<exists>h'. snmp_asn1_enc_raw h p ofs raw_len raw = Some (h', ERR_OK) \<and> rewritten h qs h'
        \<and> snmp_asn1_dec_raw h' p ofs (ucast raw_len) (ucast raw_len) = Some (Inr (take (unat raw_len) raw))))"
proof (intro conjI impI)
  assume room: "unat ofs + unat (snmp_asn1_enc_length_cnt len) \<le> length D"
  show "\<exists>h'. snmp_asn1_enc_length h p ofs len = Some (h', ERR_OK) \<and> rewritten h qs h'
      \<and> snmp_asn1_dec_length h' p ofs = Some (Inr (snmp_asn1_enc_length_cnt len, len))"
    by (rule encodesD [OF snmp_asn1_enc_length_encodes [OF assms, of ofs len]])
      (use room length_octets_cnt dec_length_octets in auto)
next
  assume room: "unat ofs + unat (snmp_asn1_enc_u32t_cnt v) \<le> length D"
  show "\<exists>h'. snmp_asn1_enc_u32t h p ofs (ucast (snmp_asn1_enc_u32t_cnt v)) v = Some (h', ERR_OK) \<and> rewritten h qs h'
      \<and> snmp_asn1_dec_u32t h' p ofs (snmp_asn1_enc_u32t_cnt v) = Some (Inr v)"
    by (rule encodesD [OF snmp_asn1_enc_u32t_encodes [OF assms cnt_ucast(2), of ofs v v]])
      (use room cnt_ucast(1) length_u32_octets dec_u32t_octets in auto)
next
  assume room: "unat ofs + unat (snmp_asn1_enc_s32t_cnt v) \<le> length D"
  show "\<exists>h'. snmp_asn1_enc_s32t h p ofs (ucast (snmp_asn1_enc_s32t_cnt v)) v = Some (h', ERR_OK) \<and> rewritten h qs h'
      \<and> snmp_asn1_dec_s32t h' p ofs (snmp_asn1_enc_s32t_cnt v) = Some (Inr v)"
    by (rule encodesD [OF snmp_asn1_enc_s32t_encodes [OF assms cnt_ucast(4), of ofs v v]])
      (use room cnt_ucast(3) length_s32_octets dec_s32t_octets in auto)
next
  assume raw: "0 < raw_len \<and> unat raw_len \<le> length raw \<and> unat ofs + unat raw_len \<le> length D"
  let ?ws = "take (unat raw_len) raw"
  have ws: "?ws \<noteq> []" "length ?ws = unat (ucast raw_len :: u16)"
    using raw unat_lt [of raw_len] by (auto simp: word_less_nat_alt unsigned_ucast_eq take_bit_nat_eq_self)
  show "\<exists>h'. snmp_asn1_enc_raw h p ofs raw_len raw = Some (h', ERR_OK) \<and> rewritten h qs h'
      \<and> snmp_asn1_dec_raw h' p ofs (ucast raw_len) (ucast raw_len) = Some (Inr ?ws)"
    using encodesD [OF snmp_asn1_enc_raw_encodes [OF assms, of raw_len raw ofs]] raw ws dec_raw_octets order_refl by (metis length_take min.absorb2)
qed

theorem asn1_fields_roundtrip_witness:
  "\<exists>h'. snmp_asn1_enc_u32t three_pbufs 1 0 5 4000000000 = Some (h', ERR_OK) \<and> snmp_asn1_dec_u32t h' 1 0 5 = Some (Inr 4000000000)"
proof -
  have "snmp_asn1_enc_u32t_cnt 4000000000 = 5"
    by (simp add: snmp_asn1_enc_u32t_cnt_def)
  then show ?thesis
    using asn1_fields_roundtrip [OF three_pbufs_message, of 0 0 4000000000] by auto
qed

lemma sub_octets_length: "length (sub_octets v) \<le> 5"
proof -
  have "length (group_octets v k tail) \<le> k" for k tail
    by (induction k arbitrary: tail) (auto simp: group_octets.simps(2) Let_def intro: le_SucI)
  then show ?thesis
    by (simp add: sub_octets_def)
qed

lemma oid_octets_length: "length (oid_octets (a # b # ids)) \<le> 1 + 5 * length ids"
proof -
  have "length (concat (map sub_octets ids)) \<le> 5 * length ids"
    by (induction ids) (auto intro: add_mono sub_octets_length)
  then show ?thesis
    by simp
qed

text \<open>C24. Encoding an object identifier of up to 32 numbers, at least three, whose first two numbers fit in the first octet and whose
  others are not negative as \<^verbatim>\<open>s32_t\<close>, at an offset with room for the number of octets counted, and decoding the field gives the
  numbers back. Negative ones, that is those from \<open>2 ^ 31\<close> on, are encoded and decoded too, but their octets are counted as one. No pbuf of
  the message is empty.\<close>

theorem asn1_oid_roundtrip:
  assumes "message h p qs D" "first_ok a b" "ids \<noteq> []" "length ids \<le> 30" "length (oid_id oid) = 32" "\<forall>v\<in>set ids. 0 \<le> sint v"
    and "unat ofs + unat (snmp_asn1_enc_oid_cnt (a # b # ids)) \<le> length D"
  shows "\<exists>h' oid'. snmp_asn1_enc_oid h p ofs (a # b # ids) = Some (h', ERR_OK) \<and> rewritten h qs h'
    \<and> snmp_asn1_dec_oid h' p ofs (snmp_asn1_enc_oid_cnt (a # b # ids)) oid = Some (oid', ERR_OK) \<and> oid_numbers oid' = a # b # ids"
proof -
  have cnt: "unat (snmp_asn1_enc_oid_cnt (a # b # ids)) = length (oid_octets (a # b # ids))"
    using oid_octets_length [of a b ids] assms(4) by (intro snmp_asn1_enc_oid_cnt_octets [OF assms(6)]) linarith
  show ?thesis
  proof (rule encodesD [OF snmp_asn1_enc_oid_encodes [OF assms(1,3), of ofs a b]])
    fix h' D'
    assume "snmp_asn1_enc_oid h p ofs (a # b # ids) = Some (h', ERR_OK)" "message h' p qs D'" "rewritten h qs h'"
      "drop (unat ofs) D' = oid_octets (a # b # ids) @ drop (unat ofs + length (oid_octets (a # b # ids))) D"
    then show ?thesis
      using dec_oid_octets [of h' p qs D' ofs a b ids _ oid] assms(2,4,5) cnt by blast
  qed (use assms(7) cnt in simp)
qed

theorem asn1_oid_roundtrip_witness:
  "\<exists>h' oid'. snmp_asn1_enc_oid three_pbufs 1 0 [1, 3, 6, 4000] = Some (h', ERR_OK)
    \<and> snmp_asn1_dec_oid h' 1 0 4 \<lparr>oid_len = 0, oid_id = replicate 32 0\<rparr> = Some (oid', ERR_OK) \<and> oid_numbers oid' = [1, 3, 6, 4000]"
proof -
  have "snmp_asn1_enc_oid_cnt [1, 3, 6, 4000] = 4"
    by (simp add: snmp_asn1_enc_oid_cnt_def asn1_groups.simps)
  moreover have "first_ok 1 3"
    by (simp add: first_ok_def)
  ultimately show ?thesis
    using asn1_oid_roundtrip [OF three_pbufs_message, of 1 3 "[6, 4000]" "\<lparr>oid_len = 0, oid_id = replicate 32 0\<rparr>" 0] by auto
qed

text \<open>C37. A field of two octets whose second one announces a continuation: the decoder of object identifiers goes on behind the end of the
  field, takes the next octet of the message as a sub-identifier and returns \<^verbatim>\<open>ERR_OK\<close> with four numbers, of which the third is
  whatever the array held before.\<close>

theorem asn1_oid_reads_on:
  assumes "message h p qs D" "drop (unat ofs) D = c # x # y # rest" "x AND 0x80 \<noteq> 0" "y AND 0x80 = 0" "length (oid_id oid) = 32"
  shows "\<exists>oid'. snmp_asn1_dec_oid h p ofs 2 oid = Some (oid', ERR_OK) \<and> oid_len oid' = 4
    \<and> oid_id oid' ! 2 = oid_id oid ! 2 \<and> oid_id oid' ! 3 = ucast y"
proof -
  obtain s where s: "asn1_find h p ofs 0 = Some (Some s)" "reads h s (c # x # y # rest)"
    using dec_reads [OF assms(1,2)] by blast
  obtain s1 where s1: "asn1_next h s = Some (Some s1)" "reads h s1 (x # y # rest)"
    using reads_next [OF s(2)] by auto
  obtain s2 where s2: "asn1_next h s1 = Some (Some s2)" "reads h s2 (y # rest)"
    using reads_next [OF s1(2)] by auto
  let ?o = "oid_first c oid"
  have o: "oid_len ?o = 2" "oid_id ?o ! 2 = oid_id oid ! 2" "length (oid_id ?o) = 32"
    using assms(5) by (simp_all add: oid_first_def Let_def oid_append_def split: if_splits)
  have "asn1_sub_id h 1 0 s1 = Some (Inr (1, 0, s1))"
    using sub_id_steps(2) [OF reads_get [OF s1(2)], of 1 0] by simp
  then have first: "asn1_sub_ids h 1 ?o s1 = Some (Inr (1, ?o, s1))"
    using reads_get [OF s1(2)] assms(3) by (simp add: asn1_sub_ids_def)
  let ?o3 = "?o\<lparr>oid_len := 3\<rparr>"
  have second: "asn1_sub_ids h 1 ?o3 s2 = Some (Inr (0, oid_store (ucast y) ?o3, s2))"
    using reads_get [OF s2(2)] assms(4) by (simp add: asn1_sub_ids_def)
  have "asn1_oid_loop h 1 ?o3 s2 = Some ((oid_store (ucast y) ?o3)\<lparr>oid_len := 4\<rparr>, ERR_OK)"
    using second by (subst asn1_oid_loop.simps) (simp add: oid_loop_done LWIP_SNMP_OBJ_ID_LEN_def)
  then have "asn1_oid_loop h 1 ?o s1 = Some ((oid_store (ucast y) ?o3)\<lparr>oid_len := 4\<rparr>, ERR_OK)"
    using first s2(1) o(1) by (subst asn1_oid_loop.simps) (simp add: LWIP_SNMP_OBJ_ID_LEN_def)
  then show ?thesis
    using s(1) reads_get [OF s(2)] s1(1) o by (simp add: snmp_asn1_dec_oid_def Let_def)
qed

theorem asn1_oid_reads_on_witness:
  "\<exists>oid'. snmp_asn1_dec_oid (three_pbufs\<lparr>blocks := [1 \<mapsto> [0, 0, 0, 0, 0x2B, 0x81, 7], 2 \<mapsto> [0, 0], 3 \<mapsto> [0]]\<rparr>) 1 0 2
      \<lparr>oid_len = 0, oid_id = replicate 32 99\<rparr> = Some (oid', ERR_OK) \<and> oid_len oid' = 4 \<and> oid_id oid' ! 2 = 99 \<and> oid_id oid' ! 3 = 7"
proof -
  let ?h = "three_pbufs\<lparr>blocks := [1 \<mapsto> [0, 0, 0, 0, 0x2B, 0x81, 7], 2 \<mapsto> [0, 0], 3 \<mapsto> [0]]\<rparr>"
  have "message ?h 1 [1, 2] [0x2B, 0x81, 7, 0, 0]"
    by (simp add: message_def three_pbufs_def no_empty_def own_blocks_def pbuf_data_def mem_read_def)
  then show ?thesis
    using asn1_oid_reads_on [OF \<open>message ?h 1 [1, 2] [0x2B, 0x81, 7, 0, 0]\<close>, of 0 "0x2B" "0x81" 7 "[0, 0]" "\<lparr>oid_len = 0, oid_id = replicate 32 99\<rparr>"]
    by simp
qed

end
