(* ===== verification/Spec2Isabelle.thy ===== *)
theory Spec2Isabelle
  imports Wide128_Arith Inet Checksum Pbuf_Alloc Tcp_Life Tcp_Ports Tcp_Timers Tcp_Send Tcp_Wire Udp_Wire Reass_Join Igmp_Groups Netif
    Ip_Demux Mem_Use Asn1_Messages
begin

unbundle bit_operations_syntax

text \<open>
  A verification development for the C code of ns-3 with PLC and Gnosis support: the wide integers of the simulator core and
  the TCP/IP stack lwIP 1.3.0 that the Network Simulation Cradle runs inside the simulator. Paths of the stack are relative to
  \<^verbatim>\<open>src/nsc-0.5.3/lwip-1.3.0/src\<close>.

  \<^bold>\<open>The program.\<close> ns-3 computes times and rates with 64- and 128-bit integers that \<^verbatim>\<open>cairo-wideint.c\<close> builds
  from smaller ones where the compiler has none. The stack is single threaded: the simulator hands it packets (\<^verbatim>\<open>ip_input\<close>),
  calls its timers (\<^verbatim>\<open>tcp_tmr\<close>, \<^verbatim>\<open>ip_reass_tmr\<close>, \<^verbatim>\<open>igmp_tmr\<close>) and, for the application, the raw API
  (\<^verbatim>\<open>tcp_write\<close>, \<^verbatim>\<open>udp_sendto\<close>, ...); the stack calls the application back and gives packets to the
  driver of an interface. A packet is a chain of pbufs with reference counts; on its way down a layer moves the payload pointer
  back and writes its header, on its way up it moves it on. A packet up goes through \<^verbatim>\<open>ip_input\<close>, the reassembly, the
  raw sockets and then \<^verbatim>\<open>udp_input\<close>, \<^verbatim>\<open>tcp_input\<close>, \<^verbatim>\<open>icmp_input\<close> or
  \<^verbatim>\<open>igmp_input\<close>; a packet down goes through \<^verbatim>\<open>ip_output_if\<close> and, over the MTU,
  \<^verbatim>\<open>ip_frag\<close>.

  \<^bold>\<open>How it is modelled.\<close> A struct is a \<^theory_text>\<open>record\<close>, an integer a word of its width, so every wrap-around is the one of
  the code. The heap of pbufs and payload blocks (\<open>heap\<close> in \<open>Pbuf\<close>) is explicit: reading outside a block, using a freed pbuf
  and dereferencing NULL give \<open>None\<close>, and so do loops that do not end, which are \<^theory_text>\<open>partial_function\<close>s; a theorem that gives
  a result \<open>Some\<close> thus says that the call returns and touches no foreign memory. No loop has fuel. The heap has a field that
  decides which allocations fail. All global variables of the stack are the record \<open>stack\<close> in \<open>Stack\<close>: the heap, the tables and
  lists of control blocks, interfaces, datagrams in reassembly and multicast groups, and the trace \<open>link\<close> of what the drivers
  were given (\<^verbatim>\<open>netif->output\<close> and the multicast filter). The callbacks of the application are arguments: functions on the
  whole state. Lists linked through a struct that the code only walks and edits by value are lists of addresses or of records;
  the list of datagrams in reassembly keeps its next pointers, because an error in the code is one of linking. Network byte order
  is modelled as on the little-endian machine of the build: a field is the number the C code would read, and
  \<^verbatim>\<open>htons\<close> swaps.

  \<^bold>\<open>The configuration\<close> is that of \<^verbatim>\<open>include/lwip/lwipopts.h\<close> with the defaults of \<^verbatim>\<open>opt.h\<close>: NO_SYS,
  TCP_MSS 1460, windows of 63 KB, ARP, DHCP, AUTOIP, DNS, SNMP, UDP-Lite and forwarding off, IGMP, reassembly and fragmentation with
  a static buffer on, no assertions.

  \<^bold>\<open>The theories.\<close>
  \<^item> \<open>Prelude\<close>: shared facts on words, lists and options. \<open>Word_Pairs\<close>: numbers held in two words. \<open>Bit_Divide\<close>: the bit-at-a-time
    division as the locale \<open>bit_divide\<close>, and two's complement as the locale \<open>twos_complement\<close>.
  \<^item> \<open>Wide64\<close>, \<open>Wide128\<close>, \<open>Wide128_Arith\<close>: \<^verbatim>\<open>src/ns-3.15/src/core/model/cairo-wideint.c\<close>. The 128-bit routines
    are written over the 64-bit ones, native or in two words, as the build selects: the locale \<open>uint64_impl\<close> is the contract of
    the selection, interpreted on both. The routines are those of integers modulo a power of two, division is exact and returns
    for every divisor but zero.
  \<^item> \<open>Inet\<close>: \<^verbatim>\<open>core/ipv4/inet.c\<close>, printing and parsing of addresses. \<open>Checksum\<close>: \<^verbatim>\<open>core/ipv4/inet_chksum.c\<close>, its
    three algorithms and the checksums of buffers and chains against the sum of RFC 1071.
  \<^item> \<open>Pbuf\<close>, \<open>Pbuf_Chains\<close>, \<open>Pbuf_Alloc\<close>: \<^verbatim>\<open>core/pbuf.c\<close>, with the invariant of chains and the effect of every
    operation on contents, reference counts and the rest of the heap. \<open>Pbuf_Cursor\<close>: positions in a packet, and \<^verbatim>\<open>pbuf_copy\<close>.
  \<^item> \<open>Mem\<close>: \<^verbatim>\<open>core/mem.c\<close>, the heap that lwIP brings along for builds that do not take malloc. \<open>Mem_Blocks\<close>: it implements a list of
    blocks with first fit and merging. \<open>Mem_Use\<close>: a step relation of all its operations; live allocations stay apart, every operation
    returns, nothing is lost; and what sizes near the end of 16 bits do.
  \<^item> \<open>Asn1\<close>: \<^verbatim>\<open>core/snmp/asn1_dec.c\<close> and \<^verbatim>\<open>core/snmp/asn1_enc.c\<close>, the fields of SNMP messages. \<open>Asn1_Fields\<close>: decoders and
    encoders as functions on the list of octets of a message. \<open>Asn1_Roundtrip\<close>, \<open>Asn1_Oid\<close>: lengths, integers, octet strings and object
    identifiers read back. \<open>Asn1_Messages\<close>: the theorems on messages in chains of pbufs, and what malformed identifiers do.
  \<^item> \<open>Stack\<close>: the data of \<^verbatim>\<open>tcp.h\<close>, \<^verbatim>\<open>udp.h\<close>, \<^verbatim>\<open>raw.h\<close>, \<^verbatim>\<open>netif.h\<close>, \<^verbatim>\<open>ip.h\<close>,
    \<^verbatim>\<open>igmp.h\<close> and \<^verbatim>\<open>ip_frag.h\<close> and the state. \<open>Sample\<close>: the concrete stacks of the witnesses. \<open>Headers\<close>: reading back
    headers that were written.
  \<^item> \<open>Ip_Frag\<close>, \<open>Ip\<close>: \<^verbatim>\<open>ip_frag\<close> of \<^verbatim>\<open>core/ipv4/ip_frag.c\<close>, \<^verbatim>\<open>core/ipv4/ip_addr.c\<close> and the routing and
    output of \<^verbatim>\<open>core/ipv4/ip.c\<close>. \<open>Fragments\<close>: the fragments carry the datagram; an MTU below 28 hangs. \<open>Ip_Wire\<close>: the packet
    that \<^verbatim>\<open>ip_output_if\<close> gives to the driver, the shared base of the theorems on UDP, TCP and ICMP output.
  \<^item> \<open>Ip_Reass\<close>: the reassembly half of \<^verbatim>\<open>ip_frag.c\<close>. \<open>Reassembly\<close>: how a fragment is queued and when a datagram counts as
    complete, and the dangling entry after making room. \<open>Reass_Join\<close>: a complete datagram becomes one packet.
  \<^item> \<open>Icmp\<close>: \<^verbatim>\<open>core/ipv4/icmp.c\<close>; \<open>Icmp_Wire\<close>: the echo reply. \<open>Igmp\<close>: \<^verbatim>\<open>core/ipv4/igmp.c\<close>; \<open>Igmp_Groups\<close>: its
    step relation and the invariant of the list of groups.
  \<^item> \<open>Udp\<close>: \<^verbatim>\<open>core/udp.c\<close>; \<open>Udp_Wire\<close>: the datagram sent, the block that receives, the choice of ports. \<open>Raw\<close>:
    \<^verbatim>\<open>core/raw.c\<close>. \<open>Netif\<close>: \<^verbatim>\<open>core/netif.c\<close>.
  \<^item> \<open>Tcp_Out\<close>, \<open>Tcp\<close>, \<open>Tcp_In\<close>: \<^verbatim>\<open>core/tcp_out.c\<close>, \<^verbatim>\<open>core/tcp.c\<close>, \<^verbatim>\<open>core/tcp_in.c\<close>. \<open>Seqno\<close>: sequence
    numbers as the locale \<open>circular_order\<close>. \<open>Tcp_Options\<close>: the option parser. \<open>Segments\<close>, \<open>Tcp_Ack\<close>: acknowledgements, the
    congestion window, the round trip estimate. \<open>Tcp_Frame\<close>, \<open>Tcp_Receive\<close>, \<open>Tcp_State\<close>: what each function leaves alone, and the
    state machine as a refinement of the diagram of RFC 793. \<open>Tcp_Life\<close>: the bounds of every control block after any sequence of
    calls (the locale \<open>tcp_invariant\<close>, interpreted on the stack). \<open>Tcp_Ports\<close>, \<open>Tcp_Timers\<close>: binding and the slow timer.
    \<open>Tcp_Send\<close>: the send queue covers one range of sequence numbers, output keeps to the windows. \<open>Tcp_Wire\<close>: the segment on the
    wire.
  \<^item> \<open>Ip_Input\<close>: \<^verbatim>\<open>ip_input\<close>, which ties the protocols together. \<open>Ip_Demux\<close>: which packets it drops, how it trims the others and which
    protocol gets them. This theory: a ping through the whole stack.

  \<^bold>\<open>Bounds.\<close> The theorems on packets in one pbuf (\<open>laid_out\<close>) have the whole packet in contiguous memory, as
  \<^verbatim>\<open>sim_support.cpp\<close> allocates it; lengths are limited only by the 16-bit fields. The theorems on \<^verbatim>\<open>ip_input\<close> are for
  a host without raw sockets, the one on pings for a host with one interface. The echo reply covers both ways of \<^verbatim>\<open>icmp_input\<close>: in place when there is room for a link
  header in front of the packet, in a copy when there is none. The heap of \<^verbatim>\<open>mem.c\<close> is for sizes up to 64000 octets and alignments up to 16;
  its users pass any size to \<^verbatim>\<open>mem_malloc\<close> and \<^verbatim>\<open>mem_realloc\<close>, where one whose rounding wraps around counts as one octet, and
  to \<^verbatim>\<open>mem_calloc\<close> only products that can be rounded up in 16 bits. The theorems on copying packets (\<open>Pbuf_Cursor\<close>) and on the
  fields of SNMP messages (\<open>message\<close> in \<open>Asn1_Fields\<close>) are for chains without empty pbufs (\<open>no_empty\<close>): on an empty one the code reads
  outside of it or dereferences NULL, which \<open>asn1_reads_empty_pbuf\<close> and \<open>pbuf_copy_empty_tail\<close> show. The callbacks of the application
  are any functions on the state; the theorems on TCP say what they need of them (\<open>closes_only\<close>, \<open>leaves_freed\<close>, \<open>callbacks_ok\<close>), and
  \<open>app_calls_close\<close> in \<open>Tcp_Life\<close> shows that callbacks have it which call the functions of the raw API on existing blocks (settings,
  write, output, taking data, close).

  \<^bold>\<open>Not modelled.\<close> \<^verbatim>\<open>memp.c\<close> is replaced by malloc in this build, which the heap of pbufs models; \<^verbatim>\<open>mem.c\<close> is modelled for itself,
  as the build leaves it out too, and so are the fields of SNMP messages. The SNMP agent, DHCP,
  AUTOIP, DNS, IPv6, the sequential and socket API and the ARP, SLIP and PPP link layers are not compiled in. The glue
  \<^verbatim>\<open>nsc/support.c\<close> and \<^verbatim>\<open>nsc/sim_support.cpp\<close> passes calls between C++ and the stack. The other stacks of the cradle
  (Linux, FreeBSD, OpenBSD and a later lwIP) are vendored kernels. The simulator itself, with its PLC and Gnosis models, is C++ and
  Python. Statistics and debug printing are left out everywhere.

  \<^bold>\<open>Next.\<close> Theorems on raw sockets and on changing the address of an interface; reassembly from the first fragment to the last
  through \<^verbatim>\<open>ip_input\<close>; fragmentation followed by reassembly as a round trip.
\<close>

text \<open>C1. A host answers a ping: an echo request for the address of its only interface, with a sound IP header, sent by a proper host, that
  arrives in one pbuf, with room for a link header in front of it or else with memory for a copy, makes \<^verbatim>\<open>ip_input\<close> send one packet back to the sender,
  with the addresses exchanged, a fresh time to live, a header checksum that verifies, the type changed to echo reply and identifier,
  sequence number and data as they came; the pbuf is freed. The checksum of the message is adjusted without reading the data, and the
  result verifies exactly when the code, the identifier, the sequence number and the data are not all zero: the all-zero message gets
  the checksum 0 where 0xffff is right.\<close>

theorem ping_answered:
  assumes "laid_out (mem s) p b [] (ip_hdr_octets iphdr @ [8, code] @ mem_bytes16 c @ body) blk buf i"
    and "14 \<le> i \<or> heap_ok (mem s) \<and> mem_ok (mem s) (brk (mem s))" "p_ref b = 1" and "IPH_V iphdr = 4" "IPH_HL iphdr = 5" "unat (ntohs (ih_len iphdr)) = 24 + length body" "ih_offset iphdr AND htons (IP_OFFMASK OR IP_MF) = 0"
    and "IPH_PROTO iphdr = ucast IP_PROTO_ICMP" "inet_chksum (ip_hdr_octets iphdr) = 0" "inet_chksum ([8, code] @ mem_bytes16 c @ body) = 0"
    and "netif_list s = [inp]" "inp \<noteq> NULL" "netifs s inp = Some nf" "netif_is_up nf" "nf_ip_addr nf \<noteq> 0" "ih_dest iphdr = nf_ip_addr nf"
    and "\<not> ip_addr_isbroadcast (ih_dest iphdr) nf" "\<not> ip_addr_ismulticast (ih_dest iphdr)"
    and "\<not> ip_addr_isbroadcast (ih_src iphdr) nf" "\<not> ip_addr_ismulticast (ih_src iphdr)"
    and "4 \<le> length body" "length body < 65478" "nf_mtu nf = 0 \<or> 24 + length body \<le> unat (nf_mtu nf)" "raw_pcbs s = []"
  shows "\<exists>s' hdr c'. ip_input app s p inp = Some (s', ERR_OK) \<and> pbufs (mem s') p = None
    \<and> link s' = link s @ [Output inp (ip_hdr_octets hdr @ [0, code] @ mem_bytes16 c' @ body) (ih_src iphdr)]
    \<and> ih_src hdr = nf_ip_addr nf \<and> ih_dest hdr = ih_src iphdr \<and> IPH_TTL hdr = 255 \<and> inet_chksum (ip_hdr_octets hdr) = 0
    \<and> (inet_chksum ([0, code] @ mem_bytes16 c' @ body) = 0 \<longleftrightarrow> code \<noteq> 0 \<or> (\<exists>x\<in>set body. x \<noteq> 0))"
proof -
  have "20 \<le> unat (p_len b)"
    using laid_out_one(1) [OF assms(1)] by simp
  then have "ip_input app s p inp = map_option (\<lambda>s'. (s', ERR_OK)) (icmp_input s p inp)"
    using ip_input_demux [OF assms(1), of inp nf app] assms(4-9,11-20,24)
    by (simp add: upper_layer_def IP_PROTO_ICMP_def IP_PROTO_UDP_def IP_PROTO_TCP_def)
  then show ?thesis
    using icmp_echo_answered [OF assms(1-3,5,21,22,10,13,17,18,23)] assms(16) by auto
qed

theorem ping_answered_witness:
  "\<forall>app. \<exists>s' hdr c'. ip_input app ping_stack 2 1 = Some (s', ERR_OK)
    \<and> link s' = [Output 1 (ip_hdr_octets hdr @ [0, 0] @ mem_bytes16 c' @ [0, 0, 0, 1, 7]) 0x0200000A]
    \<and> inet_chksum ([0, 0] @ mem_bytes16 c' @ [0, 0, 0, 1, 7]) = 0"
proof
  fix app
  show "\<exists>s' hdr c'. ip_input app ping_stack 2 1 = Some (s', ERR_OK)
    \<and> link s' = [Output 1 (ip_hdr_octets hdr @ [0, 0] @ mem_bytes16 c' @ [0, 0, 0, 1, 7]) 0x0200000A]
    \<and> inet_chksum ([0, 0] @ mem_bytes16 c' @ [0, 0, 0, 1, 7]) = 0"
    using ping_answered [OF ping_facts(1) _ ping_facts(7) ping_demux(1) ping_facts(2) _ ping_demux(4,2) ping_hdr_fields(7) ping_facts(3)
        ping_demux(5) _ ping_facts(4) ping_demux(6) _ _ ping_facts(5,6) ping_demux(10,11), of app] ping_facts(8-) ping_demux(3,7,8)
    by fastforce
qed

end
